(* ===== verification/Prelude.thy ===== *)
theory Prelude
  imports Main "HOL-Library.AList" "HOL-Library.Char_ord" "HOL-Library.List_Lexorder"
    "HOL-Library.Multiset" "HOL-Library.Word"
begin

text \<open>
  Shared vocabulary of the development: the parts of the JavaScript run-time library that the
  modelled sources use (string operations, decimal rendering, insertion-ordered \<open>Map\<close> and
  \<open>Set\<close>, stable \<open>Array.prototype.sort\<close>), the generic facts about them, and the
  interface locales that several components instantiate.

  Conventions. A JavaScript string is a \<^typ>\<open>string\<close>; its characters are code units below
  256, which covers every identifier, address, hash and amount the modelled code handles. Case
  conversion is the ASCII one. A \<open>Map\<close> is an association list kept in insertion order:
  \<open>set\<close> is \<^const>\<open>AList.update\<close> (in place, or appended), \<open>delete\<close> is
  \<^const>\<open>AList.delete\<close>, \<open>get\<close> is \<^const>\<open>map_of\<close>. A \<open>Set\<close> is a distinct list in
  insertion order. \<open>BigInt\<close> values are \<^typ>\<open>int\<close>. A thrown error is \<^const>\<open>Inl\<close>.
\<close>

named_theorems sim_defs \<open>definitions of the detectors of the simulation engine\<close>
named_theorems bit_arith \<open>bit operations as arithmetic\<close>
named_theorems js_str \<open>facts on the string operations of the run-time library\<close>

type_synonym byte = "8 word"
type_synonym bytes = "8 word list"
type_synonym ('k, 'v) jsmap = "('k \<times> 'v) list"
type_synonym 'a jsset = "'a list"

unbundle bit_operations_syntax

section \<open>Sets and maps in insertion order\<close>

definition set_add :: "'a \<Rightarrow> 'a jsset \<Rightarrow> 'a jsset" where
  "set_add x xs = (if x \<in> set xs then xs else xs @ [x])"

fun set_from :: "'a jsset \<Rightarrow> 'a list \<Rightarrow> 'a jsset" where
  "set_from acc [] = acc"
| "set_from acc (x # xs) = set_from (set_add x acc) xs"

lemma set_set_add [simp]: "set (set_add x xs) = insert x (set xs)"
  by (auto simp: set_add_def)

lemma distinct_set_add [simp]: "distinct (set_add x xs) = distinct xs"
  by (auto simp: set_add_def)

lemma set_set_from [simp]: "set (set_from acc xs) = set acc \<union> set xs"
  by (induction xs arbitrary: acc) auto

lemma distinct_set_from [simp]: "distinct (set_from acc xs) = distinct acc"
  by (induction xs arbitrary: acc) auto

lemma length_set_from: "distinct acc \<Longrightarrow> length (set_from acc xs) = card (set acc \<union> set xs)"
  by (metis distinct_card distinct_set_from set_set_from)

lemma map_of_update [simp]:
  "map_of (AList.update k v m) k' = (if k' = k then Some v else map_of m k')"
  by (simp add: update_conv')

lemma map_of_delete [simp]:
  "map_of (AList.delete k m) k' = (if k' = k then None else map_of m k')"
  by (simp add: delete_conv')

lemma distinct_fst_update: "distinct (map fst m) \<Longrightarrow> distinct (map fst (AList.update k v m))"
  by (rule distinct_update)

lemma distinct_fst_delete: "distinct (map fst m) \<Longrightarrow> distinct (map fst (AList.delete k m))"
  by (rule distinct_delete)

lemma mem_map_filter: "y \<in> set (List.map_filter f xs) \<longleftrightarrow> (\<exists>x \<in> set xs. f x = Some y)"
  by (induction xs) (auto split: option.splits)

lemma not_Nil_mem: "xs \<noteq> [] \<longleftrightarrow> (\<exists>x. x \<in> set xs)"
  by (cases xs) auto

section \<open>Stable sorting by a comparator\<close>

text \<open>
  \<open>Array.prototype.sort(cmp)\<close> is a stable sort. Inserting the elements from left to right, each
  after the elements that compare equal to it, gives the result of every stable sort.
\<close>

fun ins_by :: "('a \<Rightarrow> 'a \<Rightarrow> int) \<Rightarrow> 'a \<Rightarrow> 'a list \<Rightarrow> 'a list" where
  "ins_by cmp x [] = [x]"
| "ins_by cmp x (y # ys) = (if cmp x y < 0 then x # y # ys else y # ins_by cmp x ys)"

definition js_sort :: "('a \<Rightarrow> 'a \<Rightarrow> int) \<Rightarrow> 'a list \<Rightarrow> 'a list" where
  "js_sort cmp xs = foldl (\<lambda>acc x. ins_by cmp x acc) [] xs"

lemma mset_ins_by [simp]: "mset (ins_by cmp x ys) = add_mset x (mset ys)"
  by (induction ys) auto

lemma mset_foldl_ins_by:
  "mset (foldl (\<lambda>acc x. ins_by cmp x acc) acc xs) = mset acc + mset xs"
  by (induction xs arbitrary: acc) auto

lemma mset_js_sort [simp]: "mset (js_sort cmp xs) = mset xs"
  by (simp add: js_sort_def mset_foldl_ins_by)

lemma set_js_sort [simp]: "set (js_sort cmp xs) = set xs"
  by (metis mset_js_sort set_mset_mset)

lemma length_js_sort [simp]: "length (js_sort cmp xs) = length xs"
  by (metis mset_js_sort size_mset)

lemma distinct_js_sort [simp]: "distinct (js_sort cmp xs) = distinct xs"
  by (metis mset_eq_imp_distinct_iff mset_js_sort)

lemma js_sort_Nil [simp]: "js_sort cmp [] = []"
  by (simp add: js_sort_def)

lemma sum_list_js_sort: "sum_list (map f (js_sort cmp xs)) = (sum_list (map f xs) :: int)"
proof -
  have "mset (map f (js_sort cmp xs)) = mset (map f xs)" by simp
  then show ?thesis by (metis sum_mset_sum_list)
qed

text \<open>A comparator is consistent when it is a total preorder; then the result is ordered.\<close>

definition cmp_ok :: "('a \<Rightarrow> 'a \<Rightarrow> int) \<Rightarrow> bool" where
  "cmp_ok cmp \<longleftrightarrow> (\<forall>x y. cmp x y < 0 \<or> cmp y x \<le> 0)
     \<and> (\<forall>x y z. cmp x y \<le> 0 \<longrightarrow> cmp y z \<le> 0 \<longrightarrow> cmp x z \<le> 0)"

lemma sorted_ins_by:
  assumes "cmp_ok cmp" and "sorted_wrt (\<lambda>x y. cmp x y \<le> 0) ys"
  shows "sorted_wrt (\<lambda>x y. cmp x y \<le> 0) (ins_by cmp x ys)"
  using assms(2)
proof (induction ys)
  case Nil
  then show ?case by simp
next
  case (Cons y ys)
  have trans: "cmp a b \<le> 0 \<Longrightarrow> cmp b c \<le> 0 \<Longrightarrow> cmp a c \<le> 0" for a b c
    using assms(1) by (auto simp: cmp_ok_def)
  show ?case
  proof (cases "cmp x y < 0")
    case True
    then show ?thesis using Cons.prems trans[of x y] by fastforce
  next
    case False
    then have "cmp y x \<le> 0" using assms(1) by (auto simp: cmp_ok_def)
    moreover have "set (ins_by cmp x ys) = insert x (set ys)"
      by (metis mset_ins_by set_mset_add_mset_insert set_mset_mset)
    ultimately show ?thesis using False Cons by auto
  qed
qed

lemma sorted_js_sort:
  assumes "cmp_ok cmp"
  shows "sorted_wrt (\<lambda>x y. cmp x y \<le> 0) (js_sort cmp xs)"
proof -
  have "sorted_wrt (\<lambda>x y. cmp x y \<le> 0) acc \<Longrightarrow>
      sorted_wrt (\<lambda>x y. cmp x y \<le> 0) (foldl (\<lambda>acc x. ins_by cmp x acc) acc xs)" for acc
    by (induction xs arbitrary: acc) (auto intro: sorted_ins_by[OF assms])
  then show ?thesis by (simp add: js_sort_def)
qed

section \<open>Strings\<close>

abbreviation char_code :: "char \<Rightarrow> nat" where "char_code c \<equiv> of_char c"

definition to_lower_char :: "char \<Rightarrow> char" where
  "to_lower_char c = (if 65 \<le> char_code c \<and> char_code c \<le> 90 then char_of (char_code c + 32) else c)"

definition to_upper_char :: "char \<Rightarrow> char" where
  "to_upper_char c = (if 97 \<le> char_code c \<and> char_code c \<le> 122 then char_of (char_code c - 32) else c)"

definition toLowerCase :: "string \<Rightarrow> string" where "toLowerCase s = map to_lower_char s"
definition toUpperCase :: "string \<Rightarrow> string" where "toUpperCase s = map to_upper_char s"

text \<open>The white space that \<open>String.prototype.trim\<close> removes, among the code units below 256.\<close>

definition is_space :: "char \<Rightarrow> bool" where
  "is_space c \<longleftrightarrow> char_code c \<in> {9, 10, 11, 12, 13, 32, 160}"

definition trim :: "string \<Rightarrow> string" where
  "trim s = rev (dropWhile is_space (rev (dropWhile is_space s)))"

definition startsWith :: "string \<Rightarrow> string \<Rightarrow> bool" where
  "startsWith s p = (take (length p) s = p)"

definition endsWith :: "string \<Rightarrow> string \<Rightarrow> bool" where
  "endsWith s p = startsWith (rev s) (rev p)"

fun str_includes :: "string \<Rightarrow> string \<Rightarrow> bool" where
  "str_includes [] p = (p = [])"
| "str_includes (c # s) p = (startsWith (c # s) p \<or> str_includes s p)"

fun split_on :: "char \<Rightarrow> string \<Rightarrow> string list" where
  "split_on d [] = [[]]"
| "split_on d (c # s) =
     (if c = d then [] # split_on d s
      else case split_on d s of [] \<Rightarrow> [[c]] | w # ws \<Rightarrow> (c # w) # ws)"

definition join_with :: "string \<Rightarrow> string list \<Rightarrow> string" where
  "join_with d ws = (case ws of [] \<Rightarrow> [] | w # ws \<Rightarrow> w @ concat (map (\<lambda>v. d @ v) ws))"

definition padStart :: "nat \<Rightarrow> char \<Rightarrow> string \<Rightarrow> string" where
  "padStart n c s = replicate (n - length s) c @ s"

definition padEnd :: "nat \<Rightarrow> char \<Rightarrow> string \<Rightarrow> string" where
  "padEnd n c s = s @ replicate (n - length s) c"

lemma split_on_not_Nil [simp]: "split_on d s \<noteq> []"
  by (induction s) (auto split: list.splits)

lemma split_on_absent [js_str]: "d \<notin> set s \<Longrightarrow> split_on d s = [s]"
  by (induction s) auto

lemma split_on_first [js_str]:
  "d \<notin> set s \<Longrightarrow> split_on d (s @ d # t) = s # split_on d t"
  by (induction s) auto

lemma trim_id: "(\<And>c. c \<in> set s \<Longrightarrow> \<not> is_space c) \<Longrightarrow> trim s = s"
proof -
  assume a: "\<And>c. c \<in> set s \<Longrightarrow> \<not> is_space c"
  have "dropWhile is_space u = u" if "set u \<subseteq> set s" for u
    using that a by (cases u) auto
  then show ?thesis by (simp add: trim_def)
qed

lemma to_lower_idem [simp]: "to_lower_char (to_lower_char c) = to_lower_char c"
  by (auto simp: to_lower_char_def)

lemma toLowerCase_idem [simp]: "toLowerCase (toLowerCase s) = toLowerCase s"
  by (simp add: toLowerCase_def)

lemma length_toLowerCase [simp]: "length (toLowerCase s) = length s"
  by (simp add: toLowerCase_def)

text \<open>\<open>indexOf\<close> on an array or a string of single characters; -1 is \<^const>\<open>None\<close>.\<close>

fun index_of :: "'a list \<Rightarrow> 'a \<Rightarrow> nat option" where
  "index_of [] x = None"
| "index_of (y # ys) x = (if y = x then Some 0 else map_option Suc (index_of ys x))"

lemma index_of_Some: "index_of ys x = Some i \<Longrightarrow> i < length ys \<and> ys ! i = x"
  by (induction ys arbitrary: i) (auto split: if_splits)

lemma index_of_nth: "distinct ys \<Longrightarrow> i < length ys \<Longrightarrow> index_of ys (ys ! i) = Some i"
  by (induction ys arbitrary: i) (auto simp: nth_Cons split: nat.splits)

lemma index_of_mem: "index_of ys x = Some i \<Longrightarrow> x \<in> set ys"
  by (induction ys arbitrary: i) (auto split: if_splits)

lemma index_of_None: "index_of ys x = None \<longleftrightarrow> x \<notin> set ys"
  by (induction ys) auto

subsection \<open>Positional numerals\<close>

text \<open>The number a digit sequence denotes, most significant digit first.\<close>

definition radix :: "nat \<Rightarrow> nat list \<Rightarrow> nat" where
  "radix b ds = foldl (\<lambda>a d. a * b + d) 0 ds"

lemma radix_Nil [simp]: "radix b [] = 0"
  by (simp add: radix_def)

lemma radix_snoc [simp]: "radix b (ds @ [d]) = radix b ds * b + d"
  by (simp add: radix_def)

lemma radix_append: "radix b (xs @ ys) = radix b xs * b ^ length ys + radix b ys"
  by (induction ys rule: rev_induct) (simp_all add: algebra_simps flip: append_assoc)

lemma radix_Cons: "radix b (d # ds) = d * b ^ length ds + radix b ds"
  using radix_append[of b "[d]" ds] by (simp add: radix_def)

lemma radix_less:
  assumes "\<And>d. d \<in> set ds \<Longrightarrow> d < b"
  shows "radix b ds < b ^ length ds"
  using assms
proof (induction ds rule: rev_induct)
  case (snoc d ds)
  then have "radix b ds + 1 \<le> b ^ length ds" "d < b" by force+
  then have "(radix b ds + 1) * b \<le> b ^ length ds * b" by (intro mult_le_mono1)
  then show ?case using \<open>d < b\<close> by (simp add: algebra_simps)
qed simp

lemma radix_inj:
  assumes "length xs = length ys" "radix b xs = radix b ys"
    and "\<And>d. d \<in> set xs \<Longrightarrow> d < b" "\<And>d. d \<in> set ys \<Longrightarrow> d < b"
  shows "xs = ys"
  using assms
proof (induction xs arbitrary: ys rule: rev_induct)
  case (snoc x xs)
  then obtain y ys' where y: "ys = ys' @ [y]" by (cases ys rule: rev_exhaust) auto
  have lt: "x < b" "y < b" using snoc.prems y by auto
  have eq: "radix b xs * b + x = radix b ys' * b + y" using snoc.prems y by simp
  have "x = y" using arg_cong[OF eq, of "\<lambda>n. n mod b"] lt by simp
  moreover have "radix b xs = radix b ys'" using eq \<open>x = y\<close> lt by simp
  ultimately show ?case using snoc.IH[of ys'] snoc.prems y by simp
qed simp

subsection \<open>Decimal numerals\<close>

definition is_digit :: "char \<Rightarrow> bool" where
  "is_digit c \<longleftrightarrow> 48 \<le> char_code c \<and> char_code c \<le> 57"

definition digit_char :: "nat \<Rightarrow> char" where
  "digit_char d = char_of (48 + d)"

definition digit_val :: "char \<Rightarrow> nat" where
  "digit_val c = char_code c - 48"

fun nat_str :: "nat \<Rightarrow> string" where
  "nat_str n = (if n < 10 then [digit_char n] else nat_str (n div 10) @ [digit_char (n mod 10)])"

declare nat_str.simps [simp del]

definition dec_val :: "string \<Rightarrow> nat" where
  "dec_val s = foldl (\<lambda>a c. a * 10 + digit_val c) 0 s"

text \<open>\<open>BigInt.prototype.toString()\<close>.\<close>

definition int_str :: "int \<Rightarrow> string" where
  "int_str i = (if i < 0 then ''-'' @ nat_str (nat (- i)) else nat_str (nat i))"

lemma code_digit_char [simp]: "d < 10 \<Longrightarrow> char_code (digit_char d) = 48 + d"
  by (simp add: digit_char_def)

lemma digit_val_char [simp]: "d < 10 \<Longrightarrow> digit_val (digit_char d) = d"
  by (simp add: digit_val_def)

lemma is_digit_char [simp]: "d < 10 \<Longrightarrow> is_digit (digit_char d)"
  by (simp add: is_digit_def)

lemma nat_str_digits: "c \<in> set (nat_str n) \<Longrightarrow> is_digit c"
proof (induction n rule: nat_str.induct)
  case (1 n)
  then show ?case by (subst (asm) nat_str.simps) (auto split: if_splits)
qed

lemma nat_str_not_Nil [simp]: "nat_str n \<noteq> []"
  by (subst nat_str.simps) simp

text \<open>\<open>parseInt(s, 10)\<close>: leading white space, an optional sign and the longest run of digits; \<open>NaN\<close> is
  \<^const>\<open>None\<close>.\<close>

definition parseInt10 :: "string \<Rightarrow> int option" where
  "parseInt10 s =
     (let t = dropWhile is_space s;
          negative = (t \<noteq> [] \<and> hd t = CHR ''-'');
          u = (if t \<noteq> [] \<and> (hd t = CHR ''-'' \<or> hd t = CHR ''+'') then tl t else t);
          ds = takeWhile is_digit u in
      if ds = [] then None else Some (if negative then - int (dec_val ds) else int (dec_val ds)))"

lemma parseInt10_digits:
  assumes "w \<noteq> []" "list_all is_digit w"
  shows "parseInt10 w = Some (int (dec_val w))"
proof -
  have h: "is_digit (hd w)" using assms by (cases w) auto
  then have "\<not> is_space (hd w)" "hd w \<noteq> CHR ''-''" "hd w \<noteq> CHR ''+''" by (auto simp: is_digit_def is_space_def)
  moreover have "dropWhile is_space w = w" using calculation assms(1) by (cases w) auto
  moreover have tw: "takeWhile is_digit w = w" using assms(2) by (simp add: list_all_iff)
  ultimately show ?thesis using assms(1) by (simp add: parseInt10_def Let_def tw del: takeWhile_eq_all_conv)
qed

lemma dec_val_snoc: "dec_val (s @ [c]) = dec_val s * 10 + digit_val c"
  by (simp add: dec_val_def)

lemma dec_val_nat_str [simp]: "dec_val (nat_str n) = n"
proof (induction n rule: nat_str.induct)
  case (1 n)
  show ?case
  proof (cases "n < 10")
    case True
    then show ?thesis by (subst nat_str.simps) (simp add: dec_val_def)
  next
    case False
    with 1 show ?thesis by (subst nat_str.simps) (simp add: dec_val_snoc)
  qed
qed

lemma dec_val_append: "dec_val (s @ t) = dec_val s * 10 ^ length t + dec_val t"
proof (induction t rule: rev_induct)
  case Nil
  then show ?case by (simp add: dec_val_def)
next
  case (snoc c t)
  then show ?case
    by (simp add: dec_val_snoc algebra_simps flip: append_assoc)
qed

lemma dec_val_zeros: "dec_val (replicate n CHR ''0'') = 0"
  by (induction n) (auto simp: dec_val_def digit_val_def)

lemma dec_val_padStart: "dec_val (padStart n CHR ''0'' s) = dec_val s"
  by (simp add: padStart_def dec_val_append dec_val_zeros)

lemma nat_str_length: "n < 10 ^ k \<Longrightarrow> 0 < k \<Longrightarrow> length (nat_str n) \<le> k"
proof (induction n arbitrary: k rule: nat_str.induct)
  case (1 n)
  show ?case
  proof (cases "n < 10")
    case True
    then show ?thesis using 1 by (subst nat_str.simps) auto
  next
    case False
    have "k \<noteq> 1" using 1 False by auto
    then obtain j where k: "k = Suc j" "0 < j" using 1(3) by (cases k) auto
    have "n div 10 < 10 ^ j" using 1(2) k by (simp add: less_mult_imp_div_less mult.commute)
    then have "length (nat_str (n div 10)) \<le> j" using 1(1)[OF False _ k(2)] by simp
    then show ?thesis using False k by (subst nat_str.simps) auto
  qed
qed

subsection \<open>Bit operations on natural numbers\<close>

lemma push_bit_or_add [bit_arith]: "b < 2 ^ n \<Longrightarrow> push_bit n a OR b = a * 2 ^ n + (b :: nat)"
proof -
  assume b: "b < 2 ^ n"
  have "push_bit n a AND b = 0"
  proof (rule bit_eqI)
    fix m
    show "bit (push_bit n a AND b) m \<longleftrightarrow> bit (0 :: nat) m"
    proof (cases "n \<le> m")
      case True
      then have "b < 2 ^ m" using b by (meson less_le_trans one_le_numeral power_increasing)
      then have "\<not> bit b m" by (simp add: bit_iff_odd)
      then show ?thesis by (simp add: bit_and_iff)
    qed (simp add: bit_and_iff bit_push_bit_iff_nat)
  qed
  then show ?thesis by (simp flip: disjunctive_add_eq_or add: push_bit_eq_mult)
qed

lemma and_mask_mod [bit_arith]: "x AND (2 ^ n - 1) = (x :: nat) mod 2 ^ n"
  using take_bit_eq_mask[of n x] by (simp add: take_bit_eq_mod mask_eq_exp_minus_1)

lemma and_ff_mod [bit_arith]: "x AND 0xff = (x :: nat) mod 256"
  using and_mask_mod[of x 8] by simp

lemma and_1f_mod [bit_arith]: "x AND 0x1f = (x :: nat) mod 32"
  using and_mask_mod[of x 5] by simp

section \<open>Interface locales\<close>

text \<open>A pair of an encoder and a partial decoder that inverts it.\<close>

locale codec =
  fixes enc :: "'a \<Rightarrow> 'b" and dec :: "'b \<Rightarrow> 'a option" and wf :: "'a \<Rightarrow> bool"
  assumes dec_enc: "wf x \<Longrightarrow> dec (enc x) = Some x"
begin

lemma enc_inject: "wf x \<Longrightarrow> wf y \<Longrightarrow> enc x = enc y \<longleftrightarrow> x = y"
  using dec_enc by (metis option.inject)

lemma enc_inj_on: "inj_on enc {x. wf x}"
  by (rule inj_onI) (simp add: enc_inject)

end

text \<open>The decoder accepts canonical encodings only.\<close>

locale canonical_codec = codec enc dec wf
  for enc :: "'a \<Rightarrow> 'b" and dec :: "'b \<Rightarrow> 'a option" and wf :: "'a \<Rightarrow> bool" +
  fixes ok :: "'b \<Rightarrow> bool"
  assumes enc_dec: "ok s \<Longrightarrow> dec s = Some x \<Longrightarrow> enc x = s"
begin

lemma dec_inject: "ok s \<Longrightarrow> ok t \<Longrightarrow> dec s = Some x \<Longrightarrow> dec t = Some x \<Longrightarrow> s = t"
  using enc_dec by metis

end

text \<open>A state machine driven by a list of events, with an invariant that every step keeps.\<close>

locale inv_machine =
  fixes step :: "'s \<Rightarrow> 'e \<Rightarrow> 's" and inv :: "'s \<Rightarrow> bool"
  assumes step_inv: "inv s \<Longrightarrow> inv (step s e)"
begin

lemma run_inv: "inv s \<Longrightarrow> inv (foldl step s es)"
  by (induction es arbitrary: s) (auto intro: step_inv)

end

text \<open>
  First-wins deduplication by a key: the list keeps, in order, the first element of every key.
\<close>

fun first_wins :: "('a \<Rightarrow> 'k) \<Rightarrow> 'k set \<Rightarrow> 'a list \<Rightarrow> 'a list" where
  "first_wins key seen [] = []"
| "first_wins key seen (x # xs) =
     (if key x \<in> seen then first_wins key seen xs
      else x # first_wins key (insert (key x) seen) xs)"

locale deduper =
  fixes dedupe :: "'a list \<Rightarrow> 'a list" and key :: "'a \<Rightarrow> 'k"
  assumes dedupe_first_wins: "dedupe xs = first_wins key {} xs"
begin

lemma keys_first_wins: "key ` set (first_wins key seen xs) = key ` set xs - seen"
  by (induction xs arbitrary: seen) auto

lemma distinct_first_wins: "distinct (map key (first_wins key seen xs))"
proof (induction xs arbitrary: seen)
  case (Cons x xs)
  have "key x \<notin> key ` set (first_wins key (insert (key x) seen) xs)"
    by (simp add: keys_first_wins)
  with Cons show ?case by auto
qed simp

lemma first_wins_subset: "set (first_wins key seen xs) \<subseteq> set xs"
  by (induction xs arbitrary: seen) auto

lemma first_wins_id:
  "distinct (map key xs) \<Longrightarrow> key ` set xs \<inter> seen = {} \<Longrightarrow> first_wins key seen xs = xs"
  by (induction xs arbitrary: seen) auto

lemma first_wins_all_seen: "key ` set xs \<subseteq> seen \<Longrightarrow> first_wins key seen xs = []"
  by (induction xs arbitrary: seen) auto

lemma keys: "key ` set (dedupe xs) = key ` set xs"
  by (simp add: dedupe_first_wins keys_first_wins)

lemma distinct_keys: "distinct (map key (dedupe xs))"
  by (simp add: dedupe_first_wins distinct_first_wins)

lemma subset: "set (dedupe xs) \<subseteq> set xs"
  by (simp add: dedupe_first_wins first_wins_subset)

lemma idem: "dedupe (dedupe xs) = dedupe xs"
  using distinct_keys[of xs] by (simp add: dedupe_first_wins first_wins_id)

lemma first_wins_append:
  "first_wins key seen (xs @ ys) =
   first_wins key seen xs @ first_wins key (seen \<union> key ` set xs) ys"
  by (induction xs arbitrary: seen) (auto simp: insert_absorb)

lemma append_absorb: "key ` set ys \<subseteq> key ` set xs \<Longrightarrow> dedupe (xs @ ys) = dedupe xs"
  by (simp add: dedupe_first_wins first_wins_append first_wins_all_seen)

end

end
