(* ===== verification/JsValues.thy ===== *)
theory JsValues
  imports Prelude Complex_Main
begin

text \<open>
  Untyped values of JavaScript, as the program gets them from \<open>JSON\<close> columns and from Horizon, and their
  conversions to numbers and strings. A number is its exact rational value, an infinity or \<open>NaN\<close>: a literal
  is not rounded to a double, and a number is printed from its exact decimal expansion, which is what the
  run-time library prints for numbers of at most 15 significant digits. Objects have no inherited fields.
\<close>

section \<open>Conversion of strings to numbers\<close>

text \<open>The literals that \<open>Number\<close> accepts; \<^const>\<open>None\<close> is \<open>NaN\<close> or an infinity.\<close>

definition all_in :: "string \<Rightarrow> string \<Rightarrow> bool" where
  "all_in alphabet s = (s \<noteq> [] \<and> list_all (\<lambda>c. c \<in> set alphabet) s)"

definition digit_in :: "string \<Rightarrow> char \<Rightarrow> nat" where
  "digit_in alphabet c = (case index_of alphabet c of Some i \<Rightarrow> i | None \<Rightarrow> 0)"

definition radix_literal :: "string \<Rightarrow> string \<Rightarrow> rat option" where
  "radix_literal alphabet s =
     (if all_in alphabet s then Some (of_nat (radix (length alphabet) (map (digit_in alphabet) s))) else None)"

definition signed_digits :: "string \<Rightarrow> int option" where
  "signed_digits s =
     (case s of
        [] \<Rightarrow> None
      | c # r \<Rightarrow>
          if c = CHR ''-'' then (if all_in ''0123456789'' r then Some (- int (dec_val r)) else None)
          else if c = CHR ''+'' then (if all_in ''0123456789'' r then Some (int (dec_val r)) else None)
          else if all_in ''0123456789'' s then Some (int (dec_val s)) else None)"

definition mantissa :: "string \<Rightarrow> rat option" where
  "mantissa s =
     (case split_on CHR ''.'' s of
        [i] \<Rightarrow> if all_in ''0123456789'' i then Some (of_nat (dec_val i)) else None
      | [i, f] \<Rightarrow> if all_in ''0123456789'' (i @ f) then Some (of_nat (dec_val (i @ f)) / 10 ^ length f) else None
      | _ \<Rightarrow> None)"

definition scale10 :: "rat \<Rightarrow> int \<Rightarrow> rat" where
  "scale10 q e = (if e \<ge> 0 then q * 10 ^ nat e else q / 10 ^ nat (- e))"

definition decimal_literal :: "string \<Rightarrow> rat option" where
  "decimal_literal s =
     (case split_on CHR ''e'' (map (\<lambda>c. if c = CHR ''E'' then CHR ''e'' else c) s) of
        [m] \<Rightarrow> mantissa m
      | [m, x] \<Rightarrow> (case (mantissa m, signed_digits x) of (Some q, Some e) \<Rightarrow> Some (scale10 q e) | _ \<Rightarrow> None)
      | _ \<Rightarrow> None)"

definition finite_double :: "rat \<Rightarrow> rat option" where
  "finite_double q = (if \<bar>q\<bar> < 2 ^ 1024 then Some q else None)"

definition js_number :: "string \<Rightarrow> rat option" where
  "js_number str =
     (let s = trim str in
      if s = [] then Some 0
      else if startsWith (toLowerCase s) ''0x'' then radix_literal ''0123456789abcdef'' (drop 2 (toLowerCase s))
      else if startsWith (toLowerCase s) ''0o'' then radix_literal ''01234567'' (drop 2 s)
      else if startsWith (toLowerCase s) ''0b'' then radix_literal ''01'' (drop 2 s)
      else if startsWith s ''-'' then Option.bind (decimal_literal (drop 1 s)) (\<lambda>q. finite_double (- q))
      else if startsWith s ''+'' then Option.bind (decimal_literal (drop 1 s)) finite_double
      else Option.bind (decimal_literal s) finite_double)"

text \<open>Decimal digits.\<close>

lemma is_digit_mem: "is_digit c \<Longrightarrow> c \<in> set ''0123456789''"
proof -
  assume d: "is_digit c"
  have "''0123456789'' = map digit_char [0..<10]" by code_simp
  moreover have "c = digit_char (digit_val c)" using d by (simp add: is_digit_def digit_char_def digit_val_def)
  moreover have "digit_val c < 10" using d unfolding is_digit_def digit_val_def by linarith
  ultimately show ?thesis by (metis atLeastLessThan_iff image_eqI le0 list.set_map set_upt)
qed

lemma digit_plain:
  assumes "is_digit c" shows "\<not> is_space c" "to_lower_char c = c"
  using assms by (auto simp: is_digit_def is_space_def to_lower_char_def)

lemma js_number_digits:
  assumes "s \<noteq> []" "list_all is_digit s" "dec_val s < 2 ^ 1024"
  shows "js_number s = Some (of_nat (dec_val s))"
proof -
  have d: "c \<in> set s \<Longrightarrow> is_digit c" for c using assms(2) by (simp add: list_all_iff)
  have not_in: "\<not> is_digit c \<Longrightarrow> c \<notin> set s" for c using d by blast
  have lower: "toLowerCase s = s"
    unfolding toLowerCase_def by (rule map_idI) (use d digit_plain in blast)
  have "trim s = s" by (rule trim_id) (use d digit_plain in blast)
  moreover have no: "\<not> startsWith s p" if "\<exists>c \<in> set p. \<not> is_digit c" for p
  proof
    assume "startsWith s p"
    then have "set p \<subseteq> set s" unfolding startsWith_def by (metis set_take_subset)
    then show False using that d by blast
  qed
  moreover have "map (\<lambda>c. if c = CHR ''E'' then CHR ''e'' else c) s = s"
    by (rule map_idI) (use not_in [of "CHR ''E''"] in \<open>auto simp: is_digit_def\<close>)
  moreover have "CHR ''e'' \<notin> set s" "CHR ''.'' \<notin> set s" by (rule not_in; simp add: is_digit_def)+
  moreover have "all_in ''0123456789'' s" using assms(1) d is_digit_mem by (auto simp: all_in_def list_all_iff)
  moreover have "\<bar>of_nat (dec_val s) :: rat\<bar> < 2 ^ 1024"
    using assms(3) by (metis abs_of_nat of_nat_less_iff of_nat_numeral of_nat_power)
  ultimately show ?thesis using assms(1) lower
    by (simp add: js_number_def decimal_literal_def mantissa_def split_on_absent finite_double_def is_digit_def Let_def)
qed

section \<open>Numbers\<close>

datatype jsnum = Fin rat | PInf | NInf | NaN

definition to_number :: "string \<Rightarrow> jsnum" where
  "to_number str =
     (case js_number str of
        Some q \<Rightarrow> Fin q
      | None \<Rightarrow>
          (let s = trim str;
               neg = startsWith s ''-'';
               r = (if neg \<or> startsWith s ''+'' then drop 1 s else s) in
           if r = ''Infinity'' \<or> decimal_literal r \<noteq> None then (if neg then NInf else PInf) else NaN))"

fun num_less :: "jsnum \<Rightarrow> jsnum \<Rightarrow> bool" where
  "num_less (Fin p) (Fin q) = (p < q)"
| "num_less NInf (Fin q) = True"
| "num_less NInf PInf = True"
| "num_less (Fin p) PInf = True"
| "num_less _ _ = False"

definition num_eq :: "jsnum \<Rightarrow> jsnum \<Rightarrow> bool" where
  "num_eq x y \<longleftrightarrow> x = y \<and> x \<noteq> NaN"

definition num_le :: "jsnum \<Rightarrow> jsnum \<Rightarrow> bool" where
  "num_le x y \<longleftrightarrow> num_less x y \<or> num_eq x y"

text \<open>The number of decimal places of a rational number, if it has at most \<open>n\<close>.\<close>

fun places :: "nat \<Rightarrow> rat \<Rightarrow> nat" where
  "places 0 q = 0"
| "places (Suc n) q = (if snd (quotient_of q) = 1 then 0 else Suc (places n (q * 10)))"

fun strip_zeros :: "string \<Rightarrow> string" where
  "strip_zeros ds = rev (dropWhile (\<lambda>c. c = CHR ''0'') (rev ds))"

definition exp_str :: "int \<Rightarrow> string" where
  "exp_str e = ''e'' @ (if e < 0 then ''-'' else ''+'') @ nat_str (nat \<bar>e\<bar>)"

text \<open>\<open>Number::toString\<close> of a positive number: its significant digits and the position of the point.\<close>

definition digits_str :: "string \<Rightarrow> int \<Rightarrow> string" where
  "digits_str ds n =
     (let k = int (length ds) in
      if k \<le> n \<and> n \<le> 21 then ds @ replicate (nat (n - k)) CHR ''0''
      else if 0 < n \<and> n \<le> 21 then take (nat n) ds @ ''.'' @ drop (nat n) ds
      else if -6 < n \<and> n \<le> 0 then ''0.'' @ replicate (nat (- n)) CHR ''0'' @ ds
      else if k = 1 then ds @ exp_str (n - 1)
      else take 1 ds @ ''.'' @ drop 1 ds @ exp_str (n - 1))"

definition pos_str :: "rat \<Rightarrow> string" where
  "pos_str q =
     (let k = places 1100 q;
          all = nat_str (nat \<lfloor>q * 10 ^ k\<rfloor>) in
      digits_str (strip_zeros all) (int (length all) - int k))"

fun num_str :: "jsnum \<Rightarrow> string" where
  "num_str (Fin q) = (if q = 0 then ''0'' else if q < 0 then ''-'' @ pos_str (- q) else pos_str q)"
| "num_str PInf = ''Infinity''"
| "num_str NInf = ''-Infinity''"
| "num_str NaN = ''NaN''"

section \<open>Values\<close>

datatype jsv = JUndefined | JNull | JBoolean bool | JNumber jsnum | JString string
  | JArray "jsv list" | JObject "(string \<times> jsv) list"

fun js_String :: "jsv \<Rightarrow> string" where
  "js_String JUndefined = ''undefined''"
| "js_String JNull = ''null''"
| "js_String (JBoolean b) = (if b then ''true'' else ''false'')"
| "js_String (JNumber n) = num_str n"
| "js_String (JString s) = s"
| "js_String (JArray vs) =
     join_with '','' (map (\<lambda>v. if v = JUndefined \<or> v = JNull then '''' else js_String v) vs)"
| "js_String (JObject fs) = ''[object Object]''"

fun js_Number :: "jsv \<Rightarrow> jsnum" where
  "js_Number JUndefined = NaN"
| "js_Number JNull = Fin 0"
| "js_Number (JBoolean b) = Fin (if b then 1 else 0)"
| "js_Number (JNumber n) = n"
| "js_Number (JString s) = to_number s"
| "js_Number (JArray vs) = to_number (js_String (JArray vs))"
| "js_Number (JObject fs) = NaN"

datatype js_error = TypeError | UnknownOperator

text \<open>Reading a property: of \<open>null\<close> and \<open>undefined\<close> it throws.\<close>

fun js_get :: "jsv \<Rightarrow> string \<Rightarrow> js_error + jsv" where
  "js_get JUndefined k = Inl TypeError"
| "js_get JNull k = Inl TypeError"
| "js_get (JObject fs) k = Inr (case map_of fs k of Some v \<Rightarrow> v | None \<Rightarrow> JUndefined)"
| "js_get (JArray vs) k = Inr (if k = ''length'' then JNumber (Fin (of_nat (length vs))) else JUndefined)"
| "js_get (JString s) k = Inr (if k = ''length'' then JNumber (Fin (of_nat (length s))) else JUndefined)"
| "js_get _ k = Inr JUndefined"

lemma size_map_of: "map_of fs k = Some v \<Longrightarrow> size v < size (JObject fs)"
  by (induction fs) (auto split: if_splits)

lemma size_array_mem: "v \<in> set vs \<Longrightarrow> size v < size (JArray vs)"
  by (induction vs) auto

lemma size_js_get: "js_get v k = Inr (JArray vs) \<Longrightarrow> w \<in> set vs \<Longrightarrow> size w < size v"
  by (cases v) (auto dest!: size_map_of size_array_mem split: option.splits if_splits)

text \<open>\<open>Array.prototype.map\<close> with a callback that may throw: the first error, or all results.\<close>

fun all_results :: "('e + 'a) list \<Rightarrow> 'e + 'a list" where
  "all_results [] = Inr []"
| "all_results (r # rs) =
     (case r of Inl e \<Rightarrow> Inl e | Inr x \<Rightarrow> (case all_results rs of Inl e \<Rightarrow> Inl e | Inr xs \<Rightarrow> Inr (x # xs)))"

lemma all_results_Inr: "all_results (map (\<lambda>x. Inr (f x)) xs) = Inr (map f xs)"
  by (induction xs) auto

end
