(* ===== verification/RateLimiter.thy ===== *)
theory RateLimiter
  imports JsValues
begin

text \<open>
  Back-off after answers of status 429 (\<open>apps/api/src/utils/rate-limiter.ts\<close>). Instants and delays are milliseconds as exact
  rationals; the parser of dates, the host of a URL and the method \<open>get\<close> of a \<open>Headers\<close> object are arguments.
\<close>

section \<open>Headers and delays\<close>

definition DEFAULT_BACKOFF_MS :: rat where "DEFAULT_BACKOFF_MS = 60000"

definition MAX_BACKOFF_MS :: rat where "MAX_BACKOFF_MS = 5 * 60000"

text \<open>A \<open>Headers\<close> object, or a record whose values are given as texts; nothing stands for \<open>null\<close> and \<open>undefined\<close>.\<close>

datatype HeaderReader = HeadersObject "string \<Rightarrow> string option" | HeadersRecord "(string \<times> string option) list"

fun read_record :: "string \<Rightarrow> (string \<times> string option) list \<Rightarrow> string option" where
  "read_record lowerName [] = None"
| "read_record lowerName ((key, val) # es) =
     (if toLowerCase key = lowerName \<and> val \<noteq> None then val else read_record lowerName es)"

definition readHeader :: "HeaderReader option \<Rightarrow> string \<Rightarrow> string option" where
  "readHeader headers name =
     (case headers of
        None \<Rightarrow> None
      | Some (HeadersObject get) \<Rightarrow> get name
      | Some (HeadersRecord es) \<Rightarrow> read_record (toLowerCase name) es)"

definition clampDelay :: "rat \<Rightarrow> rat" where
  "clampDelay ms = (if ms \<le> 0 then DEFAULT_BACKOFF_MS else min (of_int \<lceil>ms\<rceil>) MAX_BACKOFF_MS)"

definition parseRetryAfterMs :: "(string \<Rightarrow> rat option) \<Rightarrow> string option \<Rightarrow> rat \<Rightarrow> rat option" where
  "parseRetryAfterMs date_parse v nowMs =
     (case v of
        None \<Rightarrow> None
      | Some s \<Rightarrow>
          if s = '''' then None
          else (case to_number s of
            Fin seconds \<Rightarrow> Some (clampDelay (seconds * 1000))
          | _ \<Rightarrow> (case date_parse s of None \<Rightarrow> None | Some retryAt \<Rightarrow> Some (clampDelay (retryAt - nowMs)))))"

definition parseRateLimitResetMs :: "string option \<Rightarrow> rat \<Rightarrow> rat option" where
  "parseRateLimitResetMs v nowMs =
     (case v of
        None \<Rightarrow> None
      | Some s \<Rightarrow>
          if s = '''' then None
          else (case to_number s of
            Fin reset \<Rightarrow> Some (clampDelay ((if reset > 10000000000 then reset else reset * 1000) - nowMs))
          | _ \<Rightarrow> None))"

definition getAdaptiveBackoffMs :: "(string \<Rightarrow> rat option) \<Rightarrow> HeaderReader option \<Rightarrow> rat \<Rightarrow> rat" where
  "getAdaptiveBackoffMs date_parse headers nowMs =
     (case parseRetryAfterMs date_parse (readHeader headers ''retry-after'') nowMs of
        Some d \<Rightarrow> d
      | None \<Rightarrow>
          (case parseRetryAfterMs date_parse (readHeader headers ''x-ratelimit-reset-after'') nowMs of
             Some d \<Rightarrow> d
           | None \<Rightarrow>
               (let remaining = readHeader headers ''x-ratelimit-remaining'' in
                case parseRateLimitResetMs (readHeader headers ''x-ratelimit-reset'') nowMs of
                  Some d \<Rightarrow> if remaining = Some ''0'' \<or> remaining = None then d else DEFAULT_BACKOFF_MS
                | None \<Rightarrow> DEFAULT_BACKOFF_MS)))"

definition getRateLimitDomain :: "(string \<Rightarrow> string option) \<Rightarrow> string \<Rightarrow> string" where
  "getRateLimitDomain url_host url = (case url_host url of Some h \<Rightarrow> toLowerCase h | None \<Rightarrow> toLowerCase url)"

section \<open>Pauses of domains\<close>

type_synonym pauses = "(string, rat) jsmap"

definition getDelayMs :: "(string \<Rightarrow> string option) \<Rightarrow> string \<Rightarrow> rat \<Rightarrow> pauses \<Rightarrow> pauses \<times> rat" where
  "getDelayMs url_host url nowMs m =
     (case map_of m (getRateLimitDomain url_host url) of
        None \<Rightarrow> (m, 0)
      | Some pausedUntil \<Rightarrow>
          if pausedUntil = 0 then (m, 0)
          else (let delayMs = pausedUntil - nowMs in
            if delayMs \<le> 0 then (AList.delete (getRateLimitDomain url_host url) m, 0) else (m, delayMs)))"

definition recordRateLimit ::
  "(string \<Rightarrow> string option) \<Rightarrow> (string \<Rightarrow> rat option) \<Rightarrow> string \<Rightarrow> HeaderReader option \<Rightarrow> rat \<Rightarrow> pauses \<Rightarrow> pauses \<times> rat" where
  "recordRateLimit url_host date_parse url headers nowMs m =
     (let delayMs = getAdaptiveBackoffMs date_parse headers nowMs in
      (AList.update (getRateLimitDomain url_host url) (nowMs + delayMs) m, delayMs))"

definition clear :: "(string \<Rightarrow> string option) \<Rightarrow> string \<Rightarrow> pauses \<Rightarrow> pauses" where
  "clear url_host url m = AList.delete (getRateLimitDomain url_host url) m"

section \<open>The second limiter\<close>

text \<open>The instant at which a domain is unblocked; it is not clamped.\<close>

definition unblock_at :: "(string \<Rightarrow> rat option) \<Rightarrow> (string \<Rightarrow> string option) \<Rightarrow> rat \<Rightarrow> rat" where
  "unblock_at date_parse get now =
     (let retry = (case get ''Retry-After'' of
            None \<Rightarrow> None
          | Some s \<Rightarrow> (case to_number s of Fin seconds \<Rightarrow> Some (now + seconds * 1000) | _ \<Rightarrow> date_parse s));
          reset = (case retry of
            Some t \<Rightarrow> Some t
          | None \<Rightarrow> (case get ''X-RateLimit-Reset'' of
              None \<Rightarrow> None
            | Some s \<Rightarrow> (case to_number s of Fin ts \<Rightarrow> Some (ts * 1000) | _ \<Rightarrow> None)))
      in case reset of Some t \<Rightarrow> t | None \<Rightarrow> now + 60000)"

definition handleRateLimitResponse ::
  "(string \<Rightarrow> rat option) \<Rightarrow> string \<Rightarrow> (string \<Rightarrow> string option) \<Rightarrow> rat \<Rightarrow> pauses \<Rightarrow> pauses" where
  "handleRateLimitResponse date_parse domain get now m = AList.update domain (unblock_at date_parse get now) m"

definition getRemainingMs :: "string \<Rightarrow> rat \<Rightarrow> pauses \<Rightarrow> rat" where
  "getRemainingMs domain now m = (case map_of m domain of None \<Rightarrow> 0 | Some until \<Rightarrow> if until - now > 0 then until - now else 0)"

section \<open>Delays are bounded\<close>

lemma clampDelay_bounds: "0 < clampDelay ms \<and> clampDelay ms \<le> MAX_BACKOFF_MS"
  by (auto simp: clampDelay_def DEFAULT_BACKOFF_MS_def MAX_BACKOFF_MS_def)

lemma backoff_bounds: "0 < getAdaptiveBackoffMs date_parse headers now \<and> getAdaptiveBackoffMs date_parse headers now \<le> MAX_BACKOFF_MS"
proof -
  have "parseRetryAfterMs date_parse v now = Some d \<Longrightarrow> 0 < d \<and> d \<le> MAX_BACKOFF_MS"
    "parseRateLimitResetMs v now = Some d \<Longrightarrow> 0 < d \<and> d \<le> MAX_BACKOFF_MS" for v d
    using clampDelay_bounds by (auto simp: parseRetryAfterMs_def parseRateLimitResetMs_def split: option.splits if_splits jsnum.splits)
  then show ?thesis unfolding getAdaptiveBackoffMs_def Let_def
    by (auto simp: DEFAULT_BACKOFF_MS_def MAX_BACKOFF_MS_def split: option.splits)
qed

section \<open>The pause of a domain\<close>

datatype limiter_op = Limited string "HeaderReader option" rat | Cleared string | Asked string rat

fun limiter_step :: "(string \<Rightarrow> string option) \<Rightarrow> (string \<Rightarrow> rat option) \<Rightarrow> pauses \<Rightarrow> limiter_op \<Rightarrow> pauses" where
  "limiter_step uh dp m (Limited url hs now) = fst (recordRateLimit uh dp url hs now m)"
| "limiter_step uh dp m (Cleared url) = clear uh url m"
| "limiter_step uh dp m (Asked url now) = fst (getDelayMs uh url now m)"

text \<open>The end of the pause that the last answer or success of the domain left.\<close>

fun pause_end :: "(string \<Rightarrow> string option) \<Rightarrow> (string \<Rightarrow> rat option) \<Rightarrow> string \<Rightarrow> limiter_op list \<Rightarrow> rat option" where
  "pause_end uh dp host [] = None"
| "pause_end uh dp host (x # past) =
     (case x of
        Limited url hs now \<Rightarrow> if getRateLimitDomain uh url = host then Some (now + getAdaptiveBackoffMs dp hs now) else pause_end uh dp host past
      | Cleared url \<Rightarrow> if getRateLimitDomain uh url = host then None else pause_end uh dp host past
      | Asked url now \<Rightarrow> pause_end uh dp host past)"

fun op_time :: "limiter_op \<Rightarrow> rat option" where
  "op_time (Limited url hs now) = Some now"
| "op_time (Cleared url) = None"
| "op_time (Asked url now) = Some now"

definition tracks :: "(string \<Rightarrow> string option) \<Rightarrow> (string \<Rightarrow> rat option) \<Rightarrow> rat \<Rightarrow> pauses \<Rightarrow> limiter_op list \<Rightarrow> bool" where
  "tracks uh dp now m past \<longleftrightarrow> (\<forall>host. map_of m host = pause_end uh dp host past
     \<or> map_of m host = None \<and> (\<exists>t. pause_end uh dp host past = Some t \<and> t \<le> now))"

lemma tracks_step:
  assumes "tracks uh dp now m past" "\<forall>t. op_time x = Some t \<longrightarrow> t \<le> now"
  shows "tracks uh dp now (limiter_step uh dp m x) (x # past)"
proof (cases x)
  case (Asked url t)
  have "map_of (limiter_step uh dp m x) host = map_of m host
      \<or> map_of (limiter_step uh dp m x) host = None \<and> (\<exists>u. map_of m host = Some u \<and> u \<le> t)" for host
    using Asked by (auto simp: getDelayMs_def Let_def split: option.splits)
  note kept = this
  have le: "t \<le> now" using assms(2) Asked by simp
  have p: "pause_end uh dp host (x # past) = pause_end uh dp host past" for host using Asked by simp
  show ?thesis unfolding tracks_def p
  proof
    fix host
    have "map_of m host = pause_end uh dp host past \<or> map_of m host = None \<and> (\<exists>t. pause_end uh dp host past = Some t \<and> t \<le> now)"
      using assms(1) by (simp add: tracks_def)
    then show "map_of (limiter_step uh dp m x) host = pause_end uh dp host past
        \<or> map_of (limiter_step uh dp m x) host = None \<and> (\<exists>t. pause_end uh dp host past = Some t \<and> t \<le> now)"
      using kept[of host] order_trans[OF _ le] by (elim disjE conjE exE) simp_all
  qed
qed (use assms in \<open>auto simp: tracks_def recordRateLimit_def clear_def Let_def\<close>)

lemma tracks_run:
  assumes "\<forall>x \<in> set ops. \<forall>t. op_time x = Some t \<longrightarrow> t \<le> now" "tracks uh dp now m past"
  shows "tracks uh dp now (foldl (limiter_step uh dp) m ops) (rev ops @ past)"
  using assms
proof (induction ops arbitrary: m past)
  case (Cons x ops)
  then show ?case using tracks_step[of uh dp now m past x] Cons.IH[of "limiter_step uh dp m x" "x # past"] by simp
qed simp

lemma pause_end_bound:
  "\<forall>x \<in> set past. \<forall>t. op_time x = Some t \<longrightarrow> 0 \<le> t \<and> t \<le> now \<Longrightarrow> pause_end uh dp host past = Some u \<Longrightarrow> 0 < u \<and> u \<le> now + MAX_BACKOFF_MS"
proof (induction past)
  case (Cons x past)
  then show ?case
  proof (cases x)
    case (Limited url hs t)
    then show ?thesis using Cons backoff_bounds[of dp hs t] by (cases "getRateLimitDomain uh url = host") auto
  qed (use Cons in \<open>auto split: if_splits\<close>)
qed simp


definition limited_once :: "limiter_op list" where
  "limited_once = [Limited ''https://a.example/x'' (Some (HeadersRecord [(''Retry-After'', Some ''7'')])) 1000, Asked ''https://a.example/y'' 2000]"

definition one_host :: "string \<Rightarrow> string option" where
  "one_host url = Some ''a.example''"


text \<open>An answer that allows a retry at once pauses the domain for a minute.\<close>

lemma immediate_retry_waits_a_minute:
  "to_number s = Fin 0 \<Longrightarrow> s \<noteq> '''' \<Longrightarrow> parseRetryAfterMs date_parse (Some s) now = Some DEFAULT_BACKOFF_MS"
  by (simp add: parseRetryAfterMs_def clampDelay_def)

end
