(* ===== verification/RateBudget.thy ===== *)
theory RateBudget
  imports Prelude Complex_Main
begin

text \<open>
  Rate budgets of the notification providers and fairness between wallets (\<open>apps/api/src/lib/rate-budget.ts\<close>):
  token buckets, the waiting consumer, and the manager that limits the dispatches of a wallet at a time and in
  a window. Instants are milliseconds, tokens exact rationals; the clock is an argument. A waiting call
  wakes up after its delay and some lateness, and what other callers did to the shared object meanwhile is
  an argument as well. The variables of the environment are an argument of the constructor.
\<close>

section \<open>Token buckets\<close>

record TokenBucketLimiter =
  tokens :: rat
  lastRefill :: int
  capacity :: rat
  refillRatePerSec :: rat

definition newTokenBucketLimiter :: "int \<Rightarrow> rat \<Rightarrow> rat \<Rightarrow> TokenBucketLimiter" where
  "newTokenBucketLimiter now cap rate = \<lparr>tokens = cap, lastRefill = now, capacity = cap, refillRatePerSec = rate\<rparr>"

definition refill :: "int \<Rightarrow> TokenBucketLimiter \<Rightarrow> TokenBucketLimiter" where
  "refill now b =
     (let elapsedSeconds = of_int (now - lastRefill b) / 1000 in
      if elapsedSeconds > 0
      then b\<lparr>tokens := min (capacity b) (tokens b + elapsedSeconds * refillRatePerSec b), lastRefill := now\<rparr>
      else b)"

definition tryConsume :: "int \<Rightarrow> rat \<Rightarrow> TokenBucketLimiter \<Rightarrow> bool \<times> TokenBucketLimiter" where
  "tryConsume now n b =
     (let b' = refill now b in
      if tokens b' \<ge> n then (True, b'\<lparr>tokens := tokens b' - n\<rparr>) else (False, b'))"

text \<open>
  The loop of \<open>consume\<close>: the number of the wait, the start, the current instant, the tokens wanted and the
  longest wait. \<open>late\<close> is the lateness of each timer, \<open>others\<close> the acts of other callers during each wait.
\<close>

function consume_loop ::
  "(nat \<Rightarrow> nat) \<Rightarrow> (nat \<Rightarrow> TokenBucketLimiter \<Rightarrow> TokenBucketLimiter) \<Rightarrow> nat \<Rightarrow> int \<Rightarrow> int \<Rightarrow> rat \<Rightarrow> int \<Rightarrow>
     TokenBucketLimiter \<Rightarrow> bool \<times> TokenBucketLimiter" where
  "consume_loop late others i start now n maxWaitMs b =
     (if now - start < maxWaitMs then
        (let now' = now + min 50 (maxWaitMs - (now - start)) + int (late i) in
         case tryConsume now' n (others i b) of
           (True, b') \<Rightarrow> (True, b')
         | (False, b') \<Rightarrow> consume_loop late others (Suc i) start now' n maxWaitMs b')
      else (False, b))"
  by pat_completeness auto
termination
  by (relation "measure (\<lambda>(late, others, i, start, now, n, maxWaitMs, b). nat (maxWaitMs - (now - start)))") auto

declare consume_loop.simps [simp del]

definition consume ::
  "(nat \<Rightarrow> nat) \<Rightarrow> (nat \<Rightarrow> TokenBucketLimiter \<Rightarrow> TokenBucketLimiter) \<Rightarrow> int \<Rightarrow> rat \<Rightarrow> int \<Rightarrow> TokenBucketLimiter \<Rightarrow>
     bool \<times> TokenBucketLimiter" where
  "consume late others now n maxWaitMs b =
     (case tryConsume now n b of
        (True, b') \<Rightarrow> (True, b')
      | (False, b') \<Rightarrow> consume_loop late others 0 now now n maxWaitMs b')"

definition getAvailableTokens :: "int \<Rightarrow> TokenBucketLimiter \<Rightarrow> rat \<times> TokenBucketLimiter" where
  "getAvailableTokens now b = (let b' = refill now b in (tokens b', b'))"

section \<open>Fairness between wallets\<close>

record wallet_window =
  win_count :: nat
  windowStart :: int

record WorkerFairnessManager =
  providerBuckets :: "(string, TokenBucketLimiter) jsmap"
  activeWalletDispatches :: "(string, nat) jsmap"
  walletDispatchesInWindow :: "(string, wallet_window) jsmap"
  maxConcurrentPerWallet :: nat
  walletBurstLimit :: nat
  walletWindowMs :: int

text \<open>The budgets of the environment, per second, and the burst allowance of a wallet.\<close>

record rate_env =
  PROVIDER_RATE_BUDGET_TELEGRAM :: rat
  PROVIDER_RATE_BUDGET_DISCORD :: rat
  PROVIDER_RATE_BUDGET_SLACK :: rat
  PROVIDER_RATE_BUDGET_WEBHOOK :: rat
  PROVIDER_RATE_BUDGET_EMAIL :: rat
  WALLET_BURST_ALLOWANCE :: "nat option"

definition set_budget :: "int \<Rightarrow> string \<Rightarrow> rat \<Rightarrow> (string, TokenBucketLimiter) jsmap \<Rightarrow> (string, TokenBucketLimiter) jsmap" where
  "set_budget now p rate m = AList.update p (newTokenBucketLimiter now (rate * 2) rate) m"

definition initProviderBudgets ::
  "int \<Rightarrow> rate_env \<Rightarrow> (string, TokenBucketLimiter) jsmap \<Rightarrow> (string, TokenBucketLimiter) jsmap" where
  "initProviderBudgets now env m =
     set_budget now ''email'' (PROVIDER_RATE_BUDGET_EMAIL env)
     (set_budget now ''webhook'' (PROVIDER_RATE_BUDGET_WEBHOOK env)
     (set_budget now ''slack'' (PROVIDER_RATE_BUDGET_SLACK env)
     (set_budget now ''discord'' (PROVIDER_RATE_BUDGET_DISCORD env)
     (set_budget now ''telegram'' (PROVIDER_RATE_BUDGET_TELEGRAM env) m))))"

definition newWorkerFairnessManager ::
  "int \<Rightarrow> rate_env \<Rightarrow> nat option \<Rightarrow> nat option \<Rightarrow> int option \<Rightarrow> WorkerFairnessManager" where
  "newWorkerFairnessManager now env conc burst window =
     \<lparr>providerBuckets = initProviderBudgets now env [], activeWalletDispatches = [], walletDispatchesInWindow = [],
      maxConcurrentPerWallet = (case conc of Some c \<Rightarrow> c | None \<Rightarrow> 2),
      walletBurstLimit =
        (case burst of Some l \<Rightarrow> l | None \<Rightarrow> (case WALLET_BURST_ALLOWANCE env of Some l \<Rightarrow> l | None \<Rightarrow> 20)),
      walletWindowMs = (case window of Some ms \<Rightarrow> ms | None \<Rightarrow> 10000)\<rparr>"

definition acquireProviderBudget ::
  "(nat \<Rightarrow> nat) \<Rightarrow> (nat \<Rightarrow> TokenBucketLimiter \<Rightarrow> TokenBucketLimiter) \<Rightarrow> int \<Rightarrow> string \<Rightarrow> int \<Rightarrow> WorkerFairnessManager \<Rightarrow>
     bool \<times> WorkerFairnessManager" where
  "acquireProviderBudget late others now provider maxWaitMs m =
     (case map_of (providerBuckets m) (toLowerCase provider) of
        None \<Rightarrow> (True, m)
      | Some b \<Rightarrow>
          (case consume late others now 1 maxWaitMs b of
             (ok, b') \<Rightarrow> (ok, m\<lparr>providerBuckets := AList.update (toLowerCase provider) b' (providerBuckets m)\<rparr>)))"

definition getActiveWalletDispatches :: "string \<Rightarrow> WorkerFairnessManager \<Rightarrow> nat" where
  "getActiveWalletDispatches w m = (case map_of (activeWalletDispatches m) w of Some n \<Rightarrow> n | None \<Rightarrow> 0)"

definition add_active :: "string \<Rightarrow> WorkerFairnessManager \<Rightarrow> WorkerFairnessManager" where
  "add_active w m = m\<lparr>activeWalletDispatches :=
     AList.update w (getActiveWalletDispatches w m + 1) (activeWalletDispatches m)\<rparr>"

text \<open>The window of a wallet at an instant: a window that is over is replaced by an empty one.\<close>

definition current_window :: "int \<Rightarrow> string \<Rightarrow> WorkerFairnessManager \<Rightarrow> wallet_window" where
  "current_window now w m =
     (case map_of (walletDispatchesInWindow m) w of
        Some d \<Rightarrow> if now - windowStart d < walletWindowMs m then d else \<lparr>win_count = 0, windowStart = now\<rparr>
      | None \<Rightarrow> \<lparr>win_count = 0, windowStart = now\<rparr>)"

definition put_window :: "string \<Rightarrow> wallet_window \<Rightarrow> WorkerFairnessManager \<Rightarrow> WorkerFairnessManager" where
  "put_window w d m = m\<lparr>walletDispatchesInWindow := AList.update w d (walletDispatchesInWindow m)\<rparr>"

text \<open>One round of the loop of \<open>acquireWalletSlot\<close>.\<close>

definition try_slot :: "int \<Rightarrow> string \<Rightarrow> WorkerFairnessManager \<Rightarrow> bool \<times> WorkerFairnessManager" where
  "try_slot now w m =
     (let d = current_window now w m; m1 = put_window w d m in
      if getActiveWalletDispatches w m < maxConcurrentPerWallet m \<and> win_count d < walletBurstLimit m
      then (True, put_window w (d\<lparr>win_count := win_count d + 1\<rparr>) (add_active w m1))
      else (False, m1))"

function slot_loop ::
  "(nat \<Rightarrow> nat) \<Rightarrow> (nat \<Rightarrow> WorkerFairnessManager \<Rightarrow> WorkerFairnessManager) \<Rightarrow> nat \<Rightarrow> int \<Rightarrow> int \<Rightarrow> string \<Rightarrow> int \<Rightarrow>
     WorkerFairnessManager \<Rightarrow> bool \<times> WorkerFairnessManager" where
  "slot_loop late others i start now w maxWaitMs m =
     (if now - start \<le> maxWaitMs then
        (case try_slot now w m of
           (True, m') \<Rightarrow> (True, m')
         | (False, m') \<Rightarrow>
             (let waitMs = min 100 (max 10 (maxWaitMs - (now - start))) in
              if waitMs \<le> 10 then (False, add_active w m')
              else slot_loop late others (Suc i) start (now + waitMs + int (late i)) w maxWaitMs (others i m')))
      else (False, add_active w m))"
  by pat_completeness auto
termination
  by (relation "measure (\<lambda>(late, others, i, start, now, w, maxWaitMs, m). nat (maxWaitMs - (now - start) + 1))") auto

declare slot_loop.simps [simp del]

definition acquireWalletSlot ::
  "(nat \<Rightarrow> nat) \<Rightarrow> (nat \<Rightarrow> WorkerFairnessManager \<Rightarrow> WorkerFairnessManager) \<Rightarrow> int \<Rightarrow> string \<Rightarrow> int \<Rightarrow>
     WorkerFairnessManager \<Rightarrow> bool \<times> WorkerFairnessManager" where
  "acquireWalletSlot late others now w maxWaitMs m =
     (if w = '''' then (True, m) else slot_loop late others 0 now now w maxWaitMs m)"

definition releaseWalletSlot :: "string \<Rightarrow> WorkerFairnessManager \<Rightarrow> WorkerFairnessManager" where
  "releaseWalletSlot w m =
     (if w = '''' then m
      else
        let active = getActiveWalletDispatches w m in
        if active \<le> 1 then m\<lparr>activeWalletDispatches := AList.delete w (activeWalletDispatches m)\<rparr>
        else m\<lparr>activeWalletDispatches := AList.update w (active - 1) (activeWalletDispatches m)\<rparr>)"

definition getProviderAvailableTokens :: "int \<Rightarrow> string \<Rightarrow> WorkerFairnessManager \<Rightarrow> rat option \<times> WorkerFairnessManager" where
  "getProviderAvailableTokens now provider m =
     (case map_of (providerBuckets m) (toLowerCase provider) of
        None \<Rightarrow> (None, m)
      | Some b \<Rightarrow>
          (case getAvailableTokens now b of
             (n, b') \<Rightarrow> (Some n, m\<lparr>providerBuckets := AList.update (toLowerCase provider) b' (providerBuckets m)\<rparr>)))"

definition reset_counters :: "int \<Rightarrow> rate_env \<Rightarrow> WorkerFairnessManager \<Rightarrow> WorkerFairnessManager" where
  "reset_counters now env m = m\<lparr>activeWalletDispatches := [], walletDispatchesInWindow := [],
     providerBuckets := initProviderBudgets now env (providerBuckets m)\<rparr>"

section \<open>The rate of a bucket\<close>

text \<open>A call of a bucket: the instant, the tokens wanted, and whether they were granted.\<close>

fun bucket_run :: "TokenBucketLimiter \<Rightarrow> (int \<times> rat) list \<Rightarrow> bool list \<times> TokenBucketLimiter" where
  "bucket_run b [] = ([], b)"
| "bucket_run b ((t, n) # ops) =
     (case tryConsume t n b of (ok, b') \<Rightarrow> (case bucket_run b' ops of (oks, b2) \<Rightarrow> (ok # oks, b2)))"

definition granted :: "(int \<times> rat) list \<Rightarrow> bool list \<Rightarrow> rat" where
  "granted ops oks = sum_list (map (\<lambda>((t, n), ok). if ok then n else 0) (zip ops oks))"

definition bucket_ok :: "TokenBucketLimiter \<Rightarrow> bool" where
  "bucket_ok b \<longleftrightarrow> 0 \<le> tokens b \<and> tokens b \<le> capacity b \<and> 0 \<le> refillRatePerSec b"

lemma tryConsume_bound:
  assumes "bucket_ok b" "lastRefill b \<le> t" "0 \<le> n" "tryConsume t n b = (ok, b')"
  shows "bucket_ok b' \<and> lastRefill b' = t \<and> capacity b' = capacity b \<and> refillRatePerSec b' = refillRatePerSec b
    \<and> (if ok then n else 0) + tokens b' \<le> tokens b + refillRatePerSec b * of_int (t - lastRefill b) / 1000"
  using assms by (auto simp: tryConsume_def refill_def bucket_ok_def Let_def min_def mult.commute split: if_splits)

lemma tryConsume_first:
  assumes "bucket_ok b" "tryConsume t n b = (ok, b')"
  shows "(if ok then n else 0) + tokens b' \<le> capacity b"
  using assms by (auto simp: tryConsume_def refill_def bucket_ok_def Let_def split: if_splits)

lemma bucket_run_append:
  "bucket_run b (xs @ ys) =
     (case bucket_run b xs of (oks, b1) \<Rightarrow> (case bucket_run b1 ys of (oks', b2) \<Rightarrow> (oks @ oks', b2)))"
  by (induction b xs rule: bucket_run.induct) (auto split: prod.splits)

lemma length_bucket_run: "length (fst (bucket_run b ops)) = length ops"
  by (induction b ops rule: bucket_run.induct) (auto split: prod.splits)

lemma granted_simps [simp]:
  "granted [] oks = 0" "granted ((t, n) # ops) (ok # oks) = (if ok then n else 0) + granted ops oks"
  by (simp_all add: granted_def)

definition tries_ok :: "int \<Rightarrow> (int \<times> rat) list \<Rightarrow> bool" where
  "tries_ok t ops \<longleftrightarrow> sorted (t # map fst ops) \<and> (\<forall>op \<in> set ops. 0 \<le> snd op)"

lemma bucket_run_bound:
  assumes "bucket_ok b" "tries_ok (lastRefill b) ops" "bucket_run b ops = (oks, b')"
  shows "bucket_ok b' \<and> lastRefill b' = last (lastRefill b # map fst ops) \<and> capacity b' = capacity b
    \<and> refillRatePerSec b' = refillRatePerSec b
    \<and> granted ops oks + tokens b' \<le> tokens b + refillRatePerSec b * of_int (lastRefill b' - lastRefill b) / 1000"
  using assms
proof (induction ops arbitrary: b oks)
  case (Cons op ops)
  obtain t n where op: "op = (t, n)" by (cases op)
  obtain ok b1 where t1: "tryConsume t n b = (ok, b1)" by (cases "tryConsume t n b")
  obtain oks' where run: "bucket_run b1 ops = (oks', b')" "oks = ok # oks'"
    using Cons.prems(3) op t1 by (auto split: prod.splits)
  have h: "lastRefill b \<le> t" "0 \<le> n" "tries_ok t ops" using Cons.prems(2) op by (auto simp: tries_ok_def)
  note c = tryConsume_bound[OF Cons.prems(1) h(1,2) t1]
  have "bucket_ok b1" "tries_ok (lastRefill b1) ops" using c h(3) by simp_all
  note ih = Cons.IH[OF this run(1)]
  from ih have i1: "granted ops oks' + tokens b' \<le> tokens b1 + refillRatePerSec b1 * of_int (lastRefill b' - lastRefill b1) / 1000"
    by blast
  from c have c1: "(if ok then n else 0) + tokens b1 \<le> tokens b + refillRatePerSec b * of_int (t - lastRefill b) / 1000"
    and c2: "refillRatePerSec b1 = refillRatePerSec b" "lastRefill b1 = t" by blast+
  have "granted (op # ops) oks + tokens b' \<le> tokens b + refillRatePerSec b * of_int (t - lastRefill b) / 1000
      + refillRatePerSec b * of_int (lastRefill b' - t) / 1000"
    using i1[unfolded c2] c1 run(2) op by simp
  also have "\<dots> = tokens b + refillRatePerSec b * of_int (lastRefill b' - lastRefill b) / 1000"
    by (simp add: field_simps)
  finally show ?case using ih c op by auto
qed simp

text \<open>C24. A provider never gets more than its budget: of any calls of a token bucket in order of time, those in an
  interval are granted at most the capacity and what the refill rate adds during the interval.\<close>

theorem provider_budget_bound:
  assumes "0 \<le> cap" "0 \<le> rate" "tries_ok t0 (pre @ seg @ post)" "seg \<noteq> []"
    and "oks = fst (bucket_run (newTokenBucketLimiter t0 cap rate) (pre @ seg @ post))"
  shows "granted seg (take (length seg) (drop (length pre) oks))
    \<le> cap + rate * of_int (fst (last seg) - fst (hd seg)) / 1000"
proof -
  let ?b = "newTokenBucketLimiter t0 cap rate"
  obtain o1 b1 where r1: "bucket_run ?b pre = (o1, b1)" by (cases "bucket_run ?b pre")
  obtain o2 b2 where r2: "bucket_run b1 seg = (o2, b2)" by (cases "bucket_run b1 seg")
  obtain t n seg' where seg: "seg = (t, n) # seg'" using assms(4) by (cases seg) auto
  obtain ok b1' where t1: "tryConsume t n b1 = (ok, b1')" by (cases "tryConsume t n b1")
  obtain o2' where r2': "bucket_run b1' seg' = (o2', b2)" "o2 = ok # o2'"
    using r2 seg t1 by (auto split: prod.splits)
  have b: "bucket_ok ?b" "lastRefill ?b = t0" using assms(1,2) by (simp_all add: bucket_ok_def newTokenBucketLimiter_def)
  have pre: "bucket_ok b1" "lastRefill b1 = last (t0 # map fst pre)" "capacity b1 = cap" "refillRatePerSec b1 = rate"
    using bucket_run_bound[OF b(1) _ r1] assms(3) b(2)
    by (auto simp: tries_ok_def sorted_append newTokenBucketLimiter_def)
  have order: "lastRefill b1 \<le> t" "0 \<le> n" "tries_ok t seg'"
    using assms(3) seg pre(2) by (cases pre rule: rev_cases; auto simp: tries_ok_def sorted_append)+
  note c = tryConsume_bound[OF pre(1) order(1,2) t1]
  have "granted seg o2 + tokens b2 \<le> cap + rate * of_int (lastRefill b2 - t) / 1000"
    using bucket_run_bound[OF _ _ r2'(1)] c order(3) tryConsume_first[OF pre(1) t1] pre(3,4) seg r2'(2) by auto
  moreover have "0 \<le> tokens b2" "lastRefill b2 = fst (last seg)"
    using bucket_run_bound[OF _ _ r2'(1)] c order(3) seg by (auto simp: bucket_ok_def last_map)
  moreover have "take (length seg) (drop (length pre) oks) = o2"
    using assms(5) r1 r2 length_bucket_run[of ?b pre] length_bucket_run[of b1 seg]
    by (auto simp: bucket_run_append split: prod.splits)
  ultimately show ?thesis using seg by simp
qed

theorem provider_budget_bound_witness:
  "granted [(0, 1), (0, 1), (100, 1)] (fst (bucket_run (newTokenBucketLimiter 0 2 1) [(0, 1), (0, 1), (100, 1)])) \<le> 2 + 1 / 10"
  using provider_budget_bound [of 2 1 0 "[]" "[(0, 1), (0, 1), (100, 1)]" "[]"]
    length_bucket_run[of "newTokenBucketLimiter 0 2 1" "[(0, 1), (0, 1), (100, 1)]"]
  by (simp add: tries_ok_def)

text \<open>A call that may wait long enough for its tokens gets them, when nobody else uses the bucket.\<close>

lemma refill_grows:
  assumes "bucket_ok b" "lastRefill b \<le> t" "min (capacity b) x \<le> tokens b"
  shows "min (capacity b) (x + refillRatePerSec b * of_int (t - lastRefill b) / 1000) \<le> tokens (refill t b)"
  using assms by (auto simp: refill_def bucket_ok_def Let_def min_def mult.commute split: if_splits)

lemma tryConsume_refused: "tryConsume t n b = (False, b') \<longleftrightarrow> b' = refill t b \<and> tokens (refill t b) < n"
  by (auto simp: tryConsume_def Let_def)

lemma refill_simps [simp]: "capacity (refill t b) = capacity b" "refillRatePerSec (refill t b) = refillRatePerSec b"
  by (simp_all add: refill_def Let_def)

lemma bucket_ok_refill: "bucket_ok b \<Longrightarrow> bucket_ok (refill t b)"
  by (auto simp: bucket_ok_def refill_def Let_def)

lemma lastRefill_refill: "lastRefill b \<le> t \<Longrightarrow> lastRefill (refill t b) = t"
  by (auto simp: refill_def Let_def)

lemma consume_loop_succeeds:
  assumes "bucket_ok b" "lastRefill b = now" "start \<le> now" "now - start < maxWaitMs" "n \<le> capacity b"
    and "n \<le> refillRatePerSec b * of_int maxWaitMs / 1000"
    and "min (capacity b) (refillRatePerSec b * of_int (now - start) / 1000) \<le> tokens b"
  shows "fst (consume_loop late (\<lambda>_. id) i start now n maxWaitMs b)"
  using assms
proof (induction "nat (maxWaitMs - (now - start))" arbitrary: i now b rule: less_induct)
  case less
  define now' where "now' = now + min 50 (maxWaitMs - (now - start)) + int (late i)"
  have later: "now < now'" using less.prems(4) by (simp add: now'_def)
  obtain ok b' where t: "tryConsume now' n b = (ok, b')" by (cases "tryConsume now' n b")
  show ?case
  proof (cases ok)
    case True
    then show ?thesis using t less.prems(4) by (simp add: consume_loop.simps[of late _ i] now'_def Let_def)
  next
    case False
    then have b': "b' = refill now' b" "tokens b' < n" using t tryConsume_refused by auto
    have "min (capacity b) (refillRatePerSec b * of_int (now - start) / 1000 + refillRatePerSec b * of_int (now' - now) / 1000) \<le> tokens b'"
      using refill_grows[OF less.prems(1) _ less.prems(7), of now'] less.prems(2) later b'(1) by simp
    moreover have "refillRatePerSec b * of_int (now - start) / 1000 + refillRatePerSec b * of_int (now' - now) / 1000
        = refillRatePerSec b * of_int (now' - start) / 1000" by (simp add: field_simps)
    ultimately have g: "min (capacity b) (refillRatePerSec b * of_int (now' - start) / 1000) \<le> tokens b'" by simp
    have short: "now' - start < maxWaitMs"
    proof (rule ccontr)
      assume "\<not> ?thesis"
      then have "(of_int maxWaitMs :: rat) \<le> of_int (now' - start)" by (simp only: of_int_le_iff)
      then have "refillRatePerSec b * of_int maxWaitMs \<le> refillRatePerSec b * of_int (now' - start)"
        using less.prems(1) by (intro mult_left_mono) (auto simp: bucket_ok_def)
      then have "refillRatePerSec b * of_int maxWaitMs / 1000 \<le> refillRatePerSec b * of_int (now' - start) / 1000"
        by (rule divide_right_mono) simp
      then have "n \<le> refillRatePerSec b * of_int (now' - start) / 1000" by (rule order_trans[OF less.prems(6)])
      then have "n \<le> min (capacity b) (refillRatePerSec b * of_int (now' - start) / 1000)"
        using less.prems(5) by simp
      then show False using g b'(2) by linarith
    qed
    have "fst (consume_loop late (\<lambda>_. id) (Suc i) start now' n maxWaitMs b')"
    proof (rule less.hyps)
      show "nat (maxWaitMs - (now' - start)) < nat (maxWaitMs - (now - start))" using later less.prems(4) by simp
      show "lastRefill b' = now'" using lastRefill_refill[of b now'] less.prems(2) later b'(1) by simp
    qed (use less.prems g b'(1) later short in \<open>simp_all add: bucket_ok_refill\<close>)
    then show ?thesis using t False less.prems(4) by (simp add: consume_loop.simps[of late _ i] now'_def Let_def)
  qed
qed

lemma consume_within_wait:
  assumes "bucket_ok b" "lastRefill b \<le> now" "n \<le> capacity b" "0 < n" "n \<le> refillRatePerSec b * of_int maxWaitMs / 1000"
  shows "fst (consume late (\<lambda>_. id) now n maxWaitMs b)"
proof (cases "tryConsume now n b")
  case (Pair ok b')
  show ?thesis
  proof (cases ok)
    case False
    then have b': "b' = refill now b" using Pair tryConsume_refused by auto
    have "0 < maxWaitMs"
    proof (rule ccontr)
      assume "\<not> ?thesis"
      then have "refillRatePerSec b * of_int maxWaitMs \<le> 0" using assms(1)
        by (intro mult_nonneg_nonpos) (auto simp: bucket_ok_def)
      then have "refillRatePerSec b * of_int maxWaitMs / 1000 \<le> 0" by simp
      then show False using assms(4,5) by linarith
    qed
    moreover have "0 \<le> tokens b'" using bucket_ok_refill[OF assms(1), of now] b' by (simp add: bucket_ok_def)
    ultimately have "fst (consume_loop late (\<lambda>_. id) 0 now now n maxWaitMs b')"
      using consume_loop_succeeds[of b' now now maxWaitMs n late 0] assms b' bucket_ok_refill[OF assms(1), of now]
        lastRefill_refill[OF assms(2)] by simp
    then show ?thesis using Pair False by (simp add: consume_def)
  qed (simp add: Pair consume_def)
qed

section \<open>Slots of a wallet\<close>

text \<open>
  The rounds of waiting calls interleave: a round tries a slot, a call that has waited long enough takes one
  by force, and finished dispatches release theirs.
\<close>

datatype slot_event = Try int string | Force string | Release string

fun slot_step :: "WorkerFairnessManager \<Rightarrow> slot_event \<Rightarrow> bool \<times> WorkerFairnessManager" where
  "slot_step m (Try now w) = try_slot now w m"
| "slot_step m (Force w) = (False, add_active w m)"
| "slot_step m (Release w) = (False, releaseWalletSlot w m)"

fun slot_run :: "WorkerFairnessManager \<Rightarrow> slot_event list \<Rightarrow> (slot_event \<times> bool) list \<times> WorkerFairnessManager" where
  "slot_run m [] = ([], m)"
| "slot_run m (e # es) =
     (case slot_step m e of (ok, m') \<Rightarrow> (case slot_run m' es of (trace, m2) \<Rightarrow> ((e, ok) # trace, m2)))"

text \<open>The slots of a wallet by what happened: taken slots less released ones, never below zero.\<close>

fun taken :: "string \<Rightarrow> nat \<Rightarrow> (slot_event \<times> bool) list \<Rightarrow> nat" where
  "taken w n [] = n"
| "taken w n ((e, ok) # trace) = taken w
     (case e of
        Try t v \<Rightarrow> if v = w \<and> ok then n + 1 else n
      | Force v \<Rightarrow> if v = w then n + 1 else n
      | Release v \<Rightarrow> if v = w \<and> w \<noteq> '''' then n - 1 else n) trace"

lemma active_simps [simp]:
  "getActiveWalletDispatches w (put_window v d m) = getActiveWalletDispatches w m"
  "getActiveWalletDispatches w (add_active v m) = getActiveWalletDispatches w m + (if w = v then 1 else 0)"
  "getActiveWalletDispatches w (releaseWalletSlot v m) =
     (if w = v \<and> v \<noteq> '''' then getActiveWalletDispatches w m - 1 else getActiveWalletDispatches w m)"
  by (auto simp: getActiveWalletDispatches_def put_window_def add_active_def releaseWalletSlot_def Let_def split: option.splits)

lemma try_slot_active:
  "try_slot t w m = (ok, m') \<Longrightarrow> getActiveWalletDispatches v m' = getActiveWalletDispatches v m + (if ok \<and> v = w then 1 else 0)"
  by (auto simp: try_slot_def Let_def split: if_splits)

lemma slot_run_taken: "slot_run m es = (trace, m') \<Longrightarrow> getActiveWalletDispatches w m' = taken w (getActiveWalletDispatches w m) trace"
proof (induction es arbitrary: m trace)
  case (Cons e es)
  obtain ok m1 where s: "slot_step m e = (ok, m1)" by (cases "slot_step m e")
  obtain trace' where r: "slot_run m1 es = (trace', m')" "trace = (e, ok) # trace'" using Cons.prems s by (auto split: prod.splits)
  have "getActiveWalletDispatches w m1 = (case e of
        Try t v \<Rightarrow> if v = w \<and> ok then getActiveWalletDispatches w m + 1 else getActiveWalletDispatches w m
      | Force v \<Rightarrow> if v = w then getActiveWalletDispatches w m + 1 else getActiveWalletDispatches w m
      | Release v \<Rightarrow> if v = w \<and> w \<noteq> '''' then getActiveWalletDispatches w m - 1 else getActiveWalletDispatches w m)"
    using s try_slot_active[where v = w] by (cases e) auto
  then show ?case using Cons.IH[OF r(1)] r(2) by simp
qed simp

text \<open>The slots that were granted to a wallet, and rounds in order of time within an interval.\<close>

definition grants :: "string \<Rightarrow> (slot_event \<times> bool) list \<Rightarrow> nat" where
  "grants w trace = length (filter (\<lambda>(e, ok). ok \<and> (\<exists>t. e = Try t w)) trace)"

lemma grants_simps [simp]:
  "grants w [] = 0" "grants w ((e, ok) # trace) = (if ok \<and> (\<exists>t. e = Try t w) then 1 else 0) + grants w trace"
  by (simp_all add: grants_def)

fun in_interval :: "int \<Rightarrow> int \<Rightarrow> slot_event list \<Rightarrow> bool" where
  "in_interval t u [] = True"
| "in_interval t u (Try t' w # es) = (t \<le> t' \<and> t' < u \<and> in_interval t' u es)"
| "in_interval t u (e # es) = in_interval t u es"

lemma interval_earlier: "in_interval t u es \<Longrightarrow> t' \<le> t \<Longrightarrow> in_interval t' u es"
  by (induction t u es rule: in_interval.induct) auto

text \<open>What the window of a wallet still allows before an instant that the next window reaches.\<close>

definition left_in :: "int \<Rightarrow> string \<Rightarrow> WorkerFairnessManager \<Rightarrow> nat" where
  "left_in u w m =
     (case map_of (walletDispatchesInWindow m) w of
        Some d \<Rightarrow> (walletBurstLimit m - win_count d) + (if u \<le> windowStart d + walletWindowMs m then 0 else walletBurstLimit m)
      | None \<Rightarrow> walletBurstLimit m)"

lemma fixed_fields [simp]:
  "walletBurstLimit (add_active w m) = walletBurstLimit m" "walletWindowMs (add_active w m) = walletWindowMs m"
  "walletDispatchesInWindow (add_active w m) = walletDispatchesInWindow m"
  "walletBurstLimit (releaseWalletSlot w m) = walletBurstLimit m" "walletWindowMs (releaseWalletSlot w m) = walletWindowMs m"
  "walletDispatchesInWindow (releaseWalletSlot w m) = walletDispatchesInWindow m"
  "walletBurstLimit (put_window w d m) = walletBurstLimit m" "walletWindowMs (put_window w d m) = walletWindowMs m"
  "walletDispatchesInWindow (put_window w d m) = AList.update w d (walletDispatchesInWindow m)"
  by (simp_all add: add_active_def releaseWalletSlot_def put_window_def Let_def)

lemma slot_step_fixed:
  "slot_step m e = (ok, m') \<Longrightarrow> walletBurstLimit m' = walletBurstLimit m \<and> walletWindowMs m' = walletWindowMs m"
  by (cases e) (auto simp: try_slot_def Let_def split: if_splits)

lemma slot_step_left:
  assumes "slot_step m e = (ok, m')" "u \<le> t + walletWindowMs m" "\<forall>t' v. e = Try t' v \<longrightarrow> t \<le> t' \<and> t' < u"
  shows "(if ok \<and> (\<exists>t. e = Try t w) then 1 else 0) + left_in u w m' \<le> left_in u w m"
proof (cases e)
  case (Try t' v)
  show ?thesis
  proof (cases "v = w")
    case True
    let ?d = "current_window t' w m"
    have new: "left_in u w m' = (walletBurstLimit m - (win_count ?d + (if ok then 1 else 0)))
        + (if u \<le> windowStart ?d + walletWindowMs m then 0 else walletBurstLimit m)" "ok \<Longrightarrow> win_count ?d < walletBurstLimit m"
      using assms(1) Try True by (auto simp: try_slot_def left_in_def Let_def split: if_splits)
    have "(walletBurstLimit m - win_count ?d) + (if u \<le> windowStart ?d + walletWindowMs m then 0 else walletBurstLimit m) \<le> left_in u w m"
      using assms(2,3) Try by (auto simp: left_in_def current_window_def split: option.splits)
    then show ?thesis using new by auto
  next
    case False
    then have "left_in u w m' = left_in u w m"
      using assms(1) Try by (auto simp: try_slot_def left_in_def Let_def split: if_splits option.splits)
    then show ?thesis using Try False by simp
  qed
qed (use assms(1) in \<open>auto simp: left_in_def split: option.split\<close>)

lemma grants_left:
  assumes "in_interval t u es" "u \<le> t + walletWindowMs m" "slot_run m es = (trace, m')"
  shows "grants w trace \<le> left_in u w m"
  using assms
proof (induction es arbitrary: m trace t)
  case (Cons e es)
  obtain ok m1 where s: "slot_step m e = (ok, m1)" by (cases "slot_step m e")
  obtain trace' where r: "slot_run m1 es = (trace', m')" "trace = (e, ok) # trace'" using Cons.prems s by (auto split: prod.splits)
  have e: "\<forall>t' v. e = Try t' v \<longrightarrow> t \<le> t' \<and> t' < u" "in_interval t u es"
    using Cons.prems(1) interval_earlier by (cases e; auto)+
  have "grants w trace' \<le> left_in u w m1" using Cons.IH[OF e(2) _ r(1)] slot_step_fixed[OF s] Cons.prems(2) by simp
  then show ?case using slot_step_left[OF s Cons.prems(2) e(1), of w] r(2) by simp
qed simp

text \<open>Fairness between wallets: however the rounds of waiting calls, forced slots and releases interleave, the
  dispatches that count as active for a wallet are the taken slots less the released ones, and in any
  interval no longer than the window a wallet is granted at most twice its burst limit.\<close>

theorem wallet_slots_bounded:
  assumes "slot_run m es = (trace, m')" "in_interval t u es" "u \<le> t + walletWindowMs m"
  shows "getActiveWalletDispatches w m' = taken w (getActiveWalletDispatches w m) trace
    \<and> grants w trace \<le> 2 * walletBurstLimit m"
proof -
  have "left_in u w m \<le> 2 * walletBurstLimit m" by (auto simp: left_in_def split: option.splits)
  then show ?thesis using grants_left[OF assms(2,3,1), of w] slot_run_taken[OF assms(1)] by simp
qed

text \<open>The defaults of the environment.\<close>

definition default_rates :: rate_env where
  "default_rates = \<lparr>PROVIDER_RATE_BUDGET_TELEGRAM = 30, PROVIDER_RATE_BUDGET_DISCORD = 30, PROVIDER_RATE_BUDGET_SLACK = 20,
     PROVIDER_RATE_BUDGET_WEBHOOK = 50, PROVIDER_RATE_BUDGET_EMAIL = 10, WALLET_BURST_ALLOWANCE = Some 20\<rparr>"

definition one_per_window :: WorkerFairnessManager where
  "one_per_window = newWorkerFairnessManager 0 default_rates None (Some 1) (Some 1000)"

definition edge_of_window :: "slot_event list" where
  "edge_of_window = [Try 500 ''w'', Release ''w'', Try 999 ''w'', Try 1400 ''w'']"

theorem wallet_slots_bounded_witness:
  "grants ''w'' (fst (slot_run one_per_window edge_of_window)) \<le> 2"
proof (cases "slot_run one_per_window edge_of_window")
  case (Pair trace m')
  have "walletWindowMs one_per_window = 1000" "walletBurstLimit one_per_window = 1" "in_interval 500 1500 edge_of_window"
    by (simp_all add: one_per_window_def newWorkerFairnessManager_def edge_of_window_def)
  then show ?thesis using wallet_slots_bounded [OF Pair, of 500 1500 "''w''"] Pair by simp
qed

section \<open>Limits that are not kept\<close>

text \<open>The window is fixed, not sliding: two bursts at its edge are one millisecond apart.\<close>

lemma window_edge_doubles_burst:
  "grants ''w'' (fst (slot_run one_per_window [Try 0 ''v'', Try 0 ''w'', Release ''w'', Try 999 ''w'', Try 1000 ''w''])) = 2"
  by (simp add: one_per_window_def newWorkerFairnessManager_def try_slot_def current_window_def put_window_def add_active_def
      getActiveWalletDispatches_def releaseWalletSlot_def initProviderBudgets_def Let_def)

text \<open>A call that has waited its time takes a slot above the limit.\<close>

lemma full_wallet_refused: "maxConcurrentPerWallet m \<le> getActiveWalletDispatches w m \<Longrightarrow>
  try_slot now w m = (False, put_window w (current_window now w m) m)"
  by (simp add: try_slot_def Let_def)

lemma slot_loop_forces:
  assumes "maxConcurrentPerWallet m \<le> getActiveWalletDispatches w m"
    "slot_loop late (\<lambda>_. id) i start now w maxWaitMs m = (ok, m')"
  shows "\<not> ok \<and> getActiveWalletDispatches w m' = getActiveWalletDispatches w m + 1 \<and> maxConcurrentPerWallet m' = maxConcurrentPerWallet m"
  using assms
proof (induction "nat (maxWaitMs - (now - start) + 1)" arbitrary: i now m rule: less_induct)
  case less
  note full = full_wallet_refused[OF less.prems(1), of now]
  let ?m = "put_window w (current_window now w m) m"
  let ?wait = "min 100 (max 10 (maxWaitMs - (now - start)))"
  have mc: "maxConcurrentPerWallet ?m = maxConcurrentPerWallet m" "maxConcurrentPerWallet (add_active w n) = maxConcurrentPerWallet n" for n
    by (simp_all add: put_window_def add_active_def)
  show ?case
  proof (cases "now - start \<le> maxWaitMs \<and> 10 < ?wait")
    case True
    then have "slot_loop late (\<lambda>_. id) (Suc i) start (now + ?wait + int (late i)) w maxWaitMs ?m = (ok, m')"
      using less.prems(2) full by (subst (asm) slot_loop.simps) (auto simp: Let_def min_def max_def split: if_splits)
    from less.hyps[OF _ _ this] show ?thesis using True less.prems(1) mc by auto
  next
    case False
    then have "(ok, m') = (False, add_active w m) \<or> (ok, m') = (False, add_active w ?m)"
      using less.prems(2) full by (subst (asm) slot_loop.simps) (auto simp: Let_def split: if_splits)
    then show ?thesis using mc by auto
  qed
qed

lemma forced_slot_exceeds_limit:
  assumes "w \<noteq> ''''" "maxConcurrentPerWallet m \<le> getActiveWalletDispatches w m"
    "acquireWalletSlot late (\<lambda>_. id) now w maxWaitMs m = (ok, m')"
  shows "maxConcurrentPerWallet m' < getActiveWalletDispatches w m'"
  using slot_loop_forces[OF assms(2)] assms by (simp add: acquireWalletSlot_def)

end
