(* ===== verification/RedisStore.thy ===== *)
theory RedisStore
  imports Prelude
begin

text \<open>
  The key-value store behind the locks, nonces and caches (\<open>apps/api/src/lib/redis.ts\<close>). Redis itself is a
  service: what its clients rely on is stated as the locales \<open>nx_store\<close> (commands at one instant) and
  \<open>kv_store\<close> (commands at instants of time, with expiry), which the users of the store take as hypotheses.
  The in-memory cache that replaces Redis in degraded mode is code of the program; it is modelled here and
  interprets both locales. Times are milliseconds, time to live is in seconds, the clock is an argument.
  The connection life cycle and the wrapper \<open>safeRedis\<close> are a state machine over the client's events;
  reading the environment, creating the client and the shutdown tasks are not modelled.
\<close>

section \<open>Contracts\<close>

text \<open>A lock whose holder is identified by a token: it is acquired only when it is free, and a release
  with a token that does not hold it changes nothing.\<close>

locale token_lock =
  fixes holder :: "'r \<Rightarrow> 'k \<Rightarrow> 't option" and acquire :: "'r \<Rightarrow> 'k \<Rightarrow> 't \<Rightarrow> 'r option"
    and release :: "'r \<Rightarrow> 'k \<Rightarrow> 't \<Rightarrow> 'r"
  assumes acquire_free: "acquire r k t = Some r' \<Longrightarrow> holder r k = None"
    and acquire_holds: "acquire r k t = Some r' \<Longrightarrow> holder r' k = Some t"
    and acquire_frame: "acquire r k t = Some r' \<Longrightarrow> k' \<noteq> k \<Longrightarrow> holder r' k' = holder r k'"
    and release_frame: "k' \<noteq> k \<or> holder r k \<noteq> Some t \<Longrightarrow> holder (release r k t) k' = holder r k'"
    and release_frees: "holder r k = Some t \<Longrightarrow> holder (release r k t) k = None"
begin

lemma held_acquire: "acquire r k t = Some r' \<Longrightarrow> holder r k' = Some t' \<Longrightarrow> k' \<noteq> k \<and> holder r' k' = Some t'"
  by (metis acquire_free acquire_frame option.distinct(1))

lemma held_release: "t' \<noteq> t \<Longrightarrow> holder r k' = Some t' \<Longrightarrow> holder (release r k t) k' = Some t'"
  by (cases "k' = k") (simp_all add: release_frame)

end

text \<open>The commands \<open>GET\<close>, \<open>SET NX\<close> and \<open>DEL\<close>; \<open>SET NX\<close> returns nothing when the key exists.\<close>

locale nx_store =
  fixes get :: "'r \<Rightarrow> string \<Rightarrow> string option" and set_nx :: "'r \<Rightarrow> string \<Rightarrow> string \<Rightarrow> 'r option"
    and del :: "'r \<Rightarrow> string \<Rightarrow> 'r"
  assumes nx_absent: "set_nx r k v = Some r' \<Longrightarrow> get r k = None"
    and nx_succeeds: "get r k = None \<Longrightarrow> \<exists>r'. set_nx r k v = Some r'"
    and nx_get: "set_nx r k v = Some r' \<Longrightarrow> get r' k = Some v"
    and nx_frame: "set_nx r k v = Some r' \<Longrightarrow> k' \<noteq> k \<Longrightarrow> get r' k' = get r k'"
    and del_get: "get (del r k) k = None"
    and del_frame: "k' \<noteq> k \<Longrightarrow> get (del r k) k' = get r k'"

text \<open>The Lua script that releases a lock: compare the value with the token and delete the key.\<close>

definition compare_and_delete ::
  "('r \<Rightarrow> string \<Rightarrow> string option) \<Rightarrow> ('r \<Rightarrow> string \<Rightarrow> 'r) \<Rightarrow> 'r \<Rightarrow> string \<Rightarrow> string \<Rightarrow> 'r \<times> bool" where
  "compare_and_delete get del r k token = (if get r k = Some token then (del r k, True) else (r, False))"

sublocale nx_store \<subseteq> lock: token_lock get set_nx "\<lambda>r k t. fst (compare_and_delete get del r k t)"
  by unfold_locales (auto simp: compare_and_delete_def nx_absent nx_get nx_frame del_get del_frame)

context nx_store
begin

lemma held_set_nx: "set_nx r k v = Some r' \<Longrightarrow> get r k' = Some t \<Longrightarrow> k' \<noteq> k \<and> get r' k' = Some t"
  by (rule lock.held_acquire)

lemma held_compare_and_delete:
  "t' \<noteq> t \<Longrightarrow> get r k' = Some t' \<Longrightarrow> get (fst (compare_and_delete get del r k t)) k' = Some t'"
  by (rule lock.held_release)

end

text \<open>The commands with expiry. The instant at which a key expires is left open.\<close>

locale kv_store =
  fixes get :: "int \<Rightarrow> 'r \<Rightarrow> string \<Rightarrow> string option"
    and put :: "int \<Rightarrow> 'r \<Rightarrow> string \<Rightarrow> string \<Rightarrow> int option \<Rightarrow> 'r"
    and set_nx :: "int \<Rightarrow> 'r \<Rightarrow> string \<Rightarrow> string \<Rightarrow> int option \<Rightarrow> 'r option"
    and del :: "int \<Rightarrow> 'r \<Rightarrow> string \<Rightarrow> 'r"
  assumes nx_absent: "set_nx t r k v ttl = Some r' \<Longrightarrow> get t r k = None"
    and nx_succeeds: "get t r k = None \<Longrightarrow> \<exists>r'. set_nx t r k v ttl = Some r'"
    and nx_get: "set_nx t r k v ttl = Some r' \<Longrightarrow> t \<le> t' \<Longrightarrow> ttl = None \<or> t' < t + the ttl * 1000 \<Longrightarrow> get t' r' k = Some v"
    and nx_frame: "set_nx t r k v ttl = Some r' \<Longrightarrow> t \<le> t' \<Longrightarrow> k' \<noteq> k \<Longrightarrow> get t' r' k' = get t' r k'"
    and put_get: "t \<le> t' \<Longrightarrow> ttl = None \<or> t' < t + the ttl * 1000 \<Longrightarrow> get t' (put t r k v ttl) k = Some v"
    and put_only: "t \<le> t' \<Longrightarrow> get t' (put t r k v ttl) k = Some w \<Longrightarrow> w = v"
    and put_expired: "0 < d \<Longrightarrow> 0 < t \<Longrightarrow> t + d * 1000 < t' \<Longrightarrow> get t' (put t r k v (Some d)) k = None"
    and put_frame: "t \<le> t' \<Longrightarrow> k' \<noteq> k \<Longrightarrow> get t' (put t r k v ttl) k' = get t' r k'"
    and del_get: "t \<le> t' \<Longrightarrow> get t' (del t r k) k = None"
    and del_frame: "t \<le> t' \<Longrightarrow> k' \<noteq> k \<Longrightarrow> get t' (del t r k) k' = get t' r k'"
begin

text \<open>A \<open>SET NX\<close> that succeeded keeps later ones on its key from succeeding until it expires, and leaves the
  protection of other keys alone.\<close>

definition protected :: "'r \<Rightarrow> string \<Rightarrow> int \<Rightarrow> int \<Rightarrow> bool" where
  "protected r k t u = (\<forall>t'. t \<le> t' \<longrightarrow> t' < u \<longrightarrow> get t' r k \<noteq> None)"

lemma nx_fails: "get t r k \<noteq> None \<Longrightarrow> set_nx t r k v ttl = None"
  using nx_absent by (cases "set_nx t r k v ttl") fastforce+

lemma nx_protects: "set_nx t r k v (Some d) = Some r' \<Longrightarrow> protected r' k t (t + d * 1000)"
  using nx_get by (auto simp: protected_def)

lemma protected_fails: "protected r k t u \<Longrightarrow> t \<le> t' \<Longrightarrow> t' < u \<Longrightarrow> set_nx t' r k v ttl = None"
  by (intro nx_fails) (simp add: protected_def)

lemma protected_nx:
  assumes "protected r k s u" "s \<le> t" "set_nx t r k' v ttl = Some r'" "t < u \<or> k' \<noteq> k"
  shows "protected r' k t u"
proof (cases "k' = k")
  case True
  then show ?thesis using assms nx_absent [OF assms(3)] by (auto simp: protected_def)
next
  case False
  then show ?thesis using assms nx_frame [OF assms(3), of _ k] by (simp add: protected_def)
qed

lemma protected_later: "protected r k s u \<Longrightarrow> s \<le> t \<Longrightarrow> protected r k t u"
  by (simp add: protected_def)

end

sublocale kv_store \<subseteq> at_instant: nx_store "get t" "\<lambda>r k v. set_nx t r k v None" "del t" for t
  by unfold_locales (simp_all add: nx_absent nx_succeeds nx_get nx_frame del_get del_frame)

section \<open>The in-memory cache\<close>

record CacheEntry =
  ce_value :: string
  expiresAt :: "int option"

record MemoryFallbackCache =
  store :: "(string \<times> CacheEntry) list"
  setStore :: "(string \<times> string list) list"

definition newMemoryFallbackCache :: MemoryFallbackCache where
  "newMemoryFallbackCache = \<lparr>store = [], setStore = []\<rparr>"

text \<open>The JavaScript test \<open>entry.expiresAt && Date.now() > entry.expiresAt\<close>: zero counts as absent.\<close>

definition expired :: "int \<Rightarrow> CacheEntry \<Rightarrow> bool" where
  "expired now e = (case expiresAt e of None \<Rightarrow> False | Some x \<Rightarrow> x \<noteq> 0 \<and> now > x)"

definition mem_get :: "int \<Rightarrow> MemoryFallbackCache \<Rightarrow> string \<Rightarrow> MemoryFallbackCache \<times> string option" where
  "mem_get now m key =
     (case map_of (store m) key of
        None \<Rightarrow> (m, None)
      | Some entry \<Rightarrow>
          if expired now entry then (m\<lparr>store := AList.delete key (store m)\<rparr>, None)
          else (m, Some (ce_value entry)))"

definition truthy_int :: "int option \<Rightarrow> bool" where
  "truthy_int n = (case n of None \<Rightarrow> False | Some i \<Rightarrow> i \<noteq> 0)"

definition mem_set :: "int \<Rightarrow> MemoryFallbackCache \<Rightarrow> string \<Rightarrow> string \<Rightarrow> int option \<Rightarrow> MemoryFallbackCache" where
  "mem_set now m key v ttlSeconds =
     m\<lparr>store := AList.update key
         \<lparr>ce_value = v, expiresAt = (if truthy_int ttlSeconds then Some (now + the ttlSeconds * 1000) else None)\<rparr> (store m)\<rparr>"

definition mem_del :: "MemoryFallbackCache \<Rightarrow> string \<Rightarrow> MemoryFallbackCache \<times> nat" where
  "mem_del m key =
     (m\<lparr>store := AList.delete key (store m), setStore := AList.delete key (setStore m)\<rparr>,
      if map_of (store m) key = None then 0 else 1)"

definition mem_exists :: "int \<Rightarrow> MemoryFallbackCache \<Rightarrow> string \<Rightarrow> MemoryFallbackCache \<times> bool" where
  "mem_exists now m key = (let (m', v) = mem_get now m key in (m', v \<noteq> None))"

fun sadd_loop :: "string list \<Rightarrow> nat \<Rightarrow> string list \<Rightarrow> string list \<times> nat" where
  "sadd_loop s added [] = (s, added)"
| "sadd_loop s added (m # ms) = (if m \<notin> set s then sadd_loop (s @ [m]) (added + 1) ms else sadd_loop s added ms)"

definition mem_sadd :: "MemoryFallbackCache \<Rightarrow> string \<Rightarrow> string list \<Rightarrow> MemoryFallbackCache \<times> nat" where
  "mem_sadd m key members =
     (let s = (case map_of (setStore m) key of Some s \<Rightarrow> s | None \<Rightarrow> []);
          (s', added) = sadd_loop s 0 members in
      (m\<lparr>setStore := AList.update key s' (setStore m)\<rparr>, added))"

definition mem_sismember :: "MemoryFallbackCache \<Rightarrow> string \<Rightarrow> string \<Rightarrow> bool" where
  "mem_sismember m key member = (case map_of (setStore m) key of Some s \<Rightarrow> member \<in> set s | None \<Rightarrow> False)"

definition mem_clear :: "MemoryFallbackCache \<Rightarrow> MemoryFallbackCache" where
  "mem_clear m = m\<lparr>store := [], setStore := []\<rparr>"

definition mem_size :: "MemoryFallbackCache \<Rightarrow> nat" where
  "mem_size m = length (store m)"

text \<open>The fallback branch of \<open>redisCache.setNx\<close>.\<close>

definition mem_setNx :: "int \<Rightarrow> MemoryFallbackCache \<Rightarrow> string \<Rightarrow> string \<Rightarrow> int option \<Rightarrow> MemoryFallbackCache \<times> bool" where
  "mem_setNx now m key v ttlSeconds =
     (let (m', e) = mem_exists now m key in
      if e then (m', False) else (mem_set now m' key v ttlSeconds, True))"

section \<open>Connection life cycle and degraded mode\<close>

datatype RedisLifecycleStatus = rs_connecting | rs_ready | rs_reconnecting | rs_degraded | rs_closed

datatype client_event = ev_connect | ev_ready | ev_reconnecting | ev_error | ev_close | ev_end

definition MAX_CONSECUTIVE_ERRORS_FOR_DEGRADED :: nat where
  "MAX_CONSECUTIVE_ERRORS_FOR_DEGRADED = 3"

record redis_module =
  lifecycleStatus :: RedisLifecycleStatus
  consecutiveErrors :: nat
  memory :: MemoryFallbackCache

fun on_event :: "redis_module \<Rightarrow> client_event \<Rightarrow> redis_module" where
  "on_event s ev_connect = s\<lparr>lifecycleStatus := rs_connecting\<rparr>"
| "on_event s ev_ready = s\<lparr>lifecycleStatus := rs_ready, consecutiveErrors := 0\<rparr>"
| "on_event s ev_reconnecting = s\<lparr>lifecycleStatus := rs_reconnecting\<rparr>"
| "on_event s ev_error =
     (let n = consecutiveErrors s + 1 in
      s\<lparr>consecutiveErrors := n,
        lifecycleStatus := (if n \<ge> MAX_CONSECUTIVE_ERRORS_FOR_DEGRADED then rs_degraded else lifecycleStatus s)\<rparr>)"
| "on_event s ev_close = (if lifecycleStatus s \<noteq> rs_closed then s\<lparr>lifecycleStatus := rs_degraded\<rparr> else s)"
| "on_event s ev_end = s\<lparr>lifecycleStatus := rs_closed\<rparr>"

definition isRedisDegraded :: "redis_module \<Rightarrow> bool" where
  "isRedisDegraded s = (lifecycleStatus s = rs_degraded \<or> lifecycleStatus s = rs_closed
     \<or> consecutiveErrors s \<ge> MAX_CONSECUTIVE_ERRORS_FOR_DEGRADED)"

text \<open>The answer of the readiness probe to the \<open>PING\<close>: \<^const>\<open>None\<close> stands for an error or the time-out.\<close>

record RedisHealthStatus =
  isReady :: bool
  health_status :: RedisLifecycleStatus
  isDegradedMode :: bool

definition checkRedisReadiness :: "redis_module \<Rightarrow> string option \<Rightarrow> redis_module \<times> RedisHealthStatus" where
  "checkRedisReadiness s ping =
     (case ping of
        None \<Rightarrow> (s\<lparr>lifecycleStatus := rs_degraded\<rparr>, \<lparr>isReady = False, health_status = rs_degraded, isDegradedMode = True\<rparr>)
      | Some p \<Rightarrow>
          if p = ''PONG'' then (s\<lparr>lifecycleStatus := rs_ready\<rparr>, \<lparr>isReady = True, health_status = rs_ready, isDegradedMode = False\<rparr>)
          else (s, \<lparr>isReady = False, health_status = lifecycleStatus s, isDegradedMode = True\<rparr>))"

text \<open>An operation of the client on the server, \<^const>\<open>None\<close> when it throws; a fallback on the memory.\<close>

type_synonym ('r, 'a) client_op = "'r \<Rightarrow> 'r \<times> 'a option"
type_synonym 'a fallback_op = "MemoryFallbackCache \<Rightarrow> MemoryFallbackCache \<times> 'a"

definition run_fallback :: "redis_module \<Rightarrow> 'a fallback_op \<Rightarrow> redis_module \<times> 'a" where
  "run_fallback s fallback = (let (m, a) = fallback (memory s) in (s\<lparr>memory := m\<rparr>, a))"

definition safeRedis ::
  "('r, 'a) client_op \<Rightarrow> 'a fallback_op \<Rightarrow> redis_module \<Rightarrow> 'r \<Rightarrow> redis_module \<times> 'r \<times> 'a" where
  "safeRedis operation fallback s r =
     (if isRedisDegraded s then (let (s', a) = run_fallback s fallback in (s', r, a))
      else (case operation r of
              (r', Some a) \<Rightarrow> (s, r', a)
            | (r', None) \<Rightarrow> (let (s', a) = run_fallback (s\<lparr>lifecycleStatus := rs_degraded\<rparr>) fallback in (s', r', a))))"

text \<open>The commands of the Redis client.\<close>

record 'r redis_client =
  client_get :: "string \<Rightarrow> ('r, string option) client_op"
  client_set :: "string \<Rightarrow> string \<Rightarrow> int option \<Rightarrow> ('r, unit) client_op"
  client_del :: "string \<Rightarrow> ('r, nat) client_op"
  client_exists :: "string \<Rightarrow> ('r, nat) client_op"
  client_set_nx :: "string \<Rightarrow> string \<Rightarrow> int option \<Rightarrow> ('r, string option) client_op"

definition map_op :: "('a \<Rightarrow> 'b) \<Rightarrow> ('r, 'a) client_op \<Rightarrow> ('r, 'b) client_op" where
  "map_op f p r = (let (r', a) = p r in (r', map_option f a))"

definition positive_ttl :: "int option \<Rightarrow> int option" where
  "positive_ttl ttl = (case ttl of Some d \<Rightarrow> if d > 0 then Some d else None | None \<Rightarrow> None)"

definition cache_get :: "'r redis_client \<Rightarrow> int \<Rightarrow> string \<Rightarrow> redis_module \<Rightarrow> 'r \<Rightarrow> redis_module \<times> 'r \<times> string option" where
  "cache_get c now key = safeRedis (client_get c key) (\<lambda>m. mem_get now m key)"

definition cache_set :: "'r redis_client \<Rightarrow> int \<Rightarrow> string \<Rightarrow> string \<Rightarrow> int option \<Rightarrow> redis_module \<Rightarrow> 'r \<Rightarrow> redis_module \<times> 'r \<times> unit" where
  "cache_set c now key v ttl = safeRedis (client_set c key v (positive_ttl ttl)) (\<lambda>m. (mem_set now m key v ttl, ()))"

definition cache_del :: "'r redis_client \<Rightarrow> string \<Rightarrow> redis_module \<Rightarrow> 'r \<Rightarrow> redis_module \<times> 'r \<times> nat" where
  "cache_del c key = safeRedis (client_del c key) (\<lambda>m. mem_del m key)"

definition cache_exists :: "'r redis_client \<Rightarrow> int \<Rightarrow> string \<Rightarrow> redis_module \<Rightarrow> 'r \<Rightarrow> redis_module \<times> 'r \<times> bool" where
  "cache_exists c now key = safeRedis (map_op (\<lambda>n. n > 0) (client_exists c key)) (\<lambda>m. mem_exists now m key)"

definition cache_setNx ::
  "'r redis_client \<Rightarrow> int \<Rightarrow> string \<Rightarrow> string \<Rightarrow> int option \<Rightarrow> redis_module \<Rightarrow> 'r \<Rightarrow> redis_module \<times> 'r \<times> bool" where
  "cache_setNx c now key v ttl =
     safeRedis (map_op (\<lambda>res. res = Some ''OK'') (client_set_nx c key v (positive_ttl ttl))) (\<lambda>m. mem_setNx now m key v ttl)"

section \<open>The memory interprets the contracts\<close>

definition mem_lookup :: "int \<Rightarrow> MemoryFallbackCache \<Rightarrow> string \<Rightarrow> string option" where
  "mem_lookup now m key = snd (mem_get now m key)"

definition mem_try_set :: "int \<Rightarrow> MemoryFallbackCache \<Rightarrow> string \<Rightarrow> string \<Rightarrow> int option \<Rightarrow> MemoryFallbackCache option" where
  "mem_try_set now m key v ttl = (case mem_setNx now m key v ttl of (m', True) \<Rightarrow> Some m' | (m', False) \<Rightarrow> None)"

lemma mem_lookup_alt:
  "mem_lookup now m k = (case map_of (store m) k of None \<Rightarrow> None | Some e \<Rightarrow> if expired now e then None else Some (ce_value e))"
  by (simp add: mem_lookup_def mem_get_def split: option.splits)

lemma mem_exists_alt: "mem_exists now m k = (fst (mem_get now m k), mem_lookup now m k \<noteq> None)"
  by (simp add: mem_exists_def mem_lookup_def case_prod_beta Let_def)

lemma mem_lookup_mem_get [simp]: "now \<le> t \<Longrightarrow> mem_lookup t (fst (mem_get now m k)) k' = mem_lookup t m k'"
  by (auto simp: mem_lookup_alt mem_get_def expired_def split: option.splits)

lemma mem_lookup_mem_set:
  "mem_lookup t (mem_set now m k v ttl) k' =
     (if k' = k then (if truthy_int ttl \<and> now + the ttl * 1000 \<noteq> 0 \<and> t > now + the ttl * 1000 then None else Some v)
      else mem_lookup t m k')"
  by (simp add: mem_lookup_alt mem_set_def expired_def)

lemma mem_lookup_mem_del: "mem_lookup t (fst (mem_del m k)) k' = (if k' = k then None else mem_lookup t m k')"
  by (simp add: mem_lookup_alt mem_del_def)

lemma mem_try_set_alt:
  "mem_try_set now m k v ttl =
     (if mem_lookup now m k = None then Some (mem_set now (fst (mem_get now m k)) k v ttl) else None)"
  by (simp add: mem_try_set_def mem_setNx_def mem_exists_alt)

interpretation mem_store: kv_store mem_lookup mem_set mem_try_set "\<lambda>t m k. fst (mem_del m k)"
  by unfold_locales
    (auto simp: mem_try_set_alt mem_lookup_mem_set mem_lookup_mem_del truthy_int_def split: if_splits option.splits)

text \<open>The timed commands as one parameter of their users, with the contract as a named hypothesis.\<close>

record 'r timed_redis =
  tr_get :: "int \<Rightarrow> 'r \<Rightarrow> string \<Rightarrow> string option"
  tr_put :: "int \<Rightarrow> 'r \<Rightarrow> string \<Rightarrow> string \<Rightarrow> int option \<Rightarrow> 'r"
  tr_set_nx :: "int \<Rightarrow> 'r \<Rightarrow> string \<Rightarrow> string \<Rightarrow> int option \<Rightarrow> 'r option"
  tr_del :: "int \<Rightarrow> 'r \<Rightarrow> string \<Rightarrow> 'r"

definition redis_contract :: "'r timed_redis \<Rightarrow> bool" where
  "redis_contract c = kv_store (tr_get c) (tr_put c) (tr_set_nx c) (tr_del c)"

definition mem_redis :: "MemoryFallbackCache timed_redis" where
  "mem_redis = \<lparr>tr_get = mem_lookup, tr_put = mem_set, tr_set_nx = mem_try_set, tr_del = (\<lambda>t m k. fst (mem_del m k))\<rparr>"

lemma mem_redis_simps [simp]:
  "tr_get mem_redis = mem_lookup" "tr_put mem_redis = mem_set" "tr_set_nx mem_redis = mem_try_set"
  "tr_del mem_redis = (\<lambda>t m k. fst (mem_del m k))"
  by (simp_all add: mem_redis_def)

lemma mem_redis_contract: "redis_contract mem_redis"
  using mem_store.kv_store_axioms by (simp add: redis_contract_def mem_redis_def)

section \<open>Refinement of a map with deadlines\<close>

datatype cache_op = op_get string | op_set string string "int option" | op_del string | op_exists string
  | op_setNx string string "int option"

datatype cache_result = res_value "string option" | res_done | res_bool bool

text \<open>One command on the memory at an instant. The count that a deletion returns is not observed.\<close>

fun mem_step :: "int \<Rightarrow> MemoryFallbackCache \<Rightarrow> cache_op \<Rightarrow> MemoryFallbackCache \<times> cache_result" where
  "mem_step now m (op_get k) = map_prod id res_value (mem_get now m k)"
| "mem_step now m (op_set k v ttl) = (mem_set now m k v ttl, res_done)"
| "mem_step now m (op_del k) = (fst (mem_del m k), res_done)"
| "mem_step now m (op_exists k) = map_prod id res_bool (mem_exists now m k)"
| "mem_step now m (op_setNx k v ttl) = map_prod id res_bool (mem_setNx now m k v ttl)"

fun mem_run :: "MemoryFallbackCache \<Rightarrow> (int \<times> cache_op) list \<Rightarrow> cache_result list" where
  "mem_run m [] = []"
| "mem_run m ((t, c) # cs) = (let (m', r) = mem_step t m c in r # mem_run m' cs)"

text \<open>The specification: a finite map from keys to a value and the last instant of its life.\<close>

type_synonym expiring_map = "string \<rightharpoonup> string \<times> int option"

definition deadline :: "int \<Rightarrow> int option \<Rightarrow> int option" where
  "deadline now ttl = (if truthy_int ttl \<and> now + the ttl * 1000 \<noteq> 0 then Some (now + the ttl * 1000) else None)"

definition live :: "int \<Rightarrow> expiring_map \<Rightarrow> string \<Rightarrow> string option" where
  "live now a k = (case a k of
     None \<Rightarrow> None
   | Some (v, x) \<Rightarrow> (case x of Some d \<Rightarrow> if now \<le> d then Some v else None | None \<Rightarrow> Some v))"

fun spec_step :: "int \<Rightarrow> expiring_map \<Rightarrow> cache_op \<Rightarrow> expiring_map \<times> cache_result" where
  "spec_step now a (op_get k) = (a, res_value (live now a k))"
| "spec_step now a (op_set k v ttl) = (a(k \<mapsto> (v, deadline now ttl)), res_done)"
| "spec_step now a (op_del k) = (a(k := None), res_done)"
| "spec_step now a (op_exists k) = (a, res_bool (live now a k \<noteq> None))"
| "spec_step now a (op_setNx k v ttl) =
     (if live now a k \<noteq> None then (a, res_bool False) else (a(k \<mapsto> (v, deadline now ttl)), res_bool True))"

fun spec_run :: "expiring_map \<Rightarrow> (int \<times> cache_op) list \<Rightarrow> cache_result list" where
  "spec_run a [] = []"
| "spec_run a ((t, c) # cs) = (let (a', r) = spec_step t a c in r # spec_run a' cs)"

text \<open>The simulation: from an instant on, both answer every look-up alike.\<close>

definition same_view :: "int \<Rightarrow> MemoryFallbackCache \<Rightarrow> expiring_map \<Rightarrow> bool" where
  "same_view t m a = (\<forall>t' k. t \<le> t' \<longrightarrow> mem_lookup t' m k = live t' a k)"

lemma live_update:
  "live t (a(k \<mapsto> (v, deadline now ttl))) k' =
     (if k' = k then (if truthy_int ttl \<and> now + the ttl * 1000 \<noteq> 0 \<and> t > now + the ttl * 1000 then None else Some v)
      else live t a k')"
  by (auto simp: live_def deadline_def)

lemma live_delete: "live t (a(k := None)) k' = (if k' = k then None else live t a k')"
  by (simp add: live_def)

lemmas same_view_simps = same_view_def mem_lookup_mem_set mem_lookup_mem_del live_update live_delete

lemma snd_mem_get: "snd (mem_get t m k) = mem_lookup t m k"
  by (simp add: mem_lookup_def)

lemma step_same_view:
  assumes "same_view t m a"
  shows "snd (mem_step t m c) = snd (spec_step t a c)"
    and "same_view t (fst (mem_step t m c)) (fst (spec_step t a c))"
proof -
  have l: "mem_lookup t m k = live t a k" for k using assms by (simp add: same_view_def)
  show "snd (mem_step t m c) = snd (spec_step t a c)"
    by (cases c) (simp_all add: l mem_exists_alt mem_setNx_def snd_mem_get)
  show "same_view t (fst (mem_step t m c)) (fst (spec_step t a c))"
    using assms by (cases c) (auto simp: same_view_simps mem_exists_alt mem_setNx_def l)
qed

lemma same_view_later: "same_view t m a \<Longrightarrow> t \<le> t' \<Longrightarrow> same_view t' m a"
  by (simp add: same_view_def)

lemma run_same_view:
  "same_view t m a \<Longrightarrow> sorted (t # map fst cs) \<Longrightarrow> mem_run m cs = spec_run a cs"
proof (induction cs arbitrary: t m a)
  case (Cons p cs)
  obtain u c where p: "p = (u, c)" by (cases p)
  have v: "same_view u m a" using Cons.prems same_view_later p by auto
  have "mem_run (fst (mem_step u m c)) cs = spec_run (fst (spec_step u a c)) cs"
    by (rule Cons.IH [of u]) (use Cons.prems p step_same_view(2) [OF v] in auto)
  then show ?case using step_same_view(1) [OF v] by (simp add: p case_prod_beta Let_def)
qed simp



section \<open>Degraded mode\<close>

text \<open>In degraded mode the server is not used; an operation that throws is answered by the memory and starts
  the degraded mode; otherwise the memory is not used.\<close>

lemma safeRedis_cases:
  "safeRedis p f s r =
     (if isRedisDegraded s then (s\<lparr>memory := fst (f (memory s))\<rparr>, r, snd (f (memory s)))
      else case snd (p r) of
        Some a \<Rightarrow> (s, fst (p r), a)
      | None \<Rightarrow> (s\<lparr>lifecycleStatus := rs_degraded, memory := fst (f (memory s))\<rparr>, fst (p r), snd (f (memory s))))"
  by (simp add: safeRedis_def run_fallback_def case_prod_beta Let_def split: option.splits)

fun errors_since_ready :: "client_event list \<Rightarrow> nat \<Rightarrow> nat" where
  "errors_since_ready [] n = n"
| "errors_since_ready (e # es) n =
     errors_since_ready es (if e = ev_ready then 0 else if e = ev_error then n + 1 else n)"

lemma consecutiveErrors_run:
  "consecutiveErrors (foldl on_event s es) = errors_since_ready es (consecutiveErrors s)"
proof (induction es arbitrary: s)
  case (Cons e es)
  then show ?case by (cases e) (simp_all add: Let_def)
qed simp

lemma degraded_by_errors: "errors_since_ready es (consecutiveErrors s) \<ge> 3 \<Longrightarrow> isRedisDegraded (foldl on_event s es)"
  by (simp add: isRedisDegraded_def consecutiveErrors_run MAX_CONSECUTIVE_ERRORS_FOR_DEGRADED_def)

text \<open>A successful readiness probe reports that the mode is not degraded but leaves the error counter, so the
  module may stay degraded.\<close>

lemma probe_reports_ready_while_degraded:
  assumes "consecutiveErrors s \<ge> 3"
  shows "isDegradedMode (snd (checkRedisReadiness s (Some ''PONG''))) = False
    \<and> isRedisDegraded (fst (checkRedisReadiness s (Some ''PONG'')))"
  using assms by (simp add: checkRedisReadiness_def isRedisDegraded_def MAX_CONSECUTIVE_ERRORS_FOR_DEGRADED_def)

end
