(* ===== verification/RedisBreaker.thy ===== *)
theory RedisBreaker
  imports RedisStore
begin

text \<open>
  The circuit breaker of webhook endpoints whose state is in Redis
  (\<open>apps/api/src/modules/alerts/circuit-breaker.ts\<close>). Three keys of an endpoint hold its state, a counter of
  failures that expires with its window, and the instant of the last opening. The commands of Redis are a
  parameter with the contract \<open>counter_store\<close>; every operation is one step at an instant, and Redis is
  reachable during the whole of it or not at all. Log messages are left out.
\<close>

section \<open>Contract of Redis\<close>

record 'r counter_redis =
  cr_get :: "int \<Rightarrow> 'r \<Rightarrow> string \<Rightarrow> string option"
  cr_set :: "int \<Rightarrow> 'r \<Rightarrow> string \<Rightarrow> string \<Rightarrow> 'r"
  cr_del :: "int \<Rightarrow> 'r \<Rightarrow> string \<Rightarrow> 'r"
  cr_incr :: "int \<Rightarrow> 'r \<Rightarrow> string \<Rightarrow> nat \<times> 'r"
  cr_expire :: "int \<Rightarrow> 'r \<Rightarrow> string \<Rightarrow> int \<Rightarrow> 'r"

text \<open>
  A counter counts from one; incrementing it keeps its time to live. The instant at which a key expires is
  left open.
\<close>

locale counter_store =
  fixes get :: "int \<Rightarrow> 'r \<Rightarrow> string \<Rightarrow> string option" and put :: "int \<Rightarrow> 'r \<Rightarrow> string \<Rightarrow> string \<Rightarrow> 'r"
    and del :: "int \<Rightarrow> 'r \<Rightarrow> string \<Rightarrow> 'r" and incr :: "int \<Rightarrow> 'r \<Rightarrow> string \<Rightarrow> nat \<times> 'r"
    and expire :: "int \<Rightarrow> 'r \<Rightarrow> string \<Rightarrow> int \<Rightarrow> 'r"
  assumes put_get: "t \<le> t' \<Longrightarrow> get t' (put t r k v) k = Some v"
    and put_frame: "t \<le> t' \<Longrightarrow> k' \<noteq> k \<Longrightarrow> get t' (put t r k v) k' = get t' r k'"
    and del_get: "t \<le> t' \<Longrightarrow> get t' (del t r k) k = None"
    and del_frame: "t \<le> t' \<Longrightarrow> k' \<noteq> k \<Longrightarrow> get t' (del t r k) k' = get t' r k'"
    and incr_new: "get t r k = None \<Longrightarrow> t \<le> t' \<Longrightarrow> fst (incr t r k) = 1 \<and> get t' (snd (incr t r k)) k = Some (nat_str 1)"
    and incr_old: "get t r k = Some (nat_str n) \<Longrightarrow> t \<le> t' \<Longrightarrow> fst (incr t r k) = n + 1
      \<and> get t' (snd (incr t r k)) k = map_option (\<lambda>_. nat_str (n + 1)) (get t' r k)"
    and incr_frame: "t \<le> t' \<Longrightarrow> k' \<noteq> k \<Longrightarrow> get t' (snd (incr t r k)) k' = get t' r k'"
    and expire_live: "get t r k = Some v \<Longrightarrow> t \<le> t' \<Longrightarrow> t' < t + d * 1000 \<Longrightarrow> get t' r k = Some v \<Longrightarrow>
      get t' (expire t r k d) k = Some v"
    and expire_frame: "t \<le> t' \<Longrightarrow> k' \<noteq> k \<Longrightarrow> get t' (expire t r k d) k' = get t' r k'"

definition counter_contract :: "'r counter_redis \<Rightarrow> bool" where
  "counter_contract c = counter_store (cr_get c) (cr_set c) (cr_del c) (cr_incr c) (cr_expire c)"

section \<open>The breaker\<close>

datatype BreakerState = CLOSED | OPEN | HALF_OPEN

record RedisCircuitBreaker =
  failureThreshold :: int
  windowSeconds :: int
  cooldownSeconds :: int

definition newRedisCircuitBreaker :: "int option \<Rightarrow> int option \<Rightarrow> int option \<Rightarrow> RedisCircuitBreaker" where
  "newRedisCircuitBreaker threshold window cooldown =
     \<lparr>failureThreshold = (case threshold of Some n \<Rightarrow> n | None \<Rightarrow> 5),
      windowSeconds = (case window of Some n \<Rightarrow> n | None \<Rightarrow> 60),
      cooldownSeconds = (case cooldown of Some n \<Rightarrow> n | None \<Rightarrow> 60)\<rparr>"

definition stateKey :: "string \<Rightarrow> string" where
  "stateKey e = ''circuit_breaker:'' @ e @ '':state''"

definition failuresKey :: "string \<Rightarrow> string" where
  "failuresKey e = ''circuit_breaker:'' @ e @ '':failures''"

definition openedAtKey :: "string \<Rightarrow> string" where
  "openedAtKey e = ''circuit_breaker:'' @ e @ '':opened_at''"

text \<open>A missing key and an empty value are both falsy.\<close>

definition truthy_value :: "string option \<Rightarrow> string option" where
  "truthy_value v = (case v of Some s \<Rightarrow> if s = '''' then None else Some s | None \<Rightarrow> None)"

definition elapsed_seconds :: "int \<Rightarrow> int \<Rightarrow> int" where
  "elapsed_seconds now opened = (now - opened) div 1000"

definition rb_getState :: "'r counter_redis \<Rightarrow> RedisCircuitBreaker \<Rightarrow> bool \<Rightarrow> int \<Rightarrow> string \<Rightarrow> 'r \<Rightarrow> BreakerState \<times> 'r" where
  "rb_getState c cb up now e r =
     (if \<not> up then (CLOSED, r)
      else case truthy_value (cr_get c now r (stateKey e)) of
        None \<Rightarrow> (CLOSED, r)
      | Some st \<Rightarrow>
          if st = ''OPEN'' then
            (case truthy_value (cr_get c now r (openedAtKey e)) of
               None \<Rightarrow> (OPEN, r)
             | Some s \<Rightarrow>
                 (case parseInt10 s of
                    None \<Rightarrow> (OPEN, r)
                  | Some opened \<Rightarrow>
                      if elapsed_seconds now opened \<ge> cooldownSeconds cb
                      then (HALF_OPEN, cr_set c now r (stateKey e) ''HALF_OPEN'') else (OPEN, r)))
          else if st = ''HALF_OPEN'' then (HALF_OPEN, r)
          else (CLOSED, r))"

definition canExecute :: "'r counter_redis \<Rightarrow> RedisCircuitBreaker \<Rightarrow> bool \<Rightarrow> int \<Rightarrow> string \<Rightarrow> 'r \<Rightarrow> bool \<times> 'r" where
  "canExecute c cb up now e r = (case rb_getState c cb up now e r of (st, r') \<Rightarrow> (st \<noteq> OPEN, r'))"

definition close_circuit :: "'r counter_redis \<Rightarrow> int \<Rightarrow> string \<Rightarrow> 'r \<Rightarrow> 'r" where
  "close_circuit c now e r =
     cr_del c now (cr_del c now (cr_set c now r (stateKey e) ''CLOSED'') (failuresKey e)) (openedAtKey e)"

definition open_circuit :: "'r counter_redis \<Rightarrow> int \<Rightarrow> string \<Rightarrow> 'r \<Rightarrow> 'r" where
  "open_circuit c now e r = cr_set c now (cr_set c now r (stateKey e) ''OPEN'') (openedAtKey e) (int_str now)"

definition rb_recordSuccess :: "'r counter_redis \<Rightarrow> RedisCircuitBreaker \<Rightarrow> bool \<Rightarrow> int \<Rightarrow> string \<Rightarrow> 'r \<Rightarrow> 'r" where
  "rb_recordSuccess c cb up now e r =
     (case rb_getState c cb up now e r of
        (HALF_OPEN, r') \<Rightarrow> close_circuit c now e r'
      | (CLOSED, r') \<Rightarrow> if up then cr_del c now r' (failuresKey e) else r'
      | (OPEN, r') \<Rightarrow> r')"

definition rb_recordFailure ::
  "'r counter_redis \<Rightarrow> RedisCircuitBreaker \<Rightarrow> bool \<Rightarrow> int \<Rightarrow> string \<Rightarrow> 'r \<Rightarrow> BreakerState \<times> 'r" where
  "rb_recordFailure c cb up now e r =
     (case rb_getState c cb up now e r of
        (st, r1) \<Rightarrow>
          if \<not> up then (CLOSED, r1)
          else if st = HALF_OPEN then (OPEN, open_circuit c now e r1)
          else
            (case cr_incr c now r1 (failuresKey e) of
               (n, r2) \<Rightarrow>
                 let r3 = (if n = 1 then cr_expire c now r2 (failuresKey e) (windowSeconds cb) else r2) in
                 if int n \<ge> failureThreshold cb then (OPEN, open_circuit c now e r3) else (CLOSED, r3)))"

text \<open>
  The protected action starts at \<open>now\<close> if the circuit allows it, and is over at \<open>done_at\<close> with a result
  or an error.
\<close>

datatype 'e execute_error = CircuitBreakerOpenError string | Action_error 'e

definition execute ::
  "'r counter_redis \<Rightarrow> RedisCircuitBreaker \<Rightarrow> bool \<Rightarrow> int \<Rightarrow> string \<Rightarrow> int \<Rightarrow> 'e + 'a \<Rightarrow> 'r \<Rightarrow> ('e execute_error + 'a) \<times> 'r" where
  "execute c cb up now e done_at fn r =
     (case canExecute c cb up now e r of
        (False, r1) \<Rightarrow> (Inl (CircuitBreakerOpenError e), r1)
      | (True, r1) \<Rightarrow>
          (case fn of
             Inr result \<Rightarrow> (Inr result, rb_recordSuccess c cb up done_at e r1)
           | Inl err \<Rightarrow> (Inl (Action_error err), snd (rb_recordFailure c cb up done_at e r1))))"

text \<open>The manual operations and the snapshot do not catch an error of Redis: \<^const>\<open>None\<close>.\<close>

definition trip :: "'r counter_redis \<Rightarrow> bool \<Rightarrow> int \<Rightarrow> string \<Rightarrow> 'r \<Rightarrow> 'r option" where
  "trip c up now e r = (if up then Some (open_circuit c now e r) else None)"

definition rb_reset :: "'r counter_redis \<Rightarrow> bool \<Rightarrow> int \<Rightarrow> string \<Rightarrow> 'r \<Rightarrow> 'r option" where
  "rb_reset c up now e r = (if up then Some (close_circuit c now e r) else None)"

record CircuitBreakerSnapshot =
  endpointId :: string
  snap_state :: BreakerState
  failureCount :: "int option"
  snap_openedAt :: "int option"
  cooldownRemainingSeconds :: int

text \<open>A stored text that is not a number reads as \<open>NaN\<close>, here \<^const>\<open>None\<close>.\<close>

definition getSnapshot ::
  "'r counter_redis \<Rightarrow> RedisCircuitBreaker \<Rightarrow> bool \<Rightarrow> int \<Rightarrow> string \<Rightarrow> 'r \<Rightarrow> (CircuitBreakerSnapshot \<times> 'r) option" where
  "getSnapshot c cb up now e r =
     (case rb_getState c cb up now e r of
        (st, r1) \<Rightarrow>
          if \<not> up then None
          else
            let opened = (case truthy_value (cr_get c now r1 (openedAtKey e)) of Some s \<Rightarrow> parseInt10 s | None \<Rightarrow> None) in
            Some (\<lparr>endpointId = e, snap_state = st,
              failureCount = (case truthy_value (cr_get c now r1 (failuresKey e)) of Some s \<Rightarrow> parseInt10 s | None \<Rightarrow> Some 0),
              snap_openedAt = opened,
              cooldownRemainingSeconds =
                (case opened of
                   Some t \<Rightarrow> if st = OPEN \<and> t \<noteq> 0 then max 0 (cooldownSeconds cb - elapsed_seconds now t) else 0
                 | None \<Rightarrow> 0)\<rparr>, r1))"

section \<open>A store that satisfies the contract\<close>

type_synonym counter_map = "string \<Rightarrow> (string \<times> int option) option"

definition cm_get :: "int \<Rightarrow> counter_map \<Rightarrow> string \<Rightarrow> string option" where
  "cm_get t m k = (case m k of
     Some (v, d) \<Rightarrow> (case d of Some u \<Rightarrow> if t < u then Some v else None | None \<Rightarrow> Some v) | None \<Rightarrow> None)"

definition cm_incr :: "int \<Rightarrow> counter_map \<Rightarrow> string \<Rightarrow> nat \<times> counter_map" where
  "cm_incr t m k = (case cm_get t m k of
     None \<Rightarrow> (1, m(k \<mapsto> (nat_str 1, None)))
   | Some v \<Rightarrow> (dec_val v + 1, m(k \<mapsto> (nat_str (dec_val v + 1), snd (the (m k))))))"

definition cm_expire :: "int \<Rightarrow> counter_map \<Rightarrow> string \<Rightarrow> int \<Rightarrow> counter_map" where
  "cm_expire t m k d = (case cm_get t m k of Some v \<Rightarrow> m(k \<mapsto> (v, Some (t + d * 1000))) | None \<Rightarrow> m)"

interpretation map_counters: counter_store cm_get "\<lambda>t m k v. m(k \<mapsto> (v, None))" "\<lambda>t m k. m(k := None)" cm_incr cm_expire
  by unfold_locales (auto simp: cm_get_def cm_incr_def cm_expire_def split: option.splits if_splits)

definition map_counter_redis :: "counter_map counter_redis" where
  "map_counter_redis = \<lparr>cr_get = cm_get, cr_set = (\<lambda>t m k v. m(k \<mapsto> (v, None))), cr_del = (\<lambda>t m k. m(k := None)),
     cr_incr = cm_incr, cr_expire = cm_expire\<rparr>"

lemma map_counter_contract: "counter_contract map_counter_redis"
  using map_counters.counter_store_axioms by (simp add: counter_contract_def map_counter_redis_def)

section \<open>The keys\<close>

lemma keys_differ [simp]:
  "stateKey e \<noteq> failuresKey e'" "failuresKey e \<noteq> stateKey e'" "stateKey e \<noteq> openedAtKey e'" "openedAtKey e \<noteq> stateKey e'"
  "failuresKey e \<noteq> openedAtKey e'" "openedAtKey e \<noteq> failuresKey e'"
proof -
  have l: "last (stateKey e) = CHR ''e''" "last (failuresKey e) = CHR ''s''" "last (openedAtKey e) = CHR ''t''" for e
    by (simp_all add: stateKey_def failuresKey_def openedAtKey_def)
  show "stateKey e \<noteq> failuresKey e'" "failuresKey e \<noteq> stateKey e'" "stateKey e \<noteq> openedAtKey e'" "openedAtKey e \<noteq> stateKey e'"
    "failuresKey e \<noteq> openedAtKey e'" "openedAtKey e \<noteq> failuresKey e'"
    by (auto dest!: arg_cong[where f = last] simp: l)
qed

lemma keys_inject [simp]:
  "stateKey e = stateKey e' \<longleftrightarrow> e = e'" "failuresKey e = failuresKey e' \<longleftrightarrow> e = e'" "openedAtKey e = openedAtKey e' \<longleftrightarrow> e = e'"
  by (simp_all add: stateKey_def failuresKey_def openedAtKey_def)

lemma parse_int_str: "0 \<le> t \<Longrightarrow> parseInt10 (int_str t) = Some t"
  using parseInt10_digits[of "nat_str (nat t)"] nat_str_digits by (simp add: int_str_def list_all_iff)

lemma int_str_truthy: "0 \<le> t \<Longrightarrow> int_str t \<noteq> ''''"
  by (simp add: int_str_def)

section \<open>Protection of an endpoint\<close>

text \<open>What happens at the breakers, with Redis reachable; only a request asks for permission.\<close>

datatype rb_op = Ask string | Succeeded string | Failed string | Tripped string | Was_reset string

fun rb_step :: "'r counter_redis \<Rightarrow> RedisCircuitBreaker \<Rightarrow> int \<Rightarrow> rb_op \<Rightarrow> 'r \<Rightarrow> bool \<times> 'r" where
  "rb_step c cb t (Ask e) r = canExecute c cb True t e r"
| "rb_step c cb t (Succeeded e) r = (False, rb_recordSuccess c cb True t e r)"
| "rb_step c cb t (Failed e) r = (False, snd (rb_recordFailure c cb True t e r))"
| "rb_step c cb t (Tripped e) r = (False, case trip c True t e r of Some r' \<Rightarrow> r' | None \<Rightarrow> r)"
| "rb_step c cb t (Was_reset e) r = (False, case rb_reset c True t e r of Some r' \<Rightarrow> r' | None \<Rightarrow> r)"

fun rb_run :: "'r counter_redis \<Rightarrow> RedisCircuitBreaker \<Rightarrow> (int \<times> rb_op) list \<Rightarrow> 'r \<Rightarrow> (rb_op \<times> bool) list \<times> 'r" where
  "rb_run c cb [] r = ([], r)"
| "rb_run c cb ((t, x) # xs) r =
     (case rb_step c cb t x r of (ok, r') \<Rightarrow> (case rb_run c cb xs r' of (res, r2) \<Rightarrow> ((x, ok) # res, r2)))"

definition opened :: "'r counter_redis \<Rightarrow> string \<Rightarrow> int \<Rightarrow> int \<Rightarrow> 'r \<Rightarrow> bool" where
  "opened c e t0 t r \<longleftrightarrow> (\<forall>t' \<ge> t. cr_get c t' r (stateKey e) = Some ''OPEN'' \<and> cr_get c t' r (openedAtKey e) = Some (int_str t0))"

text \<open>Commands on other keys leave a key alone.\<close>

definition same_key :: "'r counter_redis \<Rightarrow> int \<Rightarrow> string \<Rightarrow> 'r \<Rightarrow> 'r \<Rightarrow> bool" where
  "same_key c t k r r' \<longleftrightarrow> (\<forall>t' \<ge> t. cr_get c t' r' k = cr_get c t' r k)"

lemma same_key_refl [simp]: "same_key c t k r r"
  by (simp add: same_key_def)

lemma same_key_trans: "same_key c t k r r1 \<Longrightarrow> same_key c t k r1 r2 \<Longrightarrow> same_key c t k r r2"
  by (simp add: same_key_def)

lemma same_key_commands:
  assumes "counter_contract c" "k' \<noteq> k"
  shows "same_key c t k' r (cr_set c t r k v)" "same_key c t k' r (cr_del c t r k)"
    "same_key c t k' r (snd (cr_incr c t r k))" "same_key c t k' r (cr_expire c t r k d)"
  using assms(2) counter_store.put_frame[OF assms(1)[unfolded counter_contract_def]]
    counter_store.del_frame[OF assms(1)[unfolded counter_contract_def]]
    counter_store.incr_frame[OF assms(1)[unfolded counter_contract_def]]
    counter_store.expire_frame[OF assms(1)[unfolded counter_contract_def]]
  by (simp_all add: same_key_def)

definition own_keys :: "string \<Rightarrow> string set" where
  "own_keys e = {stateKey e, failuresKey e, openedAtKey e}"

lemma same_key_getState:
  assumes "counter_contract c" "k \<noteq> stateKey e"
  shows "same_key c t k r (snd (rb_getState c cb up t e r))"
  using same_key_commands(1)[OF assms]
  by (auto simp: rb_getState_def split: option.splits)

lemma same_key_circuit:
  assumes "counter_contract c" "k \<noteq> stateKey e" "k \<noteq> openedAtKey e"
  shows "same_key c t k r (open_circuit c t e r)" "k \<noteq> failuresKey e \<Longrightarrow> same_key c t k r (close_circuit c t e r)"
  using same_key_commands[OF assms(1), where t = t] assms(2,3) same_key_trans
  unfolding open_circuit_def close_circuit_def by metis+

lemma same_key_step:
  assumes "counter_contract c" "k \<notin> own_keys e" "x \<in> {Ask e, Succeeded e, Failed e, Tripped e, Was_reset e}"
  shows "same_key c t k r (snd (rb_step c cb t x r))"
proof -
  have k: "k \<noteq> stateKey e" "k \<noteq> failuresKey e" "k \<noteq> openedAtKey e" using assms(2) by (auto simp: own_keys_def)
  obtain st r1 where g: "rb_getState c cb True t e r = (st, r1)" by (cases "rb_getState c cb True t e r")
  have s1: "same_key c t k r r1" using same_key_getState[OF assms(1) k(1), of t r cb True] g by simp
  note cc = same_key_circuit[OF assms(1) k(1,3), where t = t] same_key_commands[OF assms(1) k(2), where t = t]
  obtain n r2 where i: "cr_incr c t r1 (failuresKey e) = (n, r2)" by (cases "cr_incr c t r1 (failuresKey e)")
  define r3 where "r3 = (if n = 1 then cr_expire c t r2 (failuresKey e) (windowSeconds cb) else r2)"
  have s2: "same_key c t k r1 r2" using cc(5)[of r1] i by simp
  have "same_key c t k r2 r3" using cc(6)[of r2] by (simp add: r3_def)
  from same_key_trans[OF s2 this] have s3: "same_key c t k r1 r3" .
  have "same_key c t k r1 (snd (rb_recordFailure c cb True t e r))"
    using g i s3 cc(1)[of r1] same_key_trans[OF s3 cc(1)] by (auto simp: rb_recordFailure_def Let_def r3_def split: if_splits)
  moreover have "same_key c t k r1 (rb_recordSuccess c cb True t e r)"
    using g cc k(2) unfolding rb_recordSuccess_def by (auto split: BreakerState.splits)
  ultimately show ?thesis using assms(3) s1 g cc k(2) same_key_trans[OF s1]
    by (auto simp: canExecute_def trip_def rb_reset_def)
qed


text \<open>An open circuit refuses before its cooldown is over, and only a reset closes it earlier.\<close>

lemma opened_getState:
  assumes "opened c e t0 t r" "t \<le> now" "0 \<le> t0" "now < t0 + cooldownSeconds cb * 1000"
  shows "rb_getState c cb True now e r = (OPEN, r)"
proof -
  have "(now - t0) div 1000 < cooldownSeconds cb" using assms(4) by arith
  then show ?thesis using assms(1-3) by (simp add: opened_def rb_getState_def truthy_value_def parse_int_str int_str_truthy elapsed_seconds_def)
qed

lemma opened_same:
  assumes "opened c e t0 t r" "t \<le> t'" "same_key c t' (stateKey e) r r'" "same_key c t' (openedAtKey e) r r'"
  shows "opened c e t0 t' r'"
  using assms by (simp add: opened_def same_key_def)

lemma opened_open:
  assumes "counter_contract c"
  shows "opened c e t t (open_circuit c t e r)"
  using counter_store.put_get[OF assms[unfolded counter_contract_def]] counter_store.put_frame[OF assms[unfolded counter_contract_def]]
  by (simp add: opened_def open_circuit_def)

lemma opened_failure:
  assumes "counter_contract c" "opened c e t0 t r" "t \<le> now" "0 \<le> t0" "now < t0 + cooldownSeconds cb * 1000"
  shows "\<exists>t1 \<in> {t0, now}. opened c e t1 now (snd (rb_recordFailure c cb True now e r))"
proof -
  obtain n r2 where i: "cr_incr c now r (failuresKey e) = (n, r2)" by (cases "cr_incr c now r (failuresKey e)")
  define r3 where "r3 = (if n = 1 then cr_expire c now r2 (failuresKey e) (windowSeconds cb) else r2)"
  have "same_key c now k r r3" if "k \<noteq> failuresKey e" for k
    using same_key_commands(3,4)[OF assms(1) that] i same_key_trans unfolding r3_def by (smt (verit) snd_conv)
  then have "opened c e t0 now r3" using opened_same[OF assms(2,3)] by simp
  moreover have "snd (rb_recordFailure c cb True now e r) = (if int n \<ge> failureThreshold cb then open_circuit c now e r3 else r3)"
    using opened_getState[OF assms(2-5)] i by (simp add: rb_recordFailure_def Let_def r3_def)
  ultimately show ?thesis using opened_open[OF assms(1)] by auto
qed

lemma opened_step:
  assumes "counter_contract c" "opened c e t0 t r" "t \<le> now" "0 \<le> t0" "t0 \<le> t" "now < t0 + cooldownSeconds cb * 1000"
    "x \<noteq> Was_reset e"
  shows "\<exists>t1 \<in> {t0, now}. opened c e t1 now (snd (rb_step c cb now x r))"
    "x = Ask e \<Longrightarrow> \<not> fst (rb_step c cb now x r)"
proof -
  note g = opened_getState[OF assms(2,3,4,6)]
  have o: "opened c e t0 now r" using assms(2,3) by (simp add: opened_def)
  obtain e' where e': "x \<in> {Ask e', Succeeded e', Failed e', Tripped e', Was_reset e'}" by (cases x) auto
  show "\<exists>t1 \<in> {t0, now}. opened c e t1 now (snd (rb_step c cb now x r))"
  proof (cases "e' = e")
    case True
    then show ?thesis
      using e' assms(7) g o opened_failure[OF assms(1-4,6)] opened_open[OF assms(1)]
      by (auto simp: canExecute_def rb_recordSuccess_def trip_def)
  next
    case False
    then have "stateKey e \<notin> own_keys e'" "openedAtKey e \<notin> own_keys e'" by (simp_all add: own_keys_def)
    then show ?thesis using same_key_step[OF assms(1) _ e'] opened_same[OF o order_refl] by blast
  qed
  show "x = Ask e \<Longrightarrow> \<not> fst (rb_step c cb now x r)" using g by (simp add: canExecute_def)
qed

lemma opened_run:
  assumes "counter_contract c" "opened c e t0 t r" "0 \<le> t0" "t0 \<le> t" "sorted (t # map fst xs)"
    "\<forall>(t', x) \<in> set xs. t' < t0 + cooldownSeconds cb * 1000 \<and> x \<noteq> Was_reset e"
    "rb_run c cb xs r = (res, r')"
  shows "(Ask e, True) \<notin> set res"
  using assms(2-)
proof (induction xs arbitrary: t0 t r res)
  case (Cons a xs)
  obtain now x where a: "a = (now, x)" by (cases a)
  obtain ok r1 where st: "rb_step c cb now x r = (ok, r1)" by (cases "rb_step c cb now x r")
  obtain res' where run: "rb_run c cb xs r1 = (res', r')" "res = (x, ok) # res'"
    using Cons.prems(6) a st by (auto split: prod.splits)
  have h: "t \<le> now" "now < t0 + cooldownSeconds cb * 1000" "x \<noteq> Was_reset e" using Cons.prems(4,5) a by auto
  note s = opened_step[OF assms(1) Cons.prems(1) h(1) Cons.prems(2,3) h(2,3)]
  obtain t1 where t1: "t1 \<in> {t0, now}" "opened c e t1 now r1" using s(1) st by auto
  have "(Ask e, True) \<notin> set res'"
  proof (rule Cons.IH[OF t1(2) _ _ _ _ run(1)])
    show "sorted (now # map fst xs)" using Cons.prems(4) a by simp
    show "\<forall>(t', x) \<in> set xs. t' < t1 + cooldownSeconds cb * 1000 \<and> x \<noteq> Was_reset e"
      using Cons.prems(5) t1(1) h(1) Cons.prems(3) by fastforce
  qed (use t1(1) Cons.prems h in auto)
  moreover have "x = Ask e \<Longrightarrow> \<not> ok" using s(2) st by simp
  ultimately show ?case using run(2) by auto
qed simp

section \<open>Counting failures\<close>

fun endpoint_of :: "rb_op \<Rightarrow> string" where
  "endpoint_of (Ask e) = e"
| "endpoint_of (Succeeded e) = e"
| "endpoint_of (Failed e) = e"
| "endpoint_of (Tripped e) = e"
| "endpoint_of (Was_reset e) = e"

definition fails :: "string \<Rightarrow> (int \<times> rb_op) list \<Rightarrow> nat" where
  "fails e xs = length (filter (\<lambda>(t, x). x = Failed e) xs)"

lemma fails_simps [simp]: "fails e [] = 0" "fails e ((t, x) # xs) = (if x = Failed e then 1 else 0) + fails e xs"
  by (simp_all add: fails_def)

text \<open>A closed circuit with some failures in a window that lasts until \<open>u\<close>.\<close>

definition counting :: "'r counter_redis \<Rightarrow> string \<Rightarrow> nat \<Rightarrow> int \<Rightarrow> int \<Rightarrow> 'r \<Rightarrow> bool" where
  "counting c e n t u r \<longleftrightarrow> (\<forall>t' \<ge> t. cr_get c t' r (stateKey e) \<in> {None, Some ''CLOSED''})
     \<and> (if n = 0 then \<forall>t' \<ge> t. cr_get c t' r (failuresKey e) = None
        else \<forall>t'. t \<le> t' \<and> t' < u \<longrightarrow> cr_get c t' r (failuresKey e) = Some (nat_str n))"

definition fresh_endpoint :: "'r counter_redis \<Rightarrow> string \<Rightarrow> int \<Rightarrow> 'r \<Rightarrow> bool" where
  "fresh_endpoint c e t r \<longleftrightarrow> (\<forall>t' \<ge> t. cr_get c t' r (stateKey e) \<in> {None, Some ''CLOSED''} \<and> cr_get c t' r (failuresKey e) = None)"

lemma fresh_counting: "fresh_endpoint c e t r \<Longrightarrow> counting c e 0 t u r"
  by (simp add: fresh_endpoint_def counting_def)

lemma fresh_close:
  assumes "counter_contract c"
  shows "fresh_endpoint c e t (close_circuit c t e r)"
  using counter_store.put_get[OF assms[unfolded counter_contract_def]] counter_store.del_get[OF assms[unfolded counter_contract_def]]
    counter_store.del_frame[OF assms[unfolded counter_contract_def]]
  by (simp add: fresh_endpoint_def close_circuit_def)

lemma counting_getState:
  assumes "counting c e n t u r" "t \<le> now"
  shows "rb_getState c cb True now e r = (CLOSED, r)"
proof -
  have "cr_get c now r (stateKey e) \<in> {None, Some ''CLOSED''}" using assms by (simp add: counting_def)
  then show ?thesis by (auto simp: rb_getState_def truthy_value_def)
qed

lemma counting_same:
  assumes "counting c e n t u r" "t \<le> now" "same_key c now (stateKey e) r r'" "same_key c now (failuresKey e) r r'"
  shows "counting c e n now u r'"
  using assms by (auto simp: counting_def same_key_def)

text \<open>The counter after one more failure.\<close>

lemma counter_after_failure:
  assumes "counter_contract c" "counting c e n t u r" "t \<le> now" "now < u" "u \<le> now + windowSeconds cb * 1000"
    "cr_incr c now r (failuresKey e) = (k, r2)" "r3 = (if k = 1 then cr_expire c now r2 (failuresKey e) (windowSeconds cb) else r2)"
  shows "k = n + 1 \<and> counting c e (n + 1) now u r3"
proof -
  note cs = assms(1)[unfolded counter_contract_def]
  have key: "k = n + 1 \<and> (\<forall>t'. now \<le> t' \<and> t' < u \<longrightarrow> cr_get c t' r2 (failuresKey e) = Some (nat_str (n + 1)))"
  proof (cases "n = 0")
    case True
    then have "cr_get c now r (failuresKey e) = None" using assms(2,3) by (simp add: counting_def)
    from counter_store.incr_new[OF cs this] show ?thesis using assms(6) True by auto
  next
    case False
    then have g: "cr_get c t' r (failuresKey e) = Some (nat_str n)" if "now \<le> t'" "t' < u" for t'
      using assms(2,3) that by (auto simp: counting_def)
    from counter_store.incr_old[OF cs g[OF order_refl assms(4)]] show ?thesis using assms(6) g by auto
  qed
  have "cr_get c t' r3 (failuresKey e) = Some (nat_str (n + 1))" if "now \<le> t'" "t' < u" for t'
    using key that assms(5,7) counter_store.expire_live[OF cs, of now r2 "failuresKey e" _ t' "windowSeconds cb"] assms(4)
    by auto
  moreover have "same_key c now (stateKey e) r r3"
    using same_key_commands(3)[OF assms(1), of "stateKey e" "failuresKey e" now r]
      same_key_commands(4)[OF assms(1), of "stateKey e" "failuresKey e" now r2 "windowSeconds cb"] assms(6,7)
    by (auto simp: same_key_def)
  ultimately show ?thesis using key assms(2,3) by (auto simp: counting_def same_key_def)
qed

lemma counting_failure:
  assumes "counter_contract c" "counting c e n t u r" "t \<le> now" "now < u" "u \<le> now + windowSeconds cb * 1000"
  shows "if failureThreshold cb \<le> int (n + 1) then opened c e now now (snd (rb_recordFailure c cb True now e r))
    else counting c e (n + 1) now u (snd (rb_recordFailure c cb True now e r))"
proof -
  obtain k r2 where i: "cr_incr c now r (failuresKey e) = (k, r2)" by (cases "cr_incr c now r (failuresKey e)")
  define r3 where "r3 = (if k = 1 then cr_expire c now r2 (failuresKey e) (windowSeconds cb) else r2)"
  note k = counter_after_failure[OF assms i r3_def]
  then have "snd (rb_recordFailure c cb True now e r) =
      (if failureThreshold cb \<le> int (n + 1) then open_circuit c now e r3 else r3)"
    using counting_getState[OF assms(2,3)] i by (simp add: rb_recordFailure_def Let_def r3_def)
  then show ?thesis using k opened_open[OF assms(1)] by auto
qed

lemma counting_step:
  assumes "counter_contract c" "counting c e n t u r" "t \<le> now" "now < u" "u \<le> now + windowSeconds cb * 1000"
    "endpoint_of x = e \<Longrightarrow> x \<in> {Ask e, Failed e}" "int (n + fails e [(now, x)]) < failureThreshold cb"
  shows "counting c e (n + fails e [(now, x)]) now u (snd (rb_step c cb now x r))" "x = Ask e \<Longrightarrow> fst (rb_step c cb now x r)"
proof -
  note g = counting_getState[OF assms(2,3)]
  show "counting c e (n + fails e [(now, x)]) now u (snd (rb_step c cb now x r))"
  proof (cases "endpoint_of x = e")
    case True
    show ?thesis
    proof (cases "x = Failed e")
      case False
      then have "x = Ask e" using assms(6) True by auto
      then show ?thesis using g assms(2,3) by (auto simp: canExecute_def counting_def)
    qed (use counting_failure[OF assms(1-5)] assms(7) in \<open>simp split: if_splits\<close>)
  next
    case False
    then have k: "stateKey e \<notin> own_keys (endpoint_of x)" "failuresKey e \<notin> own_keys (endpoint_of x)" by (auto simp: own_keys_def)
    have e': "x \<in> {Ask (endpoint_of x), Succeeded (endpoint_of x), Failed (endpoint_of x), Tripped (endpoint_of x), Was_reset (endpoint_of x)}"
      by (cases x) auto
    show ?thesis using False counting_same[OF assms(2,3) same_key_step[OF assms(1) k(1) e'] same_key_step[OF assms(1) k(2) e']]
      by auto
  qed
  show "x = Ask e \<Longrightarrow> fst (rb_step c cb now x r)" using g by (simp add: canExecute_def)
qed

lemma counting_run:
  assumes "counter_contract c" "counting c e n t u r" "sorted (t # map fst ys)" "u \<le> t + windowSeconds cb * 1000"
    "\<forall>(t', x) \<in> set ys. t' < u \<and> (endpoint_of x = e \<longrightarrow> x \<in> {Ask e, Failed e})"
    "int (n + fails e ys) < failureThreshold cb" "rb_run c cb ys r = (res, r')"
  shows "counting c e (n + fails e ys) (last (t # map fst ys)) u r' \<and> (Ask e, False) \<notin> set res"
  using assms(2-)
proof (induction ys arbitrary: n t r res)
  case (Cons a ys)
  obtain now x where a: "a = (now, x)" by (cases a)
  obtain ok r1 where st: "rb_step c cb now x r = (ok, r1)" by (cases "rb_step c cb now x r")
  obtain res' where run: "rb_run c cb ys r1 = (res', r')" "res = (x, ok) # res'"
    using Cons.prems(6) a st by (auto split: prod.splits)
  have h: "t \<le> now" "now < u" "u \<le> now + windowSeconds cb * 1000" "endpoint_of x = e \<Longrightarrow> x \<in> {Ask e, Failed e}"
    "int (n + fails e [(now, x)]) < failureThreshold cb" using Cons.prems(2-5) a by auto
  note s = counting_step[OF assms(1) Cons.prems(1) h]
  have "counting c e (n + fails e [(now, x)] + fails e ys) (last (now # map fst ys)) u r' \<and> (Ask e, False) \<notin> set res'"
    by (rule Cons.IH[OF _ _ h(3) _ _ run(1)]) (use s(1) st Cons.prems(2,4,5) a in auto)
  then show ?case using s(2) st run(2) a by (auto simp: add.assoc)
qed auto

lemma rb_run_append:
  "rb_run c cb (xs @ ys) r =
     (case rb_run c cb xs r of (res, r1) \<Rightarrow> (case rb_run c cb ys r1 of (res', r2) \<Rightarrow> (res @ res', r2)))"
  by (induction c cb xs r rule: rb_run.induct) (auto split: prod.splits)

lemma length_rb_run: "length (fst (rb_run c cb xs r)) = length xs"
  by (induction c cb xs r rule: rb_run.induct) (auto split: prod.splits)



section \<open>Recovery\<close>

lemma cooled_getState:
  assumes "opened c e t0 t r" "t \<le> now" "0 \<le> t0" "t0 + cooldownSeconds cb * 1000 \<le> now"
  shows "rb_getState c cb True now e r = (HALF_OPEN, cr_set c now r (stateKey e) ''HALF_OPEN'')"
proof -
  have "cooldownSeconds cb \<le> (now - t0) div 1000" using assms(4) by arith
  then show ?thesis using assms(1-3) by (simp add: opened_def rb_getState_def truthy_value_def parse_int_str int_str_truthy elapsed_seconds_def)
qed

lemma half_open_getState:
  "counter_contract c \<Longrightarrow> now \<le> t \<Longrightarrow>
   rb_getState c cb True t e (cr_set c now r (stateKey e) ''HALF_OPEN'') = (HALF_OPEN, cr_set c now r (stateKey e) ''HALF_OPEN'')"
  by (simp add: rb_getState_def truthy_value_def counter_contract_def counter_store.put_get)

text \<open>The breaker recovers: after the cooldown the next protected action runs; its success closes the circuit
  with an empty counter, its failure opens the circuit for another cooldown.\<close>

theorem breaker_recovers:
  assumes "counter_contract c" "opened c e t0 t r" "t \<le> now" "0 \<le> t0" "t0 + cooldownSeconds cb * 1000 \<le> now" "now \<le> done_at"
  shows "case execute c cb True now e done_at fn r of
      (Inr v, r') \<Rightarrow> fn = Inr v \<and> fresh_endpoint c e done_at r'
    | (Inl err, r') \<Rightarrow> (\<exists>x. fn = Inl x \<and> err = Action_error x) \<and> opened c e done_at done_at r'"
  using cooled_getState[OF assms(2-5)] half_open_getState[OF assms(1,6)] fresh_close[OF assms(1)] opened_open[OF assms(1)]
  by (cases fn) (simp_all add: execute_def canExecute_def rb_recordSuccess_def rb_recordFailure_def)

theorem breaker_recovers_witness:
  "case execute map_counter_redis (newRedisCircuitBreaker None None None) True 60000 ''a'' 60100 (Inr () :: unit + unit)
     (open_circuit map_counter_redis 0 ''a'' (\<lambda>_. None)) of
      (Inr v, r') \<Rightarrow> Inr () = (Inr v :: unit + unit) \<and> fresh_endpoint map_counter_redis ''a'' 60100 r'
    | (Inl err, r') \<Rightarrow> (\<exists>x. Inr () = (Inl x :: unit + unit) \<and> err = Action_error x)
        \<and> opened map_counter_redis ''a'' 60100 60100 r'"
  by (rule breaker_recovers [OF map_counter_contract opened_open[OF map_counter_contract]]) (simp_all add: newRedisCircuitBreaker_def)

section \<open>Where the breaker does not do what its comments say\<close>

text \<open>A half-open circuit does not admit one canary but every request.\<close>

lemma half_open_admits_all:
  assumes "counter_contract c" "\<forall>t \<in> set ts. now \<le> t"
  shows "map snd (fst (rb_run c cb (map (\<lambda>t. (t, Ask e)) ts) (cr_set c now r (stateKey e) ''HALF_OPEN''))) = map (\<lambda>_. True) ts"
  using assms(2) by (induction ts) (auto simp: canExecute_def half_open_getState[OF assms(1)] split: prod.splits)

text \<open>An open circuit without the instant of its opening stays open: the cooldown never ends.\<close>

lemma open_without_instant_is_final:
  assumes "\<forall>t \<in> set ts. cr_get c t r (stateKey e) = Some ''OPEN'' \<and> cr_get c t r (openedAtKey e) = None"
  shows "map snd (fst (rb_run c cb (map (\<lambda>t. (t, Ask e)) ts) r)) = map (\<lambda>_. False) ts"
  using assms by (induction ts) (auto simp: canExecute_def rb_getState_def truthy_value_def split: prod.splits)

text \<open>A failure recorded while the circuit is open reports it as closed when the counter has expired.\<close>

lemma failure_while_open_reports_closed:
  assumes "counter_contract c" "opened c e t0 t r" "t \<le> now" "0 \<le> t0" "now < t0 + cooldownSeconds cb * 1000"
    "cr_get c now r (failuresKey e) = None" "1 < failureThreshold cb"
  shows "fst (rb_recordFailure c cb True now e r) = CLOSED \<and> fst (rb_getState c cb True now e r) = OPEN"
proof -
  have "fst (cr_incr c now r (failuresKey e)) = 1"
    using counter_store.incr_new[OF assms(1)[unfolded counter_contract_def] assms(6) order_refl] by simp
  then show ?thesis using opened_getState[OF assms(2-5)] assms(7) by (auto simp: rb_recordFailure_def Let_def split: prod.splits)
qed

end
