(* ===== verification/Reentrancy.thy ===== *)
theory Reentrancy
  imports JsValues
begin

text \<open>
  Detection of re-entrant contract calls (\<open>apps/api/src/workers/watcher/reentrancy-sentinel.ts\<close>) and the alert rule
  built on it (\<open>apps/api/src/modules/alerts/rules/exploit-detector.rule.ts\<close>). Invocation trees are a nested datatype.
  The arguments of calls are not used and left out. An untyped object that the code uses as a tree without
  parsing it is read by \<open>cast_node\<close>, which gives the tree that the traversal sees or the error it throws. The clock and the outcome of the dispatcher are
  arguments; log messages are left out.
\<close>

section \<open>Trees\<close>

datatype SorobanInvocationNode = Node (contractId: string) (functionName: "string option")
  (subInvocations: "SorobanInvocationNode list option")

record ReentrancyCycle =
  cyc_contractId :: string
  cyclePath :: "string list"

datatype Severity = CRITICAL | HIGH | NONE

record ReentrancyAnalysisResult =
  hasReentrancy :: bool
  hasExcessiveDepth :: bool
  threatDetected :: bool
  severity :: Severity
  maxDepthReached :: nat
  maxConfiguredDepth :: jsv
  detectedCycles :: "ReentrancyCycle list"
  involvedContracts :: "string jsset"
  callTrace :: "string list"
  reason :: "string option"

section \<open>Analysis of a tree\<close>

text \<open>The variables that the traversal updates.\<close>

record traversal =
  tv_depth :: nat
  tv_cycles :: "ReentrancyCycle list"
  tv_contracts :: "string jsset"
  tv_trace :: "string list"

definition trace_line :: "string \<Rightarrow> nat \<Rightarrow> string \<Rightarrow> string option \<Rightarrow> string" where
  "trace_line tracePrefix currentDepth c f =
     tracePrefix @ ''[depth '' @ nat_str currentDepth @ ''] '' @ take 8 c @ ''...::''
       @ (case f of Some n \<Rightarrow> n | None \<Rightarrow> ''invoke'') @ ''()''"

definition visit :: "string \<Rightarrow> string option \<Rightarrow> nat \<Rightarrow> string list \<Rightarrow> string \<Rightarrow> traversal \<Rightarrow> traversal" where
  "visit c f currentDepth activeCallStack tracePrefix st =
     \<lparr>tv_depth = (if currentDepth > tv_depth st then currentDepth else tv_depth st),
      tv_cycles = tv_cycles st @
        (case index_of activeCallStack c of
           Some i \<Rightarrow> [\<lparr>cyc_contractId = c, cyclePath = drop i activeCallStack @ [c]\<rparr>]
         | None \<Rightarrow> []),
      tv_contracts = set_add c (tv_contracts st),
      tv_trace = tv_trace st @ [trace_line tracePrefix currentDepth c f]\<rparr>"

fun traverse :: "SorobanInvocationNode \<Rightarrow> nat \<Rightarrow> string list \<Rightarrow> string \<Rightarrow> traversal \<Rightarrow> traversal"
  and traverse_all :: "SorobanInvocationNode list \<Rightarrow> nat \<Rightarrow> string list \<Rightarrow> string \<Rightarrow> traversal \<Rightarrow> traversal" where
  "traverse (Node c f subs) currentDepth activeCallStack tracePrefix st =
     (if c = '''' then st
      else
        let st1 = visit c f currentDepth activeCallStack tracePrefix st in
        case subs of
          Some ns \<Rightarrow> traverse_all ns (currentDepth + 1) (activeCallStack @ [c]) (tracePrefix @ ''  '') st1
        | None \<Rightarrow> st1)"
| "traverse_all [] d stack pre st = st"
| "traverse_all (n # ns) d stack pre st = traverse_all ns d stack pre (traverse n d stack pre st)"

text \<open>The threshold is an untyped value: it is compared as a number and printed as a string.\<close>

definition analyzeCallTree :: "nat \<Rightarrow> SorobanInvocationNode list \<Rightarrow> jsv \<Rightarrow> ReentrancyAnalysisResult" where
  "analyzeCallTree defaultMaxDepth roots maxDepth =
     (let maxDepthLimit = (if maxDepth = JUndefined \<or> maxDepth = JNull then JNumber (Fin (of_nat defaultMaxDepth)) else maxDepth);
          st = traverse_all roots 1 [] '''' \<lparr>tv_depth = 0, tv_cycles = [], tv_contracts = [], tv_trace = []\<rparr>;
          cycle = tv_cycles st \<noteq> [];
          deep = num_less (js_Number maxDepthLimit) (Fin (of_nat (tv_depth st)));
          count = nat_str (length (tv_cycles st))
      in \<lparr>hasReentrancy = cycle, hasExcessiveDepth = deep, threatDetected = cycle \<or> deep,
          severity = (if cycle then CRITICAL else if deep then HIGH else NONE),
          maxDepthReached = tv_depth st, maxConfiguredDepth = maxDepthLimit, detectedCycles = tv_cycles st,
          involvedContracts = tv_contracts st, callTrace = tv_trace st,
          reason =
            (if cycle \<and> deep then Some (''Circular re-entry detected ('' @ count @ '' cycle(s)) and recursion depth ''
               @ nat_str (tv_depth st) @ '' exceeded threshold '' @ js_String maxDepthLimit)
             else if cycle then Some (''Circular re-entry detected ('' @ count @ '' cycle(s)): ''
               @ join_with '' -> '' (cyclePath (hd (tv_cycles st))))
             else if deep then Some (''Excessive call depth '' @ nat_str (tv_depth st) @ '' exceeded maximum threshold of ''
               @ js_String maxDepthLimit)
             else None)\<rparr>)"

section \<open>Reading a tree\<close>

fun truthy_jsv :: "jsv \<Rightarrow> bool" where
  "truthy_jsv JUndefined = False"
| "truthy_jsv JNull = False"
| "truthy_jsv (JBoolean b) = b"
| "truthy_jsv (JNumber n) = (n \<noteq> NaN \<and> n \<noteq> Fin 0)"
| "truthy_jsv (JString s) = (s \<noteq> '''')"
| "truthy_jsv v = True"

definition field :: "(string \<times> jsv) list \<Rightarrow> string \<Rightarrow> jsv" where
  "field fs k = (case map_of fs k of Some v \<Rightarrow> v | None \<Rightarrow> JUndefined)"

text \<open>The first of some fields that is a non-empty string, and the first that is neither null nor missing.\<close>

fun first_string :: "(string \<times> jsv) list \<Rightarrow> string list \<Rightarrow> string option" where
  "first_string fs [] = None"
| "first_string fs (k # ks) =
     (case field fs k of JString s \<Rightarrow> if s = '''' then first_string fs ks else Some s | _ \<Rightarrow> first_string fs ks)"

fun first_present :: "(string \<times> jsv) list \<Rightarrow> string list \<Rightarrow> jsv" where
  "first_present fs [] = JUndefined"
| "first_present fs (k # ks) = (if field fs k = JUndefined \<or> field fs k = JNull then first_present fs ks else field fs k)"

lemma size_field: "field fs k = JArray vs \<Longrightarrow> v \<in> set vs \<Longrightarrow> size v < size (JObject fs)"
  using size_js_get[of "JObject fs" k vs v] by (simp add: field_def)

lemma size_first_present: "first_present fs ks = JArray vs \<Longrightarrow> v \<in> set vs \<Longrightarrow> size v < size (JObject fs)"
  by (induction fs ks rule: first_present.induct) (auto dest: size_field split: if_splits)

lemma map_filter_cong [fundef_cong]:
  "xs = ys \<Longrightarrow> (\<And>x. x \<in> set ys \<Longrightarrow> f x = g x) \<Longrightarrow> List.map_filter f xs = List.map_filter g ys"
  by (induction xs arbitrary: ys) (auto split: option.split)

function parseSingleNode :: "jsv \<Rightarrow> SorobanInvocationNode option" where
  "parseSingleNode raw =
     (case raw of
        JObject record \<Rightarrow>
          (case first_string record [''contractId'', ''contract_id'', ''address''] of
             None \<Rightarrow> None
           | Some c \<Rightarrow> Some (Node c (first_string record [''functionName'', ''function'', ''method''])
               (case first_present record [''subInvocations'', ''sub_invocations'', ''children'', ''calls''] of
                  JArray vs \<Rightarrow> Some (List.map_filter parseSingleNode vs)
                | _ \<Rightarrow> None)))
      | _ \<Rightarrow> None)"
  by pat_completeness auto
termination by (relation "measure size") (auto dest: size_first_present simp del: first_present.simps first_string.simps)

declare parseSingleNode.simps [simp del]

definition parseInvocationGraph :: "jsv \<Rightarrow> SorobanInvocationNode list" where
  "parseInvocationGraph rawGraph =
     (case rawGraph of
        JArray vs \<Rightarrow> List.map_filter parseSingleNode vs
      | JObject fs \<Rightarrow> (case parseSingleNode rawGraph of Some n \<Rightarrow> [n] | None \<Rightarrow> [])
      | _ \<Rightarrow> [])"

text \<open>
  An object with a field \<open>contractId\<close> is used as it is. What the traversal reads of it is a tree; a contract
  that is not a string has no method \<open>substring\<close>, and an object with a positive length is not iterable.
\<close>

function cast_node :: "jsv \<Rightarrow> js_error + SorobanInvocationNode" where
  "cast_node raw =
     (case raw of
        JObject fs \<Rightarrow>
          (let c = field fs ''contractId'' in
           if \<not> truthy_jsv c then Inr (Node '''' None None)
           else case c of
             JString s \<Rightarrow>
               (let f = field fs ''functionName'';
                    node = Node s (if f = JUndefined \<or> f = JNull then None else Some (js_String f)) in
                case field fs ''subInvocations'' of
                  JArray vs \<Rightarrow>
                    (case all_results (map cast_node vs) of Inl err \<Rightarrow> Inl err | Inr ns \<Rightarrow> Inr (node (Some ns)))
                | JObject gs \<Rightarrow>
                    if num_less (Fin 0) (js_Number (field gs ''length'')) then Inl TypeError else Inr (node None)
                | _ \<Rightarrow> Inr (node None))
           | _ \<Rightarrow> Inl TypeError)
      | _ \<Rightarrow> Inr (Node '''' None None))"
  by pat_completeness auto
termination by (relation "measure size") (auto dest: size_field)

declare cast_node.simps [simp del]

definition invocation_nodes :: "jsv \<Rightarrow> js_error + SorobanInvocationNode list" where
  "invocation_nodes invocation =
     (case invocation of
        JObject fs \<Rightarrow>
          if ''contractId'' \<in> fst ` set fs
          then (case cast_node invocation of Inl err \<Rightarrow> Inl err | Inr n \<Rightarrow> Inr [n])
          else Inr (parseInvocationGraph invocation)
      | _ \<Rightarrow> Inr (parseInvocationGraph invocation))"

section \<open>Alerts\<close>

record ReentrancyAlertPayload =
  al_critical :: bool
  al_contractId :: string
  al_involvedContracts :: "string list"
  al_callTrace :: "string list"
  al_cyclePaths :: "string list list"
  al_maxDepthReached :: nat
  al_reason :: string
  al_txHash :: "string option"
  al_ledger :: "int option"
  al_timestamp :: int

definition alert_of :: "string \<Rightarrow> string option \<Rightarrow> int option \<Rightarrow> int \<Rightarrow> ReentrancyAnalysisResult \<Rightarrow> ReentrancyAlertPayload" where
  "alert_of fallback txHash ledger now res =
     \<lparr>al_critical = (severity res = CRITICAL),
      al_contractId = (case involvedContracts res of c # _ \<Rightarrow> c | [] \<Rightarrow> ''UNKNOWN_CONTRACT''),
      al_involvedContracts = involvedContracts res, al_callTrace = callTrace res,
      al_cyclePaths = map cyclePath (detectedCycles res), al_maxDepthReached = maxDepthReached res,
      al_reason = (case reason res of Some r \<Rightarrow> r | None \<Rightarrow> fallback),
      al_txHash = txHash, al_ledger = ledger, al_timestamp = now\<rparr>"

text \<open>The result and the alerts that a dispatcher gets; an error of the dispatcher is caught.\<close>

definition inspectAndDispatch ::
  "nat \<Rightarrow> bool \<Rightarrow> jsv \<Rightarrow> string option \<Rightarrow> int option \<Rightarrow> int \<Rightarrow> (js_error + ReentrancyAlertPayload option) \<times> ReentrancyAlertPayload list" where
  "inspectAndDispatch defaultMaxDepth has_dispatcher invocation txHash ledger now =
     (case invocation_nodes invocation of
        Inl err \<Rightarrow> (Inl err, [])
      | Inr nodes \<Rightarrow>
          let res = analyzeCallTree defaultMaxDepth nodes JUndefined in
          if \<not> threatDetected res then (Inr None, [])
          else
            let alert = alert_of ''Exploit pattern detected'' txHash ledger now res in
            (Inr (Some alert), if has_dispatcher then [alert] else []))"

section \<open>The alert rule\<close>

record AlertRuleLike =
  rule_id :: string
  rule_userId :: string
  rule_isActive :: bool
  rule_conditions :: jsv

record ExploitRuleMatch =
  match_ruleId :: string
  match_userId :: string
  match_contractId :: string
  match_alert :: ReentrancyAlertPayload
  match_reentrancy :: bool
  match_excessiveDepth :: bool
  match_maxDepth :: nat
  match_cycleCount :: nat
  match_contracts :: "string list"

definition extractRuleConfig :: "AlertRuleLike \<Rightarrow> jsv option" where
  "extractRuleConfig rule =
     (case rule_conditions rule of
        JObject cond \<Rightarrow>
          (case field cond ''exploitDetector'' of
             JObject fs \<Rightarrow> Some (JObject fs)
           | JArray vs \<Rightarrow> Some (JArray vs)
           | _ \<Rightarrow>
               if list_ex (\<lambda>k. k \<in> fst ` set cond) [''reentrancy'', ''maxDepth'', ''alertOnReentrancy'', ''exploitType'']
               then Some (JObject cond) else None)
      | _ \<Rightarrow> None)"

text \<open>A field of the configuration; an array has none of these fields.\<close>

definition config_field :: "jsv \<Rightarrow> string \<Rightarrow> jsv" where
  "config_field config k = (case config of JObject fs \<Rightarrow> field fs k | _ \<Rightarrow> JUndefined)"

definition lower_case :: "jsv \<Rightarrow> js_error + string" where
  "lower_case v = (case v of JString s \<Rightarrow> Inr (toLowerCase s) | _ \<Rightarrow> Inl TypeError)"

text \<open>The contracts that a rule watches: one contract, and a list of them.\<close>

definition monitored :: "jsv \<Rightarrow> js_error + string jsset" where
  "monitored v =
     (case v of
        JArray vs \<Rightarrow> all_results (map lower_case vs)
      | JString s \<Rightarrow> Inr (map (\<lambda>c. toLowerCase [c]) s)
      | JObject fs \<Rightarrow> if num_less (Fin 0) (js_Number (field fs ''length'')) then Inl TypeError else Inr []
      | _ \<Rightarrow> Inr [])"

definition target_contracts :: "jsv \<Rightarrow> js_error + string jsset" where
  "target_contracts config =
     (let c = config_field config ''contractId'' in
      case (if truthy_jsv c then map_sum id (\<lambda>s. [s]) (lower_case c) else Inr []) of
        Inl err \<Rightarrow> Inl err
      | Inr one \<Rightarrow>
          (case monitored (config_field config ''monitoredContracts'') of Inl err \<Rightarrow> Inl err | Inr cs \<Rightarrow> Inr (set_from one cs)))"

definition toggled_off :: "jsv \<Rightarrow> ReentrancyAnalysisResult \<Rightarrow> bool" where
  "toggled_off config res \<longleftrightarrow>
     config_field config ''alertOnReentrancy'' = JBoolean False \<and> hasReentrancy res \<and> \<not> hasExcessiveDepth res
     \<or> config_field config ''alertOnExcessiveDepth'' = JBoolean False \<and> hasExcessiveDepth res \<and> \<not> hasReentrancy res"

definition evaluate_exploit ::
  "nat \<Rightarrow> jsv \<Rightarrow> AlertRuleLike \<Rightarrow> string option \<Rightarrow> int option \<Rightarrow> int \<Rightarrow> js_error + ExploitRuleMatch option" where
  "evaluate_exploit defaultMaxDepth callTree rule txHash ledger now =
     (if \<not> rule_isActive rule then Inr None
      else case extractRuleConfig rule of
        None \<Rightarrow> Inr None
      | Some config \<Rightarrow>
          (case invocation_nodes callTree of
             Inl err \<Rightarrow> Inl err
           | Inr nodes \<Rightarrow>
               let res = analyzeCallTree defaultMaxDepth nodes (config_field config ''maxDepth'') in
               if \<not> threatDetected res then Inr None
               else case target_contracts config of
                 Inl err \<Rightarrow> Inl err
               | Inr targets \<Rightarrow>
                   if targets \<noteq> [] \<and> \<not> list_ex (\<lambda>c. toLowerCase c \<in> set targets) (involvedContracts res) then Inr None
                   else if toggled_off config res then Inr None
                   else
                     let alert = alert_of ''Soroban reentrancy or recursion exploit pattern detected'' txHash ledger now res in
                     Inr (Some \<lparr>match_ruleId = rule_id rule, match_userId = rule_userId rule,
                       match_contractId = al_contractId alert, match_alert = alert,
                       match_reentrancy = hasReentrancy res, match_excessiveDepth = hasExcessiveDepth res,
                       match_maxDepth = maxDepthReached res, match_cycleCount = length (detectedCycles res),
                       match_contracts = involvedContracts res\<rparr>)))"

section \<open>Call paths\<close>

text \<open>The contracts from a root down to a call; a call without contract ends the descent.\<close>

inductive call_path :: "SorobanInvocationNode \<Rightarrow> string list \<Rightarrow> bool" where
  here: "c \<noteq> '''' \<Longrightarrow> call_path (Node c f subs) [c]"
| below: "c \<noteq> '''' \<Longrightarrow> n \<in> set ns \<Longrightarrow> call_path n p \<Longrightarrow> call_path (Node c f (Some ns)) (c # p)"

inductive_simps call_path_Node: "call_path (Node c f subs) p"

lemma call_path_not_Nil: "call_path n p \<Longrightarrow> p \<noteq> []"
  by (induction rule: call_path.induct) auto

lemma call_path_prefix: "call_path n r \<Longrightarrow> r = p @ q \<Longrightarrow> p \<noteq> [] \<Longrightarrow> call_path n p"
proof (induction arbitrary: p rule: call_path.induct)
  case (below c n ns r f)
  then obtain p' where "p = c # p'" "r = p' @ q" by (cases p) auto
  then show ?case using below by (cases "p' = []") (auto intro: call_path.intros)
qed (auto simp: Cons_eq_append_conv intro: call_path.here)

text \<open>The calls in the order of the traversal, each with its path below a stack.\<close>

fun visits :: "SorobanInvocationNode \<Rightarrow> string list \<Rightarrow> (string list \<times> string option) list"
  and visits_all :: "SorobanInvocationNode list \<Rightarrow> string list \<Rightarrow> (string list \<times> string option) list" where
  "visits (Node c f subs) stack =
     (if c = '''' then []
      else (stack @ [c], f) # (case subs of Some ns \<Rightarrow> visits_all ns (stack @ [c]) | None \<Rightarrow> []))"
| "visits_all [] stack = []"
| "visits_all (n # ns) stack = visits n stack @ visits_all ns stack"

lemma visits_paths:
  "fst ` set (visits n stack) = {stack @ p | p. call_path n p}"
  "fst ` set (visits_all ns stack) = {stack @ p | p. \<exists>n \<in> set ns. call_path n p}"
proof (induction n stack and ns stack rule: visits_visits_all.induct)
  case (1 c f subs stack)
  show ?case
  proof (cases "c = '''' \<or> subs = None")
    case False
    then obtain ns where ns: "subs = Some ns" "c \<noteq> ''''" by auto
    then have "fst ` set (visits_all ns (stack @ [c])) = {(stack @ [c]) @ p | p. \<exists>n \<in> set ns. call_path n p}" using 1 by simp
    moreover have "call_path (Node c f subs) p \<longleftrightarrow> p = [c] \<or> (\<exists>q. p = c # q \<and> (\<exists>n \<in> set ns. call_path n q))" for p
      using ns by (auto simp: call_path_Node)
    ultimately show ?thesis using ns by auto
  qed (auto simp: call_path_Node)
qed (auto simp: image_Un)

definition visit_path :: "traversal \<Rightarrow> string list \<times> string option \<Rightarrow> traversal" where
  "visit_path st v = visit (last (fst v)) (snd v) (length (fst v)) (butlast (fst v)) (replicate (2 * (length (fst v) - 1)) CHR '' '') st"

lemma traverse_visits:
  "d = length stack + 1 \<Longrightarrow> pre = replicate (2 * length stack) CHR '' '' \<Longrightarrow> traverse n d stack pre st = foldl visit_path st (visits n stack)"
  "d = length stack + 1 \<Longrightarrow> pre = replicate (2 * length stack) CHR '' '' \<Longrightarrow> traverse_all ns d stack pre st = foldl visit_path st (visits_all ns stack)"
proof (induction n d stack pre st and ns d stack pre st rule: traverse_traverse_all.induct)
  case (1 c f subs d stack pre st)
  have "2 * length (stack @ [c]) = 2 * length stack + 2" by simp
  then have "pre @ ''  '' = replicate (2 * length (stack @ [c])) CHR '' ''"
    by (simp only: 1(3) replicate_add) (simp add: numeral_2_eq_2)
  then show ?case using 1 by (auto simp: visit_path_def Let_def split: option.split)
qed simp_all

definition cycle_at :: "string list \<Rightarrow> ReentrancyCycle list" where
  "cycle_at q = (case index_of (butlast q) (last q) of
     Some i \<Rightarrow> [\<lparr>cyc_contractId = last q, cyclePath = drop i (butlast q) @ [last q]\<rparr>] | None \<Rightarrow> [])"

lemma visits_result:
  "tv_cycles (foldl visit_path st vs) = tv_cycles st @ concat (map (cycle_at \<circ> fst) vs)"
  "set (tv_contracts (foldl visit_path st vs)) = set (tv_contracts st) \<union> last ` fst ` set vs"
  "tv_depth (foldl visit_path st vs) = fold max (map (length \<circ> fst) vs) (tv_depth st)"
  by (induction vs arbitrary: st)
     (auto simp: visit_path_def visit_def cycle_at_def max_def split: option.split)

definition calls_below :: "SorobanInvocationNode list \<Rightarrow> string list set" where
  "calls_below roots = {p. \<exists>n \<in> set roots. call_path n p}"

lemma cycle_at_iff: "q \<noteq> [] \<Longrightarrow> cycle_at q \<noteq> [] \<longleftrightarrow> last q \<in> set (butlast q)"
  using index_of_None[of "butlast q" "last q"] by (auto simp: cycle_at_def split: option.split)

lemma cycle_at_path:
  assumes "q \<noteq> []" "cy \<in> set (cycle_at q)"
  shows "\<exists>p. q = p @ cyclePath cy \<and> 2 \<le> length (cyclePath cy) \<and> hd (cyclePath cy) = cyc_contractId cy
    \<and> last (cyclePath cy) = cyc_contractId cy"
proof -
  obtain i where i: "index_of (butlast q) (last q) = Some i"
    using assms(2) by (cases "index_of (butlast q) (last q)") (auto simp: cycle_at_def)
  then have cy: "cy = \<lparr>cyc_contractId = last q, cyclePath = drop i (butlast q) @ [last q]\<rparr>"
    using assms(2) by (simp add: cycle_at_def)
  have j: "i < length (butlast q)" "butlast q ! i = last q" using index_of_Some[OF i] by simp_all
  have "q = take i (butlast q) @ drop i (butlast q) @ [last q]" using assms(1) by (simp flip: append_assoc)
  moreover have "drop i (butlast q) \<noteq> []" "hd (drop i (butlast q)) = last q" using j by (simp_all add: hd_drop_conv_nth)
  ultimately show ?thesis using cy by (auto simp: Suc_le_eq neq_Nil_conv)
qed

lemma repeated_contract_closes_cycle:
  assumes "p \<in> calls_below roots" "\<not> distinct p"
  shows "\<exists>q \<in> calls_below roots. last q \<in> set (butlast q)"
proof -
  obtain xs ys zs y where p: "p = xs @ [y] @ ys @ [y] @ zs" using not_distinct_decomp[OF assms(2)] by blast
  let ?q = "xs @ [y] @ ys @ [y]"
  have "?q \<in> calls_below roots" using assms(1) call_path_prefix[where p = ?q and q = zs] p by (auto simp: calls_below_def)
  moreover have "last ?q \<in> set (butlast ?q)" by (simp add: butlast_append)
  ultimately show ?thesis by blast
qed

lemma analysis_visits:
  assumes "res = analyzeCallTree d roots limit"
  shows "detectedCycles res = concat (map cycle_at (map fst (visits_all roots [])))"
    "set (involvedContracts res) = last ` calls_below roots"
    "maxDepthReached res = fold max (map length (map fst (visits_all roots []))) 0"
    "set (map fst (visits_all roots [])) = calls_below roots"
    "hasReentrancy res \<longleftrightarrow> detectedCycles res \<noteq> []"
proof -
  let ?st = "\<lparr>tv_depth = 0, tv_cycles = [], tv_contracts = [], tv_trace = []\<rparr>"
  have t: "traverse_all roots (Suc 0) [] '''' ?st = foldl visit_path ?st (visits_all roots [])"
    using traverse_visits(2)[of 1 "[]" "''''" roots ?st] by simp
  have c: "fst ` set (visits_all roots []) = calls_below roots" using visits_paths(2)[of roots "[]"] by (simp add: calls_below_def)
  show "detectedCycles res = concat (map cycle_at (map fst (visits_all roots [])))"
    "set (involvedContracts res) = last ` calls_below roots"
    "maxDepthReached res = fold max (map length (map fst (visits_all roots []))) 0"
    "set (map fst (visits_all roots [])) = calls_below roots"
    "hasReentrancy res \<longleftrightarrow> detectedCycles res \<noteq> []"
    using c by (simp_all add: assms analyzeCallTree_def Let_def t visits_result comp_def flip: c)
qed

lemma fold_max_upper: "x \<in> set xs \<Longrightarrow> (x :: nat) \<le> fold max xs a"
  and fold_max_attained: "fold max xs a = a \<or> fold max xs a \<in> set (xs :: nat list)"
proof -
  have "fold max xs a = Max (insert a (set xs))" by (metis Max.set_eq_fold list.set(2))
  then show "x \<in> set xs \<Longrightarrow> x \<le> fold max xs a" "fold max xs a = a \<or> fold max xs a \<in> set xs"
    using Max_in[of "insert a (set xs)"] by auto
qed

lemma calls_below_not_Nil: "p \<in> calls_below roots \<Longrightarrow> p \<noteq> []"
  by (auto simp: calls_below_def dest: call_path_not_Nil)

lemma ends_of_calls: "last ` calls_below roots = \<Union> (set ` calls_below roots)"
proof
  show "last ` calls_below roots \<subseteq> \<Union> (set ` calls_below roots)"
  proof (rule image_subsetI)
    fix p assume p: "p \<in> calls_below roots"
    show "last p \<in> \<Union> (set ` calls_below roots)" using p last_in_set[OF calls_below_not_Nil[OF p]] by blast
  qed
  show "\<Union> (set ` calls_below roots) \<subseteq> last ` calls_below roots"
  proof
    fix c assume "c \<in> \<Union> (set ` calls_below roots)"
    then obtain p where p: "p \<in> calls_below roots" "c \<in> set p" by blast
    obtain xs ys where "p = (xs @ [c]) @ ys" using split_list[OF p(2)] by auto
    then have "xs @ [c] \<in> calls_below roots" using p(1) call_path_prefix[where p = "xs @ [c]" and q = ys] by (auto simp: calls_below_def)
    then show "c \<in> last ` calls_below roots" by (rule rev_image_eqI) simp
  qed
qed

text \<open>C13. Re-entrancy is reported exactly when a contract is called again below itself: some path of calls has a
  contract twice. Every reported cycle is the end of a path of calls and leads from a contract back to it.
  The reported depth is the length of the longest path, the involved contracts are those on the paths, and
  a threat is critical exactly with re-entrancy.\<close>

theorem reentrancy_detected_iff:
  assumes "res = analyzeCallTree d roots limit"
  shows "(hasReentrancy res \<longleftrightarrow> (\<exists>p \<in> calls_below roots. \<not> distinct p))
    \<and> (\<forall>cy \<in> set (detectedCycles res). \<exists>p. p @ cyclePath cy \<in> calls_below roots \<and> 2 \<le> length (cyclePath cy)
         \<and> hd (cyclePath cy) = cyc_contractId cy \<and> last (cyclePath cy) = cyc_contractId cy)
    \<and> (\<forall>p \<in> calls_below roots. length p \<le> maxDepthReached res)
    \<and> (maxDepthReached res = 0 \<or> (\<exists>p \<in> calls_below roots. length p = maxDepthReached res))
    \<and> set (involvedContracts res) = \<Union> (set ` calls_below roots)
    \<and> (severity res = CRITICAL \<longleftrightarrow> hasReentrancy res) \<and> (threatDetected res \<longleftrightarrow> severity res \<noteq> NONE)"
proof (intro conjI)
  let ?ps = "map fst (visits_all roots [])"
  note v = analysis_visits[OF assms]
  have cy: "detectedCycles res \<noteq> [] \<longleftrightarrow> (\<exists>q \<in> calls_below roots. last q \<in> set (butlast q))"
  proof -
    have "concat (map cycle_at qs) \<noteq> [] \<longleftrightarrow> (\<exists>q \<in> set qs. cycle_at q \<noteq> [])" for qs by auto
    then show ?thesis unfolding v(1) using cycle_at_iff[OF calls_below_not_Nil] v(4) by metis
  qed
  have nd: "last q \<in> set (butlast q) \<Longrightarrow> q \<noteq> [] \<Longrightarrow> \<not> distinct q" for q :: "string list"
    using distinct_append[of "butlast q" "[last q]"] by auto
  have len: "set (map length ?ps) = length ` calls_below roots" by (simp only: list.set_map[of length] v(4))
  show "hasReentrancy res \<longleftrightarrow> (\<exists>p \<in> calls_below roots. \<not> distinct p)"
    using cy v(5) nd calls_below_not_Nil repeated_contract_closes_cycle by metis
  show "\<forall>cy \<in> set (detectedCycles res). \<exists>p. p @ cyclePath cy \<in> calls_below roots \<and> 2 \<le> length (cyclePath cy)
      \<and> hd (cyclePath cy) = cyc_contractId cy \<and> last (cyclePath cy) = cyc_contractId cy"
  proof
    fix cy assume "cy \<in> set (detectedCycles res)"
    then obtain q where "q \<in> calls_below roots" "cy \<in> set (cycle_at q)" using v(4) by (auto simp: v(1))
    then show "\<exists>p. p @ cyclePath cy \<in> calls_below roots \<and> 2 \<le> length (cyclePath cy)
        \<and> hd (cyclePath cy) = cyc_contractId cy \<and> last (cyclePath cy) = cyc_contractId cy"
      using cycle_at_path[OF calls_below_not_Nil] by metis
  qed
  show "\<forall>p \<in> calls_below roots. length p \<le> maxDepthReached res"
    using fold_max_upper[of _ "map length ?ps" 0] unfolding v(3) len by blast
  show "maxDepthReached res = 0 \<or> (\<exists>p \<in> calls_below roots. length p = maxDepthReached res)"
    using fold_max_attained[of "map length ?ps" 0] unfolding v(3) len by (metis imageE)
  show "set (involvedContracts res) = \<Union> (set ` calls_below roots)" unfolding v(2) by (rule ends_of_calls)
qed (simp_all add: assms analyzeCallTree_def Let_def)

definition reentrant_tree :: "SorobanInvocationNode list" where
  "reentrant_tree = [Node ''CPOOL'' None (Some [Node ''CTOKEN'' (Some ''transfer'') (Some [Node ''CPOOL'' None None])])]"

theorem reentrancy_detected_iff_witness:
  "hasReentrancy (analyzeCallTree 8 reentrant_tree JUndefined) \<and> \<not> hasReentrancy (analyzeCallTree 8 [] JUndefined)"
proof -
  have "[''CPOOL'', ''CTOKEN'', ''CPOOL''] \<in> calls_below reentrant_tree" "calls_below [] = {}"
    by (simp_all add: calls_below_def reentrant_tree_def call_path_Node)
  then show ?thesis
    using reentrancy_detected_iff [OF refl, of 8 reentrant_tree JUndefined] reentrancy_detected_iff [OF refl, of 8 "[]" JUndefined]
    by fastforce
qed

section \<open>The rule and the parser\<close>

text \<open>A rule without filter that wants alerts on re-entrancy matches every tree with a repeated contract.\<close>

lemma reentrant_tree_matches:
  assumes "rule_isActive rule" "extractRuleConfig rule = Some config" "invocation_nodes tree = Inr nodes"
    "p \<in> calls_below nodes" "\<not> distinct p" "target_contracts config = Inr []"
    "config_field config ''alertOnReentrancy'' \<noteq> JBoolean False"
  shows "\<exists>m. evaluate_exploit d tree rule tx ledger now = Inr (Some m) \<and> match_reentrancy m \<and> al_critical (match_alert m)"
proof -
  let ?res = "analyzeCallTree d nodes (config_field config ''maxDepth'')"
  have c: "detectedCycles ?res \<noteq> []"
  proof -
    obtain q where "q \<in> calls_below nodes" "last q \<in> set (butlast q)" using repeated_contract_closes_cycle[OF assms(4,5)] by blast
    then have "q \<in> set (map fst (visits_all nodes []))" "cycle_at q \<noteq> []"
      using cycle_at_iff[OF calls_below_not_Nil] analysis_visits(4)[OF refl] by metis+
    then show ?thesis unfolding analysis_visits(1)[OF refl] concat_eq_Nil_conv by auto
  qed
  then have "hasReentrancy ?res" "threatDetected ?res" "severity ?res = CRITICAL"
    using analysis_visits(5)[OF refl, of d nodes "config_field config ''maxDepth''"] by (auto simp: analyzeCallTree_def Let_def)
  then show ?thesis using assms(1-3,6,7) by (simp add: evaluate_exploit_def Let_def toggled_off_def alert_of_def)
qed

text \<open>
  The parser knows several names for the calls of a node, but an object with a field \<open>contractId\<close> is not
  parsed: below it only the name \<open>subInvocations\<close> is read, and re-entrancy under another name is not seen.
\<close>

definition renamed_calls :: jsv where
  "renamed_calls = JObject [(''contractId'', JString ''CPOOL''), (''calls'', JArray [
     JObject [(''contractId'', JString ''CTOKEN''), (''calls'', JArray [JObject [(''contractId'', JString ''CPOOL'')]])]])]"

lemma renamed_calls_are_ignored:
  "fst (inspectAndDispatch 8 True renamed_calls None None 0) = Inr None
   \<and> snd (inspectAndDispatch 8 True (JArray [renamed_calls]) None None 0) \<noteq> []"
  by (simp add: inspectAndDispatch_def invocation_nodes_def renamed_calls_def cast_node.simps parseInvocationGraph_def
      parseSingleNode.simps field_def analyzeCallTree_def visit_def Let_def)

section \<open>Typed trees\<close>

text \<open>The object of the interface \<open>SorobanInvocationNode\<close> for a tree, and trees with non-empty names.\<close>

fun to_jsv :: "SorobanInvocationNode \<Rightarrow> jsv" where
  "to_jsv (Node c f subs) = JObject ((''contractId'', JString c)
     # (case f of Some g \<Rightarrow> [(''functionName'', JString g)] | None \<Rightarrow> [])
     @ (case subs of Some ns \<Rightarrow> [(''subInvocations'', JArray (map to_jsv ns))] | None \<Rightarrow> []))"

fun named :: "SorobanInvocationNode \<Rightarrow> bool" where
  "named (Node c f subs) \<longleftrightarrow> c \<noteq> '''' \<and> f \<noteq> Some '''' \<and> (case subs of Some ns \<Rightarrow> list_all named ns | None \<Rightarrow> True)"

lemma map_filter_Some: "(\<And>x. x \<in> set xs \<Longrightarrow> f (g x) = Some x) \<Longrightarrow> List.map_filter f (map g xs) = xs"
  by (induction xs) auto

lemma typed_fields:
  fixes c f subs
  defines "fs \<equiv> (''contractId'', JString c) # (case f of Some g \<Rightarrow> [(''functionName'', JString g)] | None \<Rightarrow> [])
     @ (case subs of Some ns \<Rightarrow> [(''subInvocations'', JArray (map to_jsv ns))] | None \<Rightarrow> [])"
  shows "field fs ''contractId'' = JString c"
    "field fs ''functionName'' = (case f of Some g \<Rightarrow> JString g | None \<Rightarrow> JUndefined)"
    "field fs ''subInvocations'' = (case subs of Some ns \<Rightarrow> JArray (map to_jsv ns) | None \<Rightarrow> JUndefined)"
    "k \<notin> {''contractId'', ''functionName'', ''subInvocations''} \<Longrightarrow> field fs k = JUndefined"
  by (auto simp: fs_def field_def split: option.split)

lemma cast_to_jsv: "named n \<Longrightarrow> cast_node (to_jsv n) = Inr n"
proof (induction n)
  case (Node c f subs)
  have "all_results (map cast_node (map to_jsv ns)) = Inr ns" if "subs = Some ns" for ns
    using Node that all_results_Inr[of id ns] by (simp add: list_all_iff cong: map_cong)
  then show ?case using Node.prems
    by (subst cast_node.simps) (auto simp: typed_fields Let_def simp del: map_map split: option.split)
qed

lemma parse_to_jsv: "named n \<Longrightarrow> parseSingleNode (to_jsv n) = Some n"
proof (induction n)
  case (Node c f subs)
  have "List.map_filter parseSingleNode (map to_jsv ns) = ns" if "subs = Some ns" for ns
    using Node that by (intro map_filter_Some) (auto simp: list_all_iff)
  then show ?case using Node.prems
    by (cases f; cases subs) (simp_all add: parseSingleNode.simps[of "JObject fs" for fs] field_def)
qed



end
