(* ===== verification/ContractRouter.thy ===== *)
theory ContractRouter
  imports JsValues
begin

text \<open>
  The router of contract events (\<open>apps/api/src/lib/contract-router.ts\<close>) with the batched request and the topic
  of an event from \<open>apps/api/src/lib/soroban.ts\<close>. A handler is an opaque value; which calls of handlers succeed
  and the answer of the RPC server, nothing for a failed request, are arguments. Handlers do not change the
  router. The result of an operation includes the calls of handlers in their order; logging is left out.
\<close>

section \<open>Events\<close>

record soroban_event =
  ev_id :: string
  ev_contractId :: "string option"
  ev_topic :: jsv
  ev_ledger :: "int option"
  ev_ledgerSequence :: "int option"

definition eventContractId :: "soroban_event \<Rightarrow> string" where
  "eventContractId e = (case ev_contractId e of Some c \<Rightarrow> c | None \<Rightarrow> '''')"

definition eventLedger :: "soroban_event \<Rightarrow> int" where
  "eventLedger e = (case ev_ledger e of Some l \<Rightarrow> l | None \<Rightarrow> (case ev_ledgerSequence e of Some l \<Rightarrow> l | None \<Rightarrow> 0))"

definition getEventTopicName :: "soroban_event \<Rightarrow> string" where
  "getEventTopicName e =
     (case ev_topic e of
        JArray (JString s # _) \<Rightarrow> s
      | JArray (JObject fs # _) \<Rightarrow> (case map_of fs ''symbol'' of Some v \<Rightarrow> js_String v | None \<Rightarrow> ''default'')
      | _ \<Rightarrow> ''default'')"

text \<open>The slices of a loop with a fixed step.\<close>

function chunk :: "nat \<Rightarrow> 'a list \<Rightarrow> 'a list list" where
  "chunk n xs = (if xs = [] \<or> n = 0 then [] else take n xs # chunk n (drop n xs))"
  by pat_completeness auto
termination by (relation "measure (length \<circ> snd)") auto

declare chunk.simps [simp del]

definition CONTRACT_IDS_PER_FILTER :: nat where "CONTRACT_IDS_PER_FILTER = 5"
definition CONTRACTS_PER_EVENT_REQUEST :: nat where "CONTRACTS_PER_EVENT_REQUEST = 5 * CONTRACT_IDS_PER_FILTER"

type_synonym event_server = "int \<Rightarrow> string list list \<Rightarrow> soroban_event list option"

definition fetchEventsForContracts :: "event_server \<Rightarrow> string list \<Rightarrow> int \<Rightarrow> soroban_event list" where
  "fetchEventsForContracts getEvents contractIds startLedger =
     concat (map (\<lambda>batch. case getEvents startLedger (chunk CONTRACT_IDS_PER_FILTER batch) of Some evs \<Rightarrow> evs | None \<Rightarrow> [])
       (chunk CONTRACTS_PER_EVENT_REQUEST (set_from [] (filter (\<lambda>c. c \<noteq> '''') contractIds))))"

section \<open>The router\<close>

definition ANY_TOPIC :: string where "ANY_TOPIC = ''*''"
definition MAX_ROUTER_CONTRACTS :: nat where "MAX_ROUTER_CONTRACTS = 100"

datatype router_error = ContractLimitError string

record 'h Subscription =
  sub_topic :: string
  sub_handler :: 'h

record RoutedSorobanAlert =
  ra_contractId :: string
  ra_topic :: string
  ra_userIds :: "string list"
  ra_event :: soroban_event

text \<open>The timers that run are part of the state: clearing the timer of the router ends one of them.\<close>

record ('h, 'c) ContractRouter =
  subscriptions :: "(string, 'h Subscription list) jsmap"
  channels :: "(string, 'c) jsmap"
  pollTimer :: "nat option"
  latestLedger :: "(string, int) jsmap"
  running_timers :: "nat list"

definition newContractRouter :: "('h, 'c) ContractRouter" where
  "newContractRouter = \<lparr>subscriptions = [], channels = [], pollTimer = None, latestLedger = [], running_timers = []\<rparr>"

definition subscribe ::
  "string \<Rightarrow> 'h \<Rightarrow> string option \<Rightarrow> ('h, 'c) ContractRouter \<Rightarrow> router_error + ('h, 'c) ContractRouter" where
  "subscribe c h topic r =
     (let existing = map_of (subscriptions r) c in
      if existing = None \<and> length (subscriptions r) \<ge> MAX_ROUTER_CONTRACTS then Inl (ContractLimitError c)
      else
        let list = (case existing of Some subs \<Rightarrow> subs | None \<Rightarrow> []) in
        Inr (r\<lparr>subscriptions := AList.update c
          (list @ [\<lparr>sub_topic = (case topic of Some t \<Rightarrow> t | None \<Rightarrow> ANY_TOPIC), sub_handler = h\<rparr>]) (subscriptions r)\<rparr>))"

definition unsubscribe :: "string \<Rightarrow> ('h, 'c) ContractRouter \<Rightarrow> ('h, 'c) ContractRouter" where
  "unsubscribe c r = r\<lparr>subscriptions := AList.delete c (subscriptions r), latestLedger := AList.delete c (latestLedger r)\<rparr>"

definition registerChannel :: "string \<Rightarrow> 'c \<Rightarrow> ('h, 'c) ContractRouter \<Rightarrow> ('h, 'c) ContractRouter" where
  "registerChannel name h r = r\<lparr>channels := AList.update name h (channels r)\<rparr>"

definition unregisterChannel :: "string \<Rightarrow> ('h, 'c) ContractRouter \<Rightarrow> ('h, 'c) ContractRouter" where
  "unregisterChannel name r = r\<lparr>channels := AList.delete name (channels r)\<rparr>"

text \<open>The handlers that an event goes to, in the order of their subscription.\<close>

definition matching :: "soroban_event \<Rightarrow> 'h Subscription list \<Rightarrow> 'h list" where
  "matching e subs =
     map sub_handler (filter (\<lambda>s. \<not> (sub_topic s \<noteq> ANY_TOPIC \<and> sub_topic s \<noteq> getEventTopicName e)) subs)"

definition dispatchEvent ::
  "('h \<Rightarrow> soroban_event \<Rightarrow> bool) \<Rightarrow> soroban_event \<Rightarrow> ('h, 'c) ContractRouter \<Rightarrow> nat \<times> ('h \<times> soroban_event) list" where
  "dispatchEvent ok e r =
     (case map_of (subscriptions r) (eventContractId e) of
        None \<Rightarrow> (0, [])
      | Some subs \<Rightarrow>
          (let hs = matching e subs in (length (filter (\<lambda>h. ok h e) hs), map (\<lambda>h. (h, e)) hs)))"

definition dispatchToChannels :: "('c \<Rightarrow> RoutedSorobanAlert \<Rightarrow> bool) \<Rightarrow> RoutedSorobanAlert \<Rightarrow> ('h, 'c) ContractRouter \<Rightarrow> nat \<times> 'c list" where
  "dispatchToChannels ok alert r =
     (length (filter (\<lambda>(name, h). ok h alert) (channels r)), map snd (channels r))"

section \<open>Polling\<close>

definition cursor_of :: "int \<Rightarrow> ('h, 'c) ContractRouter \<Rightarrow> string \<Rightarrow> int" where
  "cursor_of startLedger r c = (case map_of (latestLedger r) c of Some l \<Rightarrow> l | None \<Rightarrow> startLedger)"

definition poll_event ::
  "('h \<Rightarrow> soroban_event \<Rightarrow> bool) \<Rightarrow> (string, int) jsmap \<Rightarrow> nat \<times> ('h \<times> soroban_event) list \<times> ('h, 'c) ContractRouter \<Rightarrow>
     soroban_event \<Rightarrow> nat \<times> ('h \<times> soroban_event) list \<times> ('h, 'c) ContractRouter" where
  "poll_event ok cursors st e =
     (case st of
        (dispatched, calls, r) \<Rightarrow>
          let c = eventContractId e; l = eventLedger e in
          case map_of cursors c of
            None \<Rightarrow> st
          | Some cursor \<Rightarrow>
              if l > 0 \<and> l < cursor then st
              else
                let r1 = (if l > 0
                  then r\<lparr>latestLedger := AList.update c
                    (max (case map_of (latestLedger r) c of Some x \<Rightarrow> x | None \<Rightarrow> cursor) (l + 1)) (latestLedger r)\<rparr>
                  else r)
                in case dispatchEvent ok e r1 of (n, cs) \<Rightarrow> (dispatched + n, calls @ cs, r1))"

definition pollOnce ::
  "event_server \<Rightarrow> ('h \<Rightarrow> soroban_event \<Rightarrow> bool) \<Rightarrow> int \<Rightarrow> ('h, 'c) ContractRouter \<Rightarrow>
     nat \<times> ('h \<times> soroban_event) list \<times> ('h, 'c) ContractRouter" where
  "pollOnce getEvents ok startLedger r =
     (let contractIds = map fst (subscriptions r) in
      if contractIds = [] then (0, [], r)
      else
        let cursors = map (\<lambda>c. (c, cursor_of startLedger r c)) contractIds;
            fromLedger = Min (set (map snd cursors))
        in foldl (poll_event ok cursors) (0, [], r) (fetchEventsForContracts getEvents contractIds fromLedger))"

text \<open>\<open>startPolling\<close> checks the timer, awaits a poll and then sets the timer; other calls may come in between.\<close>

definition start_guard :: "('h, 'c) ContractRouter \<Rightarrow> bool" where
  "start_guard r \<longleftrightarrow> pollTimer r = None"

definition set_poll_timer :: "('h, 'c) ContractRouter \<Rightarrow> ('h, 'c) ContractRouter" where
  "set_poll_timer r = (let i = Suc (foldl max 0 (running_timers r)) in
     r\<lparr>pollTimer := Some i, running_timers := running_timers r @ [i]\<rparr>)"

definition startPolling ::
  "event_server \<Rightarrow> ('h \<Rightarrow> soroban_event \<Rightarrow> bool) \<Rightarrow> int \<Rightarrow> ('h, 'c) ContractRouter \<Rightarrow> ('h \<times> soroban_event) list \<times> ('h, 'c) ContractRouter" where
  "startPolling getEvents ok startLedger r =
     (if \<not> start_guard r then ([], r)
      else case pollOnce getEvents ok startLedger r of (n, calls, r1) \<Rightarrow> (calls, set_poll_timer r1))"

definition stopPolling :: "('h, 'c) ContractRouter \<Rightarrow> ('h, 'c) ContractRouter" where
  "stopPolling r =
     (case pollTimer r of
        Some i \<Rightarrow> r\<lparr>running_timers := filter (\<lambda>j. j \<noteq> i) (running_timers r), pollTimer := None\<rparr>
      | None \<Rightarrow> r)"

definition getContractIds :: "('h, 'c) ContractRouter \<Rightarrow> string list" where
  "getContractIds r = map fst (subscriptions r)"

definition router_size :: "('h, 'c) ContractRouter \<Rightarrow> nat" where
  "router_size r = length (subscriptions r)"

definition hasSubscription :: "string \<Rightarrow> ('h, 'c) ContractRouter \<Rightarrow> bool" where
  "hasSubscription c r \<longleftrightarrow> (case map_of (subscriptions r) c of Some subs \<Rightarrow> length subs | None \<Rightarrow> 0) > 0"

section \<open>The limit of contracts\<close>

lemma length_update: "length (AList.update k v m) = (if map_of m k = None then Suc (length m) else length m)"
  by (induction m) auto

lemma subscribe_keeps_limit:
  assumes "subscribe c h topic r = Inr r'" "router_size r \<le> MAX_ROUTER_CONTRACTS"
  shows "router_size r' \<le> MAX_ROUTER_CONTRACTS"
  using assms by (auto simp: subscribe_def router_size_def length_update Let_def split: if_splits option.splits)

section \<open>Batches\<close>

lemma concat_chunk: "0 < n \<Longrightarrow> concat (chunk n xs) = xs"
  by (induction n xs rule: chunk.induct) (subst chunk.simps, auto)

text \<open>In a list without repetition an element is in one batch; what the batches yield for it comes from there.\<close>

lemma one_batch:
  assumes "distinct (concat bs)" "c \<in> set (concat bs)" "\<And>b. b \<in> set bs \<Longrightarrow> c \<notin> set b \<Longrightarrow> f b = []"
  shows "\<exists>b \<in> set bs. c \<in> set b \<and> concat (map f bs) = f b"
  using assms
proof (induction bs)
  case (Cons b bs)
  show ?case
  proof (cases "c \<in> set b")
    case True
    then have "\<forall>b' \<in> set bs. c \<notin> set b'" using Cons.prems(1) by auto
    then have "concat (map f bs) = []" using Cons.prems(3) by simp
    then show ?thesis using True by auto
  next
    case False
    then obtain b' where "b' \<in> set bs" "c \<in> set b'" "concat (map f bs) = f b'" using Cons by auto
    then show ?thesis using False Cons.prems(3)[of b] by auto
  qed
qed simp

text \<open>
  The answer of a server that knows the events up to a ledger, as the documentation of \<open>getEvents\<close> has it: the
  events of the wanted contracts from the first ledger on, as long as they fit in one page.
\<close>

definition answers :: "soroban_event list \<Rightarrow> int \<Rightarrow> event_server \<Rightarrow> bool" where
  "answers E head server \<longleftrightarrow> (\<forall>start filters evs. server start filters = Some evs \<longrightarrow>
     evs = filter (\<lambda>e. start \<le> eventLedger e \<and> eventLedger e \<le> head \<and> eventContractId e \<in> set (concat filters)) E)"

definition of_contract :: "string \<Rightarrow> soroban_event list \<Rightarrow> soroban_event list" where
  "of_contract c = filter (\<lambda>e. eventContractId e = c)"

lemma fetch_of_contract:
  assumes "answers E head server" "c \<in> set ids" "c \<noteq> ''''"
  shows "of_contract c (fetchEventsForContracts server ids start) = [] \<or>
    of_contract c (fetchEventsForContracts server ids start) =
      filter (\<lambda>e. start \<le> eventLedger e \<and> eventLedger e \<le> head) (of_contract c E)"
    "(\<And>s f. server s f \<noteq> None) \<Longrightarrow> of_contract c (fetchEventsForContracts server ids start) =
      filter (\<lambda>e. start \<le> eventLedger e \<and> eventLedger e \<le> head) (of_contract c E)"
proof -
  let ?answer = "\<lambda>b. server start (chunk CONTRACT_IDS_PER_FILTER b)"
  let ?f = "\<lambda>b. of_contract c (case ?answer b of Some evs \<Rightarrow> evs | None \<Rightarrow> [])"
  let ?bs = "chunk CONTRACTS_PER_EVENT_REQUEST (set_from [] (filter (\<lambda>c. c \<noteq> '''') ids))"
  have pos: "0 < CONTRACTS_PER_EVENT_REQUEST" "0 < CONTRACT_IDS_PER_FILTER"
    by (simp_all add: CONTRACTS_PER_EVENT_REQUEST_def CONTRACT_IDS_PER_FILTER_def)
  have f: "?f b = (if ?answer b = None \<or> c \<notin> set b then [] else
      filter (\<lambda>e. start \<le> eventLedger e \<and> eventLedger e \<le> head) (of_contract c E))" for b
  proof (cases "?answer b")
    case (Some evs)
    then have "evs = filter (\<lambda>e. start \<le> eventLedger e \<and> eventLedger e \<le> head \<and> eventContractId e \<in> set b) E"
      using assms(1)[unfolded answers_def, rule_format, OF Some] by (simp only: concat_chunk[OF pos(2)])
    then show ?thesis using Some by (auto simp: of_contract_def filter_empty_conv intro: filter_cong)
  qed (simp add: of_contract_def)
  have "distinct (concat ?bs)" "c \<in> set (concat ?bs)" using assms(2,3) by (simp_all add: concat_chunk[OF pos(1)])
  from one_batch[OF this, of ?f] obtain b where b: "c \<in> set b" "concat (map ?f ?bs) = ?f b" using f by auto
  have "of_contract c (fetchEventsForContracts server ids start) = concat (map ?f ?bs)"
    by (simp add: fetchEventsForContracts_def of_contract_def filter_concat comp_def)
  then have r: "of_contract c (fetchEventsForContracts server ids start) = ?f b" using b(2) by simp
  show "of_contract c (fetchEventsForContracts server ids start) = [] \<or>
    of_contract c (fetchEventsForContracts server ids start) =
      filter (\<lambda>e. start \<le> eventLedger e \<and> eventLedger e \<le> head) (of_contract c E)"
    unfolding r f using b(1) by simp
  show "of_contract c (fetchEventsForContracts server ids start) =
      filter (\<lambda>e. start \<le> eventLedger e \<and> eventLedger e \<le> head) (of_contract c E)" if "\<And>s f. server s f \<noteq> None"
    unfolding r f using b(1) that[of start "chunk CONTRACT_IDS_PER_FILTER b"] by auto
qed

section \<open>One poll\<close>

definition calls_of :: "string \<Rightarrow> ('h \<times> soroban_event) list \<Rightarrow> ('h \<times> soroban_event) list" where
  "calls_of c = filter (\<lambda>(h, e). eventContractId e = c)"

definition handler_calls :: "'h Subscription list \<Rightarrow> soroban_event list \<Rightarrow> ('h \<times> soroban_event) list" where
  "handler_calls subs evs = concat (map (\<lambda>e. map (\<lambda>h. (h, e)) (matching e subs)) evs)"

lemma calls_of_dispatch:
  assumes "map_of (subscriptions r) c = Some subs"
  shows "calls_of c (snd (dispatchEvent ok e r)) = (if eventContractId e = c then map (\<lambda>h. (h, e)) (matching e subs) else [])"
  using assms by (auto simp: calls_of_def dispatchEvent_def Let_def filter_map comp_def split: option.split)

lemma poll_event_subscriptions [simp]: "subscriptions (snd (snd (poll_event ok cursors st e))) = subscriptions (snd (snd st))"
  by (auto simp: poll_event_def Let_def split: prod.split option.split)

lemma poll_loop_subscriptions [simp]: "subscriptions (snd (snd (foldl (poll_event ok cursors) st evs))) = subscriptions (snd (snd st))"
  by (induction evs arbitrary: st) auto

text \<open>The cursor of a contract after events of its own.\<close>

fun ledger_after :: "int \<Rightarrow> soroban_event list \<Rightarrow> int" where
  "ledger_after cur [] = cur"
| "ledger_after cur (e # evs) = ledger_after (max cur (eventLedger e + 1)) evs"

lemma poll_loop_contract:
  assumes "map_of (subscriptions r) c = Some subs" "map_of cursors c = Some cur" "\<forall>e \<in> set evs. 0 < eventLedger e"
    "foldl (poll_event ok cursors) (n, calls, r) evs = (n', calls', r')"
  shows "calls_of c calls' = calls_of c calls @ handler_calls subs (filter (\<lambda>e. cur \<le> eventLedger e) (of_contract c evs))
    \<and> cursor_of cur r' c = ledger_after (cursor_of cur r c) (filter (\<lambda>e. cur \<le> eventLedger e) (of_contract c evs))"
  using assms
proof (induction evs arbitrary: n calls r)
  case (Cons e evs)
  obtain n1 calls1 r1 where st: "poll_event ok cursors (n, calls, r) e = (n1, calls1, r1)" by (cases "poll_event ok cursors (n, calls, r) e")
  have subs: "map_of (subscriptions r1) c = Some subs"
    using poll_event_subscriptions[of ok cursors "(n, calls, r)" e] st Cons.prems(1) by simp
  have ih: "calls_of c calls' = calls_of c calls1 @ handler_calls subs (filter (\<lambda>e. cur \<le> eventLedger e) (of_contract c evs))
    \<and> cursor_of cur r' c = ledger_after (cursor_of cur r1 c) (filter (\<lambda>e. cur \<le> eventLedger e) (of_contract c evs))"
    using Cons.IH[OF subs Cons.prems(2)] Cons.prems(3,4) st by simp
  show ?case
  proof (cases "eventContractId e = c")
    case True
    show ?thesis
    proof (cases "eventLedger e < cur")
      case True
      then have "calls1 = calls" "r1 = r" using st \<open>eventContractId e = c\<close> Cons.prems(2,3)
        by (simp_all add: poll_event_def Let_def)
      then show ?thesis using ih True \<open>eventContractId e = c\<close> by (simp add: of_contract_def)
    next
      case False
      let ?r = "r\<lparr>latestLedger := AList.update c (max (cursor_of cur r c) (eventLedger e + 1)) (latestLedger r)\<rparr>"
      have "calls1 = calls @ snd (dispatchEvent ok e ?r)" "r1 = ?r"
        using st \<open>eventContractId e = c\<close> Cons.prems(2,3) False
        by (auto simp: poll_event_def Let_def cursor_of_def split: prod.splits)
      moreover have "calls_of c (snd (dispatchEvent ok e ?r)) = map (\<lambda>h. (h, e)) (matching e subs)"
        using calls_of_dispatch[of ?r c subs ok e] Cons.prems(1) True by simp
      ultimately show ?thesis using ih False True
        by (simp add: of_contract_def calls_of_def handler_calls_def cursor_of_def)
    qed
  next
    case False
    have "calls_of c calls1 = calls_of c calls" "cursor_of cur r1 c = cursor_of cur r c"
      using st False calls_of_dispatch[where c = c and subs = subs and e = e and ok = ok] Cons.prems(1)
      by (auto simp: poll_event_def Let_def cursor_of_def calls_of_def dispatchEvent_def split: option.splits prod.splits if_splits)
    then show ?thesis using ih False by (simp add: of_contract_def)
  qed
qed (simp add: of_contract_def handler_calls_def)

lemma advance_less: "l < ledger_after cur evs \<longleftrightarrow> l < cur \<or> (\<exists>e \<in> set evs. l \<le> eventLedger e)"
  by (induction cur evs rule: ledger_after.induct) auto

lemma poll_event_cursor_stays:
  "map_of (latestLedger (snd (snd (poll_event ok cursors st e)))) c = None \<Longrightarrow> map_of (latestLedger (snd (snd st))) c = None"
  by (auto simp: poll_event_def Let_def split: prod.splits option.splits if_splits)

lemma poll_loop_cursor_stays:
  "map_of (latestLedger (snd (snd (foldl (poll_event ok cursors) st evs)))) c = None \<Longrightarrow> map_of (latestLedger (snd (snd st))) c = None"
  by (induction evs arbitrary: st) (simp, metis foldl_Cons poll_event_cursor_stays)

lemma answers_subset:
  assumes "answers E head server" "server start f = Some evs"
  shows "set evs \<subseteq> set E"
  using assms(1)[unfolded answers_def, rule_format, OF assms(2)] by auto

lemma fetched_are_events: "answers E head server \<Longrightarrow> set (fetchEventsForContracts server ids start) \<subseteq> set E"
  by (auto simp: fetchEventsForContracts_def split: option.splits dest: answers_subset[OF _ sym])

text \<open>What a poll does for a subscribed contract: it calls the handlers of the fetched events from the cursor on.\<close>

lemma poll_contract:
  assumes "map_of (subscriptions r) c = Some subs" "\<forall>e \<in> set E. 0 < eventLedger e" "answers E head server" "c \<noteq> ''''"
    "pollOnce server ok s r = (n, calls, r')"
  shows "\<exists>new. calls_of c calls = handler_calls subs new
    \<and> (\<forall>l. l < cursor_of s r' c \<longleftrightarrow> l < cursor_of s r c \<or> (\<exists>e \<in> set new. l \<le> eventLedger e))
    \<and> (new = [] \<or> new = filter (\<lambda>e. cursor_of s r c \<le> eventLedger e \<and> eventLedger e \<le> head) (of_contract c E))
    \<and> ((\<forall>s f. server s f \<noteq> None) \<longrightarrow> new = filter (\<lambda>e. cursor_of s r c \<le> eventLedger e \<and> eventLedger e \<le> head) (of_contract c E))
    \<and> map_of (subscriptions r') c = Some subs"
proof (intro exI conjI)
  let ?ids = "map fst (subscriptions r)"
  let ?cursors = "map (\<lambda>c. (c, cursor_of s r c)) ?ids"
  let ?from = "Min (set (map snd ?cursors))"
  let ?evs = "fetchEventsForContracts server ?ids ?from"
  let ?cur = "cursor_of s r c"
  have c: "c \<in> set ?ids" using assms(1) by (metis image_set map_of_eq_None_iff option.distinct(1))
  have cur: "map_of ?cursors c = Some ?cur" using c by (simp add: map_of_map_restrict del: map_map)
  have from_le: "?from \<le> ?cur" using c by (intro Min_le) auto
  have run: "foldl (poll_event ok ?cursors) (0, [], r) ?evs = (n, calls, r')"
  proof -
    have "?ids \<noteq> []" using c by force
    then show ?thesis using assms(5) unfolding pollOnce_def Let_def by (simp only: if_False)
  qed
  have pos: "\<forall>e \<in> set ?evs. 0 < eventLedger e" using fetched_are_events[OF assms(3)] assms(2) by blast
  let ?new = "filter (\<lambda>e. ?cur \<le> eventLedger e) (of_contract c ?evs)"
  note p = poll_loop_contract[OF assms(1) cur pos run]
  have "cursor_of ?cur r' c = cursor_of s r' c"
    using poll_loop_cursor_stays[of ok ?cursors "(0, [], r)" ?evs c] run by (auto simp: cursor_of_def split: option.splits)
  moreover have "cursor_of ?cur r c = ?cur" by (simp add: cursor_of_def split: option.split)
  ultimately have adv: "cursor_of s r' c = ledger_after ?cur ?new" using p by simp
  have sel: "filter (\<lambda>e. ?cur \<le> eventLedger e) (filter (\<lambda>e. ?from \<le> eventLedger e \<and> eventLedger e \<le> head) (of_contract c E))
      = filter (\<lambda>e. ?cur \<le> eventLedger e \<and> eventLedger e \<le> head) (of_contract c E)"
    using from_le by (auto intro!: filter_cong)
  show "calls_of c calls = handler_calls subs ?new" using p by (simp add: calls_of_def)
  show "\<forall>l. l < cursor_of s r' c \<longleftrightarrow> l < cursor_of s r c \<or> (\<exists>e \<in> set ?new. l \<le> eventLedger e)"
    unfolding adv using advance_less by blast
  show "?new = [] \<or> ?new = filter (\<lambda>e. ?cur \<le> eventLedger e \<and> eventLedger e \<le> head) (of_contract c E)"
    using fetch_of_contract(1)[OF assms(3) c assms(4), of ?from] sel by auto
  show "(\<forall>s f. server s f \<noteq> None) \<longrightarrow> ?new = filter (\<lambda>e. ?cur \<le> eventLedger e \<and> eventLedger e \<le> head) (of_contract c E)"
    using fetch_of_contract(2)[OF assms(3) c assms(4), of ?from] sel by simp
  show "map_of (subscriptions r') c = Some subs"
    using poll_loop_subscriptions[of ok ?cursors "(0, [], r)" ?evs, unfolded run] assms(1) by simp
qed

section \<open>Many polls\<close>

datatype 'h router_op = Subscribe string 'h "string option" | Unsubscribe string | Poll event_server int

fun router_step ::
  "('h \<Rightarrow> soroban_event \<Rightarrow> bool) \<Rightarrow> int \<Rightarrow> 'h router_op \<Rightarrow> ('h, 'c) ContractRouter \<Rightarrow> ('h \<times> soroban_event) list \<times> ('h, 'c) ContractRouter" where
  "router_step ok s (Subscribe c h t) r = ([], case subscribe c h t r of Inr r' \<Rightarrow> r' | Inl _ \<Rightarrow> r)"
| "router_step ok s (Unsubscribe c) r = ([], unsubscribe c r)"
| "router_step ok s (Poll server head) r = snd (pollOnce server ok s r)"

fun router_run ::
  "('h \<Rightarrow> soroban_event \<Rightarrow> bool) \<Rightarrow> int \<Rightarrow> 'h router_op list \<Rightarrow> ('h, 'c) ContractRouter \<Rightarrow> ('h \<times> soroban_event) list \<times> ('h, 'c) ContractRouter" where
  "router_run ok s [] r = ([], r)"
| "router_run ok s (op # ops) r =
     (case router_step ok s op r of (cs, r1) \<Rightarrow> (case router_run ok s ops r1 of (cs', r2) \<Rightarrow> (cs @ cs', r2)))"

text \<open>Operations that leave the subscription of a contract alone, and the ledgers that the server knows at the polls.\<close>

fun op_ok :: "string \<Rightarrow> soroban_event list \<Rightarrow> 'h router_op \<Rightarrow> bool" where
  "op_ok c E (Subscribe c' h t) = (c' \<noteq> c)"
| "op_ok c E (Unsubscribe c') = (c' \<noteq> c)"
| "op_ok c E (Poll server head) = answers E head server"

fun heads :: "'h router_op list \<Rightarrow> int list" where
  "heads [] = []"
| "heads (Poll server head # ops) = head # heads ops"
| "heads (op # ops) = heads ops"

text \<open>All events of a contract up to a ledger have been handled, and the cursor is behind them.\<close>

definition handled_to :: "string \<Rightarrow> 'h Subscription list \<Rightarrow> int \<Rightarrow> soroban_event list \<Rightarrow> int \<Rightarrow> ('h, 'c) ContractRouter \<Rightarrow> bool" where
  "handled_to c subs s E h r \<longleftrightarrow> map_of (subscriptions r) c = Some subs
     \<and> (\<forall>e \<in> set (of_contract c E). (eventLedger e < cursor_of s r c \<longleftrightarrow> eventLedger e \<le> h))"

lemma filter_ranges:
  assumes "sorted (map f xs)" "h \<le> h1" "h1 \<le> (h2 :: int)"
  shows "filter (\<lambda>x. h < f x \<and> f x \<le> h1) xs @ filter (\<lambda>x. h1 < f x \<and> f x \<le> h2) xs = filter (\<lambda>x. h < f x \<and> f x \<le> h2) xs"
  using assms(1)
proof (induction xs)
  case (Cons a xs)
  show ?case
  proof (cases "f a \<le> h1")
    case False
    then have "\<forall>x \<in> set (a # xs). h1 < f x" using Cons.prems by fastforce
    then have "filter (\<lambda>x. h < f x \<and> f x \<le> h1) (a # xs) = []"
      "filter (\<lambda>x. h1 < f x \<and> f x \<le> h2) (a # xs) = filter (\<lambda>x. h < f x \<and> f x \<le> h2) (a # xs)"
      using assms(2) by (fastforce simp: filter_empty_conv intro: filter_cong)+
    then show ?thesis by simp
  qed (use Cons assms(3) in auto)
qed simp

lemma handler_calls_append: "handler_calls subs (xs @ ys) = handler_calls subs xs @ handler_calls subs ys"
  by (simp add: handler_calls_def)

lemma calls_of_append: "calls_of c (xs @ ys) = calls_of c xs @ calls_of c ys"
  by (simp add: calls_of_def)

lemma handled_step:
  assumes "handled_to c subs s E h r" "op_ok c E op" "c \<noteq> ''''" "\<forall>e \<in> set E. 0 < eventLedger e" "\<forall>l \<in> set (heads [op]). h \<le> l"
    "router_step ok s op r = (cs, r')"
  shows "\<exists>h'. handled_to c subs s E h' r' \<and> h \<le> h' \<and> h' \<in> set (h # heads [op])
    \<and> calls_of c cs = handler_calls subs (filter (\<lambda>e. h < eventLedger e \<and> eventLedger e \<le> h') (of_contract c E))
    \<and> (\<forall>server head. op = Poll server head \<longrightarrow> (\<forall>s f. server s f \<noteq> None) \<longrightarrow> h' = head)"
proof (cases op)
  case (Poll server head)
  let ?P = "\<lambda>e. cursor_of s r c \<le> eventLedger e \<and> eventLedger e \<le> head"
  obtain n where po: "pollOnce server ok s r = (n, cs, r')" using assms(6) Poll by (cases "pollOnce server ok s r") auto
  have subs: "map_of (subscriptions r) c = Some subs" using assms(1) by (simp add: handled_to_def)
  have srv: "answers E head server" using assms(2) Poll by simp
  from poll_contract[OF subs assms(4) srv assms(3) po] obtain new where new: "calls_of c cs = handler_calls subs new"
    "\<forall>l. l < cursor_of s r' c \<longleftrightarrow> l < cursor_of s r c \<or> (\<exists>e \<in> set new. l \<le> eventLedger e)"
    "new = [] \<or> new = filter ?P (of_contract c E)" "(\<forall>s f. server s f \<noteq> None) \<longrightarrow> new = filter ?P (of_contract c E)"
    "map_of (subscriptions r') c = Some subs"
    by auto
  have at: "eventLedger e < cursor_of s r c \<longleftrightarrow> eventLedger e \<le> h" if "e \<in> set (of_contract c E)" for e
    using assms(1) that by (simp add: handled_to_def)
  have none: "filter (\<lambda>e. h < eventLedger e \<and> eventLedger e \<le> h) (of_contract c E) = []" by (simp add: filter_empty_conv)
  have range: "filter ?P (of_contract c E) = filter (\<lambda>e. h < eventLedger e \<and> eventLedger e \<le> head) (of_contract c E)"
    using at by (intro filter_cong) (auto simp: not_less[symmetric])
  show ?thesis
  proof (cases "new = filter ?P (of_contract c E)")
    case True
    have hle: "h \<le> head" using assms(5) Poll by simp
    have "eventLedger e < cursor_of s r' c \<longleftrightarrow> eventLedger e \<le> head" if e: "e \<in> set (of_contract c E)" for e
    proof
      assume "eventLedger e < cursor_of s r' c"
      then have "eventLedger e < cursor_of s r c \<or> (\<exists>e' \<in> set new. eventLedger e \<le> eventLedger e')" using new(2) by blast
      then show "eventLedger e \<le> head" using at[OF e] hle True by auto
    next
      assume le: "eventLedger e \<le> head"
      have "eventLedger e < cursor_of s r c \<or> e \<in> set new" using le e True by auto
      then show "eventLedger e < cursor_of s r' c" using new(2) by blast
    qed
    then have "handled_to c subs s E head r'" using new(5) by (simp add: handled_to_def)
    then show ?thesis using new(1) True range Poll hle by (intro exI[of _ head]) simp
  next
    case False
    then have "new = []" using new(3) by blast
    then have "handled_to c subs s E h r'" unfolding handled_to_def new(2)[rule_format] using new(5) at by simp
    moreover have "\<not> (\<forall>s f. server s f \<noteq> None)" using new(4) False by blast
    ultimately show ?thesis
    proof (intro exI[of _ h] conjI allI impI)
      fix server' head' assume "op = Poll server' head'" "\<forall>s f. server' s f \<noteq> None"
      then show "h = head'" using Poll \<open>\<not> (\<forall>s f. server s f \<noteq> None)\<close> by (metis router_op.inject(3))
    qed (use new(1) \<open>new = []\<close> none in \<open>simp_all add: handler_calls_def\<close>)
  qed
qed (use assms in \<open>auto simp: handled_to_def subscribe_def unsubscribe_def cursor_of_def calls_of_def
      handler_calls_def Let_def not_le filter_empty_conv intro!: exI[of _ h] split: if_splits\<close>)

lemma handled_run:
  assumes "handled_to c subs s E h r" "\<forall>op \<in> set ops. op_ok c E op" "c \<noteq> ''''" "\<forall>e \<in> set E. 0 < eventLedger e"
    "sorted (map eventLedger E)" "sorted (h # heads ops)" "router_run ok s ops r = (cs, r')"
  shows "\<exists>h' \<in> set (h # heads ops). h \<le> h' \<and> handled_to c subs s E h' r'
    \<and> calls_of c cs = handler_calls subs (filter (\<lambda>e. h < eventLedger e \<and> eventLedger e \<le> h') (of_contract c E))"
  using assms(1,2,6,7)
proof (induction ops arbitrary: h r cs)
  case (Cons op ops)
  obtain cs1 r1 where st: "router_step ok s op r = (cs1, r1)" by (cases "router_step ok s op r")
  obtain cs2 where run: "router_run ok s ops r1 = (cs2, r')" "cs = cs1 @ cs2"
    using Cons.prems(4) st by (auto split: prod.splits)
  have hd: "heads (op # ops) = heads [op] @ heads ops" by (cases op) auto
  have "op_ok c E op" "\<forall>l \<in> set (heads [op]). h \<le> l" using Cons.prems(2,3) hd by (auto simp: sorted_append)
  from handled_step[OF Cons.prems(1) this(1) assms(3,4) this(2) st] obtain h1 where h1: "handled_to c subs s E h1 r1" "h \<le> h1"
    "h1 \<in> set (h # heads [op])" "calls_of c cs1 = handler_calls subs (filter (\<lambda>e. h < eventLedger e \<and> eventLedger e \<le> h1) (of_contract c E))"
    by auto
  have "sorted (h1 # heads ops)" using Cons.prems(3) h1(3) hd by (auto simp: sorted_append)
  from Cons.IH[OF h1(1) _ this run(1)] have ex: "\<exists>h' \<in> set (h1 # heads ops). h1 \<le> h' \<and> handled_to c subs s E h' r'
      \<and> calls_of c cs2 = handler_calls subs (filter (\<lambda>e. h1 < eventLedger e \<and> eventLedger e \<le> h') (of_contract c E))"
    using Cons.prems(2) by simp
  then obtain h2 where h2: "h2 \<in> set (h1 # heads ops)" "h1 \<le> h2" "handled_to c subs s E h2 r'"
    "calls_of c cs2 = handler_calls subs (filter (\<lambda>e. h1 < eventLedger e \<and> eventLedger e \<le> h2) (of_contract c E))"
    by blast
  have srt: "sorted (map eventLedger (of_contract c E))" using assms(5) by (simp add: of_contract_def sorted_filter)
  have "calls_of c cs = handler_calls subs (filter (\<lambda>e. h < eventLedger e \<and> eventLedger e \<le> h2) (of_contract c E))"
    unfolding run(2) calls_of_append h1(4) h2(4) handler_calls_append[symmetric] filter_ranges[OF srt h1(2) h2(2)] ..
  moreover have "h2 \<in> set (h # heads (op # ops))" using h2(1) h1(3) hd by auto
  ultimately show ?case using h2(2,3) h1(2) order_trans[OF h1(2) h2(2)] by blast
qed (auto simp: calls_of_def handler_calls_def not_le)

lemma router_run_append:
  "router_run ok s (xs @ ys) r = (case router_run ok s xs r of (cs, r1) \<Rightarrow> (case router_run ok s ys r1 of (cs', r2) \<Rightarrow> (cs @ cs', r2)))"
  by (induction ok s xs r rule: router_run.induct) (auto split: prod.splits)


definition transfer_event :: "string \<Rightarrow> int \<Rightarrow> soroban_event" where
  "transfer_event i l = \<lparr>ev_id = i, ev_contractId = Some ''CPOOL'', ev_topic = JArray [JString ''transfer''], ev_ledger = Some l,
     ev_ledgerSequence = None\<rparr>"

definition pool_router :: "(nat, unit) ContractRouter" where
  "pool_router = newContractRouter\<lparr>subscriptions := [(''CPOOL'', [\<lparr>sub_topic = ''transfer'', sub_handler = 1\<rparr>])]\<rparr>"

definition full_server :: "soroban_event list \<Rightarrow> int \<Rightarrow> event_server" where
  "full_server E head start filters =
     Some (filter (\<lambda>e. start \<le> eventLedger e \<and> eventLedger e \<le> head \<and> eventContractId e \<in> set (concat filters)) E)"

lemma full_answers: "answers E head (full_server E head)" "answers E head (\<lambda>s f. None)"
  by (simp_all add: answers_def full_server_def)


section \<open>Where events and timers are lost\<close>

text \<open>
  A page that ends inside a ledger moves the cursor behind the whole ledger: with one event per page the
  second event of a ledger is never routed.
\<close>

definition page_server :: "soroban_event list \<Rightarrow> int \<Rightarrow> nat \<Rightarrow> event_server" where
  "page_server E head limit start filters = map_option (take limit) (full_server E head start filters)"

lemma cut_ledger_is_skipped:
  "let E = [transfer_event ''a'' 3, transfer_event ''b'' 3] in
   fst (router_run (\<lambda>h e. True) 1 [Poll (page_server E 9 1) 9, Poll (page_server E 9 1) 9, Poll (page_server E 9 1) 9] pool_router)
   = [(1, transfer_event ''a'' 3)]"
  by code_simp

text \<open>Two calls of \<open>startPolling\<close> that overlap both pass the guard: one of the two timers cannot be stopped.\<close>

lemma overlapping_starts_leak_timer:
  assumes "start_guard r" "running_timers r = []"
  shows "running_timers (stopPolling (set_poll_timer (set_poll_timer r))) = [1]"
  using assms by (simp add: stopPolling_def set_poll_timer_def Let_def)

end
