(* ===== verification/Multisig.thy ===== *)
theory Multisig
  imports Prelude Complex_Main
begin

text \<open>
  Collected signatures of multi-signature transactions (\<open>countMultisigSignatures\<close> in \<open>apps/api/src/lib/stellar.ts\<close>) and the
  tracker of proposals (\<open>apps/api/src/services/multisig-alerts.ts\<close>). Parsing of the envelope, key pairs, hints and the
  verification of a signature are the Stellar SDK's and arguments here. Instants are milliseconds, weights
  integers, percentages exact rationals; message texts are left out. Every proposal owns its list of signers.
\<close>

section \<open>Signatures of an envelope\<close>

record MultisigSigner =
  ms_key :: string
  ms_weight :: int

record MultisigThresholds =
  mt_low :: int
  mt_medium :: int
  mt_high :: int

record MultisigSignatureProgress =
  pr_requiredThreshold :: int
  pr_collectedWeight :: int
  pr_signedBy :: "string list"
  pr_remainingSigners :: "MultisigSigner list"
  pr_thresholdMet :: bool
  pr_totalSigners :: nat
  pr_validSignatureCount :: nat
  pr_invalidSignatureCount :: nat

text \<open>
  The functions of the SDK: the key pair of a public key (nothing if it is not an ed25519 key), its hint, and
  the verification of a signature of the transaction.
\<close>

record ('k, 'h, 's) sdk_keys =
  fromPublicKey :: "string \<Rightarrow> 'k option"
  signatureHint :: "'k \<Rightarrow> 'h"
  verify :: "'k \<Rightarrow> 's \<Rightarrow> bool"

definition signs :: "('k, 'h, 's) sdk_keys \<Rightarrow> 'h \<times> 's \<Rightarrow> string \<Rightarrow> bool" where
  "signs sdk sig key =
     (case fromPublicKey sdk key of
        None \<Rightarrow> False
      | Some keypair \<Rightarrow> signatureHint sdk keypair = fst sig \<and> verify sdk keypair (snd sig))"

fun match_signer :: "('k, 'h, 's) sdk_keys \<Rightarrow> 'h \<times> 's \<Rightarrow> string jsset \<Rightarrow> MultisigSigner list \<Rightarrow> string option" where
  "match_signer sdk sig signedBy [] = None"
| "match_signer sdk sig signedBy (s # ss) =
     (if ms_key s \<in> set signedBy then match_signer sdk sig signedBy ss
      else if signs sdk sig (ms_key s) then Some (ms_key s)
      else match_signer sdk sig signedBy ss)"

fun count_signatures ::
  "('k, 'h, 's) sdk_keys \<Rightarrow> MultisigSigner list \<Rightarrow> ('h \<times> 's) list \<Rightarrow> string jsset \<Rightarrow> nat \<Rightarrow> string jsset \<times> nat" where
  "count_signatures sdk signers [] signedBy invalid = (signedBy, invalid)"
| "count_signatures sdk signers (sig # sigs) signedBy invalid =
     (case match_signer sdk sig signedBy signers of
        Some key \<Rightarrow> count_signatures sdk signers sigs (set_add key signedBy) invalid
      | None \<Rightarrow> count_signatures sdk signers sigs signedBy (invalid + 1))"

definition required_threshold :: "MultisigThresholds \<Rightarrow> string \<Rightarrow> int" where
  "required_threshold th level =
     (if level = ''low'' then mt_low th else if level = ''high'' then mt_high th else mt_medium th)"

text \<open>The parsed envelope is the list of its signatures, or the error of the SDK.\<close>

definition countMultisigSignatures ::
  "('k, 'h, 's) sdk_keys \<Rightarrow> 'e + ('h \<times> 's) list \<Rightarrow> MultisigSigner list \<Rightarrow> MultisigThresholds \<Rightarrow> string option \<Rightarrow>
     'e + MultisigSignatureProgress" where
  "countMultisigSignatures sdk parsed signers thresholds thresholdLevel =
     (case parsed of
        Inl err \<Rightarrow> Inl err
      | Inr signatures \<Rightarrow>
          (let required = required_threshold thresholds (case thresholdLevel of Some l \<Rightarrow> l | None \<Rightarrow> ''medium'') in
           case count_signatures sdk signers signatures [] 0 of
             (signedBy, invalid) \<Rightarrow>
               let collected = sum_list (map ms_weight (filter (\<lambda>s. ms_key s \<in> set signedBy) signers)) in
               Inr \<lparr>pr_requiredThreshold = required, pr_collectedWeight = collected, pr_signedBy = signedBy,
                 pr_remainingSigners = filter (\<lambda>s. ms_key s \<notin> set signedBy) signers,
                 pr_thresholdMet = (collected \<ge> required), pr_totalSigners = length signers,
                 pr_validSignatureCount = length signedBy, pr_invalidSignatureCount = invalid\<rparr>))"

section \<open>The tracker of proposals\<close>

record proposal_signer =
  ps_address :: string
  ps_weight :: int
  ps_signed :: bool
  ps_signedAt :: "int option"

record MultisigProposal =
  proposalId :: string
  accountAddress :: string
  p_requiredThreshold :: int
  currentWeight :: int
  p_signers :: "proposal_signer list"
  validBeforeLedger :: "int option"
  validBeforeTime :: "int option"
  sequenceNumber :: int
  p_createdAt :: int

datatype AlertLevel = CRITICAL | WARNING | INFO | OK

record MultisigAlertStatus =
  st_proposalId :: string
  st_accountAddress :: string
  isExpired :: bool
  timeRemainingSeconds :: "int option"
  ledgersRemaining :: "int option"
  quorumPercentage :: rat
  isQuorumMet :: bool
  isUrgent :: bool
  alertLevel :: AlertLevel

type_synonym tracker = "(string, MultisigProposal) jsmap"

definition signed_weight :: "proposal_signer list \<Rightarrow> int" where
  "signed_weight ss = sum_list (map ps_weight (filter ps_signed ss))"

definition registerProposal :: "MultisigProposal \<Rightarrow> tracker \<Rightarrow> tracker" where
  "registerProposal p m = AList.update (proposalId p) (p\<lparr>currentWeight := signed_weight (p_signers p)\<rparr>) m"

definition getProposal :: "string \<Rightarrow> tracker \<Rightarrow> MultisigProposal option" where
  "getProposal i m = map_of m i"

text \<open>The first signer with the address signs with the given weight; a new one is added.\<close>

fun sign_first :: "int \<Rightarrow> string \<Rightarrow> int \<Rightarrow> proposal_signer list \<Rightarrow> proposal_signer list" where
  "sign_first now addr wt [] = [\<lparr>ps_address = addr, ps_weight = wt, ps_signed = True, ps_signedAt = Some now\<rparr>]"
| "sign_first now addr wt (s # ss) =
     (if toLowerCase (ps_address s) = toLowerCase addr
      then s\<lparr>ps_signed := True, ps_weight := wt, ps_signedAt := Some now\<rparr> # ss
      else s # sign_first now addr wt ss)"

definition processSignerUpdate :: "int \<Rightarrow> string \<Rightarrow> string \<Rightarrow> int \<Rightarrow> tracker \<Rightarrow> bool \<times> tracker" where
  "processSignerUpdate now i signerAddress wt m =
     (case map_of m i of
        None \<Rightarrow> (False, m)
      | Some p \<Rightarrow>
          (let ss = sign_first now signerAddress wt (p_signers p) in
           (True, AList.update i (p\<lparr>p_signers := ss, currentWeight := signed_weight ss\<rparr>) m)))"

text \<open>\<open>toFixed(1)\<close>: the nearest tenth, half away from zero.\<close>

definition to_fixed1 :: "rat \<Rightarrow> rat" where
  "to_fixed1 x = (if x < 0 then - (of_int \<lfloor>- x * 10 + 1 / 2\<rfloor> / 10) else of_int \<lfloor>x * 10 + 1 / 2\<rfloor> / 10)"

definition evaluateProposal :: "string \<Rightarrow> int \<Rightarrow> int \<Rightarrow> tracker \<Rightarrow> MultisigAlertStatus option" where
  "evaluateProposal i currentLedgerSeq currentTimeMs m =
     (case map_of m i of
        None \<Rightarrow> None
      | Some p \<Rightarrow>
          (let met = currentWeight p \<ge> p_requiredThreshold p;
               time = map_option (\<lambda>t. max 0 ((t - currentTimeMs) div 1000)) (validBeforeTime p);
               ledgers = (case validBeforeLedger p of
                 Some l \<Rightarrow> if l = 0 then None else Some (max 0 (l - currentLedgerSeq)) | None \<Rightarrow> None);
               expired = (time = Some 0 \<or> ledgers = Some 0);
               urgent = ((case time of Some s \<Rightarrow> s < 24 * 3600 | None \<Rightarrow> False)
                 \<or> (case ledgers of Some l \<Rightarrow> l < 1000 | None \<Rightarrow> False))
           in Some \<lparr>st_proposalId = i, st_accountAddress = accountAddress p, isExpired = expired,
             timeRemainingSeconds = time, ledgersRemaining = ledgers,
             quorumPercentage = to_fixed1 (min 100 (of_int (currentWeight p) / of_int (max 1 (p_requiredThreshold p)) * 100)),
             isQuorumMet = met, isUrgent = (\<not> expired \<and> \<not> met \<and> urgent),
             alertLevel = (if expired then CRITICAL else if \<not> met then (if urgent then WARNING else INFO) else OK)\<rparr>))"

definition getUrgentProposals :: "int \<Rightarrow> int \<Rightarrow> tracker \<Rightarrow> MultisigAlertStatus list" where
  "getUrgentProposals currentLedgerSeq currentTimeMs m =
     List.map_filter (\<lambda>(i, p).
       case evaluateProposal i currentLedgerSeq currentTimeMs m of
         Some st \<Rightarrow> if isUrgent st \<or> isExpired st \<or> alertLevel st = CRITICAL then Some st else None
       | None \<Rightarrow> None) m"

section \<open>The collected weight\<close>

text \<open>A signature proves at most one of the keys, as no signature verifies under two of them.\<close>

definition one_key_each :: "('k, 'h, 's) sdk_keys \<Rightarrow> ('h \<times> 's) list \<Rightarrow> MultisigSigner list \<Rightarrow> bool" where
  "one_key_each sdk sigs signers \<longleftrightarrow> (\<forall>sig \<in> set sigs. \<forall>k \<in> ms_key ` set signers. \<forall>k' \<in> ms_key ` set signers.
     signs sdk sig k \<and> signs sdk sig k' \<longrightarrow> k = k')"

lemma match_signer_Some:
  "match_signer sdk sig signedBy ss = Some k \<Longrightarrow> k \<in> ms_key ` set ss \<and> k \<notin> set signedBy \<and> signs sdk sig k"
  by (induction ss) (auto split: if_splits)

lemma match_signer_None:
  "match_signer sdk sig signedBy ss = None \<longleftrightarrow> (\<forall>s \<in> set ss. signs sdk sig (ms_key s) \<longrightarrow> ms_key s \<in> set signedBy)"
  by (induction ss) auto

text \<open>The keys that have signed, whatever the order and repetition of the signatures.\<close>

lemma count_signatures_set:
  assumes "one_key_each sdk sigs signers" "count_signatures sdk signers sigs signedBy n = (signedBy', n')"
  shows "set signedBy' = set signedBy \<union> {k \<in> ms_key ` set signers. \<exists>sig \<in> set sigs. signs sdk sig k}"
  using assms
proof (induction sigs arbitrary: signedBy n)
  case (Cons sig sigs)
  have one: "one_key_each sdk sigs signers" using Cons.prems(1) by (simp add: one_key_each_def)
  show ?case
  proof (cases "match_signer sdk sig signedBy signers")
    case None
    then have "count_signatures sdk signers sigs signedBy (n + 1) = (signedBy', n')" using Cons.prems(2) by simp
    from Cons.IH[OF one this] show ?thesis using None match_signer_None[of sdk sig signedBy signers] by auto
  next
    case (Some k)
    define K where "K = ms_key ` set signers"
    have k: "k \<in> K" "signs sdk sig k" using match_signer_Some[OF Some] by (simp_all add: K_def)
    have only: "\<forall>k' \<in> K. signs sdk sig k' \<longrightarrow> k' = k"
      using Cons.prems(1) k unfolding one_key_each_def K_def[symmetric] by simp
    have "count_signatures sdk signers sigs (set_add k signedBy) n = (signedBy', n')" using Cons.prems(2) Some by simp
    from Cons.IH[OF one this] have "set signedBy' = insert k (set signedBy) \<union> {k \<in> K. \<exists>sig \<in> set sigs. signs sdk sig k}"
      by (simp add: K_def)
    also have "\<dots> = set signedBy \<union> {k \<in> K. \<exists>sig' \<in> set (sig # sigs). signs sdk sig' k}"
    proof -
      have "{x \<in> K. \<exists>g \<in> set (sig # sigs). signs sdk g x} = {x \<in> K. signs sdk sig x} \<union> {x \<in> K. \<exists>g \<in> set sigs. signs sdk g x}"
        by (simp add: Collect_disj_eq conj_disj_distribL)
      moreover have "{x \<in> K. signs sdk sig x} = {k}" using k only by blast
      ultimately show ?thesis by (simp only: Un_insert_left Un_insert_right Un_empty_left Un_empty_right)
    qed
    finally show ?thesis unfolding K_def .
  qed
qed simp

lemma count_signatures_distinct:
  "count_signatures sdk signers sigs signedBy n = (signedBy', n') \<Longrightarrow> distinct signedBy \<Longrightarrow>
   distinct signedBy' \<and> length signedBy' + n' = length signedBy + n + length sigs"
  by (induction sigs arbitrary: signedBy n) (auto simp: set_add_def dest: match_signer_Some split: option.splits)

definition has_signed :: "('k, 'h, 's) sdk_keys \<Rightarrow> ('h \<times> 's) list \<Rightarrow> MultisigSigner \<Rightarrow> bool" where
  "has_signed sdk sigs s \<longleftrightarrow> (\<exists>sig \<in> set sigs. signs sdk sig (ms_key s))"

text \<open>C14. The collected weight is exact: it is the weight of the signers whose key verifies some signature of the envelope,
  each counted once however often it signed, and the threshold is met exactly when that weight reaches it.
  The other signers remain, and every signature of the envelope counts as valid or invalid.\<close>

theorem collected_weight_is_verified_weight:
  assumes "one_key_each sdk sigs signers" "countMultisigSignatures sdk (Inr sigs :: 'e + _) signers th level = Inr p"
  shows "pr_collectedWeight p = sum_list (map ms_weight (filter (has_signed sdk sigs) signers))
    \<and> (pr_thresholdMet p \<longleftrightarrow> pr_requiredThreshold p \<le> sum_list (map ms_weight (filter (has_signed sdk sigs) signers)))
    \<and> pr_remainingSigners p = filter (\<lambda>s. \<not> has_signed sdk sigs s) signers
    \<and> distinct (pr_signedBy p) \<and> set (pr_signedBy p) = ms_key ` set (filter (has_signed sdk sigs) signers)
    \<and> pr_validSignatureCount p + pr_invalidSignatureCount p = length sigs"
proof -
  obtain ks inv where c: "count_signatures sdk signers sigs [] 0 = (ks, inv)" by (cases "count_signatures sdk signers sigs [] 0")
  have s: "set ks = {k \<in> ms_key ` set signers. \<exists>sig \<in> set sigs. signs sdk sig k}" using count_signatures_set[OF assms(1) c] by simp
  then have mem: "ms_key x \<in> set ks \<longleftrightarrow> has_signed sdk sigs x" if "x \<in> set signers" for x using that by (auto simp: has_signed_def)
  have "filter (\<lambda>x. ms_key x \<in> set ks) signers = filter (has_signed sdk sigs) signers"
    "filter (\<lambda>x. ms_key x \<notin> set ks) signers = filter (\<lambda>x. \<not> has_signed sdk sigs x) signers"
    using mem by (auto intro!: filter_cong)
  moreover have "set ks = ms_key ` set (filter (has_signed sdk sigs) signers)" using s by (auto simp: has_signed_def)
  ultimately show ?thesis using assms(2) c count_signatures_distinct[OF c]
    by (auto simp: countMultisigSignatures_def Let_def)
qed

text \<open>An SDK whose signatures name their key.\<close>

definition naming_sdk :: "(string, char, string) sdk_keys" where
  "naming_sdk = \<lparr>fromPublicKey = (\<lambda>k. if k = '''' then None else Some k), signatureHint = last, verify = (\<lambda>k s. k = s)\<rparr>"

definition two_signers :: "MultisigSigner list" where
  "two_signers = [\<lparr>ms_key = ''GA'', ms_weight = 2\<rparr>, \<lparr>ms_key = ''GB'', ms_weight = 1\<rparr>]"

definition medium_three :: MultisigThresholds where
  "medium_three = \<lparr>mt_low = 1, mt_medium = 3, mt_high = 3\<rparr>"

lemma count_succeeds:
  "\<exists>p. countMultisigSignatures sdk (Inr sigs :: 'e + _) signers th level = Inr p
     \<and> pr_requiredThreshold p = required_threshold th (case level of Some l \<Rightarrow> l | None \<Rightarrow> ''medium'')"
  by (cases "count_signatures sdk signers sigs [] 0") (simp add: countMultisigSignatures_def Let_def)

theorem collected_weight_is_verified_weight_witness:
  "\<exists>p. countMultisigSignatures naming_sdk (Inr [(CHR ''A'', ''GA''), (CHR ''B'', ''GB''), (CHR ''A'', ''GA'')] :: unit + _)
     two_signers medium_three None = Inr p \<and> pr_collectedWeight p = 3 \<and> pr_thresholdMet p"
proof -
  let ?sigs = "[(CHR ''A'', ''GA''), (CHR ''B'', ''GB''), (CHR ''A'', ''GA'')]"
  obtain p where p: "countMultisigSignatures naming_sdk (Inr ?sigs :: unit + _) two_signers medium_three None = Inr p"
    and req: "pr_requiredThreshold p = 3"
    using count_succeeds[of naming_sdk ?sigs two_signers medium_three None, where 'e = unit]
    by (auto simp: medium_three_def required_threshold_def simp del: count_signatures.simps)
  have "one_key_each naming_sdk ?sigs two_signers"
    by (auto simp: one_key_each_def naming_sdk_def two_signers_def signs_def)
  from collected_weight_is_verified_weight [OF this p]
  have "pr_collectedWeight p = 3" "pr_thresholdMet p \<longleftrightarrow> pr_requiredThreshold p \<le> 3"
    by (simp_all add: has_signed_def naming_sdk_def two_signers_def signs_def)
  then show ?thesis using p req by simp
qed

text \<open>A signature that occurs twice is counted as one that no signer could have made.\<close>

lemma repeated_signature_counts_invalid:
  assumes "signs sdk sig (ms_key s)"
  shows "\<exists>p. countMultisigSignatures sdk (Inr [sig, sig] :: 'e + _) [s] th level = Inr p \<and> pr_invalidSignatureCount p = 1"
  using assms by (simp add: countMultisigSignatures_def Let_def set_add_def)

section \<open>Proposals\<close>

datatype tracker_op = Register MultisigProposal | Update int string string int

fun tracker_step :: "tracker \<Rightarrow> tracker_op \<Rightarrow> tracker" where
  "tracker_step m (Register p) = registerProposal p m"
| "tracker_step m (Update now i addr wt) = snd (processSignerUpdate now i addr wt m)"

definition weights_current :: "tracker \<Rightarrow> bool" where
  "weights_current m \<longleftrightarrow> (\<forall>i p. map_of m i = Some p \<longrightarrow> currentWeight p = signed_weight (p_signers p))"

lemma weights_current_step: "weights_current m \<Longrightarrow> weights_current (tracker_step m x)"
  by (cases x) (auto simp: weights_current_def registerProposal_def processSignerUpdate_def Let_def split: option.splits if_splits)

interpretation proposals: inv_machine tracker_step weights_current
  by unfold_locales (rule weights_current_step)

definition deadline_within :: "int \<Rightarrow> int \<Rightarrow> int \<Rightarrow> int \<Rightarrow> MultisigProposal \<Rightarrow> bool" where
  "deadline_within ms ledgers now seq p \<longleftrightarrow> (\<exists>t. validBeforeTime p = Some t \<and> t - now < ms)
     \<or> (\<exists>l. validBeforeLedger p = Some l \<and> l \<noteq> 0 \<and> l - seq < ledgers)"

lemma seconds_less: "x div 1000 < c \<longleftrightarrow> x < c * 1000" for x c :: int
proof -
  have "x = x div 1000 * 1000 + x mod 1000" "0 \<le> x mod 1000" "x mod 1000 < 1000" by simp_all
  then show ?thesis by linarith
qed

lemma evaluate_alarm:
  assumes "map_of m i = Some p"
  shows "\<exists>st. evaluateProposal i seq now m = Some st \<and> st_proposalId st = i
    \<and> (isExpired st \<longleftrightarrow> deadline_within 1000 1 now seq p) \<and> (alertLevel st = CRITICAL \<longleftrightarrow> isExpired st)
    \<and> (isUrgent st \<longleftrightarrow> \<not> isExpired st \<and> currentWeight p < p_requiredThreshold p \<and> deadline_within 86400000 1000 now seq p)"
proof -
  let ?time = "map_option (\<lambda>t. max 0 ((t - now) div 1000)) (validBeforeTime p)"
  let ?ledgers = "case validBeforeLedger p of Some l \<Rightarrow> if l = 0 then None else Some (max 0 (l - seq)) | None \<Rightarrow> None"
  have l: "max 0 y = 0 \<longleftrightarrow> y < 1" "max 0 y < 1000 \<longleftrightarrow> y < 1000" "max 0 y < 24 * 3600 \<longleftrightarrow> y < 86400" for y :: int
    by auto
  have t: "max 0 (x div 1000) = 0 \<longleftrightarrow> x < 1000" "max 0 (x div 1000) < 24 * 3600 \<longleftrightarrow> x < 86400000" for x :: int
    unfolding l seconds_less by simp_all
  have o: "map_option (\<lambda>t. f (t - now)) v = Some 0 \<longleftrightarrow> (\<exists>t. v = Some t \<and> f (t - now) = 0)"
    "(case map_option (\<lambda>t. f (t - now)) v of Some s \<Rightarrow> s < c | None \<Rightarrow> False) \<longleftrightarrow> (\<exists>t. v = Some t \<and> f (t - now) < c)"
    for f :: "int \<Rightarrow> int" and v c by (cases v; simp)+
  have "?time = Some 0 \<longleftrightarrow> (\<exists>t. validBeforeTime p = Some t \<and> t - now < 1000)"
    "(case ?time of Some s \<Rightarrow> s < 24 * 3600 | None \<Rightarrow> False) \<longleftrightarrow> (\<exists>t. validBeforeTime p = Some t \<and> t - now < 86400000)"
    by (simp_all only: o[where f = "\<lambda>x. max 0 (x div 1000)"] t)
  moreover have "?ledgers = Some 0 \<longleftrightarrow> (\<exists>l. validBeforeLedger p = Some l \<and> l \<noteq> 0 \<and> l - seq < 1)"
    "(case ?ledgers of Some l \<Rightarrow> l < 1000 | None \<Rightarrow> False) \<longleftrightarrow> (\<exists>l. validBeforeLedger p = Some l \<and> l \<noteq> 0 \<and> l - seq < 1000)"
    by (cases "validBeforeLedger p"; simp add: l)+
  ultimately have e: "?time = Some 0 \<or> ?ledgers = Some 0 \<longleftrightarrow> deadline_within 1000 1 now seq p"
    "(case ?time of Some s \<Rightarrow> s < 24 * 3600 | None \<Rightarrow> False) \<or> (case ?ledgers of Some l \<Rightarrow> l < 1000 | None \<Rightarrow> False)
      \<longleftrightarrow> deadline_within 86400000 1000 now seq p"
    unfolding deadline_within_def by simp_all
  show ?thesis unfolding evaluateProposal_def assms option.case Let_def e by (simp add: not_le)
qed

lemma evaluate_known:
  assumes "evaluateProposal i seq now m = Some st"
  shows "st_proposalId st = i \<and> (\<exists>p. (i, p) \<in> set m)"
proof -
  obtain p where "map_of m i = Some p" using assms by (cases "map_of m i") (simp_all add: evaluateProposal_def)
  then show ?thesis using evaluate_alarm[of m i p seq now] assms map_of_SomeD[of m i p] by auto
qed

text \<open>Proposals that need attention are listed exactly: after any registrations and signatures, a proposal is listed
  if and only if it has less than a second or no ledger left, or its signers have not reached the threshold
  and less than a day or a thousand ledgers are left.\<close>

theorem urgent_proposals_exact:
  assumes "m = foldl tracker_step [] ops"
  shows "(\<exists>st \<in> set (getUrgentProposals seq now m). st_proposalId st = i) \<longleftrightarrow>
    (\<exists>p. getProposal i m = Some p \<and> (deadline_within 1000 1 now seq p
       \<or> signed_weight (p_signers p) < p_requiredThreshold p \<and> deadline_within 86400000 1000 now seq p))"
proof -
  have inv: "weights_current m" using proposals.run_inv[of "[]" ops] assms by (simp add: weights_current_def)
  have ev: "(\<exists>st. evaluateProposal i seq now m = Some st \<and> st_proposalId st = i \<and> (isUrgent st \<or> isExpired st \<or> alertLevel st = CRITICAL)) \<longleftrightarrow>
      (\<exists>p. map_of m i = Some p \<and> (deadline_within 1000 1 now seq p
        \<or> signed_weight (p_signers p) < p_requiredThreshold p \<and> deadline_within 86400000 1000 now seq p))" for i
  proof (cases "map_of m i")
    case (Some p)
    then have "currentWeight p = signed_weight (p_signers p)" using inv by (simp add: weights_current_def)
    then show ?thesis using evaluate_alarm[OF Some, of seq now] Some by auto
  qed (simp add: evaluateProposal_def)
  have "(\<exists>st \<in> set (getUrgentProposals seq now m). st_proposalId st = i) \<longleftrightarrow>
      (\<exists>st. evaluateProposal i seq now m = Some st \<and> st_proposalId st = i \<and> (isUrgent st \<or> isExpired st \<or> alertLevel st = CRITICAL))"
    (is "_ \<longleftrightarrow> ?alarm")
  proof
    assume ?alarm
    then obtain st where st: "evaluateProposal i seq now m = Some st" "isUrgent st \<or> isExpired st \<or> alertLevel st = CRITICAL" by blast
    with evaluate_known obtain p where "(i, p) \<in> set m" "st_proposalId st = i" by blast
    then show "\<exists>st \<in> set (getUrgentProposals seq now m). st_proposalId st = i"
      using st by (intro bexI[of _ st]) (auto simp: getUrgentProposals_def mem_map_filter intro!: bexI[of _ "(i, p)"])
  next
    assume "\<exists>st \<in> set (getUrgentProposals seq now m). st_proposalId st = i"
    then obtain st j where st: "evaluateProposal j seq now m = Some st" "isUrgent st \<or> isExpired st \<or> alertLevel st = CRITICAL" "st_proposalId st = i"
      by (auto simp: getUrgentProposals_def mem_map_filter split: option.splits if_splits)
    then show ?alarm using evaluate_known[OF st(1)] by blast
  qed
  then show ?thesis using ev[of i] by (simp add: getProposal_def)
qed

definition late_proposal :: MultisigProposal where
  "late_proposal = \<lparr>proposalId = ''p'', accountAddress = ''G'', p_requiredThreshold = 2, currentWeight = 0,
     p_signers = [\<lparr>ps_address = ''GA'', ps_weight = 2, ps_signed = True, ps_signedAt = None\<rparr>], validBeforeLedger = None,
     validBeforeTime = Some 500, sequenceNumber = 1, p_createdAt = 0\<rparr>"

theorem urgent_proposals_exact_witness:
  "\<exists>st \<in> set (getUrgentProposals 0 0 (tracker_step [] (Register late_proposal))). st_proposalId st = ''p''"
  using urgent_proposals_exact [of "tracker_step [] (Register late_proposal)" "[Register late_proposal]" 0 0 "''p''"]
  by (simp add: registerProposal_def late_proposal_def getProposal_def deadline_within_def)

text \<open>A proposal that has reached its threshold, with half a second left, is reported as expired before reaching it.\<close>

lemma met_proposal_reported_expired:
  "\<exists>st. evaluateProposal ''p'' 0 0 (registerProposal late_proposal []) = Some st \<and> isQuorumMet st \<and> isExpired st \<and> alertLevel st = CRITICAL"
  by (simp add: evaluateProposal_def registerProposal_def late_proposal_def signed_weight_def Let_def)

end
