(* ===== verification/SignerInactivity.thy ===== *)
theory SignerInactivity
  imports JsValues Multisig
begin

text \<open>
  The watch over inactive signers of multi-signature treasuries (\<open>apps/api/src/services/signerInactivityWatcher.ts\<close> and
  \<open>apps/api/src/workers/multisig-inactivity-watcher.worker.ts\<close>). Instants are milliseconds, weights integers and factors
  exact rationals. The account of a treasury as Horizon has it, the rows of the database, the outcome of the
  notifier and the clock are arguments. Message texts are left out.
\<close>

section \<open>Assessment of a signer\<close>

datatype SignerStatus = ACTIVE | STALE | INACTIVE | ABANDONED

datatype QuorumRisk = OK | WARNING | CRITICAL

record SignerActivity =
  sa_key :: string
  sa_weight :: int
  lastActiveAt :: "int option"

record TreasurySignerSnapshot =
  sn_treasuryId :: string
  sn_publicKey :: string
  sn_label :: "string option"
  sn_thresholds :: MultisigThresholds
  sn_thresholdLevel :: string
  sn_signers :: "SignerActivity list"

record SignerAssessment =
  as_key :: string
  as_weight :: int
  as_inactiveDays :: "int option"
  as_status :: SignerStatus
  as_decayedWeight :: rat

record TreasuryInactivityAssessment =
  ta_treasuryId :: string
  ta_publicKey :: string
  ta_label :: "string option"
  ta_requiredThreshold :: int
  ta_thresholdLevel :: string
  ta_totalWeight :: int
  ta_activeWeight :: int
  ta_reachableWeight :: int
  ta_decayedWeight :: rat
  ta_signers :: "SignerAssessment list"
  ta_atRiskSigners :: "SignerAssessment list"
  ta_risk :: QuorumRisk

definition MS_PER_DAY :: int where "MS_PER_DAY = 24 * 60 * 60 * 1000"

record SignerInactivityWatcher =
  staleAfterDays :: int
  inactiveAfterDays :: int
  abandonedAfterDays :: int

definition newSignerInactivityWatcher :: "int option \<Rightarrow> int option \<Rightarrow> int option \<Rightarrow> SignerInactivityWatcher" where
  "newSignerInactivityWatcher stale inactive abandoned =
     \<lparr>staleAfterDays = (case stale of Some d \<Rightarrow> d | None \<Rightarrow> 30),
      inactiveAfterDays = (case inactive of Some d \<Rightarrow> d | None \<Rightarrow> 90),
      abandonedAfterDays = (case abandoned of Some d \<Rightarrow> d | None \<Rightarrow> 180)\<rparr>"

definition inactiveDays :: "int option \<Rightarrow> int \<Rightarrow> int option" where
  "inactiveDays lastAt now = (case lastAt of None \<Rightarrow> None | Some t \<Rightarrow> Some (max 0 ((now - t) div MS_PER_DAY)))"

definition decayFactor :: "SignerInactivityWatcher \<Rightarrow> int option \<Rightarrow> rat" where
  "decayFactor w days =
     (case days of
        None \<Rightarrow> 0
      | Some d \<Rightarrow>
          if d \<le> staleAfterDays w then 1
          else if d \<ge> abandonedAfterDays w then 0
          else
            let span = of_int (abandonedAfterDays w - staleAfterDays w); elapsed = of_int (d - staleAfterDays w) in
            max 0 (min 1 (1 - elapsed / span)))"

definition classify_signer :: "SignerInactivityWatcher \<Rightarrow> int option \<Rightarrow> SignerStatus" where
  "classify_signer w days =
     (case days of
        None \<Rightarrow> ABANDONED
      | Some d \<Rightarrow>
          if d \<ge> abandonedAfterDays w then ABANDONED
          else if d \<ge> inactiveAfterDays w then INACTIVE
          else if d \<ge> staleAfterDays w then STALE
          else ACTIVE)"

text \<open>\<open>Math.round\<close> rounds half up; every value here is finite.\<close>

definition round2 :: "rat \<Rightarrow> rat" where
  "round2 v = of_int \<lfloor>v * 100 + 1 / 2\<rfloor> / 100"

definition assessSigner :: "SignerInactivityWatcher \<Rightarrow> int \<Rightarrow> SignerActivity \<Rightarrow> SignerAssessment" where
  "assessSigner w now s =
     (let days = inactiveDays (lastActiveAt s) now in
      \<lparr>as_key = sa_key s, as_weight = sa_weight s, as_inactiveDays = days, as_status = classify_signer w days,
       as_decayedWeight = round2 (of_int (sa_weight s) * decayFactor w days)\<rparr>)"

section \<open>Assessment of a treasury\<close>

definition requiredThreshold :: "MultisigThresholds \<Rightarrow> string \<Rightarrow> int" where
  "requiredThreshold th level =
     (if level = ''low'' then mt_low th else if level = ''high'' then mt_high th else mt_medium th)"

record weight_sums =
  totalWeight :: int
  activeWeight :: int
  reachableWeight :: int
  decayedWeight :: rat
  maxActiveWeight :: int

definition add_weights :: "weight_sums \<Rightarrow> SignerAssessment \<Rightarrow> weight_sums" where
  "add_weights m a =
     \<lparr>totalWeight = totalWeight m + as_weight a,
      activeWeight = (if as_status a = ACTIVE then activeWeight m + as_weight a else activeWeight m),
      reachableWeight = (if as_status a \<noteq> ABANDONED then reachableWeight m + as_weight a else reachableWeight m),
      decayedWeight = decayedWeight m + as_decayedWeight a,
      maxActiveWeight = (if as_status a = ACTIVE \<and> as_weight a > maxActiveWeight m then as_weight a else maxActiveWeight m)\<rparr>"

definition sum_weights :: "SignerAssessment list \<Rightarrow> weight_sums" where
  "sum_weights as = foldl add_weights
     \<lparr>totalWeight = 0, activeWeight = 0, reachableWeight = 0, decayedWeight = 0, maxActiveWeight = 0\<rparr> as"

definition quorum_risk :: "int \<Rightarrow> weight_sums \<Rightarrow> QuorumRisk" where
  "quorum_risk required m =
     (if reachableWeight m < required then CRITICAL
      else if activeWeight m < required then WARNING
      else if activeWeight m - maxActiveWeight m < required then WARNING
      else OK)"

definition assessTreasury :: "SignerInactivityWatcher \<Rightarrow> TreasurySignerSnapshot \<Rightarrow> int \<Rightarrow> TreasuryInactivityAssessment" where
  "assessTreasury w snapshot now =
     (let required = requiredThreshold (sn_thresholds snapshot) (sn_thresholdLevel snapshot);
          assessments = map (assessSigner w now) (sn_signers snapshot);
          m = sum_weights assessments
      in \<lparr>ta_treasuryId = sn_treasuryId snapshot, ta_publicKey = sn_publicKey snapshot, ta_label = sn_label snapshot,
          ta_requiredThreshold = required, ta_thresholdLevel = sn_thresholdLevel snapshot,
          ta_totalWeight = totalWeight m, ta_activeWeight = activeWeight m, ta_reachableWeight = reachableWeight m,
          ta_decayedWeight = round2 (decayedWeight m), ta_signers = assessments,
          ta_atRiskSigners = filter (\<lambda>a. as_status a \<noteq> ACTIVE) assessments,
          ta_risk = quorum_risk required m\<rparr>)"

definition getTreasuriesAtRisk :: "SignerInactivityWatcher \<Rightarrow> TreasurySignerSnapshot list \<Rightarrow> int \<Rightarrow> TreasuryInactivityAssessment list" where
  "getTreasuriesAtRisk w snapshots now = filter (\<lambda>a. ta_risk a \<noteq> OK) (map (\<lambda>s. assessTreasury w s now) snapshots)"

definition buildSignerActivities :: "MultisigSigner list \<Rightarrow> (string, int) jsmap \<Rightarrow> SignerActivity list" where
  "buildSignerActivities signers lastActiveByKey =
     map (\<lambda>s. \<lparr>sa_key = ms_key s, sa_weight = ms_weight s, lastActiveAt = map_of lastActiveByKey (ms_key s)\<rparr>) signers"

section \<open>The worker\<close>

record TreasuryRecord =
  tr_id :: string
  tr_publicKey :: string
  tr_label :: "string option"
  tr_thresholdLevel :: string

record account_signers =
  acc_signers :: "MultisigSigner list"
  acc_thresholds :: MultisigThresholds

record pending_tx =
  signedByJson :: jsv
  updatedAt :: "int option"
  createdAt :: int

definition signed_key :: "jsv \<Rightarrow> string option" where
  "signed_key entry =
     (case entry of
        JString s \<Rightarrow> Some s
      | JObject fs \<Rightarrow> (case map_of fs ''key'' of Some (JString s) \<Rightarrow> Some s | _ \<Rightarrow> None)
      | _ \<Rightarrow> None)"

definition tx_instant :: "pending_tx \<Rightarrow> int" where
  "tx_instant tx = (case updatedAt tx of Some t \<Rightarrow> t | None \<Rightarrow> createdAt tx)"

definition tx_keys :: "pending_tx \<Rightarrow> string list" where
  "tx_keys tx = (case signedByJson tx of JArray vs \<Rightarrow> List.map_filter signed_key vs | _ \<Rightarrow> [])"

definition credit :: "int \<Rightarrow> (string, int) jsmap \<Rightarrow> string \<Rightarrow> (string, int) jsmap" where
  "credit when lastActive key = (if map_of lastActive key \<noteq> None then lastActive else AList.update key when lastActive)"

text \<open>The rows come from the database ordered by the instant of their update, the newest first.\<close>

definition resolveActivityFromPendingTxs :: "pending_tx list \<Rightarrow> (string, int) jsmap" where
  "resolveActivityFromPendingTxs pendingTxs =
     foldl (\<lambda>lastActive tx. foldl (credit (tx_instant tx)) lastActive (tx_keys tx)) [] pendingTxs"

text \<open>The account cannot be loaded (nothing), and the resolver may throw.\<close>

definition assessTreasuryRecord ::
  "(string \<Rightarrow> account_signers option) \<Rightarrow> (string \<Rightarrow> 'e + (string, int) jsmap) \<Rightarrow> SignerInactivityWatcher \<Rightarrow> int \<Rightarrow>
     TreasuryRecord \<Rightarrow> 'e + TreasuryInactivityAssessment option" where
  "assessTreasuryRecord getAccountSigners resolveActivity w now treasury =
     (case getAccountSigners (tr_publicKey treasury) of
        None \<Rightarrow> Inr None
      | Some account \<Rightarrow>
          (case resolveActivity (tr_id treasury) of
             Inl e \<Rightarrow> Inl e
           | Inr lastActiveByKey \<Rightarrow>
               Inr (Some (assessTreasury w
                 \<lparr>sn_treasuryId = tr_id treasury, sn_publicKey = tr_publicKey treasury, sn_label = tr_label treasury,
                  sn_thresholds = acc_thresholds account,
                  sn_thresholdLevel = (if tr_thresholdLevel treasury = '''' then ''medium'' else tr_thresholdLevel treasury),
                  sn_signers = buildSignerActivities (acc_signers account) lastActiveByKey\<rparr> now))))"

text \<open>
  A pass over the treasuries, each with the instant of its assessment. The notifier gets every assessment
  that is not fine; an error of one treasury or of the notifier does not end the pass.
\<close>

definition runMultisigInactivityPass ::
  "(string \<Rightarrow> account_signers option) \<Rightarrow> (string \<Rightarrow> 'e + (string, int) jsmap) \<Rightarrow> (TreasuryRecord \<times> int) list \<Rightarrow>
     TreasuryInactivityAssessment list" where
  "runMultisigInactivityPass getAccountSigners resolveActivity treasuries =
     List.map_filter (\<lambda>(treasury, now).
       case assessTreasuryRecord getAccountSigners resolveActivity (newSignerInactivityWatcher None None None) now treasury of
         Inr (Some a) \<Rightarrow> if ta_risk a \<noteq> OK then Some a else None
       | _ \<Rightarrow> None) treasuries"

section \<open>Weights\<close>

definition days_of :: "SignerActivity \<Rightarrow> int \<Rightarrow> int option" where
  "days_of s now = inactiveDays (lastActiveAt s) now"

definition signer_active :: "SignerInactivityWatcher \<Rightarrow> int \<Rightarrow> SignerActivity \<Rightarrow> bool" where
  "signer_active w now s \<longleftrightarrow> classify_signer w (days_of s now) = ACTIVE"

definition reachable :: "SignerInactivityWatcher \<Rightarrow> int \<Rightarrow> SignerActivity \<Rightarrow> bool" where
  "reachable w now s \<longleftrightarrow> classify_signer w (days_of s now) \<noteq> ABANDONED"

definition weight_of :: "(SignerActivity \<Rightarrow> bool) \<Rightarrow> SignerActivity list \<Rightarrow> int" where
  "weight_of P ss = sum_list (map sa_weight (filter P ss))"

lemma weight_of_simps [simp]: "weight_of P [] = 0" "weight_of P (s # ss) = (if P s then sa_weight s else 0) + weight_of P ss"
  by (simp_all add: weight_of_def)

lemmas assess_defs = add_weights_def assessSigner_def signer_active_def reachable_def days_of_def Let_def

lemma add_weights_fields:
  "activeWeight (foldl add_weights m (map (assessSigner w now) ss)) = activeWeight m + weight_of (signer_active w now) ss"
  "reachableWeight (foldl add_weights m (map (assessSigner w now) ss)) = reachableWeight m + weight_of (reachable w now) ss"
  by (induction ss arbitrary: m) (simp_all add: assess_defs)

lemma add_weights_max:
  "x \<le> y - maxActiveWeight (foldl add_weights m (map (assessSigner w now) ss)) \<longleftrightarrow>
   x \<le> y - maxActiveWeight m \<and> (\<forall>s \<in> set ss. signer_active w now s \<longrightarrow> x \<le> y - sa_weight s)"
  by (induction ss arbitrary: m) (auto simp: assess_defs)

lemma weight_mono:
  assumes "\<forall>s \<in> set ss. 0 \<le> sa_weight s" "\<And>s. P s \<Longrightarrow> Q s"
  shows "weight_of P ss \<le> weight_of Q ss"
  using assms by (induction ss) (auto simp: add_mono)

lemma weight_without:
  assumes "\<forall>s \<in> set ss. 0 \<le> sa_weight s" "\<And>s. P s \<Longrightarrow> Q s" "s \<in> set ss" "Q s" "\<not> P s"
  shows "weight_of P ss + sa_weight s \<le> weight_of Q ss"
  using assms(1,3)
proof (induction ss)
  case (Cons x xs)
  show ?case
  proof (cases "x = s")
    case True
    then show ?thesis using weight_mono[of xs P Q] Cons.prems(1) assms(2,4,5) by simp
  next
    case False
    then show ?thesis using Cons assms(2)[of x] by force
  qed
qed simp

lemma assess_risk_iff:
  assumes "\<forall>s \<in> set (sn_signers sn). 0 \<le> sa_weight s" "a = assessTreasury w sn now"
  shows "(ta_risk a = CRITICAL \<longleftrightarrow> weight_of (reachable w now) (sn_signers sn) < ta_requiredThreshold a)
    \<and> (ta_risk a = OK \<longleftrightarrow> ta_requiredThreshold a \<le> weight_of (signer_active w now) (sn_signers sn)
        \<and> (\<forall>s \<in> set (sn_signers sn). signer_active w now s \<longrightarrow>
             ta_requiredThreshold a \<le> weight_of (signer_active w now) (sn_signers sn) - sa_weight s))"
proof -
  let ?ss = "sn_signers sn"
  let ?m = "sum_weights (map (assessSigner w now) ?ss)"
  let ?req = "requiredThreshold (sn_thresholds sn) (sn_thresholdLevel sn)"
  have m: "activeWeight ?m = weight_of (signer_active w now) ?ss" "reachableWeight ?m = weight_of (reachable w now) ?ss"
    by (simp_all add: sum_weights_def add_weights_fields)
  have le: "weight_of (signer_active w now) ?ss \<le> weight_of (reachable w now) ?ss"
    by (rule weight_mono[OF assms(1)]) (simp add: signer_active_def reachable_def)
  have loss: "?req \<le> activeWeight ?m - maxActiveWeight ?m \<longleftrightarrow> ?req \<le> activeWeight ?m
      \<and> (\<forall>s \<in> set ?ss. signer_active w now s \<longrightarrow> ?req \<le> activeWeight ?m - sa_weight s)"
    unfolding sum_weights_def by (subst add_weights_max) simp
  have risk: "ta_risk a = quorum_risk ?req ?m" "ta_requiredThreshold a = ?req"
    using assms(2) by (simp_all add: assessTreasury_def Let_def)
  have "quorum_risk ?req ?m = CRITICAL \<longleftrightarrow> reachableWeight ?m < ?req" by (simp add: quorum_risk_def)
  moreover have "quorum_risk ?req ?m = OK \<longleftrightarrow> ?req \<le> reachableWeight ?m \<and> ?req \<le> activeWeight ?m
      \<and> ?req \<le> activeWeight ?m - maxActiveWeight ?m" by (auto simp: quorum_risk_def)
  ultimately show ?thesis unfolding risk m using loss[unfolded m] le by (meson order_trans)
qed

text \<open>The risk of a treasury is exact: it is critical exactly when the signers that are not abandoned cannot reach
  the threshold any more, and fine exactly when the active signers reach it also after the loss of any one
  of them.\<close>

theorem quorum_risk_exact:
  assumes "\<forall>s \<in> set (sn_signers sn). 0 \<le> sa_weight s" "a = assessTreasury w sn now"
  shows "(ta_risk a = CRITICAL \<longleftrightarrow> weight_of (reachable w now) (sn_signers sn) < ta_requiredThreshold a)
    \<and> (ta_risk a = OK \<longleftrightarrow> ta_requiredThreshold a \<le> weight_of (signer_active w now) (sn_signers sn)
        \<and> (\<forall>s \<in> set (sn_signers sn). signer_active w now s \<longrightarrow>
             ta_requiredThreshold a \<le> weight_of (signer_active w now) (sn_signers sn) - sa_weight s))"
  using assess_risk_iff[OF assms] .

definition two_of_three :: TreasurySignerSnapshot where
  "two_of_three = \<lparr>sn_treasuryId = ''t'', sn_publicKey = ''G'', sn_label = None,
     sn_thresholds = \<lparr>mt_low = 1, mt_medium = 2, mt_high = 3\<rparr>, sn_thresholdLevel = ''medium'',
     sn_signers = [\<lparr>sa_key = ''a'', sa_weight = 1, lastActiveAt = Some 0\<rparr>, \<lparr>sa_key = ''b'', sa_weight = 1, lastActiveAt = Some 0\<rparr>,
       \<lparr>sa_key = ''c'', sa_weight = 1, lastActiveAt = Some 0\<rparr>]\<rparr>"

theorem quorum_risk_exact_witness:
  "ta_risk (assessTreasury (newSignerInactivityWatcher None None None) two_of_three 0) = OK
   \<and> ta_risk (assessTreasury (newSignerInactivityWatcher None None None) two_of_three (180 * MS_PER_DAY)) = CRITICAL"
  using quorum_risk_exact [OF _ refl, of two_of_three "newSignerInactivityWatcher None None None" 0]
    quorum_risk_exact [OF _ refl, of two_of_three "newSignerInactivityWatcher None None None" "180 * MS_PER_DAY"]
  by (simp add: two_of_three_def newSignerInactivityWatcher_def signer_active_def reachable_def days_of_def classify_signer_def inactiveDays_def
      MS_PER_DAY_def assessTreasury_def requiredThreshold_def Let_def)

section \<open>Risk in the course of time\<close>

instantiation QuorumRisk :: linorder
begin

fun risk_rank :: "QuorumRisk \<Rightarrow> nat" where
  "risk_rank OK = 0"
| "risk_rank WARNING = 1"
| "risk_rank CRITICAL = 2"

definition less_eq_QuorumRisk :: "QuorumRisk \<Rightarrow> QuorumRisk \<Rightarrow> bool" where
  "less_eq_QuorumRisk r r' \<longleftrightarrow> risk_rank r \<le> risk_rank r'"

definition less_QuorumRisk :: "QuorumRisk \<Rightarrow> QuorumRisk \<Rightarrow> bool" where
  "less_QuorumRisk r r' \<longleftrightarrow> risk_rank r < risk_rank r'"

instance
proof
  fix r r' :: QuorumRisk
  assume "r \<le> r'" "r' \<le> r"
  then show "r = r'" by (cases r; cases r') (simp_all add: less_eq_QuorumRisk_def)
qed (auto simp: less_eq_QuorumRisk_def less_QuorumRisk_def)

end

lemma risk_le_iff: "(r :: QuorumRisk) \<le> r' \<longleftrightarrow> (r' = OK \<longrightarrow> r = OK) \<and> (r = CRITICAL \<longrightarrow> r' = CRITICAL)"
  by (cases r; cases r') (simp_all add: less_eq_QuorumRisk_def)

lemma inactiveDays_mono: "now \<le> now' \<Longrightarrow> days_of s now = Some d \<Longrightarrow> \<exists>d' \<ge> d. days_of s now' = Some d'"
  by (auto simp: days_of_def inactiveDays_def MS_PER_DAY_def zdiv_mono1 split: option.splits)

lemma status_mono:
  assumes "now \<le> now'"
  shows "signer_active w now' s \<Longrightarrow> signer_active w now s" "reachable w now' s \<Longrightarrow> reachable w now s"
  using inactiveDays_mono[OF assms, of s]
  by (auto simp: signer_active_def reachable_def classify_signer_def days_of_def inactiveDays_def split: option.splits if_splits)

text \<open>Without new signatures the risk of a treasury never falls.\<close>

lemma risk_grows_without_signatures:
  assumes "\<forall>s \<in> set (sn_signers sn). 0 \<le> sa_weight s" "now \<le> now'"
  shows "ta_risk (assessTreasury w sn now) \<le> ta_risk (assessTreasury w sn now')"
proof -
  let ?ss = "sn_signers sn" and ?req = "requiredThreshold (sn_thresholds sn) (sn_thresholdLevel sn)"
  have req: "ta_requiredThreshold (assessTreasury v sn t) = ?req" for v t by (simp add: assessTreasury_def Let_def)
  note ex = assess_risk_iff[OF assms(1) refl, unfolded req]
  have le: "weight_of (signer_active w now') ?ss \<le> weight_of (signer_active w now) ?ss" "weight_of (reachable w now') ?ss \<le> weight_of (reachable w now) ?ss"
    by (rule weight_mono[OF assms(1)], erule status_mono[OF assms(2)])+
  have loss: "?req \<le> weight_of (signer_active w now) ?ss - sa_weight s"
    if "?req \<le> weight_of (signer_active w now') ?ss" "\<forall>s \<in> set ?ss. signer_active w now' s \<longrightarrow> ?req \<le> weight_of (signer_active w now') ?ss - sa_weight s"
      "s \<in> set ?ss" "signer_active w now s" for s
  proof (cases "signer_active w now' s")
    case True
    then have "?req \<le> weight_of (signer_active w now') ?ss - sa_weight s" using that by blast
    then show ?thesis using le(1) by simp
  next
    case False
    have "weight_of (signer_active w now') ?ss + sa_weight s \<le> weight_of (signer_active w now) ?ss"
      by (rule weight_without[of ?ss "signer_active w now'" "signer_active w now" s, OF assms(1) _ that(3,4) False]) (rule status_mono(1)[OF assms(2)])
    then show ?thesis using that(1) by simp
  qed
  show ?thesis unfolding risk_le_iff
  proof (intro conjI impI)
    assume "ta_risk (assessTreasury w sn now') = OK"
    then have h: "?req \<le> weight_of (signer_active w now') ?ss"
      "\<forall>s \<in> set ?ss. signer_active w now' s \<longrightarrow> ?req \<le> weight_of (signer_active w now') ?ss - sa_weight s"
      using ex[of w now'] by blast+
    show "ta_risk (assessTreasury w sn now) = OK" using ex[of w now] loss[OF h] order_trans[OF h(1) le(1)] by blast
  next
    assume "ta_risk (assessTreasury w sn now) = CRITICAL"
    then have "weight_of (reachable w now') ?ss < ?req" using ex[of w now] le_less_trans[OF le(2)] by blast
    then show "ta_risk (assessTreasury w sn now') = CRITICAL" using ex[of w now'] by blast
  qed
qed

section \<open>Signatures and the pass\<close>

lemma credit_lookup: "map_of (foldl (credit t) m ks) k = (case map_of m k of Some x \<Rightarrow> Some x | None \<Rightarrow> if k \<in> set ks then Some t else None)"
  by (induction ks arbitrary: m) (auto simp: credit_def split: option.split)

lemma resolve_first:
  "map_of (foldl (\<lambda>m tx. foldl (credit (tx_instant tx)) m (tx_keys tx)) m txs) k =
     (case map_of m k of Some x \<Rightarrow> Some x | None \<Rightarrow> map_option tx_instant (find (\<lambda>tx. k \<in> set (tx_keys tx)) txs))"
  by (induction txs arbitrary: m) (auto simp: credit_lookup split: option.split)

definition newest_first :: "pending_tx list \<Rightarrow> bool" where
  "newest_first txs \<longleftrightarrow> sorted_wrt (\<lambda>a b. tx_instant b \<le> tx_instant a) txs"

text \<open>A signer is credited with the newest transaction that it signed.\<close>

lemma resolved_is_newest:
  assumes "newest_first txs"
  shows "map_of (resolveActivityFromPendingTxs txs) k = Some t \<longleftrightarrow>
      (\<exists>tx \<in> set txs. k \<in> set (tx_keys tx) \<and> tx_instant tx = t) \<and> (\<forall>tx \<in> set txs. k \<in> set (tx_keys tx) \<longrightarrow> tx_instant tx \<le> t)"
    "map_of (resolveActivityFromPendingTxs txs) k = None \<longleftrightarrow> (\<forall>tx \<in> set txs. k \<notin> set (tx_keys tx))"
proof -
  have r: "map_of (resolveActivityFromPendingTxs txs) k = map_option tx_instant (find (\<lambda>tx. k \<in> set (tx_keys tx)) txs)"
    unfolding resolveActivityFromPendingTxs_def resolve_first by simp
  show "map_of (resolveActivityFromPendingTxs txs) k = Some t \<longleftrightarrow>
      (\<exists>tx \<in> set txs. k \<in> set (tx_keys tx) \<and> tx_instant tx = t) \<and> (\<forall>tx \<in> set txs. k \<in> set (tx_keys tx) \<longrightarrow> tx_instant tx \<le> t)"
    unfolding r using assms by (induction txs) (force simp: newest_first_def)+
  show "map_of (resolveActivityFromPendingTxs txs) k = None \<longleftrightarrow> (\<forall>tx \<in> set txs. k \<notin> set (tx_keys tx))"
    unfolding r by (auto simp: find_None_iff)
qed

definition signed_within :: "int \<Rightarrow> pending_tx list \<Rightarrow> int \<Rightarrow> string \<Rightarrow> bool" where
  "signed_within d txs now k \<longleftrightarrow> (\<exists>tx \<in> set txs. k \<in> set (tx_keys tx) \<and> (now - tx_instant tx) div MS_PER_DAY < d)"

lemma reachable_signed_within:
  assumes "newest_first txs" "0 < abandonedAfterDays w"
  shows "reachable w now \<lparr>sa_key = k, sa_weight = wt, lastActiveAt = map_of (resolveActivityFromPendingTxs txs) k\<rparr> \<longleftrightarrow>
    signed_within (abandonedAfterDays w) txs now k"
proof (cases "map_of (resolveActivityFromPendingTxs txs) k")
  case None
  then have "\<not> signed_within (abandonedAfterDays w) txs now k"
    using resolved_is_newest(2)[OF assms(1), THEN iffD1] by (simp add: signed_within_def)
  then show ?thesis using None by (simp add: reachable_def days_of_def inactiveDays_def classify_signer_def)
next
  case (Some t)
  note n = resolved_is_newest(1)[OF assms(1), THEN iffD1, OF Some]
  have "(now - t) div MS_PER_DAY \<le> (now - tx_instant tx) div MS_PER_DAY" if "tx \<in> set txs" "k \<in> set (tx_keys tx)" for tx
    using n that by (intro zdiv_mono1) (auto simp: MS_PER_DAY_def)
  then have "signed_within (abandonedAfterDays w) txs now k \<longleftrightarrow> (now - t) div MS_PER_DAY < abandonedAfterDays w"
    using n by (force simp: signed_within_def)
  then show ?thesis using Some assms(2) by (auto simp: reachable_def days_of_def inactiveDays_def classify_signer_def max_def)
qed

text \<open>C15. A treasury that can no longer be spent is reported: if the signers of its account that signed a pending
  transaction within the last 180 days weigh less than the threshold, every pass over the treasuries reports
  it with a critical risk, whatever happens to the other treasuries.\<close>

theorem lost_quorum_is_reported:
  assumes "(treasury, now) \<in> set treasuries" "getAccountSigners (tr_publicKey treasury) = Some account"
    and "resolveActivity (tr_id treasury) = Inr (resolveActivityFromPendingTxs txs)" "newest_first txs"
    and "tr_thresholdLevel treasury \<noteq> ''''"
    and "sum_list (map ms_weight (filter (\<lambda>s. signed_within 180 txs now (ms_key s)) (acc_signers account)))
      < requiredThreshold (acc_thresholds account) (tr_thresholdLevel treasury)"
  shows "\<exists>a \<in> set (runMultisigInactivityPass getAccountSigners resolveActivity treasuries).
    ta_treasuryId a = tr_id treasury \<and> ta_risk a = CRITICAL"
proof -
  let ?w = "newSignerInactivityWatcher None None None"
  let ?ss = "buildSignerActivities (acc_signers account) (resolveActivityFromPendingTxs txs)"
  let ?sn = "\<lparr>sn_treasuryId = tr_id treasury, sn_publicKey = tr_publicKey treasury, sn_label = tr_label treasury,
    sn_thresholds = acc_thresholds account, sn_thresholdLevel = tr_thresholdLevel treasury, sn_signers = ?ss\<rparr>"
  have w: "abandonedAfterDays ?w = 180" by (simp add: newSignerInactivityWatcher_def)
  note r = reachable_signed_within[OF assms(4), of ?w now, unfolded w, simplified]
  have "weight_of (reachable ?w now) (buildSignerActivities sg (resolveActivityFromPendingTxs txs)) =
      sum_list (map ms_weight (filter (\<lambda>s. signed_within 180 txs now (ms_key s)) sg))" for sg
    by (induction sg) (auto simp: buildSignerActivities_def r)
  then have crit: "ta_risk (assessTreasury ?w ?sn now) = CRITICAL"
    using assms(6) by (simp add: assessTreasury_def Let_def quorum_risk_def sum_weights_def add_weights_fields)
  have rec: "assessTreasuryRecord getAccountSigners resolveActivity ?w now treasury = Inr (Some (assessTreasury ?w ?sn now))"
    using assms(2,3,5) by (simp add: assessTreasuryRecord_def)
  have "assessTreasury ?w ?sn now \<in> set (runMultisigInactivityPass getAccountSigners resolveActivity treasuries)"
    unfolding runMultisigInactivityPass_def map_filter_def using assms(1) rec crit by (force simp: image_iff)
  moreover have "ta_treasuryId (assessTreasury ?w ?sn now) = tr_id treasury" by (simp add: assessTreasury_def Let_def)
  ultimately show ?thesis using crit by blast
qed

definition lost_treasury :: TreasuryRecord where
  "lost_treasury = \<lparr>tr_id = ''t'', tr_publicKey = ''G'', tr_label = None, tr_thresholdLevel = ''medium''\<rparr>"

definition lost_account :: account_signers where
  "lost_account = \<lparr>acc_signers = [\<lparr>ms_key = ''a'', ms_weight = 1\<rparr>, \<lparr>ms_key = ''b'', ms_weight = 1\<rparr>], acc_thresholds = \<lparr>mt_low = 1, mt_medium = 2, mt_high = 2\<rparr>\<rparr>"

definition one_signature :: "pending_tx list" where
  "one_signature = [\<lparr>signedByJson = JArray [JString ''a''], updatedAt = Some 0, createdAt = 0\<rparr>]"

theorem lost_quorum_is_reported_witness:
  "\<exists>a \<in> set (runMultisigInactivityPass (\<lambda>_. Some lost_account)
       (\<lambda>_. Inr (resolveActivityFromPendingTxs one_signature) :: unit + _) [(lost_treasury, 86400000)]).
     ta_treasuryId a = ''t'' \<and> ta_risk a = CRITICAL"
proof -
  have k: "tx_keys \<lparr>signedByJson = JArray [JString ''a''], updatedAt = Some 0, createdAt = 0\<rparr> = [''a'']"
    by (simp add: tx_keys_def signed_key_def)
  have "\<exists>a \<in> set (runMultisigInactivityPass (\<lambda>_. Some lost_account)
       (\<lambda>_. Inr (resolveActivityFromPendingTxs one_signature) :: unit + _) [(lost_treasury, 86400000)]).
     ta_treasuryId a = tr_id lost_treasury \<and> ta_risk a = CRITICAL"
    by (rule lost_quorum_is_reported [where now = 86400000 and txs = one_signature and account = lost_account])
       (simp_all add: lost_account_def lost_treasury_def one_signature_def newest_first_def signed_within_def k tx_instant_def
          MS_PER_DAY_def requiredThreshold_def)
  then show ?thesis by (simp add: lost_treasury_def)
qed

section \<open>Decay\<close>

text \<open>The factor is between nothing and one, never grows with the days, and is nothing for abandoned signers.\<close>

lemma decayFactor_bounds: "0 \<le> decayFactor w d" "decayFactor w d \<le> 1"
  by (auto simp: decayFactor_def Let_def split: option.split)

lemma decayFactor_mono:
  assumes "d \<le> d'"
  shows "decayFactor w (Some d') \<le> decayFactor w (Some d)"
proof (cases "staleAfterDays w < d \<and> d' < abandonedAfterDays w")
  case True
  have "(of_int (d - staleAfterDays w) :: rat) / of_int (abandonedAfterDays w - staleAfterDays w)
      \<le> of_int (d' - staleAfterDays w) / of_int (abandonedAfterDays w - staleAfterDays w)"
    using assms True by (intro divide_right_mono) auto
  then show ?thesis using True assms by (auto simp: decayFactor_def Let_def max_def min_def)
next
  case False
  then show ?thesis using assms decayFactor_bounds[of w "Some d"] decayFactor_bounds[of w "Some d'"]
    by (auto simp: decayFactor_def Let_def)
qed

lemma abandoned_decayed: "staleAfterDays w < abandonedAfterDays w \<Longrightarrow> classify_signer w d = ABANDONED \<Longrightarrow> decayFactor w d = 0"
  by (auto simp: classify_signer_def decayFactor_def split: option.splits if_splits)

end
