(* ===== verification/Hex.thy ===== *)
theory Hex
  imports Prelude
begin

text \<open>
  Hexadecimal rendering of byte strings, as Node's \<open>Buffer\<close> does it: \<open>toString('hex')\<close> writes
  lower-case digits, \<open>Buffer.from(s, 'hex')\<close> reads pairs of digits of either case and stops at
  the first pair that is not hexadecimal. \<open>hex64\<close> is the pattern \<open>/^[0-9a-f]{64}$/i\<close> that
  several modules use for 32-byte hashes.
\<close>

definition is_hex_digit :: "char \<Rightarrow> bool" where
  "is_hex_digit c \<longleftrightarrow> is_digit c \<or> (97 \<le> char_code (to_lower_char c) \<and> char_code (to_lower_char c) \<le> 102)"

definition hex64 :: "string \<Rightarrow> bool" where
  "hex64 s \<longleftrightarrow> length s = 64 \<and> list_all is_hex_digit s"

definition hex_val :: "char \<Rightarrow> nat option" where
  "hex_val c = (if is_digit c then Some (char_code c - 48)
     else if is_hex_digit c then Some (char_code (to_lower_char c) - 87) else None)"

definition hex_char :: "nat \<Rightarrow> char" where
  "hex_char d = (if d < 10 then char_of (48 + d) else char_of (87 + d))"

fun toHex :: "bytes \<Rightarrow> string" where
  "toHex [] = []"
| "toHex (b # bs) = hex_char (unat b div 16) # hex_char (unat b mod 16) # toHex bs"

fun fromHex :: "string \<Rightarrow> bytes" where
  "fromHex (a # b # s) =
     (case (hex_val a, hex_val b) of
        (Some x, Some y) \<Rightarrow> word_of_nat (16 * x + y) # fromHex s
      | _ \<Rightarrow> [])"
| "fromHex _ = []"

text \<open>The UTF-8 bytes of a string of code units below 256, as \<open>hash.update(string)\<close> reads it.\<close>

definition utf8_char :: "char \<Rightarrow> bytes" where
  "utf8_char c = (if char_code c < 128 then [word_of_nat (char_code c)]
     else [word_of_nat (0xC0 + char_code c div 64), word_of_nat (0x80 + char_code c mod 64)])"

definition utf8 :: "string \<Rightarrow> bytes" where
  "utf8 s = concat (map utf8_char s)"

lemma unat_byte: "unat (b :: byte) < 256"
  using unsigned_less[of b] by simp

lemma word_byte: "x < 256 \<Longrightarrow> unat (word_of_nat x :: byte) = x"
  by (simp add: unat_of_nat)

lemma to_lower_hex:
  "is_hex_digit c \<Longrightarrow> is_hex_digit (to_lower_char c)"
  by (auto simp: is_hex_digit_def is_digit_def to_lower_char_def)

lemma hex_not_x: "is_hex_digit c \<Longrightarrow> to_lower_char c \<noteq> CHR ''x''"
proof
  assume h: "is_hex_digit c" and x: "to_lower_char c = CHR ''x''"
  have "char_code (to_lower_char c) = 120" by (simp add: x)
  moreover have "is_digit c \<Longrightarrow> to_lower_char c = c" by (simp add: is_digit_def to_lower_char_def)
  ultimately show False using h by (auto simp: is_hex_digit_def is_digit_def)
qed

lemma hex64_lower: "hex64 s \<Longrightarrow> hex64 (toLowerCase s)"
  by (auto simp: hex64_def list_all_iff toLowerCase_def to_lower_hex)

lemma hex_val_char [simp]: "d < 16 \<Longrightarrow> hex_val (hex_char d) = Some d"
  by (auto simp: hex_val_def hex_char_def is_digit_def is_hex_digit_def to_lower_char_def)

lemma hex_char_inject [simp]: "d < 16 \<Longrightarrow> e < 16 \<Longrightarrow> hex_char d = hex_char e \<longleftrightarrow> d = e"
  using hex_val_char by (metis option.inject)

lemma hex_char_props [simp]:
  "d < 16 \<Longrightarrow> is_hex_digit (hex_char d)" "d < 16 \<Longrightarrow> to_lower_char (hex_char d) = hex_char d"
  by (auto simp: hex_char_def is_digit_def is_hex_digit_def to_lower_char_def)

lemma nibbles: "unat (b :: byte) div 16 < 16" "unat b mod 16 < 16"
  using unat_byte[of b] by simp_all

lemma fromHex_toHex [simp]: "fromHex (toHex bs) = bs"
  by (induction bs) (simp_all add: nibbles)

lemma length_toHex [simp]: "length (toHex bs) = 2 * length bs"
  by (induction bs) simp_all

lemma toHex_lower [simp]: "toLowerCase (toHex bs) = toHex bs"
  by (induction bs) (simp_all add: toLowerCase_def nibbles)

lemma toHex_inject [simp]: "toHex xs = toHex ys \<longleftrightarrow> xs = ys"
  by (metis fromHex_toHex)

lemma hex64_toHex [simp]: "hex64 (toHex bs) \<longleftrightarrow> length bs = 32"
proof -
  have "list_all is_hex_digit (toHex bs)" by (induction bs) (simp_all add: nibbles)
  then show ?thesis by (auto simp: hex64_def)
qed

lemma hex_val_lt: "hex_val c = Some x \<Longrightarrow> x < 16 \<and> hex_char x = to_lower_char c"
  by (auto simp: hex_val_def hex_char_def is_digit_def is_hex_digit_def to_lower_char_def split: if_splits)

lemma hex_digit_val: "is_hex_digit c \<Longrightarrow> \<exists>x. hex_val c = Some x"
  by (simp add: hex_val_def)

lemma fromHex_hex:
  "even (length s) \<Longrightarrow> list_all is_hex_digit s \<Longrightarrow>
     toHex (fromHex s) = toLowerCase s \<and> length (fromHex s) = length s div 2"
proof (induction s rule: fromHex.induct)
  case (1 a b s)
  then obtain x y where v: "hex_val a = Some x" "hex_val b = Some y" using hex_digit_val by fastforce
  then have "x < 16" "y < 16" "hex_char x = to_lower_char a" "hex_char y = to_lower_char b"
    using hex_val_lt by blast+
  moreover have "unat (word_of_nat (16 * x + y) :: byte) = 16 * x + y"
    using \<open>x < 16\<close> \<open>y < 16\<close> by (intro word_byte) simp
  ultimately show ?case using 1 v by (simp add: toLowerCase_def)
qed (simp_all add: toLowerCase_def)

lemma hex64_fromHex: "hex64 s \<Longrightarrow> length (fromHex s) = 32 \<and> toHex (fromHex s) = toLowerCase s"
  using fromHex_hex[of s] by (simp add: hex64_def)

lemma utf8_inj: "utf8 s = utf8 t \<Longrightarrow> s = t"
proof (induction s arbitrary: t)
  case Nil
  then show ?case by (cases t) (auto simp: utf8_def utf8_char_def split: if_splits)
next
  case (Cons c s)
  then obtain d u where t: "t = d # u" by (cases t) (auto simp: utf8_def utf8_char_def split: if_splits)
  have eq: "utf8_char c @ utf8 s = utf8_char d @ utf8 u" using Cons.prems by (simp add: t utf8_def)
  have lt: "char_code c < 256" "char_code d < 256" by simp_all
  have b: "unat (word_of_nat x :: byte) = unat (word_of_nat y :: byte) \<longleftrightarrow> x = y" if "x < 256" "y < 256" for x y
    using that by (simp add: word_byte)
  have "n div 64 < 64 \<and> n mod 64 < 128" if "n < 256" for n :: nat using that by auto
  note dm = this[OF lt(1)] this[OF lt(2)]
  have "char_code c = char_code d"
  proof (cases "char_code c < 128"; cases "char_code d < 128")
    assume "\<not> char_code c < 128" "\<not> char_code d < 128"
    with dm have "char_code c div 64 = char_code d div 64" "char_code c mod 64 = char_code d mod 64"
      using eq lt b[of "0xC0 + char_code c div 64" "0xC0 + char_code d div 64"] b[of "0x80 + char_code c mod 64" "0x80 + char_code d mod 64"]
      by (auto simp: utf8_char_def)
    then show ?thesis by (metis div_mult_mod_eq)
  next
    assume "char_code c < 128" "\<not> char_code d < 128"
    then show ?thesis using dm eq lt b[of "char_code c" "0xC0 + char_code d div 64"] by (auto simp: utf8_char_def)
  next
    assume "\<not> char_code c < 128" "char_code d < 128"
    then show ?thesis using dm eq lt b[of "char_code d" "0xC0 + char_code c div 64"] by (auto simp: utf8_char_def)
  next
    assume "char_code c < 128" "char_code d < 128"
    then show ?thesis using eq lt b[of "char_code c" "char_code d"] by (auto simp: utf8_char_def)
  qed
  then have cd: "c = d" by (simp add: of_char_eq_iff)
  then show ?case using eq Cons.IH t by simp
qed

interpretation hex: codec toHex "\<lambda>s. Some (fromHex s)" "\<lambda>_. True"
  by unfold_locales simp

end
