(* ===== verification/JsonText.thy ===== *)
theory JsonText
  imports Hex
begin

text \<open>
  Texts of \<open>JSON.stringify\<close> and the reader of their string literals, on strings of code units below 256. The numbers that
  the modelled code serialises are integers.
\<close>

section \<open>String literals\<close>

text \<open>A character within a string literal of \<open>JSON.stringify\<close>.\<close>

definition json_char :: "char \<Rightarrow> string" where
  "json_char c =
     (if c = CHR 0x22 \<or> c = CHR 0x5C then [CHR 0x5C, c]
      else if char_code c = 8 then [CHR 0x5C, CHR ''b'']
      else if char_code c = 9 then [CHR 0x5C, CHR ''t'']
      else if char_code c = 10 then [CHR 0x5C, CHR ''n'']
      else if char_code c = 12 then [CHR 0x5C, CHR ''f'']
      else if char_code c = 13 then [CHR 0x5C, CHR ''r'']
      else if char_code c < 32 then [CHR 0x5C, CHR ''u'', CHR ''0'', CHR ''0'', hex_char (char_code c div 16), hex_char (char_code c mod 16)]
      else [c])"

definition json_string :: "string \<Rightarrow> string" where
  "json_string s = [CHR 0x22] @ concat (map json_char s) @ [CHR 0x22]"

text \<open>The reader of a string literal starts behind its quote.\<close>

definition simple_escape :: "char \<Rightarrow> char" where
  "simple_escape c =
     (if c = CHR ''b'' then char_of (8 :: nat) else if c = CHR ''t'' then char_of (9 :: nat) else if c = CHR ''n'' then char_of (10 :: nat)
      else if c = CHR ''f'' then char_of (12 :: nat) else if c = CHR ''r'' then char_of (13 :: nat) else c)"

fun read_string :: "string \<Rightarrow> (string \<times> string) option" where
  "read_string [] = None"
| "read_string (c # cs) =
     (if c = CHR 0x22 then Some ([], cs)
      else if c = CHR 0x5C then
        (case cs of
           [] \<Rightarrow> None
         | e # ds \<Rightarrow>
             if e = CHR ''u'' then
               (case ds of
                  z1 # z2 # a # b # rest \<Rightarrow>
                    (case (hex_val z1, hex_val z2, hex_val a, hex_val b) of
                       (Some 0, Some 0, Some x, Some y) \<Rightarrow>
                         map_option (\<lambda>(s, r). (char_of (16 * x + y) # s, r)) (read_string rest)
                     | _ \<Rightarrow> None)
                | _ \<Rightarrow> None)
             else map_option (\<lambda>(s, r). (simple_escape e # s, r)) (read_string ds))
      else map_option (\<lambda>(s, r). (c # s, r)) (read_string cs))"

lemma read_json_char:
  "read_string (json_char c @ s) = map_option (\<lambda>(t, r). (c # t, r)) (read_string s)"
proof -
  have c: "char_of (16 * (char_code c div 16) + char_code c mod 16) = c" by simp
  consider "c = CHR 0x22 \<or> c = CHR 0x5C" | "char_code c = 8" | "char_code c = 9" | "char_code c = 10" | "char_code c = 12" | "char_code c = 13"
    | "c \<noteq> CHR 0x22" "c \<noteq> CHR 0x5C" "char_code c \<notin> {8, 9, 10, 12, 13}" by auto
  then show ?thesis
  proof cases
    case 7
    have "hex_val CHR ''0'' = Some 0" by (simp add: hex_val_def is_digit_def)
    then show ?thesis using 7 c by (auto simp: json_char_def)
  qed (auto simp: json_char_def simple_escape_def dest: arg_cong[where f = "char_of :: nat \<Rightarrow> char"])
qed

lemma read_json_string: "read_string (concat (map json_char s) @ CHR 0x22 # rest) = Some (s, rest)"
  by (induction s) (simp_all add: read_json_char del: read_string.simps(2), simp)

lemma json_string_prefix: "json_string s @ r = json_string t @ r' \<Longrightarrow> s = t \<and> r = r'"
proof -
  assume "json_string s @ r = json_string t @ r'"
  then have "read_string (concat (map json_char s) @ CHR 0x22 # r) = read_string (concat (map json_char t) @ CHR 0x22 # r')"
    by (simp add: json_string_def)
  then show "s = t \<and> r = r'" by (simp add: read_json_string)
qed

section \<open>Values\<close>

datatype json = JsNull | JsBool bool | JsInt int | JsStr string | JsArr "json list" | JsObj "(string \<times> json) list"

text \<open>Elements and the closing bracket; a comma stands between two elements.\<close>

fun stringify_items :: "char \<Rightarrow> string list \<Rightarrow> string" where
  "stringify_items close [] = [close]"
| "stringify_items close [x] = x @ [close]"
| "stringify_items close (x # xs) = x @ CHR '','' # stringify_items close xs"

fun JSON_stringify :: "json \<Rightarrow> string" where
  "JSON_stringify JsNull = ''null''"
| "JSON_stringify (JsBool b) = (if b then ''true'' else ''false'')"
| "JSON_stringify (JsInt i) = int_str i"
| "JSON_stringify (JsStr s) = json_string s"
| "JSON_stringify (JsArr xs) = CHR ''['' # stringify_items CHR '']'' (map JSON_stringify xs)"
| "JSON_stringify (JsObj fs) = CHR ''{'' # stringify_items CHR ''}'' (map (\<lambda>(k, v). json_string k @ CHR '':'' # JSON_stringify v) fs)"

text \<open>What may follow a value within a text.\<close>

definition ends_value :: "string \<Rightarrow> bool" where
  "ends_value r \<longleftrightarrow> r = [] \<or> hd r \<in> {CHR '','', CHR '']'', CHR ''}''}"

definition separates :: "'a set \<Rightarrow> ('a \<Rightarrow> string) \<Rightarrow> bool" where
  "separates A f \<longleftrightarrow> (\<forall>x \<in> A. \<forall>y r r'. ends_value r \<longrightarrow> ends_value r' \<longrightarrow> f x @ r = f y @ r' \<longrightarrow> x = y \<and> r = r')"

definition opens_value :: "string \<Rightarrow> bool" where
  "opens_value s \<longleftrightarrow> s \<noteq> [] \<and> hd s \<notin> {CHR '','', CHR '']'', CHR ''}''}"

lemma ends_value_simps [simp]: "ends_value (CHR '','' # r)" "ends_value (CHR '']'' # r)" "ends_value (CHR ''}'' # r)"
  by (simp_all add: ends_value_def)

lemma stringify_items_Cons:
  "stringify_items close (x # xs) = x @ (case xs of [] \<Rightarrow> [close] | _ \<Rightarrow> CHR '','' # stringify_items close xs)"
  by (cases xs) simp_all

lemma items_hd: "opens_value x \<Longrightarrow> hd (stringify_items close (x # xs) @ r) = hd x"
  by (cases x; cases xs) (simp_all add: opens_value_def)

lemma items_prefix:
  assumes "separates (set xs) f" "\<And>x. opens_value (f x)" "close \<in> {CHR '']'', CHR ''}''}"
    and "stringify_items close (map f xs) @ r = stringify_items close (map f ys) @ r'"
  shows "xs = ys \<and> r = r'"
  using assms(1,4)
proof (induction xs arbitrary: ys)
  case Nil
  show ?case
  proof (cases ys)
    case (Cons y ys')
    then have "close = hd (f y)" using Nil.prems(2) items_hd[OF assms(2)[of y], of close "map f ys'" r'] by (simp del: stringify_items.simps(2,3), metis list.sel(1))
    then show ?thesis using assms(2)[of y] assms(3) by (auto simp: opens_value_def)
  qed (use Nil in simp)
next
  case (Cons x xs)
  let ?tail = "\<lambda>zs r. (case map f zs of [] \<Rightarrow> [close] | _ \<Rightarrow> CHR '','' # stringify_items close (map f zs)) @ r"
  have e: "ends_value (?tail zs r)" for zs r using assms(3) by (cases zs) auto
  obtain y ys' where ys: "ys = y # ys'"
  proof (cases ys)
    case Nil
    then have "hd (f x) = close" using Cons.prems(2) items_hd[OF assms(2)[of x], of close "map f xs" r] by simp
    then show ?thesis using assms(2)[of x] assms(3) by (auto simp: opens_value_def)
  qed
  have "f x @ ?tail xs r = f y @ ?tail ys' r'" using Cons.prems(2) ys by (simp add: stringify_items_Cons)
  then have xy: "x = y" "?tail xs r = ?tail ys' r'" using Cons.prems(1) e unfolding separates_def by (metis list.set_intros(1))+
  have sep: "separates (set xs) f" using Cons.prems(1) by (simp add: separates_def)
  have iff: "xs = [] \<longleftrightarrow> ys' = []" using xy(2) assms(3) by (cases xs; cases ys') auto
  show ?case
  proof (cases "xs = []")
    case True
    then show ?thesis using iff xy ys by simp
  next
    case False
    then have "stringify_items close (map f xs) @ r = stringify_items close (map f ys') @ r'" using iff xy(2) by (cases xs; cases ys') simp_all
    from Cons.IH[OF sep this] show ?thesis using xy(1) ys by simp
  qed
qed

lemma int_str_chars: "c \<in> set (int_str i) \<Longrightarrow> is_digit c \<or> c = CHR ''-''"
  by (auto simp: int_str_def dest: nat_str_digits split: if_splits)

lemma int_str_not_Nil [simp]: "int_str i \<noteq> []"
  by (simp add: int_str_def)

lemma nat_str_no_minus: "nat_str n \<noteq> CHR ''-'' # s"
  using nat_str_digits[of "CHR ''-''" n] by (auto simp: is_digit_def)

lemma int_str_inject: "int_str i = int_str j \<Longrightarrow> i = j"
proof -
  assume h: "int_str i = int_str j"
  have "nat_str m = nat_str n \<longleftrightarrow> m = n" for m n using dec_val_nat_str by metis
  then show "i = j" using h by (auto simp: int_str_def nat_str_no_minus nat_str_no_minus[symmetric] split: if_splits)
qed

lemma int_str_prefix:
  assumes "int_str i @ r = int_str j @ r'" "ends_value r" "ends_value r'"
  shows "i = j \<and> r = r'"
proof -
  let ?P = "\<lambda>c. is_digit c \<or> c = CHR ''-''"
  have tw: "takeWhile ?P (int_str k @ s) = int_str k" if "ends_value s" for k s
  proof -
    have "takeWhile ?P s = []" using that by (cases s) (auto simp: ends_value_def is_digit_def)
    then show ?thesis using int_str_chars by (subst takeWhile_append2) auto
  qed
  have "int_str i = int_str j" using tw[OF assms(2), of i] tw[OF assms(3), of j] assms(1) by simp
  then show ?thesis using assms(1) int_str_inject by simp
qed

lemma int_str_hd: "is_digit (hd (int_str i)) \<or> hd (int_str i) = CHR ''-''"
  using int_str_chars[OF hd_in_set[OF int_str_not_Nil]] .

lemma JSON_stringify_hd:
  "JSON_stringify v \<noteq> []"
  "(case v of JsNull \<Rightarrow> hd (JSON_stringify v) = CHR ''n'' | JsBool b \<Rightarrow> hd (JSON_stringify v) = (if b then CHR ''t'' else CHR ''f'')
    | JsInt i \<Rightarrow> is_digit (hd (JSON_stringify v)) \<or> hd (JSON_stringify v) = CHR ''-'' | JsStr s \<Rightarrow> hd (JSON_stringify v) = CHR 0x22
    | JsArr vs \<Rightarrow> hd (JSON_stringify v) = CHR ''['' | JsObj fs \<Rightarrow> hd (JSON_stringify v) = CHR ''{'')"
  using int_str_hd by (cases v; simp add: json_string_def)+

lemma JSON_opens: "opens_value (JSON_stringify v)"
  using JSON_stringify_hd[of v] by (cases v) (auto simp: opens_value_def is_digit_def split: if_splits)

lemma JSON_same_constructor:
  assumes "JSON_stringify v @ r = JSON_stringify w @ r'"
  shows "(v = JsNull \<longleftrightarrow> w = JsNull) \<and> (\<forall>b. v = JsBool b \<longleftrightarrow> w = JsBool b) \<and> ((\<exists>i. v = JsInt i) \<longleftrightarrow> (\<exists>i. w = JsInt i))
    \<and> ((\<exists>s. v = JsStr s) \<longleftrightarrow> (\<exists>s. w = JsStr s)) \<and> ((\<exists>xs. v = JsArr xs) \<longleftrightarrow> (\<exists>xs. w = JsArr xs)) \<and> ((\<exists>fs. v = JsObj fs) \<longleftrightarrow> (\<exists>fs. w = JsObj fs))"
proof -
  have "hd (JSON_stringify v) = hd (JSON_stringify w)" using assms JSON_stringify_hd(1) by (metis hd_append2)
  then show ?thesis using JSON_stringify_hd(2)[of v] JSON_stringify_hd(2)[of w]
    by (cases v; cases w) (auto simp del: JSON_stringify.simps simp: is_digit_def split: if_splits)
qed

text \<open>The text of a value determines the value, also within a longer text.\<close>

lemma JSON_prefix:
  "ends_value r \<Longrightarrow> ends_value r' \<Longrightarrow> JSON_stringify v @ r = JSON_stringify w @ r' \<Longrightarrow> v = w \<and> r = r'"
proof (induction v arbitrary: w r r')
  case JsNull
  then show ?case using JSON_same_constructor[OF JsNull(3)] by simp
next
  case (JsBool b)
  then have "w = JsBool b" using JSON_same_constructor[OF JsBool(3)] by blast
  then show ?case using JsBool by simp
next
  case (JsInt i)
  then obtain j where "w = JsInt j" using JSON_same_constructor[OF JsInt(3)] by auto
  then show ?case using JsInt int_str_prefix[of i r j r'] by simp
next
  case (JsStr s)
  then obtain t where "w = JsStr t" using JSON_same_constructor[OF JsStr(3)] by auto
  then show ?case using JsStr.prems(3) json_string_prefix[of s r t r'] by simp
next
  case (JsArr vs)
  then obtain ws where w: "w = JsArr ws" using JSON_same_constructor[OF JsArr(4)] by auto
  have "separates (set vs) JSON_stringify" unfolding separates_def using JsArr.IH by blast
  from items_prefix[OF this JSON_opens, of "CHR '']''" r ws r'] show ?case using w JsArr.prems(3) by simp
next
  case (JsObj fs)
  let ?f = "\<lambda>(k, v). json_string k @ CHR '':'' # JSON_stringify v"
  obtain gs where w: "w = JsObj gs" using JSON_same_constructor[OF JsObj.prems(3)] by auto
  have "separates (set fs) ?f" unfolding separates_def
  proof (intro ballI allI impI)
    fix x y r r' assume h: "x \<in> set fs" "ends_value r" "ends_value r'" "?f x @ r = ?f y @ r'"
    obtain k v where x: "x = (k, v)" by (cases x)
    obtain l u where y: "y = (l, u)" by (cases y)
    have kv: "k = l" "JSON_stringify v @ r = JSON_stringify u @ r'"
      using json_string_prefix[of k "CHR '':'' # JSON_stringify v @ r" l "CHR '':'' # JSON_stringify u @ r'"] h(4) x y by auto
    then show "x = y \<and> r = r'" using JsObj.IH[OF h(1), of v r r' u] h(2,3) x y by auto
  qed
  moreover have "opens_value (?f x)" for x by (cases x) (simp add: opens_value_def json_string_def)
  ultimately show ?case using items_prefix[of fs ?f "CHR ''}''" r gs r'] w JsObj.prems(3) by simp
qed

lemma JSON_stringify_inject: "JSON_stringify v = JSON_stringify w \<longleftrightarrow> v = w"
  using JSON_prefix[of "[]" "[]" v w] by (auto simp: ends_value_def)

end
