(* ===== verification/TopicIndexer.thy ===== *)
theory TopicIndexer
  imports JsonText
begin

text \<open>
  The index of event topics (\<open>apps/api/src/lib/soroban-topic-indexer.ts\<close>): decoding of topic values, the symbols within them, the
  canonical hash, and the builders of SQL predicates. The parser of XDR and the rendering of addresses are the
  Stellar SDK's: the first is an argument, and a parsed value carries its address as the SDK renders it.
\<close>

section \<open>Topic values\<close>

text \<open>Types whose value is a string, and among them those of large integers.\<close>

datatype big_type = U64 | I64 | U128 | I128 | U256 | I256 | Timepoint | Duration

datatype text_type = Big big_type | Symbol | String | Address | Bytes | Error | Scv | Raw

datatype TopicValue = TVoid | TBool bool | TU32 int | TI32 int | TText text_type string | TVec "TopicValue list"
  | TMap "(TopicValue \<times> TopicValue) list"

fun bigTypeName :: "big_type \<Rightarrow> string" where
  "bigTypeName I64 = ''i64''"
| "bigTypeName U128 = ''u128''"
| "bigTypeName I128 = ''i128''"
| "bigTypeName U256 = ''u256''"
| "bigTypeName I256 = ''i256''"
| "bigTypeName Timepoint = ''timepoint''"
| "bigTypeName Duration = ''duration''"
| "bigTypeName U64 = ''u64''"

fun text_type_name :: "text_type \<Rightarrow> string" where
  "text_type_name (Big b) = bigTypeName b"
| "text_type_name Symbol = ''symbol''"
| "text_type_name String = ''string''"
| "text_type_name Address = ''address''"
| "text_type_name Bytes = ''bytes''"
| "text_type_name Error = ''error''"
| "text_type_name Scv = ''scv''"
| "text_type_name Raw = ''raw''"

text \<open>
  A parsed value of the SDK. An address is rendered by \<open>Address.fromScVal\<close>, which may fail, and by \<open>scValToNative\<close>;
  an error has a contract code, or the name and number of its code; a value without readable parts is malformed.
\<close>

datatype sc_error = ContractError int | CodeError "string option" int | BadError

datatype ScVal = ScvVoid | ScvBool bool | ScvU32 int | ScvI32 int | ScvBig big_type int | ScvSymbol string | ScvString string
  | ScvBytes bytes | ScvAddress "string option" string | ScvVec "ScVal list option" | ScvMap "(ScVal \<times> ScVal) list option"
  | ScvError sc_error | ScvOther "string option" | ScvMalformed

definition base64_char :: "nat \<Rightarrow> char" where
  "base64_char n = (if n < 26 then char_of (65 + n) else if n < 52 then char_of (71 + n) else if n < 62 then char_of (n - 4)
     else if n = 62 then CHR ''+'' else CHR ''/'')"

fun bufferToBase64 :: "bytes \<Rightarrow> string" where
  "bufferToBase64 [] = []"
| "bufferToBase64 [a] = [base64_char (unat a div 4), base64_char (unat a mod 4 * 16), CHR ''='', CHR ''='']"
| "bufferToBase64 [a, b] = [base64_char (unat a div 4), base64_char (unat a mod 4 * 16 + unat b div 16), base64_char (unat b mod 16 * 4), CHR ''='']"
| "bufferToBase64 (a # b # c # bs) =
     [base64_char (unat a div 4), base64_char (unat a mod 4 * 16 + unat b div 16), base64_char (unat b mod 16 * 4 + unat c div 64),
      base64_char (unat c mod 64)] @ bufferToBase64 bs"

fun decodeScError :: "sc_error \<Rightarrow> string" where
  "decodeScError (ContractError n) = ''contract:'' @ int_str n"
| "decodeScError (CodeError name n) = (case name of Some s \<Rightarrow> s | None \<Rightarrow> ''unknown'') @ '':'' @ int_str n"
| "decodeScError BadError = ''unknown''"

fun decodeScVal :: "ScVal \<Rightarrow> TopicValue" where
  "decodeScVal ScvVoid = TVoid"
| "decodeScVal (ScvBool b) = TBool b"
| "decodeScVal (ScvU32 n) = TU32 n"
| "decodeScVal (ScvI32 n) = TI32 n"
| "decodeScVal (ScvBig t n) = TText (Big t) (int_str n)"
| "decodeScVal (ScvSymbol s) = TText Symbol s"
| "decodeScVal (ScvString s) = TText String s"
| "decodeScVal (ScvBytes bs) = TText Bytes (bufferToBase64 bs)"
| "decodeScVal (ScvAddress addr native) = TText Address (case addr of Some s \<Rightarrow> s | None \<Rightarrow> native)"
| "decodeScVal (ScvVec vs) = TVec (case vs of Some vs \<Rightarrow> map decodeScVal vs | None \<Rightarrow> [])"
| "decodeScVal (ScvMap es) = TMap (case es of Some es \<Rightarrow> map (\<lambda>(k, v). (decodeScVal k, decodeScVal v)) es | None \<Rightarrow> [])"
| "decodeScVal (ScvError e) = TText Error (decodeScError e)"
| "decodeScVal (ScvOther name) = TText Scv (case name of Some s \<Rightarrow> s | None \<Rightarrow> ''unknown'')"
| "decodeScVal ScvMalformed = TText Raw ''undecodable''"

section \<open>Symbols\<close>

text \<open>The two variables \<open>seen\<close> and \<open>out\<close> hold the same symbols.\<close>

fun visit_topic :: "string jsset \<Rightarrow> TopicValue \<Rightarrow> string jsset" where
  "visit_topic out (TText t s) = (if t = Symbol then set_add s out else out)"
| "visit_topic out (TVec vs) = foldl visit_topic out vs"
| "visit_topic out (TMap es) = foldl (\<lambda>out (k, v). visit_topic (visit_topic out k) v) out es"
| "visit_topic out _ = out"

definition collectTopicSymbols :: "TopicValue list \<Rightarrow> string list" where
  "collectTopicSymbols topics = foldl visit_topic [] topics"

definition leadTopicSymbol :: "TopicValue list \<Rightarrow> string option" where
  "leadTopicSymbol topics =
     (case topics of
        TText Symbol s # _ \<Rightarrow> Some s
      | _ \<Rightarrow> (case collectTopicSymbols topics of first # _ \<Rightarrow> Some first | [] \<Rightarrow> None))"

section \<open>Canonical text and hash\<close>

text \<open>The order of \<open>Array.sort\<close> on keys, by code units.\<close>

fun cmp_string :: "string \<Rightarrow> string \<Rightarrow> int" where
  "cmp_string [] [] = 0"
| "cmp_string [] (_ # _) = -1"
| "cmp_string (_ # _) [] = 1"
| "cmp_string (a # s) (b # t) = (if char_code a < char_code b then -1 else if char_code b < char_code a then 1 else cmp_string s t)"

fun canonicalize :: "json \<Rightarrow> json" where
  "canonicalize (JsArr vs) = JsArr (map canonicalize vs)"
| "canonicalize (JsObj fs) = JsObj (js_sort (\<lambda>a b. cmp_string (fst a) (fst b)) (map (\<lambda>(k, v). (k, canonicalize v)) fs))"
| "canonicalize v = v"

definition canonicalJson :: "json \<Rightarrow> string" where
  "canonicalJson v = JSON_stringify (canonicalize v)"

definition tagged :: "string \<Rightarrow> json \<Rightarrow> json" where
  "tagged type v = JsObj [(''type'', JsStr type), (''value'', v)]"

fun topic_json :: "TopicValue \<Rightarrow> json" where
  "topic_json TVoid = tagged ''void'' JsNull"
| "topic_json (TBool b) = tagged ''bool'' (JsBool b)"
| "topic_json (TU32 n) = tagged ''u32'' (JsInt n)"
| "topic_json (TI32 n) = tagged ''i32'' (JsInt n)"
| "topic_json (TText t s) = tagged (text_type_name t) (JsStr s)"
| "topic_json (TVec vs) = tagged ''vec'' (JsArr (map topic_json vs))"
| "topic_json (TMap es) = tagged ''map'' (JsArr (map (\<lambda>(k, v). JsObj [(''key'', topic_json k), (''value'', topic_json v)]) es))"

definition hashTopics :: "(bytes \<Rightarrow> bytes) \<Rightarrow> TopicValue list \<Rightarrow> string" where
  "hashTopics sha256 topics = toHex (sha256 (utf8 (canonicalJson (JsArr (map topic_json topics)))))"

section \<open>Rows\<close>

record DecodedTopic =
  dt_topics :: "TopicValue list"
  dt_topicXdr :: "string list"
  dt_topicSymbols :: "string list"
  dt_topicSymbol :: "string option"
  dt_topicsHash :: string

text \<open>
  An entry of the array is a base64 text, a parsed value with its own text if it can be serialised, or something
  else with the text to which it converts.
\<close>

datatype topic_entry = EntryText string | EntryScv ScVal "string option" | EntryOther string

fun topicEntryToBase64 :: "topic_entry \<Rightarrow> string" where
  "topicEntryToBase64 (EntryText t) = t"
| "topicEntryToBase64 (EntryScv v t) = (case t of Some t \<Rightarrow> t | None \<Rightarrow> '''')"
| "topicEntryToBase64 (EntryOther t) = t"

definition topicEntryToScVal :: "(string \<Rightarrow> ScVal option) \<Rightarrow> topic_entry \<Rightarrow> ScVal option" where
  "topicEntryToScVal fromXDR e =
     (case e of EntryText t \<Rightarrow> if t = '''' then None else fromXDR t | EntryScv v t \<Rightarrow> Some v | EntryOther t \<Rightarrow> None)"

fun decode_entry :: "(string \<Rightarrow> ScVal option) \<Rightarrow> topic_entry \<Rightarrow> TopicValue" where
  "decode_entry fromXDR (EntryText t) =
     (case topicEntryToScVal fromXDR (EntryText t) of Some v \<Rightarrow> decodeScVal v | None \<Rightarrow> TText Raw t)"
| "decode_entry fromXDR (EntryScv v t) = decodeScVal v"
| "decode_entry fromXDR (EntryOther t) = TText Raw t"

definition decodeTopicArray :: "(bytes \<Rightarrow> bytes) \<Rightarrow> (string \<Rightarrow> ScVal option) \<Rightarrow> topic_entry list option \<Rightarrow> DecodedTopic" where
  "decodeTopicArray sha256 fromXDR topic =
     (let entries = (case topic of Some es \<Rightarrow> es | None \<Rightarrow> []);
          topics = map (decode_entry fromXDR) entries in
      \<lparr>dt_topics = topics, dt_topicXdr = map topicEntryToBase64 entries, dt_topicSymbols = collectTopicSymbols topics,
       dt_topicSymbol = leadTopicSymbol topics, dt_topicsHash = hashTopics sha256 topics\<rparr>)"

record TopicIndexRow =
  ti_contractId :: string
  ti_ledgerSeq :: int
  ti_txHash :: "string option"
  ti_topicXdrJson :: "string list"
  ti_topics :: "TopicValue list"
  ti_topicSymbols :: "string list"
  ti_topicSymbol :: "string option"
  ti_topicsHash :: string

record contract_event =
  ev_topic :: "topic_entry list option"
  ev_contractId :: "string option"
  ev_ledgerSeq :: "int option"
  ev_ledger :: "int option"
  ev_txHash :: "string option"
  ev_transactionHash :: "string option"

definition coalesce :: "'a option \<Rightarrow> 'a option \<Rightarrow> 'a option" where
  "coalesce a b = (case a of Some x \<Rightarrow> Some x | None \<Rightarrow> b)"

definition topicIndexRowFromEvent ::
  "(bytes \<Rightarrow> bytes) \<Rightarrow> (string \<Rightarrow> ScVal option) \<Rightarrow> contract_event option \<Rightarrow> string option \<Rightarrow> TopicIndexRow option" where
  "topicIndexRowFromEvent sha256 fromXDR ev contractId =
     (case ev of
        None \<Rightarrow> None
      | Some e \<Rightarrow>
          (case ev_topic e of
             None \<Rightarrow> None
           | Some topic \<Rightarrow>
               if topic = [] then None
               else (let decoded = decodeTopicArray sha256 fromXDR (Some topic) in
                Some \<lparr>ti_contractId = (case coalesce contractId (ev_contractId e) of Some c \<Rightarrow> c | None \<Rightarrow> ''''),
                  ti_ledgerSeq = (case coalesce (ev_ledgerSeq e) (ev_ledger e) of Some n \<Rightarrow> n | None \<Rightarrow> 0),
                  ti_txHash = coalesce (ev_txHash e) (ev_transactionHash e), ti_topicXdrJson = dt_topicXdr decoded,
                  ti_topics = dt_topics decoded, ti_topicSymbols = dt_topicSymbols decoded, ti_topicSymbol = dt_topicSymbol decoded,
                  ti_topicsHash = dt_topicsHash decoded\<rparr>)))"

section \<open>SQL predicates\<close>

definition quoteLiteral :: "string \<Rightarrow> string" where
  "quoteLiteral v = [CHR 0x27] @ concat (map (\<lambda>c. if c = CHR 0x27 then [CHR 0x27, CHR 0x27] else [c]) v) @ [CHR 0x27]"

definition quoted_column :: "string \<Rightarrow> string" where
  "quoted_column name = [CHR 0x22] @ name @ [CHR 0x22]"

definition topicSymbolsAnyOf :: "string list \<Rightarrow> string option" where
  "topicSymbolsAnyOf ss =
     (if ss = [] then None
      else Some (quoted_column ''topicSymbols'' @ '' && ARRAY['' @ join_with '', '' (map quoteLiteral ss) @ '']::text[]''))"

definition topicSymbolsContainAll :: "string list \<Rightarrow> string option" where
  "topicSymbolsContainAll ss =
     (if ss = [] then None
      else Some (quoted_column ''topicSymbols'' @ '' @> ARRAY['' @ join_with '', '' (map quoteLiteral ss) @ '']::text[]''))"

definition topicsContain :: "TopicValue \<Rightarrow> string" where
  "topicsContain topic = quoted_column ''topics'' @ '' @> '' @ quoteLiteral (JSON_stringify (JsArr [topic_json topic])) @ ''::jsonb''"

definition topicSymbolEquals :: "string \<Rightarrow> string" where
  "topicSymbolEquals s = quoted_column ''topicSymbol'' @ '' = '' @ quoteLiteral s"

section \<open>The symbols of a tree\<close>

text \<open>All symbols in the order of the tree.\<close>

fun symbols :: "TopicValue \<Rightarrow> string list" where
  "symbols (TText t s) = (if t = Symbol then [s] else [])"
| "symbols (TVec vs) = concat (map symbols vs)"
| "symbols (TMap es) = concat (map (\<lambda>(k, v). symbols k @ symbols v) es)"
| "symbols _ = []"

lemma set_from_append: "set_from acc (xs @ ys) = set_from (set_from acc xs) ys"
  by (induction xs arbitrary: acc) simp_all

lemma foldl_set_from:
  "(\<And>x acc. x \<in> set xs \<Longrightarrow> f acc x = set_from acc (g x)) \<Longrightarrow> foldl f acc xs = set_from acc (concat (map g xs))"
  by (induction xs arbitrary: acc) (simp_all add: set_from_append)

lemma visit_symbols: "visit_topic out v = set_from out (symbols v)"
proof (induction v arbitrary: out)
  case (TVec vs)
  then show ?case by (simp add: foldl_set_from[where g = symbols])
next
  case (TMap es)
  have "(case e of (k, v) \<Rightarrow> visit_topic (visit_topic acc k) v) = set_from acc (case e of (k, v) \<Rightarrow> symbols k @ symbols v)" if "e \<in> set es" for e acc
    using TMap[OF that] by (cases e) (simp add: set_from_append)
  then show ?case by (simp add: foldl_set_from[where g = "\<lambda>(k, v). symbols k @ symbols v"])
qed simp_all

lemma hd_set_from: "acc \<noteq> [] \<Longrightarrow> set_from acc xs \<noteq> [] \<and> hd (set_from acc xs) = hd acc"
  by (induction xs arbitrary: acc) (auto simp: set_add_def)

lemma lead_set_from: "(case set_from [] xs of first # _ \<Rightarrow> Some first | [] \<Rightarrow> None) = (case xs of s # _ \<Rightarrow> Some s | [] \<Rightarrow> None)"
proof (cases xs)
  case (Cons s ss)
  then show ?thesis using hd_set_from[of "[s]" ss] by (auto simp: set_add_def split: list.splits)
qed simp

text \<open>The indexed symbols are exactly the symbols that occur anywhere in the topics, each once, in the order of their
  first occurrence, and the lead symbol is the first of them.\<close>

theorem topic_symbols_exact:
  "collectTopicSymbols topics = set_from [] (concat (map symbols topics))
   \<and> distinct (collectTopicSymbols topics) \<and> set (collectTopicSymbols topics) = (\<Union>t \<in> set topics. set (symbols t))
   \<and> leadTopicSymbol topics = (case concat (map symbols topics) of s # _ \<Rightarrow> Some s | [] \<Rightarrow> None)"
proof -
  have c: "collectTopicSymbols topics = set_from [] (concat (map symbols topics))"
    unfolding collectTopicSymbols_def by (rule foldl_set_from) (rule visit_symbols)
  have "leadTopicSymbol topics = (case concat (map symbols topics) of s # _ \<Rightarrow> Some s | [] \<Rightarrow> None)"
    unfolding leadTopicSymbol_def c lead_set_from by (auto split: list.splits TopicValue.splits text_type.splits)
  then show ?thesis using c by auto
qed

section \<open>The hash\<close>

lemma bigTypeName_inject [simp]: "bigTypeName b = bigTypeName c \<longleftrightarrow> b = c"
  by (cases b; cases c) simp_all

lemma bigTypeName_others [simp]:
  "bigTypeName b \<noteq> ''symbol''" "bigTypeName b \<noteq> ''string''" "bigTypeName b \<noteq> ''address''" "bigTypeName b \<noteq> ''bytes''"
  "bigTypeName b \<noteq> ''error''" "bigTypeName b \<noteq> ''scv''" "bigTypeName b \<noteq> ''raw''"
  by (cases b; simp)+

lemmas bigTypeName_others_sym [simp] = bigTypeName_others[symmetric]

lemma text_type_name_inject [simp]: "text_type_name s = text_type_name t \<longleftrightarrow> s = t"
  by (cases s; cases t) simp_all

lemma text_type_name_others [simp]:
  "text_type_name t \<noteq> ''void''" "text_type_name t \<noteq> ''bool''" "text_type_name t \<noteq> ''u32''" "text_type_name t \<noteq> ''i32''"
  "text_type_name t \<noteq> ''vec''" "text_type_name t \<noteq> ''map''"
  by (cases t rule: text_type_name.cases; simp; cases "case t of Big b \<Rightarrow> b | _ \<Rightarrow> U64"; simp)+

lemmas text_type_name_others_sym [simp] = text_type_name_others[symmetric]

lemma map_eq_elements: "map f xs = map f ys \<Longrightarrow> (\<And>x y. x \<in> set xs \<Longrightarrow> f x = f y \<Longrightarrow> x = y) \<Longrightarrow> xs = ys"
  by (induction xs arbitrary: ys) (auto simp: Cons_eq_map_conv)

lemma topic_json_inject: "topic_json a = topic_json b \<Longrightarrow> a = b"
proof (induction a arbitrary: b)
  case (TVec vs)
  then obtain ws where b: "b = TVec ws" "map topic_json vs = map topic_json ws" by (cases b) (auto simp: tagged_def)
  then show ?case using map_eq_elements[OF b(2)] TVec.IH by blast
next
  case (TMap es)
  let ?f = "\<lambda>(k, v). JsObj [(''key'', topic_json k), (''value'', topic_json v)]"
  obtain fs where b: "b = TMap fs" "map ?f es = map ?f fs" using TMap.prems by (cases b) (auto simp: tagged_def)
  have "e = e'" if "e \<in> set es" "?f e = ?f e'" for e e'
  proof -
    obtain k v k' v' where e: "e = (k, v)" "e' = (k', v')" by (cases e; cases e') auto
    then have "topic_json k = topic_json k'" "topic_json v = topic_json v'" using that(2) by simp_all
    then have "k = k'" "v = v'" using TMap.IH[OF that(1), of k k'] TMap.IH[OF that(1), of v v'] e(1) by simp_all
    then show ?thesis using e by simp
  qed
  then show ?case using map_eq_elements[OF b(2)] b(1) by blast
next
  case TVoid
  then show ?case by (cases b) (auto simp: tagged_def)
next
  case (TBool x)
  then show ?case by (cases b) (auto simp: tagged_def)
next
  case (TU32 n)
  then show ?case by (cases b) (auto simp: tagged_def)
next
  case (TI32 n)
  then show ?case by (cases b) (auto simp: tagged_def)
next
  case (TText t s)
  then show ?case by (cases b) (auto simp: tagged_def)
qed

lemma canonicalize_topic: "canonicalize (topic_json t) = topic_json t"
proof (induction t)
  case (TVec vs)
  then show ?case by (simp add: tagged_def js_sort_def cong: map_cong)
next
  case (TMap es)
  have "canonicalize (case e of (k, v) \<Rightarrow> JsObj [(''key'', topic_json k), (''value'', topic_json v)]) =
      (case e of (k, v) \<Rightarrow> JsObj [(''key'', topic_json k), (''value'', topic_json v)])" if "e \<in> set es" for e
    using TMap[OF that] by (cases e) (simp add: js_sort_def)
  then show ?case by (simp add: tagged_def js_sort_def cong: map_cong)
qed (simp_all add: tagged_def js_sort_def)

text \<open>C20. The hash identifies the topics: two arrays of topics have the same canonical text exactly when they are equal, so
  they have the same hash exactly when they are equal, unless SHA-256 collides on their texts.\<close>

theorem topics_hash_identifies:
  assumes "inj_on sha256 {utf8 (canonicalJson (JsArr (map topic_json ts))), utf8 (canonicalJson (JsArr (map topic_json us)))}"
  shows "hashTopics sha256 ts = hashTopics sha256 us \<longleftrightarrow> ts = us"
proof -
  have c: "canonicalJson (JsArr (map topic_json xs)) = JSON_stringify (JsArr (map topic_json xs))" for xs
    using canonicalize_topic by (simp add: canonicalJson_def comp_def)
  have "map topic_json ts = map topic_json us \<longleftrightarrow> ts = us" using map_eq_elements[of topic_json ts us] topic_json_inject by blast
  then have "utf8 (canonicalJson (JsArr (map topic_json ts))) = utf8 (canonicalJson (JsArr (map topic_json us))) \<longleftrightarrow> ts = us"
    unfolding c using utf8_inj JSON_stringify_inject json.inject(4) by metis
  then show ?thesis using inj_on_eq_iff[OF assms] by (simp add: hashTopics_def)
qed

theorem topics_hash_identifies_witness:
  "hashTopics (\<lambda>bs. bs) [TText Symbol ''transfer'', TU32 7] \<noteq> hashTopics (\<lambda>bs. bs) [TText String ''transfer'', TU32 7]"
  using topics_hash_identifies [of "\<lambda>bs. bs" "[TText Symbol ''transfer'', TU32 7]" "[TText String ''transfer'', TU32 7]"] by simp

section \<open>Literals\<close>

text \<open>How PostgreSQL reads a literal behind its opening quote: a doubled quote is a quote, any other one ends it.\<close>

fun read_literal :: "string \<Rightarrow> (string \<times> string) option" where
  "read_literal [] = None"
| "read_literal (c # cs) =
     (if c = CHR 0x27 then (case cs of d # ds \<Rightarrow> if d = CHR 0x27 then map_option (\<lambda>(s, r). (CHR 0x27 # s, r)) (read_literal ds) else Some ([], cs)
        | [] \<Rightarrow> Some ([], []))
      else map_option (\<lambda>(s, r). (c # s, r)) (read_literal cs))"

text \<open>A list of literals with separators, up to a text that is neither.\<close>

fun read_literals :: "nat \<Rightarrow> string \<Rightarrow> (string list \<times> string) option" where
  "read_literals 0 t = None"
| "read_literals (Suc n) t =
     (case t of
        c # cs \<Rightarrow>
          if c \<noteq> CHR 0x27 then None
          else (case read_literal cs of
            None \<Rightarrow> None
          | Some (s, r) \<Rightarrow>
              if startsWith r '', '' then map_option (\<lambda>(ss, r'). (s # ss, r')) (read_literals n (drop 2 r)) else Some ([s], r))
      | [] \<Rightarrow> None)"

lemma read_quoted: "r = [] \<or> hd r \<noteq> CHR 0x27 \<Longrightarrow>
  read_literal (concat (map (\<lambda>c. if c = CHR 0x27 then [CHR 0x27, CHR 0x27] else [c]) v) @ CHR 0x27 # r) = Some (v, r)"
  by (induction v) (auto split: list.splits)

lemma quoteLiteral_Cons: "quoteLiteral v @ r = CHR 0x27 # concat (map (\<lambda>c. if c = CHR 0x27 then [CHR 0x27, CHR 0x27] else [c]) v) @ CHR 0x27 # r"
  by (simp add: quoteLiteral_def)

lemma read_joined:
  assumes "r \<noteq> []" "hd r \<noteq> CHR 0x27" "hd r \<noteq> CHR '',''"
  shows "ss \<noteq> [] \<Longrightarrow> length ss \<le> n \<Longrightarrow> read_literals n (join_with '', '' (map quoteLiteral ss) @ r) = Some (ss, r)"
proof (induction ss arbitrary: n)
  case (Cons s ss)
  then obtain k where n: "n = Suc k" "length ss \<le> k" by (cases n) auto
  show ?case
  proof (cases ss)
    case Nil
    have "\<not> startsWith r '', ''" using assms by (cases r) (auto simp: startsWith_def)
    then show ?thesis using n Nil read_quoted[of r s] assms by (simp add: join_with_def quoteLiteral_Cons)
  next
    case (Cons s' ss')
    let ?rest = "join_with '', '' (map quoteLiteral ss) @ r"
    have "join_with '', '' (map quoteLiteral (s # ss)) @ r = quoteLiteral s @ '', '' @ ?rest" using Cons by (simp add: join_with_def)
    then show ?thesis using n Cons.IH[of k] Cons read_quoted[of "'', '' @ ?rest" s] by (simp add: quoteLiteral_Cons startsWith_def)
  qed
qed simp

text \<open>C21. Symbols in a query cannot change it: whatever characters the symbols hold, the reader of SQL literals gets back
  exactly the list of symbols from the predicate and stops at the end of its array.\<close>

theorem predicates_quote_symbols:
  assumes "ss \<noteq> []"
  shows "\<exists>sql. topicSymbolsAnyOf ss = Some (quoted_column ''topicSymbols'' @ '' && ARRAY['' @ sql) \<and> topicSymbolsContainAll ss =
      Some (quoted_column ''topicSymbols'' @ '' @> ARRAY['' @ sql) \<and> read_literals (length ss) sql = Some (ss, '']::text[]'')"
  using assms read_joined[of "'']::text[]''" ss "length ss"] by (simp add: topicSymbolsAnyOf_def topicSymbolsContainAll_def)

theorem predicates_quote_symbols_witness:
  "\<exists>sql. topicSymbolsAnyOf [''x'' @ [CHR 0x27] @ ''] OR true --''] = Some (quoted_column ''topicSymbols'' @ '' && ARRAY['' @ sql)
     \<and> read_literals 1 sql = Some ([''x'' @ [CHR 0x27] @ ''] OR true --''], '']::text[]'')"
  using predicates_quote_symbols [of "[''x'' @ [CHR 0x27] @ ''] OR true --'']"] by auto

end
