(* ===== verification/Idempotency.thy ===== *)
theory Idempotency
  imports RedisStore JsonText "HOL-Library.Monad_Syntax"
begin

text \<open>
  Idempotency keys of mutating requests (\<open>apps/api/src/middleware/idempotency.middleware.ts\<close>): the hooks of a whole
  application (\<open>registerIdempotency\<close>) and of a single route (\<open>idempotencyHooks\<close>), in the order in which Fastify runs them
  with the authentication of \<open>modules/wallets/wallets.routes.ts\<close> and \<open>modules/webhooks/webhooks.routes.ts\<close>. Redis, the clock, the
  result of the authentication, and the handler with the scope checks of its route are arguments. Instants are milliseconds.
\<close>

section \<open>Cached responses\<close>

record CachedResponse =
  cr_statusCode :: nat
  cr_body :: string
  cr_contentType :: string

definition stringify_entry :: "CachedResponse \<Rightarrow> string" where
  "stringify_entry e =
     [CHR ''{''] @ json_string ''statusCode'' @ '':'' @ nat_str (cr_statusCode e)
       @ '','' @ json_string ''body'' @ '':'' @ json_string (cr_body e)
       @ '','' @ json_string ''contentType'' @ '':'' @ json_string (cr_contentType e) @ [CHR ''}'']"

text \<open>\<open>JSON.parse\<close> on the texts that the program stores under its keys: no other text is an entry.\<close>

definition strip :: "string \<Rightarrow> string \<Rightarrow> string option" where
  "strip p s = (if startsWith s p then Some (drop (length p) s) else None)"

definition parse_entry :: "string \<Rightarrow> CachedResponse option" where
  "parse_entry text =
     do {
       s \<leftarrow> strip ([CHR ''{''] @ json_string ''statusCode'' @ '':'') text;
       let status = takeWhile is_digit s;
       s \<leftarrow> strip ('','' @ json_string ''body'' @ '':'' @ [CHR 0x22]) (dropWhile is_digit s);
       (body, s) \<leftarrow> read_string s;
       s \<leftarrow> strip ('','' @ json_string ''contentType'' @ '':'' @ [CHR 0x22]) s;
       (contentType, s) \<leftarrow> read_string s;
       if s = [CHR ''}''] \<and> status \<noteq> [] then Some \<lparr>cr_statusCode = dec_val status, cr_body = body, cr_contentType = contentType\<rparr> else None
     }"

section \<open>The hooks\<close>

datatype idempotency_header = NoHeader | OneHeader string | ManyHeaders "string list"

record http_request =
  rq_method :: string
  rq_header :: idempotency_header
  rq_user :: "string option"
  rq_at :: int
  rq_sent :: int
  rq_get_ok :: bool
  rq_set_ok :: bool
  rq_body :: string

text \<open>
  A request carries what happens to it: the user that the authentication finds, the instants of the lookup
  and of the answer, and whether the commands of Redis succeed. A payload that is no string comes as its text.
\<close>

datatype reply_payload = PString string | PValue string

record reply =
  rp_statusCode :: nat
  rp_payload :: reply_payload
  rp_contentType :: "string option"

definition MUTATION_METHODS :: "string list" where
  "MUTATION_METHODS = [''POST'', ''PUT'', ''PATCH'', ''DELETE'']"

definition MAX_KEY_LENGTH :: nat where "MAX_KEY_LENGTH = 255"

definition DEFAULT_TTL_SECONDS :: int where "DEFAULT_TTL_SECONDS = 86400"

definition word_char :: "char \<Rightarrow> bool" where
  "word_char c \<longleftrightarrow> is_digit c \<or> (65 \<le> char_code c \<and> char_code c \<le> 90) \<or> (97 \<le> char_code c \<and> char_code c \<le> 122) \<or> c = CHR ''_''"

definition SAFE_KEY_RE :: "string \<Rightarrow> bool" where
  "SAFE_KEY_RE s \<longleftrightarrow> 1 \<le> length s \<and> length s \<le> 255 \<and> list_all (\<lambda>c. word_char c \<or> c = CHR ''-'') s"

definition ttl :: "string option \<Rightarrow> int" where
  "ttl raw =
     (case raw of
        None \<Rightarrow> DEFAULT_TTL_SECONDS
      | Some s \<Rightarrow>
          (case parseInt10 s of
             Some parsed \<Rightarrow> if parsed > 0 then parsed else DEFAULT_TTL_SECONDS
           | None \<Rightarrow> DEFAULT_TTL_SECONDS))"

definition buildRedisKey :: "string option \<Rightarrow> string \<Rightarrow> string" where
  "buildRedisKey userId key = ''idempotency:'' @ (case userId of Some u \<Rightarrow> u | None \<Rightarrow> ''anon'') @ '':'' @ key"

definition key_header :: "idempotency_header \<Rightarrow> string option" where
  "key_header h =
     (case (case h of NoHeader \<Rightarrow> None | OneHeader s \<Rightarrow> Some s | ManyHeaders ss \<Rightarrow> (case ss of [] \<Rightarrow> None | s # _ \<Rightarrow> Some s)) of
        Some s \<Rightarrow> if s = '''' then None else Some s
      | None \<Rightarrow> None)"

text \<open>The first hook answers the request, or lets it pass and leaves the key for the second hook.\<close>

datatype check_result = Proceed "string option" | InvalidKey | Replay CachedResponse

definition check_key :: "(string \<Rightarrow> string option option) \<Rightarrow> string \<Rightarrow> idempotency_header \<Rightarrow> string option \<Rightarrow> check_result" where
  "check_key get meth h userId =
     (if meth \<notin> set MUTATION_METHODS then Proceed None
      else case key_header h of
        None \<Rightarrow> Proceed None
      | Some key \<Rightarrow>
          if length key > MAX_KEY_LENGTH \<or> \<not> SAFE_KEY_RE key then InvalidKey
          else (let redisKey = buildRedisKey userId key in
            case get redisKey of
              None \<Rightarrow> Proceed None
            | Some raw \<Rightarrow>
                (case raw of
                   None \<Rightarrow> Proceed (Some redisKey)
                 | Some text \<Rightarrow>
                     if text = '''' then Proceed (Some redisKey)
                     else case parse_entry text of None \<Rightarrow> Proceed None | Some cached \<Rightarrow> Replay cached)))"

definition entry_of :: "reply \<Rightarrow> CachedResponse" where
  "entry_of rep =
     \<lparr>cr_statusCode = rp_statusCode rep, cr_body = (case rp_payload rep of PString s \<Rightarrow> s | PValue s \<Rightarrow> s),
      cr_contentType = (case rp_contentType rep of Some t \<Rightarrow> t | None \<Rightarrow> ''application/json'')\<rparr>"

definition successful :: "reply \<Rightarrow> bool" where
  "successful rep \<longleftrightarrow> \<not> (rp_statusCode rep < 200 \<or> rp_statusCode rep \<ge> 300)"

definition on_send :: "'r timed_redis \<Rightarrow> string option \<Rightarrow> http_request \<Rightarrow> string option \<Rightarrow> reply \<Rightarrow> 'r \<Rightarrow> 'r" where
  "on_send c env q stash rep r =
     (case stash of
        None \<Rightarrow> r
      | Some redisKey \<Rightarrow>
          if \<not> successful rep then r
          else if rq_set_ok q then tr_put c (rq_sent q) r redisKey (stringify_entry (entry_of rep)) (Some (ttl env))
          else r)"

section \<open>Requests\<close>

datatype outcome = Unauthorized | BadKey | Replayed CachedResponse | Handled reply

definition redis_get :: "'r timed_redis \<Rightarrow> http_request \<Rightarrow> 'r \<Rightarrow> string \<Rightarrow> string option option" where
  "redis_get c q r k = (if rq_get_ok q then Some (tr_get c (rq_at q) r k) else None)"

text \<open>With \<open>registerIdempotency\<close> after the authentication, both are hooks of the stage \<open>preHandler\<close> and run in this order.\<close>

definition serve_registered ::
  "'r timed_redis \<Rightarrow> string option \<Rightarrow> (http_request \<Rightarrow> reply) \<Rightarrow> 'r \<Rightarrow> http_request \<Rightarrow> 'r \<times> outcome" where
  "serve_registered c env handler r q =
     (case rq_user q of
        None \<Rightarrow> (r, Unauthorized)
      | Some u \<Rightarrow>
          (case check_key (redis_get c q r) (rq_method q) (rq_header q) (Some u) of
             InvalidKey \<Rightarrow> (r, BadKey)
           | Replay e \<Rightarrow> (r, Replayed e)
           | Proceed stash \<Rightarrow> (on_send c env q stash (handler q) r, Handled (handler q))))"

text \<open>
  The hooks of \<open>idempotencyHooks\<close> run in the stage \<open>preValidation\<close>, before the authentication in the stage
  \<open>preHandler\<close>: the request has no user yet.
\<close>

definition serve_route ::
  "'r timed_redis \<Rightarrow> string option \<Rightarrow> (http_request \<Rightarrow> reply) \<Rightarrow> 'r \<Rightarrow> http_request \<Rightarrow> 'r \<times> outcome" where
  "serve_route c env handler r q =
     (case check_key (redis_get c q r) (rq_method q) (rq_header q) None of
        InvalidKey \<Rightarrow> (r, BadKey)
      | Replay e \<Rightarrow> (r, Replayed e)
      | Proceed stash \<Rightarrow>
          (case rq_user q of
             None \<Rightarrow> (r, Unauthorized)
           | Some u \<Rightarrow> (on_send c env q stash (handler q) r, Handled (handler q))))"

fun serve_all :: "('r \<Rightarrow> http_request \<Rightarrow> 'r \<times> outcome) \<Rightarrow> 'r \<Rightarrow> http_request list \<Rightarrow> 'r \<times> (http_request \<times> outcome) list" where
  "serve_all serve r [] = (r, [])"
| "serve_all serve r (q # qs) =
     (case serve r q of (r', res) \<Rightarrow> case serve_all serve r' qs of (r'', rest) \<Rightarrow> (r'', (q, res) # rest))"

section \<open>Entries can be read back\<close>

lemma strip_append: "strip p (p @ s) = Some s"
  by (simp add: strip_def startsWith_def)

lemma digit_run: "list_all is_digit ds \<Longrightarrow> \<not> is_digit c \<Longrightarrow> takeWhile is_digit (ds @ c # s) = ds \<and> dropWhile is_digit (ds @ c # s) = c # s"
  by (induction ds) auto

lemma parse_stringify: "parse_entry (stringify_entry e) = Some e"
proof -
  let ?p = "[CHR ''{''] @ json_string ''statusCode'' @ '':''" and ?n = "nat_str (cr_statusCode e)"
  let ?b = "'','' @ json_string ''body'' @ '':'' @ [CHR 0x22]" and ?c = "'','' @ json_string ''contentType'' @ '':'' @ [CHR 0x22]"
  let ?cs = "concat (map json_char (cr_contentType e)) @ CHR 0x22 # [CHR ''}'']"
  let ?bs = "concat (map json_char (cr_body e)) @ CHR 0x22 # ?c @ ?cs"
  have t: "stringify_entry e = ?p @ ?n @ ?b @ ?bs" unfolding stringify_entry_def json_string_def by simp
  have n: "takeWhile is_digit (?n @ ?b @ ?bs) = ?n" "dropWhile is_digit (?n @ ?b @ ?bs) = ?b @ ?bs"
    using digit_run[of ?n "CHR '',''" "tl ?b @ ?bs"] nat_str_digits by (auto simp: list_all_iff is_digit_def[of "CHR '',''"])
  show ?thesis unfolding parse_entry_def t strip_append n read_json_string Let_def bind.bind_lunit prod.case by simp
qed

interpretation entries: codec stringify_entry parse_entry "\<lambda>_. True"
  by unfold_locales (rule parse_stringify)

section \<open>Keys\<close>

definition uses_key :: "http_request \<Rightarrow> string \<Rightarrow> string \<Rightarrow> bool" where
  "uses_key q u k \<longleftrightarrow> rq_user q = Some u \<and> key_header (rq_header q) = Some k \<and> SAFE_KEY_RE k \<and> rq_method q \<in> set MUTATION_METHODS"

lemma ttl_pos: "0 < ttl env"
  by (auto simp: ttl_def DEFAULT_TTL_SECONDS_def split: option.splits)

lemma safe_no_colon: "SAFE_KEY_RE k \<Longrightarrow> CHR '':'' \<notin> set k"
  by (auto simp: SAFE_KEY_RE_def word_char_def is_digit_def list_all_iff)

lemma last_colon: "CHR '':'' \<notin> set k \<Longrightarrow> takeWhile (\<lambda>x. x \<noteq> CHR '':'') (rev (u @ CHR '':'' # k)) = rev k"
  by (simp, subst takeWhile_append2) auto

text \<open>Keys of different users, and different keys of one user, are different keys of Redis.\<close>

lemma redis_key_inject:
  assumes "SAFE_KEY_RE k" "SAFE_KEY_RE k'"
  shows "buildRedisKey (Some u) k = buildRedisKey (Some u') k' \<longleftrightarrow> u = u' \<and> k = k'"
proof
  assume "buildRedisKey (Some u) k = buildRedisKey (Some u') k'"
  then have e: "u @ CHR '':'' # k = u' @ CHR '':'' # k'" by (simp add: buildRedisKey_def)
  then have "rev k = rev k'" using last_colon[OF safe_no_colon[OF assms(1)], of u] last_colon[OF safe_no_colon[OF assms(2)], of u'] by metis
  then show "u = u' \<and> k = k'" using e by simp
qed simp

lemma stringify_not_empty: "stringify_entry e \<noteq> ''''"
  by (simp add: stringify_entry_def)

section \<open>One request\<close>

definition written :: "'r timed_redis \<Rightarrow> string option \<Rightarrow> (http_request \<Rightarrow> reply) \<Rightarrow> 'r \<Rightarrow> http_request \<Rightarrow> string \<Rightarrow> string \<Rightarrow> 'r" where
  "written c env h r q u k = tr_put c (rq_sent q) r (buildRedisKey (Some u) k) (stringify_entry (entry_of (h q))) (Some (ttl env))"

lemma check_Proceed:
  assumes "check_key (redis_get c q r) (rq_method q) (rq_header q) (Some u) = Proceed (Some s)" "rq_user q = Some u"
  obtains k where "uses_key q u k" "s = buildRedisKey (Some u) k" "rq_get_ok q" "tr_get c (rq_at q) r s \<in> {None, Some ''''}"
  using assms unfolding check_key_def redis_get_def uses_key_def Let_def
  by (auto split: if_splits option.splits)

lemma check_Replay:
  assumes "check_key (redis_get c q r) (rq_method q) (rq_header q) (Some u) = Replay e" "rq_user q = Some u"
  obtains k raw where "uses_key q u k" "tr_get c (rq_at q) r (buildRedisKey (Some u) k) = Some raw" "parse_entry raw = Some e"
  using assms unfolding check_key_def redis_get_def uses_key_def Let_def
  by (auto split: if_splits option.splits)

lemma check_lookup:
  assumes "uses_key q u k" "rq_get_ok q"
  shows "tr_get c (rq_at q) r (buildRedisKey (Some u) k) = None \<Longrightarrow>
      check_key (redis_get c q r) (rq_method q) (rq_header q) (Some u) = Proceed (Some (buildRedisKey (Some u) k))"
    "tr_get c (rq_at q) r (buildRedisKey (Some u) k) = Some (stringify_entry e) \<Longrightarrow>
      check_key (redis_get c q r) (rq_method q) (rq_header q) (Some u) = Replay e"
  using assms by (simp_all add: check_key_def redis_get_def uses_key_def SAFE_KEY_RE_def MAX_KEY_LENGTH_def stringify_not_empty parse_stringify)

lemma served_cases:
  assumes "serve_registered c env h r q = (r', res)"
  obtains (same) "r' = r" "\<forall>e. res \<noteq> Replayed e"
    | (replayed) u k raw e where "r' = r" "res = Replayed e" "uses_key q u k"
        "tr_get c (rq_at q) r (buildRedisKey (Some u) k) = Some raw" "parse_entry raw = Some e"
    | (written) u k where "r' = written c env h r q u k" "res = Handled (h q)" "uses_key q u k" "successful (h q)" "rq_get_ok q"
        "tr_get c (rq_at q) r (buildRedisKey (Some u) k) \<in> {None, Some ''''}"
proof (cases "rq_user q")
  case None
  then show thesis using assms same by (simp add: serve_registered_def)
next
  case (Some u)
  show thesis
  proof (cases "check_key (redis_get c q r) (rq_method q) (rq_header q) (Some u)")
    case (Proceed stash)
    then have r: "r' = on_send c env q stash (h q) r" "res = Handled (h q)" using assms Some by (simp_all add: serve_registered_def)
    show thesis
    proof (cases "r' = r")
      case False
      then obtain s where s: "stash = Some s" "successful (h q)"
          "r' = tr_put c (rq_sent q) r s (stringify_entry (entry_of (h q))) (Some (ttl env))"
        using r(1) by (auto simp: on_send_def split: option.splits if_splits)
      from check_Proceed[OF Proceed[unfolded s(1)] Some] obtain k where "uses_key q u k" "s = buildRedisKey (Some u) k" "rq_get_ok q"
        "tr_get c (rq_at q) r s \<in> {None, Some ''''}" .
      then show thesis using written[of u k] s r(2) by (simp add: written_def)
    qed (use same r(2) in simp)
  next
    case InvalidKey
    then show thesis using assms Some same by (simp add: serve_registered_def)
  next
    case (Replay e)
    then have "r' = r" "res = Replayed e" using assms Some by (simp_all add: serve_registered_def)
    then show thesis using check_Replay[OF Replay Some] replayed by metis
  qed
qed

lemma first_request_written:
  assumes "uses_key q u k" "rq_get_ok q" "rq_set_ok q" "tr_get c (rq_at q) r (buildRedisKey (Some u) k) = None" "successful (h q)"
  shows "serve_registered c env h r q = (written c env h r q u k, Handled (h q))"
  using assms(1,3,5) check_lookup(1)[OF assms(1,2,4)] by (simp add: serve_registered_def on_send_def written_def uses_key_def)

lemma stored_request_replayed:
  assumes "uses_key q u k" "rq_get_ok q" "tr_get c (rq_at q) r (buildRedisKey (Some u) k) = Some (stringify_entry e)"
  shows "serve_registered c env h r q = (r, Replayed e)"
  using check_lookup(2)[OF assms] assms(1) by (simp add: serve_registered_def uses_key_def)

text \<open>A lookup does not reserve the key: two requests that look it up before either is answered both run the handler.\<close>

lemma overlapping_requests_both_run:
  assumes "uses_key q u k" "uses_key q' u k" "rq_get_ok q" "rq_get_ok q'"
    and "tr_get c (rq_at q) r (buildRedisKey (Some u) k) = None" "tr_get c (rq_at q') r (buildRedisKey (Some u) k) = None"
  shows "snd (serve_registered c env h r q) = Handled (h q) \<and> snd (serve_registered c env h r q') = Handled (h q')"
  using check_lookup(1)[OF assms(1,3,5)] check_lookup(1)[OF assms(2,4,6)] assms(1,2) by (simp add: serve_registered_def uses_key_def)

section \<open>Runs\<close>

text \<open>Requests that are served one after the other.\<close>

fun in_order :: "int \<Rightarrow> http_request list \<Rightarrow> bool" where
  "in_order t [] = True"
| "in_order t (q # qs) \<longleftrightarrow> t \<le> rq_at q \<and> rq_at q \<le> rq_sent q \<and> in_order (rq_sent q) qs"

lemma in_order_after: "in_order t qs \<Longrightarrow> q \<in> set qs \<Longrightarrow> t \<le> rq_at q"
  by (induction qs arbitrary: t) force+

text \<open>What is stored was answered to a request of the same user with the same key.\<close>

definition produced :: "'r timed_redis \<Rightarrow> (http_request \<Rightarrow> reply) \<Rightarrow> int \<Rightarrow> (http_request \<times> outcome) list \<Rightarrow> 'r \<Rightarrow> bool" where
  "produced c h t log r \<longleftrightarrow> (\<forall>t' \<ge> t. \<forall>u k v. SAFE_KEY_RE k \<longrightarrow> tr_get c t' r (buildRedisKey (Some u) k) = Some v \<longrightarrow>
     (\<exists>q. (q, Handled (h q)) \<in> set log \<and> uses_key q u k \<and> successful (h q) \<and> v = stringify_entry (entry_of (h q))))"

lemma written_get:
  assumes "redis_contract c" "rq_sent q \<le> t" "SAFE_KEY_RE k" "SAFE_KEY_RE k'"
  shows "u' = u \<and> k' = k \<Longrightarrow> tr_get c t (written c env h r q u k) (buildRedisKey (Some u') k') = Some v \<Longrightarrow> v = stringify_entry (entry_of (h q))"
    "u' = u \<and> k' = k \<Longrightarrow> t < rq_sent q + ttl env * 1000 \<Longrightarrow>
       tr_get c t (written c env h r q u k) (buildRedisKey (Some u') k') = Some (stringify_entry (entry_of (h q)))"
    "\<not> (u' = u \<and> k' = k) \<Longrightarrow>
       tr_get c t (written c env h r q u k) (buildRedisKey (Some u') k') = tr_get c t r (buildRedisKey (Some u') k')"
proof -
  have kv: "kv_store (tr_get c) (tr_put c) (tr_set_nx c) (tr_del c)" using assms(1) by (simp add: redis_contract_def)
  show "u' = u \<and> k' = k \<Longrightarrow> tr_get c t (written c env h r q u k) (buildRedisKey (Some u') k') = Some v \<Longrightarrow> v = stringify_entry (entry_of (h q))"
    using kv_store.put_only[OF kv assms(2)] by (simp add: written_def)
  show "u' = u \<and> k' = k \<Longrightarrow> t < rq_sent q + ttl env * 1000 \<Longrightarrow>
      tr_get c t (written c env h r q u k) (buildRedisKey (Some u') k') = Some (stringify_entry (entry_of (h q)))"
    using kv_store.put_get[OF kv assms(2)] by (simp add: written_def)
  show "\<not> (u' = u \<and> k' = k) \<Longrightarrow>
      tr_get c t (written c env h r q u k) (buildRedisKey (Some u') k') = tr_get c t r (buildRedisKey (Some u') k')"
    using kv_store.put_frame[OF kv assms(2)] redis_key_inject[OF assms(4,3)] by (simp add: written_def)
qed

lemma produced_mono: "produced c h t log r \<Longrightarrow> t \<le> t' \<Longrightarrow> set log \<subseteq> set log' \<Longrightarrow> produced c h t' log' r"
  unfolding produced_def by (meson order_trans subsetD)

lemma produced_written:
  assumes "redis_contract c" "produced c h t log r" "t \<le> rq_sent q" "uses_key q u k" "successful (h q)"
  shows "produced c h (rq_sent q) (log @ [(q, Handled (h q))]) (written c env h r q u k)"
  unfolding produced_def
proof (intro allI impI)
  fix t' u' k' v assume h: "rq_sent q \<le> t'" "SAFE_KEY_RE k'" "tr_get c t' (written c env h r q u k) (buildRedisKey (Some u') k') = Some v"
  have k: "SAFE_KEY_RE k" using assms(4) by (simp add: uses_key_def)
  note w = written_get[OF assms(1) h(1) k h(2), of u' u env h r]
  show "\<exists>q'. (q', Handled (h q')) \<in> set (log @ [(q, Handled (h q))]) \<and> uses_key q' u' k' \<and> successful (h q') \<and> v = stringify_entry (entry_of (h q'))"
  proof (cases "u' = u \<and> k' = k")
    case True
    then show ?thesis using w(1)[OF True h(3)] assms(4,5) by (intro exI[of _ q]) simp
  next
    case False
    then have "tr_get c t' r (buildRedisKey (Some u') k') = Some v" using w(3) h(3) by simp
    then show ?thesis using assms(2,3) h(1,2) unfolding produced_def by (metis Un_iff order_trans set_append)
  qed
qed

lemma produced_step:
  assumes "redis_contract c" "produced c h t log r" "t \<le> rq_at q" "rq_at q \<le> rq_sent q" "serve_registered c env h r q = (r', res)"
  shows "produced c h (rq_sent q) (log @ [(q, res)]) r'"
  using assms(5)
proof (cases rule: served_cases)
  case (written u k)
  then show ?thesis using produced_written[OF assms(1,2)] assms(3,4) by simp
qed (use assms(2-4) in \<open>auto intro: produced_mono\<close>)

lemma replayed_was_produced:
  assumes "redis_contract c" "produced c h t log r" "in_order t qs" "serve_all (serve_registered c env h) r qs = (r', os)"
    and "os = pre @ (q, Replayed e) # post"
  shows "\<exists>u k q'. uses_key q u k \<and> uses_key q' u k \<and> (q', Handled (h q')) \<in> set (log @ pre) \<and> successful (h q') \<and> e = entry_of (h q')"
  using assms(2-5)
proof (induction qs arbitrary: t log r os pre)
  case (Cons x qs)
  obtain r1 res where s: "serve_registered c env h r x = (r1, res)" by (cases "serve_registered c env h r x")
  obtain rest where rest: "serve_all (serve_registered c env h) r1 qs = (r', rest)" "os = (x, res) # rest"
    using Cons.prems(3) s by (auto split: prod.splits)
  have t: "t \<le> rq_at x" "rq_at x \<le> rq_sent x" "in_order (rq_sent x) qs" using Cons.prems(2) by simp_all
  show ?case
  proof (cases pre)
    case Nil
    then have x: "x = q" "res = Replayed e" using rest(2) Cons.prems(4) by simp_all
    from s show ?thesis
    proof (cases rule: served_cases)
      case (replayed u k raw e')
      then have "SAFE_KEY_RE k" by (simp add: uses_key_def)
      then obtain q' where "(q', Handled (h q')) \<in> set log" "uses_key q' u k" "successful (h q')" "raw = stringify_entry (entry_of (h q'))"
        using Cons.prems(1) t(1) replayed(4) unfolding produced_def by blast
      then show ?thesis using replayed x by (auto simp: parse_stringify)
    qed (use x in auto)
  next
    case (Cons y pre')
    then have p: "rest = pre' @ (q, Replayed e) # post" "(x, res) = y" using rest(2) Cons.prems(4) by simp_all
    from Cons.IH[OF produced_step[OF assms(1) Cons.prems(1) t(1,2) s] t(3) rest(1) p(1)] show ?thesis using Cons p(2) by simp
  qed
qed simp


text \<open>Two requests of a user with one key, on the in-memory cache.\<close>

definition post_at :: "int \<Rightarrow> http_request" where
  "post_at t = \<lparr>rq_method = ''POST'', rq_header = OneHeader ''k-1'', rq_user = Some ''u1'', rq_at = t, rq_sent = t + 1, rq_get_ok = True,
     rq_set_ok = True, rq_body = ''{}''\<rparr>"

definition created :: "http_request \<Rightarrow> reply" where
  "created q = \<lparr>rp_statusCode = 201, rp_payload = PString ''{}'', rp_contentType = None\<rparr>"

lemma post_uses_key: "uses_key (post_at t) ''u1'' ''k-1''"
  by (simp add: uses_key_def post_at_def key_header_def SAFE_KEY_RE_def word_char_def is_digit_def MUTATION_METHODS_def)

lemma post_fields [simp]: "rq_at (post_at t) = t" "rq_sent (post_at t) = t + 1" "rq_get_ok (post_at t)" "rq_set_ok (post_at t)"
  by (simp_all add: post_at_def)

lemma empty_cache: "tr_get mem_redis t newMemoryFallbackCache k = None"
  by (simp add: mem_lookup_alt newMemoryFallbackCache_def)

lemma posts_run:
  "serve_all (serve_registered mem_redis None created) newMemoryFallbackCache [post_at 1, post_at 5] =
     (written mem_redis None created newMemoryFallbackCache (post_at 1) ''u1'' ''k-1'',
      [(post_at 1, Handled (created (post_at 1))), (post_at 5, Replayed (entry_of (created (post_at 1))))])"
proof -
  have safe: "SAFE_KEY_RE ''k-1''" using post_uses_key by (simp add: uses_key_def)
  have ok: "successful (created (post_at 1))" by (simp add: successful_def created_def)
  have "tr_get mem_redis (rq_at (post_at 5)) (written mem_redis None created newMemoryFallbackCache (post_at 1) ''u1'' ''k-1'')
      (buildRedisKey (Some ''u1'') ''k-1'') = Some (stringify_entry (entry_of (created (post_at 1))))"
    by (rule written_get(2)[OF mem_redis_contract _ safe safe]) (simp_all add: ttl_def DEFAULT_TTL_SECONDS_def)
  from stored_request_replayed[OF post_uses_key _ this]
  show ?thesis using first_request_written[where h = created and env = None, OF post_uses_key _ _ empty_cache ok] by simp
qed


definition stored :: "'r timed_redis \<Rightarrow> int \<Rightarrow> int \<Rightarrow> string \<Rightarrow> string \<Rightarrow> CachedResponse \<Rightarrow> 'r \<Rightarrow> bool" where
  "stored c t T u k e r \<longleftrightarrow> (\<forall>t'. t \<le> t' \<longrightarrow> t' < T \<longrightarrow> tr_get c t' r (buildRedisKey (Some u) k) = Some (stringify_entry e))"

lemma stored_step:
  assumes "redis_contract c" "SAFE_KEY_RE k" "stored c t T u k e r" "t \<le> rq_at q" "rq_at q \<le> rq_sent q"
    and "serve_registered c env h r q = (r', res)"
  shows "stored c (rq_sent q) T u k e r'"
  using assms(6)
proof (cases rule: served_cases)
  case (written u' k')
  have safe: "SAFE_KEY_RE k'" using written(3) by (simp add: uses_key_def)
  show ?thesis
  proof (cases "u = u' \<and> k = k'")
    case True
    then have "\<not> rq_at q < T" using written(6) assms(3,4) stringify_not_empty[of e] by (auto simp: stored_def)
    then show ?thesis using assms(5) by (simp add: stored_def)
  next
    case False
    then show ?thesis using assms(3-5) written_get(3)[OF assms(1) _ safe assms(2) False] written(1) by (simp add: stored_def)
  qed
qed (use assms(3-5) in \<open>auto simp: stored_def\<close>)

lemma stored_is_replayed:
  assumes "redis_contract c" "SAFE_KEY_RE k" "stored c t T u k e r" "in_order t qs"
    and "serve_all (serve_registered c env h) r qs = (r', os)" "(q, res) \<in> set os" "uses_key q u k" "rq_get_ok q" "rq_at q < T"
  shows "res = Replayed e"
  using assms(3-6)
proof (induction qs arbitrary: t r os)
  case (Cons x qs)
  obtain r1 res1 where s: "serve_registered c env h r x = (r1, res1)" by (cases "serve_registered c env h r x")
  obtain rest where rest: "serve_all (serve_registered c env h) r1 qs = (r', rest)" "os = (x, res1) # rest"
    using Cons.prems(3) s by (auto split: prod.splits)
  have t: "t \<le> rq_at x" "rq_at x \<le> rq_sent x" "in_order (rq_sent x) qs" using Cons.prems(2) by simp_all
  show ?case
  proof (cases "(q, res) = (x, res1)")
    case True
    then have "tr_get c (rq_at q) r (buildRedisKey (Some u) k) = Some (stringify_entry e)" using Cons.prems(1) t(1) assms(9) by (simp add: stored_def)
    from stored_request_replayed[OF assms(7,8) this] show ?thesis using s True by simp
  next
    case False
    then have "(q, res) \<in> set rest" using Cons.prems(4) rest(2) by auto
    from Cons.IH[OF stored_step[OF assms(1,2) Cons.prems(1) t(1,2) s] t(3) rest(1) this] show ?thesis .
  qed
qed simp



text \<open>The hooks of a route look a key up before the authentication: a request that is not authenticated gets the
  stored answer to another user.\<close>

lemma route_replays_to_strangers:
  assumes "redis_contract c" "uses_key q u k" "rq_get_ok q" "rq_set_ok q" "tr_get c (rq_at q) r (buildRedisKey None k) = None"
    and "successful (h q)" "rq_user q' = None" "rq_header q' = rq_header q" "rq_method q' = rq_method q" "rq_get_ok q'"
    and "rq_sent q \<le> rq_at q'" "rq_at q' < rq_sent q + ttl env * 1000"
  shows "\<exists>r'. serve_all (serve_route c env h) r [q, q'] = (r', [(q, Handled (h q)), (q', Replayed (entry_of (h q)))])"
proof -
  have kv: "kv_store (tr_get c) (tr_put c) (tr_set_nx c) (tr_del c)" using assms(1) by (simp add: redis_contract_def)
  note simps = uses_key_def serve_route_def check_key_def redis_get_def on_send_def SAFE_KEY_RE_def MAX_KEY_LENGTH_def
  have "serve_route c env h r q =
      (tr_put c (rq_sent q) r (buildRedisKey None k) (stringify_entry (entry_of (h q))) (Some (ttl env)), Handled (h q))"
    using assms(2-6) by (simp add: simps)
  moreover have "tr_get c (rq_at q') (tr_put c (rq_sent q) r (buildRedisKey None k) (stringify_entry (entry_of (h q))) (Some (ttl env)))
      (buildRedisKey None k) = Some (stringify_entry (entry_of (h q)))"
    using kv_store.put_get[OF kv assms(11)] assms(12) by simp
  ultimately show ?thesis using assms(2,8-10) by (simp add: simps stringify_not_empty parse_stringify)
qed

end
