(* ===== verification/DbFailover.thy ===== *)
theory DbFailover
  imports Prelude "HOL-Library.Sublist"
begin

text \<open>
  Failover of the database (\<open>apps/api/src/lib/db-failover.ts\<close>) and the read-only mode of the API
  (\<open>apps/api/src/plugins/degraded-mode.ts\<close>). The controller is a machine over the completions of the calls that it awaits:
  probes of the primary, commands on the Redis list and handlers of mutations, which succeed or fail at will and
  may interleave with further probes. Instants are milliseconds. Listeners and log texts are left out.
\<close>

section \<open>The controller\<close>

datatype FailoverState = HEALTHY | DEGRADED_READ_ONLY

datatype DatabaseTarget = PRIMARY | REPLICA

record FailoverConfig =
  probeIntervalMs :: nat
  probeTimeoutMs :: nat
  failureThreshold :: nat
  recoveryThreshold :: nat
  bufferKey :: string
  maxBufferSize :: nat

text \<open>The numbers of the environment; nothing stands for a variable that is missing, zero or not a number.\<close>

definition env_number :: "nat option \<Rightarrow> nat \<Rightarrow> nat" where
  "env_number v d = (case v of Some n \<Rightarrow> if n = 0 then d else n | None \<Rightarrow> d)"

definition defaultConfig :: "nat option \<Rightarrow> nat option \<Rightarrow> nat option \<Rightarrow> nat option \<Rightarrow> nat option \<Rightarrow> FailoverConfig" where
  "defaultConfig interval timeout failure recovery max_buffer =
     \<lparr>probeIntervalMs = env_number interval 5000, probeTimeoutMs = env_number timeout 2000,
      failureThreshold = env_number failure 3, recoveryThreshold = env_number recovery 2,
      bufferKey = ''db:failover:mutation-buffer'', maxBufferSize = env_number max_buffer 10000\<rparr>"

record BufferedMutation =
  m_id :: string
  m_type :: string
  m_payload :: string
  m_bufferedAt :: string

text \<open>An element of the Redis list: the \<open>JSON\<close> text of a mutation, with the text of its payload, or another text.\<close>

datatype raw = Stringified BufferedMutation | Unparseable string

text \<open>The call that \<open>replayBuffered\<close> awaits; \<open>replaying\<close> is set unless it is idle.\<close>

datatype replay_phase = Idle | Shifting | Handling BufferedMutation | PuttingBack BufferedMutation

record controller =
  state :: FailoverState
  failures :: nat
  successes :: nat
  lastProbeAt :: "int option"
  degradedSince :: "int option"
  lastError :: "string option"
  timer :: bool
  phase :: replay_phase
  handlers :: "string jsset"
  activeReadTarget :: DatabaseTarget
  buffer :: "raw list"
  pending :: "BufferedMutation list"
  applied :: "BufferedMutation list"
  accepted :: "BufferedMutation list"

text \<open>
  \<open>buffer\<close> is the Redis list and \<open>pending\<close> the mutations whose callers have passed the check of its length. The last two
  fields record the mutations that a handler has applied and those pushed to the list, in order.
\<close>

definition new_controller :: controller where
  "new_controller = \<lparr>state = HEALTHY, failures = 0, successes = 0, lastProbeAt = None, degradedSince = None, lastError = None,
     timer = False, phase = Idle, handlers = [], activeReadTarget = REPLICA, buffer = [], pending = [], applied = [], accepted = []\<rparr>"

definition registerMutationHandler :: "string \<Rightarrow> controller \<Rightarrow> controller" where
  "registerMutationHandler type s = s\<lparr>handlers := set_add type (handlers s)\<rparr>"

definition isReadOnly :: "controller \<Rightarrow> bool" where
  "isReadOnly s \<longleftrightarrow> state s = DEGRADED_READ_ONLY"

record FailoverStatus =
  fs_state :: FailoverState
  consecutiveFailures :: nat
  consecutiveSuccesses :: nat
  fs_lastProbeAt :: "int option"
  fs_degradedSince :: "int option"
  fs_lastError :: "string option"
  bufferedMutations :: nat

definition getStatus :: "bool \<Rightarrow> controller \<Rightarrow> FailoverStatus" where
  "getStatus length_ok s =
     \<lparr>fs_state = state s, consecutiveFailures = failures s, consecutiveSuccesses = successes s, fs_lastProbeAt = lastProbeAt s,
      fs_degradedSince = degradedSince s, fs_lastError = lastError s, bufferedMutations = (if length_ok then length (buffer s) else 0)\<rparr>"

definition enterDegradedMode :: "int \<Rightarrow> controller \<Rightarrow> controller" where
  "enterDegradedMode now s = s\<lparr>state := DEGRADED_READ_ONLY, degradedSince := Some now, activeReadTarget := REPLICA\<rparr>"

text \<open>The two continuations of \<open>check\<close>: its \<open>catch\<close> block, which gets errors of the probe and of the replay, and the rest of
  its \<open>try\<close> block.\<close>

definition check_failed :: "FailoverConfig \<Rightarrow> int \<Rightarrow> string \<Rightarrow> controller \<Rightarrow> controller" where
  "check_failed cfg now err s =
     (let s' = s\<lparr>successes := 0, failures := failures s + 1, lastError := Some err\<rparr> in
      if state s' = HEALTHY \<and> failures s' \<ge> failureThreshold cfg then enterDegradedMode now s' else s')"

definition recover :: "controller \<Rightarrow> controller" where
  "recover s = (if phase s \<noteq> Idle then s else s\<lparr>phase := Shifting\<rparr>)"

definition probe_succeeded :: "FailoverConfig \<Rightarrow> controller \<Rightarrow> controller" where
  "probe_succeeded cfg s =
     (let s' = s\<lparr>failures := 0, successes := successes s + 1, lastError := None\<rparr> in
      if state s' = DEGRADED_READ_ONLY \<and> successes s' \<ge> recoveryThreshold cfg then recover s' else s')"

definition recovered :: "controller \<Rightarrow> controller" where
  "recovered s = s\<lparr>state := HEALTHY, degradedSince := None, activeReadTarget := REPLICA, phase := Idle\<rparr>"

definition shifted :: "controller \<Rightarrow> controller" where
  "shifted s =
     (case buffer s of
        [] \<Rightarrow> recovered s
      | raw # rest \<Rightarrow>
          (let s' = s\<lparr>buffer := rest\<rparr> in
           case raw of
             Unparseable t \<Rightarrow> s'
           | Stringified m \<Rightarrow> if m_type m \<in> set (handlers s) then s'\<lparr>phase := Handling m\<rparr> else s'))"

definition bufferMutation_check :: "FailoverConfig \<Rightarrow> BufferedMutation \<Rightarrow> controller \<Rightarrow> controller" where
  "bufferMutation_check cfg m s = (if length (buffer s) \<ge> maxBufferSize cfg then s else s\<lparr>pending := pending s @ [m]\<rparr>)"

definition bufferMutation_push :: "BufferedMutation \<Rightarrow> controller \<Rightarrow> controller" where
  "bufferMutation_push m s =
     (if m \<in> set (pending s)
      then s\<lparr>pending := remove1 m (pending s), buffer := buffer s @ [Stringified m], accepted := accepted s @ [m]\<rparr> else s)"

definition start :: "controller \<Rightarrow> controller" where
  "start s = s\<lparr>timer := True\<rparr>"

definition stop :: "controller \<Rightarrow> controller" where
  "stop s = s\<lparr>timer := False\<rparr>"

text \<open>Completions of awaited calls; an error carries its message and the instant. A completion of a call that is not
  awaited does not happen.\<close>

datatype event =
    Register string
  | ProbeStarted int
  | ProbeOk
  | ProbeFailed string int
  | ShiftOk
  | ShiftFailed string int
  | HandlerOk
  | HandlerFailed
  | UnshiftOk
  | UnshiftFailed string int
  | LengthRead BufferedMutation
  | Pushed BufferedMutation
  | Start
  | Stop

fun step :: "FailoverConfig \<Rightarrow> controller \<Rightarrow> event \<Rightarrow> controller" where
  "step cfg s (Register t) = registerMutationHandler t s"
| "step cfg s (ProbeStarted now) = s\<lparr>lastProbeAt := Some now\<rparr>"
| "step cfg s ProbeOk = probe_succeeded cfg s"
| "step cfg s (ProbeFailed err now) = check_failed cfg now err s"
| "step cfg s ShiftOk = (case phase s of Shifting \<Rightarrow> shifted s | _ \<Rightarrow> s)"
| "step cfg s (ShiftFailed err now) = (case phase s of Shifting \<Rightarrow> check_failed cfg now err (s\<lparr>phase := Idle\<rparr>) | _ \<Rightarrow> s)"
| "step cfg s HandlerOk = (case phase s of Handling m \<Rightarrow> s\<lparr>phase := Shifting, applied := applied s @ [m]\<rparr> | _ \<Rightarrow> s)"
| "step cfg s HandlerFailed = (case phase s of Handling m \<Rightarrow> s\<lparr>phase := PuttingBack m\<rparr> | _ \<Rightarrow> s)"
| "step cfg s UnshiftOk =
     (case phase s of PuttingBack m \<Rightarrow> s\<lparr>phase := Idle, buffer := Stringified m # buffer s, successes := 0\<rparr> | _ \<Rightarrow> s)"
| "step cfg s (UnshiftFailed err now) = (case phase s of PuttingBack m \<Rightarrow> check_failed cfg now err (s\<lparr>phase := Idle\<rparr>) | _ \<Rightarrow> s)"
| "step cfg s (LengthRead m) = bufferMutation_check cfg m s"
| "step cfg s (Pushed m) = bufferMutation_push m s"
| "step cfg s Start = start s"
| "step cfg s Stop = stop s"

abbreviation run :: "FailoverConfig \<Rightarrow> controller \<Rightarrow> event list \<Rightarrow> controller" where
  "run cfg \<equiv> foldl (step cfg)"

section \<open>The hook of the API\<close>

definition SAFE_METHODS :: "string list" where
  "SAFE_METHODS = [''GET'', ''HEAD'', ''OPTIONS'']"

datatype request_outcome = Passed | PassedDegraded | ReadOnlyRejected

definition on_request :: "controller \<Rightarrow> string \<Rightarrow> bool \<Rightarrow> request_outcome" where
  "on_request s meth allowInDegradedMode =
     (if \<not> isReadOnly s then Passed
      else if meth \<in> set SAFE_METHODS \<or> allowInDegradedMode then PassedDegraded
      else ReadOnlyRejected)"

section \<open>Mutations in order\<close>

text \<open>The mutations that are not applied yet, the one in the hands of the replay first.\<close>

definition in_flight :: "controller \<Rightarrow> BufferedMutation list" where
  "in_flight s = (case phase s of Handling m \<Rightarrow> [m] | PuttingBack m \<Rightarrow> [m] | _ \<Rightarrow> [])"

definition mutations :: "raw list \<Rightarrow> BufferedMutation list" where
  "mutations rs = List.map_filter (\<lambda>r. case r of Stringified m \<Rightarrow> Some m | Unparseable _ \<Rightarrow> None) rs"

definition remaining :: "controller \<Rightarrow> BufferedMutation list" where
  "remaining s = in_flight s @ mutations (buffer s)"

lemma mutations_simps [simp]:
  "mutations [] = []" "mutations (Stringified m # rs) = m # mutations rs" "mutations (Unparseable t # rs) = mutations rs"
  "mutations (rs @ rs') = mutations rs @ mutations rs'"
  by (simp_all add: mutations_def List.map_filter_def)

lemma check_failed_keeps [simp]:
  "phase (check_failed cfg now err s) = phase s" "buffer (check_failed cfg now err s) = buffer s"
  "applied (check_failed cfg now err s) = applied s" "accepted (check_failed cfg now err s) = accepted s"
  "handlers (check_failed cfg now err s) = handlers s" "pending (check_failed cfg now err s) = pending s"
  by (simp_all add: check_failed_def enterDegradedMode_def Let_def)

lemmas step_defs = registerMutationHandler_def probe_succeeded_def recover_def recovered_def shifted_def
  bufferMutation_check_def bufferMutation_push_def start_def stop_def Let_def

text \<open>Every step keeps what is applied and remains, loses one mutation from it, or appends one that is accepted.\<close>

lemma step_remaining:
  "(applied (step cfg s e) @ remaining (step cfg s e) = applied s @ remaining s \<and> accepted (step cfg s e) = accepted s)
   \<or> (\<exists>m. e = Pushed m \<and> applied (step cfg s e) @ remaining (step cfg s e) = (applied s @ remaining s) @ [m]
        \<and> accepted (step cfg s e) = accepted s @ [m])
   \<or> (\<exists>m. applied s @ remaining s = applied s @ m # remaining (step cfg s e) \<and> applied (step cfg s e) = applied s \<and> accepted (step cfg s e) = accepted s
        \<and> (m_type m \<notin> set (handlers s) \<or> (\<exists>err now. e = UnshiftFailed err now)))"
  by (cases e; cases "phase s") (auto simp: step_defs remaining_def in_flight_def split: list.splits raw.splits)

definition ordered :: "controller \<Rightarrow> bool" where
  "ordered s \<longleftrightarrow> subseq (applied s @ remaining s) (accepted s)"

lemma subseq_without: "subseq (xs @ m # ys) zs \<Longrightarrow> subseq (xs @ ys) zs"
proof -
  have "subseq (xs @ ys) (xs @ m # ys)" by (intro list_emb_append_mono list_emb_Cons) simp_all
  then show "subseq (xs @ m # ys) zs \<Longrightarrow> subseq (xs @ ys) zs" by (rule subseq_order.trans)
qed

lemma ordered_step:
  assumes "ordered s"
  shows "ordered (step cfg s e)"
  using step_remaining[of cfg s e]
proof (elim disjE exE conjE)
  fix m assume "applied (step cfg s e) @ remaining (step cfg s e) = (applied s @ remaining s) @ [m]" "accepted (step cfg s e) = accepted s @ [m]"
  then show ?thesis using assms list_emb_append_mono[of "(=)" "applied s @ remaining s" "accepted s" "[m]" "[m]"] by (simp add: ordered_def)
qed (use assms in \<open>auto simp: ordered_def intro: subseq_without\<close>)

interpretation failover: inv_machine "step cfg" ordered for cfg
  by unfold_locales (rule ordered_step)

text \<open>With a handler for every type and no lost answer, nothing is missing.\<close>

definition complete :: "controller \<Rightarrow> bool" where
  "complete s \<longleftrightarrow> applied s @ remaining s = accepted s \<and> (\<forall>m \<in> set (remaining s). m_type m \<in> set (handlers s))"

lemma handlers_grow: "set (handlers s) \<subseteq> set (handlers (step cfg s e))"
  by (cases e; cases "phase s") (auto simp: step_defs split: list.splits raw.splits)

lemma handlers_grow_run: "set (handlers s) \<subseteq> set (handlers (run cfg s es))"
proof (induction es arbitrary: s)
  case (Cons e es)
  then show ?case using handlers_grow[of s cfg e] by (simp, meson order_trans)
qed simp

definition safe_event :: "string list \<Rightarrow> event \<Rightarrow> bool" where
  "safe_event types e \<longleftrightarrow> (\<forall>m. e = Pushed m \<longrightarrow> m_type m \<in> set types) \<and> (\<forall>err now. e \<noteq> UnshiftFailed err now)"

lemma complete_step:
  assumes "complete s" "safe_event (handlers s) e"
  shows "complete (step cfg s e)"
  using step_remaining[of cfg s e]
proof (elim disjE exE conjE)
  assume h: "applied (step cfg s e) @ remaining (step cfg s e) = applied s @ remaining s" "accepted (step cfg s e) = accepted s"
  have "set (remaining (step cfg s e)) \<subseteq> set (remaining s)"
    by (cases e; cases "phase s") (use h in \<open>auto simp: step_defs remaining_def in_flight_def split: list.splits raw.splits if_splits\<close>)
  then show ?thesis using assms(1) h handlers_grow[of s cfg e] unfolding complete_def by auto
next
  fix m assume h: "e = Pushed m" "applied (step cfg s e) @ remaining (step cfg s e) = (applied s @ remaining s) @ [m]"
    "accepted (step cfg s e) = accepted s @ [m]"
  then have "set (remaining (step cfg s e)) \<subseteq> insert m (set (remaining s))"
    by (auto simp: bufferMutation_push_def remaining_def in_flight_def split: if_splits)
  then show ?thesis using assms h handlers_grow[of s cfg e] unfolding complete_def safe_event_def by auto
next
  fix m assume "applied s @ remaining s = applied s @ m # remaining (step cfg s e)" "m_type m \<notin> set (handlers s)"
  then show ?thesis using assms(1) by (simp add: complete_def)
next
  fix m err now assume "e = UnshiftFailed err now"
  then show ?thesis using assms(2) by (simp add: safe_event_def)
qed

lemma complete_run:
  assumes "complete s" "list_all (safe_event types) es" "set types \<subseteq> set (handlers s)"
  shows "complete (run cfg s es)"
  using assms
proof (induction es arbitrary: s)
  case (Cons e es)
  have "safe_event (handlers s) e" using Cons.prems(2,3) by (auto simp: safe_event_def)
  then have "complete (step cfg s e)" by (rule complete_step[OF Cons.prems(1)])
  moreover have "set types \<subseteq> set (handlers (step cfg s e))" using Cons.prems(3) handlers_grow[of s cfg e] by blast
  ultimately show ?case using Cons.IH[of "step cfg s e"] Cons.prems(2) by simp
qed simp

text \<open>C18. Buffered mutations are applied in order and at most once: whatever probes, commands of Redis and handlers fail, the
  applied mutations, followed by those that remain, are a subsequence of the mutations pushed to the buffer;
  nothing is missing if every type has a handler and no mutation is lost while it is put back.\<close>

theorem mutations_replayed_in_order:
  assumes "s = run cfg (new_controller\<lparr>handlers := types\<rparr>) es"
  shows "subseq (applied s @ remaining s) (accepted s) \<and> (list_all (safe_event types) es \<longrightarrow> applied s @ remaining s = accepted s)"
proof
  let ?s = "new_controller\<lparr>handlers := types\<rparr>"
  have "ordered ?s" "complete ?s" by (simp_all add: ordered_def complete_def new_controller_def remaining_def in_flight_def)
  then show "subseq (applied s @ remaining s) (accepted s)" "list_all (safe_event types) es \<longrightarrow> applied s @ remaining s = accepted s"
    using failover.run_inv[of ?s cfg es] complete_run[of ?s types es cfg] assms by (simp_all add: ordered_def complete_def)
qed

definition one_strike :: FailoverConfig where
  "one_strike = (defaultConfig None None (Some 1) (Some 1) None)"

definition rename :: BufferedMutation where
  "rename = \<lparr>m_id = ''1-a'', m_type = ''wallet.rename'', m_payload = ''{}'', m_bufferedAt = ''2026-01-01T00:00:00.000Z''\<rparr>"

definition outage :: "event list" where
  "outage = [ProbeFailed ''down'' 1, LengthRead rename, Pushed rename, ProbeOk, ShiftOk, HandlerFailed, UnshiftOk, ProbeOk, ShiftOk, HandlerOk, ShiftOk]"

lemmas outage_defs = outage_def step_defs one_strike_def defaultConfig_def env_number_def new_controller_def check_failed_def
  enterDegradedMode_def remaining_def in_flight_def

theorem mutations_replayed_in_order_witness:
  "applied (run one_strike (new_controller\<lparr>handlers := [''wallet.rename'']\<rparr>) outage) = [rename]"
proof -
  let ?s = "run one_strike (new_controller\<lparr>handlers := [''wallet.rename'']\<rparr>) outage"
  have "list_all (safe_event [''wallet.rename'']) outage" by (simp add: outage_def safe_event_def rename_def)
  with mutations_replayed_in_order [OF refl, of one_strike "[''wallet.rename'']" outage] have "applied ?s @ remaining ?s = accepted ?s" by simp
  moreover have "remaining ?s = []" "accepted ?s = [rename]" by (simp_all add: outage_defs rename_def)
  ultimately show ?thesis by simp
qed

section \<open>Outage and recovery\<close>

text \<open>The controller leaves the read-only mode only when the buffer is empty.\<close>

lemma leaves_degraded_drained:
  "state s = DEGRADED_READ_ONLY \<Longrightarrow> state (step cfg s e) = HEALTHY \<Longrightarrow> remaining (step cfg s e) = []"
  by (cases e; cases "phase s")
     (auto simp: step_defs check_failed_def enterDegradedMode_def remaining_def in_flight_def split: list.splits raw.splits if_splits)

lemma failing_probes:
  "state s = DEGRADED_READ_ONLY \<or> failureThreshold cfg \<le> failures s + n \<Longrightarrow> 0 < n \<Longrightarrow>
   state (run cfg s (replicate n (ProbeFailed err now))) = DEGRADED_READ_ONLY"
proof (induction n arbitrary: s)
  case (Suc n)
  let ?s = "step cfg s (ProbeFailed err now)"
  have "state ?s = DEGRADED_READ_ONLY \<or> failures ?s = failures s + 1 \<and> failures s + 1 < failureThreshold cfg"
    by (cases "state s") (auto simp: check_failed_def enterDegradedMode_def Let_def)
  then have "state ?s = DEGRADED_READ_ONLY \<or> failureThreshold cfg \<le> failures ?s + n \<and> 0 < n" using Suc.prems(1)
    by (cases "state s"; cases n) (auto simp: check_failed_def enterDegradedMode_def Let_def)
  then show ?case using Suc.IH[of ?s] by (cases n) auto
qed simp

lemma healthy_probes:
  assumes "state s = DEGRADED_READ_ONLY" "0 < n" "phase s = Shifting \<or> phase s = Idle \<and> recoveryThreshold cfg \<le> successes s + n"
  shows "run cfg s (replicate n ProbeOk) = s\<lparr>failures := 0, successes := successes s + n, lastError := None, phase := Shifting\<rparr>"
  using assms
proof (induction n arbitrary: s)
  case (Suc n)
  let ?s = "step cfg s ProbeOk"
  have s: "?s = s\<lparr>failures := 0, successes := successes s + 1, lastError := None,
      phase := (if recoveryThreshold cfg \<le> successes s + 1 then Shifting else phase s)\<rparr>"
    using Suc.prems(1,3) by (auto simp: step_defs)
  show ?case
  proof (cases n)
    case 0
    then show ?thesis using s Suc.prems(3) by auto
  next
    case (Suc k)
    have "run cfg ?s (replicate n ProbeOk) = ?s\<lparr>failures := 0, successes := successes ?s + n, lastError := None, phase := Shifting\<rparr>"
      using Suc.IH[of ?s] Suc.prems Suc s by auto
    then show ?thesis using s by simp
  qed
qed simp

text \<open>The completions of a replay in which nothing fails.\<close>

fun replay_events :: "string jsset \<Rightarrow> raw \<Rightarrow> event list" where
  "replay_events hs (Stringified m) = (if m_type m \<in> set hs then [ShiftOk, HandlerOk] else [ShiftOk])"
| "replay_events hs (Unparseable t) = [ShiftOk]"

definition drain :: "controller \<Rightarrow> event list" where
  "drain s = concat (map (replay_events (handlers s)) (buffer s)) @ [ShiftOk]"

lemma drained:
  assumes "phase s = Shifting"
  shows "run cfg s (drain s) = (recovered s)\<lparr>buffer := [], applied := applied s @ filter (\<lambda>m. m_type m \<in> set (handlers s)) (mutations (buffer s))\<rparr>"
  using assms
proof (induction "buffer s" arbitrary: s)
  case Nil
  then show ?case by (simp add: drain_def step_defs)
next
  case (Cons r rs)
  note b = Cons.hyps(2)[symmetric]
  let ?ev = "replay_events (handlers s) r"
  let ?new = "filter (\<lambda>m. m_type m \<in> set (handlers s)) (mutations [r])"
  let ?s = "s\<lparr>buffer := rs, applied := applied s @ ?new\<rparr>"
  have first: "run cfg s ?ev = ?s" using b Cons.prems by (cases r) (auto simp: step_defs)
  have rest: "run cfg ?s (drain ?s) = (recovered ?s)\<lparr>buffer := [], applied := applied ?s @ filter (\<lambda>m. m_type m \<in> set (handlers ?s)) (mutations rs)\<rparr>"
    using Cons.hyps(1)[of ?s] Cons.prems by simp
  have "drain s = ?ev @ drain ?s" using b by (simp add: drain_def)
  moreover have "mutations (buffer s) = mutations [r] @ mutations rs" using b mutations_simps(4)[of "[r]" rs] by simp
  ultimately show ?case using first rest by (simp add: recovered_def)
qed

text \<open>C19. An outage is survived: after as many failed probes in a row as the threshold says, the API rejects every
  request that changes state; and when the primary answers as many probes in a row as the recovery needs
  and the replay meets no error, normal operation resumes with every buffered mutation of a known type applied.\<close>

theorem outage_is_survived:
  assumes "failureThreshold cfg \<le> n" "0 < n" "recoveryThreshold cfg \<le> k" "0 < k" "meth \<notin> set SAFE_METHODS"
    and "down = run cfg s (replicate n (ProbeFailed err now))" "phase s = Idle"
  shows "on_request down meth False = ReadOnlyRejected
    \<and> (\<exists>up. run cfg down (replicate k ProbeOk @ drain down) = up \<and> on_request up meth False = Passed \<and> buffer up = []
        \<and> applied up = applied down @ filter (\<lambda>m. m_type m \<in> set (handlers down)) (mutations (buffer down)))"
proof -
  have d: "state down = DEGRADED_READ_ONLY" using failing_probes[of s cfg n err now] assms(1,2,6) by simp
  have idle: "phase (run cfg x (replicate j (ProbeFailed err now))) = phase x" for x j by (induction j arbitrary: x) simp_all
  let ?s = "down\<lparr>failures := 0, successes := successes down + k, lastError := None, phase := Shifting\<rparr>"
  have "run cfg down (replicate k ProbeOk) = ?s" using healthy_probes[OF d assms(4)] assms(3,6,7) idle by simp
  moreover have "drain ?s = drain down" by (simp add: drain_def)
  ultimately have "run cfg down (replicate k ProbeOk @ drain down) =
      (recovered ?s)\<lparr>buffer := [], applied := applied down @ filter (\<lambda>m. m_type m \<in> set (handlers down)) (mutations (buffer down))\<rparr>"
    using drained[of ?s cfg] by simp
  then show ?thesis using d assms(5) by (simp add: on_request_def isReadOnly_def recovered_def)
qed

theorem outage_is_survived_witness:
  "on_request (run one_strike new_controller [ProbeFailed ''down'' 7]) ''POST'' False = ReadOnlyRejected"
  using outage_is_survived [of one_strike 1 1 "''POST''" _ new_controller "''down''" 7, OF _ _ _ _ _ refl]
  by (simp add: one_strike_def defaultConfig_def env_number_def SAFE_METHODS_def new_controller_def)

text \<open>A mutation whose caller has checked the length of the buffer may be pushed after the buffer was drained. It then
  stays in the buffer while the primary is healthy.\<close>

lemma late_mutation_is_stranded:
  assumes "state s = DEGRADED_READ_ONLY" "phase s = Shifting" "buffer s = []" "m \<in> set (pending s)"
  shows "state (run cfg s (ShiftOk # Pushed m # replicate n ProbeOk)) = HEALTHY
    \<and> buffer (run cfg s (ShiftOk # Pushed m # replicate n ProbeOk)) = [Stringified m]"
proof -
  have "state (run cfg x (replicate n ProbeOk)) = HEALTHY \<and> buffer (run cfg x (replicate n ProbeOk)) = buffer x"
    if "state x = HEALTHY" for x n using that by (induction n arbitrary: x) (simp_all add: probe_succeeded_def Let_def)
  then show ?thesis using assms by (simp add: step_defs)
qed

end
