(* ===== verification/ReadRouting.thy ===== *)
theory ReadRouting
  imports DbFailover
begin

text \<open>
  Routing of reads by the lag of the replica (\<open>apps/api/src/lib/database-router.ts\<close>), and its interplay with the failover
  of the primary: both set the target of reads in \<open>apps/api/src/lib/prisma.ts\<close>. The outcome of a probe is an argument;
  log texts are left out.
\<close>

section \<open>The monitor\<close>

datatype ReplicaHealthState = IN_SYNC | LAGGING

record ReplicaLagMonitorConfig =
  lag_probeIntervalMs :: nat
  lagThresholdMs :: nat
  lag_probeTimeoutMs :: nat
  recoveryProbeCount :: nat

definition default_lag_config :: "nat option \<Rightarrow> nat option \<Rightarrow> nat option \<Rightarrow> nat option \<Rightarrow> ReplicaLagMonitorConfig" where
  "default_lag_config interval threshold timeout recovery =
     \<lparr>lag_probeIntervalMs = env_number interval 10000, lagThresholdMs = env_number threshold 2000,
      lag_probeTimeoutMs = env_number timeout 3000, recoveryProbeCount = env_number recovery 2\<rparr>"

record ReplicaLagMonitor =
  lag_state :: ReplicaHealthState
  lastLagMs :: "nat option"
  lag_lastProbeAt :: "int option"
  lag_lastError :: "string option"
  consecutiveHealthy :: nat
  lag_timer :: bool

definition newReplicaLagMonitor :: ReplicaLagMonitor where
  "newReplicaLagMonitor = \<lparr>lag_state = IN_SYNC, lastLagMs = None, lag_lastProbeAt = None, lag_lastError = None,
     consecutiveHealthy = 0, lag_timer = False\<rparr>"

text \<open>
  The query of the probe: nothing replayed yet counts as no lag, otherwise PostgreSQL extracts the milliseconds from
  the time since the last replayed transaction. Without a finite number the probe fails.
\<close>

definition defaultLagProbe :: "(nat \<Rightarrow> nat option) \<Rightarrow> nat option \<Rightarrow> string + nat" where
  "defaultLagProbe extract_milliseconds since_replay =
     (case (case since_replay of None \<Rightarrow> Some 0 | Some lag \<Rightarrow> extract_milliseconds lag) of
        None \<Rightarrow> Inl ''Replica lag probe returned no measurement''
      | Some lagMs \<Rightarrow> Inr lagMs)"

text \<open>Both transitions return the target to which they route the reads.\<close>

definition failOverToPrimary :: "ReplicaLagMonitor \<Rightarrow> ReplicaLagMonitor \<times> DatabaseTarget option" where
  "failOverToPrimary m = (m\<lparr>lag_state := LAGGING\<rparr>, Some PRIMARY)"

definition failBackToReplica :: "ReplicaLagMonitor \<Rightarrow> ReplicaLagMonitor \<times> DatabaseTarget option" where
  "failBackToReplica m = (m\<lparr>lag_state := IN_SYNC\<rparr>, Some REPLICA)"

definition check_lag ::
  "ReplicaLagMonitorConfig \<Rightarrow> bool \<Rightarrow> int \<Rightarrow> string + nat \<Rightarrow> ReplicaLagMonitor \<Rightarrow> ReplicaLagMonitor \<times> DatabaseTarget option" where
  "check_lag cfg hasReplica now probe m =
     (if \<not> hasReplica then (m, None)
      else (let m = m\<lparr>lag_lastProbeAt := Some now\<rparr> in
        case probe of
          Inl err \<Rightarrow> failOverToPrimary (m\<lparr>lag_lastError := Some err, lastLagMs := None, consecutiveHealthy := 0\<rparr>)
        | Inr lagMs \<Rightarrow>
            (let m = m\<lparr>lag_lastError := None, lastLagMs := Some lagMs\<rparr> in
             if lagMs > lagThresholdMs cfg then failOverToPrimary (m\<lparr>consecutiveHealthy := 0\<rparr>)
             else (let m = m\<lparr>consecutiveHealthy := consecutiveHealthy m + 1\<rparr> in
               if lag_state m = LAGGING \<and> consecutiveHealthy m \<ge> recoveryProbeCount cfg then failBackToReplica m else (m, None)))))"

definition start_lag :: "ReplicaLagMonitor \<Rightarrow> ReplicaLagMonitor" where
  "start_lag m = m\<lparr>lag_timer := True\<rparr>"

definition stop_lag :: "ReplicaLagMonitor \<Rightarrow> ReplicaLagMonitor" where
  "stop_lag m = m\<lparr>lag_timer := False\<rparr>"

section \<open>The target of reads\<close>

definition setReadTarget :: "DatabaseTarget \<Rightarrow> controller \<Rightarrow> controller" where
  "setReadTarget t c = c\<lparr>activeReadTarget := t\<rparr>"

definition getReadTarget :: "controller \<Rightarrow> DatabaseTarget" where
  "getReadTarget c = activeReadTarget c"

record ReplicaLagStatus =
  ls_state :: ReplicaHealthState
  ls_lastLagMs :: "nat option"
  ls_lastProbeAt :: "int option"
  ls_lastError :: "string option"
  ls_activeReadTarget :: DatabaseTarget
  consecutiveHealthyProbes :: nat

definition lag_getStatus :: "ReplicaLagMonitor \<Rightarrow> controller \<Rightarrow> ReplicaLagStatus" where
  "lag_getStatus m c =
     \<lparr>ls_state = lag_state m, ls_lastLagMs = lastLagMs m, ls_lastProbeAt = lag_lastProbeAt m, ls_lastError = lag_lastError m,
      ls_activeReadTarget = getReadTarget c, consecutiveHealthyProbes = consecutiveHealthy m\<rparr>"

text \<open>The controller of the failover and the monitor in one process, with a replica.\<close>

datatype routing_event = Failover event | LagProbed int "string + nat"

fun routing_step ::
  "FailoverConfig \<Rightarrow> ReplicaLagMonitorConfig \<Rightarrow> controller \<times> ReplicaLagMonitor \<Rightarrow> routing_event \<Rightarrow> controller \<times> ReplicaLagMonitor" where
  "routing_step fc lc (c, m) (Failover e) = (step fc c e, m)"
| "routing_step fc lc (c, m) (LagProbed now probe) =
     (case check_lag lc True now probe m of
        (m', None) \<Rightarrow> (c, m')
      | (m', Some t) \<Rightarrow> (setReadTarget t c, m'))"

section \<open>Reads follow the lag\<close>

fun probe_results :: "routing_event list \<Rightarrow> (string + nat) list" where
  "probe_results [] = []"
| "probe_results (Failover e # es) = probe_results es"
| "probe_results (LagProbed now p # es) = p # probe_results es"

definition probe_healthy :: "ReplicaLagMonitorConfig \<Rightarrow> string + nat \<Rightarrow> bool" where
  "probe_healthy cfg p \<longleftrightarrow> (case p of Inl err \<Rightarrow> False | Inr lagMs \<Rightarrow> lagMs \<le> lagThresholdMs cfg)"

text \<open>The replica is avoided: some probe was bad, and fewer healthy ones than needed have followed the last bad one.\<close>

definition avoided :: "ReplicaLagMonitorConfig \<Rightarrow> (string + nat) list \<Rightarrow> bool" where
  "avoided cfg ps \<longleftrightarrow> (\<exists>p \<in> set ps. \<not> probe_healthy cfg p)
     \<and> length (takeWhile (probe_healthy cfg) (rev ps)) < max 1 (recoveryProbeCount cfg)"

lemma probe_results_append [simp]: "probe_results (es @ es') = probe_results es @ probe_results es'"
  by (induction es rule: probe_results.induct) simp_all

definition primary_event :: "routing_event \<Rightarrow> bool" where
  "primary_event e \<longleftrightarrow> (\<forall>f. e = Failover f \<longrightarrow> (\<forall>err now. f \<noteq> ProbeFailed err now \<and> f \<noteq> ShiftFailed err now \<and> f \<noteq> UnshiftFailed err now))"

definition routed :: "ReplicaLagMonitorConfig \<Rightarrow> (string + nat) list \<Rightarrow> controller \<times> ReplicaLagMonitor \<Rightarrow> bool" where
  "routed cfg ps cm \<longleftrightarrow> (case cm of (c, m) \<Rightarrow> state c = HEALTHY \<and> phase c = Idle
     \<and> (lag_state m = LAGGING \<longleftrightarrow> avoided cfg ps) \<and> (getReadTarget c = PRIMARY \<longleftrightarrow> avoided cfg ps)
     \<and> ((\<exists>p \<in> set ps. \<not> probe_healthy cfg p) \<longrightarrow> consecutiveHealthy m = length (takeWhile (probe_healthy cfg) (rev ps))))"

lemma healthy_step:
  "state c = HEALTHY \<Longrightarrow> phase c = Idle \<Longrightarrow> primary_event (Failover e) \<Longrightarrow>
   state (step fc c e) = HEALTHY \<and> phase (step fc c e) = Idle \<and> activeReadTarget (step fc c e) = activeReadTarget c"
  by (cases e) (auto simp: primary_event_def step_defs)

lemma routed_step:
  assumes "routed lc ps cm" "primary_event e" "0 < recoveryProbeCount lc"
  shows "routed lc (ps @ probe_results [e]) (routing_step fc lc cm e)"
proof (cases cm)
  case (Pair c m)
  show ?thesis
  proof (cases e)
    case (Failover f)
    then show ?thesis using assms healthy_step[of c f fc] Pair by (auto simp: routed_def getReadTarget_def)
  next
    case (LagProbed now p)
    show ?thesis
    proof (cases "probe_healthy lc p")
      case False
      then show ?thesis using assms Pair LagProbed
        by (auto simp: routed_def avoided_def check_lag_def failOverToPrimary_def setReadTarget_def getReadTarget_def probe_healthy_def Let_def
            split: sum.splits)
    next
      case True
      then obtain lag where p: "p = Inr lag" "lag \<le> lagThresholdMs lc" by (cases p) (auto simp: probe_healthy_def)
      then show ?thesis using True assms Pair LagProbed
        by (auto simp: routed_def avoided_def check_lag_def failBackToReplica_def setReadTarget_def getReadTarget_def Let_def)
    qed
  qed
qed

lemma routed_run:
  assumes "routed lc ps cm" "list_all primary_event es" "0 < recoveryProbeCount lc"
  shows "routed lc (ps @ probe_results es) (foldl (routing_step fc lc) cm es)"
  using assms(1,2)
proof (induction es arbitrary: ps cm)
  case (Cons e es)
  then show ?case using routed_step[of lc ps cm e fc] assms(3) Cons.IH[of "ps @ probe_results [e]" "routing_step fc lc cm e"]
    probe_results_append[of "[e]" es] by simp
qed simp

text \<open>C22. Reads avoid a stale replica, and only such a one: while the primary is reachable, reads go to the primary exactly
  when some probe failed or exceeded the threshold and fewer healthy probes than the recovery needs have
  followed the last such probe.\<close>

theorem reads_follow_replica_lag:
  assumes "list_all primary_event es" "0 < recoveryProbeCount lc" "(c, m) = foldl (routing_step fc lc) (new_controller, newReplicaLagMonitor) es"
  shows "getReadTarget c = PRIMARY \<longleftrightarrow> avoided lc (probe_results es)"
proof -
  have "routed lc [] (new_controller, newReplicaLagMonitor)"
    by (simp add: routed_def avoided_def new_controller_def newReplicaLagMonitor_def getReadTarget_def)
  from routed_run[OF this assms(1,2), of fc] show ?thesis using assms(3)[symmetric] by (simp add: routed_def)
qed

definition lag_history :: "routing_event list" where
  "lag_history = [LagProbed 0 (Inr 5), LagProbed 1 (Inr 9000), Failover ProbeOk, LagProbed 2 (Inr 10)]"

theorem reads_follow_replica_lag_witness:
  "getReadTarget (fst (foldl (routing_step one_strike (default_lag_config None None None None)) (new_controller, newReplicaLagMonitor) lag_history)) = PRIMARY"
proof -
  obtain c m where cm: "(c, m) = foldl (routing_step one_strike (default_lag_config None None None None)) (new_controller, newReplicaLagMonitor) lag_history"
    by (metis surj_pair)
  have "getReadTarget c = PRIMARY \<longleftrightarrow> avoided (default_lag_config None None None None) (probe_results lag_history)"
    by (rule reads_follow_replica_lag [OF _ _ cm]) (simp_all add: lag_history_def primary_event_def default_lag_config_def env_number_def)
  then show ?thesis using cm[symmetric] by (simp add: lag_history_def avoided_def probe_healthy_def default_lag_config_def env_number_def)
qed

section \<open>Two writers of one target\<close>

text \<open>
  While the primary is down the replica replays nothing and its lag grows: the next probe routes the reads of the
  read-only mode to the primary.
\<close>

lemma outage_routes_reads_to_primary:
  assumes "isReadOnly c" "\<not> probe_healthy lc p" "(c', m') = routing_step fc lc (c, m) (LagProbed now p)"
  shows "isReadOnly c' \<and> getReadTarget c' = PRIMARY"
  using assms by (auto simp: check_lag_def failOverToPrimary_def setReadTarget_def getReadTarget_def isReadOnly_def probe_healthy_def Let_def
      split: sum.splits if_splits)

text \<open>The end of an outage routes reads to the replica although it still lags.\<close>

lemma recovery_routes_to_lagging_replica:
  assumes "phase c = Shifting" "buffer c = []" "lag_state m = LAGGING" "(c', m') = routing_step fc lc (c, m) (Failover ShiftOk)"
  shows "getReadTarget c' = REPLICA \<and> lag_state m' = LAGGING"
  using assms by (simp add: shifted_def recovered_def getReadTarget_def)

text \<open>PostgreSQL extracts from an interval the milliseconds within its minute: a replica that is some minutes behind
  passes the probe.\<close>

lemma minutes_of_lag_pass:
  assumes "\<And>lag. extract_milliseconds lag = Some (lag mod 60000)" "r \<le> lagThresholdMs cfg" "r < 60000"
  shows "probe_healthy cfg (defaultLagProbe extract_milliseconds (Some (60000 * minutes + r)))"
  using assms by (simp add: defaultLagProbe_def probe_healthy_def)

end
