(* ===== verification/StrKey.thy ===== *)
theory StrKey
  imports Hex
begin

unbundle bit_operations_syntax

text \<open>
  Stellar StrKey validation, \<open>packages/shared/src/strkey.ts\<close>: base32 with the canonical-padding
  check, CRC16-XMODEM, the encoding and the validation of account, contract and muxed addresses,
  transaction hashes, and the parser of muxed addresses.

  \<open>Uint8Array\<close> is a list of \<^typ>\<open>8 word\<close>. The bit buffers of the two base32 loops are
  natural numbers below \<open>2 ^ 13\<close> (the loops mask them after every step), so the 32-bit shifts of
  JavaScript never overflow; the CRC register is a \<^typ>\<open>16 word\<close>, masked with \<open>0xffff\<close> by the
  source. A parameter of type \<open>unknown\<close> is either a string or some other value.
\<close>

section \<open>Types and tables\<close>

datatype unknown = Str string | NotAString

datatype StellarStrKeyKind = ed25519PublicKey | contractId | muxedAddress

datatype StellarValueKind = StrKeyKind StellarStrKeyKind | transactionHash

datatype StellarValidationReason =
    not_a_string | empty_value | wrong_length | invalid_base32 | wrong_version_byte
  | invalid_checksum | not_hex | wrong_hash_length

datatype StellarValidationResult =
    Valid StellarValueKind string
  | Invalid StellarValueKind StellarValidationReason "string option"

datatype StellarValidationError = StellarValidationError StellarValueKind StellarValidationReason

record MuxedAddressParts =
  accountId :: string
  muxId :: string

definition BASE32_ALPHABET :: string where
  "BASE32_ALPHABET = ''ABCDEFGHIJKLMNOPQRSTUVWXYZ234567''"

fun STRKEY_VERSION :: "StellarStrKeyKind \<Rightarrow> byte" where
  "STRKEY_VERSION ed25519PublicKey = push_bit 3 6"
| "STRKEY_VERSION contractId = push_bit 3 2"
| "STRKEY_VERSION muxedAddress = push_bit 3 12"

fun STRKEY_LENGTH :: "StellarStrKeyKind \<Rightarrow> nat" where
  "STRKEY_LENGTH ed25519PublicKey = 56"
| "STRKEY_LENGTH contractId = 56"
| "STRKEY_LENGTH muxedAddress = 69"

section \<open>Base32\<close>

fun base32Decode_loop :: "nat \<Rightarrow> nat \<Rightarrow> bytes \<Rightarrow> string \<Rightarrow> bytes option" where
  "base32Decode_loop bits buffer out [] =
     (if 0 < bits \<and> buffer \<noteq> 0 then None else Some out)"
| "base32Decode_loop bits buffer out (c # cs) =
     (case index_of BASE32_ALPHABET c of
        None \<Rightarrow> None
      | Some index \<Rightarrow>
          (let buffer = push_bit 5 buffer OR index; bits = bits + 5 in
           if 8 \<le> bits
           then base32Decode_loop (bits - 8) (buffer AND (2 ^ (bits - 8) - 1))
                  (out @ [word_of_nat (drop_bit (bits - 8) buffer AND 0xff)]) cs
           else base32Decode_loop bits (buffer AND (2 ^ bits - 1)) out cs))"

definition base32Decode :: "string \<Rightarrow> bytes option" where
  "base32Decode input = base32Decode_loop 0 0 [] input"

text \<open>The inner \<open>while (bits >= 5)\<close> loop: the characters it appends and the bits left.\<close>

fun base32Encode_emit :: "nat \<Rightarrow> nat \<Rightarrow> string \<times> nat" where
  "base32Encode_emit bits buffer =
     (if 5 \<le> bits
      then (let (out, rest) = base32Encode_emit (bits - 5) buffer in
            ((BASE32_ALPHABET ! (drop_bit (bits - 5) buffer AND 0x1f)) # out, rest))
      else ([], bits))"

declare base32Encode_emit.simps [simp del]

fun base32Encode_loop :: "nat \<Rightarrow> nat \<Rightarrow> string \<Rightarrow> bytes \<Rightarrow> string" where
  "base32Encode_loop bits buffer out [] =
     (if 0 < bits then out @ [BASE32_ALPHABET ! (push_bit (5 - bits) buffer AND 0x1f)] else out)"
| "base32Encode_loop bits buffer out (b # bs) =
     (let buffer = push_bit 8 buffer OR unat b;
          (chars, rest) = base32Encode_emit (bits + 8) buffer in
      base32Encode_loop rest (buffer AND (2 ^ rest - 1)) (out @ chars) bs)"

definition base32Encode :: "bytes \<Rightarrow> string" where
  "base32Encode bs = base32Encode_loop 0 0 [] bs"

section \<open>CRC16-XMODEM\<close>

definition crc_bit :: "16 word \<Rightarrow> 16 word" where
  "crc_bit crc =
     (if crc AND 0x8000 \<noteq> 0 then push_bit 1 crc XOR 0x1021 else push_bit 1 crc)"

definition crc_byte :: "16 word \<Rightarrow> byte \<Rightarrow> 16 word" where
  "crc_byte crc b = (crc_bit ^^ 8) (crc XOR push_bit 8 (ucast b))"

definition crc16Xmodem :: "bytes \<Rightarrow> 16 word" where
  "crc16Xmodem bs = foldl crc_byte 0 bs"

section \<open>Encoding and decoding of keys\<close>

definition encodeStrKey :: "byte \<Rightarrow> bytes \<Rightarrow> string" where
  "encodeStrKey versionByte payload =
     (let body = versionByte # payload;
          checksum = crc16Xmodem body in
      base32Encode (body @ [ucast (checksum AND 0xff), ucast (drop_bit 8 checksum AND 0xff)]))"

definition decodeStrKey ::
  "unknown \<Rightarrow> StellarStrKeyKind \<Rightarrow> (StellarValidationReason \<times> string option) + bytes" where
  "decodeStrKey val kind =
     (case val of
        NotAString \<Rightarrow> Inl (not_a_string, None)
      | Str s \<Rightarrow>
          if length s = 0 then Inl (empty_value, Some s)
          else if length s \<noteq> STRKEY_LENGTH kind then Inl (wrong_length, Some s)
          else (case base32Decode s of
            None \<Rightarrow> Inl (invalid_base32, Some s)
          | Some decoded \<Rightarrow>
              if length decoded < 3 then Inl (wrong_length, Some s)
              else if decoded ! 0 \<noteq> STRKEY_VERSION kind then Inl (wrong_version_byte, Some s)
              else
                (let payload = take (length decoded - 2) decoded;
                     checksum = (ucast (decoded ! (length decoded - 2)) :: 16 word)
                                OR push_bit 8 (ucast (decoded ! (length decoded - 1))) in
                 if crc16Xmodem payload \<noteq> checksum then Inl (invalid_checksum, Some s)
                 else Inr decoded)))"

text \<open>
  \<open>bytesToDecimalString\<close>: the digits are kept least significant first; for every byte the inner
  loop multiplies them by 256 and adds the byte, then the \<open>while\<close> loop pushes the carry.
\<close>

fun push_carry :: "nat \<Rightarrow> nat list" where
  "push_carry carry = (if 0 < carry then (carry mod 10) # push_carry (carry div 10) else [])"

declare push_carry.simps [simp del]

fun mul_digits :: "nat list \<Rightarrow> nat \<Rightarrow> nat list" where
  "mul_digits [] carry = push_carry carry"
| "mul_digits (d # ds) carry =
     (let next = d * 256 + carry in (next mod 10) # mul_digits ds (next div 10))"

definition bytesToDecimalString :: "bytes \<Rightarrow> string" where
  "bytesToDecimalString bs =
     map digit_char (rev (foldl (\<lambda>digits b. mul_digits digits (unat b)) [0] bs))"

section \<open>Validation\<close>

definition validateStrKey :: "unknown \<Rightarrow> StellarStrKeyKind \<Rightarrow> StellarValidationResult" where
  "validateStrKey val kind =
     (case decodeStrKey val kind of
        Inr _ \<Rightarrow> Valid (StrKeyKind kind) (case val of Str s \<Rightarrow> s | NotAString \<Rightarrow> [])
      | Inl (reason, v) \<Rightarrow> Invalid (StrKeyKind kind) reason v)"

definition validateEd25519PublicKey :: "unknown \<Rightarrow> StellarValidationResult" where
  "validateEd25519PublicKey val = validateStrKey val ed25519PublicKey"

definition validateContractId :: "unknown \<Rightarrow> StellarValidationResult" where
  "validateContractId val = validateStrKey val contractId"

definition validateMuxedAddress :: "unknown \<Rightarrow> StellarValidationResult" where
  "validateMuxedAddress val = validateStrKey val muxedAddress"

definition has0x :: "string \<Rightarrow> bool" where
  "has0x s \<longleftrightarrow> startsWith (toLowerCase s) ''0x''"

text \<open>\<open>/^(?:0x)?[0-9a-f]{64}$/i\<close>, with and without the optional group.\<close>

definition TRANSACTION_HASH_PATTERN :: "string \<Rightarrow> bool" where
  "TRANSACTION_HASH_PATTERN s \<longleftrightarrow> hex64 s \<or> (has0x s \<and> hex64 (drop 2 s))"

definition validateTransactionHash :: "unknown \<Rightarrow> StellarValidationResult" where
  "validateTransactionHash val =
     (case val of
        NotAString \<Rightarrow> Invalid transactionHash not_a_string None
      | Str s \<Rightarrow>
          if length s = 0 then Invalid transactionHash empty_value (Some s)
          else if \<not> TRANSACTION_HASH_PATTERN s then
            (let hexLength = length (if has0x s then drop 2 s else s) in
             Invalid transactionHash (if hexLength = 64 then not_hex else wrong_hash_length) (Some s))
          else Valid transactionHash s)"

definition isValidStrKey :: "unknown \<Rightarrow> StellarStrKeyKind \<Rightarrow> bool" where
  "isValidStrKey val kind = (case decodeStrKey val kind of Inr _ \<Rightarrow> True | Inl _ \<Rightarrow> False)"

definition isValidEd25519PublicKey :: "unknown \<Rightarrow> bool" where
  "isValidEd25519PublicKey val = isValidStrKey val ed25519PublicKey"

definition isValidContractId :: "unknown \<Rightarrow> bool" where
  "isValidContractId val = isValidStrKey val contractId"

definition isValidMuxedAddress :: "unknown \<Rightarrow> bool" where
  "isValidMuxedAddress val = isValidStrKey val muxedAddress"

definition isValidTransactionHash :: "unknown \<Rightarrow> bool" where
  "isValidTransactionHash val =
     TRANSACTION_HASH_PATTERN (case val of Str s \<Rightarrow> s | NotAString \<Rightarrow> [])"

fun throw_if_invalid :: "StellarValidationResult \<Rightarrow> StellarValidationError + string" where
  "throw_if_invalid (Valid kind s) = Inr s"
| "throw_if_invalid (Invalid kind reason v) = Inl (StellarValidationError kind reason)"

definition assertValidStrKey ::
  "unknown \<Rightarrow> StellarStrKeyKind \<Rightarrow> StellarValidationError + string" where
  "assertValidStrKey val kind = throw_if_invalid (validateStrKey val kind)"

definition assertValidEd25519PublicKey :: "unknown \<Rightarrow> StellarValidationError + string" where
  "assertValidEd25519PublicKey val = assertValidStrKey val ed25519PublicKey"

definition assertValidContractId :: "unknown \<Rightarrow> StellarValidationError + string" where
  "assertValidContractId val = assertValidStrKey val contractId"

definition assertValidMuxedAddress :: "unknown \<Rightarrow> StellarValidationError + string" where
  "assertValidMuxedAddress val = assertValidStrKey val muxedAddress"

definition assertValidTransactionHash :: "unknown \<Rightarrow> StellarValidationError + string" where
  "assertValidTransactionHash val = throw_if_invalid (validateTransactionHash val)"

definition normalizeTransactionHash :: "unknown \<Rightarrow> string option" where
  "normalizeTransactionHash val =
     (if \<not> isValidTransactionHash val then None
      else case val of
        NotAString \<Rightarrow> None
      | Str s \<Rightarrow>
          (let hex = (if toLowerCase (take 2 s) = ''0x'' then drop 2 s else s) in
           Some (toLowerCase hex)))"

definition parseMuxedAddress :: "unknown \<Rightarrow> MuxedAddressParts option" where
  "parseMuxedAddress val =
     (case decodeStrKey val muxedAddress of
        Inl _ \<Rightarrow> None
      | Inr bs \<Rightarrow> Some \<lparr>accountId = encodeStrKey (STRKEY_VERSION ed25519PublicKey) (take 32 (drop 1 bs)),
                       muxId = bytesToDecimalString (take 8 (drop 33 bs))\<rparr>)"

section \<open>Specification vocabulary\<close>

text \<open>
  The numbers that byte strings and base32 strings denote, the number of payload bytes of each
  kind, the two halves of a checksum, and the reading of the little-endian digit list.
\<close>

abbreviation bval :: "bytes \<Rightarrow> nat" where "bval bs \<equiv> radix 256 (map unat bs)"
abbreviation b32_index :: "char \<Rightarrow> nat" where "b32_index c \<equiv> the (index_of BASE32_ALPHABET c)"
abbreviation b32_val :: "string \<Rightarrow> nat" where "b32_val s \<equiv> radix 32 (map b32_index s)"
abbreviation b32_str :: "string \<Rightarrow> bool" where "b32_str s \<equiv> set s \<subseteq> set BASE32_ALPHABET"

definition dec_result :: "nat \<Rightarrow> nat \<Rightarrow> bytes option \<Rightarrow> bool" where
  "dec_result n v res \<longleftrightarrow> (\<exists>bs r buf. res = (if 0 < r \<and> buf \<noteq> 0 then None else Some bs)
     \<and> n = 8 * length bs + r \<and> r < 8 \<and> buf < 2 ^ r \<and> v = bval bs * 2 ^ r + buf)"

fun payload_length :: "StellarStrKeyKind \<Rightarrow> nat" where
  "payload_length ed25519PublicKey = 32"
| "payload_length contractId = 32"
| "payload_length muxedAddress = 40"

abbreviation crc_lo :: "16 word \<Rightarrow> byte" where "crc_lo x \<equiv> ucast (x AND 0xff)"

abbreviation crc_hi :: "16 word \<Rightarrow> byte" where "crc_hi x \<equiv> ucast (drop_bit 8 x AND 0xff)"

abbreviation crc_join :: "byte \<Rightarrow> byte \<Rightarrow> 16 word" where
  "crc_join lo hi \<equiv> ucast lo OR push_bit 8 (ucast hi)"

abbreviation crc_ok :: "bytes \<Rightarrow> bool" where
  "crc_ok bs \<equiv> crc16Xmodem (take (length bs - 2) bs) =
     crc_join (bs ! (length bs - 2)) (bs ! (length bs - 1))"

fun le_val :: "nat list \<Rightarrow> nat" where
  "le_val [] = 0"
| "le_val (d # ds) = d + 10 * le_val ds"

definition digits_ok :: "nat list \<Rightarrow> bool" where
  "digits_ok ds \<longleftrightarrow> ds \<noteq> [] \<and> (\<forall>d \<in> set ds. d < 10) \<and> (length ds = 1 \<or> last ds \<noteq> 0)"

section \<open>Base32 reads and writes positional numerals\<close>

lemma alphabet [simp]: "length BASE32_ALPHABET = 32" "distinct BASE32_ALPHABET"
  by (simp_all add: BASE32_ALPHABET_def)

lemma b32_index_lt: "c \<in> set BASE32_ALPHABET \<Longrightarrow> b32_index c < 32"
  using index_of_Some[of BASE32_ALPHABET c] by (cases "index_of BASE32_ALPHABET c") (auto simp: index_of_None)

lemma b32_index_nth [simp]: "i < 32 \<Longrightarrow> b32_index (BASE32_ALPHABET ! i) = i"
  by (simp add: index_of_nth)

lemma b32_nth_index: "c \<in> set BASE32_ALPHABET \<Longrightarrow> BASE32_ALPHABET ! b32_index c = c"
  using index_of_Some[of BASE32_ALPHABET c] by (cases "index_of BASE32_ALPHABET c") (auto simp: index_of_None)

lemma alphabet_nth [simp]: "i < 32 \<Longrightarrow> BASE32_ALPHABET ! i \<in> set BASE32_ALPHABET"
  by simp

lemma decode_loop_invalid:
  "\<not> b32_str cs \<Longrightarrow> base32Decode_loop bits buffer out cs = None"
  by (induction cs arbitrary: bits buffer out)
    (auto simp: Let_def dest: index_of_mem split: option.splits)

lemma decode_loop_valid:
  assumes "b32_str cs" "bits < 8" "buffer < 2 ^ bits"
  shows "dec_result (8 * length out + bits + 5 * length cs)
    ((bval out * 2 ^ bits + buffer) * 32 ^ length cs + b32_val cs)
    (base32Decode_loop bits buffer out cs)"
  using assms
proof (induction cs arbitrary: bits buffer out)
  case Nil
  then show ?case unfolding dec_result_def
    by (intro exI[of _ out] exI[of _ bits] exI[of _ buffer]) simp
next
  case (Cons c cs)
  define i where "i = b32_index c"
  have c: "index_of BASE32_ALPHABET c = Some i" "i < 32"
    using Cons.prems(1) b32_index_lt[of c] by (cases "index_of BASE32_ALPHABET c"; auto simp: i_def index_of_None)+
  define buf' where "buf' = buffer * 32 + i"
  have b': "push_bit 5 buffer OR i = buf'" using c by (simp add: push_bit_or_add buf'_def)
  have lt: "buf' < 2 ^ (bits + 5)" using Cons.prems(3) c(2) by (simp add: buf'_def power_add)
  have cs: "b32_str cs" using Cons.prems(1) by simp
  have goal: "(bval out * 2 ^ bits + buffer) * 32 ^ length (c # cs) + b32_val (c # cs)
      = (bval out * 2 ^ (bits + 5) + buf') * 32 ^ length cs + b32_val cs"
    by (simp add: radix_Cons buf'_def i_def power_add algebra_simps)
  show ?case
  proof (cases "8 \<le> bits + 5")
    case True
    define k where "k = bits + 5 - 8"
    have k: "bits + 5 = k + 8" "k < 8" using True Cons.prems by (auto simp: k_def)
    have q: "buf' div 2 ^ k < 256" using lt k by (simp add: power_add less_mult_imp_div_less mult.commute)
    define out' where "out' = out @ [word_of_nat (buf' div 2 ^ k) :: byte]"
    have IH: "dec_result (8 * length out' + k + 5 * length cs)
        ((bval out' * 2 ^ k + buf' mod 2 ^ k) * 32 ^ length cs + b32_val cs)
        (base32Decode_loop k (buf' mod 2 ^ k) out' cs)"
      by (rule Cons.IH[OF cs k(2)]) simp
    have "bval out' * 2 ^ k + buf' mod 2 ^ k
        = bval out * 2 ^ (k + 8) + (buf' div 2 ^ k * 2 ^ k + buf' mod 2 ^ k)"
      using q by (simp add: out'_def word_byte power_add algebra_simps)
    also have "\<dots> = bval out * 2 ^ (bits + 5) + buf'" by (simp only: k(1) div_mult_mod_eq)
    finally have v: "bval out' * 2 ^ k + buf' mod 2 ^ k = bval out * 2 ^ (bits + 5) + buf'" .
    have n: "8 * length out' + k + 5 * length cs = 8 * length out + bits + 5 * length (c # cs)"
      using k by (simp add: out'_def)
    have "base32Decode_loop bits buffer out (c # cs) = base32Decode_loop k (buf' mod 2 ^ k) out' cs"
      using True q by (simp add: c b' k_def out'_def and_ff_mod drop_bit_eq_div and_mask_mod[simplified])
    with IH show ?thesis unfolding goal n v by (simp only:)
  next
    case False
    have IH: "dec_result (8 * length out + (bits + 5) + 5 * length cs)
        ((bval out * 2 ^ (bits + 5) + buf') * 32 ^ length cs + b32_val cs)
        (base32Decode_loop (bits + 5) buf' out cs)"
      using False lt by (intro Cons.IH[OF cs]) simp_all
    have n: "8 * length out + (bits + 5) + 5 * length cs = 8 * length out + bits + 5 * length (c # cs)"
      by simp
    have "base32Decode_loop bits buffer out (c # cs) = base32Decode_loop (bits + 5) buf' out cs"
      using False lt by (simp add: c b' and_mask_mod[simplified])
    with IH show ?thesis unfolding goal n by (simp only:)
  qed
qed

lemma mod8_unique: "8 * n + p = 8 * m + r \<Longrightarrow> p < 8 \<Longrightarrow> r < 8 \<Longrightarrow> p = r \<and> n = (m :: nat)"
  by presburger

lemma encode_emit:
  assumes "base32Encode_emit bits buffer = (chars, rest)"
  shows "rest < 5 \<and> 5 * length chars + rest = bits \<and> b32_str chars
    \<and> b32_val chars = buffer mod 2 ^ bits div 2 ^ rest"
  using assms
proof (induction bits buffer arbitrary: chars rest rule: base32Encode_emit.induct)
  case (1 bits buffer)
  show ?case
  proof (cases "5 \<le> bits")
    case True
    obtain cs where e: "base32Encode_emit (bits - 5) buffer = (cs, rest)"
      and chars: "chars = BASE32_ALPHABET ! (buffer div 2 ^ (bits - 5) mod 32) # cs"
      using 1(2) True
      by (subst (asm) base32Encode_emit.simps) (auto simp: drop_bit_eq_div and_1f_mod split: prod.splits)
    note IH = 1(1)[OF True e]
    define k where "k = bits - 5"
    have k: "bits = k + 5" "5 * length cs + rest = k" using True IH by (auto simp: k_def)
    have "buffer mod 2 ^ bits = 2 ^ k * (buffer div 2 ^ k mod 32) + buffer mod 2 ^ k"
      using mod_mult2_eq[of buffer "2 ^ k" 32] by (simp add: k power_add)
    moreover have "(2 :: nat) ^ k = 2 ^ rest * 32 ^ length cs"
      unfolding k(2)[symmetric] by (simp add: power_add power_mult)
    ultimately have "buffer mod 2 ^ bits div 2 ^ rest
        = (buffer div 2 ^ k mod 32) * 32 ^ length cs + buffer mod 2 ^ k div 2 ^ rest"
      by (simp add: mult.assoc)
    then have "b32_val chars = buffer mod 2 ^ bits div 2 ^ rest"
      using IH[folded k_def] by (simp add: chars[folded k_def] radix_Cons)
    moreover have "5 * length chars + rest = bits" using k by (simp add: chars)
    ultimately show ?thesis using IH by (simp add: chars)
  next
    case False
    then show ?thesis using 1(2) by (subst (asm) base32Encode_emit.simps) auto
  qed
qed

lemma encode_loop:
  assumes "b32_str out" "bits < 5" "buffer < 2 ^ bits"
  shows "\<exists>p < 5. b32_str (base32Encode_loop bits buffer out bs)
    \<and> 5 * length (base32Encode_loop bits buffer out bs) = 5 * length out + bits + 8 * length bs + p
    \<and> b32_val (base32Encode_loop bits buffer out bs)
      = ((b32_val out * 2 ^ bits + buffer) * 256 ^ length bs + bval bs) * 2 ^ p"
  using assms
proof (induction bs arbitrary: bits buffer out)
  case Nil
  show ?case
  proof (cases "0 < bits")
    case True
    have eq: "2 ^ (5 - bits) * 2 ^ bits = (32 :: nat)" using Nil by (simp flip: power_add)
    have "buffer * 2 ^ (5 - bits) < 2 ^ bits * 2 ^ (5 - bits)" using Nil by simp
    also have "\<dots> = 32" using eq by (simp add: mult.commute)
    finally have lt: "buffer * 2 ^ (5 - bits) < 32" .
    show ?thesis using True Nil lt eq
      by (intro exI[of _ "5 - bits"]) (simp add: and_1f_mod push_bit_eq_mult algebra_simps)
  next
    case False
    then show ?thesis using Nil by (intro exI[of _ 0]) simp
  qed
next
  case (Cons b bs)
  define buf' where "buf' = buffer * 256 + unat b"
  have b: "unat b < 256" using unsigned_less[of b] by simp
  have b': "push_bit 8 buffer OR unat b = buf'" using b by (simp add: push_bit_or_add buf'_def)
  have "buf' < (buffer + 1) * 2 ^ 8" using b by (simp add: buf'_def)
  also have "\<dots> \<le> 2 ^ (bits + 8)" unfolding power_add using Cons.prems(3) by (intro mult_le_mono1) simp
  finally have lt: "buf' < 2 ^ (bits + 8)" .
  obtain cs rest where e: "base32Encode_emit (bits + 8) buf' = (cs, rest)" by fastforce
  note E = encode_emit[OF e]
  have "b32_str (out @ cs)" using Cons.prems E by simp
  from Cons.IH[OF this, of rest "buf' mod 2 ^ rest"] E obtain p where p: "p < 5"
     "b32_str (base32Encode_loop rest (buf' mod 2 ^ rest) (out @ cs) bs)"
     "5 * length (base32Encode_loop rest (buf' mod 2 ^ rest) (out @ cs) bs)
        = 5 * length (out @ cs) + rest + 8 * length bs + p"
     "b32_val (base32Encode_loop rest (buf' mod 2 ^ rest) (out @ cs) bs)
        = ((b32_val (out @ cs) * 2 ^ rest + buf' mod 2 ^ rest) * 256 ^ length bs + bval bs) * 2 ^ p"
    by auto
  have step: "base32Encode_loop bits buffer out (b # bs) = base32Encode_loop rest (buf' mod 2 ^ rest) (out @ cs) bs"
    by (simp add: b' e and_mask_mod[simplified])
  have "b32_val (out @ cs) * 2 ^ rest + buf' mod 2 ^ rest
      = b32_val out * (32 ^ length cs * 2 ^ rest) + (buf' div 2 ^ rest * 2 ^ rest + buf' mod 2 ^ rest)"
    using E lt by (simp add: radix_append algebra_simps)
  also have "\<dots> = b32_val out * (32 ^ length cs * 2 ^ rest) + buf'" by (simp only: div_mult_mod_eq)
  also have "(32 :: nat) ^ length cs * 2 ^ rest = 2 ^ (5 * length cs + rest)"
    by (simp add: power_add power_mult)
  also have "5 * length cs + rest = bits + 8" using E by simp
  finally have v: "b32_val (out @ cs) * 2 ^ rest + buf' mod 2 ^ rest
      = (b32_val out * 2 ^ bits + buffer) * 256 + unat b"
    by (simp add: buf'_def power_add algebra_simps)
  have l: "b32_val (base32Encode_loop rest (buf' mod 2 ^ rest) (out @ cs) bs)
      = ((b32_val out * 2 ^ bits + buffer) * 256 ^ length (b # bs) + bval (b # bs)) * 2 ^ p"
    unfolding p(4) v by (simp add: radix_Cons algebra_simps)
  show ?case unfolding step l using p(1-3) E
    by (intro exI[of _ p]) simp
qed

lemma base32Encode_spec:
  obtains p where "p < 5" "b32_str (base32Encode bs)" "5 * length (base32Encode bs) = 8 * length bs + p"
    "b32_val (base32Encode bs) = bval bs * 2 ^ p"
  using encode_loop[of "[]" 0 0 bs] by (auto simp: base32Encode_def)

lemma base32Decode_spec:
  assumes "b32_str s"
  obtains bs r buf where "base32Decode s = (if 0 < r \<and> buf \<noteq> 0 then None else Some bs)"
    "5 * length s = 8 * length bs + r" "r < 8" "buf < 2 ^ r" "b32_val s = bval bs * 2 ^ r + buf"
  using decode_loop_valid[OF assms, of 0 0 "[]"] by (auto simp: base32Decode_def dec_result_def)

lemma bval_inj: "length xs = length ys \<Longrightarrow> bval xs = bval ys \<Longrightarrow> xs = (ys :: bytes)"
proof -
  assume "length xs = length ys" "bval xs = bval ys"
  then have "map unat xs = map unat ys"
    by (intro radix_inj[of _ _ 256]) (auto intro: unat_byte)
  then show ?thesis by (metis inj_map_eq_map injI unsigned_word_eqI)
qed

lemma b32_val_inj:
  assumes "b32_str s" "b32_str t" "length s = length t" "b32_val s = b32_val t"
  shows "s = t"
proof -
  have "map b32_index s = map b32_index t"
    using assms by (intro radix_inj[of _ _ 32]) (auto intro: b32_index_lt)
  then show ?thesis
    using assms(1-3) by (metis (no_types, lifting) b32_nth_index list.inj_map_strong subsetD)
qed

lemma base32_roundtrip: "base32Decode (base32Encode bs) = Some bs"
proof -
  obtain p where p: "p < 5" "b32_str (base32Encode bs)" "5 * length (base32Encode bs) = 8 * length bs + p"
    "b32_val (base32Encode bs) = bval bs * 2 ^ p" by (rule base32Encode_spec)
  obtain bs' r buf where d: "base32Decode (base32Encode bs) = (if 0 < r \<and> buf \<noteq> 0 then None else Some bs')"
    "5 * length (base32Encode bs) = 8 * length bs' + r" "r < 8" "buf < 2 ^ r"
    "b32_val (base32Encode bs) = bval bs' * 2 ^ r + buf" by (rule base32Decode_spec[OF p(2)])
  have r: "r = p" "length bs' = length bs" using mod8_unique[of "length bs" p "length bs'" r] p(1,3) d(2,3) by simp_all
  have eq: "bval bs' * 2 ^ p + buf = bval bs * 2 ^ p" using p d r by simp
  have "(bval bs' * 2 ^ p + buf) mod 2 ^ p = 0" unfolding eq by simp
  then have "buf = 0" using d(4) r(1) by simp
  then show ?thesis using eq d r bval_inj[of bs' bs] by simp
qed

lemma base32_canonical:
  assumes "5 * length s mod 8 < 5" "base32Decode s = Some bs"
  shows "base32Encode bs = s"
proof -
  have s: "b32_str s" using assms(2) decode_loop_invalid by (fastforce simp: base32Decode_def)
  obtain p where p: "p < 5" "b32_str (base32Encode bs)" "5 * length (base32Encode bs) = 8 * length bs + p"
    "b32_val (base32Encode bs) = bval bs * 2 ^ p" by (rule base32Encode_spec)
  obtain bs' r buf where d: "base32Decode s = (if 0 < r \<and> buf \<noteq> 0 then None else Some bs')"
    "5 * length s = 8 * length bs' + r" "r < 8" "buf < 2 ^ r"
    "b32_val s = bval bs' * 2 ^ r + buf" by (rule base32Decode_spec[OF s])
  have d': "bs' = bs" "buf = 0" using d assms(2) by (auto split: if_splits)
  have "r < 5" using assms(1) d(2,3) by simp
  then have "r < 5 \<and> p < 5 \<and> 5 * length s + p = 5 * length (base32Encode bs) + r"
    using p(1,3) d(2) d'(1) by simp
  then have r: "r = p" by presburger
  have "length s = length (base32Encode bs)" using p(3) d(2) d'(1) r by simp
  then show ?thesis using b32_val_inj[OF p(2) s] p(4) d(5) d' r by simp
qed

section \<open>The checksum is linear and injective on two adjacent bytes\<close>

lemma word_xor_cancel: "s XOR a = s XOR b \<Longrightarrow> a = (b :: 'a :: len word)"
proof -
  assume "s XOR a = s XOR b"
  then have "s XOR (s XOR a) = s XOR (s XOR b)" by (simp only:)
  then show ?thesis by (simp flip: xor.assoc)
qed

lemma word_xor_0: "a XOR b = 0 \<Longrightarrow> a = (b :: 'a :: len word)"
  using word_xor_cancel[of a a b] by simp

lemma crc_top_bit: "(z AND 0x8000 \<noteq> 0) = bit (z :: 16 word) 15"
  using and_exp_eq_0_iff_not_bit[of z 15] by simp

lemma crc_bit_xor: "crc_bit (x XOR y) = crc_bit x XOR crc_bit y"
  unfolding crc_bit_def crc_top_bit
  by (auto simp: bit_xor_iff push_bit_xor ac_simps)

lemma crc_bits_xor: "(crc_bit ^^ n) (x XOR y) = (crc_bit ^^ n) x XOR (crc_bit ^^ n) y"
  by (induction n) (simp_all add: crc_bit_xor)

lemma crc_bit_kernel: 
  assumes "crc_bit x = 0" shows "x = 0"
proof (cases "bit x 15")
  case True
  then have "push_bit 1 x XOR 0x1021 = 0" using assms by (simp add: crc_bit_def crc_top_bit)
  then have "bit (push_bit 1 x XOR 0x1021) 0 = bit (0 :: 16 word) 0" by (simp only:)
  then show ?thesis by (simp add: bit_0 even_xor_iff)
next
  case False
  then have z: "push_bit 1 x = 0" using assms by (simp add: crc_bit_def crc_top_bit)
  show ?thesis
  proof (rule bit_eqI)
    fix n
    assume "possible_bit TYPE(16 word) n"
    then have n: "n < 16" by simp
    show "bit x n \<longleftrightarrow> bit (0 :: 16 word) n"
    proof (cases "n = 15")
      case True
      then show ?thesis using False by simp
    next
      case F: False
      have "bit (push_bit 1 x) (Suc n) = bit x n" unfolding bit_push_bit_iff using n F by simp
      then show ?thesis using z by simp
    qed
  qed
qed

lemma crc_bits_inj: "(crc_bit ^^ n) x = (crc_bit ^^ n) y \<Longrightarrow> x = y"
proof -
  have k: "(crc_bit ^^ n) z = 0 \<Longrightarrow> z = 0" for z
    by (induction n) (auto dest: crc_bit_kernel)
  assume "(crc_bit ^^ n) x = (crc_bit ^^ n) y"
  then have "(crc_bit ^^ n) (x XOR y) = 0" by (simp add: crc_bits_xor)
  then show "x = y" using k[of "x XOR y"] word_xor_0[of x y] by simp
qed

lemma crc_byte_inj: "crc_byte s b = crc_byte s' b \<Longrightarrow> s = s'"
proof -
  assume "crc_byte s b = crc_byte s' b"
  then have "s XOR push_bit 8 (ucast b) = s' XOR push_bit 8 (ucast b)"
    unfolding crc_byte_def by (rule crc_bits_inj)
  then show ?thesis by (auto intro: word_xor_cancel[of "push_bit 8 (ucast b)"] simp: ac_simps)
qed

lemma crc_shift_byte: "n \<le> 8 \<Longrightarrow> (crc_bit ^^ n) (ucast (b :: byte)) = push_bit n (ucast b)"
proof (induction n)
  case (Suc n)
  then have "\<not> bit (push_bit n (ucast b :: 16 word)) 15"
    using bit_imp_le_length[of b "15 - n"] by (auto simp: bit_push_bit_iff bit_ucast_iff)
  with Suc show ?case by (simp add: crc_bit_def crc_top_bit)
qed simp

lemma crc_two_bytes: 
  "foldl crc_byte s [a, b] = (crc_bit ^^ 16) (s XOR (push_bit 8 (ucast a) XOR ucast b))"
proof -
  have "foldl crc_byte s [a, b] = (crc_bit ^^ 8) ((crc_bit ^^ 8) (s XOR push_bit 8 (ucast a)) XOR (crc_bit ^^ 8) (ucast b))"
    using crc_shift_byte[of 8 b] by (simp add: crc_byte_def)
  also have "\<dots> = (crc_bit ^^ (8 + 8)) (s XOR (push_bit 8 (ucast a) XOR ucast b))"
    unfolding funpow_add by (simp add: crc_bits_xor ac_simps)
  finally show ?thesis by simp
qed

lemma pack_inj:
  assumes "push_bit 8 (ucast a) XOR ucast b = push_bit 8 (ucast a') XOR (ucast b' :: 16 word)"
  shows "a = (a' :: byte) \<and> b = (b' :: byte)"
proof -
  have e: "bit (push_bit 8 (ucast a) XOR (ucast b :: 16 word)) n = bit (push_bit 8 (ucast a') XOR (ucast b' :: 16 word)) n" for n
    using assms by (simp only:)
  have "bit a n = bit a' n" if "n < 8" for n
    using e[of "n + 8"] that bit_imp_le_length[of b "n + 8"] bit_imp_le_length[of b' "n + 8"]
    by (auto simp: bit_xor_iff bit_push_bit_iff bit_ucast_iff)
  moreover have "bit b n = bit b' n" if "n < 8" for n
    using e[of n] that by (auto simp: bit_xor_iff bit_push_bit_iff bit_ucast_iff)
  ultimately show ?thesis by (auto intro!: bit_word_eqI)
qed

lemma crc_fold_inj: "foldl crc_byte s bs = foldl crc_byte s' bs \<Longrightarrow> s = s'"
  by (induction bs arbitrary: s s') (auto dest: crc_byte_inj)

lemma crc_burst:
  assumes "crc16Xmodem (xs @ [a, b] @ ys) = crc16Xmodem (xs @ [a', b'] @ ys)"
  shows "a = a' \<and> b = b'"
proof -
  define s where "s = foldl crc_byte 0 xs"
  have "foldl crc_byte (foldl crc_byte s [a, b]) ys = foldl crc_byte (foldl crc_byte s [a', b']) ys"
    using assms by (simp add: crc16Xmodem_def s_def)
  then have "foldl crc_byte s [a, b] = foldl crc_byte s [a', b']" by (rule crc_fold_inj)
  then have "s XOR (push_bit 8 (ucast a) XOR ucast b) = s XOR (push_bit 8 (ucast a') XOR ucast b')"
    unfolding crc_two_bytes by (rule crc_bits_inj)
  then have "push_bit 8 (ucast a) XOR ucast b = push_bit 8 (ucast a') XOR (ucast b' :: 16 word)"
    by (rule word_xor_cancel)
  then show ?thesis by (rule pack_inj)
qed

lemma crc_nibble_table:
  "list_all (\<lambda>e. drop_bit 8 ((crc_bit ^^ 8) (push_bit 8 (word_of_nat e))) \<noteq> 0) [1..<16]"
  by code_simp

lemma crc_nibble:
  assumes "unat a div 16 = unat a' div 16" "a \<noteq> a'"
  shows "drop_bit 8 (crc_byte s a) \<noteq> drop_bit 8 (crc_byte s a')"
proof
  assume eq: "drop_bit 8 (crc_byte s a) = drop_bit 8 (crc_byte s a')"
  define e where "e = unat (a XOR a')"
  have "drop_bit 4 (unat a) = drop_bit 4 (unat a')" using assms(1) by (simp add: drop_bit_eq_div)
  then have "drop_bit 4 e = 0" by (simp add: e_def unsigned_xor_eq drop_bit_xor)
  then have "e < 16" by (simp add: drop_bit_eq_div)
  moreover have "e \<noteq> 0" using assms(2) word_xor_0[of a a'] by (auto simp: e_def unat_eq_0)
  ultimately have "e \<in> set [1..<16]" by auto
  then have ne: "drop_bit 8 ((crc_bit ^^ 8) (push_bit 8 (word_of_nat e))) \<noteq> 0"
    using crc_nibble_table by (auto simp: list_all_iff)
  have "(word_of_nat e :: 16 word) = ucast a XOR ucast a'"
    by (simp add: e_def flip: unsigned_xor_eq ) 
  then have "crc_byte s a XOR crc_byte s a' = (crc_bit ^^ 8) (push_bit 8 (word_of_nat e))"
    by (simp add: crc_byte_def crc_bits_xor push_bit_xor ac_simps flip: crc_bits_xor)
  then show False using ne eq by (metis drop_bit_xor xor_self_eq)
qed

section \<open>What a single character determines\<close>

lemma bval_lt: "bval bs < 2 ^ (8 * length bs)"
proof -
  have "bval bs < 256 ^ length (map unat bs)" by (rule radix_less) (auto simp: unat_byte)
  then show ?thesis by (simp add: power_mult)
qed

lemma bval_div: "k \<le> length bs \<Longrightarrow> bval bs div 2 ^ (8 * (length bs - k)) = bval (take k bs)"
proof -
  assume k: "k \<le> length bs"
  have "bval bs = bval (take k bs @ drop k bs)" by simp
  also have "\<dots> = bval (take k bs) * 2 ^ (8 * (length bs - k)) + bval (drop k bs)"
    unfolding map_append radix_append by (simp add: power_mult)
  finally show ?thesis using bval_lt[of "drop k bs"] by simp
qed

lemma bval_mod: "bval bs mod 2 ^ (8 * (length bs - k)) = bval (drop k bs)"
proof -
  have "bval bs = bval (take k bs @ drop k bs)" by simp
  also have "\<dots> = bval (take k bs) * 2 ^ (8 * (length bs - k)) + bval (drop k bs)"
    unfolding map_append radix_append by (simp add: power_mult)
  finally show ?thesis using bval_lt[of "drop k bs"] by simp
qed

text \<open>The part of a decoded string that one character can influence.\<close>

lemma b32_val_lt: "b32_str s \<Longrightarrow> b32_val s < 2 ^ (5 * length s)"
  using radix_less[of "map b32_index s" 32] by (auto simp: power_mult intro: b32_index_lt)

lemma base32Decode_SomeE:
  assumes "base32Decode s = Some bs"
  obtains r where "b32_str s" "5 * length s = 8 * length bs + r" "r < 8" "b32_val s = bval bs * 2 ^ r"
proof -
  have s: "b32_str s" using assms decode_loop_invalid by (fastforce simp: base32Decode_def)
  obtain bs' r buf where d: "base32Decode s = (if 0 < r \<and> buf \<noteq> 0 then None else Some bs')"
    "5 * length s = 8 * length bs' + r" "r < 8" "buf < 2 ^ r"
    "b32_val s = bval bs' * 2 ^ r + buf" by (rule base32Decode_spec[OF s])
  have "bs' = bs" "buf = 0" using d assms by (auto split: if_splits)
  then show ?thesis using that s d by simp
qed

lemma high_bits_stable:
  assumes "base32Decode (u @ c # w) = Some bs" "q \<le> 5 * length u" "q \<le> 8 * length bs"
  shows "bval bs div 2 ^ (8 * length bs - q) = b32_val u div 2 ^ (5 * length u - q)"
proof -
  obtain r where r: "b32_str (u @ c # w)" "5 * length (u @ c # w) = 8 * length bs + r"
    "b32_val (u @ c # w) = bval bs * 2 ^ r" by (rule base32Decode_SomeE[OF assms(1)])
  have "bval bs div 2 ^ (8 * length bs - q) = bval bs * 2 ^ r div (2 ^ (8 * length bs - q) * 2 ^ r)"
    by simp
  also have "\<dots> = b32_val (u @ c # w) div 2 ^ (8 * length bs - q + r)"
    by (simp only: r(3) power_add)
  also have "8 * length bs - q + r = 5 * length (c # w) + (5 * length u - q)"
    using r(2) assms(2,3) by simp
  also have "b32_val (u @ c # w) = b32_val u * 2 ^ (5 * length (c # w)) + b32_val (c # w)"
    unfolding map_append radix_append by (simp add: power_add power_mult)
  also have "(b32_val u * 2 ^ (5 * length (c # w)) + b32_val (c # w)) div 2 ^ (5 * length (c # w) + (5 * length u - q))
     = b32_val u div 2 ^ (5 * length u - q)"
    using r(1) b32_val_lt[of "c # w"]
    by (simp only: power_add[of 2 "5 * length (c # w)"] div_mult2_eq) simp
  finally show ?thesis .
qed

lemma low_bits_stable:
  assumes "base32Decode (u @ c # w) = Some bs" "5 * length (u @ c # w) = 8 * length bs + r" "p + r \<le> 5 * length w"
  shows "bval bs mod 2 ^ p = b32_val w mod 2 ^ (p + r) div 2 ^ r"
proof -
  obtain r' where r': "5 * length (u @ c # w) = 8 * length bs + r'"
    "b32_val (u @ c # w) = bval bs * 2 ^ r'" by (rule base32Decode_SomeE[OF assms(1)])
  then have r: "b32_val ((u @ [c]) @ w) = bval bs * 2 ^ r" using assms(2) by simp
  have e: "5 * length w = p + r + (5 * length w - (p + r))" using assms(3) by simp
  have "b32_val ((u @ [c]) @ w) = b32_val (u @ [c]) * 2 ^ (5 * length w) + b32_val w"
    unfolding map_append radix_append by (simp add: power_mult)
  also have "b32_val (u @ [c]) * 2 ^ (5 * length w) = (b32_val (u @ [c]) * 2 ^ (5 * length w - (p + r))) * 2 ^ (p + r)"
    by (subst e) (simp only: power_add mult_ac)
  finally have "b32_val ((u @ [c]) @ w) mod 2 ^ (p + r) = b32_val w mod 2 ^ (p + r)"
    by (simp only: mod_mult_self3)
  then have "bval bs * 2 ^ r mod (2 ^ p * 2 ^ r) = b32_val w mod 2 ^ (p + r)"
    unfolding r power_add by simp
  then have "bval bs mod 2 ^ p * 2 ^ r = b32_val w mod 2 ^ (p + r)"
    by (simp add: mult.commute)
  then show ?thesis by (metis nonzero_mult_div_cancel_right power_not_zero zero_neq_numeral)
qed

lemma take_stable:
  assumes "base32Decode (u @ c # w) = Some bs" "base32Decode (u @ d # w) = Some bs'"
    and "8 * k \<le> 5 * length u"
  shows "take k bs = take k bs'"
proof -
  have n: "length bs = length bs'"
    using base32Decode_SomeE[OF assms(1)] base32Decode_SomeE[OF assms(2)] mod8_unique
    by (metis length_append length_Cons)
  show ?thesis
  proof (cases "k \<le> length bs")
    case True
    have "bval (take k bs) = b32_val u div 2 ^ (5 * length u - 8 * k)"
      using high_bits_stable[OF assms(1,3)] bval_div[OF True] True by (simp flip: diff_mult_distrib2)
    moreover have "bval (take k bs') = b32_val u div 2 ^ (5 * length u - 8 * k)"
      using high_bits_stable[OF assms(2,3)] bval_div[of k bs'] True n by (simp flip: diff_mult_distrib2)
    ultimately show ?thesis using n by (intro bval_inj) simp_all
  next
    case False
    have "length bs * 8 \<le> 5 * length u" using False assms(3) by simp
    then have "bval bs = bval bs'"
      using high_bits_stable[OF assms(1), of "8 * length bs"] high_bits_stable[OF assms(2), of "8 * length bs"] n
      by (simp add: mult.commute)
    then show ?thesis using n by (metis bval_inj)
  qed
qed

lemma drop_stable:
  assumes "base32Decode (u @ c # w) = Some bs" "base32Decode (u @ d # w) = Some bs'"
    and "5 * length u + 5 \<le> 8 * k"
  shows "drop k bs = drop k bs'"
proof -
  obtain r where r: "5 * length (u @ c # w) = 8 * length bs + r" "r < 8" by (rule base32Decode_SomeE[OF assms(1)])
  obtain r' where r': "5 * length (u @ d # w) = 8 * length bs' + r'" "r' < 8" by (rule base32Decode_SomeE[OF assms(2)])
  have n: "r' = r" "length bs' = length bs" using mod8_unique[of "length bs'" r' "length bs" r] r r' by simp_all
  show ?thesis
  proof (cases "k \<le> length bs")
    case True
    have p: "8 * (length bs - k) + r \<le> 5 * length w" using True r assms(3) by simp
    have "bval (drop k bs) = bval (drop k bs')"
      using low_bits_stable[OF assms(1) r(1) p] low_bits_stable[OF assms(2) r'(1), of "8 * (length bs - k)"] p n
        bval_mod[of bs k] bval_mod[of bs' k] by simp
    then show ?thesis using n by (intro bval_inj) simp_all
  qed (use n in simp)
qed

lemma nibble_stable:
  assumes "base32Decode (u @ c # w) = Some bs" "base32Decode (u @ d # w) = Some bs'"
    and "8 * k + 4 \<le> 5 * length u" "k < length bs"
  shows "unat (bs ! k) div 16 = unat (bs' ! k) div 16"
proof -
  have n: "length bs = length bs'"
    using base32Decode_SomeE[OF assms(1)] base32Decode_SomeE[OF assms(2)] mod8_unique
    by (metis length_append length_Cons)
  have nib: "unat (xs ! k) div 16 = bval xs div 2 ^ (8 * length xs - (8 * k + 4)) mod 16" if "k < length xs" for xs :: bytes
  proof -
    have "8 * length xs - (8 * k + 4) = 8 * (length xs - Suc k) + 4" using that by simp
    then have "bval xs div 2 ^ (8 * length xs - (8 * k + 4)) = bval xs div (2 ^ (8 * (length xs - Suc k)) * 2 ^ 4)"
      by (simp only: power_add)
    also have "\<dots> = bval (take (Suc k) xs) div 16"
      using bval_div[of "Suc k" xs] that by (simp add: div_mult2_eq)
    also have "\<dots> = (bval (take k xs) * 256 + unat (xs ! k)) div 16"
      using that by (simp add: take_Suc_conv_app_nth)
    also have "\<dots> = bval (take k xs) * 16 + unat (xs ! k) div 16" by simp
    finally show ?thesis using unat_byte[of "xs ! k"] by simp
  qed
  have q: "8 * k + 4 \<le> 8 * length bs" using assms(4) by simp
  show ?thesis using nib[of bs] nib[of bs'] assms(4) n
    high_bits_stable[OF assms(1,3) q] high_bits_stable[OF assms(2,3)] q by simp
qed

section \<open>Keys\<close>

lemma and_ff_take_bit: "x AND 0xff = take_bit 8 (x :: 16 word)"
  unfolding take_bit_eq_mask mask_eq_exp_minus_1 by simp

lemma crc_join_split [simp]: "crc_join (crc_lo x) (crc_hi x) = x"
  unfolding and_ff_take_bit
proof (rule bit_word_eqI)
  fix n assume "n < LENGTH(16)"
  then show "bit (crc_join (ucast (take_bit 8 x)) (ucast (take_bit 8 (drop_bit 8 x)))) n = bit x n"
    by (auto simp: bit_or_iff bit_push_bit_iff bit_ucast_iff bit_drop_bit_eq bit_take_bit_iff)
qed

lemma crc_join_inj: 
  assumes "crc_join lo hi = crc_join lo' hi'"
  shows "lo = lo' \<and> hi = hi'"
proof -
  have e: "bit (crc_join lo hi) n = bit (crc_join lo' hi') n" for n using assms by (simp only:)
  have "bit hi n = bit hi' n" if "n < 8" for n
    using e[of "n + 8"] that bit_imp_le_length[of lo "n + 8"] bit_imp_le_length[of lo' "n + 8"]
    by (auto simp: bit_or_iff bit_push_bit_iff bit_ucast_iff)
  moreover have "bit lo n = bit lo' n" if "n < 8" for n
    using e[of n] that by (auto simp: bit_or_iff bit_push_bit_iff bit_ucast_iff)
  ultimately show ?thesis by (auto intro!: bit_word_eqI)
qed

lemma crc_join_hi: "drop_bit 8 (crc_join lo hi) = ucast hi"
proof (rule bit_word_eqI)
  fix n assume "n < LENGTH(16)"
  then show "bit (drop_bit 8 (crc_join lo hi)) n = bit (ucast hi :: 16 word) n"
    using bit_imp_le_length[of lo "n + 8"] bit_imp_le_length[of hi n]
    by (auto simp: bit_or_iff bit_push_bit_iff bit_ucast_iff bit_drop_bit_eq add.commute)
qed

lemma decodeStrKey_Inr:
  "decodeStrKey (Str s) kind = Inr bs \<longleftrightarrow>
     length s = STRKEY_LENGTH kind \<and> base32Decode s = Some bs \<and> 3 \<le> length bs
     \<and> bs ! 0 = STRKEY_VERSION kind
     \<and> crc16Xmodem (take (length bs - 2) bs) = crc_join (bs ! (length bs - 2)) (bs ! (length bs - 1))"
  by (cases kind) (auto simp: decodeStrKey_def Let_def split: option.splits if_splits)

lemma strkey_length_mod: "5 * STRKEY_LENGTH kind mod 8 < 5"
  by (cases kind) simp_all

lemma decoded_length:
  assumes "length s = STRKEY_LENGTH kind" "base32Decode s = Some bs"
  shows "length bs = payload_length kind + 3"
proof -
  obtain r where "5 * length s = 8 * length bs + r" "r < 8" by (rule base32Decode_SomeE[OF assms(2)])
  then show ?thesis using assms(1) by (cases kind) simp_all
qed

lemma encoded_length:
  "length payload = payload_length kind \<Longrightarrow> length (encodeStrKey v payload) = STRKEY_LENGTH kind"
proof -
  assume a: "length payload = payload_length kind"
  define full where "full = v # payload @ [crc_lo (crc16Xmodem (v # payload)), crc_hi (crc16Xmodem (v # payload))]"
  obtain p where p: "p < 5" "5 * length (base32Encode full) = 8 * length full + p" by (rule base32Encode_spec)
  have "base32Encode full = encodeStrKey v payload" by (simp add: encodeStrKey_def full_def Let_def)
  moreover have "length full = payload_length kind + 3" using a by (simp add: full_def)
  ultimately show ?thesis using p by (cases kind) simp_all
qed

lemma decode_encode_strkey:
  assumes "length payload = payload_length kind"
  shows "decodeStrKey (Str (encodeStrKey (STRKEY_VERSION kind) payload)) kind =
    Inr (STRKEY_VERSION kind # payload @ [crc_lo (crc16Xmodem (STRKEY_VERSION kind # payload)), crc_hi (crc16Xmodem (STRKEY_VERSION kind # payload))])"
  unfolding decodeStrKey_Inr
  using encoded_length[OF assms, of "STRKEY_VERSION kind"]
  by (simp add: encodeStrKey_def Let_def base32_roundtrip nth_append nth_Cons')

lemma bytes_split:
  assumes "3 \<le> length (bs :: bytes)"
  shows "bs = bs ! 0 # take (length bs - 3) (drop 1 bs) @ [bs ! (length bs - 2), bs ! (length bs - 1)]"
proof -
  obtain ys hi where "bs = ys @ [hi]" using assms by (cases bs rule: rev_exhaust) auto
  moreover obtain zs lo where "ys = zs @ [lo]" using assms calculation by (cases ys rule: rev_exhaust) auto
  moreover obtain v ps where "zs = v # ps" using assms calculation by (cases zs) auto
  ultimately show ?thesis by (simp add: nth_append)
qed

lemma encode_decode_strkey:
  assumes "decodeStrKey (Str s) kind = Inr bs"
  shows "encodeStrKey (STRKEY_VERSION kind) (take (length bs - 3) (drop 1 bs)) = s"
    "length bs = payload_length kind + 3"
proof -
  define payload where "payload = take (length bs - 3) (drop 1 bs)"
  have d: "length s = STRKEY_LENGTH kind" "base32Decode s = Some bs" "3 \<le> length bs"
     "bs ! 0 = STRKEY_VERSION kind"
     "crc16Xmodem (take (length bs - 2) bs) = crc_join (bs ! (length bs - 2)) (bs ! (length bs - 1))"
    using assms by (simp_all add: decodeStrKey_Inr)
  show "length bs = payload_length kind + 3" using d(1,2) by (rule decoded_length)
  have bs: "bs = (STRKEY_VERSION kind # payload) @ [bs ! (length bs - 2), bs ! (length bs - 1)]"
    using bytes_split[OF d(3)] d(4) by (simp add: payload_def)
  have "length (STRKEY_VERSION kind # payload) = length bs - 2" using d(3) by (simp add: payload_def)
  then have "take (length bs - 2) bs = STRKEY_VERSION kind # payload"
    by (metis append_eq_conv_conj bs)
  then have c: "crc_join (bs ! (length bs - 2)) (bs ! (length bs - 1)) = crc16Xmodem (STRKEY_VERSION kind # payload)"
    using d(5) by simp
  then have "bs ! (length bs - 2) = crc_lo (crc16Xmodem (STRKEY_VERSION kind # payload))
      \<and> bs ! (length bs - 1) = crc_hi (crc16Xmodem (STRKEY_VERSION kind # payload))"
    by (intro crc_join_inj) (simp only: crc_join_split)
  then have "encodeStrKey (STRKEY_VERSION kind) payload = base32Encode bs"
    using bs by (simp add: encodeStrKey_def Let_def)
  also have "\<dots> = s" using d(1,2) strkey_length_mod[of kind] by (intro base32_canonical) simp_all
  finally show "encodeStrKey (STRKEY_VERSION kind) (take (length bs - 3) (drop 1 bs)) = s"
    by (simp add: payload_def)
qed

section \<open>Single-character errors\<close>

lemma crc_byte_inj_byte: "crc_byte s a = crc_byte s a' \<Longrightarrow> a = a'"
proof -
  assume "crc_byte s a = crc_byte s a'"
  then have "s XOR push_bit 8 (ucast a) = s XOR push_bit 8 (ucast a')"
    unfolding crc_byte_def by (rule crc_bits_inj)
  then have "push_bit 8 (ucast a) = push_bit 8 (ucast a' :: 16 word)" by (rule word_xor_cancel)
  then show ?thesis using pack_inj[of a 0 a' 0] by simp
qed

lemma crc_ok_unique:
  assumes "crc_ok bs" "crc_ok bs'" "length bs = length bs'" "3 \<le> length bs"
    and eq: "take (length bs - 2) bs = take (length bs - 2) bs'"
  shows "bs = bs'"
proof -
  have "bs ! (length bs - 2) = bs' ! (length bs - 2) \<and> bs ! (length bs - 1) = bs' ! (length bs - 1)"
    using assms by (intro crc_join_inj) metis
  moreover have "drop (length xs - 2) xs = [xs ! (length xs - 2), xs ! (length xs - 1)]"
    if "3 \<le> length xs" for xs :: bytes
    using that by (intro nth_equalityI) (auto simp: less_2_cases_iff)
  ultimately show ?thesis using assms by (metis append_take_drop_id)
qed

lemma burst_in_body:
  assumes "crc_ok bs" "crc_ok bs'" and n: "length bs = n" "length bs' = n" and k: "k + 4 \<le> n"
    and lo: "take k bs = take k bs'" and hi: "drop (k + 2) bs = drop (k + 2) bs'"
  shows "take (n - 2) bs = take (n - 2) bs'"
proof -
  have split: "take (n - 2) xs = take k xs @ [xs ! k, xs ! (k + 1)] @ take (n - 2 - (k + 2)) (drop (k + 2) xs)"
    if "length xs = n" for xs :: bytes
  proof -
    have "drop k xs = xs ! k # xs ! (k + 1) # drop (k + 2) xs"
      using that k by (simp add: Cons_nth_drop_Suc)
    moreover have "take (n - 2) xs = take k xs @ take (n - 2 - k) (drop k xs)"
      using k by (simp flip: take_add)
    moreover have "n - 2 - k = Suc (Suc (n - 2 - (k + 2)))" using k by simp
    ultimately show ?thesis by simp
  qed
  have "bs ! i = bs' ! i" if ki: "k + 2 \<le> i" and "i < n" for i
  proof -
    obtain j where i: "i = k + 2 + j" using ki by (auto simp: le_iff_add)
    have "drop (k + 2) bs ! j = drop (k + 2) bs' ! j" by (simp only: hi)
    then show ?thesis using that n by (simp add: i)
  qed
  from this[of "n - 2"] this[of "n - 1"]
  have "bs ! (n - 2) = bs' ! (n - 2)" "bs ! (n - 1) = bs' ! (n - 1)" using k by simp_all
  then have "crc16Xmodem (take (n - 2) bs) = crc16Xmodem (take (n - 2) bs')" using assms n by simp
  then have "bs ! k = bs' ! k \<and> bs ! (k + 1) = bs' ! (k + 1)"
    unfolding split[OF n(1)] split[OF n(2)] lo hi by (rule crc_burst)
  then show ?thesis by (simp only: split[OF n(1)] split[OF n(2)] lo hi)
qed

lemma burst_at_checksum:
  assumes "crc_ok bs" "crc_ok bs'" and n: "length bs = k + 3" "length bs' = k + 3"
    and lo: "take k bs = take k bs'" and hi: "drop (k + 2) bs = drop (k + 2) bs'"
    and w: "unat (bs ! k) div 16 = unat (bs' ! k) div 16 \<or> drop (k + 1) bs = drop (k + 1) bs'"
  shows "take (k + 1) bs = take (k + 1) bs'"
proof -
  have split: "take (k + 1) xs = take k xs @ [xs ! k]" if "length xs = k + 3" for xs :: bytes
    using that take_Suc_conv_app_nth[of k xs] by simp
  define s where "s = foldl crc_byte 0 (take k bs)"
  have crc: "crc_byte s (bs ! k) = crc_join (bs ! (k + 1)) (bs ! (k + 2))"
    "crc_byte s (bs' ! k) = crc_join (bs' ! (k + 1)) (bs' ! (k + 2))"
    using assms(1,2) n split[of bs] split[of bs'] lo by (auto simp: crc16Xmodem_def s_def)
  have top: "bs ! (k + 2) = bs' ! (k + 2)"
    using arg_cong[OF hi, of hd] n by (simp add: hd_drop_conv_nth)
  have "bs ! k = bs' ! k"
    using w
  proof
    assume "unat (bs ! k) div 16 = unat (bs' ! k) div 16"
    moreover have "drop_bit 8 (crc_byte s (bs ! k)) = drop_bit 8 (crc_byte s (bs' ! k))"
      unfolding crc crc_join_hi top ..
    ultimately show ?thesis using crc_nibble by blast
  next
    assume "drop (k + 1) bs = drop (k + 1) bs'"
    then have "hd (drop (k + 1) bs) = hd (drop (k + 1) bs')" by (simp only:)
    then have "bs ! (k + 1) = bs' ! (k + 1)" using n by (simp add: hd_drop_conv_nth)
    then have "crc_byte s (bs ! k) = crc_byte s (bs' ! k)" unfolding crc top by simp
    then show ?thesis by (rule crc_byte_inj_byte)
  qed
  then show ?thesis using n lo by (simp only: split)
qed

lemma single_char_decode:
  assumes "decodeStrKey (Str (u @ c # w)) kind = Inr bs" "decodeStrKey (Str (u @ d # w)) kind = Inr bs'"
  shows "bs = bs'"
proof -
  define k where "k = 5 * length u div 8"
  note d = assms(1)[unfolded decodeStrKey_Inr] and d' = assms(2)[unfolded decodeStrKey_Inr]
  have n: "length bs' = length bs" "3 \<le> length bs"
    using encode_decode_strkey(2)[OF assms(1)] encode_decode_strkey(2)[OF assms(2)] by simp_all
  have ok: "crc_ok bs" "crc_ok bs'" using d d' by auto
  have b: "base32Decode (u @ c # w) = Some bs" "base32Decode (u @ d # w) = Some bs'" using d d' by auto
  have lo: "take k bs = take k bs'" by (rule take_stable[OF b]) (simp add: k_def)
  have hi: "drop (k + 2) bs = drop (k + 2) bs'" by (rule drop_stable[OF b]) (simp add: k_def)
  consider "k \<ge> length bs - 2" | "k + 4 \<le> length bs" | "length bs = k + 3" using n(2) by linarith
  then have "take (length bs - 2) bs = take (length bs - 2) bs'"
  proof cases
    case 1
    have "take (length bs - 2) (take k bs) = take (length bs - 2) (take k bs')" by (simp only: lo)
    then show ?thesis using 1 by (simp add: min_absorb1)
  next
    case 2
    then show ?thesis using burst_in_body[OF ok refl n(1) _ lo hi] by simp
  next
    case 3
    have "unat (bs ! k) div 16 = unat (bs' ! k) div 16 \<or> drop (k + 1) bs = drop (k + 1) bs'"
    proof (cases "8 * k + 4 \<le> 5 * length u")
      case True
      then show ?thesis using nibble_stable[OF b True] 3 by simp
    next
      case False
      then show ?thesis using drop_stable[OF b, of "k + 1"] by simp
    qed
    then show ?thesis using burst_at_checksum[OF ok 3 _ lo hi] 3 n by simp
  qed
  then show ?thesis using crc_ok_unique ok n by metis
qed

lemma isValidStrKeyE:
  assumes "isValidStrKey (Str s) kind"
  obtains bs where "decodeStrKey (Str s) kind = Inr bs"
  using assms by (auto simp: isValidStrKey_def split: sum.splits)

section \<open>Decimal rendering\<close>

lemma push_carry_props:
  "le_val (push_carry c) = c \<and> (\<forall>d \<in> set (push_carry c). d < 10) \<and> (0 < c \<longrightarrow> push_carry c \<noteq> [] \<and> last (push_carry c) \<noteq> 0)"
proof (induction c rule: push_carry.induct)
  case (1 c)
  show ?case
  proof (cases "0 < c")
    case True
    then have e: "push_carry c = (c mod 10) # push_carry (c div 10)" by (simp add: push_carry.simps[of c])
    show ?thesis
    proof (cases "c div 10 = 0")
      case True
      then show ?thesis using e \<open>0 < c\<close> by (auto simp: push_carry.simps[of 0])
    qed (use 1[OF True] in \<open>auto simp: e\<close>)
  qed (simp add: push_carry.simps[of 0])
qed

lemma le_val_mul_digits: "le_val (mul_digits ds c) = le_val ds * 256 + c"
proof (induction ds arbitrary: c)
  case (Cons d ds)
  show ?case by (simp add: Let_def Cons algebra_simps)
qed (simp add: push_carry_props)

lemma mul_digits_lt: "\<forall>d \<in> set ds. d < 10 \<Longrightarrow> \<forall>d \<in> set (mul_digits ds c). d < 10"
  by (induction ds arbitrary: c) (auto simp: push_carry_props Let_def)

lemma mul_digits_last:
  "ds \<noteq> [] \<Longrightarrow> last ds \<noteq> 0 \<Longrightarrow> mul_digits ds c \<noteq> [] \<and> last (mul_digits ds c) \<noteq> 0"
proof (induction ds arbitrary: c)
  case (Cons d ds)
  show ?case
  proof (cases "ds = []")
    case True
    then have "0 < (d * 256 + c) div 10" using Cons.prems by simp
    then show ?thesis using True push_carry_props[of "(d * 256 + c) div 10"] by (simp add: Let_def)
  next
    case False
    then show ?thesis using Cons by (simp add: Let_def)
  qed
qed simp

lemma digits_ok_mul: "digits_ok ds \<Longrightarrow> digits_ok (mul_digits ds c)"
proof -
  assume ok: "digits_ok ds"
  show ?thesis
  proof (cases "last ds = 0")
    case True
    then have ds: "ds = [0]" using ok by (cases ds) (auto simp: digits_ok_def)
    have "digits_ok (mul_digits [0] c)"
      using push_carry_props[of "c div 10"] by (cases "0 < c div 10") (auto simp: digits_ok_def Let_def push_carry.simps[of 0])
    then show ?thesis by (simp add: ds)
  next
    case False
    then show ?thesis using ok mul_digits_last[of ds c] mul_digits_lt[of ds c] by (auto simp: digits_ok_def)
  qed
qed

lemma le_val_pos: "ds \<noteq> [] \<Longrightarrow> last ds \<noteq> 0 \<Longrightarrow> le_val ds \<noteq> 0"
  by (induction ds) (auto split: if_splits)

lemma digits_ok_nat_str: "digits_ok ds \<Longrightarrow> map digit_char (rev ds) = nat_str (le_val ds)"
proof (induction ds)
  case (Cons d ds)
  show ?case
  proof (cases "ds = []")
    case True
    then show ?thesis using Cons.prems by (subst nat_str.simps) (simp add: digits_ok_def)
  next
    case False
    then have ok: "digits_ok ds" and d: "d < 10" using Cons.prems by (auto simp: digits_ok_def)
    have "le_val ds \<noteq> 0" using False Cons.prems by (intro le_val_pos) (auto simp: digits_ok_def)
    then show ?thesis using Cons.IH[OF ok] d by (subst nat_str.simps) simp
  qed
qed (simp add: digits_ok_def)

lemma bytesToDecimalString_val: "bytesToDecimalString bs = nat_str (bval bs)"
proof -
  have "digits_ok (foldl (\<lambda>digits b. mul_digits digits (unat b)) ds bs) \<and>
     le_val (foldl (\<lambda>digits b. mul_digits digits (unat b)) ds bs) = le_val ds * 256 ^ length bs + bval bs"
    if "digits_ok ds" for ds using that
    by (induction bs arbitrary: ds)
       (simp_all add: digits_ok_mul le_val_mul_digits radix_Cons algebra_simps)
  from this[of "[0]"] show ?thesis
    by (simp add: bytesToDecimalString_def digits_ok_nat_str digits_ok_def)
qed

section \<open>Transaction hashes\<close>

lemma hex64_not_0x: "hex64 s \<Longrightarrow> \<not> has0x s"
proof
  assume "hex64 s" "has0x s"
  then obtain a b t where "s = a # b # t" by (cases s; cases "tl s") (auto simp: hex64_def)
  with \<open>hex64 s\<close> \<open>has0x s\<close> show False
    using hex_not_x[of b] by (simp add: hex64_def has0x_def startsWith_def toLowerCase_def)
qed

lemma has0x_take: "has0x s \<longleftrightarrow> toLowerCase (take 2 s) = ''0x''"
  by (simp add: has0x_def startsWith_def toLowerCase_def take_map numeral_2_eq_2)

section \<open>Interfaces\<close>

text \<open>Base32 is a codec; with the lengths the keys have, it accepts canonical strings only.\<close>

interpretation b32: canonical_codec base32Encode base32Decode "\<lambda>_. True"
    "\<lambda>s. 5 * length s mod 8 < 5"
  by unfold_locales (auto simp: base32_roundtrip intro: base32_canonical)

definition strkey_payload :: "StellarStrKeyKind \<Rightarrow> string \<Rightarrow> bytes option" where
  "strkey_payload kind s =
     (case decodeStrKey (Str s) kind of
        Inl _ \<Rightarrow> None
      | Inr bs \<Rightarrow> Some (take (length bs - 3) (drop 1 bs)))"

interpretation strkey: canonical_codec "encodeStrKey (STRKEY_VERSION kind)" "strkey_payload kind"
    "\<lambda>payload. length payload = payload_length kind" "\<lambda>_. True" for kind
proof unfold_locales
  fix payload :: bytes
  assume "length payload = payload_length kind"
  then show "strkey_payload kind (encodeStrKey (STRKEY_VERSION kind) payload) = Some payload"
    by (simp add: strkey_payload_def decode_encode_strkey)
next
  fix s payload
  assume "strkey_payload kind s = Some payload"
  then show "encodeStrKey (STRKEY_VERSION kind) payload = s"
    using encode_decode_strkey(1)
    by (auto simp: strkey_payload_def simp del: drop_0 split: sum.splits)
qed

section \<open>Properties\<close>

text \<open>C1. The validator accepts exactly the encodings: a string is a valid key of a kind if and only
  if it is what \<open>encodeStrKey\<close> produces from the kind's version byte and some payload of the
  kind's length. So no string is accepted twice for one key and no non-canonical base32 slips in.\<close>

theorem strkey_valid_iff_encoding:
  "isValidStrKey (Str s) kind \<longleftrightarrow>
     (\<exists>payload. length payload = payload_length kind \<and> s = encodeStrKey (STRKEY_VERSION kind) payload)"
proof
  assume "isValidStrKey (Str s) kind"
  then obtain bs where bs: "decodeStrKey (Str s) kind = Inr bs" by (rule isValidStrKeyE)
  show "\<exists>payload. length payload = payload_length kind \<and> s = encodeStrKey (STRKEY_VERSION kind) payload"
    using encode_decode_strkey[OF bs] by (intro exI[of _ "take (length bs - 3) (drop 1 bs)"]) simp
qed (auto simp: isValidStrKey_def decode_encode_strkey)

text \<open>Encoding and decoding round-trip: the payload read back from an encoded key is the payload,
  and an accepted string is the encoding of the payload read from it.\<close>

theorem strkey_payload_roundtrip:
  "(length payload = payload_length kind \<longrightarrow>
      strkey_payload kind (encodeStrKey (STRKEY_VERSION kind) payload) = Some payload) \<and>
   (strkey_payload kind s = Some payload' \<longrightarrow> encodeStrKey (STRKEY_VERSION kind) payload' = s)"
  using strkey.dec_enc strkey.enc_dec by blast

theorem strkey_payload_roundtrip_witness:
  "strkey_payload contractId (encodeStrKey (STRKEY_VERSION contractId) (replicate 32 7)) = Some (replicate 32 7)"
  using strkey_payload_roundtrip[of "replicate 32 7" contractId] by simp

text \<open>Every single-character typo is caught: two valid keys of one kind that differ at most at one
  position are the same key. The CRC is a linear map that is injective on any two adjacent bytes, and
  one base32 character reaches at most two of them.\<close>

theorem strkey_single_character_error:
  assumes "isValidStrKey (Str (u @ c # w)) kind" and "d \<noteq> c"
  shows "\<not> isValidStrKey (Str (u @ d # w)) kind"
proof
  assume v: "isValidStrKey (Str (u @ d # w)) kind"
  obtain bs where b: "decodeStrKey (Str (u @ c # w)) kind = Inr bs" by (rule isValidStrKeyE[OF assms(1)])
  obtain bs' where b': "decodeStrKey (Str (u @ d # w)) kind = Inr bs'" by (rule isValidStrKeyE[OF v])
  have "u @ c # w = u @ d # w"
    using encode_decode_strkey(1)[OF b] encode_decode_strkey(1)[OF b'] single_char_decode[OF b b'] by simp
  then show False using assms(2) by simp
qed

theorem strkey_single_character_error_witness:
  "let s = encodeStrKey (STRKEY_VERSION contractId) (replicate 32 7);
       d = (if hd s = CHR ''A'' then CHR ''B'' else CHR ''A'') in
   isValidStrKey (Str s) contractId \<and> \<not> isValidStrKey (Str (d # tl s)) contractId"
proof -
  define s where "s = encodeStrKey (STRKEY_VERSION contractId) (replicate 32 7)"
  define d where "d = (if hd s = CHR ''A'' then CHR ''B'' else CHR ''A'')"
  have "length s = 56" using encoded_length[of "replicate 32 7" contractId] by (simp add: s_def)
  then have s: "[] @ hd s # tl s = s" by (cases s) auto
  have v: "isValidStrKey (Str ([] @ hd s # tl s)) contractId"
    unfolding s using decode_encode_strkey[of "replicate 32 7" contractId]
    by (simp add: s_def isValidStrKey_def)
  have "\<not> isValidStrKey (Str ([] @ d # tl s)) contractId"
    by (rule strkey_single_character_error[OF v]) (simp add: d_def)
  then show ?thesis unfolding Let_def s_def[symmetric] d_def[symmetric] using v s by simp
qed

text \<open>A muxed address made of a 32-byte key and an 8-byte id parses to the account address of that
  key, itself a valid account, and to the id as a decimal numeral without leading zeros.\<close>

theorem parseMuxedAddress_parts:
  assumes "length key = 32" "length idb = 8"
  shows "parseMuxedAddress (Str (encodeStrKey (STRKEY_VERSION muxedAddress) (key @ idb))) =
      Some \<lparr>accountId = encodeStrKey (STRKEY_VERSION ed25519PublicKey) key, muxId = nat_str (bval idb)\<rparr>
    \<and> isValidEd25519PublicKey (Str (encodeStrKey (STRKEY_VERSION ed25519PublicKey) key))"
  using assms decode_encode_strkey[of "key @ idb" muxedAddress] decode_encode_strkey[of key ed25519PublicKey]
  by (simp add: parseMuxedAddress_def bytesToDecimalString_val isValidEd25519PublicKey_def isValidStrKey_def)

theorem parseMuxedAddress_parts_witness:
  "parseMuxedAddress (Str (encodeStrKey (STRKEY_VERSION muxedAddress) (replicate 32 3 @ replicate 8 1))) =
      Some \<lparr>accountId = encodeStrKey (STRKEY_VERSION ed25519PublicKey) (replicate 32 3),
            muxId = nat_str (bval (replicate 8 1))\<rparr>"
  using parseMuxedAddress_parts[of "replicate 32 3" "replicate 8 1"] by simp

text \<open>Normalisation of transaction hashes: it answers exactly on the valid hashes, its result is a
  valid hash without the prefix, and normalising twice changes nothing.\<close>

theorem normalizeTransactionHash_canonical:
  "(case normalizeTransactionHash v of
      None \<Rightarrow> \<not> isValidTransactionHash v
    | Some h \<Rightarrow> isValidTransactionHash v \<and> hex64 h \<and> toLowerCase h = h
        \<and> normalizeTransactionHash (Str h) = Some h)"
proof (cases "normalizeTransactionHash v")
  case None
  then show ?thesis
    by (auto simp: normalizeTransactionHash_def isValidTransactionHash_def TRANSACTION_HASH_PATTERN_def
        hex64_def Let_def split: unknown.splits if_splits)
next
  case (Some h)
  then obtain s where v: "v = Str s" "TRANSACTION_HASH_PATTERN s"
    and h: "h = toLowerCase (if has0x s then drop 2 s else s)"
    by (auto simp: normalizeTransactionHash_def isValidTransactionHash_def has0x_take Let_def
        split: unknown.splits if_splits)
  have "hex64 (if has0x s then drop 2 s else s)"
    using v(2) hex64_not_0x[of s] by (auto simp: TRANSACTION_HASH_PATTERN_def)
  then have "hex64 h" unfolding h by (rule hex64_lower)
  moreover have "toLowerCase h = h" by (simp add: h)
  moreover have "normalizeTransactionHash (Str h) = Some h"
    using \<open>hex64 h\<close> \<open>toLowerCase h = h\<close> hex64_not_0x[of h] unfolding has0x_take
    by (simp add: normalizeTransactionHash_def isValidTransactionHash_def TRANSACTION_HASH_PATTERN_def)
  moreover have "isValidTransactionHash v" using v by (simp add: isValidTransactionHash_def)
  ultimately show ?thesis using Some by simp
qed

end
