(* ===== verification/Merkle.thy ===== *)
theory Merkle
  imports Hex
begin

text \<open>
  Merkle inclusion proofs, \<open>packages/shared/src/merkle.ts\<close>: domain-separated hashing, tree
  construction with the duplicated odd node, proof generation and verification.

  SHA-256 is code of the Node run-time: it is the parameter \<open>sha\<close> of every definition, a function
  on byte strings, and the properties that need it assume that a digest has 32 bytes. Binding is
  stated for a hash that has no collision among the strings the two computations hash, a hypothesis
  about finitely many strings (a hash that is injective everywhere does not exist).
\<close>

section \<open>Types\<close>

datatype MerkleProofDirection = DirLeft | DirRight

record MerkleProofStep =
  siblingHash :: string
  direction :: MerkleProofDirection

record MerkleProof =
  leafHash :: string
  path :: "MerkleProofStep list"

record MerkleTree =
  root :: string
  layers :: "string list list"

datatype merkle_error =
    InvalidLeafHash string
  | InvalidSiblingHash string
  | ZeroLeaves
  | LeafIndexOutOfRange int nat

type_synonym hash = "bytes \<Rightarrow> bytes"

section \<open>Operations\<close>

definition hashMerkleLeaf :: "hash \<Rightarrow> bytes \<Rightarrow> string" where
  "hashMerkleLeaf sha data = toHex (sha (0x00 # data))"

definition hashMerkleNode :: "hash \<Rightarrow> bytes \<Rightarrow> bytes \<Rightarrow> string" where
  "hashMerkleNode sha l r = toHex (sha (0x01 # l @ r))"

definition isHex64 :: "string \<Rightarrow> bool" where
  "isHex64 s = hex64 s"

definition fold_step :: "hash \<Rightarrow> bytes \<Rightarrow> MerkleProofStep \<Rightarrow> bytes" where
  "fold_step sha current st =
     (let sibling = fromHex (siblingHash st);
          parentHex = (if direction st = DirLeft then hashMerkleNode sha sibling current
                       else hashMerkleNode sha current sibling) in
      fromHex parentHex)"

fun computeMerkleRoot_loop :: "hash \<Rightarrow> bytes \<Rightarrow> MerkleProofStep list \<Rightarrow> merkle_error + string" where
  "computeMerkleRoot_loop sha current [] = Inr (toHex current)"
| "computeMerkleRoot_loop sha current (st # sts) =
     (if \<not> isHex64 (siblingHash st) then Inl (InvalidSiblingHash (siblingHash st))
      else computeMerkleRoot_loop sha (fold_step sha current st) sts)"

definition computeMerkleRoot :: "hash \<Rightarrow> string \<Rightarrow> MerkleProofStep list \<Rightarrow> merkle_error + string" where
  "computeMerkleRoot sha leaf sts =
     (if \<not> isHex64 leaf then Inl (InvalidLeafHash leaf)
      else computeMerkleRoot_loop sha (fromHex leaf) sts)"

definition verifyMerkleProof :: "hash \<Rightarrow> MerkleProof option \<Rightarrow> string \<Rightarrow> bool" where
  "verifyMerkleProof sha proof_opt expectedRoot =
     (if \<not> isHex64 expectedRoot then False
      else case proof_opt of
        None \<Rightarrow> False
      | Some p \<Rightarrow>
          if \<not> isHex64 (leafHash p) then False
          else (case computeMerkleRoot sha (leafHash p) (path p) of
                  Inr computedRoot \<Rightarrow> toLowerCase computedRoot = toLowerCase expectedRoot
                | Inl _ \<Rightarrow> False))"

fun nextLayer :: "hash \<Rightarrow> string list \<Rightarrow> string list" where
  "nextLayer sha [] = []"
| "nextLayer sha [x] = [hashMerkleNode sha (fromHex x) (fromHex x)]"
| "nextLayer sha (x # y # r) = hashMerkleNode sha (fromHex x) (fromHex y) # nextLayer sha r"

text \<open>The \<open>while (currentLayer.length > 1)\<close> loop: all layers from the current one up to the root.\<close>

function layers_from :: "hash \<Rightarrow> string list \<Rightarrow> string list list" where
  "layers_from sha l = (if 1 < length l then l # layers_from sha (nextLayer sha l) else [l])"
  by auto
termination
proof (relation "measure (\<lambda>(sha, l). length l)", simp)
  fix sha and l :: "string list"
  have "length (nextLayer sha l) = (length l + 1) div 2"
    by (induction sha l rule: nextLayer.induct) auto
  moreover assume "1 < length l"
  ultimately show "((sha, nextLayer sha l), sha, l) \<in> measure (\<lambda>(sha, l). length l)" by simp
qed

declare layers_from.simps [simp del]

definition buildMerkleTree :: "hash \<Rightarrow> bytes list \<Rightarrow> merkle_error + MerkleTree" where
  "buildMerkleTree sha leaves =
     (if length leaves = 0 then Inl ZeroLeaves
      else (let ls = layers_from sha (map (hashMerkleLeaf sha) leaves) in
            Inr \<lparr>root = last ls ! 0, layers = ls\<rparr>))"

fun generateMerkleProof_loop :: "string list list \<Rightarrow> nat \<Rightarrow> MerkleProofStep list" where
  "generateMerkleProof_loop (layer # upper # rest) index =
     (let isRightNode = (index mod 2 = 1);
          siblingIndex = (if isRightNode then index - 1 else index + 1);
          sibling = (if siblingIndex < length layer then layer ! siblingIndex else layer ! index) in
      \<lparr>siblingHash = sibling, direction = (if isRightNode then DirLeft else DirRight)\<rparr>
        # generateMerkleProof_loop (upper # rest) (index div 2))"
| "generateMerkleProof_loop _ index = []"

definition generateMerkleProof :: "MerkleTree \<Rightarrow> int \<Rightarrow> merkle_error + MerkleProofStep list" where
  "generateMerkleProof tree leafIndex =
     (let leafCount = (case layers tree of [] \<Rightarrow> 0 | l # _ \<Rightarrow> length l) in
      if leafIndex < 0 \<or> int leafCount \<le> leafIndex then Inl (LeafIndexOutOfRange leafIndex leafCount)
      else Inr (generateMerkleProof_loop (layers tree) (nat leafIndex)))"

section \<open>Specification vocabulary\<close>

text \<open>The byte strings that folding a path hashes, and the root node computed without hex strings.\<close>

fun step_input :: "bytes \<Rightarrow> MerkleProofStep \<Rightarrow> bytes" where
  "step_input current st =
     0x01 # (if direction st = DirLeft then fromHex (siblingHash st) @ current
             else current @ fromHex (siblingHash st))"

fun path_inputs :: "hash \<Rightarrow> bytes \<Rightarrow> MerkleProofStep list \<Rightarrow> bytes list" where
  "path_inputs sha current [] = []"
| "path_inputs sha current (st # sts) =
     step_input current st # path_inputs sha (sha (step_input current st)) sts"

fun path_fold :: "hash \<Rightarrow> bytes \<Rightarrow> MerkleProofStep list \<Rightarrow> bytes" where
  "path_fold sha current [] = current"
| "path_fold sha current (st # sts) = path_fold sha (sha (step_input current st)) sts"

definition siblings_ok :: "MerkleProofStep list \<Rightarrow> bool" where
  "siblings_ok sts \<longleftrightarrow> list_all (\<lambda>st. isHex64 (siblingHash st)) sts"

definition tree_proof :: "hash \<Rightarrow> bytes list \<Rightarrow> nat \<Rightarrow> MerkleProofStep list" where
  "tree_proof sha leaves i = generateMerkleProof_loop (layers_from sha (map (hashMerkleLeaf sha) leaves)) i"

definition tree_root :: "hash \<Rightarrow> bytes list \<Rightarrow> string" where
  "tree_root sha leaves = last (layers_from sha (map (hashMerkleLeaf sha) leaves)) ! 0"

section \<open>Folding a path\<close>

lemma fold_step_eq [simp]: "fold_step sha current st = sha (step_input current st)"
  by (simp add: fold_step_def hashMerkleNode_def Let_def)

lemma computeMerkleRoot_loop_eq:
  "computeMerkleRoot_loop sha current sts =
     (if siblings_ok sts then Inr (toHex (path_fold sha current sts))
      else computeMerkleRoot_loop sha current sts)"
  "siblings_ok sts \<Longrightarrow> computeMerkleRoot_loop sha current sts = Inr (toHex (path_fold sha current sts))"
  "\<not> siblings_ok sts \<Longrightarrow> \<exists>h. computeMerkleRoot_loop sha current sts = Inl (InvalidSiblingHash h)"
  by (induction sts arbitrary: current) (auto simp: siblings_ok_def)

lemma verify_iff:
  "verifyMerkleProof sha (Some p) r \<longleftrightarrow>
     isHex64 r \<and> isHex64 (leafHash p) \<and> siblings_ok (path p)
     \<and> toHex (path_fold sha (fromHex (leafHash p)) (path p)) = toLowerCase r"
  using computeMerkleRoot_loop_eq(2,3)[of "path p" sha "fromHex (leafHash p)"]
  by (cases "siblings_ok (path p)") (auto simp: verifyMerkleProof_def computeMerkleRoot_def)

text \<open>Two folds along the same directions that meet start from the same hash, unless two of the
  strings they hash collide.\<close>

lemma step_input_inj:
  assumes "step_input c st = step_input c' st'" "direction st = direction st'"
    and "length c = 32" "length c' = 32" "isHex64 (siblingHash st)" "isHex64 (siblingHash st')"
  shows "c = c'"
  using assms hex64_fromHex[of "siblingHash st"] hex64_fromHex[of "siblingHash st'"]
  by (auto simp: isHex64_def split: if_splits)

lemma path_fold_binding:
  assumes "path_fold sha c sts = path_fold sha c' sts'"
    and "map direction sts = map direction sts'" "siblings_ok sts" "siblings_ok sts'"
    and "length c = 32" "length c' = 32" and sha: "\<And>x. length (sha x) = 32"
    and inj: "inj_on sha (set (path_inputs sha c sts) \<union> set (path_inputs sha c' sts'))"
  shows "c = c'"
  using assms
proof (induction sts arbitrary: c c' sts')
  case (Cons st sts)
  obtain st' ts where t: "sts' = st' # ts" using Cons.prems(2) by (cases sts') auto
  have "sha (step_input c st) = sha (step_input c' st')"
  proof (rule Cons.IH)
    show "inj_on sha (set (path_inputs sha (sha (step_input c st)) sts)
        \<union> set (path_inputs sha (sha (step_input c' st')) ts))"
      using Cons.prems(8) t by (rule_tac inj_on_subset) auto
  qed (use Cons.prems t in \<open>auto simp: siblings_ok_def\<close>)
  then have "step_input c st = step_input c' st'"
    by (rule inj_onD[OF Cons.prems(8)]) (simp_all add: t del: step_input.simps)
  then show ?case
    using Cons.prems t by (intro step_input_inj[of c st c' st']) (auto simp: siblings_ok_def)
qed simp

section \<open>Layers\<close>

lemma length_nextLayer [simp]: "length (nextLayer sha l) = (length l + 1) div 2"
  by (induction sha l rule: nextLayer.induct) auto

lemma nextLayer_nth:
  assumes "2 * i < length l"
  shows "nextLayer sha l ! i = hashMerkleNode sha (fromHex (l ! (2 * i)))
     (fromHex (if 2 * i + 1 < length l then l ! (2 * i + 1) else l ! (2 * i)))"
  using assms
proof (induction sha l arbitrary: i rule: nextLayer.induct)
  case (3 sha x y r)
  then show ?case by (cases i) auto
qed auto

lemma layers_from_not_Nil [simp]: "layers_from sha l \<noteq> []"
  by (subst layers_from.simps) simp

lemma layers_from_Cons: "\<exists>rest. layers_from sha l = l # rest"
  by (subst layers_from.simps) simp

lemma path_of_layers:
  assumes "i < length l" "\<And>x. length (sha x) = 32" "\<And>h. h \<in> set l \<Longrightarrow> \<exists>b. h = toHex b \<and> length b = 32"
  shows "siblings_ok (generateMerkleProof_loop (layers_from sha l) i)
    \<and> toHex (path_fold sha (fromHex (l ! i)) (generateMerkleProof_loop (layers_from sha l) i))
      = last (layers_from sha l) ! 0
    \<and> (\<exists>b. last (layers_from sha l) ! 0 = toHex b \<and> length b = 32)"
  using assms
proof (induction sha l arbitrary: i rule: layers_from.induct)
  case (1 sha l)
  show ?case
  proof (cases "1 < length l")
    case False
    then have "layers_from sha l = [l]" "i = 0" using 1(2) by (auto simp: layers_from.simps[of sha l])
    then show ?thesis using 1(4)[of "l ! 0"] 1(2) by (auto simp: siblings_ok_def)
  next
    case True
    let ?n = "nextLayer sha l"
    obtain rest where n: "layers_from sha ?n = ?n # rest" using layers_from_Cons by blast
    have l: "layers_from sha l = l # ?n # rest" using True n by (simp add: layers_from.simps[of sha l])
    have hex: "\<exists>b. h = toHex b \<and> length b = 32" if "h \<in> set ?n" for h
      using that 1(3) by (induction sha l rule: nextLayer.induct) (auto simp: hashMerkleNode_def)
    have "i div 2 < length ?n" using 1(2) by simp
    note IH = 1(1)[OF True this 1(3) hex, unfolded n]
    define st where "st = hd (generateMerkleProof_loop (l # ?n # rest) i)"
    have g: "generateMerkleProof_loop (layers_from sha l) i = st # generateMerkleProof_loop (?n # rest) (i div 2)"
      by (simp add: l st_def Let_def)
    have sib: "siblingHash st \<in> set l" using 1(2) by (auto simp: st_def Let_def)
    have parent: "sha (step_input (fromHex (l ! i)) st) = fromHex (?n ! (i div 2))"
    proof (cases "even i")
      case True
      then obtain j where j: "i = 2 * j" by blast
      then show ?thesis using 1(2) nextLayer_nth[of j l sha]
        by (auto simp: st_def Let_def hashMerkleNode_def)
    next
      case False
      then obtain j where j: "i = 2 * j + 1" by (auto elim: oddE)
      then show ?thesis using 1(2) nextLayer_nth[of j l sha]
        by (auto simp: st_def Let_def hashMerkleNode_def)
    qed
    have "isHex64 (siblingHash st)" using 1(4)[OF sib] by (auto simp: isHex64_def)
    moreover have la: "last (layers_from sha l) = last (?n # rest)" by (simp add: l)
    ultimately show ?thesis unfolding g la using IH parent
      by (simp add: siblings_ok_def del: step_input.simps last.simps)
  qed
qed

lemma leaf_hashes:
  "(\<And>x. length (sha x) = 32) \<Longrightarrow> h \<in> set (map (hashMerkleLeaf sha) leaves) \<Longrightarrow>
     \<exists>b. h = toHex b \<and> length b = 32"
  by (auto simp: hashMerkleLeaf_def)

lemma tree_proof_ok:
  assumes "\<And>x. length (sha x) = 32" "i < length leaves"
  shows "siblings_ok (tree_proof sha leaves i)"
    "toHex (path_fold sha (sha (0x00 # leaves ! i)) (tree_proof sha leaves i)) = tree_root sha leaves"
    "isHex64 (tree_root sha leaves)" "toLowerCase (tree_root sha leaves) = tree_root sha leaves"
  using path_of_layers[of i "map (hashMerkleLeaf sha) leaves" sha] leaf_hashes[of sha _ leaves] assms
  by (auto simp: tree_proof_def tree_root_def isHex64_def hashMerkleLeaf_def)

lemma build_and_prove:
  assumes "i < length leaves"
  shows "\<exists>tree. buildMerkleTree sha leaves = Inr tree \<and> root tree = tree_root sha leaves
    \<and> generateMerkleProof tree (int i) = Inr (tree_proof sha leaves i)"
proof -
  obtain rest where "layers_from sha (map (hashMerkleLeaf sha) leaves) = map (hashMerkleLeaf sha) leaves # rest"
    using layers_from_Cons by blast
  then show ?thesis using assms
    by (auto simp: buildMerkleTree_def generateMerkleProof_def tree_root_def tree_proof_def Let_def)
qed

lemma nextLayer_dup: "odd (length l) \<Longrightarrow> nextLayer sha (l @ [last l]) = nextLayer sha l"
  by (induction sha l rule: nextLayer.induct) auto

lemma tree_proof_verifies:
  assumes "\<And>x. length (sha x) = 32" and "i < length leaves"
  shows "verifyMerkleProof sha
     (Some \<lparr>leafHash = hashMerkleLeaf sha (leaves ! i), path = tree_proof sha leaves i\<rparr>) (tree_root sha leaves)"
  using tree_proof_ok[OF assms] assms(1) by (auto simp: verify_iff isHex64_def hashMerkleLeaf_def)

section \<open>Properties\<close>

text \<open>Completeness: for every index of a non-empty list of leaves the tree is built, the proof is
  generated, and the proof verifies against the root of the tree.\<close>

theorem merkle_completeness:
  assumes "\<And>x. length (sha x) = 32" and "i < length leaves"
  shows "\<exists>tree sts. buildMerkleTree sha leaves = Inr tree
    \<and> generateMerkleProof tree (int i) = Inr sts
    \<and> verifyMerkleProof sha
        (Some \<lparr>leafHash = hashMerkleLeaf sha (leaves ! i), path = sts\<rparr>) (root tree)"
  using build_and_prove[OF assms(2), of sha] tree_proof_verifies[OF assms] by auto

theorem merkle_completeness_witness:
  "\<exists>tree sts. buildMerkleTree (\<lambda>x. take 32 (x @ replicate 32 0)) [[1], [2], [3]] = Inr tree
    \<and> generateMerkleProof tree (int 2) = Inr sts
    \<and> verifyMerkleProof (\<lambda>x. take 32 (x @ replicate 32 0))
        (Some \<lparr>leafHash = hashMerkleLeaf (\<lambda>x. take 32 (x @ replicate 32 0)) ([[1], [2], [3]] ! 2), path = sts\<rparr>)
        (root tree)"
  by (rule merkle_completeness) simp_all

text \<open>C2. Binding: if the strings hashed while checking a proof and those hashed along the honest path
  of position \<open>i\<close> have no collision, then a proof with the directions of position \<open>i\<close> that
  verifies against the tree's root carries the hash of the leaf at \<open>i\<close>: no other leaf can be
  proved there.\<close>

theorem merkle_binding:
  assumes "\<And>x. length (sha x) = 32" and "i < length leaves"
    and "verifyMerkleProof sha (Some p) (tree_root sha leaves)"
    and "map direction (path p) = map direction (tree_proof sha leaves i)"
    and "inj_on sha (set (path_inputs sha (fromHex (leafHash p)) (path p))
           \<union> set (path_inputs sha (sha (0x00 # leaves ! i)) (tree_proof sha leaves i)))"
  shows "toLowerCase (leafHash p) = hashMerkleLeaf sha (leaves ! i)"
proof -
  note t = tree_proof_ok[OF assms(1,2)]
  have v: "isHex64 (leafHash p)" "siblings_ok (path p)"
    "toHex (path_fold sha (fromHex (leafHash p)) (path p)) = tree_root sha leaves"
    using assms(3) t by (simp_all add: verify_iff)
  have "toHex (path_fold sha (fromHex (leafHash p)) (path p))
      = toHex (path_fold sha (sha (0x00 # leaves ! i)) (tree_proof sha leaves i))"
    by (rule trans[OF v(3) t(2)[symmetric]])
  then have eq: "path_fold sha (fromHex (leafHash p)) (path p)
      = path_fold sha (sha (0x00 # leaves ! i)) (tree_proof sha leaves i)" by (simp only: toHex_inject)
  have l: "length (fromHex (leafHash p)) = 32" using v(1) hex64_fromHex by (simp add: isHex64_def)
  have "fromHex (leafHash p) = sha (0x00 # leaves ! i)"
    by (rule path_fold_binding[OF eq assms(4) v(2) t(1) l assms(1) assms(1) assms(5)])
  then show ?thesis using v hex64_fromHex[of "leafHash p"] by (simp add: hashMerkleLeaf_def isHex64_def)
qed

theorem merkle_binding_witness:
  "let sha = (\<lambda>x. take 32 (x @ replicate 32 0)); leaves = [[1], [2]] in
   toLowerCase (hashMerkleLeaf sha (leaves ! 0)) = hashMerkleLeaf sha (leaves ! 0)"
proof -
  define sha :: hash where "sha = (\<lambda>x. take 32 (x @ replicate 32 0))"
  define leaves :: "bytes list" where "leaves = [[1], [2]]"
  define p where "p = \<lparr>leafHash = hashMerkleLeaf sha (leaves ! 0), path = tree_proof sha leaves 0\<rparr>"
  have sha: "length (sha x) = 32" for x by (simp add: sha_def)
  have l: "0 < length leaves" by (simp add: leaves_def)
  have c: "fromHex (leafHash p) = sha (0x00 # leaves ! 0)" by (simp add: p_def hashMerkleLeaf_def)
  have pr: "path p = tree_proof sha leaves 0" by (simp add: p_def)
  have one: "\<exists>st. tree_proof sha leaves 0 = [st]"
    by (simp add: tree_proof_def leaves_def layers_from.simps Let_def)
  have "toLowerCase (leafHash p) = hashMerkleLeaf sha (leaves ! 0)"
  proof (rule merkle_binding[OF sha l])
    show "verifyMerkleProof sha (Some p) (tree_root sha leaves)"
      using tree_proof_ok[OF sha l] sha by (simp add: verify_iff c pr isHex64_def) (simp add: p_def hashMerkleLeaf_def)
  qed (use one in \<open>auto simp: c pr\<close>)
  then show ?thesis by (simp add: p_def sha_def leaves_def Let_def)
qed

text \<open>What the checker accepts, on all inputs: a root that is a 32-byte hex string and a proof
  whose leaf and siblings are too, such that the root computed from it is the expected one up to case.
  Everything else, the inputs on which \<open>computeMerkleRoot\<close> throws included, is answered with
  false.\<close>

theorem merkle_verify_iff:
  "verifyMerkleProof sha proof_opt r \<longleftrightarrow>
     isHex64 r \<and> (\<exists>p. proof_opt = Some p \<and> isHex64 (leafHash p) \<and> siblings_ok (path p)
       \<and> computeMerkleRoot sha (leafHash p) (path p) = Inr (toLowerCase r))"
proof (cases proof_opt)
  case None
  then show ?thesis by (simp add: verifyMerkleProof_def)
qed (auto simp: verify_iff computeMerkleRoot_def computeMerkleRoot_loop_eq(2))

text \<open>The duplicated odd node makes the root malleable: a list of leaves of odd length above one
  and the same list with its last leaf repeated have one root.\<close>

theorem merkle_odd_duplicate_root:
  assumes "odd (length leaves)" and "1 < length leaves"
  shows "tree_root sha (leaves @ [last leaves]) = tree_root sha leaves"
proof -
  let ?l = "map (hashMerkleLeaf sha) leaves"
  have l: "map (hashMerkleLeaf sha) (leaves @ [last leaves]) = ?l @ [last ?l]"
    using assms(2) by (cases leaves rule: rev_exhaust) auto
  have "last (layers_from sha (?l @ [last ?l])) = last (layers_from sha ?l)"
    using assms nextLayer_dup[of ?l sha] layers_from.simps[of sha ?l] layers_from.simps[of sha "?l @ [last ?l]"]
    by (cases "leaves = []") simp_all
  then show ?thesis by (simp only: tree_root_def l)
qed

theorem merkle_odd_duplicate_root_witness:
  "tree_root (\<lambda>x. take 32 (x @ replicate 32 0)) ([[1], [2], [3]] @ [last [[1], [2], [3]]])
     = tree_root (\<lambda>x. take 32 (x @ replicate 32 0)) [[1], [2], [3]]"
  by (rule merkle_odd_duplicate_root) simp_all

end
