(* ===== verification/ChecksumChain.thy ===== *)
theory ChecksumChain
  imports Merkle
begin

text \<open>
  The tamper-evident payment log, \<open>apps/api/src/services/checksumChain.service.ts\<close>, and the daily
  Merkle audit of delivered alerts, \<open>apps/api/src/modules/audit/merkle.service.ts\<close>.

  The database is explicit state: the rows of \<open>PaymentChecksum\<close> in order of \<open>sequence\<close>, the
  auto-increment counter and the rows of \<open>DailyChecksumRoot\<close> by day. A Serializable transaction is
  one atomic step; how it ends (commit, serialization failure, other failure) is decided by the
  database, so every attempt takes its outcome as an argument. The unique constraint on
  \<open>paymentId\<close> is part of the model. SHA-256 is the parameter \<open>sha\<close>, generated ids and the clock
  are arguments. A time is a number of milliseconds since the epoch and a UTC day is its number
  \<open>time div 86400000\<close>; an amount and a time of receipt appear as the strings the driver renders.
\<close>

section \<open>Payment checksums\<close>

definition sha256Hex :: "hash \<Rightarrow> string \<Rightarrow> string" where
  "sha256Hex sha input = toHex (sha (utf8 input))"

definition GENESIS_HASH :: "hash \<Rightarrow> string" where
  "GENESIS_HASH sha = sha256Hex sha ''stellar-alerts:payment-checksum-chain:genesis''"

record ChainablePayment =
  pay_id :: string
  txHash :: string
  walletId :: string
  fromAddress :: string
  amount :: string
  asset :: string
  assetIssuer :: "string option"
  memo :: "string option"
  receivedAt :: string

definition or_na :: "string option \<Rightarrow> string" where
  "or_na v = (case v of None \<Rightarrow> ''N/A'' | Some s \<Rightarrow> s)"

definition computePayloadHash :: "hash \<Rightarrow> ChainablePayment \<Rightarrow> string" where
  "computePayloadHash sha p =
     sha256Hex sha (join_with ''|''
       [pay_id p, walletId p, txHash p, fromAddress p, amount p, asset p,
        or_na (assetIssuer p), or_na (memo p), receivedAt p])"

definition computeChainHash :: "hash \<Rightarrow> string \<Rightarrow> string \<Rightarrow> string" where
  "computeChainHash sha previous payload = sha256Hex sha (previous @ '':'' @ payload)"

record PaymentChecksum =
  row_id :: string
  paymentId :: string
  sequence :: nat
  payloadHash :: string
  previousHash :: string
  chainHash :: string
  createdAt :: int

record DailyChecksumRoot =
  merkleRoot :: string
  leafCount :: nat
  computedAt :: int

record checksum_db =
  checksums :: "PaymentChecksum list"
  next_sequence :: nat
  dailyRoots :: "(int, DailyChecksumRoot) jsmap"

definition MAX_APPEND_RETRIES :: nat where "MAX_APPEND_RETRIES = 5"

text \<open>How the database ends an attempt; the unique constraint is checked by the model itself.\<close>

datatype tx_outcome = Committed | SerializationFailure | OtherFailure

definition find_payment :: "checksum_db \<Rightarrow> string \<Rightarrow> PaymentChecksum option" where
  "find_payment db pid = find (\<lambda>r. paymentId r = pid) (checksums db)"

definition append_tx :: "hash \<Rightarrow> checksum_db \<Rightarrow> string \<Rightarrow> string \<Rightarrow> string \<Rightarrow> int \<Rightarrow> checksum_db \<times> string" where
  "append_tx sha db pid payload newId now =
     (let previous = (if checksums db = [] then GENESIS_HASH sha else chainHash (last (checksums db)));
          chain = computeChainHash sha previous payload;
          row = \<lparr>row_id = newId, paymentId = pid, sequence = next_sequence db, payloadHash = payload,
                 previousHash = previous, chainHash = chain, createdAt = now\<rparr> in
      (db\<lparr>checksums := checksums db @ [row], next_sequence := next_sequence db + 1\<rparr>, chain))"

function append_loop ::
  "hash \<Rightarrow> checksum_db \<Rightarrow> string \<Rightarrow> string \<Rightarrow> string \<Rightarrow> int \<Rightarrow> (nat \<Rightarrow> tx_outcome) \<Rightarrow> nat
     \<Rightarrow> checksum_db \<times> string option" where
  "append_loop sha db pid payload newId now outcome attempt =
     (if attempt \<le> MAX_APPEND_RETRIES then
        (case outcome attempt of
           Committed \<Rightarrow>
             (case find_payment db pid of
                Some existing \<Rightarrow> (db\<lparr>next_sequence := next_sequence db + 1\<rparr>, Some (chainHash existing))
              | None \<Rightarrow> (let (db', chain) = append_tx sha db pid payload newId now in (db', Some chain)))
         | SerializationFailure \<Rightarrow>
             if attempt < MAX_APPEND_RETRIES
             then append_loop sha db pid payload newId now outcome (attempt + 1)
             else (db, None)
         | OtherFailure \<Rightarrow> (db, None))
      else (db, None))"
  by pat_completeness auto
termination
  by (relation "measure (\<lambda>(_, _, _, _, _, _, _, attempt). Suc MAX_APPEND_RETRIES - attempt)")
    (auto simp: MAX_APPEND_RETRIES_def)

declare append_loop.simps [simp del]

definition appendPaymentChecksum ::
  "hash \<Rightarrow> checksum_db \<Rightarrow> ChainablePayment \<Rightarrow> string \<Rightarrow> int \<Rightarrow> (nat \<Rightarrow> tx_outcome)
     \<Rightarrow> checksum_db \<times> string option" where
  "appendPaymentChecksum sha db payment newId now outcome =
     append_loop sha db (pay_id payment) (computePayloadHash sha payment) newId now outcome 1"

datatype broken_reason = PreviousHashMismatch | ChainHashMismatch

record ChainVerificationResult =
  valid :: bool
  checkedCount :: nat
  brokenAtSequence :: "nat option"
  reason :: "broken_reason option"

fun verifyChain_loop :: "hash \<Rightarrow> string \<Rightarrow> nat \<Rightarrow> PaymentChecksum list \<Rightarrow> ChainVerificationResult" where
  "verifyChain_loop sha prev checked [] =
     \<lparr>valid = True, checkedCount = checked, brokenAtSequence = None, reason = None\<rparr>"
| "verifyChain_loop sha prev checked (row # rows) =
     (if previousHash row \<noteq> prev then
        \<lparr>valid = False, checkedCount = checked, brokenAtSequence = Some (sequence row),
         reason = Some PreviousHashMismatch\<rparr>
      else if computeChainHash sha (previousHash row) (payloadHash row) \<noteq> chainHash row then
        \<lparr>valid = False, checkedCount = checked, brokenAtSequence = Some (sequence row),
         reason = Some ChainHashMismatch\<rparr>
      else verifyChain_loop sha (chainHash row) (checked + 1) rows)"

definition verifyChain :: "hash \<Rightarrow> PaymentChecksum list \<Rightarrow> ChainVerificationResult" where
  "verifyChain sha rows = verifyChain_loop sha (GENESIS_HASH sha) 0 rows"

definition day_ms :: int where "day_ms = 86400000"

definition utcDay :: "int \<Rightarrow> int" where
  "utcDay time = time div day_ms"

definition day_rows :: "checksum_db \<Rightarrow> int \<Rightarrow> PaymentChecksum list" where
  "day_rows db day =
     filter (\<lambda>r. day * day_ms \<le> createdAt r \<and> createdAt r \<le> day * day_ms + 86399999) (checksums db)"

text \<open>A thrown error of the Merkle helpers is propagated; \<open>Inr None\<close> is the day without rows.\<close>

definition computeDailyMerkleRoot ::
  "hash \<Rightarrow> checksum_db \<Rightarrow> int \<Rightarrow> int \<Rightarrow> checksum_db \<times> (merkle_error + (int \<times> string \<times> nat) option)" where
  "computeDailyMerkleRoot sha db time now =
     (let day = utcDay time; rows = day_rows db day in
      if length rows = 0 then (db, Inr None)
      else case buildMerkleTree sha (map (\<lambda>r. fromHex (payloadHash r)) rows) of
        Inl e \<Rightarrow> (db, Inl e)
      | Inr tree \<Rightarrow>
          (db\<lparr>dailyRoots := AList.update day
               \<lparr>merkleRoot = root tree, leafCount = length rows, computedAt = now\<rparr> (dailyRoots db)\<rparr>,
           Inr (Some (day, root tree, length rows))))"

fun find_index :: "('a \<Rightarrow> bool) \<Rightarrow> 'a list \<Rightarrow> nat option" where
  "find_index P [] = None"
| "find_index P (x # xs) = (if P x then Some 0 else map_option Suc (find_index P xs))"

definition verifyPaymentInDailyRoot :: "hash \<Rightarrow> checksum_db \<Rightarrow> string \<Rightarrow> int \<Rightarrow> merkle_error + bool" where
  "verifyPaymentInDailyRoot sha db pid time =
     (let day = utcDay time in
      case (find_payment db pid, map_of (dailyRoots db) day) of
        (Some target, Some stored) \<Rightarrow>
          (let rows = day_rows db day in
           case find_index (\<lambda>r. row_id r = row_id target) rows of
             None \<Rightarrow> Inr False
           | Some leafIndex \<Rightarrow>
               (let leaves = map (\<lambda>r. fromHex (payloadHash r)) rows in
                case buildMerkleTree sha leaves of
                  Inl e \<Rightarrow> Inl e
                | Inr tree \<Rightarrow>
                    (case generateMerkleProof tree (int leafIndex) of
                       Inl e \<Rightarrow> Inl e
                     | Inr proofPath \<Rightarrow>
                         Inr (verifyMerkleProof sha
                           (Some \<lparr>leafHash = hashMerkleLeaf sha (leaves ! leafIndex), path = proofPath\<rparr>)
                           (merkleRoot stored)))))
      | _ \<Rightarrow> Inr False)"

section \<open>Daily audit of delivered alerts\<close>

text \<open>An alert row with the fields the query uses; \<open>json\<close> is the library's serialisation of it.\<close>

record DeliveredAlert =
  alert_id :: string
  delivered :: bool
  deliveredAt :: int
  json :: string

datatype audit_error = NoDeliveredAlerts int | AlertNotFound string int | AuditMerkleError merkle_error

text \<open>\<open>orderBy: id\<close> is the database's collation of ids, a parameter.\<close>

type_synonym alert_order = "DeliveredAlert \<Rightarrow> DeliveredAlert \<Rightarrow> int"

definition delivered_on :: "alert_order \<Rightarrow> DeliveredAlert list \<Rightarrow> int \<Rightarrow> DeliveredAlert list" where
  "delivered_on by_id alerts day =
     js_sort by_id
       (filter (\<lambda>a. delivered a \<and> day * day_ms \<le> deliveredAt a \<and> deliveredAt a \<le> day * day_ms + 86399000)
         alerts)"

definition generateDailyMerkleRoot :: "hash \<Rightarrow> alert_order \<Rightarrow> DeliveredAlert list \<Rightarrow> int \<Rightarrow> audit_error + (string \<times> nat)" where
  "generateDailyMerkleRoot sha by_id alerts day =
     (let ds = delivered_on by_id alerts day in
      if length ds = 0 then Inl (NoDeliveredAlerts day)
      else case buildMerkleTree sha (map (\<lambda>a. utf8 (json a)) ds) of
        Inl e \<Rightarrow> Inl (AuditMerkleError e)
      | Inr tree \<Rightarrow> Inr (root tree, length ds))"

definition generateAlertInclusionProof ::
  "hash \<Rightarrow> alert_order \<Rightarrow> DeliveredAlert list \<Rightarrow> string \<Rightarrow> int \<Rightarrow> audit_error + MerkleProof" where
  "generateAlertInclusionProof sha by_id alerts alertId day =
     (let ds = delivered_on by_id alerts day in
      case find_index (\<lambda>a. alert_id a = alertId) ds of
        None \<Rightarrow> Inl (AlertNotFound alertId day)
      | Some alertIndex \<Rightarrow>
          (let leaves = map (\<lambda>a. utf8 (json a)) ds in
           case buildMerkleTree sha leaves of
             Inl e \<Rightarrow> Inl (AuditMerkleError e)
           | Inr tree \<Rightarrow>
               (case generateMerkleProof tree (int alertIndex) of
                  Inl e \<Rightarrow> Inl (AuditMerkleError e)
                | Inr p \<Rightarrow> Inr \<lparr>leafHash = hashMerkleLeaf sha (leaves ! alertIndex), path = p\<rparr>)))"

definition verifyAlertInclusion :: "hash \<Rightarrow> string \<Rightarrow> MerkleProof \<Rightarrow> string \<Rightarrow> bool" where
  "verifyAlertInclusion sha alertId p expectedRoot = verifyMerkleProof sha (Some p) expectedRoot"

section \<open>Specification vocabulary\<close>

text \<open>A list of rows is linked when every row points to the hash of the row before it and commits to
  its own payload.\<close>

fun linked :: "hash \<Rightarrow> string \<Rightarrow> PaymentChecksum list \<Rightarrow> bool" where
  "linked sha prev [] = True"
| "linked sha prev (r # rs) =
     (previousHash r = prev \<and> chainHash r = computeChainHash sha prev (payloadHash r)
      \<and> linked sha (chainHash r) rs)"

definition tail_hash :: "string \<Rightarrow> PaymentChecksum list \<Rightarrow> string" where
  "tail_hash prev rs = (if rs = [] then prev else chainHash (last rs))"

text \<open>The strings hashed along a linked list.\<close>

definition link_input :: "PaymentChecksum \<Rightarrow> bytes" where
  "link_input r = utf8 (previousHash r @ '':'' @ payloadHash r)"

definition chain_inv :: "hash \<Rightarrow> checksum_db \<Rightarrow> bool" where
  "chain_inv sha db \<longleftrightarrow> linked sha (GENESIS_HASH sha) (checksums db)
     \<and> distinct (map paymentId (checksums db))
     \<and> sorted_wrt (<) (map sequence (checksums db))
     \<and> (\<forall>r \<in> set (checksums db). sequence r < next_sequence db)"

definition empty_db :: checksum_db where
  "empty_db = \<lparr>checksums = [], next_sequence = 1, dailyRoots = []\<rparr>"

type_synonym append_event = "ChainablePayment \<times> string \<times> int \<times> (nat \<Rightarrow> tx_outcome)"

definition append_step :: "hash \<Rightarrow> checksum_db \<Rightarrow> append_event \<Rightarrow> checksum_db" where
  "append_step sha db ev = (case ev of (p, newId, now, outcome) \<Rightarrow>
     fst (appendPaymentChecksum sha db p newId now outcome))"

section \<open>Linked rows\<close>

lemma linked_append: "linked sha prev (xs @ ys) \<longleftrightarrow> linked sha prev xs \<and> linked sha (tail_hash prev xs) ys"
  by (induction xs arbitrary: prev) (auto simp: tail_hash_def)

lemma verifyChain_loop_linked:
  "linked sha prev xs \<Longrightarrow>
     verifyChain_loop sha prev n (xs @ ys) = verifyChain_loop sha (tail_hash prev xs) (n + length xs) ys"
  by (induction xs arbitrary: prev n) (auto simp: tail_hash_def)

lemma verifyChain_loop_valid: "valid (verifyChain_loop sha prev n xs) \<longleftrightarrow> linked sha prev xs"
  by (induction xs arbitrary: prev n) auto

lemma length_sha256Hex: "(\<And>x. length (sha x) = 32) \<Longrightarrow> length (sha256Hex sha s) = 64"
  by (simp add: sha256Hex_def)

lemma length_tail_hash:
  assumes "\<And>x. length (sha x) = 32" "linked sha (GENESIS_HASH sha) xs"
  shows "length (tail_hash (GENESIS_HASH sha) xs) = 64"
  using assms
  by (cases xs rule: rev_exhaust)
    (auto simp: tail_hash_def linked_append GENESIS_HASH_def computeChainHash_def length_sha256Hex)

lemma link_input_inj:
  assumes "link_input r = link_input s" "length (previousHash r) = length (previousHash s)"
  shows "previousHash r = previousHash s \<and> payloadHash r = payloadHash s"
  using assms by (auto simp: link_input_def dest!: utf8_inj)

lemma tail_commits:
  assumes "\<And>x. length (sha x) = 32" "linked sha (GENESIS_HASH sha) xs" "linked sha (GENESIS_HASH sha) ys"
    and "length xs = length ys" "tail_hash (GENESIS_HASH sha) xs = tail_hash (GENESIS_HASH sha) ys"
    and "inj_on sha (link_input ` (set xs \<union> set ys))"
  shows "map payloadHash xs = map payloadHash ys"
  using assms
proof (induction xs arbitrary: ys rule: rev_induct)
  case (snoc x xs)
  then obtain y zs where y: "ys = zs @ [y]" by (cases ys rule: rev_exhaust) auto
  let ?g = "GENESIS_HASH sha"
  have l: "linked sha ?g xs" "linked sha ?g zs" using snoc.prems y by (auto simp: linked_append)
  have p: "previousHash x = tail_hash ?g xs" "previousHash y = tail_hash ?g zs"
    "chainHash x = computeChainHash sha (previousHash x) (payloadHash x)"
    "chainHash y = computeChainHash sha (previousHash y) (payloadHash y)"
    using snoc.prems y by (auto simp: linked_append)
  have "chainHash x = chainHash y" using snoc.prems(5) y by (simp add: tail_hash_def)
  then have eq: "sha (link_input x) = sha (link_input y)"
    using p by (simp add: computeChainHash_def sha256Hex_def link_input_def)
  have "link_input x = link_input y"
    by (rule inj_onD[OF snoc.prems(6) eq]) (simp_all add: y)
  then have h: "previousHash x = previousHash y \<and> payloadHash x = payloadHash y"
    using p l snoc.prems(1) by (intro link_input_inj) (simp_all add: length_tail_hash)
  have "map payloadHash xs = map payloadHash zs"
    using snoc.prems p h y l
    by (intro snoc.IH) (auto elim!: inj_on_subset)
  then show ?case using h y by simp
qed simp

section \<open>Appending\<close>

lemma linked_append_row:
  assumes "linked sha (GENESIS_HASH sha) (checksums db)"
  shows "linked sha (GENESIS_HASH sha) (checksums (fst (append_tx sha db pid payload newId now)))"
  using assms by (simp add: append_tx_def Let_def linked_append tail_hash_def)

lemma chain_inv_append_tx:
  assumes "chain_inv sha db" "find_payment db pid = None"
  shows "chain_inv sha (fst (append_tx sha db pid payload newId now))"
proof -
  have "pid \<notin> paymentId ` set (checksums db)"
    using assms(2) by (auto simp: find_payment_def find_None_iff)
  then show ?thesis
    using assms(1) linked_append_row[of sha db pid payload newId now]
    by (auto simp: chain_inv_def append_tx_def Let_def sorted_wrt_append less_Suc_eq)
qed

lemma append_loop_inv:
  "chain_inv sha db \<Longrightarrow> chain_inv sha (fst (append_loop sha db pid payload newId now outcome attempt))"
proof (induction sha db pid payload newId now outcome attempt rule: append_loop.induct)
  case (1 sha db pid payload newId now outcome attempt)
  have burn: "chain_inv sha (db\<lparr>next_sequence := next_sequence db + 1\<rparr>)"
    using 1(2) by (auto simp: chain_inv_def)
  show ?case
    using 1 burn chain_inv_append_tx[of sha db pid payload newId now]
    by (subst append_loop.simps) (auto split: tx_outcome.splits option.splits prod.splits)
qed

interpretation chain: inv_machine "append_step sha" "chain_inv sha" for sha
  by unfold_locales (auto simp: append_step_def appendPaymentChecksum_def intro: append_loop_inv)

lemma chain_inv_empty: "chain_inv sha empty_db"
  by (simp add: chain_inv_def empty_db_def)

section \<open>Daily roots\<close>

lemma find_index_Some: "find_index P xs = Some i \<Longrightarrow> i < length xs \<and> P (xs ! i)"
  by (induction xs arbitrary: i) (auto split: if_splits)

lemma find_index_mem: "x \<in> set xs \<Longrightarrow> P x \<Longrightarrow> \<exists>i. find_index P xs = Some i"
  by (induction xs) auto

lemma find_distinct:
  "distinct (map f xs) \<Longrightarrow> r \<in> set xs \<Longrightarrow> find (\<lambda>q. f q = f r) xs = Some r"
  by (induction xs) (auto simp: rev_image_eqI)

lemma find_payment_mem:
  "chain_inv sha db \<Longrightarrow> r \<in> set (checksums db) \<Longrightarrow> find_payment db (paymentId r) = Some r"
  by (simp add: find_payment_def chain_inv_def find_distinct)

lemma day_rows_mem: "r \<in> set (checksums db) \<Longrightarrow> r \<in> set (day_rows db (utcDay (createdAt r)))"
proof -
  have "t div 86400000 * 86400000 \<le> t \<and> t \<le> t div 86400000 * 86400000 + 86399999" for t :: int
    by presburger
  then show "r \<in> set (checksums db) \<Longrightarrow> ?thesis" by (simp add: day_rows_def utcDay_def day_ms_def)
qed

lemma build_root: "leaves \<noteq> [] \<Longrightarrow> \<exists>tree. buildMerkleTree sha leaves = Inr tree \<and> root tree = tree_root sha leaves"
  using build_and_prove[of 0 leaves sha] by auto

section \<open>Properties\<close>

text \<open>C32. Every log the service can produce verifies: whatever payments are appended, in whatever order,
  with whatever retries, failures and repetitions the database answers, \<open>verifyChain\<close> accepts the
  rows and counts all of them, no payment has two rows, and the sequence numbers increase.\<close>

theorem appended_chain_verifies:
  "let db = foldl (append_step sha) empty_db evs; res = verifyChain sha (checksums db) in
   valid res \<and> checkedCount res = length (checksums db) \<and> brokenAtSequence res = None
   \<and> distinct (map paymentId (checksums db)) \<and> sorted_wrt (<) (map sequence (checksums db))"
proof -
  let ?db = "foldl (append_step sha) empty_db evs"
  have inv: "chain_inv sha ?db" by (rule chain.run_inv[OF chain_inv_empty])
  then have l: "linked sha (GENESIS_HASH sha) (checksums ?db)" by (simp add: chain_inv_def)
  have "verifyChain sha (checksums ?db) =
      \<lparr>valid = True, checkedCount = length (checksums ?db), brokenAtSequence = None, reason = None\<rparr>"
    using verifyChain_loop_linked[OF l, of 0 "[]"] by (simp add: verifyChain_def)
  then show ?thesis using inv by (simp add: Let_def chain_inv_def)
qed

text \<open>The tail commits to the history: two logs of one length that both verify and end in the same
  chain hash contain the same payload hashes row by row, unless two of the strings hashed along the
  logs collide.\<close>

theorem chain_tail_commits_to_history:
  assumes "\<And>x. length (sha x) = 32"
    and "valid (verifyChain sha (xs @ [x]))" "valid (verifyChain sha (ys @ [y]))"
    and "length xs = length ys" "chainHash x = chainHash y"
    and "inj_on sha (link_input ` (set (xs @ [x]) \<union> set (ys @ [y])))"
  shows "map payloadHash (xs @ [x]) = map payloadHash (ys @ [y])"
  by (rule tail_commits[OF assms(1) _ _ _ _ assms(6)])
    (use assms in \<open>simp_all add: verifyChain_def verifyChain_loop_valid tail_hash_def\<close>)

theorem chain_tail_commits_to_history_witness:
  "let sha = (\<lambda>x. take 32 (x @ replicate 32 0));
       row = \<lparr>row_id = ''r'', paymentId = ''p'', sequence = 1, payloadHash = ''aa'',
              previousHash = GENESIS_HASH sha, chainHash = computeChainHash sha (GENESIS_HASH sha) ''aa'',
              createdAt = 0\<rparr> in
   map payloadHash ([] @ [row]) = map payloadHash ([] @ [row\<lparr>row_id := ''q''\<rparr>])"
  unfolding Let_def
  by (rule chain_tail_commits_to_history[where sha = "\<lambda>x. take 32 (x @ replicate 32 0)"])
    (simp_all add: verifyChain_def link_input_def)

text \<open>Tampering with a row is located: in a log that verifies, removing a row that is not the last
  one makes verification fail at the row that followed it, and replacing the payload hash of a row by
  one with another link hash makes it fail at that row; the rows before are counted as checked.\<close>

theorem chain_tamper_located:
  assumes "valid (verifyChain sha (xs @ r # ys))" and "chainHash r \<noteq> previousHash r"
    and "computeChainHash sha (previousHash r) h \<noteq> chainHash r"
  shows "(ys \<noteq> [] \<longrightarrow> verifyChain sha (xs @ ys) =
      \<lparr>valid = False, checkedCount = length xs, brokenAtSequence = Some (sequence (hd ys)),
       reason = Some PreviousHashMismatch\<rparr>) \<and>
    verifyChain sha (xs @ r\<lparr>payloadHash := h\<rparr> # ys) =
      \<lparr>valid = False, checkedCount = length xs, brokenAtSequence = Some (sequence r),
       reason = Some ChainHashMismatch\<rparr>"
proof -
  let ?g = "GENESIS_HASH sha"
  have l: "linked sha ?g xs" "previousHash r = tail_hash ?g xs" "linked sha (chainHash r) ys"
    using assms(1) by (auto simp: verifyChain_def verifyChain_loop_valid linked_append)
  show ?thesis
    using l assms(2,3) verifyChain_loop_linked[OF l(1), of 0]
    by (cases ys) (simp_all add: verifyChain_def)
qed

theorem chain_tamper_located_witness:
  "let sha = (\<lambda>x. [last x]); g = GENESIS_HASH sha; h = computeChainHash sha g ''aa'';
       r = \<lparr>row_id = ''r'', paymentId = ''p'', sequence = 1, payloadHash = ''aa'', previousHash = g,
            chainHash = h, createdAt = 0\<rparr> in
   verifyChain sha ([] @ r\<lparr>payloadHash := ''ab''\<rparr> # []) =
      \<lparr>valid = False, checkedCount = length ([] :: PaymentChecksum list), brokenAtSequence = Some (sequence r),
       reason = Some ChainHashMismatch\<rparr>"
proof -
  define sha :: hash where "sha = (\<lambda>x. [last x])"
  have chain: "computeChainHash sha p (h @ [c]) = toHex [last (utf8_char c)]" if "utf8_char c \<noteq> []" for p h c
    using that by (simp add: computeChainHash_def sha256Hex_def sha_def utf8_def)
  have g: "GENESIS_HASH sha = toHex [last (utf8_char CHR ''s'')]"
    by (simp add: GENESIS_HASH_def sha256Hex_def sha_def utf8_def utf8_char_def)
  show ?thesis unfolding Let_def sha_def[symmetric]
    by (rule chain_tamper_located[THEN conjunct2])
      (simp_all add: verifyChain_def g chain[where h = "''a''", simplified] utf8_char_def)
qed

text \<open>Rolling up a day and then checking a payment of that day answers true: the stored root, the
  rebuilt tree and the fresh inclusion proof agree for every row of the log created on that day.\<close>

theorem daily_root_covers_payments:
  assumes "\<And>x. length (sha x) = 32" and "chain_inv sha db" and "r \<in> set (checksums db)"
  shows "verifyPaymentInDailyRoot sha (fst (computeDailyMerkleRoot sha db (createdAt r) now))
      (paymentId r) (createdAt r) = Inr True"
proof -
  define day where "day = utcDay (createdAt r)"
  define rows where "rows = day_rows db day"
  define leaves where "leaves = map (\<lambda>r. fromHex (payloadHash r)) rows"
  have r: "r \<in> set rows" unfolding rows_def day_def by (rule day_rows_mem[OF assms(3)])
  then obtain i where i: "find_index (\<lambda>q. row_id q = row_id r) rows = Some i" "i < length rows"
    using find_index_mem[of r rows "\<lambda>q. row_id q = row_id r"] find_index_Some by blast
  then have il: "i < length leaves" by (simp add: leaves_def)
  obtain tree where t: "buildMerkleTree sha leaves = Inr tree" "root tree = tree_root sha leaves"
    "generateMerkleProof tree (int i) = Inr (tree_proof sha leaves i)"
    using build_and_prove[OF il, of sha] by blast
  define db' where "db' = db\<lparr>dailyRoots := AList.update day
     \<lparr>merkleRoot = root tree, leafCount = length rows, computedAt = now\<rparr> (dailyRoots db)\<rparr>"
  have "fst (computeDailyMerkleRoot sha db (createdAt r) now) = db'"
    using t(1) i by (auto simp: computeDailyMerkleRoot_def Let_def db'_def simp flip: day_def rows_def leaves_def)
  moreover have "find_payment db' (paymentId r) = Some r" "day_rows db' day = rows"
    using find_payment_mem[OF assms(2,3)] by (simp_all add: db'_def find_payment_def day_rows_def rows_def)
  moreover have "map_of (dailyRoots db') day = Some \<lparr>merkleRoot = root tree, leafCount = length rows, computedAt = now\<rparr>"
    by (simp add: db'_def)
  ultimately show ?thesis
    using i t tree_proof_verifies[OF assms(1) il]
    by (simp add: verifyPaymentInDailyRoot_def Let_def flip: day_def leaves_def)
qed

theorem daily_root_covers_payments_witness:
  "let sha = (\<lambda>x. take 32 (x @ replicate 32 0)); g = GENESIS_HASH sha;
       r = \<lparr>row_id = ''r'', paymentId = ''p'', sequence = 1, payloadHash = ''aa'', previousHash = g,
            chainHash = computeChainHash sha g ''aa'', createdAt = 5\<rparr> in
   verifyPaymentInDailyRoot sha
     (fst (computeDailyMerkleRoot sha \<lparr>checksums = [r], next_sequence = 2, dailyRoots = []\<rparr> (createdAt r) 9))
     (paymentId r) (createdAt r) = Inr True"
  unfolding Let_def
  by (rule daily_root_covers_payments) (simp_all add: chain_inv_def)

text \<open>The audit service is complete on the alerts it selects: for every alert of the day's selection
  the daily root is generated, an inclusion proof is produced and it verifies against that root.\<close>

theorem alert_audit_complete:
  assumes "\<And>x. length (sha x) = 32" and "a \<in> set (delivered_on by_id alerts day)"
  shows "\<exists>r n p. generateDailyMerkleRoot sha by_id alerts day = Inr (r, n)
     \<and> generateAlertInclusionProof sha by_id alerts (alert_id a) day = Inr p
     \<and> verifyAlertInclusion sha (alert_id a) p r"
proof -
  define ds where "ds = delivered_on by_id alerts day"
  define leaves where "leaves = map (\<lambda>a. utf8 (json a)) ds"
  obtain i where i: "find_index (\<lambda>b. alert_id b = alert_id a) ds = Some i" "i < length ds"
    using find_index_mem[of a ds "\<lambda>b. alert_id b = alert_id a"] find_index_Some assms(2) ds_def by blast
  then have il: "i < length leaves" by (simp add: leaves_def)
  obtain tree where t: "buildMerkleTree sha leaves = Inr tree" "root tree = tree_root sha leaves"
    "generateMerkleProof tree (int i) = Inr (tree_proof sha leaves i)"
    using build_and_prove[OF il, of sha] by blast
  then show ?thesis
    using i tree_proof_verifies[OF assms(1) il]
    by (auto simp: generateDailyMerkleRoot_def generateAlertInclusionProof_def verifyAlertInclusion_def
        simp flip: ds_def leaves_def)
qed

theorem alert_audit_complete_witness:
  "\<exists>r n p. generateDailyMerkleRoot (\<lambda>x. take 32 (x @ replicate 32 0)) (\<lambda>_ _. 0)
       [\<lparr>alert_id = ''a1'', delivered = True, deliveredAt = 7, json = ''{}''\<rparr>] 0 = Inr (r, n)
     \<and> generateAlertInclusionProof (\<lambda>x. take 32 (x @ replicate 32 0)) (\<lambda>_ _. 0)
         [\<lparr>alert_id = ''a1'', delivered = True, deliveredAt = 7, json = ''{}''\<rparr>]
         (alert_id \<lparr>alert_id = ''a1'', delivered = True, deliveredAt = 7, json = ''{}''\<rparr>) 0 = Inr p
     \<and> verifyAlertInclusion (\<lambda>x. take 32 (x @ replicate 32 0))
         (alert_id \<lparr>alert_id = ''a1'', delivered = True, deliveredAt = 7, json = ''{}''\<rparr>) p r"
  by (rule alert_audit_complete) (simp_all add: delivered_on_def day_ms_def)

text \<open>The audit misses the end of every day: its upper bound has no milliseconds, so an alert
  delivered in the last 999 milliseconds of a UTC day belongs to no day's selection.\<close>

theorem audit_misses_last_second:
  "86399000 < deliveredAt a mod day_ms \<Longrightarrow> a \<notin> set (delivered_on by_id alerts day)"
proof -
  assume m: "86399000 < deliveredAt a mod day_ms"
  have "\<not> (d * 86400000 \<le> t \<and> t \<le> d * 86400000 + 86399000)" if "86399000 < t mod 86400000" for t d :: int
    using that mod_mult_self1[of "t - d * 86400000" d 86400000] by (auto simp: mod_pos_pos_trivial)
  then show ?thesis using m by (auto simp: delivered_on_def day_ms_def)
qed

theorem audit_misses_last_second_witness:
  "\<lparr>alert_id = ''a1'', delivered = True, deliveredAt = 86399500, json = ''{}''\<rparr>
     \<notin> set (delivered_on (\<lambda>_ _. 0)
         [\<lparr>alert_id = ''a1'', delivered = True, deliveredAt = 86399500, json = ''{}''\<rparr>] 0)"
  by (rule audit_misses_last_second) (simp add: day_ms_def)

end
