(* ===== verification/Sim_Types.thy ===== *)
theory Sim_Types
  imports Complex_Main Prelude
begin

text \<open>
  The data model of the pre-execution simulation engine,
  \<open>apps/api/src/services/simulation/types.ts\<close>. An optional property is an \<open>option\<close>; a property
  that the code only copies into human-readable text or evidence (titles, details, function
  arguments, decoded events, messages) is left out. Amounts are decimal strings, as in the source,
  and become integers in \<open>Amounts\<close>. Ledger numbers and counts are \<^typ>\<open>int\<close> or \<^typ>\<open>nat\<close>.
\<close>

section \<open>Assets and footprints\<close>

datatype AssetType = native | credit_alphanumeric | liquidity_pool

record AssetRef =
  asset_type :: AssetType
  asset_code :: "string option"
  issuer :: "string option"
  poolId :: "string option"

datatype FootprintAccess = readOnly | readWrite | archived

record FootprintKey =
  fk_key :: string
  fk_entryType :: string
  fk_contractId :: "string option"
  fk_access :: FootprintAccess

text \<open>\<open>Partial<TransactionFootprint>\<close>: every list may be missing.\<close>

record TransactionFootprint =
  readOnly_keys :: "FootprintKey list option"
  readWrite_keys :: "FootprintKey list option"
  archived_keys :: "FootprintKey list option"

datatype FootprintChange = missing | unused | unchanged | mode_changed

record FootprintDiffEntry =
  fd_key :: string
  fd_entryType :: string
  fd_contractId :: "string option"
  change :: FootprintChange
  declaredAccess :: "FootprintAccess option"
  requiredAccess :: "FootprintAccess option"

record FootprintSummary =
  declaredReadOnly :: nat
  declaredReadWrite :: nat
  declaredArchived :: nat
  requiredReadOnly :: nat
  requiredReadWrite :: nat
  requiredArchived :: nat
  missingCount :: nat
  unusedCount :: nat
  modeChangedCount :: nat
  contractIdCount :: nat

record FootprintDiff =
  entries :: "FootprintDiffEntry list"
  summary :: FootprintSummary

section \<open>Balances and operations\<close>

record AssetBalance =
  ab_asset :: AssetRef
  ab_balance :: string
  ab_revocable :: "bool option"

record AccountStateSnapshot =
  as_accountId :: string
  nativeBalance :: "string option"
  balances :: "AssetBalance list option"

datatype OperationKind =
    pay | pathPaymentStrictReceive | pathPaymentStrictSend | accountMerge | clawback
  | changeTrust | setTrustlineFlags | createAccount | createContract | uploadWasm
  | invokeContract | extendFootprintTtl | restoreFootprint | bumpSequence | setOptions
  | manageSellOffer | liquidityPoolWithdraw | unknown_kind

record SimulatedOperation =
  op_kind :: OperationKind
  op_source :: "string option"
  op_destination :: "string option"
  op_amount :: "string option"
  op_contractId :: "string option"
  op_function :: "string option"

section \<open>Envelope resources and outcome\<close>

record SimulatedAuthEntry =
  auth_contractId :: "string option"
  auth_function :: "string option"

record EnvelopeResources =
  footprint :: "TransactionFootprint option"
  requiredFootprint :: "TransactionFootprint option"
  ledgerBounds :: "(int \<times> int) option"
  auth :: "SimulatedAuthEntry list option"
  hasTimeBounds :: "bool option"
  feeStroops :: "string option"
  operationCount :: "nat option"

datatype ErrorType = custom_error | panic | host_error | invocation_error

record SimulatedOutcome =
  success :: "bool option"
  errors :: "ErrorType list option"
  resultingBalances :: "AccountStateSnapshot list option"

section \<open>Contract trust\<close>

record ContractStateSnapshot =
  cs_contractId :: string
  cs_wasmHash :: "string option"
  deployed :: "bool option"
  codeArchived :: "bool option"

record ContractTrustRecord =
  ct_verified :: "bool option"
  ct_wasmHash :: "string option"
  ct_deployer :: "string option"

record ContractTrustRegistry =
  byContractId :: "(string, ContractTrustRecord) jsmap option"
  allowlist :: "string list option"
  trustedDeployers :: "string list option"

section \<open>Results\<close>

record AssetFlow =
  flow_asset :: AssetRef
  canonicalKey :: string
  preBalanceStroops :: int
  postBalanceStroops :: int
  outflowStroops :: int
  inflowStroops :: int
  outflowPercent :: string
  drained :: bool

record DrainAnalysis =
  flows :: "AssetFlow list"
  totalOutflowStroops :: int
  totalInflowStroops :: int
  drainedAssets :: "string list"
  destinations :: "string list"
  outgoingTransferCount :: nat
  residualBalances :: "(string, string) jsmap"

record ContractInteraction =
  ci_contractId :: string
  ci_functions :: "string list"
  invocationCount :: nat
  deployedInEnvelope :: bool
  missingAuth :: bool
  ci_verified :: bool
  codeHashMismatch :: bool
  known :: bool

record ContractInteractionAnalysis =
  interactions :: "ContractInteraction list"
  privilegedInvocations :: "SimulatedOperation list"
  unknownDeployers :: "string list"
  codeHashMismatches :: "string list"
  unverifiableContracts :: "string list"

datatype RiskSeverity = critical | high | medium | low | info

datatype IndicatorCategory = cat_footprint | cat_drain | cat_contract | cat_envelope

text \<open>The weight of an indicator; \<^const>\<open>None\<close> is a number that is not finite.\<close>

record RiskIndicator =
  code :: string
  category :: IndicatorCategory
  severity :: RiskSeverity
  weight :: "int option"

datatype RiskBand = SAFE | LOW | MODERATE | HIGH | CRITICAL

record RiskCategoryBreakdown =
  rb_category :: IndicatorCategory
  rb_score :: int
  sharePercent :: string
  indicatorCount :: nat
  worstSeverity :: RiskSeverity
  codes :: "string list"

record ThreatRiskAssessment =
  score :: int
  band :: RiskBand
  blockThreshold :: int
  blockExecution :: bool
  breakdown :: "RiskCategoryBreakdown list"
  severityCounts :: "RiskSeverity \<Rightarrow> nat"
  risk_summary :: string
  actions :: "string list"

section \<open>Engine input and output\<close>

record SimulationRequest =
  sourceAccount :: string
  network :: "string option"
  label :: "string option"
  operations :: "SimulatedOperation list"
  resources :: "EnvelopeResources option"
  preState :: "AccountStateSnapshot list"
  postState :: "AccountStateSnapshot list option"
  outcome :: "SimulatedOutcome option"
  contracts :: "ContractStateSnapshot list option"
  trustRegistry :: "ContractTrustRegistry option"

record SimulationEngineOptions =
  opt_nearTotalOutflowRatio :: "rat option"
  opt_fanOutDestinationThreshold :: "int option"
  opt_sequentialTransferThreshold :: "int option"
  opt_dustAmountStroops :: "int option"
  opt_maxFootprintReadWriteKeys :: "int option"
  opt_footprintProbeContractThreshold :: "int option"
  opt_maxInvocationsPerContract :: "int option"
  opt_riskBlockThreshold :: "int option"

record ResolvedOptions =
  nearTotalOutflowRatio :: rat
  fanOutDestinationThreshold :: int
  sequentialTransferThreshold :: int
  dustAmountStroops :: int
  maxFootprintReadWriteKeys :: int
  footprintProbeContractThreshold :: int
  maxInvocationsPerContract :: int
  riskBlockThreshold :: int

record SimulationMeta =
  meta_operationCount :: nat
  meta_invocationCount :: nat
  transferCount :: nat
  simulated :: bool
  simulationSucceeded :: bool
  hasBalanceDiff :: bool
  thresholds :: ResolvedOptions

record SimulationReport =
  rep_sourceAccount :: string
  rep_network :: "string option"
  rep_label :: "string option"
  analyzedAt :: string
  drain :: DrainAnalysis
  rep_footprint :: "FootprintDiff option"
  rep_contracts :: ContractInteractionAnalysis
  indicators :: "RiskIndicator list"
  risk :: ThreatRiskAssessment
  meta :: SimulationMeta

text \<open>JavaScript truthiness of an optional string: present and not empty.\<close>

definition truthy :: "string option \<Rightarrow> bool" where
  "truthy s = (case s of Some t \<Rightarrow> t \<noteq> [] | None \<Rightarrow> False)"

definition the_str :: "string option \<Rightarrow> string" where
  "the_str s = (case s of Some t \<Rightarrow> t | None \<Rightarrow> [])"

abbreviation nullish :: "'a option \<Rightarrow> 'a \<Rightarrow> 'a" where
  "nullish v d \<equiv> (case v of Some x \<Rightarrow> x | None \<Rightarrow> d)"

abbreviation indicator :: "string \<Rightarrow> IndicatorCategory \<Rightarrow> RiskSeverity \<Rightarrow> int \<Rightarrow> RiskIndicator" where
  "indicator c cat sev w \<equiv> \<lparr>code = c, category = cat, severity = sev, weight = Some w\<rparr>"

text \<open>
  What the scorer relies on in a detector: it stays in its category, its codes are its own, and every
  indicator carries a finite weight between 1 and 60.
\<close>

locale risk_detector =
  fixes detect :: "'i \<Rightarrow> RiskIndicator list"
    and cat :: IndicatorCategory
    and own :: "string list"
  assumes detect_category: "i \<in> set (detect x) \<Longrightarrow> category i = cat"
    and detect_code: "i \<in> set (detect x) \<Longrightarrow> code i \<in> set own"
    and detect_weight: "i \<in> set (detect x) \<Longrightarrow> \<exists>w. weight i = Some w \<and> 0 < w \<and> w \<le> 60"
begin

lemma weight_pos: "i \<in> set (detect x) \<Longrightarrow> 0 < the (weight i)"
  using detect_weight by fastforce

lemma foreign_code: "c \<notin> set own \<Longrightarrow> i \<in> set (detect x) \<Longrightarrow> code i \<noteq> c"
  using detect_code by blast

end

end
