(* ===== verification/Amounts.thy ===== *)
theory Amounts
  imports Sim_Types
begin

text \<open>
  Exact decimal amounts, \<open>apps/api/src/services/simulation/amounts.ts\<close>. \<open>bigint\<close> is \<^typ>\<open>int\<close>. A
  JavaScript number enters with the decimal text that \<open>numberToDecimalString\<close> renders (the
  run-time's \<open>toFixed\<close>), or without one when it is not finite.
\<close>

definition STROOP_PRECISION :: nat where "STROOP_PRECISION = 7"

definition STROOPS_PER_UNIT :: int where "STROOPS_PER_UNIT = 10 ^ STROOP_PRECISION"

datatype amount_in = AmountString string | AmountNumber "string option" | AmountBigint int

datatype amount_error = NotAPlainDecimal string | TooManyDecimals string nat | NotFinite

text \<open>\<open>/^\d+(?:\.\d+)?$/\<close>\<close>

definition digits1 :: "string \<Rightarrow> bool" where
  "digits1 s \<longleftrightarrow> s \<noteq> [] \<and> list_all is_digit s"

definition DECIMAL_PATTERN :: "string \<Rightarrow> bool" where
  "DECIMAL_PATTERN s =
     (case split_on CHR ''.'' s of
        [w] \<Rightarrow> digits1 w
      | [w, f] \<Rightarrow> digits1 w \<and> digits1 f
      | _ \<Rightarrow> False)"

definition parseDecimalText :: "string \<Rightarrow> amount_error + int" where
  "parseDecimalText txt =
     (if \<not> DECIMAL_PATTERN txt then Inl (NotAPlainDecimal txt)
      else
        (let parts = split_on CHR ''.'' txt;
             wholePart = hd parts;
             fractionPart = (if 1 < length parts then parts ! 1 else []) in
         if length fractionPart > STROOP_PRECISION
         then Inl (TooManyDecimals txt (length fractionPart))
         else Inr (int (dec_val (wholePart @ padEnd STROOP_PRECISION CHR ''0'' fractionPart)))))"

definition parseAmountToStroops :: "amount_in \<Rightarrow> amount_error + int" where
  "parseAmountToStroops amount =
     (case amount of
        AmountBigint n \<Rightarrow> Inr n
      | AmountNumber None \<Rightarrow> Inl NotFinite
      | AmountNumber (Some txt) \<Rightarrow> parseDecimalText txt
      | AmountString s \<Rightarrow> parseDecimalText (trim s))"

definition tryParseAmountToStroops :: "amount_in option \<Rightarrow> int option" where
  "tryParseAmountToStroops amount =
     (case amount of
        None \<Rightarrow> None
      | Some a \<Rightarrow>
          if a = AmountString [] then None
          else (case parseAmountToStroops a of Inr n \<Rightarrow> Some n | Inl _ \<Rightarrow> None))"

definition formatStroops :: "int \<Rightarrow> string" where
  "formatStroops stroops =
     (let negative = stroops < 0;
          abs = (if negative then - stroops else stroops);
          whole = abs div STROOPS_PER_UNIT;
          fraction = padStart STROOP_PRECISION CHR ''0'' (int_str (abs mod STROOPS_PER_UNIT)) in
      (if negative then ''-'' else []) @ int_str whole @ ''.'' @ fraction)"

definition RATIO_SCALE :: int where "RATIO_SCALE = 1000000"

definition formatRatioAsPercent :: "int \<Rightarrow> string" where
  "formatRatioAsPercent ratioScaled =
     (let negative = ratioScaled < 0;
          abs = (if negative then - ratioScaled else ratioScaled);
          hundredths = (abs * 10000) div RATIO_SCALE;
          whole = hundredths div 100;
          fraction = padStart 2 CHR ''0'' (int_str (hundredths mod 100)) in
      (if negative then ''-'' else []) @ int_str whole @ ''.'' @ fraction)"

definition canonicalAssetKey :: "AssetRef \<Rightarrow> string" where
  "canonicalAssetKey a =
     (case asset_type a of
        native \<Rightarrow> ''native''
      | credit_alphanumeric \<Rightarrow>
          ''credit_alphanumeric:'' @ toUpperCase (nullish (asset_code a) []) @ '':'' @ nullish (issuer a) []
      | liquidity_pool \<Rightarrow>
          (let pid = (case poolId a of Some p \<Rightarrow> Some p | None \<Rightarrow> asset_code a) in
           ''liquidity_pool:'' @ nullish pid []))"

section \<open>Parsing and printing\<close>

lemma digits_no_dot: "list_all is_digit s \<Longrightarrow> CHR ''.'' \<notin> set s"
  by (auto simp: list_all_iff is_digit_def)

lemma nat_str_digits1 [simp]: "digits1 (nat_str n)"
  by (auto simp: digits1_def list_all_iff dest: nat_str_digits)

lemma digits1_padStart: "digits1 s \<Longrightarrow> digits1 (padStart k CHR ''0'' s)"
  by (auto simp: digits1_def padStart_def list_all_iff is_digit_def)

lemma trim_digits: "digits1 w \<Longrightarrow> digits1 f \<Longrightarrow> trim (w @ ''.'' @ f) = w @ ''.'' @ f"
proof -
  have sp: "is_digit c \<Longrightarrow> \<not> is_space c" for c by (auto simp: is_digit_def is_space_def)
  assume w: "digits1 w" and f: "digits1 f"
  then obtain a w' f' b where s: "w = a # w'" "f = f' @ [b]" "is_digit a" "is_digit b"
    by (cases w; cases f rule: rev_exhaust) (auto simp: digits1_def)
  then show ?thesis using sp by (simp add: trim_def)
qed

lemma split_dot:
  "list_all is_digit f \<Longrightarrow> CHR ''.'' \<notin> set w \<Longrightarrow> split_on CHR ''.'' (w @ CHR ''.'' # f) = [w, f]"
  using digits_no_dot[of f] by (simp add: split_on_first split_on_absent)

lemma parse_plain:
  assumes "digits1 w" "digits1 f" "length f \<le> STROOP_PRECISION"
  shows "parseDecimalText (w @ ''.'' @ f)
    = Inr (int (dec_val w * 10 ^ STROOP_PRECISION + dec_val f * 10 ^ (STROOP_PRECISION - length f)))"
proof -
  have sp: "split_on CHR ''.'' (w @ CHR ''.'' # f) = [w, f]"
    using assms digits_no_dot by (intro split_dot) (auto simp: digits1_def)
  have "dec_val (padEnd STROOP_PRECISION CHR ''0'' f) = dec_val f * 10 ^ (STROOP_PRECISION - length f)"
    by (simp add: padEnd_def dec_val_append dec_val_zeros)
  moreover have "length (padEnd STROOP_PRECISION CHR ''0'' f) = STROOP_PRECISION"
    using assms(3) by (simp add: padEnd_def)
  ultimately show ?thesis
    using assms by (simp add: parseDecimalText_def DECIMAL_PATTERN_def sp dec_val_append)
qed

lemma padStart_length: "length s \<le> k \<Longrightarrow> length (padStart k c s) = k"
  by (simp add: padStart_def)

lemma format_parts:
  assumes "0 \<le> n"
  obtains w f where "formatStroops n = w @ ''.'' @ f" "digits1 w" "digits1 f" "length f = STROOP_PRECISION"
    "int (dec_val w) = n div STROOPS_PER_UNIT" "int (dec_val f) = n mod STROOPS_PER_UNIT"
proof
  let ?w = "nat_str (nat (n div STROOPS_PER_UNIT))"
  let ?f = "padStart STROOP_PRECISION CHR ''0'' (nat_str (nat (n mod STROOPS_PER_UNIT)))"
  have m: "0 \<le> n mod STROOPS_PER_UNIT" "n mod STROOPS_PER_UNIT < 10 ^ 7" "0 \<le> n div STROOPS_PER_UNIT"
    using assms by (simp_all add: STROOPS_PER_UNIT_def STROOP_PRECISION_def)
  show "formatStroops n = ?w @ ''.'' @ ?f"
    using assms m by (simp add: formatStroops_def Let_def int_str_def)
  show "digits1 ?w" "digits1 ?f" by (simp_all add: digits1_padStart)
  show "length ?f = STROOP_PRECISION"
    using m by (intro padStart_length nat_str_length) (auto simp: STROOP_PRECISION_def)
  show "int (dec_val ?w) = n div STROOPS_PER_UNIT" "int (dec_val ?f) = n mod STROOPS_PER_UNIT"
    using m by (simp_all add: dec_val_padStart)
qed

lemma parse_format: "0 \<le> n \<Longrightarrow> parseAmountToStroops (AmountString (formatStroops n)) = Inr n"
proof -
  assume "0 \<le> n"
  then obtain w f where p: "formatStroops n = w @ ''.'' @ f" "digits1 w" "digits1 f" "length f = STROOP_PRECISION"
    "int (dec_val w) = n div STROOPS_PER_UNIT" "int (dec_val f) = n mod STROOPS_PER_UNIT"
    by (rule format_parts)
  have "parseAmountToStroops (AmountString (formatStroops n))
      = Inr (int (dec_val w * 10 ^ STROOP_PRECISION + dec_val f * 10 ^ (STROOP_PRECISION - length f)))"
    unfolding parseAmountToStroops_def using p trim_digits parse_plain by simp
  also have "int (dec_val w * 10 ^ STROOP_PRECISION + dec_val f * 10 ^ (STROOP_PRECISION - length f)) = n"
    using p(4,5,6) div_mult_mod_eq[of n STROOPS_PER_UNIT] by (simp add: STROOPS_PER_UNIT_def)
  finally show ?thesis .
qed

lemma parse_format_negative:
  "n < 0 \<Longrightarrow> \<exists>e. parseAmountToStroops (AmountString (formatStroops n)) = Inl e"
proof -
  assume n: "n < 0"
  then have "0 \<le> - n" by simp
  then obtain w f where p: "formatStroops (- n) = w @ ''.'' @ f" "digits1 w" "digits1 f"
    by (rule format_parts)
  have s: "formatStroops n = CHR ''-'' # w @ ''.'' @ f"
    using p(1) n by (simp add: formatStroops_def Let_def)
  obtain f' b where "f = f' @ [b]" "is_digit b" using p(3) by (cases f rule: rev_exhaust) (auto simp: digits1_def)
  then have t: "trim (CHR ''-'' # w @ ''.'' @ f) = CHR ''-'' # w @ ''.'' @ f"
    by (auto simp: trim_def is_space_def is_digit_def)
  have "split_on CHR ''.'' ((CHR ''-'' # w) @ CHR ''.'' # f) = [CHR ''-'' # w, f]"
    using p(2,3) digits_no_dot by (intro split_dot) (auto simp: digits1_def)
  then have "\<not> DECIMAL_PATTERN (CHR ''-'' # w @ CHR ''.'' # f)"
    by (simp add: DECIMAL_PATTERN_def digits1_def is_digit_def del: split_on.simps)
  then show ?thesis using t by (simp add: parseAmountToStroops_def s parseDecimalText_def)
qed

text \<open>Evaluation of the parser on literals by the simplifier.\<close>

lemma replicate_small:
  "replicate 7 c = c # replicate 6 c" "replicate 6 c = c # replicate 5 c" "replicate 5 c = c # replicate 4 c"
  "replicate 4 c = c # replicate 3 c" "replicate 3 c = [c, c, c]" "replicate 2 c = [c, c]"
  by (simp_all add: numeral_eq_Suc)

lemmas parse_literal = replicate_small tryParseAmountToStroops_def parseAmountToStroops_def parseDecimalText_def
  DECIMAL_PATTERN_def digits1_def is_digit_def trim_def is_space_def dec_val_def digit_val_def padEnd_def
  STROOP_PRECISION_def Let_def

section \<open>Interface\<close>

text \<open>Non-negative amounts and their printed form are a codec.\<close>

interpretation stroops: codec formatStroops
    "\<lambda>s. case parseAmountToStroops (AmountString s) of Inr n \<Rightarrow> Some n | Inl _ \<Rightarrow> None" "\<lambda>n. 0 \<le> n"
  by unfold_locales (simp add: parse_format)

section \<open>Properties\<close>

text \<open>Printing and parsing are exact: the fixed 7-decimal rendering of a non-negative number of
  stroops parses back to the same number, so distinct amounts print differently; the rendering of a
  negative number is rejected by the parser.\<close>

theorem amount_print_parse:
  "tryParseAmountToStroops (Some (AmountString (formatStroops n))) = (if 0 \<le> n then Some n else None)
   \<and> (0 \<le> n \<and> 0 \<le> m \<longrightarrow> formatStroops n = formatStroops m \<longrightarrow> n = m)"
proof -
  have "formatStroops n \<noteq> []" by (simp add: formatStroops_def Let_def)
  then show ?thesis
    using parse_format[of n] parse_format_negative[of n] stroops.enc_inject[of n m]
    by (cases "0 \<le> n") (auto simp: tryParseAmountToStroops_def)
qed

theorem amount_print_parse_witness:
  "tryParseAmountToStroops (Some (AmountString (formatStroops 15000000))) = Some 15000000
   \<and> formatStroops 15000000 \<noteq> formatStroops 15000001"
  using amount_print_parse[of 15000000 15000001] by auto

text \<open>The parser is exact on every accepted string: the value of a plain decimal with at most seven
  decimals is the whole part times ten million plus the fraction scaled to seven digits, and a longer
  fraction is an error, never a rounding.\<close>

theorem amount_parse_exact:
  assumes "digits1 w" and "digits1 f"
  shows "parseAmountToStroops (AmountString (w @ ''.'' @ f)) =
    (if length f \<le> 7 then Inr (int (dec_val w) * 10000000 + int (dec_val f) * 10 ^ (7 - length f))
     else Inl (TooManyDecimals (w @ ''.'' @ f) (length f)))"
proof (cases "length f \<le> 7")
  case True
  then show ?thesis
    unfolding parseAmountToStroops_def using trim_digits[OF assms] parse_plain[OF assms]
    by (simp add: STROOP_PRECISION_def)
next
  case False
  have "split_on CHR ''.'' (w @ CHR ''.'' # f) = [w, f]"
    using assms digits_no_dot by (intro split_dot) (auto simp: digits1_def)
  then show ?thesis
    unfolding parseAmountToStroops_def using False trim_digits[OF assms] assms
    by (simp add: parseDecimalText_def DECIMAL_PATTERN_def STROOP_PRECISION_def)
qed

theorem amount_parse_exact_witness:
  "parseAmountToStroops (AmountString (''12'' @ ''.'' @ ''5'')) =
    (if length ''5'' \<le> 7 then Inr (int (dec_val ''12'') * 10000000 + int (dec_val ''5'') * 10 ^ (7 - length ''5''))
     else Inl (TooManyDecimals (''12'' @ ''.'' @ ''5'') (length ''5'')))"
  by (rule amount_parse_exact) (simp_all add: digits1_def is_digit_def)

end
