(* ===== verification/Drain.thy ===== *)
theory Drain
  imports Amounts
begin

text \<open>
  Drain-pattern detection, \<open>apps/api/src/services/simulation/drain-detector.ts\<close>: the per-asset flow
  table from the balances before and after, and the eight rules of the drain category, one definition
  per rule. Balances are integer stroops; the strings that the source stores in a flow are the decimal
  renderings of these integers, which it reads back with \<open>BigInt\<close>. The outflow ratio is the exact
  rational a JavaScript number denotes, and \<open>Math.round\<close> is rounding to the nearest integer, halves
  upwards.
\<close>

section \<open>Flows\<close>

definition OUTGOING_TRANSFER_KINDS :: "OperationKind list" where
  "OUTGOING_TRANSFER_KINDS =
     [pay, pathPaymentStrictReceive, pathPaymentStrictSend, accountMerge, clawback, liquidityPoolWithdraw]"

record DrainThresholds =
  dt_nearTotalOutflowRatio :: rat
  dt_fanOutDestinationThreshold :: int
  dt_sequentialTransferThreshold :: int
  dt_dustAmountStroops :: int

definition parse_str :: "string option \<Rightarrow> int option" where
  "parse_str s = tryParseAmountToStroops (map_option AmountString s)"

fun read_entries :: "(string, int) jsmap \<Rightarrow> AssetBalance list \<Rightarrow> (string, int) jsmap" where
  "read_entries m [] = m"
| "read_entries m (e # es) =
     (case parse_str (Some (ab_balance e)) of
        None \<Rightarrow> read_entries m es
      | Some amount \<Rightarrow> read_entries (AList.update (canonicalAssetKey (ab_asset e)) amount m) es)"

definition readBalances :: "AccountStateSnapshot option \<Rightarrow> (string, int) jsmap" where
  "readBalances snapshot =
     (case snapshot of
        None \<Rightarrow> []
      | Some s \<Rightarrow>
          (let m = (case parse_str (nativeBalance s) of Some n \<Rightarrow> AList.update ''native'' n [] | None \<Rightarrow> []) in
           read_entries m (nullish (balances s) [])))"

definition snapshotFor :: "AccountStateSnapshot list option \<Rightarrow> string \<Rightarrow> AccountStateSnapshot option" where
  "snapshotFor snapshots accountId =
     (case snapshots of None \<Rightarrow> None | Some ss \<Rightarrow> find (\<lambda>s. as_accountId s = accountId) ss)"

definition math_round :: "rat \<Rightarrow> int" where
  "math_round x = \<lfloor>x + 1 / 2\<rfloor>"

definition inferAssetFromKey :: "string \<Rightarrow> AssetRef" where
  "inferAssetFromKey k =
     (let nat = \<lparr>asset_type = native, asset_code = None, issuer = None, poolId = None\<rparr> in
      if k = ''native'' then nat
      else if startsWith k ''credit_alphanumeric:'' then
        (let parts = split_on CHR '':'' k in
         \<lparr>asset_type = credit_alphanumeric,
          asset_code = Some (if 1 < length parts then parts ! 1 else []),
          issuer = Some (if 2 < length parts then parts ! 2 else []), poolId = None\<rparr>)
      else if startsWith k ''liquidity_pool:'' then
        \<lparr>asset_type = liquidity_pool, asset_code = None, issuer = None,
         poolId = Some (drop (length ''liquidity_pool:'') k)\<rparr>
      else nat)"

definition build_flow ::
  "(string, int) jsmap \<Rightarrow> (string, int) jsmap option \<Rightarrow> (string, AssetRef) jsmap \<Rightarrow> int \<Rightarrow> string \<Rightarrow> AssetFlow" where
  "build_flow pre post assets ratioNumerator k =
     (let preStroops = nullish (map_of pre k) 0;
          postStroops = (case post of Some p \<Rightarrow> nullish (map_of p k) 0 | None \<Rightarrow> preStroops);
          outflow = (if preStroops > postStroops then preStroops - postStroops else 0);
          inflow = (if postStroops > preStroops then postStroops - preStroops else 0) in
      \<lparr>flow_asset = (case map_of assets k of Some a \<Rightarrow> a | None \<Rightarrow> inferAssetFromKey k),
       canonicalKey = k, preBalanceStroops = preStroops, postBalanceStroops = postStroops,
       outflowStroops = outflow, inflowStroops = inflow,
       outflowPercent = formatRatioAsPercent
         (if preStroops > 0 then (outflow * RATIO_SCALE) div preStroops else 0),
       drained = (outflow > 0 \<and> preStroops > 0 \<and> outflow * 10000 \<ge> preStroops * ratioNumerator)\<rparr>)"

definition flow_keys :: "(string, int) jsmap \<Rightarrow> (string, int) jsmap option \<Rightarrow> string list" where
  "flow_keys pre post =
     sort (set_from [] (map fst pre @ (case post of Some p \<Rightarrow> map fst p | None \<Rightarrow> [])))"

definition buildFlows ::
  "(string, int) jsmap \<Rightarrow> (string, int) jsmap option \<Rightarrow> (string, AssetRef) jsmap \<Rightarrow> DrainThresholds \<Rightarrow> AssetFlow list" where
  "buildFlows pre post assets th =
     map (build_flow pre post assets (math_round (dt_nearTotalOutflowRatio th * 10000))) (flow_keys pre post)"

definition collectAssets :: "AccountStateSnapshot option \<Rightarrow> (string, AssetRef) jsmap" where
  "collectAssets snapshot =
     (case snapshot of
        None \<Rightarrow> []
      | Some s \<Rightarrow>
          foldl (\<lambda>m e. AList.update (canonicalAssetKey (ab_asset e)) (ab_asset e) m)
            (if nativeBalance s \<noteq> None
             then [(''native'', \<lparr>asset_type = native, asset_code = None, issuer = None, poolId = None\<rparr>)]
             else [])
            (nullish (balances s) []))"

definition isOutgoingTransfer :: "SimulatedOperation \<Rightarrow> string \<Rightarrow> bool" where
  "isOutgoingTransfer op source =
     (op_kind op \<in> set OUTGOING_TRANSFER_KINDS \<and> nullish (op_source op) source = source)"

section \<open>Rules\<close>

definition outgoing_destinations :: "string \<Rightarrow> SimulatedOperation list \<Rightarrow> string list" where
  "outgoing_destinations source ops =
     map (\<lambda>op. the_str (op_destination op))
       (filter (\<lambda>op. isOutgoingTransfer op source \<and> truthy (op_destination op)) ops)"

definition balance_delta_rule :: "bool \<Rightarrow> AssetFlow list \<Rightarrow> RiskIndicator list" where
  "balance_delta_rule hasDiff fs =
     (if hasDiff then
        map (\<lambda>f. let leftToZero = (postBalanceStroops f = 0) in
               indicator (if leftToZero then ''FULL_BALANCE_DRAIN'' else ''NEAR_TOTAL_BALANCE_OUTFLOW'')
                 cat_drain (if leftToZero then critical else high) (if leftToZero then 60 else 28))
          (filter (\<lambda>f. \<not> (\<not> drained f \<or> outflowStroops f = 0)) fs)
      else [])"

definition merge_rule :: "string \<Rightarrow> SimulatedOperation list \<Rightarrow> RiskIndicator list" where
  "merge_rule source ops =
     (let mergeOps = filter (\<lambda>op. op_kind op = accountMerge \<and> nullish (op_source op) source = source
                                \<and> truthy (op_destination op)) ops in
      if length mergeOps > 0 then [indicator ''ACCOUNT_MERGE_SWEEP'' cat_drain critical 40] else [])"

definition fan_out_rule :: "DrainThresholds \<Rightarrow> string jsset \<Rightarrow> RiskIndicator list" where
  "fan_out_rule th destinationSet =
     (if int (length destinationSet) \<ge> dt_fanOutDestinationThreshold th
      then [indicator ''DESTINATION_FAN_OUT'' cat_drain high 22] else [])"

definition burst_rule :: "DrainThresholds \<Rightarrow> nat \<Rightarrow> RiskIndicator list" where
  "burst_rule th n =
     (if int n \<ge> dt_sequentialTransferThreshold th
      then [indicator ''UNBOUNDED_SEQUENTIAL_TRANSFERS'' cat_drain high 18] else [])"

definition source_set :: "string \<Rightarrow> SimulatedOperation list \<Rightarrow> string jsset" where
  "source_set source ops =
     set_add source (set_from [] (map (\<lambda>op. the_str (op_source op)) (filter (\<lambda>op. truthy (op_source op)) ops)))"

definition round_trip_rule :: "string \<Rightarrow> SimulatedOperation list \<Rightarrow> string jsset \<Rightarrow> RiskIndicator list" where
  "round_trip_rule source ops destinationSet =
     (let sourceSet = source_set source ops;
          roundTrip = filter (\<lambda>d. d \<in> set sourceSet \<and> d \<noteq> source) destinationSet;
          selfTransfer = (source \<in> set destinationSet) in
      if length roundTrip > 0 \<or> selfTransfer
      then [indicator ''ROUND_TRIP_SELF_DEAL'' cat_drain critical 30] else [])"

definition dust_rule :: "DrainThresholds \<Rightarrow> SimulatedOperation list \<Rightarrow> RiskIndicator list" where
  "dust_rule th ops =
     (let dustTransfers = filter (\<lambda>op. op_kind op \<in> set OUTGOING_TRANSFER_KINDS
             \<and> (case parse_str (op_amount op) of
                  None \<Rightarrow> False | Some a \<Rightarrow> a \<ge> 0 \<and> a \<le> dt_dustAmountStroops th)) ops in
      if length dustTransfers > 0 then [indicator ''DUST_AMOUNT_TRANSFER'' cat_drain medium 10] else [])"

definition revocable_rule :: "AccountStateSnapshot option \<Rightarrow> AssetFlow list \<Rightarrow> RiskIndicator list" where
  "revocable_rule preSnapshot fs =
     (case preSnapshot of
        None \<Rightarrow> []
      | Some s \<Rightarrow>
          (let revocableKeys = set_from [] (map (\<lambda>e. canonicalAssetKey (ab_asset e))
                 (filter (\<lambda>e. ab_revocable e = Some True) (nullish (balances s) [])));
               touched = filter (\<lambda>k. (case find (\<lambda>f. canonicalKey f = k) fs of
                                        Some f \<Rightarrow> outflowStroops f | None \<Rightarrow> 0) \<noteq> 0) revocableKeys in
           if length touched > 0 then [indicator ''REVOCABLE_ASSET_TRANSFER'' cat_drain high 20] else []))"

definition liquidation_rule :: "bool \<Rightarrow> AssetFlow list \<Rightarrow> int \<Rightarrow> RiskIndicator list" where
  "liquidation_rule hasDiff fs totalInflow =
     (if hasDiff then
        (let nonNativeOut = filter (\<lambda>f. canonicalKey f \<noteq> ''native'' \<and> outflowStroops f > 0) fs;
             nativeOutflow = (case find (\<lambda>f. canonicalKey f = ''native'') fs of
                                Some f \<Rightarrow> outflowStroops f | None \<Rightarrow> 0) in
         if length nonNativeOut \<ge> 1 \<and> nativeOutflow > 0 \<and> totalInflow = 0
         then [indicator ''ASSET_LIQUIDATION_SWEEP'' cat_drain high 26] else [])
      else [])"

record drain_input =
  di_source :: string
  di_operations :: "SimulatedOperation list"
  di_pre :: "AccountStateSnapshot list option"
  di_post :: "AccountStateSnapshot list option"
  di_thresholds :: DrainThresholds

definition drain_flows :: "drain_input \<Rightarrow> AssetFlow list" where
  "drain_flows x =
     (let preSnapshot = snapshotFor (di_pre x) (di_source x);
          postSnapshot = snapshotFor (di_post x) (di_source x) in
      buildFlows (readBalances preSnapshot) (map_option (\<lambda>s. readBalances (Some s)) postSnapshot)
        (collectAssets preSnapshot) (di_thresholds x))"

definition drain_analysis :: "drain_input \<Rightarrow> DrainAnalysis" where
  "drain_analysis x =
     (let fs = drain_flows x in
      \<lparr>flows = fs,
       totalOutflowStroops = foldl (\<lambda>s f. s + outflowStroops f) 0 fs,
       totalInflowStroops = foldl (\<lambda>s f. s + inflowStroops f) 0 fs,
       drainedAssets = map canonicalKey (filter drained fs),
       destinations = sort (outgoing_destinations (di_source x) (di_operations x)),
       outgoingTransferCount = length (filter (\<lambda>op. isOutgoingTransfer op (di_source x)) (di_operations x)),
       residualBalances = foldl (\<lambda>m f. AList.update (canonicalKey f) (formatStroops (postBalanceStroops f)) m) [] fs\<rparr>)"

definition drain_indicators :: "drain_input \<Rightarrow> RiskIndicator list" where
  "drain_indicators x =
     (let source = di_source x; ops = di_operations x; th = di_thresholds x;
          preSnapshot = snapshotFor (di_pre x) source;
          postSnapshot = snapshotFor (di_post x) source;
          hasDiff = (preSnapshot \<noteq> None \<and> postSnapshot \<noteq> None);
          a = drain_analysis x;
          destinationSet = set_from [] (outgoing_destinations source ops) in
      balance_delta_rule hasDiff (flows a)
      @ merge_rule source ops
      @ fan_out_rule th destinationSet
      @ burst_rule th (outgoingTransferCount a)
      @ round_trip_rule source ops destinationSet
      @ dust_rule th ops
      @ revocable_rule preSnapshot (flows a)
      @ liquidation_rule hasDiff (flows a) (totalInflowStroops a))"

definition analyzeDrain :: "drain_input \<Rightarrow> DrainAnalysis \<times> RiskIndicator list" where
  "analyzeDrain x = (drain_analysis x, drain_indicators x)"

definition hasDrainedAssets :: "DrainAnalysis \<Rightarrow> bool" where
  "hasDrainedAssets a \<longleftrightarrow> length (drainedAssets a) > 0"

section \<open>Specification vocabulary\<close>

definition pre_balance :: "drain_input \<Rightarrow> string \<Rightarrow> int" where
  "pre_balance x k = nullish (map_of (readBalances (snapshotFor (di_pre x) (di_source x))) k) 0"

definition post_balance :: "drain_input \<Rightarrow> string \<Rightarrow> int" where
  "post_balance x k = nullish (map_of (readBalances (snapshotFor (di_post x) (di_source x))) k) 0"

definition has_diff :: "drain_input \<Rightarrow> bool" where
  "has_diff x \<longleftrightarrow> snapshotFor (di_pre x) (di_source x) \<noteq> None \<and> snapshotFor (di_post x) (di_source x) \<noteq> None"

definition holdings :: "drain_input \<Rightarrow> string set" where
  "holdings x = fst ` set (readBalances (snapshotFor (di_pre x) (di_source x)))
     \<union> fst ` set (readBalances (snapshotFor (di_post x) (di_source x)))"

definition drain_codes :: "string list" where
  "drain_codes = [''FULL_BALANCE_DRAIN'', ''NEAR_TOTAL_BALANCE_OUTFLOW'', ''ACCOUNT_MERGE_SWEEP'',
     ''DESTINATION_FAN_OUT'', ''UNBOUNDED_SEQUENTIAL_TRANSFERS'', ''ROUND_TRIP_SELF_DEAL'',
     ''DUST_AMOUNT_TRANSFER'', ''REVOCABLE_ASSET_TRANSFER'', ''ASSET_LIQUIDATION_SWEEP'']"

text \<open>A concrete account that loses its whole native balance of ten units and half a credit balance.\<close>

definition sample_credit :: AssetRef where
  "sample_credit = \<lparr>asset_type = credit_alphanumeric, asset_code = Some ''usdc'', issuer = Some ''GI'', poolId = None\<rparr>"

definition sample_drain :: drain_input where
  "sample_drain =
     \<lparr>di_source = ''GA'',
      di_operations = [\<lparr>op_kind = pay, op_source = None, op_destination = Some ''GB'', op_amount = Some ''10'',
                        op_contractId = None, op_function = None\<rparr>],
      di_pre = Some [\<lparr>as_accountId = ''GA'', nativeBalance = Some ''10'',
                      balances = Some [\<lparr>ab_asset = sample_credit, ab_balance = ''4.5'', ab_revocable = None\<rparr>]\<rparr>],
      di_post = Some [\<lparr>as_accountId = ''GA'', nativeBalance = Some ''0'',
                       balances = Some [\<lparr>ab_asset = sample_credit, ab_balance = ''2.25'', ab_revocable = None\<rparr>]\<rparr>],
      di_thresholds = \<lparr>dt_nearTotalOutflowRatio = 85 / 100, dt_fanOutDestinationThreshold = 3,
                       dt_sequentialTransferThreshold = 8, dt_dustAmountStroops = 10\<rparr>\<rparr>"

section \<open>The detector contract\<close>

lemmas drain_rules = balance_delta_rule_def merge_rule_def fan_out_rule_def burst_rule_def
  round_trip_rule_def dust_rule_def revocable_rule_def liquidation_rule_def

lemma drain_indicator_shape:
  assumes "i \<in> set (drain_indicators x)"
  shows "category i = cat_drain \<and> code i \<in> set drain_codes \<and> (\<exists>w. weight i = Some w \<and> 0 < w \<and> w \<le> 60)"
  using assms unfolding drain_indicators_def Let_def set_append Un_iff
  by (elim disjE)
    (auto simp: drain_rules Let_def drain_codes_def split: if_splits option.splits)

interpretation drain: risk_detector drain_indicators cat_drain drain_codes
  by unfold_locales (simp_all add: drain_indicator_shape)

section \<open>The flow table\<close>

lemma set_flow_keys: "set (flow_keys pre post) = fst ` set pre \<union> (case post of Some p \<Rightarrow> fst ` set p | None \<Rightarrow> {})"
  by (auto simp: flow_keys_def split: option.splits)

lemma distinct_flow_keys: "distinct (flow_keys pre post)"
  by (simp add: flow_keys_def)

lemma build_flow_simps [simp]:
  "canonicalKey (build_flow pre post assets n k) = k"
  "preBalanceStroops (build_flow pre post assets n k) = nullish (map_of pre k) 0"
  "postBalanceStroops (build_flow pre post assets n k) =
     (case post of Some p \<Rightarrow> nullish (map_of p k) 0 | None \<Rightarrow> nullish (map_of pre k) 0)"
  "outflowStroops (build_flow pre post assets n k) = max 0 (preBalanceStroops (build_flow pre post assets n k)
     - postBalanceStroops (build_flow pre post assets n k))"
  "inflowStroops (build_flow pre post assets n k) = max 0 (postBalanceStroops (build_flow pre post assets n k)
     - preBalanceStroops (build_flow pre post assets n k))"
  "drained (build_flow pre post assets n k) \<longleftrightarrow> 0 < outflowStroops (build_flow pre post assets n k)
     \<and> 0 < preBalanceStroops (build_flow pre post assets n k)
     \<and> preBalanceStroops (build_flow pre post assets n k) * n \<le> outflowStroops (build_flow pre post assets n k) * 10000"
  by (auto simp: build_flow_def Let_def split: option.splits)

definition flow_at :: "drain_input \<Rightarrow> string \<Rightarrow> AssetFlow" where
  "flow_at x = build_flow (readBalances (snapshotFor (di_pre x) (di_source x)))
     (map_option (\<lambda>s. readBalances (Some s)) (snapshotFor (di_post x) (di_source x)))
     (collectAssets (snapshotFor (di_pre x) (di_source x)))
     (math_round (dt_nearTotalOutflowRatio (di_thresholds x) * 10000))"

definition flow_ids :: "drain_input \<Rightarrow> string list" where
  "flow_ids x = flow_keys (readBalances (snapshotFor (di_pre x) (di_source x)))
     (map_option (\<lambda>s. readBalances (Some s)) (snapshotFor (di_post x) (di_source x)))"

lemma drain_flows_eq: "drain_flows x = map (flow_at x) (flow_ids x)"
  by (simp add: drain_flows_def buildFlows_def flow_at_def flow_ids_def Let_def)

lemma flow_at_simps [simp]:
  "canonicalKey (flow_at x k) = k"
  "preBalanceStroops (flow_at x k) = pre_balance x k"
  "has_diff x \<Longrightarrow> postBalanceStroops (flow_at x k) = post_balance x k"
  by (auto simp: flow_at_def pre_balance_def post_balance_def has_diff_def)

lemma flow_at_moves:
  "outflowStroops (flow_at x k) = max 0 (preBalanceStroops (flow_at x k) - postBalanceStroops (flow_at x k))"
  "inflowStroops (flow_at x k) = max 0 (postBalanceStroops (flow_at x k) - preBalanceStroops (flow_at x k))"
  "drained (flow_at x k) \<longleftrightarrow> 0 < outflowStroops (flow_at x k) \<and> 0 < pre_balance x k
     \<and> pre_balance x k * math_round (dt_nearTotalOutflowRatio (di_thresholds x) * 10000)
       \<le> outflowStroops (flow_at x k) * 10000"
  unfolding flow_at_def by (simp_all add: pre_balance_def)

lemma set_flow_ids: "set (flow_ids x) \<subseteq> holdings x" "has_diff x \<Longrightarrow> set (flow_ids x) = holdings x"
  by (auto simp: flow_ids_def set_flow_keys holdings_def has_diff_def readBalances_def split: option.splits)

lemma pre_balance_ids: "pre_balance x k \<noteq> 0 \<Longrightarrow> k \<in> set (flow_ids x)"
  by (auto simp: pre_balance_def flow_ids_def set_flow_keys split: option.splits
      dest: map_of_SomeD intro!: rev_image_eqI)

lemma math_round_le: "q \<le> of_int n \<Longrightarrow> math_round q \<le> n"
  unfolding math_round_def by (simp add: floor_le_iff)

lemma full_drain_is_drained:
  assumes "has_diff x" "0 < pre_balance x k" "post_balance x k = 0"
    and "dt_nearTotalOutflowRatio (di_thresholds x) \<le> 1"
  shows "drained (flow_at x k)"
proof -
  have "math_round (dt_nearTotalOutflowRatio (di_thresholds x) * 10000) \<le> 10000"
    using assms(4) by (intro math_round_le) simp
  then have "pre_balance x k * math_round (dt_nearTotalOutflowRatio (di_thresholds x) * 10000) \<le> pre_balance x k * 10000"
    using assms(2) by simp
  then show ?thesis using assms by (simp add: flow_at_moves)
qed

lemma full_code_only_from_delta:
  "i \<in> set (drain_indicators x) \<Longrightarrow> code i = ''FULL_BALANCE_DRAIN'' \<Longrightarrow>
     i \<in> set (balance_delta_rule (has_diff x) (drain_flows x))"
  unfolding drain_indicators_def Let_def set_append Un_iff
  by (elim disjE) (auto simp: drain_rules Let_def drain_analysis_def has_diff_def split: if_splits option.splits)

lemma full_drain_raised:
  assumes "has_diff x" "0 < pre_balance x k" "post_balance x k = 0"
    and "dt_nearTotalOutflowRatio (di_thresholds x) \<le> 1"
  shows "indicator ''FULL_BALANCE_DRAIN'' cat_drain critical 60 \<in> set (drain_indicators x)"
proof -
  have "drained (flow_at x k)" by (rule full_drain_is_drained[OF assms])
  moreover have "flow_at x k \<in> set (drain_flows x)"
    using pre_balance_ids[of x k] assms(2) by (simp add: drain_flows_eq)
  ultimately have "indicator ''FULL_BALANCE_DRAIN'' cat_drain critical 60 \<in> set (balance_delta_rule True (drain_flows x))"
    using assms(1,3) by (auto simp: balance_delta_rule_def flow_at_moves intro!: rev_image_eqI[of "flow_at x k"])
  then show ?thesis
    using assms(1) by (simp add: drain_indicators_def Let_def drain_analysis_def has_diff_def)
qed

section \<open>Properties\<close>

text \<open>The headline rule is exact: with an outflow ratio of at most one, a full drain is reported if
  and only if the account has a snapshot before and after and some asset with a positive balance before
  has none after (also when the later snapshot omits it).\<close>

theorem full_drain_iff:
  assumes "dt_nearTotalOutflowRatio (di_thresholds x) \<le> 1"
  shows "(\<exists>i. i \<in> set (drain_indicators x) \<and> code i = ''FULL_BALANCE_DRAIN'') \<longleftrightarrow>
    has_diff x \<and> (\<exists>k. 0 < pre_balance x k \<and> post_balance x k = 0)"
proof
  assume "\<exists>i. i \<in> set (drain_indicators x) \<and> code i = ''FULL_BALANCE_DRAIN''"
  then obtain i where i: "i \<in> set (balance_delta_rule (has_diff x) (drain_flows x))" "code i = ''FULL_BALANCE_DRAIN''"
    using full_code_only_from_delta by blast
  then have d: "has_diff x" by (auto simp: balance_delta_rule_def split: if_splits)
  with i obtain k where "drained (flow_at x k)" "postBalanceStroops (flow_at x k) = 0"
    by (auto simp: balance_delta_rule_def drain_flows_eq Let_def split: if_splits)
  then show "has_diff x \<and> (\<exists>k. 0 < pre_balance x k \<and> post_balance x k = 0)"
    using d by (auto simp: flow_at_moves)
next
  assume "has_diff x \<and> (\<exists>k. 0 < pre_balance x k \<and> post_balance x k = 0)"
  then obtain k where "has_diff x" "0 < pre_balance x k" "post_balance x k = 0" by blast
  from full_drain_raised[OF this assms]
  show "\<exists>i. i \<in> set (drain_indicators x) \<and> code i = ''FULL_BALANCE_DRAIN''" by force
qed

lemma sample_drain_facts:
  "has_diff sample_drain" "pre_balance sample_drain ''native'' = 100000000"
  "post_balance sample_drain ''native'' = 0"
  by (simp_all add: sample_drain_def sample_credit_def has_diff_def pre_balance_def post_balance_def snapshotFor_def
      readBalances_def canonicalAssetKey_def Let_def parse_str_def parse_literal)

theorem full_drain_iff_witness:
  "\<exists>i. i \<in> set (drain_indicators sample_drain) \<and> code i = ''FULL_BALANCE_DRAIN''"
proof -
  have r: "dt_nearTotalOutflowRatio (di_thresholds sample_drain) \<le> 1" by (simp add: sample_drain_def)
  have "has_diff sample_drain \<and> 0 < pre_balance sample_drain ''native'' \<and> post_balance sample_drain ''native'' = 0"
    by (simp add: sample_drain_facts)
  then show ?thesis unfolding full_drain_iff[OF r] by blast
qed

text \<open>The integer test for a drained asset is the comparison of exact ratios: an asset of the flow
  table is drained iff it lost something, had something, and the lost fraction is at least the rounded
  threshold in ten-thousandths.\<close>

theorem drained_iff_ratio:
  assumes "f \<in> set (flows (drain_analysis x))"
  shows "drained f \<longleftrightarrow> 0 < preBalanceStroops f \<and> postBalanceStroops f < preBalanceStroops f
    \<and> of_int (math_round (dt_nearTotalOutflowRatio (di_thresholds x) * 10000)) / 10000
      \<le> (of_int (outflowStroops f) / of_int (preBalanceStroops f) :: rat)"
proof -
  obtain k where f: "f = flow_at x k" using assms by (auto simp: drain_analysis_def Let_def drain_flows_eq)
  define n where "n = math_round (dt_nearTotalOutflowRatio (di_thresholds x) * 10000)"
  have r: "of_int n / 10000 \<le> (of_int a / of_int p :: rat) \<longleftrightarrow> p * n \<le> a * 10000" if "0 < p" for a p :: int
  proof -
    have "of_int n / 10000 \<le> (of_int a / of_int p :: rat) \<longleftrightarrow> of_int n * of_int p \<le> (of_int a * 10000 :: rat)"
      using that by (simp add: field_simps)
    also have "\<dots> \<longleftrightarrow> (of_int (n * p) :: rat) \<le> of_int (a * 10000)" by simp
    also have "\<dots> \<longleftrightarrow> n * p \<le> a * 10000" by (rule of_int_le_iff)
    finally show ?thesis by (simp add: mult.commute)
  qed
  show ?thesis
    unfolding f n_def[symmetric] using r[of "pre_balance x k" "outflowStroops (flow_at x k)"]
    by (auto simp: flow_at_moves(3) n_def flow_at_moves(1) less_max_iff_disj)
qed

theorem drained_iff_ratio_witness:
  "drained (hd (flows (drain_analysis sample_drain))) \<longleftrightarrow>
     0 < preBalanceStroops (hd (flows (drain_analysis sample_drain)))
     \<and> postBalanceStroops (hd (flows (drain_analysis sample_drain))) < preBalanceStroops (hd (flows (drain_analysis sample_drain)))
     \<and> of_int (math_round (dt_nearTotalOutflowRatio (di_thresholds sample_drain) * 10000)) / 10000
      \<le> (of_int (outflowStroops (hd (flows (drain_analysis sample_drain))))
           / of_int (preBalanceStroops (hd (flows (drain_analysis sample_drain)))) :: rat)"
proof (rule drained_iff_ratio)
  have "''native'' \<in> set (flow_ids sample_drain)" by (rule pre_balance_ids) (simp add: sample_drain_facts)
  then have "flows (drain_analysis sample_drain) \<noteq> []"
    by (auto simp: drain_analysis_def Let_def drain_flows_eq)
  then show "hd (flows (drain_analysis sample_drain)) \<in> set (flows (drain_analysis sample_drain))" by simp
qed

text \<open>Value is conserved by the table: with both snapshots, total inflow minus total outflow is the
  change of the sum of the account's balances over everything it holds before or after.\<close>

theorem drain_totals_conserve:
  assumes "has_diff x"
  shows "totalInflowStroops (drain_analysis x) - totalOutflowStroops (drain_analysis x)
    = (\<Sum>k\<in>holdings x. post_balance x k) - (\<Sum>k\<in>holdings x. pre_balance x k)"
proof -
  have fs: "foldl (\<lambda>s f. s + g f) a fs = a + sum_list (map g fs)" for g :: "AssetFlow \<Rightarrow> int" and a fs
    by (induction fs arbitrary: a) simp_all
  have sum: "sum_list (map h (flow_ids x)) = (\<Sum>k\<in>holdings x. h k)" for h :: "string \<Rightarrow> int"
    using sum_list_distinct_conv_sum_set[of "flow_ids x" h] set_flow_ids(2)[OF assms]
    by (simp add: flow_ids_def distinct_flow_keys)
  have "inflowStroops (flow_at x k) - outflowStroops (flow_at x k) = post_balance x k - pre_balance x k" for k
    using assms by (simp add: flow_at_moves)
  then have "(\<Sum>k\<in>holdings x. inflowStroops (flow_at x k)) - (\<Sum>k\<in>holdings x. outflowStroops (flow_at x k))
      = (\<Sum>k\<in>holdings x. post_balance x k) - (\<Sum>k\<in>holdings x. pre_balance x k)"
    by (simp flip: sum_subtractf)
  then show ?thesis
    by (simp add: drain_analysis_def Let_def fs drain_flows_eq comp_def sum)
qed

theorem drain_totals_conserve_witness:
  "totalInflowStroops (drain_analysis sample_drain) - totalOutflowStroops (drain_analysis sample_drain)
    = (\<Sum>k\<in>holdings sample_drain. post_balance sample_drain k) - (\<Sum>k\<in>holdings sample_drain. pre_balance sample_drain k)"
  by (rule drain_totals_conserve) (rule sample_drain_facts)

end
