(* ===== verification/Footprint.thy ===== *)
theory Footprint
  imports Sim_Types
begin

text \<open>
  Footprint diffing, \<open>apps/api/src/services/simulation/footprint-diff.ts\<close>: the keys an envelope
  declares against the keys the host requires.
\<close>

definition keyId :: "FootprintKey \<Rightarrow> string" where
  "keyId k = fk_key k"

text \<open>The three complete lists of a possibly absent, possibly partial footprint.\<close>

record FootprintLists =
  ro :: "FootprintKey list"
  rw :: "FootprintKey list"
  ar :: "FootprintKey list"

definition normalizeFootprint :: "TransactionFootprint option \<Rightarrow> FootprintLists" where
  "normalizeFootprint fp =
     (case fp of
        None \<Rightarrow> \<lparr>ro = [], rw = [], ar = []\<rparr>
      | Some f \<Rightarrow> \<lparr>ro = nullish (readOnly_keys f) [], rw = nullish (readWrite_keys f) [],
                  ar = nullish (archived_keys f) []\<rparr>)"

fun index_add :: "(string, FootprintKey) jsmap \<Rightarrow> FootprintKey list \<Rightarrow> (string, FootprintKey) jsmap" where
  "index_add index [] = index"
| "index_add index (k # ks) =
     (if map_of index (keyId k) \<noteq> None then index_add index ks
      else index_add (AList.update (keyId k) k index) ks)"

definition index_lists :: "FootprintLists \<Rightarrow> (string, FootprintKey) jsmap" where
  "index_lists n = index_add (index_add (index_add [] (ro n)) (rw n)) (ar n)"

definition indexFootprint :: "TransactionFootprint option \<Rightarrow> (string, FootprintKey) jsmap" where
  "indexFootprint fp = index_lists (normalizeFootprint fp)"

definition classify :: "FootprintKey option \<Rightarrow> FootprintKey option \<Rightarrow> FootprintChange" where
  "classify declared required =
     (case declared of
        None \<Rightarrow> missing
      | Some d \<Rightarrow>
          (case required of
             None \<Rightarrow> unused
           | Some r \<Rightarrow> if fk_access d = fk_access r then unchanged else mode_changed))"

definition diff_entry ::
  "(string, FootprintKey) jsmap \<Rightarrow> (string, FootprintKey) jsmap \<Rightarrow> string \<Rightarrow> FootprintDiffEntry" where
  "diff_entry declaredIndex requiredIndex i =
     (let declaredKey = map_of declaredIndex i;
          requiredKey = map_of requiredIndex i;
          reference = (case requiredKey of Some r \<Rightarrow> r | None \<Rightarrow> the declaredKey) in
      \<lparr>fd_key = i, fd_entryType = fk_entryType reference,
       fd_contractId = (if truthy (fk_contractId reference) then fk_contractId reference else None),
       change = classify declaredKey requiredKey,
       declaredAccess = map_option fk_access declaredKey,
       requiredAccess = map_option fk_access requiredKey\<rparr>)"

definition bucket_contracts :: "FootprintKey list \<Rightarrow> string list" where
  "bucket_contracts ks = map (\<lambda>k. the_str (fk_contractId k)) (filter (\<lambda>k. truthy (fk_contractId k)) ks)"

definition contract_set :: "FootprintLists \<Rightarrow> string jsset" where
  "contract_set n = set_from [] (bucket_contracts (ro n) @ bucket_contracts (rw n) @ bucket_contracts (ar n))"

definition diffFootprints :: "TransactionFootprint option \<Rightarrow> TransactionFootprint option \<Rightarrow> FootprintDiff" where
  "diffFootprints declared required =
     (let declaredNorm = normalizeFootprint declared;
          requiredNorm = normalizeFootprint required;
          declaredIndex = index_lists declaredNorm;
          requiredIndex = index_lists requiredNorm;
          allIds = set_from [] (map fst declaredIndex @ map fst requiredIndex);
          sortedIds = sort allIds;
          es = map (diff_entry declaredIndex requiredIndex) sortedIds;
          changed = filter (\<lambda>e. change e \<noteq> unchanged) es in
      \<lparr>entries = es,
       summary =
         \<lparr>declaredReadOnly = length (ro declaredNorm), declaredReadWrite = length (rw declaredNorm),
          declaredArchived = length (ar declaredNorm), requiredReadOnly = length (ro requiredNorm),
          requiredReadWrite = length (rw requiredNorm), requiredArchived = length (ar requiredNorm),
          missingCount = length (filter (\<lambda>e. change e = missing) changed),
          unusedCount = length (filter (\<lambda>e. change e = unused) changed),
          modeChangedCount = length (filter (\<lambda>e. change e = mode_changed) changed),
          contractIdCount = length (contract_set declaredNorm)\<rparr>\<rparr>)"

definition isDeclaredWritable :: "TransactionFootprint option \<Rightarrow> string \<Rightarrow> bool" where
  "isDeclaredWritable fp k = list_ex (\<lambda>q. keyId q = k) (rw (normalizeFootprint fp))"

fun first_access :: "string \<Rightarrow> FootprintKey list list \<Rightarrow> FootprintAccess option" where
  "first_access k [] = None"
| "first_access k (bucket # rest) =
     (case find (\<lambda>q. keyId q = k) bucket of Some m \<Rightarrow> Some (fk_access m) | None \<Rightarrow> first_access k rest)"

definition declaredAccessFor :: "TransactionFootprint option \<Rightarrow> string \<Rightarrow> FootprintAccess option" where
  "declaredAccessFor fp k =
     (let n = normalizeFootprint fp in first_access k [rw n, ro n, ar n])"

definition footprintContractIds :: "TransactionFootprint option \<Rightarrow> string list" where
  "footprintContractIds fp = sort (contract_set (normalizeFootprint fp))"

definition isEmptyFootprint :: "TransactionFootprint option \<Rightarrow> bool" where
  "isEmptyFootprint fp =
     (let n = normalizeFootprint fp in length (ro n) = 0 \<and> length (rw n) = 0 \<and> length (ar n) = 0)"

section \<open>Specification vocabulary\<close>

definition all_keys :: "TransactionFootprint option \<Rightarrow> FootprintKey list" where
  "all_keys fp = (let n = normalizeFootprint fp in ro n @ rw n @ ar n)"

definition ids :: "TransactionFootprint option \<Rightarrow> string set" where
  "ids fp = keyId ` set (all_keys fp)"

section \<open>The index is the first declaration of every key\<close>

lemma index_add_append: "index_add index (xs @ ys) = index_add (index_add index xs) ys"
  by (induction xs arbitrary: index) auto

lemma indexFootprint_all: "indexFootprint fp = index_add [] (all_keys fp)"
  by (simp add: indexFootprint_def index_lists_def all_keys_def index_add_append Let_def)

lemma map_of_index_add:
  "map_of (index_add index ks) i =
     (case map_of index i of Some k \<Rightarrow> Some k | None \<Rightarrow> find (\<lambda>q. keyId q = i) ks)"
  by (induction index ks rule: index_add.induct) (auto split: option.splits)

lemma map_of_index: "map_of (indexFootprint fp) i = find (\<lambda>q. keyId q = i) (all_keys fp)"
  by (simp add: indexFootprint_all map_of_index_add)

lemma index_keys: "fst ` set (indexFootprint fp) = ids fp"
proof -
  have "i \<in> fst ` set (indexFootprint fp) \<longleftrightarrow> i \<in> ids fp" for i
    by (auto simp: dom_map_of_conv_image_fst[symmetric] map_of_index ids_def find_None_iff domIff)
  then show ?thesis by blast
qed

lemma index_mem: "map_of (indexFootprint fp) i = None \<longleftrightarrow> i \<notin> ids fp"
  by (simp add: index_keys[symmetric] map_of_eq_None_iff)

lemma finite_ids [simp]: "finite (ids fp)"
  by (simp add: ids_def)

lemma diff_entries:
  "entries (diffFootprints d r) =
     map (diff_entry (indexFootprint d) (indexFootprint r)) (sorted_list_of_set (ids d \<union> ids r))"
proof -
  have "sort (set_from [] (map fst (indexFootprint d) @ map fst (indexFootprint r)))
      = sorted_list_of_set (ids d \<union> ids r)"
    by (rule sorted_distinct_set_unique) (simp_all add: index_keys)
  then show ?thesis by (simp add: diffFootprints_def Let_def indexFootprint_def)
qed

lemma diff_entry_simps [simp]:
  "fd_key (diff_entry d r i) = i"
  "change (diff_entry d r i) = classify (map_of d i) (map_of r i)"
  "declaredAccess (diff_entry d r i) = map_option fk_access (map_of d i)"
  "requiredAccess (diff_entry d r i) = map_option fk_access (map_of r i)"
  by (simp_all add: diff_entry_def Let_def)

lemma classify_iff:
  "classify d r = missing \<longleftrightarrow> d = None"
  "classify d r = unused \<longleftrightarrow> d \<noteq> None \<and> r = None"
  "classify d r = mode_changed \<longleftrightarrow> (\<exists>x y. d = Some x \<and> r = Some y \<and> fk_access x \<noteq> fk_access y)"
  "classify d r = unchanged \<longleftrightarrow> (\<exists>x y. d = Some x \<and> r = Some y \<and> fk_access x = fk_access y)"
  by (auto simp: classify_def split: option.splits)

lemma count_entries:
  assumes "\<And>i. P (diff_entry (indexFootprint d) (indexFootprint r) i) \<longleftrightarrow> i \<in> S"
  shows "length (filter P (entries (diffFootprints d r))) = card ((ids d \<union> ids r) \<inter> S)"
proof -
  let ?l = "sorted_list_of_set (ids d \<union> ids r)"
  have "length (filter P (entries (diffFootprints d r))) = length (filter (\<lambda>i. i \<in> S) ?l)"
    by (simp add: diff_entries filter_map o_def assms)
  also have "\<dots> = card (set (filter (\<lambda>i. i \<in> S) ?l))"
    by (rule distinct_card[symmetric]) simp
  also have "set (filter (\<lambda>i. i \<in> S) ?l) = (ids d \<union> ids r) \<inter> S" by auto
  finally show ?thesis .
qed

section \<open>Properties\<close>

text \<open>The diff is complete and correctly classified: it has exactly one entry per key that either
  side names, in ascending order; a key is reported missing iff it is required and not declared, unused
  iff declared and not required, and changed in mode iff both sides name it first with different
  accesses.\<close>

theorem footprint_diff_classifies:
  "map fd_key (entries (diffFootprints d r)) = sorted_list_of_set (ids d \<union> ids r)
   \<and> (\<forall>i. (\<exists>e. e \<in> set (entries (diffFootprints d r)) \<and> fd_key e = i \<and> change e = missing) = (i \<in> ids r - ids d))
   \<and> (\<forall>i. (\<exists>e. e \<in> set (entries (diffFootprints d r)) \<and> fd_key e = i \<and> change e = unused) = (i \<in> ids d - ids r))
   \<and> (\<forall>i. (\<exists>e. e \<in> set (entries (diffFootprints d r)) \<and> fd_key e = i \<and> change e = mode_changed) =
        (\<exists>x y. find (\<lambda>q. keyId q = i) (all_keys d) = Some x \<and> find (\<lambda>q. keyId q = i) (all_keys r) = Some y
           \<and> fk_access x \<noteq> fk_access y))"
proof -
  have f: "find (\<lambda>q. keyId q = i) (all_keys fp) = Some k \<Longrightarrow> i \<in> ids fp" for i fp k
    using index_mem[of fp i] by (auto simp: map_of_index)
  have k: "map fd_key (entries (diffFootprints d r)) = sorted_list_of_set (ids d \<union> ids r)"
    by (simp add: diff_entries comp_def)
  show ?thesis
    by (intro conjI allI k)
      (auto simp: diff_entries classify_iff index_mem map_of_index[symmetric] dest: f[folded map_of_index])
qed

text \<open>The summary counts what it says: the missing, unused and mode-changed counters are the sizes
  of the three sets of keys, duplicates counted once, and with the unchanged keys they partition the
  keys of both sides.\<close>

theorem footprint_summary_counts:
  "let s = summary (diffFootprints d r) in
   missingCount s = card (ids r - ids d) \<and> unusedCount s = card (ids d - ids r)
   \<and> missingCount s + unusedCount s + modeChangedCount s
       + length (filter (\<lambda>e. change e = unchanged) (entries (diffFootprints d r))) = card (ids d \<union> ids r)"
proof -
  let ?D = "indexFootprint d" and ?R = "indexFootprint r"
  let ?es = "entries (diffFootprints d r)"
  have s: "missingCount (summary (diffFootprints d r)) = length (filter (\<lambda>e. change e = missing) ?es)"
    "unusedCount (summary (diffFootprints d r)) = length (filter (\<lambda>e. change e = unused) ?es)"
    "modeChangedCount (summary (diffFootprints d r)) = length (filter (\<lambda>e. change e = mode_changed) ?es)"
    by (auto simp: diffFootprints_def Let_def intro!: arg_cong[where f = length] filter_cong)
  have "length (filter (\<lambda>e. change e = missing) ?es) = card ((ids d \<union> ids r) \<inter> - ids d)"
    by (rule count_entries) (simp add: classify_iff index_mem)
  moreover have "length (filter (\<lambda>e. change e = unused) ?es) = card ((ids d \<union> ids r) \<inter> (ids d - ids r))"
    by (rule count_entries) (auto simp: classify_iff index_mem)
  moreover have "length ?es = card (ids d \<union> ids r)"
    by (simp add: diff_entries)
  moreover have part: "length (filter (\<lambda>e. change e = missing) es) + length (filter (\<lambda>e. change e = unused) es)
      + length (filter (\<lambda>e. change e = mode_changed) es) + length (filter (\<lambda>e. change e = unchanged) es)
      = length es" for es
  proof (induction es)
    case (Cons e es)
    then show ?case by (cases "change e") simp_all
  qed simp
  moreover have "(ids d \<union> ids r) \<inter> - ids d = ids r - ids d" "(ids d \<union> ids r) \<inter> (ids d - ids r) = ids d - ids r"
    by auto
  ultimately show ?thesis using part[of ?es] by (simp add: Let_def s)
qed

end
