(* ===== verification/Envelope.thy ===== *)
theory Envelope
  imports Amounts Footprint
begin

text \<open>
  Footprint-threat and envelope-integrity rules,
  \<open>apps/api/src/services/simulation/envelope-integrity.ts\<close>, one definition per rule.
\<close>

section \<open>Footprint threats\<close>

record FootprintThreatThresholds =
  ft_maxFootprintReadWriteKeys :: int
  ft_footprintProbeContractThreshold :: int

record footprint_input =
  fi_diff :: FootprintDiff
  fi_declared :: "TransactionFootprint option"
  fi_hasInvocation :: bool
  fi_thresholds :: FootprintThreatThresholds

definition undeclared_rule :: "FootprintDiffEntry list \<Rightarrow> RiskIndicator list" where
  "undeclared_rule es =
     (let miss = filter (\<lambda>e. change e = missing) es in
      if length miss > 0 then
        (let writeDowngrades = filter (\<lambda>e. requiredAccess e = Some readWrite) miss in
         [indicator ''UNDECLARED_FOOTPRINT_ACCESS'' cat_footprint
            (if length writeDowngrades > 0 then critical else medium)
            (if length writeDowngrades > 0 then 35 else 14)])
      else [])"

definition write_downgrade_rule :: "FootprintDiffEntry list \<Rightarrow> RiskIndicator list" where
  "write_downgrade_rule es =
     (let modeDowngrades = filter (\<lambda>e. change e = mode_changed \<and> declaredAccess e = Some readOnly
            \<and> requiredAccess e = Some readWrite) es in
      if length modeDowngrades > 0 then [indicator ''FOOTPRINT_WRITE_DOWNGRADE'' cat_footprint critical 34] else [])"

definition unused_rule :: "FootprintDiffEntry list \<Rightarrow> RiskIndicator list" where
  "unused_rule es =
     (if length (filter (\<lambda>e. change e = unused) es) > 0
      then [indicator ''UNUSED_FOOTPRINT_ENTRIES'' cat_footprint low 5] else [])"

definition over_permission_rule :: "FootprintDiffEntry list \<Rightarrow> RiskIndicator list" where
  "over_permission_rule es =
     (let overPermissive = filter (\<lambda>e. change e = mode_changed \<and> declaredAccess e = Some readWrite
            \<and> requiredAccess e = Some readOnly) es in
      if length overPermissive > 0 then [indicator ''FOOTPRINT_OVER_PERMISSION'' cat_footprint medium 10] else [])"

definition growth_rule :: "FootprintThreatThresholds \<Rightarrow> FootprintSummary \<Rightarrow> RiskIndicator list" where
  "growth_rule th s =
     (if int (declaredReadWrite s) > ft_maxFootprintReadWriteKeys th
      then [indicator ''UNBOUNDED_FOOTPRINT_GROWTH'' cat_footprint high 26] else [])"

definition probing_rule :: "FootprintThreatThresholds \<Rightarrow> TransactionFootprint option \<Rightarrow> RiskIndicator list" where
  "probing_rule th declared =
     (if int (length (footprintContractIds declared)) \<ge> ft_footprintProbeContractThreshold th
      then [indicator ''FOOTPRINT_KEY_PROBING'' cat_footprint high 22] else [])"

definition empty_footprint_rule :: "bool \<Rightarrow> TransactionFootprint option \<Rightarrow> RiskIndicator list" where
  "empty_footprint_rule hasInvocation declared =
     (if hasInvocation \<and> declared \<noteq> None \<and> isEmptyFootprint declared
      then [indicator ''EMPTY_FOOTPRINT_WITH_INVOCATION'' cat_footprint high 24] else [])"

definition archived_rule :: "FootprintDiffEntry list \<Rightarrow> RiskIndicator list" where
  "archived_rule es =
     (let archivedKeys = filter (\<lambda>e. declaredAccess e = Some archived \<or> requiredAccess e = Some archived) es in
      if length archivedKeys > 0 then
        (let unexpected = filter (\<lambda>e. change e = unused) archivedKeys in
         [indicator ''ARCHIVED_KEY_ACCESS'' cat_footprint
            (if length unexpected > 0 then high else medium) (if length unexpected > 0 then 20 else 12)])
      else [])"

definition analyzeFootprintThreats :: "footprint_input \<Rightarrow> RiskIndicator list" where
  "analyzeFootprintThreats x =
     (let es = entries (fi_diff x); s = summary (fi_diff x); th = fi_thresholds x in
      undeclared_rule es @ write_downgrade_rule es @ unused_rule es @ over_permission_rule es
      @ growth_rule th s @ probing_rule th (fi_declared x)
      @ empty_footprint_rule (fi_hasInvocation x) (fi_declared x) @ archived_rule es)"

section \<open>Envelope integrity\<close>

record EnvelopeIntegrityInput =
  ei_resources :: "EnvelopeResources option"
  ei_outcome :: "SimulatedOutcome option"
  ei_simulated :: bool

definition reverted_rule :: "SimulatedOutcome option \<Rightarrow> RiskIndicator list" where
  "reverted_rule o' =
     (case o' of
        Some oc \<Rightarrow> if success oc = Some False then [indicator ''SIMULATION_REVERTED'' cat_envelope high 20] else []
      | None \<Rightarrow> [])"

definition host_errors_rule :: "SimulatedOutcome option \<Rightarrow> RiskIndicator list" where
  "host_errors_rule o' =
     (case o' of
        Some oc \<Rightarrow>
          (case errors oc of
             Some errs \<Rightarrow>
               if length errs > 0 \<and> success oc \<noteq> Some False then
                 (let hostErrors = filter (\<lambda>e. e = host_error \<or> e = panic) errs in
                  if length hostErrors > 0 then [indicator ''SIMULATION_HOST_ERRORS'' cat_envelope medium 12] else [])
               else []
           | None \<Rightarrow> [])
      | None \<Rightarrow> [])"

definition not_simulated_rule :: "bool \<Rightarrow> RiskIndicator list" where
  "not_simulated_rule sim =
     (if \<not> sim then [indicator ''NO_SIMULATION_RESULT'' cat_envelope medium 10] else [])"

definition time_bounds_rule :: "EnvelopeResources option \<Rightarrow> RiskIndicator list" where
  "time_bounds_rule res =
     (case res of
        Some r \<Rightarrow> if hasTimeBounds r = Some False then [indicator ''MISSING_TIME_BOUNDS'' cat_envelope medium 12] else []
      | None \<Rightarrow> [])"

definition resource_limits_rule :: "EnvelopeResources option \<Rightarrow> RiskIndicator list" where
  "resource_limits_rule res =
     (case res of
        Some r \<Rightarrow> if ledgerBounds r = None then [indicator ''UNBOUNDED_RESOURCE_LIMITS'' cat_envelope low 5] else []
      | None \<Rightarrow> [])"

definition zero_limits_rule :: "EnvelopeResources option \<Rightarrow> RiskIndicator list" where
  "zero_limits_rule res =
     (case res of
        Some r \<Rightarrow>
          (case ledgerBounds r of
             Some (mn, mx) \<Rightarrow> if mx = 0 then [indicator ''ZERO_RESOURCE_LIMITS'' cat_envelope medium 12] else []
           | None \<Rightarrow> [])
      | None \<Rightarrow> [])"

definition zero_fee_rule :: "EnvelopeResources option \<Rightarrow> RiskIndicator list" where
  "zero_fee_rule res =
     (case res of
        Some r \<Rightarrow>
          (case feeStroops r of
             Some fee \<Rightarrow>
               if tryParseAmountToStroops (Some (AmountString fee)) = Some 0
               then [indicator ''ZERO_FEE_SOROBAN_ENVELOPE'' cat_envelope low 5] else []
           | None \<Rightarrow> [])
      | None \<Rightarrow> [])"

definition analyzeEnvelopeIntegrity :: "EnvelopeIntegrityInput \<Rightarrow> RiskIndicator list" where
  "analyzeEnvelopeIntegrity x =
     reverted_rule (ei_outcome x) @ host_errors_rule (ei_outcome x) @ not_simulated_rule (ei_simulated x)
     @ time_bounds_rule (ei_resources x) @ resource_limits_rule (ei_resources x)
     @ zero_limits_rule (ei_resources x) @ zero_fee_rule (ei_resources x)"

section \<open>Specification vocabulary\<close>

definition footprint_codes :: "string list" where
  "footprint_codes = [''UNDECLARED_FOOTPRINT_ACCESS'', ''FOOTPRINT_WRITE_DOWNGRADE'', ''UNUSED_FOOTPRINT_ENTRIES'',
     ''FOOTPRINT_OVER_PERMISSION'', ''UNBOUNDED_FOOTPRINT_GROWTH'', ''FOOTPRINT_KEY_PROBING'',
     ''EMPTY_FOOTPRINT_WITH_INVOCATION'', ''ARCHIVED_KEY_ACCESS'']"

definition envelope_codes :: "string list" where
  "envelope_codes = [''SIMULATION_REVERTED'', ''SIMULATION_HOST_ERRORS'', ''NO_SIMULATION_RESULT'',
     ''MISSING_TIME_BOUNDS'', ''UNBOUNDED_RESOURCE_LIMITS'', ''ZERO_RESOURCE_LIMITS'', ''ZERO_FEE_SOROBAN_ENVELOPE'']"

section \<open>The detector contracts\<close>

lemmas footprint_rules = undeclared_rule_def write_downgrade_rule_def unused_rule_def over_permission_rule_def
  growth_rule_def probing_rule_def empty_footprint_rule_def archived_rule_def

lemmas envelope_rules = reverted_rule_def host_errors_rule_def not_simulated_rule_def time_bounds_rule_def
  resource_limits_rule_def zero_limits_rule_def zero_fee_rule_def

lemma footprint_indicator_shape:
  assumes "i \<in> set (analyzeFootprintThreats x)"
  shows "category i = cat_footprint \<and> code i \<in> set footprint_codes \<and> (\<exists>w. weight i = Some w \<and> 0 < w \<and> w \<le> 60)"
  using assms unfolding analyzeFootprintThreats_def Let_def set_append Un_iff
  by (elim disjE) (auto simp: footprint_rules Let_def footprint_codes_def split: if_splits)

interpretation footprint: risk_detector analyzeFootprintThreats cat_footprint footprint_codes
  by unfold_locales (simp_all add: footprint_indicator_shape)

lemma envelope_indicator_shape:
  assumes "i \<in> set (analyzeEnvelopeIntegrity x)"
  shows "category i = cat_envelope \<and> code i \<in> set envelope_codes \<and> (\<exists>w. weight i = Some w \<and> 0 < w \<and> w \<le> 60)"
  using assms unfolding analyzeEnvelopeIntegrity_def set_append Un_iff
  by (elim disjE) (auto simp: envelope_rules Let_def envelope_codes_def split: if_splits option.splits)

interpretation envelope: risk_detector analyzeEnvelopeIntegrity cat_envelope envelope_codes
  by unfold_locales (simp_all add: envelope_indicator_shape)

lemma undeclared_only:
  "i \<in> set (analyzeFootprintThreats x) \<Longrightarrow> code i = ''UNDECLARED_FOOTPRINT_ACCESS'' \<Longrightarrow>
     i \<in> set (undeclared_rule (entries (fi_diff x)))"
  unfolding analyzeFootprintThreats_def Let_def set_append Un_iff
  by (elim disjE) (auto simp: footprint_rules Let_def split: if_splits)

lemma undeclared_in:
  "i \<in> set (undeclared_rule (entries (fi_diff x))) \<Longrightarrow>
     i \<in> set (analyzeFootprintThreats x) \<and> code i = ''UNDECLARED_FOOTPRINT_ACCESS''"
proof -
  assume i: "i \<in> set (undeclared_rule (entries (fi_diff x)))"
  then have "code i = ''UNDECLARED_FOOTPRINT_ACCESS''"
    by (auto simp: undeclared_rule_def Let_def split: if_splits)
  then show ?thesis using i by (simp add: analyzeFootprintThreats_def Let_def)
qed

lemma downgrade_only:
  "i \<in> set (analyzeFootprintThreats x) \<Longrightarrow> code i = ''FOOTPRINT_WRITE_DOWNGRADE'' \<Longrightarrow>
     i \<in> set (write_downgrade_rule (entries (fi_diff x)))"
  unfolding analyzeFootprintThreats_def Let_def set_append Un_iff
  by (elim disjE) (auto simp: footprint_rules Let_def split: if_splits)

section \<open>Properties\<close>

text \<open>On a diff computed from two footprints, an under-declared footprint is reported iff some
  required key is not declared, and as critical iff one of these keys is required for writing.\<close>

theorem undeclared_access_iff:
  assumes "fi_diff x = diffFootprints d r"
  shows "(\<exists>i. i \<in> set (analyzeFootprintThreats x) \<and> code i = ''UNDECLARED_FOOTPRINT_ACCESS'') = (ids r - ids d \<noteq> {})
   \<and> (\<exists>i. i \<in> set (analyzeFootprintThreats x) \<and> code i = ''UNDECLARED_FOOTPRINT_ACCESS'' \<and> severity i = critical) =
      (\<exists>k q. k \<in> ids r - ids d \<and> find (\<lambda>p. keyId p = k) (all_keys r) = Some q \<and> fk_access q = readWrite)"
proof -
  let ?es = "entries (diffFootprints d r)"
  let ?m = "filter (\<lambda>e. change e = missing) ?es"
  have m: "(\<exists>e. e \<in> set ?m \<and> P e) \<longleftrightarrow>
      (\<exists>k. k \<in> ids r - ids d \<and> P (diff_entry (indexFootprint d) (indexFootprint r) k))" for P
    by (auto simp: diff_entries classify_iff index_mem)
  have u: "(\<exists>i. i \<in> set (analyzeFootprintThreats x) \<and> code i = ''UNDECLARED_FOOTPRINT_ACCESS'' \<and> Q i) \<longleftrightarrow>
      (\<exists>i. i \<in> set (undeclared_rule ?es) \<and> Q i)" for Q
    using undeclared_only[of _ x] undeclared_in[of _ x] assms by metis
  have ne: "?m \<noteq> [] \<longleftrightarrow> ids r - ids d \<noteq> {}" unfolding not_Nil_mem using m[of "\<lambda>_. True"] by blast
  have w: "filter (\<lambda>e. requiredAccess e = Some readWrite) ?m \<noteq> [] \<longleftrightarrow>
      (\<exists>k q. k \<in> ids r - ids d \<and> find (\<lambda>p. keyId p = k) (all_keys r) = Some q \<and> fk_access q = readWrite)"
  proof -
    have "filter (\<lambda>e. requiredAccess e = Some readWrite) ?m \<noteq> [] \<longleftrightarrow> (\<exists>e. e \<in> set ?m \<and> requiredAccess e = Some readWrite)"
      unfolding not_Nil_mem by auto
    then show ?thesis unfolding m by (auto simp: map_of_index)
  qed
  have "(\<exists>i. i \<in> set (undeclared_rule ?es)) \<longleftrightarrow> ?m \<noteq> []"
    "(\<exists>i. i \<in> set (undeclared_rule ?es) \<and> severity i = critical) \<longleftrightarrow>
       filter (\<lambda>e. requiredAccess e = Some readWrite) ?m \<noteq> []"
    by (cases ?m; simp add: undeclared_rule_def Let_def)+
  then show ?thesis using u[of "\<lambda>_. True"] u[of "\<lambda>i. severity i = critical"] ne w by simp
qed

definition sample_required :: TransactionFootprint where
  "sample_required =
     \<lparr>readOnly_keys = None,
      readWrite_keys = Some [\<lparr>fk_key = ''account:GA'', fk_entryType = ''account'', fk_contractId = None, fk_access = readWrite\<rparr>],
      archived_keys = None\<rparr>"

theorem undeclared_access_iff_witness:
  "\<exists>i. i \<in> set (analyzeFootprintThreats
        \<lparr>fi_diff = diffFootprints None (Some sample_required), fi_declared = None, fi_hasInvocation = False,
         fi_thresholds = \<lparr>ft_maxFootprintReadWriteKeys = 64, ft_footprintProbeContractThreshold = 5\<rparr>\<rparr>)
     \<and> code i = ''UNDECLARED_FOOTPRINT_ACCESS'' \<and> severity i = critical"
  by (subst undeclared_access_iff[THEN conjunct2, of _ None "Some sample_required"])
    (auto simp: ids_def all_keys_def normalizeFootprint_def sample_required_def keyId_def)

end
