(* ===== verification/ContractTrust.thy ===== *)
theory ContractTrust
  imports Sim_Types
begin

text \<open>
  Unverified-contract detection, \<open>apps/api/src/services/simulation/contract-trust.ts\<close>. The loop over
  the operations is a fold on an explicit state (the map of interactions, the privileged calls, the
  indicators raised so far); the later rules are one definition each. \<open>localeCompare\<close> depends on the
  host's collation, so the order of contract ids is the parameter \<open>lc\<close>.
\<close>

section \<open>Auth coverage and privileged functions\<close>

definition PRIVILEGED_FUNCTION_NAMES :: "string list" where
  "PRIVILEGED_FUNCTION_NAMES =
     [''set_admin'', ''transfer_admin'', ''remove_contract'', ''upgrade_contract'', ''upgrade'', ''mint'',
      ''burn'', ''freeze'', ''unfreeze'', ''set_trustline_flags'', ''set_panic'', ''set_events'', ''deploy'']"

definition DEPLOY_KINDS :: "OperationKind list" where
  "DEPLOY_KINDS = [createContract, uploadWasm]"

definition isPrivilegedFunction :: "string option \<Rightarrow> bool" where
  "isPrivilegedFunction fn =
     (if \<not> truthy fn then False
      else (let normalized = toLowerCase (the_str fn) in
            list_ex (\<lambda>name. str_includes normalized name) PRIVILEGED_FUNCTION_NAMES))"

definition indexRecords :: "(string, ContractTrustRecord) jsmap option \<Rightarrow> (string, ContractTrustRecord) jsmap" where
  "indexRecords source = nullish source []"

definition toSet :: "string list option \<Rightarrow> string jsset" where
  "toSet source = (case source of None \<Rightarrow> [] | Some xs \<Rightarrow> set_from [] xs)"

definition auth_key :: "string \<Rightarrow> string option \<Rightarrow> string" where
  "auth_key cid fn = cid @ ''::'' @ nullish fn ''*''"

definition entry_keys :: "SimulatedAuthEntry \<Rightarrow> string list" where
  "entry_keys e =
     (if truthy (auth_contractId e) then [auth_key (the_str (auth_contractId e)) (auth_function e)] else [])
     @ [nullish (auth_contractId e) ''*'' @ ''::*'']"

definition authKeys :: "SimulatedAuthEntry list option \<Rightarrow> string jsset" where
  "authKeys es = set_from [] (concat (map entry_keys (nullish es [])))"

definition hasAuthFor :: "string jsset \<Rightarrow> string \<Rightarrow> string option \<Rightarrow> bool" where
  "hasAuthFor keys cid fn \<longleftrightarrow> auth_key cid fn \<in> set keys \<or> (cid @ ''::*'') \<in> set keys"

section \<open>The trust context\<close>

record contract_input =
  kx_source :: string
  kx_operations :: "SimulatedOperation list"
  kx_contracts :: "ContractStateSnapshot list option"
  kx_registry :: "ContractTrustRegistry option"
  kx_auth :: "SimulatedAuthEntry list option"
  kx_maxInvocations :: int

definition records :: "contract_input \<Rightarrow> (string, ContractTrustRecord) jsmap" where
  "records x = (case kx_registry x of None \<Rightarrow> [] | Some r \<Rightarrow> indexRecords (byContractId r))"

definition allow :: "contract_input \<Rightarrow> string jsset" where
  "allow x = (case kx_registry x of None \<Rightarrow> [] | Some r \<Rightarrow> toSet (allowlist r))"

definition stateById :: "contract_input \<Rightarrow> (string, ContractStateSnapshot) jsmap" where
  "stateById x = foldl (\<lambda>m s. AList.update (cs_contractId s) s m) [] (nullish (kx_contracts x) [])"

definition deployed_map :: "contract_input \<Rightarrow> (string, string) jsmap" where
  "deployed_map x =
     foldl (\<lambda>m op. if op_kind op \<in> set DEPLOY_KINDS \<and> truthy (op_contractId op)
                   then AList.update (the_str (op_contractId op)) (nullish (op_source op) (kx_source x)) m else m)
       [] (kx_operations x)"

definition hash_mismatch :: "contract_input \<Rightarrow> string \<Rightarrow> bool" where
  "hash_mismatch x cid =
     (let recordedHash = map_option toLowerCase (Option.bind (map_of (records x) cid) ct_wasmHash);
          observedHash = map_option toLowerCase (Option.bind (map_of (stateById x) cid) cs_wasmHash) in
      truthy recordedHash \<and> truthy observedHash \<and> recordedHash \<noteq> observedHash)"

definition record_verified :: "contract_input \<Rightarrow> string \<Rightarrow> bool" where
  "record_verified x cid \<longleftrightarrow> Option.bind (map_of (records x) cid) ct_verified = Some True"

definition new_interaction :: "contract_input \<Rightarrow> string \<Rightarrow> ContractInteraction" where
  "new_interaction x cid =
     (let allowlisted = cid \<in> set (allow x); hashMismatch = hash_mismatch x cid in
      \<lparr>ci_contractId = cid, ci_functions = [], invocationCount = 0,
       deployedInEnvelope = (map_of (deployed_map x) cid \<noteq> None), missingAuth = False,
       ci_verified = (allowlisted \<or> (record_verified x cid \<and> \<not> hashMismatch)),
       codeHashMismatch = hashMismatch,
       known = (allowlisted \<or> map_of (records x) cid \<noteq> None)\<rparr>)"

section \<open>The loop over the operations\<close>

record contract_loop =
  by_contract :: "(string, ContractInteraction) jsmap"
  privileged :: "SimulatedOperation list"
  raised :: "RiskIndicator list"

definition touch :: "contract_input \<Rightarrow> ContractInteraction \<Rightarrow> string option \<Rightarrow> ContractInteraction" where
  "touch x it fn =
     it\<lparr>invocationCount := invocationCount it + 1,
        ci_functions := (if truthy fn \<and> the_str fn \<notin> set (ci_functions it)
                         then ci_functions it @ [the_str fn] else ci_functions it),
        missingAuth := (missingAuth it \<or> \<not> hasAuthFor (authKeys (kx_auth x)) (ci_contractId it) fn)\<rparr>"

definition privileged_rule :: "contract_input \<Rightarrow> string \<Rightarrow> string option \<Rightarrow> RiskIndicator list" where
  "privileged_rule x cid fn =
     (if isPrivilegedFunction fn then
        (if \<not> hasAuthFor (authKeys (kx_auth x)) cid fn
         then [indicator ''PRIVILEGED_FUNCTION_WITHOUT_AUTH'' cat_contract critical 42]
         else [indicator ''PRIVILEGED_CONTRACT_FUNCTION'' cat_contract high 24])
      else [])"

definition is_invocation :: "SimulatedOperation \<Rightarrow> bool" where
  "is_invocation op \<longleftrightarrow> \<not> (op_kind op \<noteq> invokeContract \<or> \<not> truthy (op_contractId op))"

definition contract_step :: "contract_input \<Rightarrow> contract_loop \<Rightarrow> SimulatedOperation \<Rightarrow> contract_loop" where
  "contract_step x s op =
     (if \<not> is_invocation op then s
      else
        (let cid = the_str (op_contractId op); fn = op_function op;
             it = (case map_of (by_contract s) cid of Some i \<Rightarrow> i | None \<Rightarrow> new_interaction x cid) in
         \<lparr>by_contract = AList.update cid (touch x it fn) (by_contract s),
          privileged = (if isPrivilegedFunction fn then privileged s @ [op] else privileged s),
          raised = raised s @ privileged_rule x cid fn\<rparr>))"

definition contract_run :: "contract_input \<Rightarrow> contract_loop" where
  "contract_run x = foldl (contract_step x) \<lparr>by_contract = [], privileged = [], raised = []\<rparr> (kx_operations x)"

section \<open>Rules over the interactions\<close>

definition sorted_interactions ::
  "(string \<Rightarrow> string \<Rightarrow> int) \<Rightarrow> (string, ContractInteraction) jsmap \<Rightarrow> ContractInteraction list" where
  "sorted_interactions lc m = js_sort (\<lambda>a b. lc (ci_contractId a) (ci_contractId b)) (map snd m)"

definition unverified_rule :: "ContractInteraction \<Rightarrow> RiskIndicator list" where
  "unverified_rule it =
     (if \<not> ci_verified it then [indicator ''UNVERIFIED_CONTRACT_INVOCATION'' cat_contract high 24] else [])"

definition mismatch_rule :: "ContractInteraction \<Rightarrow> RiskIndicator list" where
  "mismatch_rule it =
     (if codeHashMismatch it then [indicator ''CONTRACT_CODE_HASH_MISMATCH'' cat_contract critical 38] else [])"

definition not_deployed_rule :: "contract_input \<Rightarrow> ContractInteraction \<Rightarrow> RiskIndicator list" where
  "not_deployed_rule x it =
     (if Option.bind (map_of (stateById x) (ci_contractId it)) deployed = Some False
      then [indicator ''CONTRACT_NOT_DEPLOYED'' cat_contract high 20] else [])"

definition archived_contract_rule :: "contract_input \<Rightarrow> ContractInteraction \<Rightarrow> RiskIndicator list" where
  "archived_contract_rule x it =
     (if Option.bind (map_of (stateById x) (ci_contractId it)) codeArchived = Some True
      then [indicator ''INVOCATION_OF_ARCHIVED_CONTRACT'' cat_contract medium 12] else [])"

definition interaction_rules :: "contract_input \<Rightarrow> ContractInteraction \<Rightarrow> RiskIndicator list" where
  "interaction_rules x it =
     unverified_rule it @ mismatch_rule it @ not_deployed_rule x it @ archived_contract_rule x it"

definition unknown_deployer :: "contract_input \<Rightarrow> ContractInteraction \<Rightarrow> bool" where
  "unknown_deployer x it =
     (let recDeployer = Option.bind (map_of (records x) (ci_contractId it)) ct_deployer;
          deployer = (case recDeployer of Some d \<Rightarrow> Some d
                      | None \<Rightarrow> if deployedInEnvelope it then Some (kx_source x) else None) in
      \<not> truthy recDeployer \<and> ci_contractId it \<notin> set (allow x) \<and> deployer = None)"

definition deploy_invoke_rule ::
  "contract_input \<Rightarrow> (string, ContractInteraction) jsmap \<Rightarrow> string \<Rightarrow> RiskIndicator list" where
  "deploy_invoke_rule x m cid =
     (if map_of m cid = None then []
      else
        (let trusted = (cid \<in> set (allow x) \<or> record_verified x cid) in
         [indicator ''NEWLY_DEPLOYED_CONTRACT_INVOKED'' cat_contract
            (if trusted then medium else critical) (if trusted then 12 else 36)]
         @ (if cid \<notin> set (allow x) \<and> \<not> record_verified x cid
            then [indicator ''UNVERIFIED_SELF_DEPLOYED_CONTRACT'' cat_contract critical 30] else [])))"

definition invocation_fan_out_rule :: "contract_input \<Rightarrow> ContractInteraction \<Rightarrow> RiskIndicator list" where
  "invocation_fan_out_rule x it =
     (if int (invocationCount it) < kx_maxInvocations x then []
      else [indicator ''INVOCATION_FAN_OUT'' cat_contract medium 14])"

definition contract_analysis ::
  "(string \<Rightarrow> string \<Rightarrow> int) \<Rightarrow> contract_input \<Rightarrow> ContractInteractionAnalysis" where
  "contract_analysis lc x =
     (let s = contract_run x; its = sorted_interactions lc (by_contract s);
          pick = (\<lambda>P. sort (set_from [] (map ci_contractId (filter P its)))) in
      \<lparr>interactions = its, privilegedInvocations = privileged s,
       unknownDeployers = pick (\<lambda>it. \<not> ci_verified it \<and> unknown_deployer x it),
       codeHashMismatches = pick codeHashMismatch,
       unverifiableContracts = pick (\<lambda>it. \<not> ci_verified it)\<rparr>)"

definition contract_indicators :: "(string \<Rightarrow> string \<Rightarrow> int) \<Rightarrow> contract_input \<Rightarrow> RiskIndicator list" where
  "contract_indicators lc x =
     (let s = contract_run x; m = by_contract s in
      raised s
      @ concat (map (interaction_rules x) (sorted_interactions lc m))
      @ concat (map (\<lambda>(cid, deployer). deploy_invoke_rule x m cid) (deployed_map x))
      @ concat (map (invocation_fan_out_rule x) (map snd m)))"

definition analyzeContractInteractions ::
  "(string \<Rightarrow> string \<Rightarrow> int) \<Rightarrow> contract_input \<Rightarrow> ContractInteractionAnalysis \<times> RiskIndicator list" where
  "analyzeContractInteractions lc x = (contract_analysis lc x, contract_indicators lc x)"

definition hasContractInteractions :: "ContractInteractionAnalysis \<Rightarrow> bool" where
  "hasContractInteractions a \<longleftrightarrow> length (interactions a) > 0"

definition hasUnknownDeployer :: "ContractInteractionAnalysis \<Rightarrow> bool" where
  "hasUnknownDeployer a \<longleftrightarrow> length (unknownDeployers a) > 0"

section \<open>Specification vocabulary\<close>

definition invoked :: "contract_input \<Rightarrow> string set" where
  "invoked x = (\<lambda>op. the_str (op_contractId op)) ` {op \<in> set (kx_operations x). is_invocation op}"

definition invocations_of :: "string \<Rightarrow> SimulatedOperation list \<Rightarrow> SimulatedOperation list" where
  "invocations_of cid ops = filter (\<lambda>op. is_invocation op \<and> the_str (op_contractId op) = cid) ops"

definition trusted_contract :: "contract_input \<Rightarrow> string \<Rightarrow> bool" where
  "trusted_contract x cid \<longleftrightarrow> cid \<in> set (allow x) \<or> (record_verified x cid \<and> \<not> hash_mismatch x cid)"

definition contract_codes :: "string list" where
  "contract_codes = [''PRIVILEGED_FUNCTION_WITHOUT_AUTH'', ''PRIVILEGED_CONTRACT_FUNCTION'',
     ''UNVERIFIED_CONTRACT_INVOCATION'', ''CONTRACT_CODE_HASH_MISMATCH'', ''CONTRACT_NOT_DEPLOYED'',
     ''INVOCATION_OF_ARCHIVED_CONTRACT'', ''NEWLY_DEPLOYED_CONTRACT_INVOKED'',
     ''UNVERIFIED_SELF_DEPLOYED_CONTRACT'', ''INVOCATION_FAN_OUT'']"

definition interaction_ok :: "contract_input \<Rightarrow> SimulatedOperation list \<Rightarrow> string \<Rightarrow> ContractInteraction \<Rightarrow> bool" where
  "interaction_ok x ops cid it \<longleftrightarrow>
     ci_contractId it = cid \<and> invocationCount it = length (invocations_of cid ops)
     \<and> ci_verified it = trusted_contract x cid \<and> codeHashMismatch it = hash_mismatch x cid
     \<and> deployedInEnvelope it = (map_of (deployed_map x) cid \<noteq> None)
     \<and> missingAuth it = (\<exists>op. op \<in> set (invocations_of cid ops) \<and> \<not> hasAuthFor (authKeys (kx_auth x)) cid (op_function op))"

section \<open>The loop invariant\<close>

definition loop_inv :: "contract_input \<Rightarrow> SimulatedOperation list \<Rightarrow> contract_loop \<Rightarrow> bool" where
  "loop_inv x ops s \<longleftrightarrow>
     distinct (map fst (by_contract s))
     \<and> (\<forall>cid. case map_of (by_contract s) cid of
             None \<Rightarrow> invocations_of cid ops = []
           | Some it \<Rightarrow> invocations_of cid ops \<noteq> [] \<and> interaction_ok x ops cid it)
     \<and> raised s = concat (map (\<lambda>op. privileged_rule x (the_str (op_contractId op)) (op_function op)) (filter is_invocation ops))"

lemma new_interaction_ok: "invocations_of cid ops = [] \<Longrightarrow> interaction_ok x ops cid (new_interaction x cid)"
  by (simp add: interaction_ok_def new_interaction_def Let_def trusted_contract_def)

lemma touch_ok:
  assumes "interaction_ok x ops cid it" "is_invocation op" "the_str (op_contractId op) = cid"
  shows "interaction_ok x (ops @ [op]) cid (touch x it (op_function op))"
  using assms by (auto simp: interaction_ok_def touch_def invocations_of_def)

lemma interaction_ok_other:
  "is_invocation op \<Longrightarrow> the_str (op_contractId op) \<noteq> cid \<Longrightarrow> interaction_ok x (ops @ [op]) cid it = interaction_ok x ops cid it"
  "\<not> is_invocation op \<Longrightarrow> interaction_ok x (ops @ [op]) cid it = interaction_ok x ops cid it"
  by (simp_all add: interaction_ok_def invocations_of_def)

lemma loop_inv_step:
  assumes "loop_inv x ops s"
  shows "loop_inv x (ops @ [op]) (contract_step x s op)"
proof (cases "is_invocation op")
  case False
  then have "invocations_of k (ops @ [op]) = invocations_of k ops" for k by (simp add: invocations_of_def)
  then show ?thesis using assms False
    by (simp add: loop_inv_def contract_step_def interaction_ok_other cong: option.case_cong)
next
  case True
  define cid where "cid = the_str (op_contractId op)"
  define it where "it = (case map_of (by_contract s) cid of Some i \<Rightarrow> i | None \<Rightarrow> new_interaction x cid)"
  have "interaction_ok x ops cid it"
    using assms new_interaction_ok[of cid ops x] unfolding loop_inv_def it_def
    by (cases "map_of (by_contract s) cid") (auto split: option.splits dest: spec[of _ cid])
  then have ok: "interaction_ok x (ops @ [op]) cid (touch x it (op_function op))"
    using True by (intro touch_ok) (simp_all add: cid_def)
  have ne: "invocations_of cid (ops @ [op]) \<noteq> []" using True by (simp add: invocations_of_def cid_def)
  have other: "k \<noteq> cid \<Longrightarrow> invocations_of k (ops @ [op]) = invocations_of k ops" for k
    by (simp add: invocations_of_def cid_def)
  have step: "contract_step x s op = \<lparr>by_contract = AList.update cid (touch x it (op_function op)) (by_contract s),
      privileged = (if isPrivilegedFunction (op_function op) then privileged s @ [op] else privileged s),
      raised = raised s @ privileged_rule x cid (op_function op)\<rparr>"
    unfolding it_def cid_def using True by (simp add: contract_step_def Let_def)
  have at: "case map_of (AList.update cid (touch x it (op_function op)) (by_contract s)) k of
      None \<Rightarrow> invocations_of k (ops @ [op]) = []
    | Some j \<Rightarrow> invocations_of k (ops @ [op]) \<noteq> [] \<and> interaction_ok x (ops @ [op]) k j" for k
  proof (cases "k = cid")
    case False
    have "case map_of (by_contract s) k of None \<Rightarrow> invocations_of k ops = []
      | Some j \<Rightarrow> invocations_of k ops \<noteq> [] \<and> interaction_ok x ops k j"
      using assms unfolding loop_inv_def by blast
    moreover have "interaction_ok x (ops @ [op]) k j = interaction_ok x ops k j" for j
      using False True by (intro interaction_ok_other(1)) (simp_all add: cid_def)
    ultimately show ?thesis using False other[of k] by (cases "map_of (by_contract s) k") simp_all
  qed (simp add: ok ne)
  have r: "raised s @ privileged_rule x cid (op_function op) =
      concat (map (\<lambda>op. privileged_rule x (the_str (op_contractId op)) (op_function op)) (filter is_invocation (ops @ [op])))"
    using assms True by (simp add: loop_inv_def cid_def)
  show ?thesis
    unfolding loop_inv_def step contract_loop.simps
    using at r assms by (simp add: distinct_fst_update loop_inv_def del: map_of_update)
qed

lemma loop_inv_run: "loop_inv x (kx_operations x) (contract_run x)"
proof -
  have "loop_inv x ops (foldl (contract_step x) \<lparr>by_contract = [], privileged = [], raised = []\<rparr> ops)" for ops
  proof (induction ops rule: rev_induct)
    case Nil
    then show ?case by (simp add: loop_inv_def invocations_of_def)
  qed (simp add: loop_inv_step)
  then show ?thesis by (simp add: contract_run_def)
qed

lemma invoked_iff: "cid \<in> invoked x \<longleftrightarrow> invocations_of cid (kx_operations x) \<noteq> []"
  by (auto simp: invoked_def invocations_of_def filter_empty_conv)

lemma interactions_sound:
  assumes "it \<in> set (map snd (by_contract (contract_run x)))"
  shows "ci_contractId it \<in> invoked x \<and> interaction_ok x (kx_operations x) (ci_contractId it) it"
proof -
  obtain cid where "(cid, it) \<in> set (by_contract (contract_run x))" using assms by auto
  then have "map_of (by_contract (contract_run x)) cid = Some it"
    using loop_inv_run[of x] by (simp add: loop_inv_def)
  then have "invocations_of cid (kx_operations x) \<noteq> [] \<and> interaction_ok x (kx_operations x) cid it"
    using loop_inv_run[of x] unfolding loop_inv_def by (auto dest: spec[of _ cid])
  then show ?thesis by (auto simp: invoked_iff interaction_ok_def)
qed

lemma interactions_complete:
  assumes "cid \<in> invoked x"
  shows "\<exists>it. it \<in> set (map snd (by_contract (contract_run x))) \<and> interaction_ok x (kx_operations x) cid it"
proof -
  have "\<forall>k. case map_of (by_contract (contract_run x)) k of
             None \<Rightarrow> invocations_of k (kx_operations x) = []
           | Some it \<Rightarrow> invocations_of k (kx_operations x) \<noteq> [] \<and> interaction_ok x (kx_operations x) k it"
    using loop_inv_run[of x] by (simp add: loop_inv_def)
  from spec[OF this, of cid] obtain it where "map_of (by_contract (contract_run x)) cid = Some it"
    "interaction_ok x (kx_operations x) cid it"
    using assms by (auto simp: invoked_iff split: option.splits)
  then show ?thesis by (force dest: map_of_SomeD)
qed

lemma set_sorted_interactions: "set (sorted_interactions lc m) = set (map snd m)"
  by (simp add: sorted_interactions_def)

section \<open>The detector contract\<close>

lemmas contract_rules = privileged_rule_def interaction_rules_def unverified_rule_def mismatch_rule_def
  not_deployed_rule_def archived_contract_rule_def deploy_invoke_rule_def invocation_fan_out_rule_def

lemma contract_indicators_cases:
  assumes "i \<in> set (contract_indicators lc x)"
  obtains (privileged) op where "op \<in> set (kx_operations x)" "is_invocation op"
      "i \<in> set (privileged_rule x (the_str (op_contractId op)) (op_function op))"
  | (interaction) it where "it \<in> set (map snd (by_contract (contract_run x)))" "i \<in> set (interaction_rules x it)"
  | (deploy) cid where "i \<in> set (deploy_invoke_rule x (by_contract (contract_run x)) cid)"
  | (fan_out) it where "it \<in> set (map snd (by_contract (contract_run x)))" "i \<in> set (invocation_fan_out_rule x it)"
proof -
  have r: "raised (contract_run x) = concat (map (\<lambda>op. privileged_rule x (the_str (op_contractId op)) (op_function op))
      (filter is_invocation (kx_operations x)))" using loop_inv_run[of x] by (simp add: loop_inv_def)
  from assms consider "i \<in> set (raised (contract_run x))"
    | it where "it \<in> set (sorted_interactions lc (by_contract (contract_run x)))" "i \<in> set (interaction_rules x it)"
    | cid where "i \<in> set (deploy_invoke_rule x (by_contract (contract_run x)) cid)"
    | it where "it \<in> set (map snd (by_contract (contract_run x)))" "i \<in> set (invocation_fan_out_rule x it)"
    unfolding contract_indicators_def Let_def by force
  then show thesis
  proof cases
    case 1
    then show thesis using privileged by (auto simp: r)
  next
    case (2 it)
    then show thesis using interaction set_sorted_interactions by blast
  next
    case (3 cid)
    then show thesis by (rule deploy)
  next
    case (4 it)
    then show thesis by (rule fan_out)
  qed
qed

lemma contract_indicator_shape:
  assumes "i \<in> set (contract_indicators lc x)"
  shows "category i = cat_contract \<and> code i \<in> set contract_codes \<and> (\<exists>w. weight i = Some w \<and> 0 < w \<and> w \<le> 60)"
  using assms
  by (cases rule: contract_indicators_cases)
    (auto simp: contract_rules Let_def contract_codes_def split: if_splits)

interpretation contract: risk_detector "contract_indicators lc" cat_contract contract_codes for lc
  by unfold_locales (simp_all add: contract_indicator_shape)

lemma raised_from_interaction:
  assumes "c \<in> {''UNVERIFIED_CONTRACT_INVOCATION'', ''CONTRACT_CODE_HASH_MISMATCH''}"
  shows "(\<exists>i. i \<in> set (contract_indicators lc x) \<and> code i = c) \<longleftrightarrow>
    (\<exists>it. it \<in> set (map snd (by_contract (contract_run x))) \<and>
       (if c = ''UNVERIFIED_CONTRACT_INVOCATION'' then \<not> ci_verified it else codeHashMismatch it))"
proof
  assume "\<exists>i. i \<in> set (contract_indicators lc x) \<and> code i = c"
  then obtain i where i: "i \<in> set (contract_indicators lc x)" "code i = c" by blast
  from i(1) show "\<exists>it. it \<in> set (map snd (by_contract (contract_run x))) \<and>
       (if c = ''UNVERIFIED_CONTRACT_INVOCATION'' then \<not> ci_verified it else codeHashMismatch it)"
    by (cases rule: contract_indicators_cases)
      (use i(2) assms in \<open>auto simp: contract_rules Let_def split: if_splits\<close>)
next
  assume "\<exists>it. it \<in> set (map snd (by_contract (contract_run x))) \<and>
       (if c = ''UNVERIFIED_CONTRACT_INVOCATION'' then \<not> ci_verified it else codeHashMismatch it)"
  then obtain it where it: "it \<in> set (sorted_interactions lc (by_contract (contract_run x)))"
    "if c = ''UNVERIFIED_CONTRACT_INVOCATION'' then \<not> ci_verified it else codeHashMismatch it"
    unfolding set_sorted_interactions by blast
  have "\<not> ci_verified it \<Longrightarrow> indicator ''UNVERIFIED_CONTRACT_INVOCATION'' cat_contract high 24 \<in> set (interaction_rules x it)"
    "codeHashMismatch it \<Longrightarrow> indicator ''CONTRACT_CODE_HASH_MISMATCH'' cat_contract critical 38 \<in> set (interaction_rules x it)"
    by (simp_all add: interaction_rules_def unverified_rule_def mismatch_rule_def)
  then have "\<exists>i. i \<in> set (interaction_rules x it) \<and> code i = c"
    using it(2) assms by (cases "c = ''UNVERIFIED_CONTRACT_INVOCATION''") force+
  then show "\<exists>i. i \<in> set (contract_indicators lc x) \<and> code i = c"
    using it(1) by (auto simp: contract_indicators_def Let_def)
qed

lemma interactions_ex:
  "(\<exists>it. it \<in> set (map snd (by_contract (contract_run x))) \<and> P it) \<longleftrightarrow> (\<exists>cid. cid \<in> invoked x \<and> Q cid)"
  if "\<And>it cid. interaction_ok x (kx_operations x) cid it \<Longrightarrow> P it = Q cid"
  using interactions_sound interactions_complete that by (metis (no_types, lifting))

section \<open>Properties\<close>

text \<open>Trust is positive evidence only, and both contract alarms are exact: an invoked contract is
  reported unverified iff it is neither allow-listed nor verified with an unchanged code hash, and a
  code-hash mismatch is reported iff an invoked contract has recorded and observed hashes that differ up
  to case. Both answers range over exactly the contracts the envelope invokes.\<close>

theorem contract_trust_exact:
  "(\<exists>i. i \<in> set (contract_indicators lc x) \<and> code i = ''UNVERIFIED_CONTRACT_INVOCATION'') =
     (\<exists>cid. cid \<in> invoked x \<and> \<not> trusted_contract x cid)
   \<and> (\<exists>i. i \<in> set (contract_indicators lc x) \<and> code i = ''CONTRACT_CODE_HASH_MISMATCH'') =
     (\<exists>cid. cid \<in> invoked x \<and> hash_mismatch x cid)
   \<and> set (unverifiableContracts (contract_analysis lc x)) = {cid. cid \<in> invoked x \<and> \<not> trusted_contract x cid}"
proof -
  have set: "set (unverifiableContracts (contract_analysis lc x))
      = {cid. \<exists>it. it \<in> set (map snd (by_contract (contract_run x))) \<and> \<not> ci_verified it \<and> ci_contractId it = cid}"
    by (auto simp: contract_analysis_def Let_def set_sorted_interactions)
  have "(\<exists>it. it \<in> set (map snd (by_contract (contract_run x))) \<and> \<not> ci_verified it \<and> ci_contractId it = cid)
      \<longleftrightarrow> cid \<in> invoked x \<and> \<not> trusted_contract x cid" for cid
    using interactions_ex[of x "\<lambda>it. \<not> ci_verified it \<and> ci_contractId it = cid" "\<lambda>k. \<not> trusted_contract x k \<and> k = cid"]
    by (auto simp: interaction_ok_def)
  moreover have "(\<exists>it. it \<in> set (map snd (by_contract (contract_run x))) \<and> \<not> ci_verified it)
      \<longleftrightarrow> (\<exists>cid. cid \<in> invoked x \<and> \<not> trusted_contract x cid)"
    by (rule interactions_ex) (simp add: interaction_ok_def)
  moreover have "(\<exists>it. it \<in> set (map snd (by_contract (contract_run x))) \<and> codeHashMismatch it)
      \<longleftrightarrow> (\<exists>cid. cid \<in> invoked x \<and> hash_mismatch x cid)"
    by (rule interactions_ex) (simp add: interaction_ok_def)
  ultimately show ?thesis unfolding set by (simp add: raised_from_interaction)
qed

text \<open>The unauthenticated privileged call is reported iff the envelope has an invocation of a
  privileged function for which the authorization entries have no key.\<close>

theorem privileged_without_auth_iff:
  "(\<exists>i. i \<in> set (contract_indicators lc x) \<and> code i = ''PRIVILEGED_FUNCTION_WITHOUT_AUTH'') =
     (\<exists>op. op \<in> set (kx_operations x) \<and> is_invocation op \<and> isPrivilegedFunction (op_function op)
        \<and> \<not> hasAuthFor (authKeys (kx_auth x)) (the_str (op_contractId op)) (op_function op))"
proof
  assume "\<exists>i. i \<in> set (contract_indicators lc x) \<and> code i = ''PRIVILEGED_FUNCTION_WITHOUT_AUTH''"
  then obtain i where i: "i \<in> set (contract_indicators lc x)" "code i = ''PRIVILEGED_FUNCTION_WITHOUT_AUTH''" by blast
  from i(1) show "\<exists>op. op \<in> set (kx_operations x) \<and> is_invocation op \<and> isPrivilegedFunction (op_function op)
        \<and> \<not> hasAuthFor (authKeys (kx_auth x)) (the_str (op_contractId op)) (op_function op)"
  proof (cases rule: contract_indicators_cases)
    case (privileged op)
    then show ?thesis using i(2) by (auto simp: privileged_rule_def split: if_splits)
  qed (use i(2) in \<open>auto simp: contract_rules Let_def split: if_splits\<close>)
next
  assume "\<exists>op. op \<in> set (kx_operations x) \<and> is_invocation op \<and> isPrivilegedFunction (op_function op)
        \<and> \<not> hasAuthFor (authKeys (kx_auth x)) (the_str (op_contractId op)) (op_function op)"
  then obtain op where op: "op \<in> set (filter is_invocation (kx_operations x))"
    "privileged_rule x (the_str (op_contractId op)) (op_function op)
      = [indicator ''PRIVILEGED_FUNCTION_WITHOUT_AUTH'' cat_contract critical 42]"
    by (auto simp: privileged_rule_def)
  have "raised (contract_run x) = concat (map (\<lambda>op. privileged_rule x (the_str (op_contractId op)) (op_function op))
      (filter is_invocation (kx_operations x)))" using loop_inv_run[of x] by (simp add: loop_inv_def)
  then have "indicator ''PRIVILEGED_FUNCTION_WITHOUT_AUTH'' cat_contract critical 42 \<in> set (raised (contract_run x))"
    using op by force
  then show "\<exists>i. i \<in> set (contract_indicators lc x) \<and> code i = ''PRIVILEGED_FUNCTION_WITHOUT_AUTH''"
    by (force simp: contract_indicators_def Let_def)
qed

text \<open>One authorization entry for a contract covers all its functions: the entry always adds the
  wildcard key, so with an entry for any function of a contract no call to that contract is ever
  reported as unauthenticated.\<close>

theorem auth_entry_covers_every_function:
  assumes "e \<in> set (nullish (kx_auth x) [])" and "auth_contractId e = Some cid"
  shows "hasAuthFor (authKeys (kx_auth x)) cid fn"
proof -
  have "cid @ ''::*'' \<in> set (authKeys (kx_auth x))"
    using assms by (auto simp: authKeys_def entry_keys_def intro!: bexI[of _ e])
  then show ?thesis by (simp add: hasAuthFor_def)
qed

theorem auth_entry_covers_every_function_witness:
  "hasAuthFor (authKeys (kx_auth
     \<lparr>kx_source = ''GA'', kx_operations = [], kx_contracts = None, kx_registry = None,
      kx_auth = Some [\<lparr>auth_contractId = Some ''CA'', auth_function = Some ''balance''\<rparr>], kx_maxInvocations = 5\<rparr>))
     ''CA'' (Some ''set_admin'')"
  by (rule auth_entry_covers_every_function[where e = "\<lparr>auth_contractId = Some ''CA'', auth_function = Some ''balance''\<rparr>"])
    simp_all

end
