(* ===== verification/RiskScorer.thy ===== *)
theory RiskScorer
  imports Amounts
begin

text \<open>
  Threat risk scoring, \<open>apps/api/src/services/simulation/risk-scorer.ts\<close>: weights, first-wins
  deduplication by code, the per-category breakdown, the 0-100 score, its band and the block decision.
  Weights are integers (every rule declares an integer literal), so \<open>Math.round\<close> and
  \<open>Math.trunc\<close> are the identity on them. \<open>localeCompare\<close> is the parameter \<open>lc\<close>; the
  remediation text of an indicator is a literal that depends on its code only, so the texts are the
  parameter \<open>remediation\<close>.
\<close>

section \<open>Severities and bands\<close>

fun sev_index :: "RiskSeverity \<Rightarrow> nat" where
  "sev_index info = 0"
| "sev_index low = 1"
| "sev_index medium = 2"
| "sev_index high = 3"
| "sev_index critical = 4"

fun SEVERITY_WEIGHT :: "RiskSeverity \<Rightarrow> int" where
  "SEVERITY_WEIGHT critical = 40"
| "SEVERITY_WEIGHT high = 25"
| "SEVERITY_WEIGHT medium = 12"
| "SEVERITY_WEIGHT low = 5"
| "SEVERITY_WEIGHT info = 0"

definition SCORE_BANDS :: "(int \<times> RiskBand) list" where
  "SCORE_BANDS = [(80, CRITICAL), (60, HIGH), (40, MODERATE), (20, LOW), (0, SAFE)]"

definition DEFAULT_RISK_BLOCK_THRESHOLD :: int where "DEFAULT_RISK_BLOCK_THRESHOLD = 80"

fun band_loop :: "int \<Rightarrow> (int \<times> RiskBand) list \<Rightarrow> RiskBand" where
  "band_loop bounded [] = SAFE"
| "band_loop bounded ((upper, b) # rest) = (if bounded \<ge> upper then b else band_loop bounded rest)"

definition scoreToBand :: "int \<Rightarrow> RiskBand" where
  "scoreToBand s = band_loop (max 0 (min 100 s)) SCORE_BANDS"

definition weightOf :: "RiskIndicator \<Rightarrow> int" where
  "weightOf i =
     (case weight i of
        Some w \<Rightarrow> if w \<ge> 0 then w else SEVERITY_WEIGHT (severity i)
      | None \<Rightarrow> SEVERITY_WEIGHT (severity i))"

section \<open>Deduplication and aggregation\<close>

fun dedupe_loop :: "string jsset \<Rightarrow> RiskIndicator list \<Rightarrow> RiskIndicator list" where
  "dedupe_loop seen [] = []"
| "dedupe_loop seen (i # is) =
     (if code i \<in> set seen then dedupe_loop seen is
      else i # dedupe_loop (set_add (code i) seen) is)"

definition dedupeIndicators :: "RiskIndicator list \<Rightarrow> RiskIndicator list" where
  "dedupeIndicators is = dedupe_loop [] is"

definition worstSeverityOf :: "RiskSeverity list \<Rightarrow> RiskSeverity" where
  "worstSeverityOf ss = foldl (\<lambda>worst s. if sev_index s > sev_index worst then s else worst) info ss"

definition bucket_add ::
  "(IndicatorCategory, RiskIndicator list) jsmap \<Rightarrow> RiskIndicator \<Rightarrow> (IndicatorCategory, RiskIndicator list) jsmap" where
  "bucket_add m i =
     (case map_of m (category i) of
        Some bucket \<Rightarrow> AList.update (category i) (bucket @ [i]) m
      | None \<Rightarrow> AList.update (category i) [i] m)"

definition byCategory :: "RiskIndicator list \<Rightarrow> (IndicatorCategory, RiskIndicator list) jsmap" where
  "byCategory is = foldl bucket_add [] is"

definition total_weight :: "RiskIndicator list \<Rightarrow> int" where
  "total_weight is = foldl (\<lambda>sum i. sum + weightOf i) 0 is"

definition category_entry :: "int \<Rightarrow> IndicatorCategory \<times> RiskIndicator list \<Rightarrow> RiskCategoryBreakdown" where
  "category_entry tot ci =
     (case ci of (c, is) \<Rightarrow>
        (let sc = total_weight is in
         \<lparr>rb_category = c, rb_score = sc,
          sharePercent = formatRatioAsPercent (if tot > 0 then (sc * RATIO_SCALE) div (max 1 tot) else 0),
          indicatorCount = length is,
          worstSeverity = worstSeverityOf (map severity is),
          codes = sort (map code is)\<rparr>))"

fun category_name :: "IndicatorCategory \<Rightarrow> string" where
  "category_name cat_footprint = ''footprint''"
| "category_name cat_drain = ''drain''"
| "category_name cat_contract = ''contract''"
| "category_name cat_envelope = ''envelope''"

text \<open>The JavaScript \<open>||\<close> of two comparisons.\<close>

definition or_else :: "int \<Rightarrow> int \<Rightarrow> int" where
  "or_else a b = (if a \<noteq> 0 then a else b)"

definition breakdown_cmp ::
  "(string \<Rightarrow> string \<Rightarrow> int) \<Rightarrow> RiskCategoryBreakdown \<Rightarrow> RiskCategoryBreakdown \<Rightarrow> int" where
  "breakdown_cmp lc a b =
     or_else (rb_score b - rb_score a) (lc (category_name (rb_category a)) (category_name (rb_category b)))"

definition buildBreakdown :: "(string \<Rightarrow> string \<Rightarrow> int) \<Rightarrow> RiskIndicator list \<Rightarrow> RiskCategoryBreakdown list" where
  "buildBreakdown lc is = js_sort (breakdown_cmp lc) (map (category_entry (total_weight is)) (byCategory is))"

definition action_cmp :: "(string \<Rightarrow> string \<Rightarrow> int) \<Rightarrow> RiskIndicator \<Rightarrow> RiskIndicator \<Rightarrow> int" where
  "action_cmp lc a b =
     or_else (int (sev_index (severity b)) - int (sev_index (severity a)))
       (or_else (weightOf b - weightOf a) (lc (code a) (code b)))"

fun actions_loop :: "(string \<Rightarrow> string) \<Rightarrow> string jsset \<Rightarrow> RiskIndicator list \<Rightarrow> string list" where
  "actions_loop remediation seen [] = []"
| "actions_loop remediation seen (i # is) =
     (let r = remediation (code i) in
      if r \<noteq> [] \<and> r \<notin> set seen then r # actions_loop remediation (set_add r seen) is
      else actions_loop remediation seen is)"

definition buildActions ::
  "(string \<Rightarrow> string \<Rightarrow> int) \<Rightarrow> (string \<Rightarrow> string) \<Rightarrow> RiskIndicator list \<Rightarrow> string list" where
  "buildActions lc remediation is = actions_loop remediation [] (js_sort (action_cmp lc) is)"

definition countSeverities :: "RiskIndicator list \<Rightarrow> RiskSeverity \<Rightarrow> nat" where
  "countSeverities is = foldl (\<lambda>c i. c(severity i := c (severity i) + 1)) (\<lambda>_. 0) is"

fun band_name :: "RiskBand \<Rightarrow> string" where
  "band_name SAFE = ''SAFE''"
| "band_name LOW = ''LOW''"
| "band_name MODERATE = ''MODERATE''"
| "band_name HIGH = ''HIGH''"
| "band_name CRITICAL = ''CRITICAL''"

definition buildSummary :: "int \<Rightarrow> RiskBand \<Rightarrow> RiskIndicator list \<Rightarrow> RiskCategoryBreakdown list \<Rightarrow> string" where
  "buildSummary s b is bd =
     (let head = ''Threat score '' @ int_str s @ ''/100 ('' @ band_name b @ '')'' in
      if length is = 0 then
        head @ '': no drain, footprint, contract, or envelope indicators triggered.''
      else
        (let criticalCount = length (filter (\<lambda>i. severity i = critical) is);
             categoryText = (case bd of
                 [] \<Rightarrow> []
               | t # _ \<Rightarrow> '' driven mainly by '' @ category_name (rb_category t) @ '' ('' @ int_str (rb_score t)
                    @ '' pts across '' @ nat_str (length (codes t)) @ '' indicator''
                    @ (if length (codes t) = 1 then [] else ''s'') @ '')'');
             criticalText = (if criticalCount > 0
               then '' '' @ nat_str criticalCount @ '' critical indicator''
                    @ (if criticalCount = 1 then [] else ''s'') @ '' present.'' else []) in
         head @ categoryText @ ''.'' @ criticalText))"

definition scoreRisk ::
  "(string \<Rightarrow> string \<Rightarrow> int) \<Rightarrow> (string \<Rightarrow> string) \<Rightarrow> RiskIndicator list \<Rightarrow> int option \<Rightarrow> ThreatRiskAssessment" where
  "scoreRisk lc remediation is blockOption =
     (let threshold = max 0 (min 100 (nullish blockOption DEFAULT_RISK_BLOCK_THRESHOLD));
          deduped = dedupeIndicators is;
          rawTotal = total_weight deduped;
          sc = min 100 (max 0 rawTotal);
          b = scoreToBand sc;
          bd = buildBreakdown lc deduped in
      \<lparr>score = sc, band = b, blockThreshold = threshold, blockExecution = (sc \<ge> threshold),
       breakdown = bd, severityCounts = countSeverities deduped,
       risk_summary = buildSummary sc b deduped bd,
       actions = buildActions lc remediation deduped\<rparr>)"

definition assertScoreReconciliation :: "ThreatRiskAssessment \<Rightarrow> bool" where
  "assertScoreReconciliation a =
     (let categoryTotal = foldl (\<lambda>sum b. sum + rb_score b) 0 (breakdown a) in
      categoryTotal \<ge> score a \<and> score a \<ge> min 100 categoryTotal)"

section \<open>Orders on severities and bands\<close>

instantiation RiskSeverity :: linorder
begin

definition less_eq_RiskSeverity :: "RiskSeverity \<Rightarrow> RiskSeverity \<Rightarrow> bool" where
  "less_eq_RiskSeverity a b \<longleftrightarrow> sev_index a \<le> sev_index b"

definition less_RiskSeverity :: "RiskSeverity \<Rightarrow> RiskSeverity \<Rightarrow> bool" where
  "less_RiskSeverity a b \<longleftrightarrow> sev_index a < sev_index b"

instance
proof
  fix a b :: RiskSeverity
  show "a \<le> b \<Longrightarrow> b \<le> a \<Longrightarrow> a = b" by (cases a; cases b) (simp_all add: less_eq_RiskSeverity_def)
qed (auto simp: less_eq_RiskSeverity_def less_RiskSeverity_def)

end

fun band_rank :: "RiskBand \<Rightarrow> nat" where
  "band_rank SAFE = 0"
| "band_rank LOW = 1"
| "band_rank MODERATE = 2"
| "band_rank HIGH = 3"
| "band_rank CRITICAL = 4"

instantiation RiskBand :: linorder
begin

definition less_eq_RiskBand :: "RiskBand \<Rightarrow> RiskBand \<Rightarrow> bool" where
  "less_eq_RiskBand a b \<longleftrightarrow> band_rank a \<le> band_rank b"

definition less_RiskBand :: "RiskBand \<Rightarrow> RiskBand \<Rightarrow> bool" where
  "less_RiskBand a b \<longleftrightarrow> band_rank a < band_rank b"

instance
proof
  fix a b :: RiskBand
  show "a \<le> b \<Longrightarrow> b \<le> a \<Longrightarrow> a = b" by (cases a; cases b) (simp_all add: less_eq_RiskBand_def)
qed (auto simp: less_eq_RiskBand_def less_RiskBand_def)

end

lemma sev_index_inject [simp]: "sev_index a = sev_index b \<longleftrightarrow> a = b"
  by (cases a; cases b) simp_all

lemma worstSeverityOf_Max: "worstSeverityOf ss = Max (set (info # ss))"
proof -
  have "foldl (\<lambda>worst s. if sev_index s > sev_index worst then s else worst) w ss = Max (set (w # ss))" for w
  proof (induction ss arbitrary: w)
    case (Cons s ss)
    have "(if sev_index s > sev_index w then s else w) = max w s"
      by (auto simp: max_def less_eq_RiskSeverity_def)
    then show ?case using Cons[of "max w s"] by (cases "ss = []") (simp_all add: Max_insert max.assoc)
  qed simp
  then show ?thesis by (simp add: worstSeverityOf_def)
qed

section \<open>Deduplication\<close>

lemma dedupe_loop_first_wins: "dedupe_loop seen is = first_wins code (set seen) is"
  by (induction seen "is" rule: dedupe_loop.induct) simp_all

interpretation dedupe: deduper dedupeIndicators code
  by unfold_locales (simp add: dedupeIndicators_def dedupe_loop_first_wins)

section \<open>Weights and sums\<close>

lemma weightOf_nonneg: "0 \<le> weightOf i"
  by (cases "severity i") (auto simp: weightOf_def split: option.splits)

lemma total_weight_sum: "total_weight is = sum_list (map weightOf is)"
proof -
  have "foldl (\<lambda>sum i. sum + weightOf i) a is = a + sum_list (map weightOf is)" for a
    by (induction "is" arbitrary: a) simp_all
  then show ?thesis by (simp add: total_weight_def)
qed

lemma total_weight_nonneg: "0 \<le> total_weight is"
  by (induction "is") (simp_all add: total_weight_sum weightOf_nonneg add_nonneg_nonneg)

lemma byCategory_filter:
  "map_of (byCategory is) c =
     (let fs = filter (\<lambda>i. category i = c) is in if fs = [] then None else Some fs)"
  by (induction "is" rule: rev_induct)
    (auto simp: byCategory_def bucket_add_def Let_def split: option.splits if_splits)

lemma distinct_byCategory: "distinct (map fst (byCategory is))"
  by (induction "is" rule: rev_induct)
    (auto simp: byCategory_def bucket_add_def distinct_fst_update split: option.splits)

lemma bucket_add_mset:
  "mset (concat (map snd (bucket_add m i))) = add_mset i (mset (concat (map snd m)))"
  by (induction m) (auto simp: bucket_add_def split: option.splits if_splits)

lemma byCategory_mset: "mset (concat (map snd (byCategory is))) = mset is"
  by (induction "is" rule: rev_induct) (simp_all add: byCategory_def bucket_add_mset)

lemma sum_concat: "sum_list (map f (concat xss)) = (sum_list (map (\<lambda>xs. sum_list (map f xs)) xss) :: int)"
  by (induction xss) simp_all

lemma breakdown_total: "sum_list (map rb_score (buildBreakdown lc is)) = total_weight is"
proof -
  have "sum_list (map rb_score (buildBreakdown lc is)) = sum_list (map (\<lambda>x. total_weight (snd x)) (byCategory is))"
    by (simp add: buildBreakdown_def sum_list_js_sort category_entry_def comp_def case_prod_beta Let_def)
  also have "\<dots> = sum_list (map weightOf (concat (map snd (byCategory is))))"
    by (simp add: sum_concat comp_def case_prod_beta total_weight_sum)
  also have "\<dots> = sum_list (map weightOf is)"
    by (metis byCategory_mset mset_map sum_mset_sum_list)
  finally show ?thesis by (simp add: total_weight_sum)
qed

lemma breakdown_entry:
  "b \<in> set (buildBreakdown lc is) \<longleftrightarrow>
     (\<exists>c. filter (\<lambda>i. category i = c) is \<noteq> []
        \<and> b = category_entry (total_weight is) (c, filter (\<lambda>i. category i = c) is))"
proof -
  have "(c, bs) \<in> set (byCategory is) \<longleftrightarrow> bs \<noteq> [] \<and> bs = filter (\<lambda>i. category i = c) is" for c bs
  proof -
    have "(c, bs) \<in> set (byCategory is) \<longleftrightarrow> map_of (byCategory is) c = Some bs"
      using distinct_byCategory[of "is"] by simp
    also have "\<dots> \<longleftrightarrow> bs \<noteq> [] \<and> bs = filter (\<lambda>i. category i = c) is"
      unfolding byCategory_filter Let_def by (simp only: split: if_split) auto
    finally show ?thesis .
  qed
  then show ?thesis by (auto simp: buildBreakdown_def image_iff)
qed

lemma score_eq: "score (scoreRisk lc rem is bt) = min 100 (total_weight (dedupeIndicators is))"
  using total_weight_nonneg[of "dedupeIndicators is"] by (simp add: scoreRisk_def Let_def max_def)

lemma band_mono: "a \<le> b \<Longrightarrow> scoreToBand a \<le> scoreToBand b"
  by (auto simp: scoreToBand_def SCORE_BANDS_def less_eq_RiskBand_def)

lemma total_weight_mono:
  "total_weight (dedupeIndicators xs) \<le> total_weight (dedupeIndicators (xs @ ys))"
  using total_weight_nonneg
  by (simp add: dedupe.dedupe_first_wins dedupe.first_wins_append total_weight_sum)

lemma member_weight_le: "i \<in> set is \<Longrightarrow> weightOf i \<le> total_weight is"
proof (induction "is")
  case (Cons j js)
  then show ?case
    using weightOf_nonneg[of j] total_weight_nonneg[of js] by (auto simp: total_weight_sum)
qed simp

section \<open>Properties\<close>

text \<open>The breakdown reconciles with the score, for every list of indicators and every threshold: the
  category scores add up to the total weight of the distinct codes, the headline score is that total
  capped at 100 (so the runtime check always holds), and each category entry is the sum and the number
  of exactly its own indicators.\<close>

theorem score_reconciles:
  "let a = scoreRisk lc remediation is bt; ds = dedupeIndicators is in
   assertScoreReconciliation a
   \<and> sum_list (map rb_score (breakdown a)) = total_weight ds \<and> score a = min 100 (total_weight ds) \<and> 0 \<le> score a
   \<and> map rb_category (breakdown a) = remdups (map rb_category (breakdown a))
   \<and> (\<forall>b. b \<in> set (breakdown a) = (\<exists>c. c \<in> category ` set ds
        \<and> b = category_entry (total_weight ds) (c, filter (\<lambda>i. category i = c) ds)))"
proof -
  define ds where "ds = dedupeIndicators is"
  define a where "a = scoreRisk lc remediation is bt"
  have bd: "breakdown a = buildBreakdown lc ds" by (simp add: a_def ds_def scoreRisk_def Let_def)
  have sc: "score a = min 100 (total_weight ds)" by (simp add: a_def ds_def score_eq)
  have fold: "foldl (\<lambda>sum b. sum + rb_score b) z bs = z + sum_list (map rb_score bs)" for z bs
    by (induction bs arbitrary: z) simp_all
  have t: "sum_list (map rb_score (breakdown a)) = total_weight ds" by (simp add: bd breakdown_total)
  then have rec: "assertScoreReconciliation a" by (simp add: assertScoreReconciliation_def fold sc)
  have "distinct (map rb_category (map (category_entry w) (byCategory ds)))" for w
    using distinct_byCategory[of ds] by (simp add: category_entry_def case_prod_beta Let_def comp_def)
  moreover have "mset (map rb_category (buildBreakdown lc ds))
      = mset (map rb_category (map (category_entry (total_weight ds)) (byCategory ds)))"
    unfolding buildBreakdown_def mset_map mset_js_sort by (rule refl)
  ultimately have "distinct (map rb_category (breakdown a))"
    unfolding bd using mset_eq_imp_distinct_iff by blast
  moreover have "b \<in> set (breakdown a) \<longleftrightarrow> (\<exists>c. c \<in> category ` set ds
        \<and> b = category_entry (total_weight ds) (c, filter (\<lambda>i. category i = c) ds))" for b
    unfolding bd breakdown_entry by (auto simp: filter_empty_conv)
  moreover have "0 \<le> score a" by (simp add: sc total_weight_nonneg)
  ultimately show ?thesis
    unfolding Let_def a_def[symmetric] ds_def[symmetric] using rec t sc by (simp add: distinct_remdups_id)
qed

text \<open>Volume does not count: adding indicators whose codes are already present changes nothing in
  the assessment (score, band, decision, breakdown, counts, summary, actions).\<close>

theorem repeated_codes_do_not_count:
  assumes "code ` set ys \<subseteq> code ` set xs"
  shows "scoreRisk lc remediation (xs @ ys) bt = scoreRisk lc remediation xs bt"
  by (simp add: scoreRisk_def dedupe.append_absorb[OF assms])

theorem repeated_codes_do_not_count_witness:
  "scoreRisk (\<lambda>_ _. 0) (\<lambda>c. c) ([indicator ''A'' cat_drain high 22] @ [indicator ''A'' cat_drain critical 99]) None
   = scoreRisk (\<lambda>_ _. 0) (\<lambda>c. c) [indicator ''A'' cat_drain high 22] None"
  by (rule repeated_codes_do_not_count) simp

text \<open>More evidence never lowers the verdict: appending indicators can only raise the score and the
  band, and an envelope that is blocked stays blocked.\<close>

theorem score_monotone:
  "score (scoreRisk lc remediation xs bt) \<le> score (scoreRisk lc remediation (xs @ ys) bt)
   \<and> band (scoreRisk lc remediation xs bt) \<le> band (scoreRisk lc remediation (xs @ ys) bt)
   \<and> (blockExecution (scoreRisk lc remediation xs bt) \<longrightarrow> blockExecution (scoreRisk lc remediation (xs @ ys) bt))"
proof -
  have s: "score (scoreRisk lc remediation xs bt) \<le> score (scoreRisk lc remediation (xs @ ys) bt)"
    unfolding score_eq using total_weight_mono[of xs ys] by simp
  have b: "band (scoreRisk lc remediation zs bt) = scoreToBand (score (scoreRisk lc remediation zs bt))"
    "blockExecution (scoreRisk lc remediation zs bt) \<longleftrightarrow> max 0 (min 100 (nullish bt DEFAULT_RISK_BLOCK_THRESHOLD))
       \<le> score (scoreRisk lc remediation zs bt)" for zs
    by (simp_all add: scoreRisk_def Let_def)
  show ?thesis unfolding b using s band_mono[OF s] by auto
qed

theorem score_monotone_witness:
  "blockExecution (scoreRisk (\<lambda>_ _. 0) (\<lambda>c. c)
     ([indicator ''A'' cat_drain critical 60, indicator ''B'' cat_drain high 22] @ [indicator ''C'' cat_drain low 5]) None)"
proof -
  have "blockExecution (scoreRisk (\<lambda>_ _. 0) (\<lambda>c. c)
      [indicator ''A'' cat_drain critical 60, indicator ''B'' cat_drain high 22] None)"
    by (simp add: scoreRisk_def Let_def dedupeIndicators_def set_add_def total_weight_def weightOf_def
        DEFAULT_RISK_BLOCK_THRESHOLD_def)
  then show ?thesis
    using score_monotone[of "\<lambda>_ _. 0" "\<lambda>c. c" "[indicator ''A'' cat_drain critical 60, indicator ''B'' cat_drain high 22]"
      None "[indicator ''C'' cat_drain low 5]"] by blast
qed

text \<open>Bands and the default decision agree: with the default threshold execution is blocked exactly
  in the CRITICAL band, and the band is the one of the five intervals of twenty points the score is in.\<close>

theorem block_iff_critical:
  "let a = scoreRisk lc remediation is None in
   (blockExecution a \<longleftrightarrow> band a = CRITICAL) \<and>
   band a = (if 80 \<le> score a then CRITICAL else if 60 \<le> score a then HIGH else if 40 \<le> score a then MODERATE
             else if 20 \<le> score a then LOW else SAFE)"
  by (auto simp: scoreRisk_def Let_def scoreToBand_def SCORE_BANDS_def DEFAULT_RISK_BLOCK_THRESHOLD_def)

text \<open>The stability the header promises does not hold: with weights the rules really use, a total
  drain plus a transfer burst stays below the block threshold in the HIGH band, and one more
  low-severity indicator moves it to CRITICAL and blocks it.\<close>

theorem low_severity_reclassifies:
  "let xs = [indicator ''FULL_BALANCE_DRAIN'' cat_drain critical 60,
             indicator ''UNBOUNDED_SEQUENTIAL_TRANSFERS'' cat_drain high 18];
       i = indicator ''UNUSED_FOOTPRINT_ENTRIES'' cat_footprint low 5;
       a = scoreRisk lc remediation xs None; a' = scoreRisk lc remediation (xs @ [i]) None in
   band a = HIGH \<and> \<not> blockExecution a \<and> band a' = CRITICAL \<and> blockExecution a'"
  by (simp add: scoreRisk_def Let_def dedupeIndicators_def set_add_def total_weight_def weightOf_def
      scoreToBand_def SCORE_BANDS_def DEFAULT_RISK_BLOCK_THRESHOLD_def)

end
