(* ===== verification/SimEngine.thy ===== *)
theory SimEngine
  imports Drain Envelope ContractTrust RiskScorer
begin

text \<open>
  The pre-execution simulation engine, \<open>apps/api/src/services/simulation/simulation-engine.ts\<close>: option
  resolution, the four detectors in their order, scoring and the report. The instance defaults and the
  per-call options are records of optional values merged over the module defaults; an option that is
  present but \<open>undefined\<close> is not modelled. The time stamp is an argument.
\<close>

section \<open>Options\<close>

definition DEFAULT_SIMULATION_OPTIONS :: ResolvedOptions where
  "DEFAULT_SIMULATION_OPTIONS =
     \<lparr>nearTotalOutflowRatio = 85 / 100, fanOutDestinationThreshold = 3, sequentialTransferThreshold = 8,
      dustAmountStroops = 10, maxFootprintReadWriteKeys = 64, footprintProbeContractThreshold = 5,
      maxInvocationsPerContract = 5, riskBlockThreshold = DEFAULT_RISK_BLOCK_THRESHOLD\<rparr>"

definition merge_options :: "ResolvedOptions \<Rightarrow> SimulationEngineOptions \<Rightarrow> ResolvedOptions" where
  "merge_options d x =
     \<lparr>nearTotalOutflowRatio = nullish (opt_nearTotalOutflowRatio x) (nearTotalOutflowRatio d),
      fanOutDestinationThreshold = nullish (opt_fanOutDestinationThreshold x) (fanOutDestinationThreshold d),
      sequentialTransferThreshold = nullish (opt_sequentialTransferThreshold x) (sequentialTransferThreshold d),
      dustAmountStroops = nullish (opt_dustAmountStroops x) (dustAmountStroops d),
      maxFootprintReadWriteKeys = nullish (opt_maxFootprintReadWriteKeys x) (maxFootprintReadWriteKeys d),
      footprintProbeContractThreshold = nullish (opt_footprintProbeContractThreshold x) (footprintProbeContractThreshold d),
      maxInvocationsPerContract = nullish (opt_maxInvocationsPerContract x) (maxInvocationsPerContract d),
      riskBlockThreshold = nullish (opt_riskBlockThreshold x) (riskBlockThreshold d)\<rparr>"

definition resolveOptions :: "SimulationEngineOptions \<Rightarrow> SimulationEngineOptions \<Rightarrow> ResolvedOptions" where
  "resolveOptions defaults options =
     (let merged = merge_options (merge_options DEFAULT_SIMULATION_OPTIONS defaults) options in
      merged\<lparr>nearTotalOutflowRatio := min 1 (max (1 / 100) (nearTotalOutflowRatio merged)),
             dustAmountStroops := (if dustAmountStroops merged \<ge> 0 then dustAmountStroops merged
                                   else dustAmountStroops DEFAULT_SIMULATION_OPTIONS)\<rparr>)"

section \<open>Simulation\<close>

definition post_of :: "SimulationRequest \<Rightarrow> AccountStateSnapshot list option" where
  "post_of req =
     (case postState req of Some p \<Rightarrow> Some p | None \<Rightarrow> Option.bind (outcome req) resultingBalances)"

definition drain_input_of :: "ResolvedOptions \<Rightarrow> SimulationRequest \<Rightarrow> drain_input" where
  "drain_input_of opts req =
     \<lparr>di_source = sourceAccount req, di_operations = operations req, di_pre = Some (preState req),
      di_post = post_of req,
      di_thresholds = \<lparr>dt_nearTotalOutflowRatio = nearTotalOutflowRatio opts,
        dt_fanOutDestinationThreshold = fanOutDestinationThreshold opts,
        dt_sequentialTransferThreshold = sequentialTransferThreshold opts,
        dt_dustAmountStroops = dustAmountStroops opts\<rparr>\<rparr>"

definition footprint_diff_of :: "SimulationRequest \<Rightarrow> FootprintDiff option" where
  "footprint_diff_of req =
     (let declared = Option.bind (resources req) footprint; required = Option.bind (resources req) requiredFootprint in
      if declared \<noteq> None \<or> required \<noteq> None then Some (diffFootprints declared required) else None)"

definition has_invocation :: "SimulationRequest \<Rightarrow> bool" where
  "has_invocation req \<longleftrightarrow> length (filter (\<lambda>op. op_kind op = invokeContract) (operations req)) > 0"

definition footprint_indicators :: "ResolvedOptions \<Rightarrow> SimulationRequest \<Rightarrow> RiskIndicator list" where
  "footprint_indicators opts req =
     (case footprint_diff_of req of
        None \<Rightarrow> []
      | Some d \<Rightarrow> analyzeFootprintThreats
          \<lparr>fi_diff = d, fi_declared = Option.bind (resources req) footprint, fi_hasInvocation = has_invocation req,
           fi_thresholds = \<lparr>ft_maxFootprintReadWriteKeys = maxFootprintReadWriteKeys opts,
             ft_footprintProbeContractThreshold = footprintProbeContractThreshold opts\<rparr>\<rparr>)"

definition contract_input_of :: "ResolvedOptions \<Rightarrow> SimulationRequest \<Rightarrow> contract_input" where
  "contract_input_of opts req =
     \<lparr>kx_source = sourceAccount req, kx_operations = operations req, kx_contracts = contracts req,
      kx_registry = trustRegistry req, kx_auth = Option.bind (resources req) auth,
      kx_maxInvocations = maxInvocationsPerContract opts\<rparr>"

definition envelope_input_of :: "SimulationRequest \<Rightarrow> EnvelopeIntegrityInput" where
  "envelope_input_of req =
     \<lparr>ei_resources = resources req, ei_outcome = outcome req, ei_simulated = (outcome req \<noteq> None)\<rparr>"

definition all_indicators :: "(string \<Rightarrow> string \<Rightarrow> int) \<Rightarrow> ResolvedOptions \<Rightarrow> SimulationRequest \<Rightarrow> RiskIndicator list" where
  "all_indicators lc opts req =
     drain_indicators (drain_input_of opts req) @ footprint_indicators opts req
     @ contract_indicators lc (contract_input_of opts req) @ analyzeEnvelopeIntegrity (envelope_input_of req)"

fun dedupePreservingOrder_loop :: "string jsset \<Rightarrow> RiskIndicator list \<Rightarrow> RiskIndicator list \<Rightarrow> RiskIndicator list" where
  "dedupePreservingOrder_loop seen result [] = result"
| "dedupePreservingOrder_loop seen result (i # is) =
     (if code i \<in> set seen then dedupePreservingOrder_loop seen result is
      else dedupePreservingOrder_loop (set_add (code i) seen) (result @ [i]) is)"

definition dedupePreservingOrder :: "RiskIndicator list \<Rightarrow> RiskIndicator list" where
  "dedupePreservingOrder is = dedupePreservingOrder_loop [] [] is"

definition TRANSFER_KINDS :: "OperationKind list" where
  "TRANSFER_KINDS = [pay, pathPaymentStrictReceive, pathPaymentStrictSend, accountMerge]"

definition build_meta :: "ResolvedOptions \<Rightarrow> SimulationRequest \<Rightarrow> SimulationMeta" where
  "build_meta opts req =
     \<lparr>meta_operationCount = nullish (Option.bind (resources req) operationCount) (length (operations req)),
      meta_invocationCount = length (filter (\<lambda>op. op_kind op = invokeContract) (operations req)),
      transferCount = length (filter (\<lambda>op. op_kind op \<in> set TRANSFER_KINDS) (operations req)),
      simulated = (outcome req \<noteq> None),
      simulationSucceeded = nullish (Option.bind (outcome req) success) False,
      hasBalanceDiff = (snapshotFor (Some (preState req)) (sourceAccount req) \<noteq> None
        \<and> snapshotFor (post_of req) (sourceAccount req) \<noteq> None),
      thresholds = opts\<rparr>"

definition simulate ::
  "(string \<Rightarrow> string \<Rightarrow> int) \<Rightarrow> (string \<Rightarrow> string) \<Rightarrow> string \<Rightarrow> SimulationEngineOptions
     \<Rightarrow> SimulationRequest \<Rightarrow> SimulationEngineOptions \<Rightarrow> SimulationReport" where
  "simulate lc remediation now defaults req options =
     (let opts = resolveOptions defaults options; is = all_indicators lc opts req in
      \<lparr>rep_sourceAccount = sourceAccount req, rep_network = network req, rep_label = label req, analyzedAt = now,
       drain = drain_analysis (drain_input_of opts req), rep_footprint = footprint_diff_of req,
       rep_contracts = contract_analysis lc (contract_input_of opts req),
       indicators = dedupePreservingOrder is,
       risk = scoreRisk lc remediation is (Some (riskBlockThreshold opts)),
       meta = build_meta opts req\<rparr>)"

definition scoreOnly ::
  "(string \<Rightarrow> string \<Rightarrow> int) \<Rightarrow> (string \<Rightarrow> string) \<Rightarrow> string \<Rightarrow> SimulationEngineOptions
     \<Rightarrow> SimulationRequest \<Rightarrow> SimulationEngineOptions \<Rightarrow> ThreatRiskAssessment" where
  "scoreOnly lc remediation now defaults req options = risk (simulate lc remediation now defaults req options)"

section \<open>A concrete request\<close>

definition no_options :: SimulationEngineOptions where
  "no_options = \<lparr>opt_nearTotalOutflowRatio = None, opt_fanOutDestinationThreshold = None,
     opt_sequentialTransferThreshold = None, opt_dustAmountStroops = None, opt_maxFootprintReadWriteKeys = None,
     opt_footprintProbeContractThreshold = None, opt_maxInvocationsPerContract = None, opt_riskBlockThreshold = None\<rparr>"

definition sample_merge :: SimulatedOperation where
  "sample_merge = \<lparr>op_kind = accountMerge, op_source = None, op_destination = Some ''GB'', op_amount = None,
     op_contractId = None, op_function = None\<rparr>"

definition sample_request :: SimulationRequest where
  "sample_request =
     \<lparr>sourceAccount = ''GA'', network = None, label = None, operations = [sample_merge], resources = None,
      preState = [\<lparr>as_accountId = ''GA'', nativeBalance = Some ''10'', balances = None\<rparr>],
      postState = Some [\<lparr>as_accountId = ''GA'', nativeBalance = Some ''0'', balances = None\<rparr>],
      outcome = None, contracts = None, trustRegistry = None\<rparr>"

section \<open>What the detectors contribute\<close>

lemma dedupePreservingOrder_loop_eq:
  "dedupePreservingOrder_loop seen result is = result @ first_wins code (set seen) is"
  by (induction seen result "is" rule: dedupePreservingOrder_loop.induct) simp_all

interpretation report: deduper dedupePreservingOrder code
  by unfold_locales (simp add: dedupePreservingOrder_def dedupePreservingOrder_loop_eq)

lemma dedupe_agree: "dedupePreservingOrder is = dedupeIndicators is"
  by (simp add: report.dedupe_first_wins dedupe.dedupe_first_wins)

lemma footprint_indicators_from:
  "i \<in> set (footprint_indicators opts req) \<Longrightarrow> \<exists>x. i \<in> set (analyzeFootprintThreats x)"
  by (auto simp: footprint_indicators_def split: option.splits)

lemma all_indicators_cases:
  assumes "i \<in> set (all_indicators lc opts req)"
  obtains (drain) x where "i \<in> set (drain_indicators x)"
  | (footprint) x where "i \<in> set (analyzeFootprintThreats x)"
  | (contract) x where "i \<in> set (contract_indicators lc x)"
  | (envelope) x where "i \<in> set (analyzeEnvelopeIntegrity x)"
  using assms footprint_indicators_from[of i opts req] unfolding all_indicators_def by auto

lemma all_indicators_weight:
  assumes "i \<in> set (all_indicators lc opts req)"
  shows "0 < weightOf i"
proof -
  from assms have "\<exists>w. weight i = Some w \<and> 0 < w"
    by (cases rule: all_indicators_cases)
      (use drain.detect_weight footprint.detect_weight contract.detect_weight envelope.detect_weight in blast)+
  then show ?thesis by (auto simp: weightOf_def)
qed

lemma all_indicators_code_category:
  assumes "i \<in> set (all_indicators lc opts req)"
  shows "(category i, code i) \<in> {cat_drain} \<times> set drain_codes \<union> {cat_footprint} \<times> set footprint_codes
    \<union> {cat_contract} \<times> set contract_codes \<union> {cat_envelope} \<times> set envelope_codes"
  using assms
  by (cases rule: all_indicators_cases)
    (auto dest: drain.detect_category drain.detect_code footprint.detect_category footprint.detect_code
      contract.detect_category contract.detect_code envelope.detect_category envelope.detect_code)

lemma total_weight_Cons [simp]: "total_weight (i # is) = weightOf i + total_weight is"
  by (simp add: total_weight_sum)

lemma two_members_le:
  assumes "i \<in> set is" "j \<in> set is" "i \<noteq> j"
  shows "weightOf i + weightOf j \<le> total_weight is"
  using assms
proof (induction "is")
  case (Cons k ks)
  consider "k = i" "j \<in> set ks" | "k = j" "i \<in> set ks" | "i \<in> set ks" "j \<in> set ks" using Cons.prems by auto
  then show ?case
    using member_weight_le[of j ks] member_weight_le[of i ks] Cons.IH Cons.prems(3) weightOf_nonneg[of k]
    by cases simp_all
qed simp

lemma dedupe_keeps_code:
  assumes "j \<in> set is" "code j = c" "\<And>i. i \<in> set is \<Longrightarrow> code i = c \<Longrightarrow> weightOf i = w"
  shows "\<exists>i. i \<in> set (dedupeIndicators is) \<and> code i = c \<and> weightOf i = w"
proof -
  have "c \<in> code ` set (dedupeIndicators is)" using assms(1,2) by (auto simp: dedupe.keys)
  then obtain i where "i \<in> set (dedupeIndicators is)" "code i = c" by auto
  then show ?thesis using dedupe.subset[of "is"] assms(3) by blast
qed

text \<open>Codes of the drain category come from the drain detector, with the weight of their rule.\<close>

lemma drain_code_weight:
  assumes "i \<in> set (all_indicators lc opts req)"
    and "(code i, w) \<in> {(''FULL_BALANCE_DRAIN'', 60), (''ACCOUNT_MERGE_SWEEP'', 40)}"
  shows "weightOf i = w"
  using assms(1)
proof (cases rule: all_indicators_cases)
  case (drain x)
  then show ?thesis using assms(2) unfolding drain_indicators_def Let_def set_append Un_iff
    by (elim disjE) (auto simp: drain_rules Let_def weightOf_def split: if_splits option.splits)
next
  case (footprint x)
  have "code i \<notin> set footprint_codes" using assms(2) by (auto simp: footprint_codes_def)
  then show ?thesis using footprint.foreign_code footprint by blast
next
  case (contract x)
  have "code i \<notin> set contract_codes" using assms(2) by (auto simp: contract_codes_def)
  then show ?thesis using contract.foreign_code contract by blast
next
  case (envelope x)
  have "code i \<notin> set envelope_codes" using assms(2) by (auto simp: envelope_codes_def)
  then show ?thesis using envelope.foreign_code envelope by blast
qed

lemma drain_code_kept:
  assumes "indicator c cat sev w \<in> set (all_indicators lc opts req)"
    and "(c, w) \<in> {(''FULL_BALANCE_DRAIN'', 60), (''ACCOUNT_MERGE_SWEEP'', 40)}"
  shows "\<exists>i. i \<in> set (dedupeIndicators (all_indicators lc opts req)) \<and> code i = c \<and> weightOf i = w"
proof (rule dedupe_keeps_code[OF assms(1)])
  fix i assume "i \<in> set (all_indicators lc opts req)" "code i = c"
  then show "weightOf i = w" using drain_code_weight assms(2) by blast
qed simp

lemma resolve_ratio:
  "1 / 100 \<le> nearTotalOutflowRatio (resolveOptions defaults options)"
  "nearTotalOutflowRatio (resolveOptions defaults options) \<le> 1"
  by (simp_all add: resolveOptions_def Let_def)

lemma merge_raised:
  assumes "op \<in> set (di_operations x)" "op_kind op = accountMerge" "truthy (op_destination op)"
    and "nullish (op_source op) (di_source x) = di_source x"
  shows "indicator ''ACCOUNT_MERGE_SWEEP'' cat_drain critical 40 \<in> set (drain_indicators x)"
proof -
  have "filter (\<lambda>op. op_kind op = accountMerge \<and> nullish (op_source op) (di_source x) = di_source x
      \<and> truthy (op_destination op)) (di_operations x) \<noteq> []"
    using assms by (auto simp: filter_empty_conv)
  then show ?thesis by (simp add: drain_indicators_def Let_def merge_rule_def)
qed

lemma sample_request_facts:
  "has_diff (drain_input_of opts sample_request)"
  "pre_balance (drain_input_of opts sample_request) ''native'' = 100000000"
  "post_balance (drain_input_of opts sample_request) ''native'' = 0"
  by (simp_all add: sample_request_def drain_input_of_def post_of_def has_diff_def pre_balance_def post_balance_def
      snapshotFor_def readBalances_def parse_str_def parse_literal)

section \<open>Properties\<close>

text \<open>C34. An emptied account is never passed as harmless: if the source account has balances before and
  after and some asset goes from a positive balance to nothing, then under any options the report
  contains the full-drain indicator, the score is at least 60 and the band at least HIGH.\<close>

theorem emptied_account_is_high_risk:
  assumes "has_diff (drain_input_of opts req)" and "opts = resolveOptions defaults options"
    and "0 < pre_balance (drain_input_of opts req) k" "post_balance (drain_input_of opts req) k = 0"
  shows "let r = simulate lc remediation now defaults req options in
    (\<exists>i. i \<in> set (indicators r) \<and> code i = ''FULL_BALANCE_DRAIN'') \<and> 60 \<le> score (risk r) \<and> HIGH \<le> band (risk r)"
proof -
  let ?is = "all_indicators lc opts req"
  have "indicator ''FULL_BALANCE_DRAIN'' cat_drain critical 60 \<in> set (drain_indicators (drain_input_of opts req))"
    using assms by (intro full_drain_raised) (simp_all add: drain_input_of_def resolve_ratio)
  then have m: "indicator ''FULL_BALANCE_DRAIN'' cat_drain critical 60 \<in> set ?is" by (simp add: all_indicators_def)
  obtain i where i: "i \<in> set (dedupeIndicators ?is)" "code i = ''FULL_BALANCE_DRAIN''" "weightOf i = 60"
    using drain_code_kept[OF m] by auto
  have s: "60 \<le> score (scoreRisk lc remediation ?is bt)" for bt
    unfolding score_eq using member_weight_le[OF i(1)] i(3) by simp
  have "scoreToBand 60 \<le> band (scoreRisk lc remediation ?is bt)" for bt
    using band_mono[OF s[of bt]] by (simp add: scoreRisk_def Let_def)
  then have "HIGH \<le> band (scoreRisk lc remediation ?is bt)" for bt
    by (simp add: scoreToBand_def SCORE_BANDS_def)
  then show ?thesis using i s by (auto simp: simulate_def Let_def assms(2)[symmetric] dedupe_agree)
qed

theorem emptied_account_is_high_risk_witness:
  "let r = simulate (\<lambda>_ _. 0) (\<lambda>c. c) ''now'' no_options sample_request no_options in
    (\<exists>i. i \<in> set (indicators r) \<and> code i = ''FULL_BALANCE_DRAIN'') \<and> 60 \<le> score (risk r) \<and> HIGH \<le> band (risk r)"
  by (rule emptied_account_is_high_risk[where opts = "resolveOptions no_options no_options" and k = "''native''"])
    (simp_all add: sample_request_facts)

text \<open>An emptied account that is also merged away is always blocked: with the same balances and an
  account merge of the source in the envelope the score is 100, so execution is blocked under every
  threshold an operator can set.\<close>

theorem emptied_and_merged_is_blocked:
  assumes "has_diff (drain_input_of opts req)" and "opts = resolveOptions defaults options"
    and "0 < pre_balance (drain_input_of opts req) k" "post_balance (drain_input_of opts req) k = 0"
    and "op \<in> set (operations req)" "op_kind op = accountMerge" "truthy (op_destination op)"
    and "nullish (op_source op) (sourceAccount req) = sourceAccount req"
  shows "let a = scoreOnly lc remediation now defaults req options in score a = 100 \<and> blockExecution a"
proof -
  let ?is = "all_indicators lc opts req"
  let ?x = "drain_input_of opts req"
  have "indicator ''FULL_BALANCE_DRAIN'' cat_drain critical 60 \<in> set (drain_indicators ?x)"
    using assms by (intro full_drain_raised) (simp_all add: drain_input_of_def resolve_ratio)
  moreover have "indicator ''ACCOUNT_MERGE_SWEEP'' cat_drain critical 40 \<in> set (drain_indicators ?x)"
    unfolding drain_input_of_def by (rule merge_raised[of op]) (use assms(5-8) in \<open>simp_all cong: option.case_cong\<close>)
  ultimately have m: "indicator ''FULL_BALANCE_DRAIN'' cat_drain critical 60 \<in> set ?is"
    "indicator ''ACCOUNT_MERGE_SWEEP'' cat_drain critical 40 \<in> set ?is" by (simp_all add: all_indicators_def)
  obtain i where i: "i \<in> set (dedupeIndicators ?is)" "code i = ''FULL_BALANCE_DRAIN''" "weightOf i = 60"
    using drain_code_kept[OF m(1)] by auto
  obtain j where j: "j \<in> set (dedupeIndicators ?is)" "code j = ''ACCOUNT_MERGE_SWEEP''" "weightOf j = 40"
    using drain_code_kept[OF m(2)] by auto
  have "i \<noteq> j" using i(2) j(2) by auto
  from two_members_le[OF i(1) j(1) this] have "100 \<le> total_weight (dedupeIndicators ?is)"
    using i(3) j(3) by simp
  then have "score (scoreRisk lc remediation ?is bt) = 100" for bt unfolding score_eq by simp
  moreover have "blockExecution (scoreRisk lc remediation ?is bt) \<longleftrightarrow>
      max 0 (min 100 (nullish bt DEFAULT_RISK_BLOCK_THRESHOLD)) \<le> score (scoreRisk lc remediation ?is bt)" for bt
    by (simp add: scoreRisk_def Let_def)
  ultimately show ?thesis by (simp add: scoreOnly_def simulate_def Let_def assms(2)[symmetric])
qed

theorem emptied_and_merged_is_blocked_witness:
  "let a = scoreOnly (\<lambda>_ _. 0) (\<lambda>c. c) ''now'' no_options sample_request no_options in score a = 100 \<and> blockExecution a"
  by (rule emptied_and_merged_is_blocked[where opts = "resolveOptions no_options no_options" and k = "''native''"
        and op = sample_merge])
    (simp_all add: sample_request_facts, simp_all add: sample_request_def sample_merge_def truthy_def)

text \<open>The report explains its score: the indicators it lists have distinct codes and are exactly the
  scored ones, so the score is the capped sum of their weights; it is zero only when nothing is listed;
  and every listed indicator belongs to the category whose detector owns its code.\<close>

theorem report_explains_score:
  "let r = simulate lc remediation now defaults req options in
   score (risk r) = min 100 (sum_list (map weightOf (indicators r)))
   \<and> (score (risk r) = 0 \<longleftrightarrow> indicators r = [])
   \<and> distinct (map code (indicators r))
   \<and> (\<forall>i. i \<in> set (indicators r) \<longrightarrow> (category i, code i) \<in> {cat_drain} \<times> set drain_codes
        \<union> {cat_footprint} \<times> set footprint_codes \<union> {cat_contract} \<times> set contract_codes
        \<union> {cat_envelope} \<times> set envelope_codes)"
proof -
  define opts where "opts = resolveOptions defaults options"
  define xs where "xs = all_indicators lc opts req"
  define ds where "ds = dedupeIndicators xs"
  have sub: "set ds \<subseteq> set xs" unfolding ds_def by (rule dedupe.subset)
  have pos: "0 < weightOf i" if "i \<in> set ds" for i
    using that sub all_indicators_weight[of i lc opts req] by (auto simp: xs_def)
  have "total_weight ds = 0 \<longleftrightarrow> ds = []"
  proof (cases ds)
    case (Cons i js)
    then have "0 < weightOf i" using pos by simp
    then show ?thesis using Cons total_weight_nonneg[of js] by simp
  qed (simp add: total_weight_sum)
  moreover have "score (scoreRisk lc remediation xs bt) = min 100 (total_weight ds)" for bt
    by (simp add: score_eq ds_def)
  moreover have "0 \<le> total_weight ds" by (rule total_weight_nonneg)
  moreover have "distinct (map code ds)" unfolding ds_def by (rule dedupe.distinct_keys)
  ultimately show ?thesis
    using sub all_indicators_code_category[of _ lc opts req]
    by (auto simp: simulate_def Let_def dedupe_agree total_weight_sum simp flip: opts_def xs_def ds_def)
qed

theorem report_explains_score_witness:
  "let r = simulate (\<lambda>_ _. 0) (\<lambda>c. c) ''now'' no_options sample_request no_options in
   score (risk r) = min 100 (sum_list (map weightOf (indicators r))) \<and> distinct (map code (indicators r))"
  using report_explains_score[of "\<lambda>_ _. 0" "\<lambda>c. c" "''now''" no_options sample_request no_options]
  unfolding Let_def by blast

end
