(* ===== verification/CircuitBreaker.thy ===== *)
theory CircuitBreaker
  imports Prelude
begin

text \<open>
  The in-memory circuit breaker for external HTTP targets (\<open>apps/api/src/lib/circuit-breaker.ts\<close>).
  The two maps of the class are the state, the clock is an argument of the operations that read it.
  The behaviour of a whole history of recorded outcomes is compared with a specification that only
  looks at the failures of a domain since its last success.
\<close>

record CircuitBreakerOptions =
  failureThreshold :: int
  cooldownMs :: int

datatype CircuitState = closed_circuit | open_circuit | half_open_circuit

record CircuitBreaker =
  failures :: "(string, int) jsmap"
  openedAt :: "(string, int) jsmap"
  threshold :: int
  cooldown :: int

definition default_options :: CircuitBreakerOptions where
  "default_options = \<lparr>failureThreshold = 10, cooldownMs = 60000\<rparr>"

definition newCircuitBreaker :: "CircuitBreakerOptions \<Rightarrow> CircuitBreaker" where
  "newCircuitBreaker opts =
     \<lparr>failures = [], openedAt = [], threshold = failureThreshold opts, cooldown = cooldownMs opts\<rparr>"

definition getState :: "CircuitBreaker \<Rightarrow> int \<Rightarrow> string \<Rightarrow> CircuitState" where
  "getState cb now domain =
     (let fs = (case map_of (failures cb) domain of Some n \<Rightarrow> n | None \<Rightarrow> 0) in
      case map_of (openedAt cb) domain of
        None \<Rightarrow> closed_circuit
      | Some at \<Rightarrow>
          if fs < threshold cb then closed_circuit
          else if now - at \<ge> cooldown cb then half_open_circuit
          else open_circuit)"

definition recordSuccess :: "CircuitBreaker \<Rightarrow> string \<Rightarrow> CircuitBreaker" where
  "recordSuccess cb domain =
     cb\<lparr>failures := AList.delete domain (failures cb), openedAt := AList.delete domain (openedAt cb)\<rparr>"

definition recordFailure :: "CircuitBreaker \<Rightarrow> int \<Rightarrow> string \<Rightarrow> CircuitBreaker" where
  "recordFailure cb now domain =
     (let current = (case map_of (failures cb) domain of Some n \<Rightarrow> n | None \<Rightarrow> 0);
          next = current + 1;
          cb' = cb\<lparr>failures := AList.update domain next (failures cb)\<rparr> in
      if next \<ge> threshold cb \<and> map_of (openedAt cb) domain = None
      then cb'\<lparr>openedAt := AList.update domain now (openedAt cb')\<rparr> else cb')"

definition isOpen :: "CircuitBreaker \<Rightarrow> int \<Rightarrow> string \<Rightarrow> bool" where
  "isOpen cb now domain \<longleftrightarrow> getState cb now domain = open_circuit"

section \<open>Histories and their specification\<close>

datatype outcome_event = Succeeded string | Failed string int

fun record_outcome :: "CircuitBreaker \<Rightarrow> outcome_event \<Rightarrow> CircuitBreaker" where
  "record_outcome cb (Succeeded d) = recordSuccess cb d"
| "record_outcome cb (Failed d t) = recordFailure cb t d"

definition run_outcomes :: "CircuitBreakerOptions \<Rightarrow> outcome_event list \<Rightarrow> CircuitBreaker" where
  "run_outcomes opts es = foldl record_outcome (newCircuitBreaker opts) es"

text \<open>The times of the failures of a domain since its last success.\<close>

fun streak_step :: "string \<Rightarrow> int list \<Rightarrow> outcome_event \<Rightarrow> int list" where
  "streak_step d ts (Succeeded d') = (if d' = d then [] else ts)"
| "streak_step d ts (Failed d' t) = (if d' = d then ts @ [t] else ts)"

definition streak :: "string \<Rightarrow> outcome_event list \<Rightarrow> int list" where
  "streak d es = foldl (streak_step d) [] es"

definition spec_state :: "CircuitBreakerOptions \<Rightarrow> int list \<Rightarrow> int \<Rightarrow> CircuitState" where
  "spec_state opts ts now =
     (if ts = [] \<or> int (length ts) < failureThreshold opts then closed_circuit
      else if now - ts ! nat (failureThreshold opts - 1) \<ge> cooldownMs opts then half_open_circuit
      else open_circuit)"

text \<open>The refinement relation between the maps of the class and the streaks of a history.\<close>

definition abstracts :: "CircuitBreakerOptions \<Rightarrow> (string \<Rightarrow> int list) \<Rightarrow> CircuitBreaker \<Rightarrow> bool" where
  "abstracts opts str cb \<longleftrightarrow> threshold cb = failureThreshold opts \<and> cooldown cb = cooldownMs opts
     \<and> (\<forall>d. map_of (failures cb) d = (if str d = [] then None else Some (int (length (str d)))))
     \<and> (\<forall>d. map_of (openedAt cb) d =
          (if str d = [] \<or> int (length (str d)) < failureThreshold opts then None
           else Some (str d ! nat (failureThreshold opts - 1))))"

lemma abstracts_new: "abstracts opts (\<lambda>_. []) (newCircuitBreaker opts)"
  by (simp add: abstracts_def newCircuitBreaker_def)

lemma abstracts_step:
  assumes "abstracts opts str cb"
  shows "abstracts opts (\<lambda>d. streak_step d (str d) e) (record_outcome cb e)"
proof (cases e)
  case (Succeeded d)
  then show ?thesis using assms by (auto simp: abstracts_def recordSuccess_def)
next
  case (Failed d t)
  have n: "nat (failureThreshold opts - 1) < length (str d)"
    if "str d \<noteq> []" "\<not> int (length (str d)) < failureThreshold opts"
    using that by (cases "str d") auto
  have m: "nat (failureThreshold opts - 1) = length (str d)"
    if "\<not> int (length (str d)) + 1 < failureThreshold opts"
      "str d = [] \<or> int (length (str d)) < failureThreshold opts"
    using that by auto
  show ?thesis
  proof (cases "str d = [] \<or> int (length (str d)) < failureThreshold opts")
    case True
    then show ?thesis using assms Failed m
      by (auto simp: abstracts_def recordFailure_def Let_def nth_append)
  next
    case False
    then show ?thesis using assms Failed n
      by (auto simp: abstracts_def recordFailure_def Let_def nth_append)
  qed
qed

text \<open>The refinement as an invariant of the machine that records the history beside the maps.\<close>

definition history_step :: "outcome_event list \<times> CircuitBreaker \<Rightarrow> outcome_event \<Rightarrow> outcome_event list \<times> CircuitBreaker" where
  "history_step s e = (fst s @ [e], record_outcome (snd s) e)"

definition history_ok :: "CircuitBreakerOptions \<Rightarrow> outcome_event list \<times> CircuitBreaker \<Rightarrow> bool" where
  "history_ok opts s \<longleftrightarrow> abstracts opts (\<lambda>d. streak d (fst s)) (snd s)"

interpretation breaker: inv_machine history_step "history_ok opts" for opts
proof
  fix s e
  assume "history_ok opts s"
  then show "history_ok opts (history_step s e)"
    using abstracts_step[of opts "\<lambda>d. streak d (fst s)" "snd s" e]
    by (simp add: history_ok_def history_step_def streak_def)
qed

lemma foldl_history_step: "foldl history_step (hs, cb) es = (hs @ es, foldl record_outcome cb es)"
  by (induction es arbitrary: hs cb) (simp_all add: history_step_def)

lemma abstracts_run: "abstracts opts (\<lambda>d. streak d es) (run_outcomes opts es)"
  using breaker.run_inv[of opts "([], newCircuitBreaker opts)" es] abstracts_new[of opts]
  by (simp add: foldl_history_step history_ok_def run_outcomes_def streak_def)

lemma getState_abstracts: "abstracts opts str cb \<Longrightarrow> getState cb now d = spec_state opts (str d) now"
  by (auto simp: abstracts_def getState_def spec_state_def Let_def)


lemma streak_append: "streak d (es @ es') = foldl (streak_step d) (streak d es) es'"
  by (simp add: streak_def)

lemma streak_extends:
  "Succeeded d \<notin> set es \<Longrightarrow> \<exists>us. foldl (streak_step d) ts es = ts @ us"
proof (induction es arbitrary: ts)
  case (Cons e es)
  then obtain us where "foldl (streak_step d) (streak_step d ts e) es = streak_step d ts e @ us"
    by (metis list.set_intros(2))
  then show ?case using Cons.prems by (cases e) auto
qed simp

lemma spec_half_open_mono:
  assumes "spec_state opts ts now = half_open_circuit" and "now \<le> now'"
  shows "spec_state opts (ts @ us) now' = half_open_circuit"
proof -
  have ts: "ts \<noteq> []" "\<not> int (length ts) < failureThreshold opts"
    "now - ts ! nat (failureThreshold opts - 1) \<ge> cooldownMs opts"
    using assms(1) by (auto simp: spec_state_def split: if_splits)
  then have "nat (failureThreshold opts - 1) < length ts" by (cases ts) auto
  then show ?thesis using ts assms(2) by (simp add: spec_state_def nth_append)
qed

text \<open>A failed probe does not re-open the circuit: once a domain is half-open it stays half-open, for
  every number and every time of further failures, until a success is recorded. Requests are therefore
  never blocked again after the first cooldown.\<close>

theorem half_open_is_never_left_by_failure:
  assumes "getState (run_outcomes opts es) now d = half_open_circuit" and "now \<le> now'"
    and "Succeeded d \<notin> set es'"
  shows "getState (run_outcomes opts (es @ es')) now' d = half_open_circuit
    \<and> \<not> isOpen (run_outcomes opts (es @ es')) now' d"
proof -
  obtain us where us: "streak d (es @ es') = streak d es @ us"
    using streak_extends[OF assms(3), of "streak d es"] by (auto simp: streak_append)
  have "spec_state opts (streak d es) now = half_open_circuit"
    using assms(1) getState_abstracts[OF abstracts_run] by simp
  then have "spec_state opts (streak d (es @ es')) now' = half_open_circuit"
    using spec_half_open_mono[OF _ assms(2)] us by simp
  then show ?thesis using getState_abstracts[OF abstracts_run, of opts "es @ es'" now' d]
    by (simp add: isOpen_def)
qed

theorem half_open_is_never_left_by_failure_witness:
  "let opts = \<lparr>failureThreshold = 2, cooldownMs = 100\<rparr>; es = [Failed ''a'' 0, Failed ''a'' 10];
       cb = run_outcomes opts (es @ [Failed ''a'' 110, Failed ''b'' 115, Failed ''a'' 120]) in
   getState (run_outcomes opts es) 60 ''a'' = open_circuit \<and> getState cb 125 ''a'' = half_open_circuit
   \<and> \<not> isOpen cb 125 ''a''"
proof -
  have h: "getState (run_outcomes \<lparr>failureThreshold = 2, cooldownMs = 100\<rparr> [Failed ''a'' 0, Failed ''a'' 10]) 110 ''a''
      = half_open_circuit"
    "getState (run_outcomes \<lparr>failureThreshold = 2, cooldownMs = 100\<rparr> [Failed ''a'' 0, Failed ''a'' 10]) 60 ''a''
      = open_circuit"
    by (simp_all add: run_outcomes_def newCircuitBreaker_def recordFailure_def getState_def Let_def)
  show ?thesis
    using half_open_is_never_left_by_failure[OF h(1), of 125 "[Failed ''a'' 110, Failed ''b'' 115, Failed ''a'' 120]"] h(2)
    by (simp only: Let_def) simp
qed

end
