(* ===== verification/BatchDispatcher.thy ===== *)
theory BatchDispatcher
  imports Complex_Main Prelude
begin

text \<open>
  Notification batching (\<open>apps/api/src/modules/alerts/batch-dispatcher.ts\<close>). The state of the class is a
  record: the map of targets, the pending timers of the event loop with the objects their callbacks
  captured, the batches emitted so far and the supply of fresh identities. A timer is a handle with the
  target id, the identity of the captured \<open>TargetState\<close> object and the instant it is due.
  \<open>crypto.randomUUID\<close> is a parameter: the function \<open>uuid\<close> gives the draws in order. An operation
  runs to completion and reads the clock once; listeners of \<open>flush\<close> do not call back into the dispatcher.
  A number option that is undefined or not finite is \<^const>\<open>None\<close>. The event data, with every further
  field of a notification, is opaque text. A batch is serialised by \<open>JSON.stringify\<close> of its events,
  which is not modelled.
\<close>

section \<open>Dates\<close>

text \<open>The proleptic Gregorian date of a day number (days since 1970-01-01), by eras of 400 years.\<close>

definition civil_date :: "int \<Rightarrow> int \<times> int \<times> int" where
  "civil_date day =
     (let z = day + 719468; era = z div 146097; doe = z mod 146097;
          yoe = (doe - doe div 1460 + doe div 36524 - doe div 146096) div 365;
          doy = doe - (365 * yoe + yoe div 4 - yoe div 100);
          mp = (5 * doy + 2) div 153;
          d = doy - (153 * mp + 2) div 5 + 1;
          m = (if mp < 10 then mp + 3 else mp - 9);
          y = yoe + era * 400 + (if m \<le> 2 then 1 else 0) in
      (y, m, d))"

definition pad :: "nat \<Rightarrow> int \<Rightarrow> string" where
  "pad n i = padStart n CHR ''0'' (nat_str (nat i))"

definition toISOString :: "int \<Rightarrow> string" where
  "toISOString ms =
     (let (y, m, d) = civil_date (ms div 86400000); t = ms mod 86400000 in
      (if 0 \<le> y \<and> y \<le> 9999 then pad 4 y else (if y < 0 then ''-'' else ''+'') @ pad 6 \<bar>y\<bar>)
      @ ''-'' @ pad 2 m @ ''-'' @ pad 2 d @ ''T'' @ pad 2 (t div 3600000) @ '':''
      @ pad 2 (t div 60000 mod 60) @ '':'' @ pad 2 (t div 1000 mod 60) @ ''.'' @ pad 3 (t mod 1000) @ ''Z'')"

section \<open>Data\<close>

definition DEFAULT_BATCH_MAX_SIZE :: nat where "DEFAULT_BATCH_MAX_SIZE = 100"
definition DEFAULT_BATCH_WINDOW_MS :: int where "DEFAULT_BATCH_WINDOW_MS = 5000"
definition MIN_BATCH_WINDOW_MS :: int where "MIN_BATCH_WINDOW_MS = 1000"
definition MAX_BATCH_WINDOW_MS :: int where "MAX_BATCH_WINDOW_MS = 10000"

record BatchableNotification =
  bn_deliveryId :: "string option"
  bn_event :: string
  bn_timestamp :: "string option"
  bn_data :: string

record BatchTarget =
  bt_targetId :: "string option"
  bt_webhookId :: "string option"
  bt_url :: "string option"
  bt_secret :: "string option"

datatype target_arg = TargetName string | TargetObject BatchTarget

record NormalizedBatchTarget =
  nt_targetId :: string
  nt_webhookId :: "string option"
  nt_url :: "string option"
  nt_secret :: "string option"

record BatchedNotification =
  ev_deliveryId :: string
  ev_event :: string
  ev_timestamp :: string
  ev_data :: string

record WebhookBatch =
  wb_target :: NormalizedBatchTarget
  wb_batchId :: string
  wb_events :: "BatchedNotification list"
  wb_count :: nat
  wb_createdAt :: int
  wb_windowStart :: int
  wb_windowEnd :: int

record BatchDispatcherOptions =
  opt_maxBatchSize :: "rat option"
  opt_windowMs :: "rat option"

record TargetState =
  ts_object :: nat
  ts_target :: NormalizedBatchTarget
  ts_events :: "BatchedNotification list"
  ts_windowStart :: int
  ts_timer :: "nat option"

record Dispatcher =
  maxBatchSize :: nat
  windowMs :: int
  targets :: "(string, TargetState) jsmap"
  timers :: "(nat, string \<times> nat \<times> int) jsmap"
  emitted :: "WebhookBatch list"
  next_id :: nat
  drawn :: nat

datatype batch_error = RequiresTargetId

section \<open>Operations\<close>

definition clampWindow :: "rat option \<Rightarrow> int" where
  "clampWindow w =
     (case w of None \<Rightarrow> DEFAULT_BATCH_WINDOW_MS
      | Some x \<Rightarrow> min MAX_BATCH_WINDOW_MS (max MIN_BATCH_WINDOW_MS \<lfloor>x\<rfloor>))"

definition normalizeTarget :: "target_arg \<Rightarrow> batch_error + NormalizedBatchTarget" where
  "normalizeTarget target =
     (case target of
        TargetName s \<Rightarrow> Inr \<lparr>nt_targetId = s, nt_webhookId = None, nt_url = None, nt_secret = None\<rparr>
      | TargetObject t \<Rightarrow>
          (case (case bt_targetId t of Some i \<Rightarrow> Some i
                 | None \<Rightarrow> (case bt_webhookId t of Some i \<Rightarrow> Some i | None \<Rightarrow> bt_url t)) of
             None \<Rightarrow> Inl RequiresTargetId
           | Some i \<Rightarrow>
               if i = [] then Inl RequiresTargetId
               else Inr \<lparr>nt_targetId = i, nt_webhookId = bt_webhookId t, nt_url = bt_url t, nt_secret = bt_secret t\<rparr>))"

definition newBatchDispatcher :: "BatchDispatcherOptions \<Rightarrow> Dispatcher" where
  "newBatchDispatcher options =
     \<lparr>maxBatchSize = (case opt_maxBatchSize options of
          Some x \<Rightarrow> if of_int \<lfloor>x\<rfloor> = x \<and> x > 0 then nat \<lfloor>x\<rfloor> else DEFAULT_BATCH_MAX_SIZE
        | None \<Rightarrow> DEFAULT_BATCH_MAX_SIZE),
      windowMs = clampWindow (case opt_windowMs options of
          Some x \<Rightarrow> Some x | None \<Rightarrow> Some (of_int DEFAULT_BATCH_WINDOW_MS)),
      targets = [], timers = [], emitted = [], next_id = 0, drawn = 0\<rparr>"

text \<open>The object spread \<open>{...state.target, ...stripUndefined(normalized)}\<close>.\<close>

definition fill :: "'a option \<Rightarrow> 'a option \<Rightarrow> 'a option" where
  "fill old new = (case new of Some v \<Rightarrow> Some v | None \<Rightarrow> old)"

definition merge_target :: "NormalizedBatchTarget \<Rightarrow> NormalizedBatchTarget \<Rightarrow> NormalizedBatchTarget" where
  "merge_target old new =
     \<lparr>nt_targetId = nt_targetId new, nt_webhookId = fill (nt_webhookId old) (nt_webhookId new),
      nt_url = fill (nt_url old) (nt_url new), nt_secret = fill (nt_secret old) (nt_secret new)\<rparr>"

definition clear_timer :: "nat option \<Rightarrow> Dispatcher \<Rightarrow> Dispatcher" where
  "clear_timer t bd = (case t of Some h \<Rightarrow> bd\<lparr>timers := AList.delete h (timers bd)\<rparr> | None \<Rightarrow> bd)"

definition make_batch :: "(nat \<Rightarrow> string) \<Rightarrow> int \<Rightarrow> Dispatcher \<Rightarrow> TargetState \<Rightarrow> WebhookBatch" where
  "make_batch uuid now bd st =
     \<lparr>wb_target = ts_target st, wb_batchId = uuid (drawn bd), wb_events = ts_events st,
      wb_count = length (ts_events st), wb_createdAt = ts_windowStart st,
      wb_windowStart = ts_windowStart st, wb_windowEnd = now\<rparr>"

definition flush :: "(nat \<Rightarrow> string) \<Rightarrow> int \<Rightarrow> Dispatcher \<Rightarrow> string \<Rightarrow> Dispatcher \<times> WebhookBatch option" where
  "flush uuid now bd tid =
     (case map_of (targets bd) tid of
        None \<Rightarrow> (bd\<lparr>targets := AList.delete tid (targets bd)\<rparr>, None)
      | Some st \<Rightarrow>
          (let bd1 = (clear_timer (ts_timer st) bd)\<lparr>targets := AList.delete tid (targets bd)\<rparr> in
           if length (ts_events st) = 0 then (bd1, None)
           else
             (let batch = make_batch uuid now bd st in
              (bd1\<lparr>drawn := drawn bd + 1, emitted := emitted bd @ [batch]\<rparr>, Some batch))))"

definition target_state :: "int \<Rightarrow> NormalizedBatchTarget \<Rightarrow> Dispatcher \<Rightarrow> TargetState" where
  "target_state now nt bd =
     (let st = (case map_of (targets bd) (nt_targetId nt) of
          Some existing \<Rightarrow> existing
        | None \<Rightarrow> \<lparr>ts_object = next_id bd, ts_target = nt, ts_events = [], ts_windowStart = now, ts_timer = None\<rparr>) in
      st\<lparr>ts_target := merge_target (ts_target st) nt\<rparr>)"

definition has_delivery_id :: "BatchableNotification \<Rightarrow> bool" where
  "has_delivery_id n = (case bn_deliveryId n of Some d \<Rightarrow> d \<noteq> [] \<and> trim d \<noteq> [] | None \<Rightarrow> False)"

definition make_event :: "int \<Rightarrow> string \<Rightarrow> BatchableNotification \<Rightarrow> BatchedNotification" where
  "make_event now did n =
     \<lparr>ev_deliveryId = did, ev_event = bn_event n,
      ev_timestamp = (case bn_timestamp n of Some t \<Rightarrow> t | None \<Rightarrow> toISOString now), ev_data = bn_data n\<rparr>"

definition schedule :: "int \<Rightarrow> string \<Rightarrow> TargetState \<Rightarrow> Dispatcher \<Rightarrow> Dispatcher" where
  "schedule now tid st bd =
     bd\<lparr>targets := AList.update tid (st\<lparr>ts_timer := Some (next_id bd)\<rparr>) (targets bd),
        timers := AList.update (next_id bd) (tid, ts_object st, now + windowMs bd) (timers bd),
        next_id := next_id bd + 1\<rparr>"

definition enqueue ::
  "(nat \<Rightarrow> string) \<Rightarrow> int \<Rightarrow> Dispatcher \<Rightarrow> target_arg \<Rightarrow> BatchableNotification
     \<Rightarrow> Dispatcher \<times> (batch_error + (string \<times> string \<times> nat))" where
  "enqueue uuid now bd target n =
     (case normalizeTarget target of
        Inl e \<Rightarrow> (bd, Inl e)
      | Inr nt \<Rightarrow>
          (let tid = nt_targetId nt;
               st = target_state now nt bd;
               did = (if has_delivery_id n then the (bn_deliveryId n) else uuid (drawn bd));
               st' = st\<lparr>ts_events := ts_events st @ [make_event now did n]\<rparr>;
               bd1 = bd\<lparr>targets := AList.update tid st' (targets bd), next_id := next_id bd + 1,
                        drawn := drawn bd + (if has_delivery_id n then 0 else 1)\<rparr>;
               bd2 = (if length (ts_events st') \<ge> maxBatchSize bd then fst (flush uuid now bd1 tid)
                      else if ts_timer st' = None then schedule now tid st' bd1
                      else bd1) in
           (bd2, Inr (tid, did, length (ts_events st')))))"

text \<open>The callback of a timer that is due: it clears the \<open>timer\<close> field of the object it captured and
  flushes the target id.\<close>

definition fire :: "(nat \<Rightarrow> string) \<Rightarrow> int \<Rightarrow> Dispatcher \<Rightarrow> nat \<Rightarrow> Dispatcher" where
  "fire uuid now bd h =
     (case map_of (timers bd) h of
        None \<Rightarrow> bd
      | Some (tid, obj, due) \<Rightarrow>
          if now < due then bd
          else
            (let bd1 = bd\<lparr>timers := AList.delete h (timers bd)\<rparr>;
                 bd2 = (case map_of (targets bd1) tid of
                          Some st \<Rightarrow> if ts_object st = obj
                            then bd1\<lparr>targets := AList.update tid (st\<lparr>ts_timer := None\<rparr>) (targets bd1)\<rparr> else bd1
                        | None \<Rightarrow> bd1) in
             fst (flush uuid now bd2 tid)))"

fun flush_keys :: "(nat \<Rightarrow> string) \<Rightarrow> int \<Rightarrow> Dispatcher \<Rightarrow> string list \<Rightarrow> Dispatcher \<times> WebhookBatch list" where
  "flush_keys uuid now bd [] = (bd, [])"
| "flush_keys uuid now bd (k # ks) =
     (let (bd1, b) = flush uuid now bd k; (bd2, bs) = flush_keys uuid now bd1 ks in
      (bd2, (case b of Some x \<Rightarrow> x # bs | None \<Rightarrow> bs)))"

definition flushAll :: "(nat \<Rightarrow> string) \<Rightarrow> int \<Rightarrow> Dispatcher \<Rightarrow> Dispatcher \<times> WebhookBatch list" where
  "flushAll uuid now bd = flush_keys uuid now bd (map fst (targets bd))"

definition pending :: "Dispatcher \<Rightarrow> string option \<Rightarrow> nat" where
  "pending bd tid =
     (case tid of
        Some t \<Rightarrow> (case map_of (targets bd) t of Some st \<Rightarrow> length (ts_events st) | None \<Rightarrow> 0)
      | None \<Rightarrow> foldl (\<lambda>total kv. total + length (ts_events (snd kv))) 0 (targets bd))"

definition pendingTargets :: "Dispatcher \<Rightarrow> string list" where
  "pendingTargets bd = map fst (targets bd)"

definition close :: "(nat \<Rightarrow> string) \<Rightarrow> int \<Rightarrow> Dispatcher \<Rightarrow> Dispatcher \<times> WebhookBatch list" where
  "close uuid now bd =
     (let (bd1, batches) = flushAll uuid now bd;
          bd2 = foldl (\<lambda>b kv. clear_timer (ts_timer (snd kv)) b) bd1 (targets bd1) in
      (bd2\<lparr>targets := []\<rparr>, batches))"

section \<open>Histories\<close>

datatype bd_event =
    Enqueue target_arg BatchableNotification
  | Flush string
  | FlushAll
  | Fire nat
  | Close

text \<open>One call at a time; the log keeps what \<open>enqueue\<close> returned to its callers.\<close>

type_synonym bd_state = "Dispatcher \<times> (string \<times> string) list"

fun bd_step :: "(nat \<Rightarrow> string) \<Rightarrow> bd_state \<Rightarrow> int \<times> bd_event \<Rightarrow> bd_state" where
  "bd_step uuid (bd, acc) (now, Enqueue target n) =
     (case enqueue uuid now bd target n of
        (bd', Inl _) \<Rightarrow> (bd', acc)
      | (bd', Inr (tid, did, _)) \<Rightarrow> (bd', acc @ [(tid, did)]))"
| "bd_step uuid (bd, acc) (now, Flush tid) = (fst (flush uuid now bd tid), acc)"
| "bd_step uuid (bd, acc) (now, FlushAll) = (fst (flushAll uuid now bd), acc)"
| "bd_step uuid (bd, acc) (now, Fire h) = (fire uuid now bd h, acc)"
| "bd_step uuid (bd, acc) (now, Close) = (fst (close uuid now bd), acc)"

definition bd_run :: "(nat \<Rightarrow> string) \<Rightarrow> BatchDispatcherOptions \<Rightarrow> (int \<times> bd_event) list \<Rightarrow> bd_state" where
  "bd_run uuid options es = foldl (bd_step uuid) (newBatchDispatcher options, []) es"

section \<open>Invariant\<close>

definition pend :: "Dispatcher \<Rightarrow> string \<Rightarrow> BatchedNotification list" where
  "pend bd k = (case map_of (targets bd) k of Some st \<Rightarrow> ts_events st | None \<Rightarrow> [])"

definition sent :: "Dispatcher \<Rightarrow> string \<Rightarrow> BatchedNotification list" where
  "sent bd k = concat (map wb_events (filter (\<lambda>b. nt_targetId (wb_target b) = k) (emitted bd)))"

text \<open>The buffered part of a target, in a state between two operations.\<close>

definition target_ok :: "Dispatcher \<Rightarrow> string \<Rightarrow> TargetState \<Rightarrow> bool" where
  "target_ok bd k st \<longleftrightarrow> ts_events st \<noteq> [] \<and> length (ts_events st) < maxBatchSize bd
     \<and> nt_targetId (ts_target st) = k
     \<and> (\<exists>h. ts_timer st = Some h \<and> map_of (timers bd) h = Some (k, ts_object st, ts_windowStart st + windowMs bd))"

definition timers_ok :: "Dispatcher \<Rightarrow> bool" where
  "timers_ok bd \<longleftrightarrow> (\<forall>h k obj due. map_of (timers bd) h = Some (k, obj, due) \<longrightarrow>
     h < next_id bd \<and> (\<exists>st. map_of (targets bd) k = Some st \<and> ts_timer st = Some h \<and> ts_object st = obj))"

definition batch_ok :: "Dispatcher \<Rightarrow> WebhookBatch \<Rightarrow> bool" where
  "batch_ok bd b \<longleftrightarrow> wb_count b = length (wb_events b) \<and> 1 \<le> wb_count b \<and> wb_count b \<le> maxBatchSize bd"

definition bd_inv :: "Dispatcher \<Rightarrow> bool" where
  "bd_inv bd \<longleftrightarrow> 0 < maxBatchSize bd \<and> timers_ok bd
     \<and> (\<forall>k st. map_of (targets bd) k = Some st \<longrightarrow> target_ok bd k st)
     \<and> (\<forall>b. b \<in> set (emitted bd) \<longrightarrow> batch_ok bd b)"

text \<open>During an operation one target may have a full buffer or no timer.\<close>

definition bd_inv_except :: "string \<Rightarrow> Dispatcher \<Rightarrow> bool" where
  "bd_inv_except t bd \<longleftrightarrow> 0 < maxBatchSize bd
     \<and> (\<forall>h k obj due. map_of (timers bd) h = Some (k, obj, due) \<longrightarrow>
          h < next_id bd \<and> (\<exists>st. map_of (targets bd) k = Some st \<and> ts_timer st = Some h \<and> ts_object st = obj))
     \<and> (\<forall>k st. map_of (targets bd) k = Some st \<longrightarrow> k \<noteq> t \<longrightarrow> target_ok bd k st)
     \<and> (\<forall>st. map_of (targets bd) t = Some st \<longrightarrow> length (ts_events st) \<le> maxBatchSize bd \<and> nt_targetId (ts_target st) = t
          \<and> (\<forall>h. ts_timer st = Some h \<longrightarrow> map_of (timers bd) h = Some (t, ts_object st, ts_windowStart st + windowMs bd)))
     \<and> (\<forall>b. b \<in> set (emitted bd) \<longrightarrow> batch_ok bd b)"

lemma bd_inv_except_I: "bd_inv bd \<Longrightarrow> bd_inv_except t bd"
  unfolding bd_inv_def bd_inv_except_def timers_ok_def target_ok_def by (fastforce intro: less_imp_le)

lemma bd_inv_except_D:
  "bd_inv_except t bd \<Longrightarrow> (\<And>st. map_of (targets bd) t = Some st \<Longrightarrow> target_ok bd t st) \<Longrightarrow> bd_inv bd"
  unfolding bd_inv_def bd_inv_except_def timers_ok_def by blast

lemma flush_fields [simp]:
  "maxBatchSize (fst (flush uuid now bd t)) = maxBatchSize bd"
  "windowMs (fst (flush uuid now bd t)) = windowMs bd"
  "next_id (fst (flush uuid now bd t)) = next_id bd"
  "map_of (targets (fst (flush uuid now bd t))) = (map_of (targets bd))(t := None)"
  by (auto simp: flush_def clear_timer_def Let_def fun_eq_iff split: option.splits)

lemma flush_timers:
  "map_of (timers (fst (flush uuid now bd t))) h =
   (case map_of (targets bd) t of
      Some st \<Rightarrow> if ts_timer st = Some h then None else map_of (timers bd) h | None \<Rightarrow> map_of (timers bd) h)"
  by (auto simp: flush_def clear_timer_def Let_def split: option.splits)

lemma flush_emitted:
  "emitted (fst (flush uuid now bd t)) =
   (case map_of (targets bd) t of
      Some st \<Rightarrow> if ts_events st = [] then emitted bd else emitted bd @ [make_batch uuid now bd st]
    | None \<Rightarrow> emitted bd)"
  by (auto simp: flush_def clear_timer_def Let_def split: option.splits)

lemma flush_inv:
  assumes "bd_inv_except t bd"
  shows "bd_inv (fst (flush uuid now bd t))"
proof -
  let ?r = "fst (flush uuid now bd t)"
  have b: "batch_ok ?r b" if "b \<in> set (emitted ?r)" for b
    using that assms
    by (auto simp: flush_emitted bd_inv_except_def batch_ok_def make_batch_def Suc_le_eq split: option.splits if_splits)
  have tm: "timers_ok ?r"
    unfolding timers_ok_def
  proof (intro allI impI)
    fix h k obj due
    assume h: "map_of (timers ?r) h = Some (k, obj, due)"
    then have h': "map_of (timers bd) h = Some (k, obj, due)"
      by (auto simp: flush_timers split: option.splits if_splits)
    then obtain st where st: "map_of (targets bd) k = Some st" "ts_timer st = Some h" "ts_object st = obj" "h < next_id bd"
      using assms by (auto simp: bd_inv_except_def) blast
    then have "k \<noteq> t" using h by (auto simp: flush_timers)
    then show "h < next_id ?r \<and> (\<exists>st. map_of (targets ?r) k = Some st \<and> ts_timer st = Some h \<and> ts_object st = obj)"
      using st by simp
  qed
  have tg: "target_ok ?r k st" if k: "map_of (targets ?r) k = Some st" for k st
  proof -
    have "k \<noteq> t" "map_of (targets bd) k = Some st" using k by (auto split: if_splits)
    then have ok: "target_ok bd k st" using assms by (auto simp: bd_inv_except_def)
    then obtain h where h: "ts_timer st = Some h" "map_of (timers bd) h = Some (k, ts_object st, ts_windowStart st + windowMs bd)"
      by (auto simp: target_ok_def)
    have "ts_timer st0 \<noteq> Some h" if "map_of (targets bd) t = Some st0" for st0
      using h assms that \<open>k \<noteq> t\<close> by (auto simp: bd_inv_except_def)
    then show ?thesis using ok h by (auto simp: target_ok_def flush_timers split: option.splits)
  qed
  show ?thesis using assms b tm tg by (auto simp: bd_inv_def bd_inv_except_def)
qed

lemma flush_view:
  assumes "bd_inv_except t bd"
  shows "sent (fst (flush uuid now bd t)) k @ pend (fst (flush uuid now bd t)) k = sent bd k @ pend bd k"
  using assms
  by (auto simp: sent_def pend_def flush_emitted make_batch_def bd_inv_except_def split: option.splits)

lemma flush_keys_inv:
  "bd_inv bd \<Longrightarrow> bd_inv (fst (flush_keys uuid now bd ks))
   \<and> (\<forall>k. sent (fst (flush_keys uuid now bd ks)) k @ pend (fst (flush_keys uuid now bd ks)) k = sent bd k @ pend bd k)
   \<and> map_of (targets (fst (flush_keys uuid now bd ks))) = (\<lambda>k. if k \<in> set ks then None else map_of (targets bd) k)"
proof (induction ks arbitrary: bd)
  case (Cons k ks)
  let ?b = "fst (flush uuid now bd k)"
  have inv: "bd_inv ?b" by (rule flush_inv[OF bd_inv_except_I[OF Cons.prems]])
  have "fst (flush_keys uuid now bd (k # ks)) = fst (flush_keys uuid now ?b ks)"
    by (simp add: Let_def split: prod.splits)
  then show ?case using Cons.IH[OF inv] flush_view[OF bd_inv_except_I[OF Cons.prems]] by auto
qed auto

lemma flushAll_inv:
  assumes "bd_inv bd"
  shows "bd_inv (fst (flushAll uuid now bd))"
    and "sent (fst (flushAll uuid now bd)) k @ pend (fst (flushAll uuid now bd)) k = sent bd k @ pend bd k"
    and "targets (fst (flushAll uuid now bd)) = []"
proof -
  note f = flush_keys_inv[OF assms, of uuid now "map fst (targets bd)"]
  show "bd_inv (fst (flushAll uuid now bd))"
    "sent (fst (flushAll uuid now bd)) k @ pend (fst (flushAll uuid now bd)) k = sent bd k @ pend bd k"
    using f by (simp_all add: flushAll_def)
  have "map_of (targets (fst (flushAll uuid now bd))) = Map.empty"
    using f by (auto simp: flushAll_def fun_eq_iff map_of_eq_None_iff)
  then show "targets (fst (flushAll uuid now bd)) = []" by simp
qed

lemma close_eq: "bd_inv bd \<Longrightarrow> fst (close uuid now bd) = fst (flushAll uuid now bd)"
  using flushAll_inv(3)[of bd uuid now]
  by (cases "flushAll uuid now bd") (simp add: close_def)

lemma target_state_cases:
  assumes "bd_inv bd"
  shows "map_of (targets bd) (nt_targetId nt) = None \<and> ts_events (target_state now nt bd) = []
      \<and> ts_timer (target_state now nt bd) = None
    \<or> map_of (targets bd) (nt_targetId nt) \<noteq> None \<and> ts_events (target_state now nt bd) \<noteq> []
      \<and> ts_timer (target_state now nt bd) \<noteq> None"
  using assms
  by (fastforce simp: target_state_def Let_def bd_inv_def target_ok_def split: option.splits)

text \<open>The state of the dispatcher after the event is pushed and before the size test.\<close>

definition pushed :: "(nat \<Rightarrow> string) \<Rightarrow> int \<Rightarrow> Dispatcher \<Rightarrow> NormalizedBatchTarget \<Rightarrow> BatchableNotification \<Rightarrow> Dispatcher" where
  "pushed uuid now bd nt n =
     (let did = (if has_delivery_id n then the (bn_deliveryId n) else uuid (drawn bd));
          st = target_state now nt bd in
      bd\<lparr>targets := AList.update (nt_targetId nt) (st\<lparr>ts_events := ts_events st @ [make_event now did n]\<rparr>) (targets bd),
         next_id := next_id bd + 1, drawn := drawn bd + (if has_delivery_id n then 0 else 1)\<rparr>)"

lemma pushed_inv:
  assumes "bd_inv bd"
  shows "bd_inv_except (nt_targetId nt) (pushed uuid now bd nt n)"
proof -
  have tg: "target_ok bd k st" if "map_of (targets bd) k = Some st" for k st
    using assms that by (auto simp: bd_inv_def)
  have len: "length (ts_events (target_state now nt bd)) < maxBatchSize bd"
    "nt_targetId (ts_target (target_state now nt bd)) = nt_targetId nt"
    using assms tg[of "nt_targetId nt"]
    by (auto simp: target_state_def Let_def merge_target_def bd_inv_def target_ok_def split: option.splits)
  have tm: "map_of (timers bd) h = Some (nt_targetId nt, ts_object st, ts_windowStart st + windowMs bd)"
    if "ts_timer st = Some h" "st = target_state now nt bd" for h st
    using that tg[of "nt_targetId nt"]
    by (auto simp: target_state_def Let_def target_ok_def split: option.splits)
  have st: "h < Suc (next_id bd) \<and>
      (\<exists>st. map_of (targets (pushed uuid now bd nt n)) k = Some st \<and> ts_timer st = Some h \<and> ts_object st = obj)"
    if "map_of (timers bd) h = Some (k, obj, due)" for h k obj due
  proof -
    obtain st where "map_of (targets bd) k = Some st" "ts_timer st = Some h" "ts_object st = obj" "h < next_id bd"
      using assms \<open>map_of (timers bd) h = Some (k, obj, due)\<close> by (auto simp: bd_inv_def timers_ok_def) blast
    then show ?thesis by (auto simp: pushed_def Let_def target_state_def)
  qed
  show ?thesis
    using assms len tm st tg
    by (auto simp: bd_inv_except_def bd_inv_def pushed_def Let_def target_ok_def batch_ok_def)
qed

lemma enqueue_pushed:
  assumes "normalizeTarget target = Inr nt"
  shows "\<exists>did. enqueue uuid now bd target n =
     (let tid = nt_targetId nt; bd1 = pushed uuid now bd nt n; st = the (map_of (targets bd1) tid) in
      (if length (ts_events st) \<ge> maxBatchSize bd then fst (flush uuid now bd1 tid)
       else if ts_timer st = None then schedule now tid st bd1 else bd1, Inr (tid, did, length (ts_events st))))
     \<and> map ev_deliveryId (pend (pushed uuid now bd nt n) (nt_targetId nt)) =
       map ev_deliveryId (pend bd (nt_targetId nt)) @ [did]"
  using assms
  by (auto simp: enqueue_def pushed_def Let_def pend_def target_state_def make_event_def split: option.splits)

lemma pushed_fields [simp]:
  "maxBatchSize (pushed uuid now bd nt n) = maxBatchSize bd" "windowMs (pushed uuid now bd nt n) = windowMs bd"
  "timers (pushed uuid now bd nt n) = timers bd" "emitted (pushed uuid now bd nt n) = emitted bd"
  "next_id (pushed uuid now bd nt n) = next_id bd + 1"
  by (simp_all add: pushed_def Let_def)

lemma pushed_target:
  "\<exists>ev. map_of (targets (pushed uuid now bd nt n)) k =
     (if k = nt_targetId nt then Some ((target_state now nt bd)\<lparr>ts_events := ts_events (target_state now nt bd) @ [ev]\<rparr>)
      else map_of (targets bd) k)"
  by (auto simp: pushed_def Let_def)

lemma target_ok_pushed: "target_ok (pushed uuid now bd nt n) k st = target_ok bd k st"
  by (simp add: target_ok_def)

lemma pushed_view_other: "k \<noteq> nt_targetId nt \<Longrightarrow> pend (pushed uuid now bd nt n) k = pend bd k"
  "sent (pushed uuid now bd nt n) k = sent bd k"
  by (simp_all add: pend_def sent_def pushed_def Let_def)

lemma schedule_view:
  "map_of (targets bd) tid = Some st \<Longrightarrow>
   pend (schedule now tid st bd) k = pend bd k \<and> sent (schedule now tid st bd) k = sent bd k"
  by (auto simp: schedule_def pend_def sent_def)

lemma schedule_inv:
  assumes "bd_inv_except t bd" and "map_of (targets bd) t = Some st" and "ts_timer st = None"
    and "ts_events st \<noteq> []" "length (ts_events st) < maxBatchSize bd" "ts_windowStart st = now"
  shows "bd_inv (schedule now t st bd)"
proof -
  have fresh: "map_of (timers bd) (next_id bd) = None"
    using assms(1) by (cases "map_of (timers bd) (next_id bd)") (auto simp: bd_inv_except_def)
  have tm: "h < next_id bd \<and> k \<noteq> t \<and> (\<exists>st. map_of (targets bd) k = Some st \<and> ts_timer st = Some h \<and> ts_object st = obj)"
    if h: "map_of (timers bd) h = Some (k, obj, due)" for h k obj due
  proof -
    obtain st' where "map_of (targets bd) k = Some st'" "ts_timer st' = Some h" "ts_object st' = obj" "h < next_id bd"
      using assms(1) h by (auto simp: bd_inv_except_def) blast
    then show ?thesis using assms(2,3) by auto
  qed
  have "timers_ok (schedule now t st bd)"
    unfolding timers_ok_def
  proof (intro allI impI)
    fix h k obj due
    assume "map_of (timers (schedule now t st bd)) h = Some (k, obj, due)"
    then consider "h = next_id bd" "k = t" "obj = ts_object st" | "map_of (timers bd) h = Some (k, obj, due)"
      by (auto simp: schedule_def split: if_splits)
    then show "h < next_id (schedule now t st bd) \<and>
        (\<exists>st'. map_of (targets (schedule now t st bd)) k = Some st' \<and> ts_timer st' = Some h \<and> ts_object st' = obj)"
      by cases (use tm in \<open>force simp: schedule_def\<close>)+
  qed
  moreover have "target_ok (schedule now t st bd) k st'"
    if k: "map_of (targets (schedule now t st bd)) k = Some st'" for k st'
  proof (cases "k = t")
    case True
    then have "st' = st\<lparr>ts_timer := Some (next_id bd)\<rparr>" using k by (simp add: schedule_def)
    then show ?thesis using True assms by (simp add: target_ok_def schedule_def bd_inv_except_def)
  next
    case False
    then have "target_ok bd k st'" using k assms(1) by (simp add: schedule_def bd_inv_except_def)
    then show ?thesis using fresh by (auto simp: target_ok_def schedule_def)
  qed
  moreover have "0 < maxBatchSize (schedule now t st bd)" "batch_ok (schedule now t st bd) b"
    if "b \<in> set (emitted (schedule now t st bd))" for b
    using assms(1) that by (auto simp: bd_inv_except_def schedule_def batch_ok_def)
  moreover have "0 < maxBatchSize (schedule now t st bd)"
    using assms(1) by (simp add: bd_inv_except_def schedule_def)
  ultimately show ?thesis unfolding bd_inv_def by blast
qed

lemma enqueue_inv:
  assumes inv: "bd_inv bd" and nt: "normalizeTarget target = Inr nt"
  shows "bd_inv (fst (enqueue uuid now bd target n))"
    and "\<exists>did size. snd (enqueue uuid now bd target n) = Inr (nt_targetId nt, did, size) \<and>
      (\<forall>k. map ev_deliveryId (sent (fst (enqueue uuid now bd target n)) k @ pend (fst (enqueue uuid now bd target n)) k) =
        map ev_deliveryId (sent bd k @ pend bd k) @ (if k = nt_targetId nt then [did] else []))"
proof -
  let ?t = "nt_targetId nt" and ?p = "pushed uuid now bd nt n"
  obtain ev where ev: "map_of (targets ?p) ?t = Some ((target_state now nt bd)\<lparr>ts_events := ts_events (target_state now nt bd) @ [ev]\<rparr>)"
    using pushed_target[of uuid now bd nt n ?t] by auto
  define st where "st = (target_state now nt bd)\<lparr>ts_events := ts_events (target_state now nt bd) @ [ev]\<rparr>"
  have st: "map_of (targets ?p) ?t = Some st" "ts_events st \<noteq> []" using ev by (simp_all add: st_def)
  have ws: "ts_windowStart st = now" if "ts_timer st = None"
    using target_state_cases[OF inv, of nt now] that
    by (auto simp: st_def) (auto simp: target_state_def)
  have ok: "target_ok ?p ?t st" if "length (ts_events st) < maxBatchSize bd" "ts_timer st \<noteq> None"
    using pushed_inv[OF inv, of nt uuid now n] st that by (auto simp: bd_inv_except_def target_ok_def)
  obtain did where did: "enqueue uuid now bd target n =
     (if length (ts_events st) \<ge> maxBatchSize bd then fst (flush uuid now ?p ?t)
       else if ts_timer st = None then schedule now ?t st ?p else ?p, Inr (?t, did, length (ts_events st)))"
     "map ev_deliveryId (pend ?p ?t) = map ev_deliveryId (pend bd ?t) @ [did]"
    using enqueue_pushed[OF nt, of uuid now bd n] st(1) by (auto simp: Let_def)
  have "bd_inv ?p" if "length (ts_events st) < maxBatchSize bd" "ts_timer st \<noteq> None"
    using ok[OF that] bd_inv_except_D[OF pushed_inv[OF inv, of nt uuid now n]] st(1) by simp
  then show "bd_inv (fst (enqueue uuid now bd target n))"
    using flush_inv[OF pushed_inv[OF inv]] schedule_inv[OF pushed_inv[OF inv] st(1)] st(2) ws
    by (auto simp: did not_le)
  have "map ev_deliveryId (sent ?p k @ pend ?p k) =
        map ev_deliveryId (sent bd k @ pend bd k) @ (if k = ?t then [did] else [])" for k
    using did(2) pushed_view_other by (cases "k = ?t") auto
  then show "\<exists>did size. snd (enqueue uuid now bd target n) = Inr (?t, did, size) \<and>
      (\<forall>k. map ev_deliveryId (sent (fst (enqueue uuid now bd target n)) k @ pend (fst (enqueue uuid now bd target n)) k) =
        map ev_deliveryId (sent bd k @ pend bd k) @ (if k = ?t then [did] else []))"
    using flush_view[OF pushed_inv[OF inv]] schedule_view[OF st(1)]
    by (auto simp: did(1) simp flip: map_append)
qed

lemma fire_due:
  assumes inv: "bd_inv bd" and h: "map_of (timers bd) h = Some (k, obj, due)" "due \<le> now"
  shows "\<exists>b st. map_of (targets bd) k = Some st \<and> ts_events st \<noteq> []
    \<and> bd_inv (fire uuid now bd h) \<and> (\<forall>k. sent (fire uuid now bd h) k @ pend (fire uuid now bd h) k = sent bd k @ pend bd k)
    \<and> emitted (fire uuid now bd h) = emitted bd @ [b] \<and> wb_events b = ts_events st \<and> wb_target b = ts_target st
    \<and> map_of (targets (fire uuid now bd h)) = (map_of (targets bd))(k := None)"
proof -
  obtain st where st: "map_of (targets bd) k = Some st" "ts_timer st = Some h" "ts_object st = obj" "target_ok bd k st"
    using inv h by (auto simp: bd_inv_def timers_ok_def) blast
  define bd2 where "bd2 = bd\<lparr>timers := AList.delete h (timers bd), targets := AList.update k (st\<lparr>ts_timer := None\<rparr>) (targets bd)\<rparr>"
  have f: "fire uuid now bd h = fst (flush uuid now bd2 k)"
    using h st by (simp add: fire_def bd2_def Let_def)
  have t2: "map_of (targets bd2) k = Some (st\<lparr>ts_timer := None\<rparr>)" by (simp add: bd2_def)
  have other: "target_ok bd2 k' st'" if k': "map_of (targets bd) k' = Some st'" "k' \<noteq> k" for k' st'
  proof -
    have "target_ok bd k' st'" using inv k' by (auto simp: bd_inv_def)
    moreover have "ts_timer st' \<noteq> Some h" using calculation h k' by (auto simp: target_ok_def)
    ultimately show ?thesis by (auto simp: target_ok_def bd2_def)
  qed
  have tms: "h' < next_id bd \<and> (\<exists>st. map_of (targets bd2) k' = Some st \<and> ts_timer st = Some h' \<and> ts_object st = obj')"
    if h': "map_of (timers bd2) h' = Some (k', obj', due')" for h' k' obj' due'
  proof -
    obtain st' where "map_of (targets bd) k' = Some st'" "ts_timer st' = Some h'" "ts_object st' = obj'" "h' < next_id bd" "h' \<noteq> h"
      using inv h' by (auto simp: bd_inv_def timers_ok_def bd2_def split: if_splits) blast
    moreover have "k' \<noteq> k" using calculation st by auto
    ultimately show ?thesis by (auto simp: bd2_def)
  qed
  have bd2: "maxBatchSize bd2 = maxBatchSize bd" "emitted bd2 = emitted bd" "next_id bd2 = next_id bd"
    "map_of (targets bd2) = (map_of (targets bd))(k \<mapsto> st\<lparr>ts_timer := None\<rparr>)"
    by (simp_all add: bd2_def fun_eq_iff)
  have exc: "bd_inv_except k bd2"
    unfolding bd_inv_except_def using tms other st(4) inv
    by (auto simp: bd2 bd_inv_def target_ok_def batch_ok_def)
  have view: "sent bd2 k' @ pend bd2 k' = sent bd k' @ pend bd k'" for k'
    using st(1) by (simp add: sent_def pend_def bd2)
  show ?thesis
    using st flush_inv[OF exc, of uuid now] flush_view[OF exc, of uuid now] t2 view
    by (auto simp: f flush_emitted target_ok_def make_batch_def bd2 fun_eq_iff)
qed

lemma fire_inv:
  assumes "bd_inv bd"
  shows "bd_inv (fire uuid now bd h)"
    and "sent (fire uuid now bd h) k @ pend (fire uuid now bd h) k = sent bd k @ pend bd k"
proof -
  have "fire uuid now bd h = bd \<or> (\<exists>k obj due. map_of (timers bd) h = Some (k, obj, due) \<and> due \<le> now)"
    by (auto simp: fire_def split: option.splits)
  then show "bd_inv (fire uuid now bd h)"
    and "sent (fire uuid now bd h) k @ pend (fire uuid now bd h) k = sent bd k @ pend bd k"
    using fire_due[OF assms] assms by metis+
qed

section \<open>Every history\<close>

definition run_inv :: "bd_state \<Rightarrow> bool" where
  "run_inv s \<longleftrightarrow> bd_inv (fst s)
     \<and> (\<forall>k. map ev_deliveryId (sent (fst s) k @ pend (fst s) k) = map snd (filter (\<lambda>r. fst r = k) (snd s)))"

interpretation dispatcher: inv_machine "bd_step uuid" run_inv for uuid
proof
  fix uuid :: "nat \<Rightarrow> string" and s :: bd_state and e :: "int \<times> bd_event"
  assume inv: "run_inv s"
  obtain bd acc now ev where se: "s = (bd, acc)" "e = (now, ev)" by (cases s, cases e) auto
  have i: "bd_inv bd" "\<And>k. map ev_deliveryId (sent bd k @ pend bd k) = map snd (filter (\<lambda>r. fst r = k) acc)"
    using inv by (auto simp: run_inv_def se)
  show "run_inv (bd_step uuid s e)"
  proof (cases ev)
    case (Enqueue target n)
    show ?thesis
    proof (cases "normalizeTarget target")
      case (Inl x)
      then show ?thesis using inv by (simp add: se Enqueue enqueue_def)
    next
      case (Inr nt)
      note q = enqueue_inv[OF i(1) Inr, where uuid = uuid and now = now and n = n]
      obtain bd' did size where r: "enqueue uuid now bd target n = (bd', Inr (nt_targetId nt, did, size))"
        "\<And>k. map ev_deliveryId (sent bd' k @ pend bd' k) =
          map ev_deliveryId (sent bd k @ pend bd k) @ (if k = nt_targetId nt then [did] else [])"
        using q(2) by (cases "enqueue uuid now bd target n") auto
      then show ?thesis using q(1) i(2) by (simp add: run_inv_def se Enqueue)
    qed
  next
    case (Flush t)
    then show ?thesis
      using flush_inv[OF bd_inv_except_I[OF i(1)]] flush_view[OF bd_inv_except_I[OF i(1)]] i(2)
      by (simp add: run_inv_def se del: map_append)
  next
    case FlushAll
    then show ?thesis using flushAll_inv[OF i(1)] i(2) by (simp add: run_inv_def se del: map_append)
  next
    case (Fire h)
    then show ?thesis using fire_inv[OF i(1)] i(2) by (simp add: run_inv_def se del: map_append)
  next
    case Close
    then show ?thesis using flushAll_inv[OF i(1)] i(2) by (simp add: run_inv_def se close_eq[OF i(1)] del: map_append)
  qed
qed

lemma run_inv_new: "run_inv (newBatchDispatcher options, [])"
proof -
  have "0 < maxBatchSize (newBatchDispatcher options)"
    by (auto simp: newBatchDispatcher_def DEFAULT_BATCH_MAX_SIZE_def split: option.splits)
  then show ?thesis
    by (simp add: run_inv_def bd_inv_def timers_ok_def sent_def pend_def) (simp add: newBatchDispatcher_def)
qed

lemma run_inv_run: "run_inv (bd_run uuid options es)"
  unfolding bd_run_def by (rule dispatcher.run_inv[OF run_inv_new])

lemma bd_inv_run: "bd_inv (fst (bd_run uuid options es))"
  using run_inv_run by (simp add: run_inv_def)

lemma fields_step:
  "maxBatchSize (fst (bd_step uuid s e)) = maxBatchSize (fst s) \<and> windowMs (fst (bd_step uuid s e)) = windowMs (fst s)"
proof -
  have c [simp]: "maxBatchSize (clear_timer t b) = maxBatchSize b" "windowMs (clear_timer t b) = windowMs b" for t b
    by (auto simp: clear_timer_def split: option.splits)
  have fk [simp]: "maxBatchSize (fst (flush_keys uuid now bd ks)) = maxBatchSize bd"
    "windowMs (fst (flush_keys uuid now bd ks)) = windowMs bd" for now bd ks
    by (induction ks arbitrary: bd) (auto simp: Let_def split: prod.splits, (metis flush_fields(1,2) fst_conv)+)
  have fc [simp]: "maxBatchSize (foldl (\<lambda>b kv. clear_timer (ts_timer (snd kv)) b) bd ts) = maxBatchSize bd"
    "windowMs (foldl (\<lambda>b kv. clear_timer (ts_timer (snd kv)) b) bd ts) = windowMs bd" for bd and ts :: "(string \<times> TargetState) list"
    by (induction ts arbitrary: bd) auto
  have cl [simp]: "maxBatchSize (fst (close uuid now bd)) = maxBatchSize bd"
    "windowMs (fst (close uuid now bd)) = windowMs bd" for now bd
    using fk[of now bd "map fst (targets bd)"]
    by (cases "flush_keys uuid now bd (map fst (targets bd))", simp add: close_def flushAll_def)+
  have en [simp]: "maxBatchSize (fst (enqueue uuid now bd t n)) = maxBatchSize bd"
    "windowMs (fst (enqueue uuid now bd t n)) = windowMs bd" for now bd t n
    by (auto simp: enqueue_def Let_def schedule_def split: sum.splits)
  have fi [simp]: "maxBatchSize (fire uuid now bd h) = maxBatchSize bd"
    "windowMs (fire uuid now bd h) = windowMs bd" for now bd h
    by (auto simp: fire_def Let_def split: option.splits)
  obtain bd acc now ev where "s = (bd, acc)" "e = (now, ev)" by (cases s, cases e) auto
  then show ?thesis using en[of now bd] by (cases ev) (auto simp: flushAll_def split: prod.splits sum.splits, (metis fst_conv en)+)
qed

lemma fields_run:
  "maxBatchSize (fst (bd_run uuid options es)) = maxBatchSize (newBatchDispatcher options)"
  "windowMs (fst (bd_run uuid options es)) = windowMs (newBatchDispatcher options)"
  unfolding bd_run_def by (induction es rule: rev_induct) (simp_all add: fields_step)

text \<open>C25. Nothing is lost, duplicated or reordered: after every history of enqueues, flushes, timer
  callbacks and closes, the delivery ids in the batches emitted for a target followed by those still
  buffered for it are exactly the delivery ids that \<open>enqueue\<close> returned for that target, in the order of
  the calls.\<close>

theorem batches_preserve_deliveries:
  "let (bd, acc) = bd_run uuid options es in
   map ev_deliveryId (concat (map wb_events (filter (\<lambda>b. nt_targetId (wb_target b) = k) (emitted bd))))
     @ map ev_deliveryId (case map_of (targets bd) k of Some st \<Rightarrow> ts_events st | None \<Rightarrow> [])
   = map snd (filter (\<lambda>r. fst r = k) acc)"
  using run_inv_run[of uuid options es]
  by (auto simp: run_inv_def sent_def pend_def split: prod.splits)

text \<open>Batches respect the configured size: every emitted batch has at least one event and at most the
  maximum, its count is the number of its events, and between two operations no buffer is full. The
  window in use is always between one and ten seconds.\<close>

theorem batch_sizes_bounded:
  "let bd = fst (bd_run uuid options es) in
   list_all (\<lambda>b. wb_count b = length (wb_events b) \<and> 1 \<le> wb_count b \<and> wb_count b \<le> maxBatchSize bd) (emitted bd)
   \<and> pending bd (Some k) < maxBatchSize bd \<and> 1000 \<le> windowMs bd \<and> windowMs bd \<le> 10000"
proof -
  let ?bd = "fst (bd_run uuid options es)"
  have inv: "bd_inv ?bd" by (rule bd_inv_run)
  then have "pending ?bd (Some k) < maxBatchSize ?bd"
    by (auto simp: pending_def bd_inv_def target_ok_def split: option.splits)
  moreover have "1000 \<le> windowMs ?bd" "windowMs ?bd \<le> 10000"
    unfolding fields_run
    by (auto simp: newBatchDispatcher_def clampWindow_def MIN_BATCH_WINDOW_MS_def MAX_BATCH_WINDOW_MS_def
        DEFAULT_BATCH_WINDOW_MS_def split: option.splits)
  moreover have "list_all (batch_ok ?bd) (emitted ?bd)" using inv by (simp add: list_all_iff bd_inv_def)
  ultimately show ?thesis unfolding Let_def batch_ok_def by blast
qed

text \<open>No event waits for ever: in every reachable state a target with buffered events has a live timer
  that is due one window after the buffer was opened, and when it fires its whole buffer is emitted as
  one batch for that target. No timer is left over for an object that is gone.\<close>

theorem buffered_events_have_timer:
  assumes "map_of (targets (fst (bd_run uuid options es))) k = Some st"
    and "ts_windowStart st + windowMs (fst (bd_run uuid options es)) \<le> now"
  shows "\<exists>h. let bd = fst (bd_run uuid options es); bd' = fire uuid now bd h in
    map_of (timers bd) h = Some (k, ts_object st, ts_windowStart st + windowMs bd)
    \<and> map_of (targets bd') = (map_of (targets bd))(k := None)
    \<and> (\<exists>b. emitted bd' = emitted bd @ [b] \<and> wb_events b = ts_events st \<and> ts_events st \<noteq> [] \<and> nt_targetId (wb_target b) = k)"
proof -
  let ?bd = "fst (bd_run uuid options es)"
  have ok: "target_ok ?bd k st" using bd_inv_run assms(1) by (auto simp: bd_inv_def)
  then obtain h where h: "map_of (timers ?bd) h = Some (k, ts_object st, ts_windowStart st + windowMs ?bd)"
    by (auto simp: target_ok_def)
  obtain b st' where f: "map_of (targets ?bd) k = Some st'" "ts_events st' \<noteq> []"
    "emitted (fire uuid now ?bd h) = emitted ?bd @ [b]" "wb_events b = ts_events st'" "wb_target b = ts_target st'"
    "map_of (targets (fire uuid now ?bd h)) = (map_of (targets ?bd))(k := None)"
    using fire_due[OF bd_inv_run h assms(2), of uuid] by blast
  moreover have "st' = st" "nt_targetId (ts_target st) = k" using f(1) assms(1) ok by (simp_all add: target_ok_def)
  ultimately show ?thesis using h unfolding Let_def by metis
qed

definition sample_note :: "string \<Rightarrow> BatchableNotification" where
  "sample_note d = \<lparr>bn_deliveryId = Some d, bn_event = ''payment.received'', bn_timestamp = Some ''t'', bn_data = []\<rparr>"

lemmas sample_eval = bd_run_def newBatchDispatcher_def clampWindow_def enqueue_def normalizeTarget_def
  target_state_def merge_target_def fill_def has_delivery_id_def make_event_def schedule_def sample_note_def
  trim_def is_space_def MIN_BATCH_WINDOW_MS_def MAX_BATCH_WINDOW_MS_def DEFAULT_BATCH_WINDOW_MS_def

theorem buffered_events_have_timer_witness:
  "let bd = fst (bd_run (\<lambda>_. ''u'') \<lparr>opt_maxBatchSize = Some 3, opt_windowMs = Some 500\<rparr>
        [(0, Enqueue (TargetName ''w'') (sample_note ''a'')), (10, Enqueue (TargetName ''w'') (sample_note ''b''))]) in
   \<exists>h b. emitted (fire (\<lambda>_. ''u'') 1000 bd h) = emitted bd @ [b] \<and> map ev_deliveryId (wb_events b) = [''a'', ''b'']"
proof -
  let ?es = "[(0, Enqueue (TargetName ''w'') (sample_note ''a'')), (10, Enqueue (TargetName ''w'') (sample_note ''b''))]"
  let ?o = "\<lparr>opt_maxBatchSize = Some 3, opt_windowMs = Some 500\<rparr>"
  obtain st where st: "map_of (targets (fst (bd_run (\<lambda>_. ''u'') ?o ?es))) ''w'' = Some st"
    "ts_windowStart st + windowMs (fst (bd_run (\<lambda>_. ''u'') ?o ?es)) \<le> 1000" "map ev_deliveryId (ts_events st) = [''a'', ''b'']"
    by (simp add: sample_eval Let_def)
  show ?thesis
    using buffered_events_have_timer[OF st(1,2)] st(3) unfolding Let_def by metis
qed

end
