(* ===== verification/WasmAnalyzer.thy ===== *)
theory WasmAnalyzer
  imports Prelude
begin

text \<open>
  The static analyser of compiled contract bytecode (\<open>apps/api/src/utils/wasm-analyzer.ts\<close>). A
  \<open>ByteCursor\<close> is the byte array and an offset that the reading operations return updated; a thrown
  error is a value of \<open>wasm_error\<close> on the left. The 32-bit bitwise operators of JavaScript are
  operations on \<^typ>\<open>32 word\<close>, and \<open>>>> 0\<close> is \<^const>\<open>unat\<close>. Every loop is a function that is
  proved to terminate. The message text of a finding is not modelled.
\<close>

section \<open>Data\<close>

datatype WasmRiskSeverity = wcritical | whigh | wmedium | wlow

record WasmRiskFinding =
  wf_severity :: WasmRiskSeverity
  wf_code :: string
  wf_functionIndex :: "nat option"

datatype wasm_error = UnexpectedEnd | MalformedLeb128 | TooShort | MissingMagic | UnsupportedVersion nat

record WasmStats =
  sectionCount :: nat
  functionCount :: nat
  hasMemorySection :: bool
  hasUnboundedMemory :: bool
  importedFunctionCount :: nat

record WasmAnalysisResult =
  valid :: bool
  parseError :: "wasm_error option"
  findings :: "WasmRiskFinding list"
  riskScore :: nat
  stats :: WasmStats

definition WASM_MAGIC :: nat where "WASM_MAGIC = 0x6d736100"
definition WASM_VERSION :: nat where "WASM_VERSION = 1"

abbreviation OP_UNREACHABLE :: byte where "OP_UNREACHABLE \<equiv> 0x00"
abbreviation OP_BLOCK :: byte where "OP_BLOCK \<equiv> 0x02"
abbreviation OP_LOOP :: byte where "OP_LOOP \<equiv> 0x03"
abbreviation OP_IF :: byte where "OP_IF \<equiv> 0x04"
abbreviation OP_ELSE :: byte where "OP_ELSE \<equiv> 0x05"
abbreviation OP_END :: byte where "OP_END \<equiv> 0x0b"
abbreviation OP_CALL :: byte where "OP_CALL \<equiv> 0x10"
abbreviation OP_CALL_INDIRECT :: byte where "OP_CALL_INDIRECT \<equiv> 0x11"
abbreviation OP_MEMORY_GROW :: byte where "OP_MEMORY_GROW \<equiv> 0x40"

abbreviation SECTION_IMPORT :: byte where "SECTION_IMPORT \<equiv> 2"
abbreviation SECTION_MEMORY :: byte where "SECTION_MEMORY \<equiv> 5"
abbreviation SECTION_CODE :: byte where "SECTION_CODE \<equiv> 10"

record WasmSection =
  sec_id :: byte
  sec_offset :: nat
  sec_size :: nat
  bodyStart :: nat

record FunctionBodyScanResult =
  hasBareUnreachable :: bool
  hasUnboundedMemoryGrow :: bool
  callsBeforeLikelyStateChange :: bool

section \<open>The cursor\<close>

definition readByte :: "bytes \<Rightarrow> nat \<Rightarrow> wasm_error + (byte \<times> nat)" where
  "readByte bytes off = (if off \<ge> length bytes then Inl UnexpectedEnd else Inr (bytes ! off, off + 1))"

definition readBytes :: "bytes \<Rightarrow> nat \<Rightarrow> nat \<Rightarrow> wasm_error + (bytes \<times> nat)" where
  "readBytes bytes off n =
     (if off + n > length bytes then Inl UnexpectedEnd else Inr (take n (drop off bytes), off + n))"

fun varUint32_loop :: "bytes \<Rightarrow> nat \<Rightarrow> nat \<Rightarrow> nat \<Rightarrow> 32 word \<Rightarrow> wasm_error + (nat \<times> nat)" where
  "varUint32_loop bytes off 0 shift result = Inl MalformedLeb128"
| "varUint32_loop bytes off (Suc n) shift result =
     (case readByte bytes off of
        Inl e \<Rightarrow> Inl e
      | Inr (b, off') \<Rightarrow>
          (let result' = result OR push_bit shift (ucast (b AND 0x7f)) in
           if b AND 0x80 = 0 then Inr (unat result', off')
           else varUint32_loop bytes off' n (shift + 7) result'))"

definition readVarUint32 :: "bytes \<Rightarrow> nat \<Rightarrow> wasm_error + (nat \<times> nat)" where
  "readVarUint32 bytes off = varUint32_loop bytes off 5 0 0"

definition readUint32LE :: "bytes \<Rightarrow> nat \<Rightarrow> wasm_error + (nat \<times> nat)" where
  "readUint32LE bytes off =
     (case readBytes bytes off 4 of
        Inl e \<Rightarrow> Inl e
      | Inr (b, off') \<Rightarrow>
          Inr (unat (ucast (b ! 0) OR push_bit 8 (ucast (b ! 1)) OR push_bit 16 (ucast (b ! 2))
                     OR push_bit 24 (ucast (b ! 3)) :: 32 word), off'))"

definition skip :: "bytes \<Rightarrow> nat \<Rightarrow> nat \<Rightarrow> wasm_error + nat" where
  "skip bytes off n = (if off + n > length bytes then Inl UnexpectedEnd else Inr (off + n))"

lemma readByte_Inr: "readByte bytes off = Inr (b, off') \<Longrightarrow> off' = off + 1 \<and> off < length bytes"
  by (simp add: readByte_def split: if_splits)

lemma varUint32_loop_Inr:
  "varUint32_loop bytes off n s r = Inr (v, off') \<Longrightarrow> off < off' \<and> off' \<le> length bytes"
proof (induction n arbitrary: off s r)
  case (Suc n)
  then show ?case
    by (fastforce simp: Let_def split: sum.splits prod.splits if_splits dest: readByte_Inr)
qed simp

lemma readVarUint32_Inr: "readVarUint32 bytes off = Inr (v, off') \<Longrightarrow> off < off' \<and> off' \<le> length bytes"
  unfolding readVarUint32_def by (rule varUint32_loop_Inr)

section \<open>Sections\<close>

function parseSections :: "bytes \<Rightarrow> nat \<Rightarrow> wasm_error + WasmSection list" where
  "parseSections bytes off =
     (if length bytes - off > 0 then
        (case readByte bytes off of
           Inl e \<Rightarrow> Inl e
         | Inr (i, off1) \<Rightarrow>
             (case readVarUint32 bytes off1 of
                Inl e \<Rightarrow> Inl e
              | Inr (n, start) \<Rightarrow>
                  (case skip bytes start n of
                     Inl e \<Rightarrow> Inl e
                   | Inr off2 \<Rightarrow>
                       (case parseSections bytes off2 of
                          Inl e \<Rightarrow> Inl e
                        | Inr ss \<Rightarrow> Inr (\<lparr>sec_id = i, sec_offset = start, sec_size = n, bodyStart = start\<rparr> # ss)))))
      else Inr [])"
  by pat_completeness auto

termination
  by (relation "measure (\<lambda>(bytes, off). length bytes - off)")
     (auto simp: skip_def split: if_splits dest!: readByte_Inr readVarUint32_Inr)

declare parseSections.simps [simp del]

text \<open>A vector entry of limits: a flag byte, the minimum and, if the lowest flag bit is set, the maximum.\<close>

definition read_limits :: "bytes \<Rightarrow> nat \<Rightarrow> wasm_error + (bool \<times> nat)" where
  "read_limits bytes off =
     (case readByte bytes off of
        Inl e \<Rightarrow> Inl e
      | Inr (flags, off1) \<Rightarrow>
          (case readVarUint32 bytes off1 of
             Inl e \<Rightarrow> Inl e
           | Inr (_, off2) \<Rightarrow>
               if flags AND 0x01 \<noteq> 0 then
                 (case readVarUint32 bytes off2 of Inl e \<Rightarrow> Inl e | Inr (_, off3) \<Rightarrow> Inr (True, off3))
               else Inr (False, off2)))"

function memory_loop :: "bytes \<Rightarrow> nat \<Rightarrow> nat \<Rightarrow> nat \<Rightarrow> nat \<Rightarrow> wasm_error + bool list" where
  "memory_loop bytes fin cnt i off =
     (if i < cnt \<and> off < fin then
        (case read_limits bytes off of
           Inl e \<Rightarrow> Inl e
         | Inr (hasMax, off') \<Rightarrow>
             (case memory_loop bytes fin cnt (i + 1) off' of
                Inl e \<Rightarrow> Inl e | Inr ms \<Rightarrow> Inr (hasMax # ms)))
      else Inr [])"
  by pat_completeness auto

termination
  by (relation "measure (\<lambda>(bytes, fin, cnt, i, off). cnt - i)") auto

declare memory_loop.simps [simp del]

definition parseMemorySection :: "bytes \<Rightarrow> WasmSection \<Rightarrow> wasm_error + bool list" where
  "parseMemorySection bytes sec =
     (case readVarUint32 bytes (bodyStart sec) of
        Inl e \<Rightarrow> Inl e
      | Inr (cnt, off) \<Rightarrow> memory_loop bytes (bodyStart sec + sec_size sec) cnt 0 off)"

text \<open>A length-prefixed name, skipped.\<close>

definition skip_vec :: "bytes \<Rightarrow> nat \<Rightarrow> wasm_error + nat" where
  "skip_vec bytes off =
     (case readVarUint32 bytes off of Inl e \<Rightarrow> Inl e | Inr (n, off') \<Rightarrow> skip bytes off' n)"

text \<open>The description of one import: \<open>None\<close> is the unknown kind that stops the loop, otherwise whether it is
  a function.\<close>

definition import_desc :: "bytes \<Rightarrow> nat \<Rightarrow> wasm_error + (bool option \<times> nat)" where
  "import_desc bytes off =
     (case readByte bytes off of
        Inl e \<Rightarrow> Inl e
      | Inr (kind, off1) \<Rightarrow>
          if kind = 0x00 then
            (case readVarUint32 bytes off1 of Inl e \<Rightarrow> Inl e | Inr (_, off2) \<Rightarrow> Inr (Some True, off2))
          else if kind = 0x01 then
            (case readByte bytes off1 of
               Inl e \<Rightarrow> Inl e
             | Inr (_, off2) \<Rightarrow>
                 (case read_limits bytes off2 of Inl e \<Rightarrow> Inl e | Inr (_, off3) \<Rightarrow> Inr (Some False, off3)))
          else if kind = 0x02 then
            (case read_limits bytes off1 of Inl e \<Rightarrow> Inl e | Inr (_, off2) \<Rightarrow> Inr (Some False, off2))
          else if kind = 0x03 then
            (case readByte bytes off1 of
               Inl e \<Rightarrow> Inl e
             | Inr (_, off2) \<Rightarrow>
                 (case readByte bytes off2 of Inl e \<Rightarrow> Inl e | Inr (_, off3) \<Rightarrow> Inr (Some False, off3)))
          else Inr (None, off1))"

function import_loop :: "bytes \<Rightarrow> nat \<Rightarrow> nat \<Rightarrow> nat \<Rightarrow> nat \<Rightarrow> nat \<Rightarrow> wasm_error + nat" where
  "import_loop bytes fin cnt i off functionImports =
     (if i < cnt \<and> off < fin then
        (case skip_vec bytes off of
           Inl e \<Rightarrow> Inl e
         | Inr off1 \<Rightarrow>
             (case skip_vec bytes off1 of
                Inl e \<Rightarrow> Inl e
              | Inr off2 \<Rightarrow>
                  (case import_desc bytes off2 of
                     Inl e \<Rightarrow> Inl e
                   | Inr (None, _) \<Rightarrow> Inr functionImports
                   | Inr (Some f, off3) \<Rightarrow>
                       import_loop bytes fin cnt (i + 1) off3 (if f then functionImports + 1 else functionImports))))
      else Inr functionImports)"
  by pat_completeness auto

termination
  by (relation "measure (\<lambda>(bytes, fin, cnt, i, off, n). cnt - i)") auto

declare import_loop.simps [simp del]

definition countImportedFunctions :: "bytes \<Rightarrow> WasmSection \<Rightarrow> wasm_error + nat" where
  "countImportedFunctions bytes sec =
     (case readVarUint32 bytes (bodyStart sec) of
        Inl e \<Rightarrow> Inl e
      | Inr (cnt, off) \<Rightarrow> import_loop bytes (bodyStart sec + sec_size sec) cnt 0 off 0)"

section \<open>Function bodies\<close>

function locals_loop :: "bytes \<Rightarrow> nat \<Rightarrow> nat \<Rightarrow> nat \<Rightarrow> wasm_error + nat" where
  "locals_loop body localGroups i off =
     (if i < localGroups then
        (case readVarUint32 body off of
           Inl e \<Rightarrow> Inl e
         | Inr (_, off1) \<Rightarrow>
             (case readByte body off1 of
                Inl e \<Rightarrow> Inl e
              | Inr (_, off2) \<Rightarrow> locals_loop body localGroups (i + 1) off2))
      else Inr off)"
  by pat_completeness auto

termination
  by (relation "measure (\<lambda>(body, n, i, off). n - i)") auto

declare locals_loop.simps [simp del]

record scan_state =
  sc_depth :: nat
  sc_unreachable :: bool
  sc_grow :: bool
  sc_call :: bool

text \<open>One iteration of the scan: \<open>None\<close> for the offset is the early return on an unhandled opcode.\<close>

definition scan_op :: "bytes \<Rightarrow> nat \<Rightarrow> scan_state \<Rightarrow> wasm_error + (scan_state \<times> nat option)" where
  "scan_op body off s =
     (case readByte body off of
        Inl e \<Rightarrow> Inl e
      | Inr (op, off1) \<Rightarrow>
          if op = OP_UNREACHABLE then
            Inr (if sc_depth s = 0 then s\<lparr>sc_unreachable := True\<rparr> else s, Some off1)
          else if op = OP_BLOCK \<or> op = OP_LOOP \<or> op = OP_IF then
            (case readByte body off1 of
               Inl e \<Rightarrow> Inl e | Inr (_, off2) \<Rightarrow> Inr (s\<lparr>sc_depth := sc_depth s + 1\<rparr>, Some off2))
          else if op = OP_ELSE then Inr (s, Some off1)
          else if op = OP_END then
            Inr (if sc_depth s > 0 then s\<lparr>sc_depth := sc_depth s - 1\<rparr> else s, Some off1)
          else if op = OP_CALL then
            (case readVarUint32 body off1 of
               Inl e \<Rightarrow> Inl e | Inr (_, off2) \<Rightarrow> Inr (s\<lparr>sc_call := True\<rparr>, Some off2))
          else if op = OP_CALL_INDIRECT then
            (case readVarUint32 body off1 of
               Inl e \<Rightarrow> Inl e
             | Inr (_, off2) \<Rightarrow>
                 (case readByte body off2 of
                    Inl e \<Rightarrow> Inl e | Inr (_, off3) \<Rightarrow> Inr (s\<lparr>sc_call := True\<rparr>, Some off3)))
          else if op = OP_MEMORY_GROW then
            (case readByte body off1 of
               Inl e \<Rightarrow> Inl e | Inr (_, off2) \<Rightarrow> Inr (s\<lparr>sc_grow := True\<rparr>, Some off2))
          else Inr (s, None))"

lemma scan_op_progress: "scan_op body off s = Inr (s', Some off') \<Longrightarrow> off < off'"
  by (auto simp: scan_op_def split: sum.splits prod.splits if_splits dest!: readByte_Inr readVarUint32_Inr)

function scan_loop :: "bytes \<Rightarrow> nat \<Rightarrow> scan_state \<Rightarrow> wasm_error + scan_state" where
  "scan_loop body off s =
     (if length body - off > 0 then
        (case scan_op body off s of
           Inl e \<Rightarrow> Inl e
         | Inr (s', None) \<Rightarrow> Inr s'
         | Inr (s', Some off') \<Rightarrow> scan_loop body off' s')
      else Inr s)"
  by pat_completeness auto

termination
  by (relation "measure (\<lambda>(body, off, s). length body - off)") (auto dest!: scan_op_progress)

declare scan_loop.simps [simp del]

definition scanFunctionBody :: "bytes \<Rightarrow> wasm_error + FunctionBodyScanResult" where
  "scanFunctionBody body =
     (case readVarUint32 body 0 of
        Inl e \<Rightarrow> Inl e
      | Inr (localGroups, off) \<Rightarrow>
          (case locals_loop body localGroups 0 off of
             Inl e \<Rightarrow> Inl e
           | Inr off' \<Rightarrow>
               (case scan_loop body off' \<lparr>sc_depth = 0, sc_unreachable = False, sc_grow = False, sc_call = False\<rparr> of
                  Inl e \<Rightarrow> Inl e
                | Inr s \<Rightarrow> Inr \<lparr>hasBareUnreachable = sc_unreachable s, hasUnboundedMemoryGrow = sc_grow s,
                               callsBeforeLikelyStateChange = sc_call s\<rparr>)))"

section \<open>The analysis\<close>

fun severityWeight :: "WasmRiskSeverity \<Rightarrow> nat" where
  "severityWeight wcritical = 40"
| "severityWeight whigh = 25"
| "severityWeight wmedium = 12"
| "severityWeight wlow = 5"

definition computeRiskScore :: "WasmRiskFinding list \<Rightarrow> nat" where
  "computeRiskScore fs = min 100 (foldl (\<lambda>s f. s + severityWeight (wf_severity f)) 0 fs)"

definition finding :: "WasmRiskSeverity \<Rightarrow> string \<Rightarrow> nat option \<Rightarrow> WasmRiskFinding" where
  "finding sev c i = \<lparr>wf_severity = sev, wf_code = c, wf_functionIndex = i\<rparr>"

definition body_findings :: "nat \<Rightarrow> nat \<Rightarrow> bytes \<Rightarrow> WasmRiskFinding list" where
  "body_findings imported i body =
     (case scanFunctionBody body of
        Inl e \<Rightarrow> [finding wlow ''FUNCTION_BODY_PARSE_INCOMPLETE'' (Some i)]
      | Inr scan \<Rightarrow>
          (if hasBareUnreachable scan then [finding wmedium ''UNGUARDED_UNREACHABLE'' (Some i)] else [])
          @ (if hasUnboundedMemoryGrow scan then [finding wmedium ''MEMORY_GROW_INSTRUCTION'' (Some i)] else [])
          @ (if callsBeforeLikelyStateChange scan \<and> imported > 0
             then [finding wlow ''POSSIBLE_REENTRANCY_ORDERING'' (Some i)] else []))"

function bodies_loop :: "bytes \<Rightarrow> nat \<Rightarrow> nat \<Rightarrow> nat \<Rightarrow> nat \<Rightarrow> wasm_error + WasmRiskFinding list" where
  "bodies_loop bytes imported bodyCount i off =
     (if i < bodyCount then
        (case readVarUint32 bytes off of
           Inl e \<Rightarrow> Inl e
         | Inr (bodySize, off1) \<Rightarrow>
             (case skip bytes off1 bodySize of
                Inl e \<Rightarrow> Inl e
              | Inr off2 \<Rightarrow>
                  (case bodies_loop bytes imported bodyCount (i + 1) off2 of
                     Inl e \<Rightarrow> Inl e
                   | Inr fs \<Rightarrow> Inr (body_findings imported i (take bodySize (drop off1 bytes)) @ fs))))
      else Inr [])"
  by pat_completeness auto

termination
  by (relation "measure (\<lambda>(bytes, m, n, i, off). n - i)") auto

declare bodies_loop.simps [simp del]

definition find_section :: "byte \<Rightarrow> WasmSection list \<Rightarrow> WasmSection option" where
  "find_section i ss = find (\<lambda>s. sec_id s = i) ss"

definition code_findings :: "bytes \<Rightarrow> nat \<Rightarrow> WasmSection option \<Rightarrow> wasm_error + (nat \<times> WasmRiskFinding list)" where
  "code_findings bytes imported codeSection =
     (case codeSection of
        None \<Rightarrow> Inr (0, [])
      | Some sec \<Rightarrow>
          (case readVarUint32 bytes (bodyStart sec) of
             Inl e \<Rightarrow> Inl e
           | Inr (bodyCount, off) \<Rightarrow>
               (case bodies_loop bytes imported bodyCount 0 off of
                  Inl e \<Rightarrow> Inl e | Inr fs \<Rightarrow> Inr (bodyCount, fs))))"

definition read_header :: "bytes \<Rightarrow> wasm_error + nat" where
  "read_header bytes =
     (if length bytes - 0 < 8 then Inl TooShort
      else
        (case readUint32LE bytes 0 of
           Inl e \<Rightarrow> Inl e
         | Inr (magic, off) \<Rightarrow>
             if magic \<noteq> WASM_MAGIC then Inl MissingMagic
             else
               (case readUint32LE bytes off of
                  Inl e \<Rightarrow> Inl e
                | Inr (version, off') \<Rightarrow>
                    if version \<noteq> WASM_VERSION then Inl (UnsupportedVersion version) else Inr off')))"

definition analyze_module :: "bytes \<Rightarrow> wasm_error + WasmAnalysisResult" where
  "analyze_module bytes =
     (case read_header bytes of
        Inl e \<Rightarrow> Inl e
      | Inr off \<Rightarrow>
          (case parseSections bytes off of
             Inl e \<Rightarrow> Inl e
           | Inr sections \<Rightarrow>
               (case (case find_section SECTION_MEMORY sections of
                        None \<Rightarrow> Inr [] | Some sec \<Rightarrow> parseMemorySection bytes sec) of
                  Inl e \<Rightarrow> Inl e
                | Inr memories \<Rightarrow>
                    (case (case find_section SECTION_IMPORT sections of
                             None \<Rightarrow> Inr 0 | Some sec \<Rightarrow> countImportedFunctions bytes sec) of
                       Inl e \<Rightarrow> Inl e
                     | Inr imported \<Rightarrow>
                         (case code_findings bytes imported (find_section SECTION_CODE sections) of
                            Inl e \<Rightarrow> Inl e
                          | Inr (cnt, fs) \<Rightarrow>
                              (let unbounded = list_ex (\<lambda>hasMax. \<not> hasMax) memories;
                                   all = (if unbounded then [finding whigh ''UNBOUNDED_MEMORY_DECLARATION'' None] else []) @ fs in
                               Inr \<lparr>valid = True, parseError = None, findings = all, riskScore = computeRiskScore all,
                                    stats = \<lparr>sectionCount = length sections, functionCount = cnt,
                                      hasMemorySection = (find_section SECTION_MEMORY sections \<noteq> None),
                                      hasUnboundedMemory = unbounded, importedFunctionCount = imported\<rparr>\<rparr>))))))"

definition analyzeWasmBytecode :: "bytes \<Rightarrow> WasmAnalysisResult" where
  "analyzeWasmBytecode bytes =
     (case analyze_module bytes of
        Inr r \<Rightarrow> r
      | Inl e \<Rightarrow> \<lparr>valid = False, parseError = Some e, findings = [], riskScore = 100,
                  stats = \<lparr>sectionCount = 0, functionCount = 0, hasMemorySection = False,
                           hasUnboundedMemory = False, importedFunctionCount = 0\<rparr>\<rparr>)"

section \<open>Bytes at an offset\<close>

fun at :: "bytes \<Rightarrow> nat \<Rightarrow> bytes \<Rightarrow> bool" where
  "at bs off [] = True"
| "at bs off (x # xs) \<longleftrightarrow> off < length bs \<and> bs ! off = x \<and> at bs (Suc off) xs"

lemma at_append [simp]: "at bs off (xs @ ys) \<longleftrightarrow> at bs off xs \<and> at bs (off + length xs) ys"
  by (induction xs arbitrary: off) auto

lemma at_middle: "at (pre @ xs @ post) (length pre) xs"
proof (induction xs arbitrary: pre)
  case (Cons x xs)
  show ?case using Cons[of "pre @ [x]"] by simp
qed simp

lemma at_suffix: "at (pre @ xs) (length pre) xs"
  using at_middle[of pre xs "[]"] by simp

lemma at_take: "at bs off xs \<Longrightarrow> take (length xs) (drop off bs) = xs"
  by (induction xs arbitrary: off) (auto simp: Cons_nth_drop_Suc[symmetric])

lemma at_length: "at bs off xs \<Longrightarrow> xs = [] \<or> off + length xs \<le> length bs"
  by (induction xs arbitrary: off) force+

lemma readByte_at [simp]: "off < length bs \<Longrightarrow> readByte bs off = Inr (bs ! off, Suc off)"
  by (simp add: readByte_def)

section \<open>LEB128\<close>

fun leb :: "nat \<Rightarrow> bytes" where
  "leb n = (if n < 128 then [of_nat n] else of_nat (n mod 128 + 128) # leb (n div 128))"

declare leb.simps [simp del]

lemma bit_unat: "bit (w :: 'a :: len word) n \<longleftrightarrow> odd (unat w div 2 ^ n)"
proof -
  have "bit (unat w) n = bit w n" by (simp add: bit_unsigned_iff)
  then show ?thesis by (simp add: bit_iff_odd)
qed

lemma low_bits: "(ucast (b AND 0x7f :: byte) :: 32 word) = of_nat (unat b mod 128)"
proof -
  have "unat (b AND 0x7f) = unat b mod 128"
    using and_mask_mod[of "unat b" 7] by (simp add: unsigned_and_eq)
  then show ?thesis by (metis of_nat_unat)
qed

lemma high_bit: "(b AND 0x80 :: byte) = 0 \<longleftrightarrow> unat b < 128"
proof -
  have "b AND 0x80 = 0 \<longleftrightarrow> \<not> bit b 7" using and_exp_eq_0_iff_not_bit[of b 7] by simp
  also have "\<dots> \<longleftrightarrow> even (unat b div 128)" by (simp add: bit_unat)
  also have "\<dots> \<longleftrightarrow> unat b < 128"
  proof -
    have "unat b < 256" using unsigned_less[of b] by simp
    then have "unat b div 128 = 0 \<or> unat b div 128 = 1" by linarith
    then show ?thesis by auto
  qed
  finally show ?thesis .
qed

lemma or_shifted:
  fixes r x :: "32 word"
  assumes "unat r < 2 ^ s"
  shows "r OR push_bit s x = r + push_bit s x"
proof -
  have "r AND push_bit s x = 0"
  proof (rule bit_word_eqI)
    fix n
    assume "n < LENGTH(32)"
    have "\<not> bit r n" if "s \<le> n"
    proof -
      have "unat r < 2 ^ n" using assms that by (meson less_le_trans one_le_numeral power_increasing)
      then show ?thesis by (simp add: bit_unat)
    qed
    then show "bit (r AND push_bit s x) n = bit (0 :: 32 word) n"
      by (auto simp: bit_and_iff bit_push_bit_iff)
  qed
  then show ?thesis by (simp add: disjunctive_add_eq_or)
qed

lemma unat_plus_of_nat_le: "unat (r + of_nat x :: 'a :: len word) \<le> unat r + x"
proof -
  have "r + of_nat x = of_nat (unat r + x)" by simp
  then show ?thesis by (metis unat_of_nat take_bit_eq_mod mod_less_eq_dividend)
qed

lemma varUint32_loop_leb:
  "at bs off (leb m) \<Longrightarrow> 0 < k \<Longrightarrow> m < 128 ^ k \<Longrightarrow> unat r < 2 ^ s \<Longrightarrow>
   varUint32_loop bs off k s r = Inr (unat (r + of_nat (m * 2 ^ s)), off + length (leb m))"
proof (induction k arbitrary: m off r s)
  case (Suc k)
  define b where "b = bs ! off"
  have off: "off < length bs" using Suc.prems(1) by (subst (asm) leb.simps) (auto split: if_splits)
  show ?case
  proof (cases "m < 128")
    case True
    then have l: "leb m = [of_nat m]" by (subst leb.simps) simp
    have "unat b = m" using True Suc.prems(1) by (simp add: l b_def unat_of_nat take_bit_eq_mod)
    then show ?thesis using True off or_shifted[OF Suc.prems(4)]
      by (simp add: b_def[symmetric] l high_bit low_bits push_bit_eq_mult mult.commute)
  next
    case False
    then have l: "leb m = of_nat (m mod 128 + 128) # leb (m div 128)" by (subst leb.simps) simp
    have "unat (of_nat (m mod 128 + 128) :: byte) = (m mod 128 + 128) mod 2 ^ 8"
      by (simp only: unat_of_nat take_bit_eq_mod) simp
    moreover have "m mod 128 + 128 < 2 ^ 8" by (simp add: less_le_trans[OF mod_less_divisor])
    ultimately have ub: "unat b = m mod 128 + 128" using Suc.prems(1) by (simp add: l b_def)
    define r' where "r' = r + of_nat (m mod 128 * 2 ^ s)"
    have "unat r' \<le> unat r + m mod 128 * 2 ^ s"
      unfolding r'_def by (rule unat_plus_of_nat_le)
    also have "\<dots> < 2 ^ s + m mod 128 * 2 ^ s" using Suc.prems(4) by simp
    also have "\<dots> = (m mod 128 + 1) * 2 ^ s" by simp
    also have "\<dots> \<le> 128 * 2 ^ s" by (intro mult_right_mono) auto
    also have "\<dots> = 2 ^ (s + 7)" by (simp add: power_add)
    finally have r': "unat r' < 2 ^ (s + 7)" .
    have k: "m div 128 < 128 ^ k" "0 < k" using Suc.prems(3) False by (auto simp: less_mult_imp_div_less) (cases k, auto)
    have "varUint32_loop bs (Suc off) k (s + 7) r' =
      Inr (unat (r' + of_nat (m div 128 * 2 ^ (s + 7))), Suc off + length (leb (m div 128)))"
      by (rule Suc.IH) (use Suc.prems(1) k r' l in auto)
    moreover have "r' + of_nat (m div 128 * 2 ^ (s + 7)) = r + of_nat (m * 2 ^ s)"
    proof -
      have "m mod 128 * 2 ^ s + m div 128 * 2 ^ (s + 7) = (m mod 128 + m div 128 * 128) * 2 ^ s"
        by (simp only: power_add add_mult_distrib) (simp add: ac_simps)
      then show ?thesis unfolding r'_def by (metis add.assoc mod_div_mult_eq of_nat_add)
    qed
    moreover have "r OR push_bit s (ucast (b AND 0x7f)) = r'"
      using or_shifted[OF Suc.prems(4)] ub by (simp add: low_bits r'_def push_bit_eq_mult)
    ultimately show ?thesis using off ub by (simp add: b_def[symmetric] l high_bit Let_def)
  qed
qed simp

lemma readVarUint32_leb:
  assumes "at bs off (leb n)" and "n < 2 ^ 35"
  shows "readVarUint32 bs off = Inr (n mod 2 ^ 32, off + length (leb n))"
  using varUint32_loop_leb[OF assms(1), of 5 0 0] assms(2)
  by (simp add: readVarUint32_def unat_of_nat take_bit_eq_mod)

interpretation leb128: codec leb
  "\<lambda>bs. case readVarUint32 bs 0 of Inr (n, off) \<Rightarrow> if off = length bs then Some n else None | Inl _ \<Rightarrow> None"
  "\<lambda>n. n < 2 ^ 32"
proof
  fix x :: nat
  assume "x < 2 ^ 32"
  then show "(case readVarUint32 (leb x) 0 of Inr (n, off) \<Rightarrow> if off = length (leb x) then Some n else None | Inl _ \<Rightarrow> None) = Some x"
    using readVarUint32_leb[of "leb x" 0 x] at_suffix[of "[]" "leb x"] by simp
qed

text \<open>Variable-length integers are read exactly: at any offset the LEB128 encoding of a number below
  \<open>2^32\<close> is decoded to that number and exactly its bytes are consumed, so encodings are unambiguous. A
  five-byte encoding of a larger number, which the format forbids, is not rejected: it is silently
  reduced modulo \<open>2^32\<close>.\<close>

theorem leb128_read_exact:
  assumes "n < 2 ^ 35"
  shows "readVarUint32 (pre @ leb n @ post) (length pre) = Inr (n mod 2 ^ 32, length pre + length (leb n))
    \<and> (n < 2 ^ 32 \<and> m < 2 ^ 32 \<longrightarrow> leb n = leb m \<longrightarrow> n = m)"
  using readVarUint32_leb[OF at_middle assms, of pre post] leb128.enc_inject[of n m] by simp

theorem leb128_read_exact_witness:
  "leb 624485 = [0xe5, 0x8e, 0x26] \<and> readVarUint32 ([1] @ leb 624485 @ [7]) (length [1]) = Inr (624485, 4)
   \<and> readVarUint32 ([] @ leb 4294967301 @ []) (length []) = Inr (5, 5)"
proof -
  have l: "leb 624485 = [0xe5, 0x8e, 0x26]" "length (leb 4294967301) = 5"
    by (simp_all add: leb.simps[of 624485] leb.simps[of 4878] leb.simps[of 38] leb.simps[of 4294967301]
        leb.simps[of 33554432] leb.simps[of 262144] leb.simps[of 2048] leb.simps[of 16])
  show ?thesis
    using leb128_read_exact[of 624485 "[1]" "[7]"] leb128_read_exact[of 4294967301 "[]" "[]"] l by simp
qed

section \<open>Well-formed modules\<close>

text \<open>The binary encoding of the parts of a module that the analyser reads.\<close>

type_synonym limits = "nat \<times> nat option"

datatype wimport_desc = FunctionImport nat | TableImport byte limits | MemoryImport limits | GlobalImport byte byte

type_synonym wimport = "bytes \<times> bytes \<times> wimport_desc"

datatype wsection =
    MemorySection "limits list"
  | ImportSection "wimport list"
  | CodeSection "bytes list"
  | OtherSection byte bytes

definition enc_limits :: "limits \<Rightarrow> bytes" where
  "enc_limits l = (case l of (mn, None) \<Rightarrow> 0 # leb mn | (mn, Some mx) \<Rightarrow> 1 # leb mn @ leb mx)"

definition enc_vec :: "bytes \<Rightarrow> bytes" where
  "enc_vec xs = leb (length xs) @ xs"

fun enc_desc :: "wimport_desc \<Rightarrow> bytes" where
  "enc_desc (FunctionImport t) = 0 # leb t"
| "enc_desc (TableImport e l) = 1 # e # enc_limits l"
| "enc_desc (MemoryImport l) = 2 # enc_limits l"
| "enc_desc (GlobalImport t m) = [3, t, m]"

fun enc_import :: "wimport \<Rightarrow> bytes" where
  "enc_import (m, f, d) = enc_vec m @ enc_vec f @ enc_desc d"

fun payload :: "wsection \<Rightarrow> bytes" where
  "payload (MemorySection ms) = leb (length ms) @ concat (map enc_limits ms)"
| "payload (ImportSection is) = leb (length is) @ concat (map enc_import is)"
| "payload (CodeSection bs) = leb (length bs) @ concat (map enc_vec bs)"
| "payload (OtherSection i body) = body"

fun section_id :: "wsection \<Rightarrow> byte" where
  "section_id (MemorySection _) = SECTION_MEMORY"
| "section_id (ImportSection _) = SECTION_IMPORT"
| "section_id (CodeSection _) = SECTION_CODE"
| "section_id (OtherSection i _) = i"

definition enc_section :: "wsection \<Rightarrow> bytes" where
  "enc_section s = section_id s # leb (length (payload s)) @ payload s"

definition wasm_header :: bytes where
  "wasm_header = [0x00, 0x61, 0x73, 0x6d, 0x01, 0x00, 0x00, 0x00]"

definition enc_module :: "wsection list \<Rightarrow> bytes" where
  "enc_module ss = wasm_header @ concat (map enc_section ss)"

definition limits_ok :: "limits \<Rightarrow> bool" where
  "limits_ok l \<longleftrightarrow> fst l < 2 ^ 32 \<and> (case snd l of Some m \<Rightarrow> m < 2 ^ 32 | None \<Rightarrow> True)"

fun desc_ok :: "wimport_desc \<Rightarrow> bool" where
  "desc_ok (FunctionImport t) \<longleftrightarrow> t < 2 ^ 32"
| "desc_ok (TableImport e l) = limits_ok l"
| "desc_ok (MemoryImport l) = limits_ok l"
| "desc_ok (GlobalImport _ _) = True"

fun section_ok :: "wsection \<Rightarrow> bool" where
  "section_ok (MemorySection ms) = list_all limits_ok ms"
| "section_ok (ImportSection is) = list_all (\<lambda>(m, f, d). length m < 2 ^ 32 \<and> length f < 2 ^ 32 \<and> desc_ok d) is"
| "section_ok (CodeSection bs) = list_all (\<lambda>b. length b < 2 ^ 32) bs"
| "section_ok (OtherSection i _) \<longleftrightarrow> i \<noteq> SECTION_MEMORY \<and> i \<noteq> SECTION_IMPORT \<and> i \<noteq> SECTION_CODE"

definition module_ok :: "wsection list \<Rightarrow> bool" where
  "module_ok ss = list_all (\<lambda>s. section_ok s \<and> length (payload s) < 2 ^ 32) ss"

fun layout :: "nat \<Rightarrow> wsection list \<Rightarrow> WasmSection list" where
  "layout off [] = []"
| "layout off (s # ss) =
     (let start = off + 1 + length (leb (length (payload s))); n = length (payload s) in
      \<lparr>sec_id = section_id s, sec_offset = start, sec_size = n, bodyStart = start\<rparr> # layout (start + n) ss)"

lemma leb_read: "at bs off (leb n) \<Longrightarrow> n < 2 ^ 32 \<Longrightarrow> readVarUint32 bs off = Inr (n, off + length (leb n))"
  using readVarUint32_leb[of bs off n] by simp

lemma leb_nonempty [simp]: "leb n \<noteq> []"
  by (subst leb.simps) simp

lemma skip_at: "at bs off xs \<Longrightarrow> off \<le> length bs \<Longrightarrow> skip bs off (length xs) = Inr (off + length xs)"
  using at_length[of bs off xs] by (auto simp: skip_def)

lemma at_le: "at bs off xs \<Longrightarrow> xs \<noteq> [] \<Longrightarrow> off + length xs \<le> length bs"
  using at_length by blast

lemma parseSections_layout:
  "at bs off (concat (map enc_section ss)) \<Longrightarrow> off + length (concat (map enc_section ss)) = length bs \<Longrightarrow>
   module_ok ss \<Longrightarrow> parseSections bs off = Inr (layout off ss)"
proof (induction ss arbitrary: off)
  case Nil
  then show ?case by (subst parseSections.simps) simp
next
  case (Cons s ss)
  let ?n = "length (payload s)" and ?st = "Suc off + length (leb (length (payload s)))"
  have a: "off < length bs" "bs ! off = section_id s" "at bs (Suc off) (leb ?n)" "at bs ?st (payload s)"
    "at bs (?st + ?n) (concat (map enc_section ss))"
    using Cons.prems(1) by (simp_all add: enc_section_def[of s])
  have n: "?n < 2 ^ 32" using Cons.prems(3) by (simp add: module_ok_def)
  have st: "?st \<le> length bs" using at_le[OF a(3)] by simp
  have "parseSections bs (?st + ?n) = Inr (layout (?st + ?n) ss)"
    using Cons.IH[OF a(5)] Cons.prems(2,3) by (simp add: enc_section_def[of s] module_ok_def add.assoc)
  then show ?case using a(1,2) leb_read[OF a(3) n] skip_at[OF a(4) st]
    by (subst parseSections.simps) (simp add: Let_def)
qed

lemma read_limits_at:
  assumes "at bs off (enc_limits l)" "limits_ok l"
  shows "read_limits bs off = Inr (snd l \<noteq> None, off + length (enc_limits l))"
proof (cases l)
  case (Pair mn mx)
  show ?thesis
  proof (cases mx)
    case None
    then show ?thesis using assms Pair leb_read[of bs "Suc off" mn]
      by (simp add: enc_limits_def limits_ok_def read_limits_def)
  next
    case (Some m)
    then show ?thesis
      using assms Pair leb_read[of bs "Suc off" mn] leb_read[of bs "Suc off + length (leb mn)" m]
      by (simp add: enc_limits_def limits_ok_def read_limits_def)
  qed
qed

lemma memory_loop_at:
  "at bs off (concat (map enc_limits ms)) \<Longrightarrow> list_all limits_ok ms \<Longrightarrow>
   off + length (concat (map enc_limits ms)) = fin \<Longrightarrow> i + length ms = n \<Longrightarrow>
   memory_loop bs fin n i off = Inr (map (\<lambda>l. snd l \<noteq> None) ms)"
proof (induction ms arbitrary: off i)
  case Nil
  then show ?case by (subst memory_loop.simps) simp
next
  case (Cons l ms)
  have "enc_limits l \<noteq> []" by (simp add: enc_limits_def split: prod.splits option.splits)
  then have "off < fin" using Cons.prems(3) by (cases "enc_limits l") auto
  moreover have "read_limits bs off = Inr (snd l \<noteq> None, off + length (enc_limits l))"
    using read_limits_at Cons.prems(1,2) by simp
  moreover have "memory_loop bs fin n (Suc i) (off + length (enc_limits l)) = Inr (map (\<lambda>l. snd l \<noteq> None) ms)"
    using Cons.IH[of "off + length (enc_limits l)" "Suc i"] Cons.prems by simp
  ultimately show ?case using Cons.prems(3,4) by (subst memory_loop.simps) simp
qed

lemma skip_vec_at:
  assumes "at bs off (enc_vec xs)" "length xs < 2 ^ 32"
  shows "skip_vec bs off = Inr (off + length (enc_vec xs))"
  using assms leb_read[of bs off "length xs"] skip_at[of bs "off + length (leb (length xs))" xs]
    at_le[of bs off "leb (length xs)"]
  by (simp add: enc_vec_def skip_vec_def add.assoc)

lemma import_desc_at:
  assumes "at bs off (enc_desc d)" "desc_ok d"
  shows "import_desc bs off = Inr (Some (\<exists>t. d = FunctionImport t), off + length (enc_desc d))"
proof (cases d)
  case (FunctionImport t)
  then show ?thesis using assms leb_read[of bs "Suc off" t] by (simp add: import_desc_def)
next
  case (TableImport e l)
  then show ?thesis using assms read_limits_at[of bs "Suc (Suc off)" l] by (simp add: import_desc_def)
next
  case (MemoryImport l)
  then show ?thesis using assms read_limits_at[of bs "Suc off" l] by (simp add: import_desc_def)
next
  case (GlobalImport t m)
  then show ?thesis using assms by (simp add: import_desc_def)
qed

definition function_imports :: "wimport list \<Rightarrow> nat" where
  "function_imports is = length (filter (\<lambda>(m, f, d). case d of FunctionImport _ \<Rightarrow> True | _ \<Rightarrow> False) is)"

lemma import_loop_at:
  "at bs off (concat (map enc_import is)) \<Longrightarrow> section_ok (ImportSection is) \<Longrightarrow>
   off + length (concat (map enc_import is)) = fin \<Longrightarrow> i + length is = n \<Longrightarrow>
   import_loop bs fin n i off k = Inr (k + function_imports is)"
proof (induction "is" arbitrary: off i k)
  case Nil
  then show ?case by (subst import_loop.simps) (simp add: function_imports_def)
next
  case (Cons x xs)
  obtain m f d where x: "x = (m, f, d)" by (cases x)
  let ?o1 = "off + length (enc_vec m)" and ?k = "if \<exists>t. d = FunctionImport t then k + 1 else k"
  have e: "skip_vec bs off = Inr ?o1" "skip_vec bs ?o1 = Inr (?o1 + length (enc_vec f))"
    "import_desc bs (?o1 + length (enc_vec f)) = Inr (Some (\<exists>t. d = FunctionImport t), off + length (enc_import x))"
    using Cons.prems(1,2) skip_vec_at[of bs off m] skip_vec_at[of bs ?o1 f]
      import_desc_at[of bs "?o1 + length (enc_vec f)" d] by (simp_all add: x add.assoc)
  have "enc_import x \<noteq> []" by (simp add: x enc_vec_def)
  then have "off < fin" using Cons.prems(3) by (cases "enc_import x") auto
  moreover have "import_loop bs fin n (Suc i) (off + length (enc_import x)) ?k = Inr (?k + function_imports xs)"
    using Cons.IH[of "off + length (enc_import x)" "Suc i" ?k] Cons.prems by simp
  moreover have "?k + function_imports xs = k + function_imports (x # xs)"
    by (cases d) (simp_all add: function_imports_def x)
  ultimately show ?case using Cons.prems(4) e by (subst import_loop.simps) (simp del: enc_import.simps)
qed

lemma bodies_loop_at:
  "at bs off (concat (map enc_vec bodies)) \<Longrightarrow> section_ok (CodeSection bodies) \<Longrightarrow> i + length bodies = n \<Longrightarrow>
   bodies_loop bs m n i off = Inr (concat (map (\<lambda>(j, b). body_findings m j b) (enumerate i bodies)))"
proof (induction bodies arbitrary: off i)
  case Nil
  then show ?case by (subst bodies_loop.simps) simp
next
  case (Cons b bodies)
  let ?o = "off + length (leb (length b))"
  have a: "at bs off (leb (length b))" "at bs ?o b" "length b < 2 ^ 32" using Cons.prems by (simp_all add: enc_vec_def[of b])
  have le: "?o \<le> length bs" using at_le[OF a(1)] by simp
  have "bodies_loop bs m n (Suc i) (?o + length b) =
      Inr (concat (map (\<lambda>(j, b). body_findings m j b) (enumerate (Suc i) bodies)))"
    using Cons.IH[of "?o + length b" "Suc i"] Cons.prems by (simp add: enc_vec_def[of b] add.assoc)
  then show ?case
    using leb_read[OF a(1,3)] skip_at[OF a(2) le] at_take[OF a(2)] Cons.prems(3)
    by (subst bodies_loop.simps) simp
qed

text \<open>What the analyser should report of a module: the first section of each kind counts.\<close>

definition first_memories :: "wsection list \<Rightarrow> limits list option" where
  "first_memories ss = (case find (\<lambda>s. section_id s = SECTION_MEMORY) ss of Some (MemorySection ms) \<Rightarrow> Some ms | _ \<Rightarrow> None)"

definition first_imports :: "wsection list \<Rightarrow> wimport list option" where
  "first_imports ss = (case find (\<lambda>s. section_id s = SECTION_IMPORT) ss of Some (ImportSection is) \<Rightarrow> Some is | _ \<Rightarrow> None)"

definition first_bodies :: "wsection list \<Rightarrow> bytes list option" where
  "first_bodies ss = (case find (\<lambda>s. section_id s = SECTION_CODE) ss of Some (CodeSection bs) \<Rightarrow> Some bs | _ \<Rightarrow> None)"

lemma find_layout:
  "at bs off (concat (map enc_section ss)) \<Longrightarrow>
   (case find (\<lambda>s. section_id s = i) ss of
      None \<Rightarrow> find_section i (layout off ss) = None
    | Some s \<Rightarrow> \<exists>sec. find_section i (layout off ss) = Some sec \<and> at bs (bodyStart sec) (payload s)
        \<and> sec_size sec = length (payload s) \<and> s \<in> set ss)"
proof (induction ss arbitrary: off)
  case (Cons s ss)
  then have "at bs (Suc (off + length (leb (length (payload s))))) (payload s)"
    "at bs (Suc (off + length (leb (length (payload s))) + length (payload s))) (concat (map enc_section ss))"
    by (simp_all add: enc_section_def[of s])
  then show ?case
    using Cons.IH[of "Suc (off + length (leb (length (payload s))) + length (payload s))"]
    by (auto simp: find_section_def Let_def split: option.splits)
qed (simp add: find_section_def)

lemma find_Some_mem: "find P xs = Some x \<Longrightarrow> P x \<and> x \<in> set xs"
  by (auto simp: find_Some_iff)

text \<open>A vector never has more entries than bytes, so its length prefix fits when the payload does.\<close>

lemma length_le_concat:
  assumes "\<And>x. f x \<noteq> []"
  shows "length xs \<le> length (concat (map f xs))"
proof (induction xs)
  case (Cons x xs)
  then show ?case using assms[of x] by (cases "f x") auto
qed simp

lemma enc_nonempty: "enc_limits l \<noteq> []" "enc_import x \<noteq> []" "enc_vec b \<noteq> []"
  by (auto simp: enc_limits_def enc_vec_def split: prod.splits option.splits) (cases x, simp add: enc_vec_def)

lemmas count_fits = length_le_concat[of enc_limits, OF enc_nonempty(1)] length_le_concat[of enc_import, OF enc_nonempty(2)]
  length_le_concat[of enc_vec, OF enc_nonempty(3)]

lemma parseMemorySection_at:
  assumes "at bs (bodyStart sec) (payload (MemorySection ms))" "sec_size sec = length (payload (MemorySection ms))"
    and "section_ok (MemorySection ms)" "length (payload (MemorySection ms)) < 2 ^ 32"
  shows "parseMemorySection bs sec = Inr (map (\<lambda>l. snd l \<noteq> None) ms)"
  using assms count_fits(1)[of ms] leb_read[of bs "bodyStart sec" "length ms"]
    memory_loop_at[of bs "bodyStart sec + length (leb (length ms))" ms "bodyStart sec + sec_size sec" 0 "length ms"]
  by (simp add: parseMemorySection_def)

lemma countImportedFunctions_at:
  assumes "at bs (bodyStart sec) (payload (ImportSection is))" "sec_size sec = length (payload (ImportSection is))"
    and "section_ok (ImportSection is)" "length (payload (ImportSection is)) < 2 ^ 32"
  shows "countImportedFunctions bs sec = Inr (function_imports is)"
  using assms count_fits(2)[of "is"] leb_read[of bs "bodyStart sec" "length is"]
    import_loop_at[of bs "bodyStart sec + length (leb (length is))" "is" "bodyStart sec + sec_size sec" 0 "length is" 0]
  by (simp add: countImportedFunctions_def)

lemma code_findings_at:
  assumes "at bs (bodyStart sec) (payload (CodeSection bodies))"
    and "section_ok (CodeSection bodies)" "length (payload (CodeSection bodies)) < 2 ^ 32"
  shows "code_findings bs m (Some sec) =
    Inr (length bodies, concat (map (\<lambda>(j, b). body_findings m j b) (enumerate 0 bodies)))"
  using assms count_fits(3)[of bodies] leb_read[of bs "bodyStart sec" "length bodies"]
    bodies_loop_at[of bs "bodyStart sec + length (leb (length bodies))" bodies 0 "length bodies" m]
  by (simp add: code_findings_def)

lemma section_of_id:
  "section_ok s \<Longrightarrow> section_id s = SECTION_MEMORY \<Longrightarrow> \<exists>ms. s = MemorySection ms"
  "section_ok s \<Longrightarrow> section_id s = SECTION_IMPORT \<Longrightarrow> \<exists>is. s = ImportSection is"
  "section_ok s \<Longrightarrow> section_id s = SECTION_CODE \<Longrightarrow> \<exists>bs. s = CodeSection bs"
  by (cases s; simp)+

lemma find_ok:
  assumes "module_ok ss" "find (\<lambda>s. section_id s = i) ss = Some s"
  shows "section_ok s" "length (payload s) < 2 ^ 32" "section_id s = i"
  using assms find_Some_mem[OF assms(2)] by (auto simp: module_ok_def list_all_iff)

lemma memories_of_module:
  assumes "at bs off (concat (map enc_section ss))" "module_ok ss"
  shows "(case find_section SECTION_MEMORY (layout off ss) of None \<Rightarrow> Inr [] | Some sec \<Rightarrow> parseMemorySection bs sec)
      = Inr (case first_memories ss of Some ms \<Rightarrow> map (\<lambda>l. snd l \<noteq> None) ms | None \<Rightarrow> [])
    \<and> (find_section SECTION_MEMORY (layout off ss) \<noteq> None \<longleftrightarrow> first_memories ss \<noteq> None)"
proof (cases "find (\<lambda>s. section_id s = SECTION_MEMORY) ss")
  case None
  then show ?thesis using find_layout[OF assms(1), of SECTION_MEMORY] by (simp add: first_memories_def)
next
  case (Some s)
  note ok = find_ok[OF assms(2) Some]
  obtain ms where s: "s = MemorySection ms" using section_of_id(1) ok by blast
  obtain sec where sec: "find_section SECTION_MEMORY (layout off ss) = Some sec" "at bs (bodyStart sec) (payload s)"
    "sec_size sec = length (payload s)" using find_layout[OF assms(1), of SECTION_MEMORY] Some by auto
  have "parseMemorySection bs sec = Inr (map (\<lambda>l. snd l \<noteq> None) ms)"
    using parseMemorySection_at sec(2,3) ok(1,2) unfolding s by blast
  then show ?thesis using sec(1) Some s by (simp add: first_memories_def)
qed

lemma imports_of_module:
  assumes "at bs off (concat (map enc_section ss))" "module_ok ss"
  shows "(case find_section SECTION_IMPORT (layout off ss) of None \<Rightarrow> Inr 0 | Some sec \<Rightarrow> countImportedFunctions bs sec)
      = Inr (case first_imports ss of Some is \<Rightarrow> function_imports is | None \<Rightarrow> 0)"
proof (cases "find (\<lambda>s. section_id s = SECTION_IMPORT) ss")
  case None
  then show ?thesis using find_layout[OF assms(1), of SECTION_IMPORT] by (simp add: first_imports_def)
next
  case (Some s)
  note ok = find_ok[OF assms(2) Some]
  obtain "is" where s: "s = ImportSection is" using section_of_id(2) ok by blast
  obtain sec where sec: "find_section SECTION_IMPORT (layout off ss) = Some sec" "at bs (bodyStart sec) (payload s)"
    "sec_size sec = length (payload s)" using find_layout[OF assms(1), of SECTION_IMPORT] Some by auto
  have "countImportedFunctions bs sec = Inr (function_imports is)"
    using countImportedFunctions_at sec(2,3) ok(1,2) unfolding s by blast
  then show ?thesis using sec(1) Some s by (simp add: first_imports_def)
qed

lemma code_of_module:
  assumes "at bs off (concat (map enc_section ss))" "module_ok ss"
  shows "code_findings bs m (find_section SECTION_CODE (layout off ss)) =
    Inr (case first_bodies ss of
           Some bodies \<Rightarrow> (length bodies, concat (map (\<lambda>(j, b). body_findings m j b) (enumerate 0 bodies)))
         | None \<Rightarrow> (0, []))"
proof (cases "find (\<lambda>s. section_id s = SECTION_CODE) ss")
  case None
  then show ?thesis using find_layout[OF assms(1), of SECTION_CODE] by (simp add: first_bodies_def code_findings_def)
next
  case (Some s)
  note ok = find_ok[OF assms(2) Some]
  obtain bodies where s: "s = CodeSection bodies" using section_of_id(3) ok by blast
  obtain sec where sec: "find_section SECTION_CODE (layout off ss) = Some sec" "at bs (bodyStart sec) (payload s)"
    using find_layout[OF assms(1), of SECTION_CODE] Some by auto
  have "code_findings bs m (Some sec) =
    Inr (length bodies, concat (map (\<lambda>(j, b). body_findings m j b) (enumerate 0 bodies)))"
    using code_findings_at sec(2) ok(1,2) unfolding s by blast
  then show ?thesis using sec(1) Some s by (simp add: first_bodies_def)
qed

lemma layout_length [simp]: "length (layout off ss) = length ss"
  by (induction ss arbitrary: off) (simp_all add: Let_def)

lemma length_wasm_header [simp]: "length wasm_header = 8"
  by (simp add: wasm_header_def)

lemma read_header_ok: "read_header (wasm_header @ rest) = Inr 8"
  by (simp add: read_header_def wasm_header_def readUint32LE_def readBytes_def WASM_MAGIC_def WASM_VERSION_def)

definition report_of :: "wsection list \<Rightarrow> WasmAnalysisResult" where
  "report_of ss =
     (let ms = first_memories ss;
          unbounded = (case ms of Some l \<Rightarrow> list_ex (\<lambda>x. snd x = None) l | None \<Rightarrow> False);
          imported = (case first_imports ss of Some is \<Rightarrow> function_imports is | None \<Rightarrow> 0);
          bodies = (case first_bodies ss of Some bs \<Rightarrow> bs | None \<Rightarrow> []);
          fs = (if unbounded then [finding whigh ''UNBOUNDED_MEMORY_DECLARATION'' None] else [])
               @ concat (map (\<lambda>(j, b). body_findings imported j b) (enumerate 0 bodies)) in
      \<lparr>valid = True, parseError = None, findings = fs,
       riskScore = min 100 (sum_list (map (\<lambda>f. severityWeight (wf_severity f)) fs)),
       stats = \<lparr>sectionCount = length ss, functionCount = length bodies, hasMemorySection = (ms \<noteq> None),
                hasUnboundedMemory = unbounded, importedFunctionCount = imported\<rparr>\<rparr>)"

lemma computeRiskScore_sum: "computeRiskScore fs = min 100 (sum_list (map (\<lambda>f. severityWeight (wf_severity f)) fs))"
proof -
  have "foldl (\<lambda>s f. s + severityWeight (wf_severity f)) k fs = k + sum_list (map (\<lambda>f. severityWeight (wf_severity f)) fs)" for k
    by (induction fs arbitrary: k) simp_all
  then show ?thesis by (simp add: computeRiskScore_def)
qed

text \<open>C33. The analyser reads every well-formed module correctly: on the binary encoding of any list of
  sections (memory, import, code and others in any number and order) it answers valid, with an
  unbounded-memory finding iff the first memory section has a memory without a maximum, the findings of
  every function body under its index, the number of imported functions, and the capped sum of the
  severities as the score.\<close>

theorem wasm_module_report:
  assumes "module_ok ss"
  shows "analyzeWasmBytecode (enc_module ss) = report_of ss"
proof -
  let ?bs = "enc_module ss"
  have a: "at ?bs 8 (concat (map enc_section ss))"
    using at_suffix[of wasm_header "concat (map enc_section ss)"] by (simp add: enc_module_def)
  have p: "parseSections ?bs 8 = Inr (layout 8 ss)"
    by (rule parseSections_layout[OF a _ assms]) (simp add: enc_module_def)
  have h: "read_header ?bs = Inr 8" by (simp add: enc_module_def read_header_ok)
  have le: "list_ex Not (map (\<lambda>l. \<exists>y. snd l = Some y) ms) = list_ex (\<lambda>x. snd x = None) ms" for ms :: "limits list"
    by (induction ms) auto
  note parts = conjunct1[OF memories_of_module[OF a assms]] conjunct2[OF memories_of_module[OF a assms]]
    imports_of_module[OF a assms] code_of_module[OF a assms]
  have "analyze_module ?bs = Inr (report_of ss)"
    unfolding analyze_module_def h sum.case p parts
    by (cases "first_memories ss"; cases "first_bodies ss")
       (simp_all only: option.case sum.case prod.case, simp_all add: report_of_def Let_def computeRiskScore_sum le)
  then show ?thesis by (simp add: analyzeWasmBytecode_def)
qed

theorem wasm_module_report_witness:
  "let r = analyzeWasmBytecode (enc_module [OtherSection 1 [], MemorySection [(1, None)]]) in
   valid r \<and> findings r = [finding whigh ''UNBOUNDED_MEMORY_DECLARATION'' None] \<and> riskScore r = 25"
proof -
  have "module_ok [OtherSection 1 [], MemorySection [(1, None)]]"
    by (simp add: module_ok_def limits_ok_def enc_limits_def leb.simps)
  then show ?thesis
    using wasm_module_report[of "[OtherSection 1 [], MemorySection [(1, None)]]"]
    by (simp add: report_of_def first_memories_def first_imports_def first_bodies_def finding_def)
qed

lemma le_bytes:
  fixes b0 b1 b2 b3 :: byte
  assumes "w = (ucast b0 OR push_bit 8 (ucast b1) OR push_bit 16 (ucast b2) OR push_bit 24 (ucast b3) :: 32 word)"
  shows "b0 = ucast w" "b1 = ucast (drop_bit 8 w)" "b2 = ucast (drop_bit 16 w)" "b3 = ucast (drop_bit 24 w)"
proof -
  have hi: "\<not> bit b n" if "8 \<le> n" for b :: byte and n using that bit_imp_le_length[of b n] by auto
  show "b0 = ucast w" "b1 = ucast (drop_bit 8 w)" "b2 = ucast (drop_bit 16 w)" "b3 = ucast (drop_bit 24 w)"
    unfolding assms
    by (rule bit_word_eqI; auto simp: bit_ucast_iff bit_or_iff bit_push_bit_iff bit_drop_bit_eq hi)+
qed

lemma read_header_accepts:
  assumes "read_header bs = Inr off"
  shows "take 8 bs = wasm_header"
proof -
  have "Suc (Suc (Suc (Suc (Suc (Suc (Suc (Suc 0))))))) \<le> length bs"
    using assms by (simp add: read_header_def split: if_splits)
  then obtain b0 b1 b2 b3 b4 b5 b6 b7 rest where bs: "bs = b0 # b1 # b2 # b3 # b4 # b5 # b6 # b7 # rest"
    unfolding Suc_le_length_iff by blast
  define m :: "32 word" where "m = ucast b0 OR push_bit 8 (ucast b1) OR push_bit 16 (ucast b2) OR push_bit 24 (ucast b3)"
  define v :: "32 word" where "v = ucast b4 OR push_bit 8 (ucast b5) OR push_bit 16 (ucast b6) OR push_bit 24 (ucast b7)"
  have u: "unat m = WASM_MAGIC" "unat v = WASM_VERSION"
    using assms by (simp_all add: read_header_def readUint32LE_def readBytes_def bs m_def v_def eval_nat_numeral split: if_splits)
  have m: "m = 0x6d736100" using arg_cong[OF u(1), of "of_nat :: nat \<Rightarrow> 32 word"] by (simp add: WASM_MAGIC_def)
  have v: "v = 1" using arg_cong[OF u(2), of "of_nat :: nat \<Rightarrow> 32 word"] by (simp add: WASM_VERSION_def)
  show ?thesis using le_bytes[OF m_def] le_bytes[OF v_def] by (simp add: bs m v wasm_header_def)
qed

text \<open>Untrusted bytes never pass unnoticed: whatever the input, the result is invalid exactly when a
  parse error is reported; an invalid result has the maximal score and no findings; the score is never
  above 100; and a valid result means that the binary starts with the eight bytes of the header.\<close>

theorem wasm_result_consistent:
  "let r = analyzeWasmBytecode bs in
   (valid r \<longleftrightarrow> parseError r = None) \<and> riskScore r \<le> 100
   \<and> (valid r \<or> riskScore r = 100 \<and> findings r = [])
   \<and> (valid r \<longrightarrow> take 8 bs = wasm_header)"
proof (cases "analyze_module bs")
  case (Inl e)
  then show ?thesis by (simp add: analyzeWasmBytecode_def)
next
  case (Inr r)
  then obtain off where "read_header bs = Inr off" by (auto simp: analyze_module_def split: sum.splits)
  then have "take 8 bs = wasm_header" by (rule read_header_accepts)
  moreover have "valid r \<and> parseError r = None \<and> riskScore r \<le> 100"
    using Inr by (auto simp: analyze_module_def Let_def computeRiskScore_def split: sum.splits prod.splits)
  ultimately show ?thesis using Inr by (simp add: analyzeWasmBytecode_def)
qed

theorem wasm_result_consistent_witness:
  "valid (analyzeWasmBytecode (enc_module [])) \<and> take 8 (enc_module []) = wasm_header
   \<and> \<not> valid (analyzeWasmBytecode [0]) \<and> riskScore (analyzeWasmBytecode [0]) = 100"
proof -
  have "\<not> valid (analyzeWasmBytecode [0])"
    by (simp add: analyzeWasmBytecode_def analyze_module_def read_header_def)
  moreover have "analyzeWasmBytecode (enc_module []) = report_of []"
    using at_suffix[of wasm_header "[]"]
    by (simp add: analyzeWasmBytecode_def analyze_module_def enc_module_def read_header_ok[of "[]", simplified]
        parseSections.simps find_section_def code_findings_def report_of_def first_memories_def first_imports_def
        first_bodies_def computeRiskScore_def)
  then have "valid (analyzeWasmBytecode (enc_module []))" by (simp add: report_of_def Let_def)
  ultimately show ?thesis
    using wasm_result_consistent[of "enc_module []"] wasm_result_consistent[of "[0]"] by (simp add: Let_def)
qed



section \<open>Scanning a function body\<close>

datatype winstr =
    Unreachable | Block byte | Loop byte | IfBlock byte | Else | End
  | Call nat | CallIndirect nat byte | MemoryGrow byte

fun enc_instr :: "winstr \<Rightarrow> bytes" where
  "enc_instr Unreachable = [OP_UNREACHABLE]"
| "enc_instr (Block t) = [OP_BLOCK, t]"
| "enc_instr (Loop t) = [OP_LOOP, t]"
| "enc_instr (IfBlock t) = [OP_IF, t]"
| "enc_instr Else = [OP_ELSE]"
| "enc_instr End = [OP_END]"
| "enc_instr (Call f) = OP_CALL # leb f"
| "enc_instr (CallIndirect t b) = OP_CALL_INDIRECT # leb t @ [b]"
| "enc_instr (MemoryGrow m) = [OP_MEMORY_GROW, m]"

fun instr_ok :: "winstr \<Rightarrow> bool" where
  "instr_ok (Call f) \<longleftrightarrow> f < 2 ^ 32"
| "instr_ok (CallIndirect t _) \<longleftrightarrow> t < 2 ^ 32"
| "instr_ok _ = True"

definition handled :: "byte \<Rightarrow> bool" where
  "handled op \<longleftrightarrow> op \<in> {OP_UNREACHABLE, OP_BLOCK, OP_LOOP, OP_IF, OP_ELSE, OP_END, OP_CALL, OP_CALL_INDIRECT, OP_MEMORY_GROW}"

fun depth_step :: "nat \<Rightarrow> winstr \<Rightarrow> nat" where
  "depth_step d (Block _) = d + 1"
| "depth_step d (Loop _) = d + 1"
| "depth_step d (IfBlock _) = d + 1"
| "depth_step d End = d - 1"
| "depth_step d _ = d"

definition enc_locals :: "(nat \<times> byte) list \<Rightarrow> bytes" where
  "enc_locals ls = leb (length ls) @ concat (map (\<lambda>(n, t). leb n @ [t]) ls)"

definition scan_step :: "scan_state \<Rightarrow> winstr \<Rightarrow> scan_state" where
  "scan_step s i =
     s\<lparr>sc_depth := depth_step (sc_depth s) i,
       sc_unreachable := (sc_unreachable s \<or> i = Unreachable \<and> sc_depth s = 0),
       sc_grow := (sc_grow s \<or> (\<exists>m. i = MemoryGrow m)),
       sc_call := (sc_call s \<or> (\<exists>f. i = Call f) \<or> (\<exists>t b. i = CallIndirect t b))\<rparr>"

lemma scan_op_at:
  assumes "at bs off (enc_instr i)" "instr_ok i"
  shows "scan_op bs off s = Inr (scan_step s i, Some (off + length (enc_instr i)))"
proof (cases i)
  case (Call f)
  then show ?thesis using assms leb_read[of bs "Suc off" f] by (simp add: scan_op_def scan_step_def)
next
  case (CallIndirect t b)
  then show ?thesis using assms leb_read[of bs "Suc off" t] by (simp add: scan_op_def scan_step_def)
qed (use assms in \<open>auto simp: scan_op_def scan_step_def\<close>)

lemma enc_instr_nonempty [simp]: "enc_instr i \<noteq> []"
  by (cases i) auto

lemma scan_loop_at:
  "at bs off (concat (map enc_instr is) @ rest) \<Longrightarrow> off + length (concat (map enc_instr is)) + length rest = length bs \<Longrightarrow>
   list_all instr_ok is \<Longrightarrow> rest = [] \<or> \<not> handled (hd rest) \<Longrightarrow> scan_loop bs off s = Inr (foldl scan_step s is)"
proof (induction "is" arbitrary: off s)
  case Nil
  then show ?case
    by (cases rest) (subst scan_loop.simps, simp add: scan_op_def handled_def)+
next
  case (Cons i "is")
  have "off < length bs" using Cons.prems(1) by (cases "enc_instr i") auto
  moreover have "scan_loop bs (off + length (enc_instr i)) (scan_step s i) = Inr (foldl scan_step (scan_step s i) is)"
    using Cons.IH[of "off + length (enc_instr i)"] Cons.prems by (simp add: add.assoc)
  moreover have "scan_op bs off s = Inr (scan_step s i, Some (off + length (enc_instr i)))"
    using scan_op_at[of bs off i s] Cons.prems(1,3) by simp
  ultimately show ?case by (subst scan_loop.simps) simp
qed

lemma locals_loop_at:
  "at bs off (concat (map (\<lambda>(n, t). leb n @ [t]) ls)) \<Longrightarrow> list_all (\<lambda>(n, t). n < 2 ^ 32) ls \<Longrightarrow> i + length ls = n \<Longrightarrow>
   locals_loop bs n i off = Inr (off + length (concat (map (\<lambda>(n, t). leb n @ [t]) ls)))"
proof (induction ls arbitrary: off i)
  case Nil
  then show ?case by (subst locals_loop.simps) simp
next
  case (Cons l ls)
  obtain k t where l: "l = (k, t)" by (cases l)
  have "locals_loop bs n (Suc i) (Suc (off + length (leb k))) =
      Inr (Suc (off + length (leb k)) + length (concat (map (\<lambda>(n, t). leb n @ [t]) ls)))"
    using Cons.IH[of "Suc (off + length (leb k))" "Suc i"] Cons.prems by (simp add: l)
  then show ?case using leb_read[of bs off k] Cons.prems by (subst locals_loop.simps) (simp add: l)
qed

lemma foldl_scan_step:
  "sc_depth (foldl scan_step s is) = foldl depth_step (sc_depth s) is
   \<and> sc_unreachable (foldl scan_step s is) =
       (sc_unreachable s \<or> (\<exists>xs ys. is = xs @ Unreachable # ys \<and> foldl depth_step (sc_depth s) xs = 0))
   \<and> sc_grow (foldl scan_step s is) = (sc_grow s \<or> (\<exists>m. MemoryGrow m \<in> set is))
   \<and> sc_call (foldl scan_step s is) = (sc_call s \<or> (\<exists>f. Call f \<in> set is) \<or> (\<exists>t b. CallIndirect t b \<in> set is))"
proof (induction "is" rule: rev_induct)
  case (snoc i "is")
  have u: "(\<exists>xs ys. is @ [i] = xs @ Unreachable # ys \<and> foldl depth_step (sc_depth s) xs = 0) =
    ((\<exists>xs ys. is = xs @ Unreachable # ys \<and> foldl depth_step (sc_depth s) xs = 0)
      \<or> i = Unreachable \<and> foldl depth_step (sc_depth s) is = 0)" (is "?l = ?r")
  proof
    assume ?l
    then obtain xs ys where e: "is @ [i] = xs @ Unreachable # ys" "foldl depth_step (sc_depth s) xs = 0" by blast
    then show ?r by (cases ys rule: rev_cases) auto
  qed force
  define t where "t = foldl scan_step s is"
  have t: "foldl scan_step s (is @ [i]) = scan_step t i" by (simp add: t_def)
  have ih: "sc_depth t = foldl depth_step (sc_depth s) is"
    "sc_unreachable t = (sc_unreachable s \<or> (\<exists>xs ys. is = xs @ Unreachable # ys \<and> foldl depth_step (sc_depth s) xs = 0))"
    "sc_grow t = (sc_grow s \<or> (\<exists>m. MemoryGrow m \<in> set is))"
    "sc_call t = (sc_call s \<or> (\<exists>f. Call f \<in> set is) \<or> (\<exists>t b. CallIndirect t b \<in> set is))"
    using snoc unfolding t_def by blast+
  have "sc_depth (scan_step t i) = foldl depth_step (sc_depth s) (is @ [i])"
    "sc_unreachable (scan_step t i) = (sc_unreachable t \<or> i = Unreachable \<and> sc_depth t = 0)"
    "sc_grow (scan_step t i) = (sc_grow t \<or> (\<exists>m. i = MemoryGrow m))"
    "sc_call (scan_step t i) = (sc_call t \<or> (\<exists>f. i = Call f) \<or> (\<exists>t b. i = CallIndirect t b))"
    by (simp_all add: scan_step_def ih(1))
  then show ?case unfolding t u set_append list.set ih by blast
qed simp

text \<open>The scan of a body is exact up to the first opcode it does not know, and blind after it: on any
  local declarations followed by instructions of the known set, optionally followed by an unknown opcode
  and arbitrary bytes, the result is determined by the known prefix alone. A bare unreachable is reported
  iff one occurs at block depth zero, a memory growth and a call iff they occur in the prefix. Since
  every ordinary instruction (a constant, a local access) is unknown, a trap or growth after it is
  never reported, and no incomplete-scan finding is raised either.\<close>

theorem scan_body_prefix_exact:
  assumes "length ls < 2 ^ 32" "list_all (\<lambda>(n, t). n < 2 ^ 32) ls" "list_all instr_ok is"
    and "rest = [] \<or> \<not> handled (hd rest)"
  shows "scanFunctionBody (enc_locals ls @ concat (map enc_instr is) @ rest) =
    Inr \<lparr>hasBareUnreachable = (\<exists>xs ys. is = xs @ Unreachable # ys \<and> foldl depth_step 0 xs = 0),
         hasUnboundedMemoryGrow = (\<exists>m. MemoryGrow m \<in> set is),
         callsBeforeLikelyStateChange = ((\<exists>f. Call f \<in> set is) \<or> (\<exists>t b. CallIndirect t b \<in> set is))\<rparr>"
proof -
  let ?bs = "enc_locals ls @ concat (map enc_instr is) @ rest" and ?s0 = "\<lparr>sc_depth = 0, sc_unreachable = False, sc_grow = False, sc_call = False\<rparr>"
  have l: "at ?bs 0 (enc_locals ls)" using at_middle[of "[]" "enc_locals ls"] by simp
  have b: "at ?bs (length (enc_locals ls)) (concat (map enc_instr is) @ rest)" by (rule at_suffix)
  have "readVarUint32 ?bs 0 = Inr (length ls, length (leb (length ls)))"
    using leb_read[of ?bs 0 "length ls"] l assms(1) by (simp add: enc_locals_def)
  moreover have "locals_loop ?bs (length ls) 0 (length (leb (length ls))) = Inr (length (enc_locals ls))"
    using locals_loop_at[of ?bs "length (leb (length ls))" ls 0 "length ls"] l assms(2) by (simp add: enc_locals_def)
  moreover have "scan_loop ?bs (length (enc_locals ls)) ?s0 = Inr (foldl scan_step ?s0 is)"
    by (rule scan_loop_at[OF b _ assms(3,4)]) simp
  ultimately show ?thesis using foldl_scan_step[of ?s0 "is"] by (simp add: scanFunctionBody_def)
qed

theorem scan_body_prefix_exact_witness:
  "scanFunctionBody (enc_locals [] @ concat (map enc_instr [Unreachable]) @ []) =
     Inr \<lparr>hasBareUnreachable = True, hasUnboundedMemoryGrow = False, callsBeforeLikelyStateChange = False\<rparr>
   \<and> scanFunctionBody (enc_locals [] @ concat (map enc_instr []) @ [0x41, 0x00, 0x1a, OP_UNREACHABLE, OP_END]) =
     Inr \<lparr>hasBareUnreachable = False, hasUnboundedMemoryGrow = False, callsBeforeLikelyStateChange = False\<rparr>"
proof -
  let ?p = "\<lambda>is. \<exists>xs ys. is = xs @ Unreachable # ys \<and> foldl depth_step 0 xs = 0"
  have p: "?p [Unreachable] = True" "?p [] = False" by (auto intro: exI[of _ "[]"])
  have u: "\<not> handled (hd [0x41, 0x00, 0x1a, OP_UNREACHABLE, OP_END])" by (simp add: handled_def)
  note first = scan_body_prefix_exact[of "[]" "[Unreachable]" "[]", unfolded p]
  note second = scan_body_prefix_exact[of "[]" "[]" "[0x41, 0x00, 0x1a, OP_UNREACHABLE, OP_END]", unfolded p]
  have "scanFunctionBody (enc_locals [] @ concat (map enc_instr [Unreachable]) @ []) =
     Inr \<lparr>hasBareUnreachable = True, hasUnboundedMemoryGrow = False, callsBeforeLikelyStateChange = False\<rparr>"
    by (subst first) simp_all
  moreover have "scanFunctionBody (enc_locals [] @ concat (map enc_instr []) @ [0x41, 0x00, 0x1a, OP_UNREACHABLE, OP_END]) =
     Inr \<lparr>hasBareUnreachable = False, hasUnboundedMemoryGrow = False, callsBeforeLikelyStateChange = False\<rparr>"
    using u by (subst second) simp_all
  ultimately show ?thesis by (rule conjI)
qed

end
