(* ===== verification/IpNet.thy ===== *)
theory IpNet
  imports Prelude
begin

text \<open>
  Addresses and CIDR ranges, as the two egress guards use them
  (\<open>apps/api/src/utils/ssrf.ts\<close> and \<open>apps/api/src/modules/webhooks/ssrf-filter.ts\<close>): the text forms that
  \<open>net.isIPv4\<close> and \<open>net.isIPv6\<close> of the Node.js run-time library accept, the
  conversion of a dotted address to a 32-bit number and the masked comparison. The CIDR test is shown to
  compare leading bits, and the bit comparison to be a condition on the four octets.
\<close>

section \<open>Run-time library\<close>

definition v4_seg :: "string \<Rightarrow> bool" where
  "v4_seg p \<longleftrightarrow> p \<noteq> [] \<and> length p \<le> 3 \<and> list_all is_digit p \<and> (length p = 1 \<or> hd p \<noteq> CHR ''0'') \<and> dec_val p \<le> 255"

definition isIPv4 :: "string \<Rightarrow> bool" where
  "isIPv4 s \<longleftrightarrow> length (split_on CHR ''.'' s) = 4 \<and> list_all v4_seg (split_on CHR ''.'' s)"

definition hex_char :: "char \<Rightarrow> bool" where
  "hex_char c \<longleftrightarrow> is_digit c \<or> 65 \<le> char_code c \<and> char_code c \<le> 70 \<or> 97 \<le> char_code c \<and> char_code c \<le> 102"

definition v6_seg :: "string \<Rightarrow> bool" where
  "v6_seg p \<longleftrightarrow> 1 \<le> length p \<and> length p \<le> 4 \<and> list_all hex_char p"

text \<open>The number of 16-bit groups of a colon-separated part, of which the last may be a dotted address.\<close>

definition v6_groups :: "bool \<Rightarrow> string \<Rightarrow> nat option" where
  "v6_groups v4_allowed t =
     (if t = [] then Some 0
      else
        (let ps = split_on CHR '':'' t in
         if list_all v6_seg ps then Some (length ps)
         else if v4_allowed \<and> list_all v6_seg (butlast ps) \<and> isIPv4 (last ps) then Some (length ps + 1)
         else None))"

fun cut_double_colon :: "string \<Rightarrow> (string \<times> string) option" where
  "cut_double_colon [] = None"
| "cut_double_colon (c # s) =
     (if c = CHR '':'' \<and> s \<noteq> [] \<and> hd s = CHR '':'' then Some ([], tl s)
      else map_option (\<lambda>(l, r). (c # l, r)) (cut_double_colon s))"

definition zone_char :: "char \<Rightarrow> bool" where
  "zone_char c \<longleftrightarrow> is_digit c \<or> 65 \<le> char_code c \<and> char_code c \<le> 90 \<or> 97 \<le> char_code c \<and> char_code c \<le> 122
     \<or> c \<in> {CHR ''-'', CHR ''.'', CHR '':''}"

definition v6_body :: "string \<Rightarrow> bool" where
  "v6_body s =
     (case cut_double_colon s of
        None \<Rightarrow> v6_groups True s = Some 8
      | Some (l, r) \<Rightarrow>
          (case (v6_groups False l, v6_groups True r) of
             (Some m, Some n) \<Rightarrow> m + n \<le> 7
           | _ \<Rightarrow> False))"

definition isIPv6 :: "string \<Rightarrow> bool" where
  "isIPv6 s =
     (case split_on CHR ''%'' s of
        [body] \<Rightarrow> v6_body body
      | [body, zone] \<Rightarrow> v6_body body \<and> zone \<noteq> [] \<and> list_all zone_char zone
      | _ \<Rightarrow> False)"

text \<open>\<open>s.replace(/^\[|\]$/g, '')\<close>.\<close>

definition strip_brackets :: "string \<Rightarrow> string" where
  "strip_brackets s =
     (let t = (if s \<noteq> [] \<and> hd s = CHR ''['' then tl s else s) in
      if t \<noteq> [] \<and> last t = CHR '']'' then butlast t else t)"

section \<open>CIDR matching\<close>

text \<open>One step of the reduction \<open>((acc << 8) + parseInt(octet, 10)) >>> 0\<close>; adding \<open>NaN\<close> gives 0.\<close>

definition add_octet :: "32 word \<Rightarrow> string \<Rightarrow> 32 word" where
  "add_octet acc octet = (case parseInt10 octet of Some v \<Rightarrow> push_bit 8 acc + word_of_int v | None \<Rightarrow> 0)"

definition ip4ToLong :: "string \<Rightarrow> 32 word" where
  "ip4ToLong ip = foldl add_octet 0 (split_on CHR ''.'' ip)"

definition cidr_mask :: "nat \<Rightarrow> 32 word" where
  "cidr_mask prefix = (if prefix = 0 then 0 else push_bit (32 - prefix) (- 1))"

text \<open>A range is written in the source as a string \<open>a.b.c.d/n\<close>; \<open>cidr.split('/')\<close> and \<open>parseInt\<close> read it.\<close>

definition cidr_range :: "string \<Rightarrow> string" where
  "cidr_range cidr = split_on CHR ''/'' cidr ! 0"

definition cidr_prefix :: "string \<Rightarrow> nat" where
  "cidr_prefix cidr = (case parseInt10 (split_on CHR ''/'' cidr ! 1) of Some v \<Rightarrow> nat v | None \<Rightarrow> 0)"

definition inIpv4Cidr :: "string \<Rightarrow> string \<Rightarrow> bool" where
  "inIpv4Cidr ip cidr =
     (ip4ToLong ip AND cidr_mask (cidr_prefix cidr) = ip4ToLong (cidr_range cidr) AND cidr_mask (cidr_prefix cidr))"

section \<open>Facts\<close>

definition octets :: "string \<Rightarrow> nat list" where
  "octets s = map dec_val (split_on CHR ''.'' s)"

lemma length_four: "length xs = 4 \<Longrightarrow> \<exists>a b c d. xs = [a, b, c, d]"
  by (auto simp: numeral_eq_Suc length_Suc_conv)

lemma isIPv4_octets:
  assumes "isIPv4 s"
  obtains a b c d where "octets s = [a, b, c, d]" "a < 256" "b < 256" "c < 256" "d < 256"
    "ip4ToLong s = of_nat (a * 16777216 + b * 65536 + c * 256 + d)"
proof -
  obtain p q r t where sp: "split_on CHR ''.'' s = [p, q, r, t]"
    using assms length_four[of "split_on CHR ''.'' s"] by (auto simp: isIPv4_def)
  have seg: "v4_seg p" "v4_seg q" "v4_seg r" "v4_seg t" using assms by (simp_all add: isIPv4_def sp)
  have pi: "parseInt10 w = Some (int (dec_val w))" if "v4_seg w" for w
    by (rule parseInt10_digits) (use that in \<open>simp_all add: v4_seg_def\<close>)
  have lt: "dec_val w < 256" if "v4_seg w" for w using that by (simp add: v4_seg_def)
  have "ip4ToLong s = of_nat (dec_val p * 16777216 + dec_val q * 65536 + dec_val r * 256 + dec_val t)"
    using seg by (simp add: ip4ToLong_def sp add_octet_def pi push_bit_eq_mult algebra_simps)
  then show ?thesis using that[of "dec_val p" "dec_val q" "dec_val r" "dec_val t"] seg lt by (simp add: octets_def sp)
qed

lemma mask_eq_drop_bit:
  fixes x y :: "32 word"
  assumes "0 < n" "n \<le> 32"
  shows "x AND cidr_mask n = y AND cidr_mask n \<longleftrightarrow> drop_bit (32 - n) x = drop_bit (32 - n) y"
proof -
  have m: "bit (z AND cidr_mask n) i \<longleftrightarrow> 32 - n \<le> i \<and> i < 32 \<and> bit z i" for z :: "32 word" and i
    using assms by (auto simp: cidr_mask_def bit_and_iff bit_not_iff bit_mask_iff push_bit_minus_one_eq_not_mask dest: bit_imp_le_length)
  have d: "bit (drop_bit (32 - n) z) i \<longleftrightarrow> bit z (32 - n + i)" for z :: "32 word" and i
    by (simp add: bit_drop_bit_eq)
  show ?thesis
  proof
    assume e: "x AND cidr_mask n = y AND cidr_mask n"
    show "drop_bit (32 - n) x = drop_bit (32 - n) y"
    proof (rule bit_word_eqI)
      fix i
      have "bit (x AND cidr_mask n) (32 - n + i) = bit (y AND cidr_mask n) (32 - n + i)" using e by simp
      then show "bit (drop_bit (32 - n) x) i = bit (drop_bit (32 - n) y) i"
        using bit_imp_le_length[of x "32 - n + i"] bit_imp_le_length[of y "32 - n + i"] by (auto simp: m d)
    qed
  next
    assume e: "drop_bit (32 - n) x = drop_bit (32 - n) y"
    show "x AND cidr_mask n = y AND cidr_mask n"
    proof (rule bit_word_eqI)
      fix i
      have "32 - n \<le> i \<Longrightarrow> bit x i = bit y i"
        using arg_cong[OF e, of "\<lambda>w. bit w (i - (32 - n))"] by (simp add: d)
      then show "bit (x AND cidr_mask n) i = bit (y AND cidr_mask n) i" by (auto simp: m)
    qed
  qed
qed

lemma cidr_leading_bits:
  assumes "0 < n" "n \<le> 32" "u < 2 ^ 32" "v < 2 ^ 32"
  shows "of_nat u AND cidr_mask n = of_nat v AND cidr_mask n \<longleftrightarrow> u div 2 ^ (32 - n) = v div 2 ^ (32 - n)"
proof -
  have "unat (drop_bit (32 - n) (of_nat w :: 32 word)) = w div 2 ^ (32 - n)" if "w < 2 ^ 32" for w
    using that unat_drop_bit_eq[of "32 - n" "of_nat w :: 32 word"]
    by (simp add: unat_of_nat take_bit_eq_mod flip: drop_bit_eq_div)
  then show ?thesis using assms mask_eq_drop_bit[of n "of_nat u" "of_nat v"] by (metis word_unat_eq_iff)
qed

definition v4_value :: "string \<Rightarrow> nat" where
  "v4_value s = foldl (\<lambda>acc v. acc * 256 + v) 0 (octets s)"

lemma v4_value_word:
  assumes "isIPv4 s"
  shows "ip4ToLong s = of_nat (v4_value s)" "v4_value s < 2 ^ 32"
proof -
  obtain a b c d where o: "octets s = [a, b, c, d]" "a < 256" "b < 256" "c < 256" "d < 256"
    "ip4ToLong s = of_nat (a * 16777216 + b * 65536 + c * 256 + d)" using isIPv4_octets[OF assms] .
  then show "ip4ToLong s = of_nat (v4_value s)" "v4_value s < 2 ^ 32"
    by (simp_all add: v4_value_def algebra_simps)
qed

lemma inIpv4Cidr_iff:
  assumes "isIPv4 s" "isIPv4 (cidr_range cidr)" "0 < cidr_prefix cidr" "cidr_prefix cidr \<le> 32"
  shows "inIpv4Cidr s cidr \<longleftrightarrow>
    v4_value s div 2 ^ (32 - cidr_prefix cidr) = v4_value (cidr_range cidr) div 2 ^ (32 - cidr_prefix cidr)"
  unfolding inIpv4Cidr_def using cidr_leading_bits assms v4_value_word by metis

text \<open>The special-use ranges of IPv4, stated on the octets.\<close>

fun special_use :: "nat list \<Rightarrow> bool" where
  "special_use [a, b, c, d] \<longleftrightarrow>
     a = 0 \<or> a = 10 \<or> a = 127 \<or> 224 \<le> a \<or> a = 100 \<and> 64 \<le> b \<and> b \<le> 127 \<or> a = 169 \<and> b = 254
     \<or> a = 172 \<and> 16 \<le> b \<and> b \<le> 31 \<or> a = 192 \<and> b = 168 \<or> a = 192 \<and> b = 0 \<and> (c = 0 \<or> c = 2)
     \<or> a = 198 \<and> (b = 18 \<or> b = 19) \<or> a = 198 \<and> b = 51 \<and> c = 100 \<or> a = 203 \<and> b = 0 \<and> c = 113"
| "special_use _ = False"

lemmas net_eval = cidr_range_def cidr_prefix_def parseInt10_def isIPv4_def v4_seg_def is_digit_def is_space_def
  dec_val_def digit_val_def v4_value_def octets_def

lemma v4_shift:
  assumes "b < 256" "c < 256" "d < (256 :: nat)"
  shows "(((a * 256 + b) * 256 + c) * 256 + d) div 2 ^ 24 = a"
    "(((a * 256 + b) * 256 + c) * 256 + d) div 2 ^ 16 = a * 256 + b"
    "(((a * 256 + b) * 256 + c) * 256 + d) div 2 ^ 8 = (a * 256 + b) * 256 + c"
    "(((a * 256 + b) * 256 + c) * 256 + d) div 2 ^ 20 = a * 16 + b div 16"
    "(((a * 256 + b) * 256 + c) * 256 + d) div 2 ^ 22 = a * 4 + b div 64"
    "(((a * 256 + b) * 256 + c) * 256 + d) div 2 ^ 17 = a * 128 + b div 2"
    "(((a * 256 + b) * 256 + c) * 256 + d) div 2 ^ 28 = a div 16"
  using assms by simp_all

lemma digit_unique: "(y :: nat) < B \<Longrightarrow> x * B + y = n \<longleftrightarrow> x = n div B \<and> y = n mod B"
  by auto

lemma cidr_const:
  assumes "isIPv4 s" "octets s = [a, b, c, d]"
    and "isIPv4 (cidr_range cidr) \<and> cidr_prefix cidr = p \<and> v4_value (cidr_range cidr) = n" "0 < p" "p \<le> 32"
    and "32 - p = k" "n div 2 ^ k = m"
  shows "inIpv4Cidr s cidr \<longleftrightarrow> (((a * 256 + b) * 256 + c) * 256 + d) div 2 ^ k = m"
  using inIpv4Cidr_iff[of s cidr] assms by (simp add: v4_value_def[of s])

lemma cidr_constants:
  "isIPv4 (cidr_range ''0.0.0.0/8'') \<and> cidr_prefix ''0.0.0.0/8'' = 8 \<and> v4_value (cidr_range ''0.0.0.0/8'') = 0"
  "isIPv4 (cidr_range ''10.0.0.0/8'') \<and> cidr_prefix ''10.0.0.0/8'' = 8 \<and> v4_value (cidr_range ''10.0.0.0/8'') = 167772160"
  "isIPv4 (cidr_range ''100.64.0.0/10'') \<and> cidr_prefix ''100.64.0.0/10'' = 10 \<and> v4_value (cidr_range ''100.64.0.0/10'') = 1681915904"
  "isIPv4 (cidr_range ''127.0.0.0/8'') \<and> cidr_prefix ''127.0.0.0/8'' = 8 \<and> v4_value (cidr_range ''127.0.0.0/8'') = 2130706432"
  "isIPv4 (cidr_range ''169.254.0.0/16'') \<and> cidr_prefix ''169.254.0.0/16'' = 16 \<and> v4_value (cidr_range ''169.254.0.0/16'') = 2851995648"
  "isIPv4 (cidr_range ''172.16.0.0/12'') \<and> cidr_prefix ''172.16.0.0/12'' = 12 \<and> v4_value (cidr_range ''172.16.0.0/12'') = 2886729728"
  "isIPv4 (cidr_range ''192.0.0.0/24'') \<and> cidr_prefix ''192.0.0.0/24'' = 24 \<and> v4_value (cidr_range ''192.0.0.0/24'') = 3221225472"
  "isIPv4 (cidr_range ''192.0.2.0/24'') \<and> cidr_prefix ''192.0.2.0/24'' = 24 \<and> v4_value (cidr_range ''192.0.2.0/24'') = 3221225984"
  "isIPv4 (cidr_range ''192.168.0.0/16'') \<and> cidr_prefix ''192.168.0.0/16'' = 16 \<and> v4_value (cidr_range ''192.168.0.0/16'') = 3232235520"
  "isIPv4 (cidr_range ''198.18.0.0/15'') \<and> cidr_prefix ''198.18.0.0/15'' = 15 \<and> v4_value (cidr_range ''198.18.0.0/15'') = 3323068416"
  "isIPv4 (cidr_range ''198.51.100.0/24'') \<and> cidr_prefix ''198.51.100.0/24'' = 24 \<and> v4_value (cidr_range ''198.51.100.0/24'') = 3325256704"
  "isIPv4 (cidr_range ''203.0.113.0/24'') \<and> cidr_prefix ''203.0.113.0/24'' = 24 \<and> v4_value (cidr_range ''203.0.113.0/24'') = 3405803776"
  "isIPv4 (cidr_range ''224.0.0.0/4'') \<and> cidr_prefix ''224.0.0.0/4'' = 4 \<and> v4_value (cidr_range ''224.0.0.0/4'') = 3758096384"
  "isIPv4 (cidr_range ''240.0.0.0/4'') \<and> cidr_prefix ''240.0.0.0/4'' = 4 \<and> v4_value (cidr_range ''240.0.0.0/4'') = 4026531840"
  "isIPv4 (cidr_range ''255.255.255.255/32'') \<and> cidr_prefix ''255.255.255.255/32'' = 32 \<and> v4_value (cidr_range ''255.255.255.255/32'') = 4294967295"
  "isIPv4 (cidr_range ''169.254.169.254/32'') \<and> cidr_prefix ''169.254.169.254/32'' = 32 \<and> v4_value (cidr_range ''169.254.169.254/32'') = 2852039166"
  by (simp_all add: net_eval)

lemma cidr_octets:
  assumes "isIPv4 s" "octets s = [a, b, c, d]" "a < 256" "b < 256" "c < 256" "d < 256"
  shows "inIpv4Cidr s ''0.0.0.0/8'' \<longleftrightarrow> a = 0"
    "inIpv4Cidr s ''10.0.0.0/8'' \<longleftrightarrow> a = 10"
    "inIpv4Cidr s ''100.64.0.0/10'' \<longleftrightarrow> a = 100 \<and> 64 \<le> b \<and> b \<le> 127"
    "inIpv4Cidr s ''127.0.0.0/8'' \<longleftrightarrow> a = 127"
    "inIpv4Cidr s ''169.254.0.0/16'' \<longleftrightarrow> a = 169 \<and> b = 254"
    "inIpv4Cidr s ''172.16.0.0/12'' \<longleftrightarrow> a = 172 \<and> 16 \<le> b \<and> b \<le> 31"
    "inIpv4Cidr s ''192.0.0.0/24'' \<longleftrightarrow> a = 192 \<and> b = 0 \<and> c = 0"
    "inIpv4Cidr s ''192.0.2.0/24'' \<longleftrightarrow> a = 192 \<and> b = 0 \<and> c = 2"
    "inIpv4Cidr s ''192.168.0.0/16'' \<longleftrightarrow> a = 192 \<and> b = 168"
    "inIpv4Cidr s ''198.18.0.0/15'' \<longleftrightarrow> a = 198 \<and> (b = 18 \<or> b = 19)"
    "inIpv4Cidr s ''198.51.100.0/24'' \<longleftrightarrow> a = 198 \<and> b = 51 \<and> c = 100"
    "inIpv4Cidr s ''203.0.113.0/24'' \<longleftrightarrow> a = 203 \<and> b = 0 \<and> c = 113"
    "inIpv4Cidr s ''224.0.0.0/4'' \<longleftrightarrow> 224 \<le> a \<and> a \<le> 239"
    "inIpv4Cidr s ''240.0.0.0/4'' \<longleftrightarrow> 240 \<le> a"
    "inIpv4Cidr s ''255.255.255.255/32'' \<longleftrightarrow> a = 255 \<and> b = 255 \<and> c = 255 \<and> d = 255"
    "inIpv4Cidr s ''169.254.169.254/32'' \<longleftrightarrow> a = 169 \<and> b = 254 \<and> c = 169 \<and> d = 254"
proof -
  note sh = v4_shift[OF assms(4-6), of a] and const = cidr_const[OF assms(1,2)]
  have small: "b div 16 < 16" "b div 64 < 4" "b div 2 < 128" using assms(4) by linarith+
  note dig = digit_unique[OF assms(4)] digit_unique[OF assms(5)] digit_unique[OF assms(6)] digit_unique[OF small(1)]
    digit_unique[OF small(2)] digit_unique[OF small(3)]
  have "inIpv4Cidr s ''0.0.0.0/8'' \<longleftrightarrow> (((a * 256 + b) * 256 + c) * 256 + d) div 2 ^ 24 = 0"
    by (rule const[OF cidr_constants(1)]) simp_all
  then show "inIpv4Cidr s ''0.0.0.0/8'' \<longleftrightarrow> a = 0"
    unfolding sh(1) using assms(3-6) by (simp add: dig; linarith)
  have "inIpv4Cidr s ''10.0.0.0/8'' \<longleftrightarrow> (((a * 256 + b) * 256 + c) * 256 + d) div 2 ^ 24 = 10"
    by (rule const[OF cidr_constants(2)]) simp_all
  then show "inIpv4Cidr s ''10.0.0.0/8'' \<longleftrightarrow> a = 10"
    unfolding sh(1) using assms(3-6) by (simp add: dig; linarith)
  have "inIpv4Cidr s ''100.64.0.0/10'' \<longleftrightarrow> (((a * 256 + b) * 256 + c) * 256 + d) div 2 ^ 22 = 401"
    by (rule const[OF cidr_constants(3)]) simp_all
  then show "inIpv4Cidr s ''100.64.0.0/10'' \<longleftrightarrow> a = 100 \<and> 64 \<le> b \<and> b \<le> 127"
    unfolding sh(5) using assms(3-6) by (simp add: dig; linarith)
  have "inIpv4Cidr s ''127.0.0.0/8'' \<longleftrightarrow> (((a * 256 + b) * 256 + c) * 256 + d) div 2 ^ 24 = 127"
    by (rule const[OF cidr_constants(4)]) simp_all
  then show "inIpv4Cidr s ''127.0.0.0/8'' \<longleftrightarrow> a = 127"
    unfolding sh(1) using assms(3-6) by (simp add: dig; linarith)
  have "inIpv4Cidr s ''169.254.0.0/16'' \<longleftrightarrow> (((a * 256 + b) * 256 + c) * 256 + d) div 2 ^ 16 = 43518"
    by (rule const[OF cidr_constants(5)]) simp_all
  then show "inIpv4Cidr s ''169.254.0.0/16'' \<longleftrightarrow> a = 169 \<and> b = 254"
    unfolding sh(2) dig by auto
  have "inIpv4Cidr s ''172.16.0.0/12'' \<longleftrightarrow> (((a * 256 + b) * 256 + c) * 256 + d) div 2 ^ 20 = 2753"
    by (rule const[OF cidr_constants(6)]) simp_all
  then show "inIpv4Cidr s ''172.16.0.0/12'' \<longleftrightarrow> a = 172 \<and> 16 \<le> b \<and> b \<le> 31"
    unfolding sh(4) using assms(3-6) by (simp add: dig; linarith)
  have "inIpv4Cidr s ''192.0.0.0/24'' \<longleftrightarrow> (((a * 256 + b) * 256 + c) * 256 + d) div 2 ^ 8 = 12582912"
    by (rule const[OF cidr_constants(7)]) simp_all
  then show "inIpv4Cidr s ''192.0.0.0/24'' \<longleftrightarrow> a = 192 \<and> b = 0 \<and> c = 0"
    unfolding sh(3) dig by auto
  have "inIpv4Cidr s ''192.0.2.0/24'' \<longleftrightarrow> (((a * 256 + b) * 256 + c) * 256 + d) div 2 ^ 8 = 12582914"
    by (rule const[OF cidr_constants(8)]) simp_all
  then show "inIpv4Cidr s ''192.0.2.0/24'' \<longleftrightarrow> a = 192 \<and> b = 0 \<and> c = 2"
    unfolding sh(3) dig by auto
  have "inIpv4Cidr s ''192.168.0.0/16'' \<longleftrightarrow> (((a * 256 + b) * 256 + c) * 256 + d) div 2 ^ 16 = 49320"
    by (rule const[OF cidr_constants(9)]) simp_all
  then show "inIpv4Cidr s ''192.168.0.0/16'' \<longleftrightarrow> a = 192 \<and> b = 168"
    unfolding sh(2) dig by auto
  have "inIpv4Cidr s ''198.18.0.0/15'' \<longleftrightarrow> (((a * 256 + b) * 256 + c) * 256 + d) div 2 ^ 17 = 25353"
    by (rule const[OF cidr_constants(10)]) simp_all
  then show "inIpv4Cidr s ''198.18.0.0/15'' \<longleftrightarrow> a = 198 \<and> (b = 18 \<or> b = 19)"
    unfolding sh(6) using assms(3-6) by (simp add: dig; linarith)
  have "inIpv4Cidr s ''198.51.100.0/24'' \<longleftrightarrow> (((a * 256 + b) * 256 + c) * 256 + d) div 2 ^ 8 = 12989284"
    by (rule const[OF cidr_constants(11)]) simp_all
  then show "inIpv4Cidr s ''198.51.100.0/24'' \<longleftrightarrow> a = 198 \<and> b = 51 \<and> c = 100"
    unfolding sh(3) dig by auto
  have "inIpv4Cidr s ''203.0.113.0/24'' \<longleftrightarrow> (((a * 256 + b) * 256 + c) * 256 + d) div 2 ^ 8 = 13303921"
    by (rule const[OF cidr_constants(12)]) simp_all
  then show "inIpv4Cidr s ''203.0.113.0/24'' \<longleftrightarrow> a = 203 \<and> b = 0 \<and> c = 113"
    unfolding sh(3) dig by auto
  have "inIpv4Cidr s ''224.0.0.0/4'' \<longleftrightarrow> (((a * 256 + b) * 256 + c) * 256 + d) div 2 ^ 28 = 14"
    by (rule const[OF cidr_constants(13)]) simp_all
  then show "inIpv4Cidr s ''224.0.0.0/4'' \<longleftrightarrow> 224 \<le> a \<and> a \<le> 239"
    unfolding sh(7) using assms(3-6) by (simp add: dig; linarith)
  have "inIpv4Cidr s ''240.0.0.0/4'' \<longleftrightarrow> (((a * 256 + b) * 256 + c) * 256 + d) div 2 ^ 28 = 15"
    by (rule const[OF cidr_constants(14)]) simp_all
  then show "inIpv4Cidr s ''240.0.0.0/4'' \<longleftrightarrow> 240 \<le> a"
    unfolding sh(7) using assms(3-6) by (simp add: dig; linarith)
  have "inIpv4Cidr s ''255.255.255.255/32'' \<longleftrightarrow> (((a * 256 + b) * 256 + c) * 256 + d) div 2 ^ 0 = 4294967295"
    by (rule const[OF cidr_constants(15)]) simp_all
  then show "inIpv4Cidr s ''255.255.255.255/32'' \<longleftrightarrow> a = 255 \<and> b = 255 \<and> c = 255 \<and> d = 255"
    unfolding power_0 div_by_1 dig by auto
  have "inIpv4Cidr s ''169.254.169.254/32'' \<longleftrightarrow> (((a * 256 + b) * 256 + c) * 256 + d) div 2 ^ 0 = 2852039166"
    by (rule const[OF cidr_constants(16)]) simp_all
  then show "inIpv4Cidr s ''169.254.169.254/32'' \<longleftrightarrow> a = 169 \<and> b = 254 \<and> c = 169 \<and> d = 254"
    unfolding power_0 div_by_1 dig by auto
qed

end
