(* ===== verification/Ssrf.thy ===== *)
theory Ssrf
  imports Hex IpNet
begin

text \<open>
  The guard for outgoing requests (\<open>apps/api/src/utils/ssrf.ts\<close>): classification of addresses, validation of
  a destination and the fetch loop that validates every redirect. The world outside is a record of
  functions: the URL parser, DNS (whose answer may change with every call, numbered by the hop) and the
  remote servers. The loop returns, beside its result, the sequence of URLs it really requested. A
  response body is its text; \<open>NODE_ENV\<close> is an argument.
\<close>

section \<open>Addresses\<close>

definition PRIVATE_IPV4_CIDRS :: "string list" where
  "PRIVATE_IPV4_CIDRS =
     [''0.0.0.0/8'', ''10.0.0.0/8'', ''100.64.0.0/10'', ''127.0.0.0/8'', ''169.254.0.0/16'', ''172.16.0.0/12'',
      ''192.0.0.0/24'', ''192.0.2.0/24'', ''192.168.0.0/16'', ''198.18.0.0/15'', ''198.51.100.0/24'',
      ''203.0.113.0/24'', ''224.0.0.0/4'', ''240.0.0.0/4'', ''255.255.255.255/32'']"

definition isPrivateIpv4 :: "string \<Rightarrow> bool" where
  "isPrivateIpv4 ip = list_ex (inIpv4Cidr ip) PRIVATE_IPV4_CIDRS"

definition isPrivateIpv6 :: "string \<Rightarrow> bool" where
  "isPrivateIpv6 ip =
     (let normalized = trim (toLowerCase ip) in
      if normalized = ''::1'' \<or> normalized = ''::'' then True
      else if startsWith normalized ''::ffff:'' \<and> isIPv4 (drop 7 normalized) then isPrivateIpv4 (drop 7 normalized)
      else if startsWith normalized ''fc'' \<or> startsWith normalized ''fd'' then True
      else if startsWith normalized ''fe8'' \<or> startsWith normalized ''fe9'' \<or> startsWith normalized ''fea''
        \<or> startsWith normalized ''feb'' then True
      else if startsWith normalized ''ff'' then True
      else False)"

definition isPrivateIp :: "string \<Rightarrow> bool" where
  "isPrivateIp ip = (if isIPv4 ip then isPrivateIpv4 ip else if isIPv6 ip then isPrivateIpv6 ip else True)"

section \<open>Validation of a destination\<close>

datatype ssrf_error =
    INVALID_URL | INVALID_PROTOCOL | HTTPS_REQUIRED | CREDENTIALS_NOT_ALLOWED | LOCAL_HOST_FORBIDDEN
  | PORT_NOT_ALLOWED | DNS_LOOKUP_FAILED | NO_IP_RESOLVED | PRIVATE_IP_BLOCKED
  | REQUEST_BODY_TOO_LARGE | RESPONSE_TOO_LARGE | MAX_REDIRECTS_EXCEEDED | MISSING_REDIRECT_LOCATION
  | BAD_LOCATION | NETWORK_ERROR

record ParsedUrl =
  protocol :: string
  username :: string
  password :: string
  hostname :: string
  port :: string

record SsrfValidationOptions =
  allowHttp :: "bool option"
  allowedPorts :: "int list option"

record Response =
  status :: nat
  content_length :: "string option"
  location :: "string option"
  body_text :: string

record world =
  parse_url :: "string \<Rightarrow> ParsedUrl option"
  resolve_url :: "string \<Rightarrow> string \<Rightarrow> string option"
  dns_lookup :: "nat \<Rightarrow> string \<Rightarrow> string list option"
  fetch :: "nat \<Rightarrow> string \<Rightarrow> Response option"

definition DEFAULT_ALLOWED_PORTS :: "int list" where "DEFAULT_ALLOWED_PORTS = [80, 443, 8080, 8443]"
definition DEFAULT_MAX_REDIRECTS :: int where "DEFAULT_MAX_REDIRECTS = 3"
definition DEFAULT_MAX_REQUEST_BODY_BYTES :: int where "DEFAULT_MAX_REQUEST_BODY_BYTES = 1024 * 1024"
definition DEFAULT_MAX_RESPONSE_BODY_BYTES :: int where "DEFAULT_MAX_RESPONSE_BODY_BYTES = 64 * 1024"

definition url_port :: "ParsedUrl \<Rightarrow> int option" where
  "url_port u =
     (if port u \<noteq> [] then parseInt10 (port u)
      else Some (if toLowerCase (protocol u) = ''https:'' then 443 else 80))"

definition check_url :: "string \<Rightarrow> SsrfValidationOptions \<Rightarrow> ParsedUrl \<Rightarrow> ssrf_error option" where
  "check_url node_env opts u =
     (let isProduction = (node_env = ''production'');
          http_ok = (case allowHttp opts of Some b \<Rightarrow> b | None \<Rightarrow> \<not> isProduction);
          proto = toLowerCase (protocol u);
          host = toLowerCase (hostname u);
          ports = (case allowedPorts opts of Some ps \<Rightarrow> ps | None \<Rightarrow> DEFAULT_ALLOWED_PORTS) in
      if proto \<noteq> ''http:'' \<and> proto \<noteq> ''https:'' then Some INVALID_PROTOCOL
      else if proto = ''http:'' \<and> \<not> http_ok \<and> isProduction then Some HTTPS_REQUIRED
      else if username u \<noteq> [] \<or> password u \<noteq> [] then Some CREDENTIALS_NOT_ALLOWED
      else if host = ''localhost'' \<or> endsWith host ''.localhost'' \<or> endsWith host ''.local''
        \<or> endsWith host ''.internal'' then Some LOCAL_HOST_FORBIDDEN
      else (case url_port u of
              Some p \<Rightarrow> if p \<in> set ports then None else Some PORT_NOT_ALLOWED
            | None \<Rightarrow> Some PORT_NOT_ALLOWED))"

definition resolve_host :: "world \<Rightarrow> nat \<Rightarrow> ParsedUrl \<Rightarrow> ssrf_error + string list" where
  "resolve_host w hop u =
     (let host = toLowerCase (hostname u); rawHost = strip_brackets host in
      if isIPv4 rawHost \<or> isIPv6 rawHost then Inr [rawHost]
      else (case dns_lookup w hop host of None \<Rightarrow> Inl DNS_LOOKUP_FAILED | Some ips \<Rightarrow> Inr ips))"

definition validateUrlForSsrf ::
  "world \<Rightarrow> nat \<Rightarrow> string \<Rightarrow> SsrfValidationOptions \<Rightarrow> string \<Rightarrow> ssrf_error + (ParsedUrl \<times> string list)" where
  "validateUrlForSsrf w hop node_env opts targetUrl =
     (case parse_url w targetUrl of
        None \<Rightarrow> Inl INVALID_URL
      | Some u \<Rightarrow>
          (case check_url node_env opts u of
             Some e \<Rightarrow> Inl e
           | None \<Rightarrow>
               (case resolve_host w hop u of
                  Inl e \<Rightarrow> Inl e
                | Inr resolvedIps \<Rightarrow>
                    if length resolvedIps = 0 then Inl NO_IP_RESOLVED
                    else if list_ex isPrivateIp resolvedIps then Inl PRIVATE_IP_BLOCKED
                    else Inr (u, resolvedIps))))"

section \<open>The fetch loop\<close>

datatype form_entry = FormText string | FormBlob nat

datatype body_init =
    NoBody | TextBody string | ParamsBody string | BufferBody nat | ViewBody nat | BlobBody nat
  | FormBody "form_entry list" | OtherBody

definition byteLength :: "string \<Rightarrow> nat" where
  "byteLength s = length (utf8 s)"

fun getBodyByteLength :: "body_init \<Rightarrow> nat" where
  "getBodyByteLength NoBody = 0"
| "getBodyByteLength (TextBody s) = byteLength s"
| "getBodyByteLength (ParamsBody s) = byteLength s"
| "getBodyByteLength (BufferBody n) = n"
| "getBodyByteLength (ViewBody n) = n"
| "getBodyByteLength (BlobBody n) = n"
| "getBodyByteLength (FormBody es) =
     sum_list (map (\<lambda>e. case e of FormText s \<Rightarrow> byteLength s | FormBlob n \<Rightarrow> n) es)"
| "getBodyByteLength OtherBody = 0"

record fetch_init =
  init_body :: body_init
  maxRedirects :: "int option"
  maxRequestBytes :: "int option"
  maxResponseBytes :: "int option"
  ssrfOptions :: SsrfValidationOptions

definition assertBodySizeLimit :: "body_init \<Rightarrow> int \<Rightarrow> ssrf_error option" where
  "assertBodySizeLimit b maxBytes =
     (if int (getBodyByteLength b) > maxBytes then Some REQUEST_BODY_TOO_LARGE else None)"

definition declared_too_large :: "Response \<Rightarrow> int \<Rightarrow> bool" where
  "declared_too_large r maxBytes =
     (case content_length r of
        Some s \<Rightarrow> s \<noteq> [] \<and> (case parseInt10 s of Some n \<Rightarrow> n > maxBytes | None \<Rightarrow> False)
      | None \<Rightarrow> False)"

definition is_redirect :: "Response \<Rightarrow> bool" where
  "is_redirect r = (status r \<in> {301, 302, 303, 307, 308})"

definition redirect_limit :: "fetch_init \<Rightarrow> int" where
  "redirect_limit init = (case maxRedirects init of Some n \<Rightarrow> n | None \<Rightarrow> DEFAULT_MAX_REDIRECTS)"

definition request_limit :: "fetch_init \<Rightarrow> int" where
  "request_limit init = (case maxRequestBytes init of Some n \<Rightarrow> n | None \<Rightarrow> DEFAULT_MAX_REQUEST_BODY_BYTES)"

definition response_limit :: "fetch_init \<Rightarrow> int" where
  "response_limit init = (case maxResponseBytes init of Some n \<Rightarrow> n | None \<Rightarrow> DEFAULT_MAX_RESPONSE_BODY_BYTES)"

text \<open>What is decided after a response: an error, the next URL, or the final response.\<close>

datatype hop_result = Stop ssrf_error | Follow string | Done Response

definition after_response :: "world \<Rightarrow> fetch_init \<Rightarrow> string \<Rightarrow> nat \<Rightarrow> Response \<Rightarrow> hop_result" where
  "after_response w init url redirects r =
     (if declared_too_large r (response_limit init) then Stop RESPONSE_TOO_LARGE
      else if is_redirect r then
        (if int redirects \<ge> redirect_limit init then Stop MAX_REDIRECTS_EXCEEDED
         else (case location r of
                 None \<Rightarrow> Stop MISSING_REDIRECT_LOCATION
               | Some l \<Rightarrow>
                   if l = [] then Stop MISSING_REDIRECT_LOCATION
                   else (case resolve_url w l url of None \<Rightarrow> Stop BAD_LOCATION | Some next \<Rightarrow> Follow next)))
      else if int (byteLength (body_text r)) > response_limit init then Stop RESPONSE_TOO_LARGE
      else Done r)"

lemma after_response_Follow: "after_response w init url redirects r = Follow next \<Longrightarrow> int redirects < redirect_limit init"
  by (auto simp: after_response_def split: if_splits option.splits)

function fetch_loop :: "world \<Rightarrow> string \<Rightarrow> fetch_init \<Rightarrow> string \<Rightarrow> nat \<Rightarrow> string list \<times> (ssrf_error + Response)" where
  "fetch_loop w node_env init url redirects =
     (case assertBodySizeLimit (init_body init) (request_limit init) of
        Some e \<Rightarrow> ([], Inl e)
      | None \<Rightarrow>
          (case validateUrlForSsrf w redirects node_env (ssrfOptions init) url of
             Inl e \<Rightarrow> ([], Inl e)
           | Inr _ \<Rightarrow>
               (case fetch w redirects url of
                  None \<Rightarrow> ([url], Inl NETWORK_ERROR)
                | Some r \<Rightarrow>
                    (case after_response w init url redirects r of
                       Stop e \<Rightarrow> ([url], Inl e)
                     | Done r' \<Rightarrow> ([url], Inr r')
                     | Follow next \<Rightarrow>
                         (let (trace, res) = fetch_loop w node_env init next (redirects + 1) in (url # trace, res))))))"
  by pat_completeness auto

termination
  by (relation "measure (\<lambda>(w, env, init, url, redirects). nat (redirect_limit init - int redirects))")
     (auto dest!: after_response_Follow)

declare fetch_loop.simps [simp del]

definition ssrfSafeFetch :: "world \<Rightarrow> string \<Rightarrow> fetch_init \<Rightarrow> string \<Rightarrow> string list \<times> (ssrf_error + Response)" where
  "ssrfSafeFetch w node_env init inputUrl = fetch_loop w node_env init inputUrl 0"

section \<open>Correctness\<close>

lemma isPrivateIpv4_special_use:
  assumes "isIPv4 s"
  shows "isPrivateIpv4 s \<longleftrightarrow> special_use (octets s)"
proof -
  obtain a b c d where o: "octets s = [a, b, c, d]" "a < 256" "b < 256" "c < 256" "d < 256"
    using isIPv4_octets[OF assms] by metis
  show ?thesis
    unfolding isPrivateIpv4_def PRIVATE_IPV4_CIDRS_def list_ex_Nil_iff list_ex_Cons_iff cidr_octets[OF assms o] o(1) special_use.simps
    by (cases "224 \<le> a"; auto)
qed

text \<open>What a request target must satisfy.\<close>

definition safe_destination :: "string \<Rightarrow> SsrfValidationOptions \<Rightarrow> ParsedUrl \<Rightarrow> string list \<Rightarrow> bool" where
  "safe_destination node_env opts u ips \<longleftrightarrow>
     toLowerCase (protocol u) \<in> {''http:'', ''https:''} \<and> username u = [] \<and> password u = []
     \<and> (node_env = ''production'' \<and> toLowerCase (protocol u) = ''http:'' \<longrightarrow> allowHttp opts = Some True)
     \<and> (\<exists>p. url_port u = Some p \<and> p \<in> set (case allowedPorts opts of Some ps \<Rightarrow> ps | None \<Rightarrow> DEFAULT_ALLOWED_PORTS))
     \<and> \<not> endsWith (toLowerCase (hostname u)) ''.internal'' \<and> toLowerCase (hostname u) \<noteq> ''localhost''
     \<and> ips \<noteq> [] \<and> (\<forall>ip\<in>set ips. isIPv4 ip \<and> \<not> special_use (octets ip) \<or> isIPv6 ip \<and> \<not> isPrivateIpv6 ip)"

lemma not_private: "\<not> isPrivateIp ip \<longleftrightarrow> isIPv4 ip \<and> \<not> special_use (octets ip) \<or> \<not> isIPv4 ip \<and> isIPv6 ip \<and> \<not> isPrivateIpv6 ip"
  by (auto simp: isPrivateIp_def isPrivateIpv4_special_use)

lemma validate_safe:
  assumes "validateUrlForSsrf w hop node_env opts url = Inr (u, ips)"
  shows "parse_url w url = Some u \<and> safe_destination node_env opts u ips"
proof -
  have u: "parse_url w url = Some u" "check_url node_env opts u = None" "ips \<noteq> []" "list_ex isPrivateIp ips = False"
    using assms by (auto simp: validateUrlForSsrf_def split: option.splits sum.splits if_splits)
  have "\<forall>ip\<in>set ips. isIPv4 ip \<and> \<not> special_use (octets ip) \<or> isIPv6 ip \<and> \<not> isPrivateIpv6 ip"
    using u(4) not_private by (auto simp: list_ex_iff)
  then show ?thesis
    using u by (auto simp: check_url_def safe_destination_def Let_def split: if_splits option.splits)
qed

lemma after_response_Done:
  "after_response w init url n r = Done r' \<Longrightarrow>
   r' = r \<and> \<not> is_redirect r \<and> int (byteLength (body_text r)) \<le> response_limit init"
  by (auto simp: after_response_def split: if_splits option.splits)

text \<open>The hops of a run: the i-th request is the i-th URL of the trace, validated just before.\<close>

lemma fetch_loop_trace:
  assumes "fetch_loop w node_env init url n = (trace, res)"
  shows "(\<forall>i<length trace. \<exists>u ips. parse_url w (trace ! i) = Some u \<and> safe_destination node_env (ssrfOptions init) u ips
       \<and> resolve_host w (n + i) u = Inr ips)
     \<and> int (length trace) \<le> max 0 (redirect_limit init - int n) + 1
     \<and> (\<forall>r. res = Inr r \<longrightarrow> trace \<noteq> [] \<and> fetch w (n + length trace - 1) (last trace) = Some r \<and> \<not> is_redirect r
          \<and> int (byteLength (body_text r)) \<le> response_limit init)"
  using assms
proof (induction w node_env init url n arbitrary: trace res rule: fetch_loop.induct)
  case (1 w node_env init url n)
  show ?case
  proof (cases "validateUrlForSsrf w n node_env (ssrfOptions init) url")
    case (Inl e)
    then show ?thesis using 1(2) by (subst (asm) fetch_loop.simps) (auto split: option.splits)
  next
    case (Inr ui)
    obtain u ips where ui: "ui = (u, ips)" by (cases ui)
    have v: "parse_url w url = Some u" "safe_destination node_env (ssrfOptions init) u ips"
      using validate_safe Inr ui by blast+
    have rh: "resolve_host w n u = Inr ips"
      using Inr ui v(1) by (auto simp: validateUrlForSsrf_def split: option.splits sum.splits if_splits)
    note run = 1(2)[unfolded fetch_loop.simps[of w node_env init url]]
    show ?thesis
    proof (cases "assertBodySizeLimit (init_body init) (request_limit init)")
      case (Some e)
      then show ?thesis using run by auto
    next
      case limit: None
      show ?thesis
      proof (cases "fetch w n url")
        case None
        then show ?thesis using run v rh limit Inr by auto
      next
        case r: (Some r)
        show ?thesis
        proof (cases "after_response w init url n r")
          case (Stop e)
          then show ?thesis using run v rh limit Inr r by auto
        next
          case (Done r')
          then show ?thesis using run v rh limit Inr r after_response_Done[OF Done] by auto
        next
          case (Follow nxt)
          obtain tr' res' where tr: "fetch_loop w node_env init nxt (n + 1) = (tr', res')" by fastforce
          have "trace = url # tr'" "res = res'" using run limit Inr r Follow tr by auto
          moreover note 1(1)[OF limit Inr r Follow tr]
          moreover have "int n < redirect_limit init" using after_response_Follow Follow by blast
          ultimately show ?thesis using v rh by (auto simp: nth_Cons split: nat.splits)
        qed
      qed
    qed
  qed
qed

text \<open>C30. Every request that leaves the process goes to a validated destination, on every redirect: each
  requested URL parses, uses HTTP or HTTPS without credentials on an allowed port (plain HTTP in
  production only when explicitly allowed), and all addresses its host resolved to just before were
  outside the special-use IPv4 ranges and the blocked IPv6 forms. There are at most one more requests
  than the redirect limit, and a returned response is the answer to the last one, not a redirect, and
  within the size limit.\<close>

theorem fetch_requests_are_validated:
  assumes "ssrfSafeFetch w node_env init url = (trace, res)"
  shows "(\<forall>i<length trace. \<exists>u ips. parse_url w (trace ! i) = Some u \<and> resolve_host w i u = Inr ips
       \<and> safe_destination node_env (ssrfOptions init) u ips)
     \<and> int (length trace) \<le> max 0 (redirect_limit init) + 1
     \<and> (\<forall>r. res = Inr r \<longrightarrow> trace \<noteq> [] \<and> fetch w (length trace - 1) (last trace) = Some r \<and> \<not> is_redirect r
          \<and> int (byteLength (body_text r)) \<le> response_limit init)"
  using fetch_loop_trace[of w node_env init url 0 trace res] assms by (auto simp: ssrfSafeFetch_def)

definition sample_world :: world where
  "sample_world =
     \<lparr>parse_url = (\<lambda>s. Some \<lparr>protocol = ''https:'', username = [], password = [], hostname = s, port = []\<rparr>),
      resolve_url = (\<lambda>l base. Some l),
      dns_lookup = (\<lambda>hop h. Some [if h = ''a.example'' then ''93.184.216.34'' else ''10.0.0.1'']),
      fetch = (\<lambda>hop u. Some \<lparr>status = 302, content_length = None, location = Some ''b.example'', body_text = []\<rparr>)\<rparr>"

definition sample_init :: fetch_init where
  "sample_init = \<lparr>init_body = NoBody, maxRedirects = None, maxRequestBytes = None, maxResponseBytes = None,
     ssrfOptions = \<lparr>allowHttp = None, allowedPorts = None\<rparr>\<rparr>"

lemma sample_ips:
  "isIPv4 ''93.184.216.34''" "isIPv4 ''10.0.0.1''" "isIPv4 ''127.0.0.1''"
  "\<not> isPrivateIpv4 ''93.184.216.34''" "isPrivateIpv4 ''10.0.0.1''" "isPrivateIpv4 ''127.0.0.1''"
proof -
  show v: "isIPv4 ''93.184.216.34''" "isIPv4 ''10.0.0.1''" "isIPv4 ''127.0.0.1''" by (simp_all add: net_eval)
  show "\<not> isPrivateIpv4 ''93.184.216.34''" "isPrivateIpv4 ''10.0.0.1''" "isPrivateIpv4 ''127.0.0.1''"
    unfolding v[THEN isPrivateIpv4_special_use] by (simp_all add: net_eval)
qed

lemma v4_not_v6_text: "\<not> isIPv4 ''::ffff:127.0.0.1''" "\<not> isIPv4 ''::ffff:7f00:1''" "\<not> isIPv4 ''7f00:1''"
  "\<not> isIPv4 ''a.example''" "\<not> isIPv4 ''b.example''"
  by (simp_all add: net_eval)

lemmas text_eval = toLowerCase_def to_lower_char_def endsWith_def startsWith_def strip_brackets_def isIPv6_def
  v6_body_def v6_groups_def v6_seg_def hex_char_def is_digit_def trim_def is_space_def

lemma sample_validate:
  "validateUrlForSsrf sample_world 0 ''production'' (ssrfOptions sample_init) ''a.example'' =
     Inr (\<lparr>protocol = ''https:'', username = [], password = [], hostname = ''a.example'', port = []\<rparr>, [''93.184.216.34''])"
  "validateUrlForSsrf sample_world 1 ''production'' (ssrfOptions sample_init) ''b.example'' = Inl PRIVATE_IP_BLOCKED"
  by (simp_all add: validateUrlForSsrf_def sample_world_def sample_init_def check_url_def resolve_host_def url_port_def
      DEFAULT_ALLOWED_PORTS_def isPrivateIp_def sample_ips v4_not_v6_text text_eval)

theorem fetch_requests_are_validated_witness:
  "ssrfSafeFetch sample_world ''production'' sample_init ''a.example'' = ([''a.example''], Inl PRIVATE_IP_BLOCKED)
   \<and> (\<exists>u ips. parse_url sample_world ''a.example'' = Some u \<and> resolve_host sample_world 0 u = Inr ips
        \<and> safe_destination ''production'' (ssrfOptions sample_init) u ips)"
proof -
  have r: "ssrfSafeFetch sample_world ''production'' sample_init ''a.example'' = ([''a.example''], Inl PRIVATE_IP_BLOCKED)"
    using sample_validate
    by (simp add: ssrfSafeFetch_def fetch_loop.simps assertBodySizeLimit_def request_limit_def
        DEFAULT_MAX_REQUEST_BODY_BYTES_def after_response_def declared_too_large_def is_redirect_def
        redirect_limit_def DEFAULT_MAX_REDIRECTS_def sample_world_def sample_init_def)
  show ?thesis using fetch_requests_are_validated[OF r] r by simp
qed

text \<open>An IPv4-mapped address is recognised in its dotted form only: the hexadecimal form, which is the one
  the URL parser produces, passes although it denotes the loopback address.\<close>

lemma mapped_loopback_not_blocked:
  "isPrivateIp ''::ffff:127.0.0.1'' \<and> isIPv6 ''::ffff:7f00:1'' \<and> \<not> isPrivateIp ''::ffff:7f00:1''"
  by (simp add: isPrivateIp_def isPrivateIpv6_def v4_not_v6_text sample_ips text_eval)

end
