(* ===== verification/SsrfFilter.thy ===== *)
theory SsrfFilter
  imports Ssrf
begin

text \<open>
  The egress firewall of the webhook module (\<open>apps/api/src/modules/webhooks/ssrf-filter.ts\<close>): the address
  blocklist with the range that matched, and the class \<open>SsrfFilter\<close> with its audit log as state. The URL
  parser is the one of theory \<open>Ssrf\<close>; the resolver returns records of an address and a family and its
  failure is \<^const>\<open>None\<close>. Reasons are the machine-readable codes; message texts, the pinned URL text and
  the HTTP agent are not modelled. The clock of an audit entry is an argument.
\<close>

definition BLOCKED_IPV4_CIDRS :: "string list" where
  "BLOCKED_IPV4_CIDRS =
     [''127.0.0.0/8'', ''10.0.0.0/8'', ''172.16.0.0/12'', ''192.168.0.0/16'', ''169.254.169.254/32'', ''169.254.0.0/16'',
      ''0.0.0.0/8'', ''100.64.0.0/10'', ''192.0.0.0/24'', ''192.0.2.0/24'', ''198.18.0.0/15'', ''198.51.100.0/24'',
      ''203.0.113.0/24'', ''224.0.0.0/4'', ''240.0.0.0/4'', ''255.255.255.255/32'']"

definition BLOCKED_HOSTNAMES :: "string list" where
  "BLOCKED_HOSTNAMES = [''localhost'', ''metadata.google.internal'', ''metadata'', ''instance-data'']"

definition ipv4ToUint32 :: "string \<Rightarrow> 32 word" where
  "ipv4ToUint32 ip =
     (if length (split_on CHR ''.'' ip) \<noteq> 4 then 0 else foldl add_octet 0 (split_on CHR ''.'' ip))"

definition matchesIpv4Cidr :: "string \<Rightarrow> string \<Rightarrow> bool" where
  "matchesIpv4Cidr ip cidr =
     (if \<not> isIPv4 ip then False
      else ipv4ToUint32 ip AND cidr_mask (cidr_prefix cidr) = ipv4ToUint32 (cidr_range cidr) AND cidr_mask (cidr_prefix cidr))"

text \<open>The result \<open>{blocked: true, matchedCidr}\<close> is \<^const>\<open>Some\<close> of the range, \<open>{blocked: false}\<close> is \<^const>\<open>None\<close>.\<close>

definition isBlockedIpv4 :: "string \<Rightarrow> string option" where
  "isBlockedIpv4 ip = find (matchesIpv4Cidr ip) BLOCKED_IPV4_CIDRS"

definition isBlockedIpv6 :: "string \<Rightarrow> string option" where
  "isBlockedIpv6 ip =
     (let normalized = trim (toLowerCase ip);
          v4Candidate = drop 7 normalized;
          mapped = (if startsWith normalized ''::ffff:'' \<and> isIPv4 v4Candidate then isBlockedIpv4 v4Candidate else None) in
      if normalized = ''::1'' \<or> normalized = ''0:0:0:0:0:0:0:1'' then Some ''::1/128''
      else if normalized = ''::'' \<or> normalized = ''0:0:0:0:0:0:0:0'' then Some ''::/128''
      else (case mapped of
              Some cidr \<Rightarrow> Some (''::ffff:'' @ cidr)
            | None \<Rightarrow>
                if startsWith normalized ''fc'' \<or> startsWith normalized ''fd'' then Some ''fc00::/7''
                else if startsWith normalized ''fe8'' \<or> startsWith normalized ''fe9'' \<or> startsWith normalized ''fea''
                  \<or> startsWith normalized ''feb'' then Some ''fe80::/10''
                else if startsWith normalized ''ff'' then Some ''ff00::/8''
                else None))"

definition isBlockedIpAddress :: "string \<Rightarrow> bool" where
  "isBlockedIpAddress ip =
     (let cleanIp = strip_brackets ip in
      if isIPv4 cleanIp then isBlockedIpv4 cleanIp \<noteq> None
      else if isIPv6 cleanIp then isBlockedIpv6 cleanIp \<noteq> None
      else True)"

section \<open>The filter\<close>

datatype block_reason =
    INVALID_URL_FORMAT | UNSUPPORTED_PROTOCOL | PLAIN_HTTP | EMBEDDED_CREDENTIALS | BLOCKED_HOSTNAME
  | DISALLOWED_PORT | DNS_RESOLUTION_FAILED | EMPTY_DNS_RESOLUTION | PRIVATE_OR_RESERVED_IP

record SecurityAuditEntry =
  audit_url :: string
  audit_hostname :: "string option"
  audit_ip :: "string option"
  audit_reason :: block_reason
  audit_time :: int

datatype ip_family = IPv4 | IPv6

record DnsRecord =
  address :: string
  family :: ip_family

record SsrfFilter =
  sf_allowHttp :: bool
  sf_allowedPorts :: "int list"
  auditLogs :: "SecurityAuditEntry list"

record SsrfFilterOptions =
  fo_allowHttp :: "bool option"
  fo_allowedPorts :: "int list option"

record PinnedWebhookTarget =
  originalUrl :: string
  parsedUrl :: ParsedUrl
  pin_hostname :: string
  pinnedIp :: string
  pin_family :: ip_family
  resolvedIps :: "string list"

definition newSsrfFilter :: "string \<Rightarrow> SsrfFilterOptions \<Rightarrow> SsrfFilter" where
  "newSsrfFilter node_env opts =
     \<lparr>sf_allowHttp = (case fo_allowHttp opts of Some b \<Rightarrow> b | None \<Rightarrow> node_env \<noteq> ''production''),
      sf_allowedPorts = (case fo_allowedPorts opts of Some ps \<Rightarrow> ps | None \<Rightarrow> [80, 443, 8080, 8443]),
      auditLogs = []\<rparr>"

definition recordAuditAndThrow ::
  "SsrfFilter \<Rightarrow> int \<Rightarrow> string \<Rightarrow> block_reason \<Rightarrow> string option \<Rightarrow> string option \<Rightarrow> SsrfFilter \<times> (block_reason + 'a)" where
  "recordAuditAndThrow f now url reason host ip =
     (f\<lparr>auditLogs := auditLogs f @ [\<lparr>audit_url = url, audit_hostname = host, audit_ip = ip, audit_reason = reason,
                                    audit_time = now\<rparr>]\<rparr>, Inl reason)"

text \<open>The checks before DNS, in the order of the source: the reason, and the host name that is logged.\<close>

definition static_check :: "SsrfFilter \<Rightarrow> ParsedUrl \<Rightarrow> (block_reason \<times> string) option" where
  "static_check f u =
     (let proto = toLowerCase (protocol u); host = toLowerCase (hostname u); bareHost = strip_brackets host in
      if proto \<noteq> ''https:'' \<and> proto \<noteq> ''http:'' then Some (UNSUPPORTED_PROTOCOL, hostname u)
      else if proto = ''http:'' \<and> \<not> sf_allowHttp f then Some (PLAIN_HTTP, hostname u)
      else if username u \<noteq> [] \<or> password u \<noteq> [] then Some (EMBEDDED_CREDENTIALS, hostname u)
      else if bareHost \<in> set BLOCKED_HOSTNAMES \<or> endsWith bareHost ''.localhost'' \<or> endsWith bareHost ''.local''
        \<or> endsWith bareHost ''.internal'' then Some (BLOCKED_HOSTNAME, host)
      else (case url_port u of
              Some p \<Rightarrow> if p \<in> set (sf_allowedPorts f) then None else Some (DISALLOWED_PORT, host)
            | None \<Rightarrow> Some (DISALLOWED_PORT, host)))"

definition resolve_records :: "(string \<Rightarrow> DnsRecord list option) \<Rightarrow> string \<Rightarrow> DnsRecord list option" where
  "resolve_records resolver bareHost =
     (if isIPv4 bareHost then Some [\<lparr>address = bareHost, family = IPv4\<rparr>]
      else if isIPv6 bareHost then Some [\<lparr>address = bareHost, family = IPv6\<rparr>]
      else resolver bareHost)"

definition validateAndResolve ::
  "(string \<Rightarrow> ParsedUrl option) \<Rightarrow> (string \<Rightarrow> DnsRecord list option) \<Rightarrow> int \<Rightarrow> SsrfFilter \<Rightarrow> string
     \<Rightarrow> SsrfFilter \<times> (block_reason + PinnedWebhookTarget)" where
  "validateAndResolve parse resolver now f rawUrl =
     (case parse rawUrl of
        None \<Rightarrow> recordAuditAndThrow f now rawUrl INVALID_URL_FORMAT None None
      | Some u \<Rightarrow>
          (case static_check f u of
             Some (reason, host) \<Rightarrow> recordAuditAndThrow f now rawUrl reason (Some host) None
           | None \<Rightarrow>
               (let host = toLowerCase (hostname u); bareHost = strip_brackets host in
                case resolve_records resolver bareHost of
                  None \<Rightarrow> recordAuditAndThrow f now rawUrl DNS_RESOLUTION_FAILED (Some host) None
                | Some records \<Rightarrow>
                    if length records = 0 then recordAuditAndThrow f now rawUrl EMPTY_DNS_RESOLUTION (Some host) None
                    else
                      (case find (\<lambda>r. isBlockedIpAddress (address r)) records of
                         Some r \<Rightarrow> recordAuditAndThrow f now rawUrl PRIVATE_OR_RESERVED_IP (Some host) (Some (address r))
                       | None \<Rightarrow>
                           (f, Inr \<lparr>originalUrl = rawUrl, parsedUrl = u, pin_hostname = bareHost,
                                    pinnedIp = address (hd records), pin_family = family (hd records),
                                    resolvedIps = map address records\<rparr>)))))"

section \<open>Correctness\<close>

lemma ipv4ToUint32_eq: "isIPv4 s \<Longrightarrow> ipv4ToUint32 s = ip4ToLong s"
  by (simp add: ipv4ToUint32_def ip4ToLong_def isIPv4_def)

lemma matches_in:
  "isIPv4 s \<Longrightarrow> isIPv4 (cidr_range c) \<Longrightarrow> matchesIpv4Cidr s c = inIpv4Cidr s c"
  by (simp add: matchesIpv4Cidr_def inIpv4Cidr_def ipv4ToUint32_eq)

lemma find_not_None: "find P xs \<noteq> None \<longleftrightarrow> list_ex P xs"
  by (induction xs) auto

lemma isBlockedIpv4_special_use:
  assumes "isIPv4 s"
  shows "isBlockedIpv4 s \<noteq> None \<longleftrightarrow> special_use (octets s)"
proof -
  obtain a b c d where o: "octets s = [a, b, c, d]" "a < 256" "b < 256" "c < 256" "d < 256"
    using isIPv4_octets[OF assms] by metis
  note m = cidr_constants[THEN conjunct1, THEN matches_in[OF assms]]
  show ?thesis
    unfolding isBlockedIpv4_def find_not_None BLOCKED_IPV4_CIDRS_def list_ex_Nil_iff list_ex_Cons_iff m
      cidr_octets[OF assms o] o(1) special_use.simps
    by (cases "224 \<le> a"; auto)
qed

lemma mem_split_on: "c \<in> set s \<Longrightarrow> c = d \<or> (\<exists>p. p \<in> set (split_on d s) \<and> c \<in> set p)"
proof (induction s)
  case (Cons x s)
  then show ?case by (cases "split_on d s") (simp_all, force+)
qed simp

lemma strip_brackets_v4:
  assumes "isIPv4 s"
  shows "strip_brackets s = s"
proof -
  have chars: "c = CHR ''.'' \<or> is_digit c" if "c \<in> set s" for c
    using mem_split_on[OF that, of "CHR ''.''"] assms by (auto simp: isIPv4_def v4_seg_def list_all_iff)
  have "CHR ''['' \<notin> set s" "CHR '']'' \<notin> set s"
    using chars[of "CHR ''[''"] chars[of "CHR '']''"] by (auto simp: is_digit_def)
  then show ?thesis by (auto simp: strip_brackets_def Let_def dest: hd_in_set last_in_set)
qed

lemma private_v6_blocked: "isPrivateIpv6 ip \<Longrightarrow> isBlockedIpv6 ip \<noteq> None"
  by (auto simp: isPrivateIpv6_def isBlockedIpv6_def Let_def isPrivateIpv4_special_use
      isBlockedIpv4_special_use[symmetric] split: if_splits option.splits)




lemma mapped_loopback_passes_firewall: "\<not> isBlockedIpAddress ''::ffff:7f00:1''"
  by (simp add: isBlockedIpAddress_def isBlockedIpv6_def v4_not_v6_text text_eval)

end
