(* ===== verification/Delivery.thy ===== *)
theory Delivery
  imports RedisStore
begin

text \<open>
  Idempotent delivery of notifications (\<open>apps/api/src/lib/delivery.ts\<close>). The two tables are the state of the
  database operations; generated row ids are drawn from a counter, the unique constraints and the reference
  of an attempt to its delivery are modelled, and a query does not fail otherwise. The function \<open>deliverWithIdempotency\<close> is a
  step relation over a system of workers that share the tables and the Redis gate: every helper call is
  one step and the steps of different workers interleave freely. The commands of Redis, SHA-256 and the
  tokens of \<open>randomUUID\<close> are parameters. The provider, its failures, the loss of Redis and the expiry of
  the gate are choices of the environment; the log of provider calls is ghost state. Log messages and waiting times are not modelled.
\<close>

section \<open>Life cycle\<close>

datatype DeliveryStatus = pending | in_progress | delivered | failed | exhausted | suppressed | skipped

definition TERMINAL_DELIVERY_STATES :: "DeliveryStatus list" where
  "TERMINAL_DELIVERY_STATES = [delivered, exhausted, suppressed, skipped]"

definition isTerminalDeliveryStatus :: "DeliveryStatus \<Rightarrow> bool" where
  "isTerminalDeliveryStatus st = (st \<in> set TERMINAL_DELIVERY_STATES)"

fun VALID_LIFECYCLE_TRANSITIONS :: "DeliveryStatus \<Rightarrow> DeliveryStatus list" where
  "VALID_LIFECYCLE_TRANSITIONS pending = [in_progress, suppressed, skipped]"
| "VALID_LIFECYCLE_TRANSITIONS in_progress = [delivered, failed, exhausted, suppressed]"
| "VALID_LIFECYCLE_TRANSITIONS failed = [in_progress, exhausted, suppressed]"
| "VALID_LIFECYCLE_TRANSITIONS delivered = []"
| "VALID_LIFECYCLE_TRANSITIONS exhausted = []"
| "VALID_LIFECYCLE_TRANSITIONS suppressed = []"
| "VALID_LIFECYCLE_TRANSITIONS skipped = []"

datatype delivery_error = AlreadyTerminal DeliveryStatus | IllegalTransition DeliveryStatus DeliveryStatus
  | TerminalState DeliveryStatus | UniqueViolation
  | ForeignKeyViolation | NotFound

definition validateDeliveryTransition :: "DeliveryStatus \<Rightarrow> DeliveryStatus \<Rightarrow> delivery_error + unit" where
  "validateDeliveryTransition current next =
     (if isTerminalDeliveryStatus current then Inl (AlreadyTerminal current)
      else if next \<notin> set (VALID_LIFECYCLE_TRANSITIONS current) then Inl (IllegalTransition current next)
      else Inr ())"

section \<open>Tables\<close>

record DeliveryDescriptor =
  paymentId :: string
  channel :: string
  destination :: string
  userId :: "string option"

record NotificationDelivery =
  nd_id :: nat
  nd_key :: string
  nd_paymentId :: string
  nd_channel :: string
  nd_destination :: string
  nd_userId :: "string option"
  nd_status :: DeliveryStatus
  currentAttempt :: nat
  maxAttempts :: nat
  lastError :: "string option"
  deliveredAt :: "int option"
  terminalAt :: "int option"

record NotificationDeliveryAttempt =
  na_id :: nat
  na_key :: string
  na_deliveryId :: "nat option"
  na_paymentId :: "string option"
  na_channel :: string
  na_destination :: "string option"
  na_userId :: "string option"
  na_status :: DeliveryStatus
  na_attempt :: nat
  na_error :: "string option"
  providerRequestId :: "string option"

record delivery_db =
  deliveries :: "NotificationDelivery list"
  attempts :: "NotificationDeliveryAttempt list"
  next_id :: nat

type_synonym sha256 = "string \<Rightarrow> string"

definition buildDeliveryKey :: "sha256 \<Rightarrow> string \<Rightarrow> string \<Rightarrow> string \<Rightarrow> string" where
  "buildDeliveryKey sha pid ch dest = sha (pid @ '':'' @ ch @ '':'' @ dest)"

definition find_delivery :: "delivery_db \<Rightarrow> string \<Rightarrow> NotificationDelivery option" where
  "find_delivery db k = find (\<lambda>d. nd_key d = k) (deliveries db)"

definition update_delivery :: "nat \<Rightarrow> (NotificationDelivery \<Rightarrow> NotificationDelivery) \<Rightarrow> delivery_db \<Rightarrow> delivery_db" where
  "update_delivery i f db = db\<lparr>deliveries := map (\<lambda>d. if nd_id d = i then f d else d) (deliveries db)\<rparr>"

definition update_by_key :: "string \<Rightarrow> (NotificationDelivery \<Rightarrow> NotificationDelivery) \<Rightarrow> delivery_db \<Rightarrow> delivery_db" where
  "update_by_key k f db = db\<lparr>deliveries := map (\<lambda>d. if nd_key d = k then f d else d) (deliveries db)\<rparr>"

definition alreadyDelivered :: "delivery_db \<Rightarrow> string \<Rightarrow> bool" where
  "alreadyDelivered db k =
     ((case find_delivery db k of Some d \<Rightarrow> isTerminalDeliveryStatus (nd_status d) | None \<Rightarrow> False)
      \<or> list_ex (\<lambda>a. na_key a = k \<and> na_status a = delivered) (attempts db))"

definition new_delivery ::
  "nat \<Rightarrow> string \<Rightarrow> string \<Rightarrow> string \<Rightarrow> string \<Rightarrow> string option \<Rightarrow> DeliveryStatus \<Rightarrow> nat \<Rightarrow> nat \<Rightarrow> NotificationDelivery" where
  "new_delivery i k pid ch dest uid st cur mx =
     \<lparr>nd_id = i, nd_key = k, nd_paymentId = pid, nd_channel = ch, nd_destination = dest, nd_userId = uid,
      nd_status = st, currentAttempt = cur, maxAttempts = mx, lastError = None, deliveredAt = None, terminalAt = None\<rparr>"

text \<open>The unique constraint on payment, channel and destination.\<close>

definition same_target :: "string \<Rightarrow> string \<Rightarrow> string \<Rightarrow> NotificationDelivery \<Rightarrow> bool" where
  "same_target pid ch dest d = (nd_paymentId d = pid \<and> nd_channel d = ch \<and> nd_destination d = dest)"

definition getOrCreateDelivery ::
  "sha256 \<Rightarrow> delivery_db \<Rightarrow> DeliveryDescriptor \<Rightarrow> nat option \<Rightarrow> delivery_db \<times> (delivery_error + NotificationDelivery)" where
  "getOrCreateDelivery sha db desc mx =
     (let k = buildDeliveryKey sha (paymentId desc) (channel desc) (destination desc) in
      case find_delivery db k of
        Some d \<Rightarrow> (db, Inr d)
      | None \<Rightarrow>
          if list_ex (same_target (paymentId desc) (channel desc) (destination desc)) (deliveries db)
          then (db, Inl UniqueViolation) else
          (let d = new_delivery (next_id db) k (paymentId desc) (channel desc) (destination desc) (userId desc) pending 0
                     (case mx of Some n \<Rightarrow> n | None \<Rightarrow> 5) in
           (db\<lparr>deliveries := deliveries db @ [d], next_id := next_id db + 1\<rparr>, Inr d)))"

record attempt_input =
  in_key :: string
  in_paymentId :: "string option"
  in_channel :: string
  in_destination :: "string option"
  in_userId :: "string option"
  in_deliveryId :: "nat option"

definition text_of :: "string option \<Rightarrow> string" where
  "text_of s = (case s of Some t \<Rightarrow> t | None \<Rightarrow> [])"

definition start_attempt :: "nat \<Rightarrow> NotificationDelivery \<Rightarrow> NotificationDelivery" where
  "start_attempt n d = d\<lparr>currentAttempt := n, nd_status := in_progress\<rparr>"

text \<open>The parent row for an attempt: linked if it exists, created if the input names the payment and the
  destination and no other row has that target (the error of the upsert is caught), and otherwise none.\<close>

definition link_parent :: "delivery_db \<Rightarrow> attempt_input \<Rightarrow> nat \<Rightarrow> delivery_db \<times> nat option" where
  "link_parent db inp n =
     (case (case find_delivery db (in_key inp) of Some d \<Rightarrow> Some (nd_id d) | None \<Rightarrow> in_deliveryId inp) of
        Some i \<Rightarrow> (update_delivery i (start_attempt n) db, Some i)
      | None \<Rightarrow>
          if text_of (in_paymentId inp) \<noteq> [] \<and> text_of (in_destination inp) \<noteq> []
             \<and> \<not> list_ex (same_target (text_of (in_paymentId inp)) (in_channel inp) (text_of (in_destination inp))) (deliveries db)
          then
            (db\<lparr>deliveries := deliveries db @ [new_delivery (next_id db) (in_key inp) (text_of (in_paymentId inp)) (in_channel inp)
                                 (text_of (in_destination inp)) (in_userId inp) in_progress n 5],
                next_id := next_id db + 1\<rparr>, Some (next_id db))
          else (db, None))"

definition recordDeliveryAttempt :: "delivery_db \<Rightarrow> attempt_input \<Rightarrow> delivery_db \<times> (delivery_error + nat)" where
  "recordDeliveryAttempt db inp =
     (let existing = find_delivery db (in_key inp);
          prior = length (filter (\<lambda>a. na_key a = in_key inp) (attempts db));
          nextAttempt = prior + 1 in
      if (case existing of Some d \<Rightarrow> isTerminalDeliveryStatus (nd_status d) | None \<Rightarrow> False)
      then (db, Inl (TerminalState (nd_status (the existing))))
      else
        (let (db1, deliveryId) = link_parent db inp nextAttempt in
         if list_ex (\<lambda>a. na_key a = in_key inp \<and> na_attempt a = nextAttempt) (attempts db1)
         then (db1, Inl UniqueViolation)
         else if (case deliveryId of Some i \<Rightarrow> i \<notin> nd_id ` set (deliveries db1) | None \<Rightarrow> False)
         then (db1, Inl ForeignKeyViolation)
         else
           (db1\<lparr>attempts := attempts db1 @
                  [\<lparr>na_id = next_id db1, na_key = in_key inp, na_deliveryId = deliveryId, na_paymentId = in_paymentId inp,
                    na_channel = in_channel inp, na_destination = in_destination inp, na_userId = in_userId inp,
                    na_status = pending, na_attempt = nextAttempt, na_error = None, providerRequestId = None\<rparr>],
                next_id := next_id db1 + 1\<rparr>, Inr (next_id db1))))"

definition find_attempt :: "delivery_db \<Rightarrow> nat \<Rightarrow> NotificationDeliveryAttempt option" where
  "find_attempt db i = find (\<lambda>a. na_id a = i) (attempts db)"

definition update_attempt :: "nat \<Rightarrow> (NotificationDeliveryAttempt \<Rightarrow> NotificationDeliveryAttempt) \<Rightarrow> delivery_db \<Rightarrow> delivery_db" where
  "update_attempt i f db = db\<lparr>attempts := map (\<lambda>a. if na_id a = i then f a else a) (attempts db)\<rparr>"

definition set_delivered :: "int \<Rightarrow> NotificationDelivery \<Rightarrow> NotificationDelivery" where
  "set_delivered now d = d\<lparr>nd_status := delivered, deliveredAt := Some now, terminalAt := Some now, lastError := None\<rparr>"

definition confirm_attempt :: "string option \<Rightarrow> NotificationDeliveryAttempt \<Rightarrow> NotificationDeliveryAttempt" where
  "confirm_attempt prid a =
     a\<lparr>na_status := delivered, providerRequestId := (case prid of Some q \<Rightarrow> Some q | None \<Rightarrow> providerRequestId a)\<rparr>"

definition markDeliveryDelivered :: "delivery_db \<Rightarrow> int \<Rightarrow> nat \<Rightarrow> string option \<Rightarrow> delivery_db \<times> (delivery_error + unit)" where
  "markDeliveryDelivered db now aid prid =
     (case find_attempt db aid of
        None \<Rightarrow> (db, Inl NotFound)
      | Some a \<Rightarrow>
          (let db1 = update_attempt aid (confirm_attempt prid) db in
           (case na_deliveryId a of
              Some i \<Rightarrow> update_delivery i (set_delivered now) db1
            | None \<Rightarrow> if na_key a \<noteq> [] then update_by_key (na_key a) (set_delivered now) db1 else db1, Inr ())))"

definition markDeliveryFailed :: "delivery_db \<Rightarrow> int \<Rightarrow> nat \<Rightarrow> string \<Rightarrow> delivery_db \<times> (delivery_error + unit)" where
  "markDeliveryFailed db now aid err =
     (case find_attempt db aid of
        None \<Rightarrow> (db, Inl NotFound)
      | Some a \<Rightarrow>
          (let db1 = update_attempt aid (\<lambda>x. x\<lparr>na_status := failed, na_error := Some (take 2000 err)\<rparr>) db in
           (case find_delivery db1 (na_key a) of
              None \<Rightarrow> db1
            | Some parent \<Rightarrow>
                (let isExhausted = (currentAttempt parent \<ge> maxAttempts parent) in
                 update_delivery (nd_id parent)
                   (\<lambda>d. d\<lparr>nd_status := (if isExhausted then exhausted else failed), lastError := Some (take 2000 err),
                         terminalAt := (if isExhausted then Some now else None)\<rparr>) db1), Inr ())))"

definition markDeliverySuppressed :: "delivery_db \<Rightarrow> int \<Rightarrow> string \<Rightarrow> string option \<Rightarrow> delivery_db" where
  "markDeliverySuppressed db now k reason =
     update_by_key k (\<lambda>d. d\<lparr>nd_status := suppressed,
         lastError := Some (case reason of Some r \<Rightarrow> r | None \<Rightarrow> ''Delivery suppressed''), terminalAt := Some now\<rparr>) db"

section \<open>The gate\<close>

definition DELIVERY_GATE_PREFIX :: string where "DELIVERY_GATE_PREFIX = ''delivery:gate:''"
definition DELIVERY_GATE_RETRY :: nat where "DELIVERY_GATE_RETRY = 2"

definition gate_key :: "string \<Rightarrow> string" where
  "gate_key k = DELIVERY_GATE_PREFIX @ k"

definition releaseDeliveryGate ::
  "('r \<Rightarrow> string \<Rightarrow> string option) \<Rightarrow> ('r \<Rightarrow> string \<Rightarrow> 'r) \<Rightarrow> 'r \<Rightarrow> string \<Rightarrow> string \<Rightarrow> 'r \<times> bool" where
  "releaseDeliveryGate get del r k token =
     (if token = [] then (r, False) else compare_and_delete get del r (gate_key k) token)"

section \<open>Workers\<close>

datatype outcome_status = out_delivered | out_skipped

datatype run_result = Outcome bool outcome_status "nat option" | Thrown

datatype pc =
    Start
  | Acquiring nat
  | NoGate
  | Recheck
  | Recording
  | Dispatching nat
  | Marking nat
  | Releasing run_result
  | Finished run_result

record 'r system =
  db :: delivery_db
  gate :: 'r
  pcs :: "nat \<Rightarrow> pc"
  calls :: "(string \<times> nat) list"
  successes :: "string list"

text \<open>The fixed data of a system: the hash, the descriptor and the gate token of every worker, the commands of
  Redis (\<open>SET PX NX\<close> returns nothing when the key exists), and whether Redis is reliable (it answers, and
  no gate expires while it is held).\<close>

record 'r setting =
  hash :: sha256
  descr :: "nat \<Rightarrow> DeliveryDescriptor"
  token :: "nat \<Rightarrow> string"
  kv_get :: "'r \<Rightarrow> string \<Rightarrow> string option"
  kv_set_nx :: "'r \<Rightarrow> string \<Rightarrow> string \<Rightarrow> 'r option"
  kv_del :: "'r \<Rightarrow> string \<Rightarrow> 'r"
  reliable :: bool

definition wkey :: "'r setting \<Rightarrow> nat \<Rightarrow> string" where
  "wkey c w = buildDeliveryKey (hash c) (paymentId (descr c w)) (channel (descr c w)) (destination (descr c w))"

definition worker_input :: "'r setting \<Rightarrow> nat \<Rightarrow> attempt_input" where
  "worker_input c w =
     \<lparr>in_key = wkey c w, in_paymentId = Some (paymentId (descr c w)), in_channel = channel (descr c w),
      in_destination = Some (destination (descr c w)), in_userId = userId (descr c w), in_deliveryId = None\<rparr>"

abbreviation goto :: "nat \<Rightarrow> pc \<Rightarrow> 'r system \<Rightarrow> 'r system" where
  "goto w p s \<equiv> s\<lparr>pcs := (pcs s)(w := p)\<rparr>"

text \<open>An empty token counts as a gate that was not acquired.\<close>

definition gated :: "'r setting \<Rightarrow> nat \<Rightarrow> pc" where
  "gated c w = (if token c w = [] then NoGate else Recheck)"

inductive dstep :: "'r setting \<Rightarrow> 'r system \<Rightarrow> 'r system \<Rightarrow> bool" for c where
  check_done: "pcs s w = Start \<Longrightarrow> alreadyDelivered (db s) (wkey c w) \<Longrightarrow>
    dstep c s (goto w (Finished (Outcome False out_skipped None)) s)"
| check_go: "pcs s w = Start \<Longrightarrow> \<not> alreadyDelivered (db s) (wkey c w) \<Longrightarrow> dstep c s (goto w (Acquiring 0) s)"
| gate_ok: "pcs s w = Acquiring n \<Longrightarrow> kv_set_nx c (gate s) (gate_key (wkey c w)) (token c w) = Some g \<Longrightarrow>
    dstep c s ((goto w (gated c w) s)\<lparr>gate := g\<rparr>)"
| gate_busy: "pcs s w = Acquiring n \<Longrightarrow> kv_set_nx c (gate s) (gate_key (wkey c w)) (token c w) = None \<Longrightarrow>
    dstep c s (goto w (if n < DELIVERY_GATE_RETRY then Acquiring (n + 1) else NoGate) s)"
| gate_fail_open: "\<not> reliable c \<Longrightarrow> pcs s w = Acquiring n \<Longrightarrow> dstep c s (goto w (gated c w) s)"
| no_gate: "pcs s w = NoGate \<Longrightarrow>
    dstep c s (goto w (Finished (Outcome False (if alreadyDelivered (db s) (wkey c w) then out_delivered else out_skipped) None)) s)"
| recheck_done: "pcs s w = Recheck \<Longrightarrow> alreadyDelivered (db s) (wkey c w) \<Longrightarrow>
    dstep c s (goto w (Releasing (Outcome False out_skipped None)) s)"
| recheck_go: "pcs s w = Recheck \<Longrightarrow> \<not> alreadyDelivered (db s) (wkey c w) \<Longrightarrow> dstep c s (goto w Recording s)"
| record_ok: "pcs s w = Recording \<Longrightarrow> recordDeliveryAttempt (db s) (worker_input c w) = (db', Inr aid) \<Longrightarrow>
    dstep c s ((goto w (Dispatching aid) s)\<lparr>db := db'\<rparr>)"
| record_throws: "pcs s w = Recording \<Longrightarrow> recordDeliveryAttempt (db s) (worker_input c w) = (db', Inl e) \<Longrightarrow>
    dstep c s ((goto w (Releasing Thrown) s)\<lparr>db := db'\<rparr>)"
| dispatch_ok: "pcs s w = Dispatching aid \<Longrightarrow>
    dstep c s ((goto w (Marking aid) s)\<lparr>calls := calls s @ [(wkey c w, aid)], successes := successes s @ [wkey c w]\<rparr>)"
| dispatch_throws: "pcs s w = Dispatching aid \<Longrightarrow>
    dstep c s ((goto w (Releasing Thrown) s)\<lparr>calls := calls s @ [(wkey c w, aid)]\<rparr>)"
| mark: "pcs s w = Marking aid \<Longrightarrow> markDeliveryDelivered (db s) now aid None = (db', r) \<Longrightarrow>
    dstep c s ((goto w (Releasing (case r of Inr _ \<Rightarrow> Outcome True out_delivered (Some aid) | Inl _ \<Rightarrow> Thrown)) s)\<lparr>db := db'\<rparr>)"
| release: "pcs s w = Releasing res \<Longrightarrow>
    dstep c s ((goto w (Finished res) s)\<lparr>gate := fst (releaseDeliveryGate (kv_get c) (kv_del c) (gate s) (wkey c w) (token c w))\<rparr>)"
| release_lost: "\<not> reliable c \<Longrightarrow> pcs s w = Releasing res \<Longrightarrow> dstep c s (goto w (Finished res) s)"
| gate_expires: "\<not> reliable c \<Longrightarrow> dstep c s (s\<lparr>gate := g\<rparr>)"

inductive_cases dstepE: "dstep c s t"

definition initial :: "'r \<Rightarrow> delivery_db \<Rightarrow> 'r system" where
  "initial r d = \<lparr>db = d, gate = r, pcs = (\<lambda>_. Start), calls = [], successes = []\<rparr>"

lemma gate_key_inject [simp]: "gate_key k = gate_key k' \<longleftrightarrow> k = k'"
  by (simp add: gate_key_def)

lemma gated_simps [simp]: "gated c w \<noteq> Recording" "gated c w \<noteq> Dispatching i" "gated c w \<noteq> Marking i"
  by (simp_all add: gated_def)

section \<open>At most one delivery\<close>

text \<open>The part of a run between the acquisition of the gate and its release.\<close>

fun critical :: "pc \<Rightarrow> bool" where
  "critical Start = False"
| "critical (Acquiring _) = False"
| "critical NoGate = False"
| "critical (Finished _) = False"
| "critical _ = True"

definition confirmed :: "delivery_db \<Rightarrow> string \<Rightarrow> bool" where
  "confirmed d k = (\<exists>a \<in> set (attempts d). na_key a = k \<and> na_status a = delivered)"

definition has_attempt :: "delivery_db \<Rightarrow> nat \<Rightarrow> string \<Rightarrow> bool" where
  "has_attempt d i k = (\<exists>a \<in> set (attempts d). na_id a = i \<and> na_key a = k)"

lemma confirmed_alreadyDelivered: "confirmed d k \<Longrightarrow> alreadyDelivered d k"
  by (auto simp: confirmed_def alreadyDelivered_def list_ex_iff)

lemma attempts_link_parent [simp]: "attempts (fst (link_parent d inp n)) = attempts d"
  by (simp add: link_parent_def update_delivery_def split: option.splits)

lemma record_attempts:
  assumes "recordDeliveryAttempt d inp = (d', r)"
  shows "(\<exists>e. r = Inl e) \<and> attempts d' = attempts d
    \<or> (\<exists>i a. r = Inr i \<and> attempts d' = attempts d @ [a] \<and> na_id a = i \<and> na_key a = in_key inp \<and> na_status a = pending
         \<and> na_attempt a = length (filter (\<lambda>a. na_key a = in_key inp) (attempts d)) + 1)"
proof -
  obtain d1 i where l: "link_parent d inp (length (filter (\<lambda>a. na_key a = in_key inp) (attempts d)) + 1) = (d1, i)"
    by (metis surj_pair)
  then have "attempts d1 = attempts d" by (metis attempts_link_parent fst_conv)
  then show ?thesis using assms l
    by (auto simp: recordDeliveryAttempt_def Let_def split: if_splits)
qed

lemma confirmed_record:
  "recordDeliveryAttempt d inp = (d', r) \<Longrightarrow> confirmed d k \<Longrightarrow> confirmed d' k"
  using record_attempts [of d inp d' r] by (auto simp: confirmed_def)

lemma has_attempt_record:
  "recordDeliveryAttempt d inp = (d', r) \<Longrightarrow> has_attempt d i k \<Longrightarrow> has_attempt d' i k"
  using record_attempts [of d inp d' r] by (auto simp: has_attempt_def)

lemma has_attempt_new:
  "recordDeliveryAttempt d inp = (d', Inr i) \<Longrightarrow> has_attempt d' i (in_key inp)"
  using record_attempts [of d inp d' "Inr i"] by (auto simp: has_attempt_def)

lemma mark_attempts:
  assumes "markDeliveryDelivered d now i prid = (d', r)"
  shows "attempts d' = map (\<lambda>a. if na_id a = i then confirm_attempt prid a else a) (attempts d)"
proof (cases "find_attempt d i")
  case None
  then have "\<forall>a \<in> set (attempts d). na_id a \<noteq> i" by (auto simp: find_attempt_def find_None_iff)
  then show ?thesis using assms None by (simp add: markDeliveryDelivered_def map_idI)
next
  case (Some a)
  then show ?thesis using assms
    by (auto simp: markDeliveryDelivered_def Let_def update_attempt_def update_delivery_def update_by_key_def
        split: option.splits if_splits)
qed

lemma mark_attempt_row:
  "markDeliveryDelivered d now i prid = (d', r) \<Longrightarrow> a \<in> set (attempts d) \<Longrightarrow>
    \<exists>b \<in> set (attempts d'). na_id b = na_id a \<and> na_key b = na_key a
      \<and> na_status b = (if na_id a = i then delivered else na_status a)"
  by (drule mark_attempts, rule bexI [of _ "if na_id a = i then confirm_attempt prid a else a"])
    (auto simp: confirm_attempt_def)

lemma confirmed_mark:
  "markDeliveryDelivered d now i prid = (d', r) \<Longrightarrow> confirmed d k \<Longrightarrow> confirmed d' k"
  unfolding confirmed_def by (metis mark_attempt_row)

lemma has_attempt_mark:
  "markDeliveryDelivered d now i prid = (d', r) \<Longrightarrow> has_attempt d j k \<Longrightarrow> has_attempt d' j k"
  unfolding has_attempt_def by (metis mark_attempt_row)

lemma confirmed_by_mark:
  "markDeliveryDelivered d now i prid = (d', r) \<Longrightarrow> has_attempt d i k \<Longrightarrow> confirmed d' k"
  unfolding confirmed_def has_attempt_def by (metis mark_attempt_row)

text \<open>The invariant: the gate of a critical worker is its own; a key that was delivered is confirmed in the
  tables, or its worker is about to do so; a worker before its dispatch finds no delivery of its key.\<close>

definition inv_gate :: "'r setting \<Rightarrow> 'r system \<Rightarrow> bool" where
  "inv_gate c s = (\<forall>w. critical (pcs s w) \<longrightarrow> kv_get c (gate s) (gate_key (wkey c w)) = Some (token c w))"

definition inv_confirmed :: "'r setting \<Rightarrow> 'r system \<Rightarrow> bool" where
  "inv_confirmed c s = (\<forall>k \<in> set (successes s). confirmed (db s) k \<or> (\<exists>w i. pcs s w = Marking i \<and> wkey c w = k))"

definition inv_attempt :: "'r setting \<Rightarrow> 'r system \<Rightarrow> bool" where
  "inv_attempt c s = (\<forall>w i. pcs s w = Dispatching i \<or> pcs s w = Marking i \<longrightarrow> has_attempt (db s) i (wkey c w))"

definition inv_fresh :: "'r setting \<Rightarrow> 'r system \<Rightarrow> bool" where
  "inv_fresh c s = (\<forall>w i. pcs s w = Recording \<or> pcs s w = Dispatching i \<longrightarrow> wkey c w \<notin> set (successes s))"

definition inv_once :: "'r setting \<Rightarrow> 'r system \<Rightarrow> bool" where
  "inv_once c s = (inv_gate c s \<and> inv_confirmed c s \<and> inv_attempt c s \<and> inv_fresh c s \<and> distinct (successes s))"

text \<open>What the workers rely on: Redis keeps the contract of its commands and is reliable, and no two workers
  draw the same token.\<close>

definition safe_setting :: "'r setting \<Rightarrow> bool" where
  "safe_setting c = (nx_store (kv_get c) (kv_set_nx c) (kv_del c) \<and> reliable c \<and> inj (token c))"

lemma inv_gate_step:
  assumes "dstep c s t" "inv_gate c s" "safe_setting c"
  shows "inv_gate c t"
proof -
  have kv: "nx_store (kv_get c) (kv_set_nx c) (kv_del c)" and inj: "inj (token c)" and rel: "reliable c"
    using assms(3) by (simp_all add: safe_setting_def)
  show ?thesis using assms(1)
  proof (cases rule: dstep.cases)
    case (gate_ok w n g)
    then show ?thesis using assms(2) nx_store.held_set_nx [OF kv gate_ok(3)] nx_store.nx_get [OF kv gate_ok(3)]
      by (auto simp: inv_gate_def gated_def)
  next
    case (release w res)
    have "w' \<noteq> w \<Longrightarrow> token c w' \<noteq> token c w" for w' using inj by (auto dest: injD)
    then show ?thesis using assms(2) release nx_store.held_compare_and_delete [OF kv, of _ "token c w"]
      by (auto simp: inv_gate_def releaseDeliveryGate_def)
  qed (use assms rel in \<open>auto simp: inv_gate_def\<close>)
qed

lemma inv_gate_mutex:
  assumes "inv_gate c s" "inj (token c)" "critical (pcs s w)" "critical (pcs s w')" "wkey c w = wkey c w'"
  shows "w = w'"
  using assms by (metis inv_gate_def injD option.inject)

lemma inv_attempt_step:
  assumes "dstep c s t" "inv_attempt c s"
  shows "inv_attempt c t"
  using assms(1)
proof (cases rule: dstep.cases)
  case (record_ok w db' aid)
  then show ?thesis using assms(2) has_attempt_record [OF record_ok(3)] has_attempt_new [OF record_ok(3)]
    by (auto simp: inv_attempt_def worker_input_def)
next
  case (record_throws w db' e)
  then show ?thesis using assms(2) has_attempt_record [OF record_throws(3)] by (auto simp: inv_attempt_def)
next
  case (mark w aid now db' r)
  then show ?thesis using assms(2) has_attempt_mark [OF mark(3)] by (auto simp: inv_attempt_def)
qed (use assms in \<open>auto simp: inv_attempt_def\<close>)

lemma inv_confirmed_mono:
  assumes "inv_confirmed c s" "successes t = successes s" "\<And>k. confirmed (db s) k \<Longrightarrow> confirmed (db t) k"
    "\<And>v i. pcs s v = Marking i \<Longrightarrow> pcs t v = Marking i"
  shows "inv_confirmed c t"
  using assms unfolding inv_confirmed_def by metis

lemma inv_confirmed_step:
  assumes "dstep c s t" "inv_confirmed c s" "inv_attempt c s"
  shows "inv_confirmed c t"
  using assms(1)
proof (cases rule: dstep.cases)
  case (record_ok w db' aid)
  then show ?thesis using confirmed_record [OF record_ok(3)] by (intro inv_confirmed_mono [OF assms(2)]) auto
next
  case (record_throws w db' e)
  then show ?thesis using confirmed_record [OF record_throws(3)] by (intro inv_confirmed_mono [OF assms(2)]) auto
next
  case (mark w aid now db' r)
  then have c: "confirmed db' (wkey c w)"
    using assms(3) confirmed_by_mark [OF mark(3)] by (auto simp: inv_attempt_def)
  show ?thesis unfolding inv_confirmed_def
  proof
    fix k assume "k \<in> set (successes t)"
    then consider "confirmed (db s) k" | v i where "pcs s v = Marking i" "wkey c v = k"
      using assms(2) mark by (auto simp: inv_confirmed_def)
    then show "confirmed (db t) k \<or> (\<exists>v i. pcs t v = Marking i \<and> wkey c v = k)"
    proof cases
      case 2
      then show ?thesis using c mark by (cases "v = w") auto
    qed (use mark confirmed_mark [OF mark(3)] in simp)
  qed
next
  case (dispatch_ok w aid)
  then show ?thesis using assms(2) by (fastforce simp: inv_confirmed_def)
qed (rule inv_confirmed_mono [OF assms(2)]; auto)+

lemma inv_fresh_step:
  assumes "dstep c s t" "inv_once c s" "inj (token c)"
  shows "inv_fresh c t"
  using assms(1)
proof (cases rule: dstep.cases)
  case (recheck_go w)
  have "wkey c w \<notin> set (successes s)"
  proof
    assume "wkey c w \<in> set (successes s)"
    moreover have "\<not> confirmed (db s) (wkey c w)" using recheck_go confirmed_alreadyDelivered by blast
    ultimately obtain v i where v: "pcs s v = Marking i" "wkey c v = wkey c w"
      using assms(2) by (auto simp: inv_once_def inv_confirmed_def)
    then have "v = w" using inv_gate_mutex [of c s v w] assms recheck_go by (simp add: inv_once_def)
    then show False using v recheck_go by simp
  qed
  then show ?thesis using assms(2) recheck_go by (auto simp: inv_once_def inv_fresh_def)
next
  case (dispatch_ok w aid)
  have "wkey c v \<noteq> wkey c w" if "v \<noteq> w" "critical (pcs s v)" for v
    using that inv_gate_mutex [of c s v w] assms dispatch_ok by (auto simp: inv_once_def)
  then show ?thesis using assms(2) dispatch_ok by (fastforce simp: inv_once_def inv_fresh_def)
qed (use assms(2) in \<open>auto simp: inv_once_def inv_fresh_def\<close>)

lemma successes_distinct_step:
  "dstep c s t \<Longrightarrow> inv_once c s \<Longrightarrow> distinct (successes t)"
  by (cases rule: dstep.cases) (auto simp: inv_once_def inv_fresh_def)

lemma inv_once_step: "dstep c s t \<Longrightarrow> inv_once c s \<Longrightarrow> safe_setting c \<Longrightarrow> inv_once c t"
  using inv_gate_step [of c s t] inv_confirmed_step [of c s t] inv_attempt_step [of c s t] inv_fresh_step [of c s t]
    successes_distinct_step [of c s t]
  by (simp add: inv_once_def safe_setting_def)

lemma inv_once_initial: "inv_once c (initial r d)"
  by (simp add: inv_once_def inv_gate_def inv_confirmed_def inv_attempt_def inv_fresh_def initial_def)

lemma inv_once_reachable:
  assumes "(dstep c)\<^sup>*\<^sup>* (initial r d) s" "safe_setting c"
  shows "inv_once c s"
  using assms(1)
proof induction
  case base
  show ?case by (rule inv_once_initial)
next
  case (step t u)
  then show ?case using inv_once_step assms(2) by blast
qed

section \<open>A scheduler\<close>

text \<open>An executable scheduler for concrete runs: a worker goes on, a worker meets a failure, or a gate
  expires.\<close>

datatype action = Go nat | Fail nat | Expire string

fun advance :: "'r setting \<Rightarrow> 'r system \<Rightarrow> nat \<Rightarrow> pc \<Rightarrow> 'r system option" where
  "advance c s w Start = Some (if alreadyDelivered (db s) (wkey c w)
     then goto w (Finished (Outcome False out_skipped None)) s else goto w (Acquiring 0) s)"
| "advance c s w (Acquiring n) = Some (case kv_set_nx c (gate s) (gate_key (wkey c w)) (token c w) of
     Some g \<Rightarrow> (goto w (gated c w) s)\<lparr>gate := g\<rparr>
   | None \<Rightarrow> goto w (if n < DELIVERY_GATE_RETRY then Acquiring (n + 1) else NoGate) s)"
| "advance c s w NoGate = Some (goto w (Finished (Outcome False
     (if alreadyDelivered (db s) (wkey c w) then out_delivered else out_skipped) None)) s)"
| "advance c s w Recheck = Some (if alreadyDelivered (db s) (wkey c w)
     then goto w (Releasing (Outcome False out_skipped None)) s else goto w Recording s)"
| "advance c s w Recording = Some (case recordDeliveryAttempt (db s) (worker_input c w) of
     (d, Inr aid) \<Rightarrow> (goto w (Dispatching aid) s)\<lparr>db := d\<rparr>
   | (d, Inl e) \<Rightarrow> (goto w (Releasing Thrown) s)\<lparr>db := d\<rparr>)"
| "advance c s w (Dispatching aid) = Some ((goto w (Marking aid) s)
     \<lparr>calls := calls s @ [(wkey c w, aid)], successes := successes s @ [wkey c w]\<rparr>)"
| "advance c s w (Marking aid) = Some (case markDeliveryDelivered (db s) 0 aid None of
     (d, r) \<Rightarrow> (goto w (Releasing (case r of Inr _ \<Rightarrow> Outcome True out_delivered (Some aid) | Inl _ \<Rightarrow> Thrown)) s)\<lparr>db := d\<rparr>)"
| "advance c s w (Releasing res) = Some ((goto w (Finished res) s)
     \<lparr>gate := fst (releaseDeliveryGate (kv_get c) (kv_del c) (gate s) (wkey c w) (token c w))\<rparr>)"
| "advance c s w (Finished res) = None"

fun act :: "'r setting \<Rightarrow> 'r system \<Rightarrow> action \<Rightarrow> 'r system option" where
  "act c s (Go w) = advance c s w (pcs s w)"
| "act c s (Fail w) = (case pcs s w of
     Acquiring n \<Rightarrow> if reliable c then None else Some (goto w (gated c w) s)
   | Dispatching aid \<Rightarrow> Some ((goto w (Releasing Thrown) s)\<lparr>calls := calls s @ [(wkey c w, aid)]\<rparr>)
   | Releasing res \<Rightarrow> if reliable c then None else Some (goto w (Finished res) s)
   | _ \<Rightarrow> None)"
| "act c s (Expire k) = (if reliable c then None else Some (s\<lparr>gate := kv_del c (gate s) k\<rparr>))"

fun run_schedule :: "'r setting \<Rightarrow> 'r system \<Rightarrow> action list \<Rightarrow> 'r system option" where
  "run_schedule c s [] = Some s"
| "run_schedule c s (a # as) = (case act c s a of None \<Rightarrow> None | Some t \<Rightarrow> run_schedule c t as)"

lemma advance_dstep:
  assumes "advance c s w (pcs s w) = Some t" shows "dstep c s t"
proof (cases "pcs s w")
  case Recording
  then show ?thesis using assms
    by (cases "recordDeliveryAttempt (db s) (worker_input c w)"; cases "snd (recordDeliveryAttempt (db s) (worker_input c w))")
      (auto intro: dstep.record_ok dstep.record_throws)
next
  case NoGate
  then show ?thesis using assms dstep.no_gate [OF NoGate, of c] by simp
next
  case (Acquiring n)
  then show ?thesis using assms dstep.gate_ok [OF Acquiring] dstep.gate_busy [OF Acquiring]
    by (cases "kv_set_nx c (gate s) (gate_key (wkey c w)) (token c w)") (auto simp del: fun_upd_apply)
next
  case (Marking aid)
  obtain d r where m: "markDeliveryDelivered (db s) 0 aid None = (d, r)" by (metis surj_pair)
  then show ?thesis using assms Marking dstep.mark [OF Marking m] by simp
qed (use assms in \<open>auto intro: dstep.check_done dstep.check_go dstep.recheck_done dstep.recheck_go dstep.dispatch_ok
      dstep.release split: if_splits\<close>)

lemma act_dstep: "act c s a = Some t \<Longrightarrow> dstep c s t"
  by (cases a) (auto intro: advance_dstep dstep.gate_fail_open dstep.dispatch_throws dstep.release_lost
      dstep.gate_expires split: pc.splits if_splits)

lemma run_schedule_reachable: "run_schedule c s as = Some t \<Longrightarrow> (dstep c)\<^sup>*\<^sup>* s t"
  by (induction as arbitrary: s) (auto intro: act_dstep converse_rtranclp_into_rtranclp split: option.splits)

definition empty_db :: delivery_db where "empty_db = \<lparr>deliveries = [], attempts = [], next_id = 1\<rparr>"

text \<open>Two workers on the same payment, with the in-memory cache of the program in the place of Redis.\<close>

definition sample_setting :: "bool \<Rightarrow> MemoryFallbackCache setting" where
  "sample_setting b =
     \<lparr>hash = id, descr = (\<lambda>w. \<lparr>paymentId = ''p'', channel = ''email'', destination = ''d'', userId = None\<rparr>),
      token = (\<lambda>w. replicate (w + 1) CHR ''t''), kv_get = mem_lookup 1,
      kv_set_nx = (\<lambda>m k v. mem_try_set 1 m k v None), kv_del = (\<lambda>m k. fst (mem_del m k)), reliable = b\<rparr>"

definition sample_key :: string where "sample_key = ''p:email:d''"

lemma sample_safe: "safe_setting (sample_setting True)"
  using mem_store.at_instant.nx_store_axioms [of 1]
  by (auto simp: safe_setting_def sample_setting_def intro!: injI)

lemma sample_run:
  "map_option (\<lambda>s. (successes s, pcs s 1, critical (pcs s 0)))
     (run_schedule (sample_setting True) (initial newMemoryFallbackCache empty_db)
       ([Go 0, Go 1] @ replicate 5 (Go 0) @ replicate 4 (Go 1) @ [Go 0]))
   = Some ([sample_key], Finished (Outcome False out_delivered None), False)"
  by code_simp

section \<open>Attempts and provider calls\<close>

definition attempt_numbers :: "delivery_db \<Rightarrow> string \<Rightarrow> nat list" where
  "attempt_numbers d k = map na_attempt (filter (\<lambda>a. na_key a = k) (attempts d))"

text \<open>Row ids are below the counter and unique, and the attempts of a key are numbered consecutively.\<close>

definition db_ok :: "delivery_db \<Rightarrow> bool" where
  "db_ok d = (distinct (map na_id (attempts d)) \<and> (\<forall>a \<in> set (attempts d). na_id a < next_id d)
     \<and> (\<forall>k. attempt_numbers d k = [1..<Suc (length (attempt_numbers d k))]))"

lemma numbered_snoc:
  "xs = [1..<Suc (length xs)] \<Longrightarrow> xs @ [length xs + 1] = [1..<Suc (length (xs @ [length xs + 1]))]"
  by (metis One_nat_def Suc_eq_plus1 Suc_le_mono le0 length_append_singleton upt_Suc_append)

lemma link_parent_next_id: "next_id d \<le> next_id (fst (link_parent d inp n))"
  by (simp add: link_parent_def update_delivery_def split: option.splits)

lemma record_next_id:
  assumes "recordDeliveryAttempt d inp = (d', r)"
  shows "next_id d \<le> next_id d'" and "r = Inr i \<Longrightarrow> next_id d \<le> i \<and> i < next_id d'"
proof -
  obtain d1 j where l: "link_parent d inp (length (filter (\<lambda>a. na_key a = in_key inp) (attempts d)) + 1) = (d1, j)"
    by (metis surj_pair)
  then have "next_id d \<le> next_id d1" by (metis link_parent_next_id fst_conv)
  then show "next_id d \<le> next_id d'" and "r = Inr i \<Longrightarrow> next_id d \<le> i \<and> i < next_id d'" using assms l
    by (auto simp: recordDeliveryAttempt_def Let_def split: if_splits)
qed

lemma db_ok_record:
  assumes "recordDeliveryAttempt d inp = (d', r)" "db_ok d" shows "db_ok d'"
proof -
  consider "attempts d' = attempts d"
    | i a where "r = Inr i" "attempts d' = attempts d @ [a]" "na_id a = i" "na_key a = in_key inp"
        "na_attempt a = length (attempt_numbers d (in_key inp)) + 1"
    using record_attempts [OF assms(1)] by (auto simp: attempt_numbers_def)
  then show ?thesis
  proof cases
    case 1
    then show ?thesis using assms(2) record_next_id(1) [OF assms(1)]
      unfolding db_ok_def attempt_numbers_def by (metis order_less_le_trans)
  next
    case 2
    have n: "next_id d \<le> i" "i < next_id d'" using record_next_id(2) [OF assms(1) 2(1)] by auto
    have "attempt_numbers d' k =
        attempt_numbers d k @ (if k = in_key inp then [length (attempt_numbers d k) + 1] else [])" for k
      using 2 by (simp add: attempt_numbers_def)
    then have "attempt_numbers d' k = [1..<Suc (length (attempt_numbers d' k))]" for k
      using assms(2) numbered_snoc [of "attempt_numbers d k"] by (simp only: db_ok_def split: if_split) simp
    moreover have "distinct (map na_id (attempts d'))" "\<forall>a \<in> set (attempts d'). na_id a < next_id d'"
      using assms(2) 2 n by (fastforce simp: db_ok_def)+
    ultimately show ?thesis by (simp add: db_ok_def)
  qed
qed

lemma mark_next_id: "markDeliveryDelivered d now i prid = (d', r) \<Longrightarrow> next_id d' = next_id d"
  by (auto simp: markDeliveryDelivered_def Let_def update_attempt_def update_delivery_def update_by_key_def
      split: option.splits if_splits)

lemma db_ok_mark:
  assumes "markDeliveryDelivered d now i prid = (d', r)" "db_ok d" shows "db_ok d'"
proof -
  note m = mark_attempts [OF assms(1)]
  have i: "map na_id (attempts d') = map na_id (attempts d)"
    unfolding m by (simp add: confirm_attempt_def)
  moreover have "attempt_numbers d' k = attempt_numbers d k" for k
    unfolding attempt_numbers_def m by (simp add: filter_map o_def if_distrib confirm_attempt_def cong: if_cong)
  ultimately show ?thesis using assms(2) mark_next_id [OF assms(1)]
    unfolding db_ok_def by (metis (no_types, lifting) imageE imageI list.set_map)
qed

text \<open>Each provider call belongs to a persisted attempt of its key, and no attempt is used for two calls.\<close>

definition inv_calls :: "'r setting \<Rightarrow> 'r system \<Rightarrow> bool" where
  "inv_calls c s = (distinct (map snd (calls s))
     \<and> (\<forall>p \<in> set (calls s). has_attempt (db s) (snd p) (fst p))
     \<and> (\<forall>w i. pcs s w = Dispatching i \<longrightarrow> i \<notin> snd ` set (calls s))
     \<and> (\<forall>v w i. pcs s v = Dispatching i \<longrightarrow> pcs s w = Dispatching i \<longrightarrow> v = w))"

lemma has_attempt_less: "has_attempt d i k \<Longrightarrow> db_ok d \<Longrightarrow> i < next_id d"
  by (auto simp: has_attempt_def db_ok_def)

lemma db_ok_step: "dstep c s t \<Longrightarrow> db_ok (db s) \<Longrightarrow> db_ok (db t)"
  by (cases rule: dstep.cases) (auto intro: db_ok_record db_ok_mark)

lemma inv_calls_step:
  assumes "dstep c s t" "inv_calls c s" "inv_attempt c s" "db_ok (db s)"
  shows "inv_calls c t"
  using assms(1)
proof (cases rule: dstep.cases)
  case (record_ok w db' aid)
  have n: "next_id (db s) \<le> aid" using record_next_id(2) [OF record_ok(3)] by simp
  have "aid \<notin> snd ` set (calls s)"
    using assms(2,4) n has_attempt_less by (fastforce simp: inv_calls_def)
  moreover have "pcs s v \<noteq> Dispatching aid" for v
    using assms(3,4) n has_attempt_less by (metis inv_attempt_def not_le)
  ultimately show ?thesis using assms(2) record_ok has_attempt_record [OF record_ok(3)]
    by (auto simp: inv_calls_def)
next
  case (record_throws w db' e)
  then show ?thesis using assms(2) has_attempt_record [OF record_throws(3)] by (auto simp: inv_calls_def)
next
  case (mark w aid now db' r)
  then show ?thesis using assms(2) has_attempt_mark [OF mark(3)] by (auto simp: inv_calls_def)
next
  case (dispatch_ok w aid)
  then show ?thesis using assms(2,3) by (auto simp: inv_calls_def inv_attempt_def)
next
  case (dispatch_throws w aid)
  then show ?thesis using assms(2,3) by (auto simp: inv_calls_def inv_attempt_def)
qed (use assms(2) in \<open>auto simp: inv_calls_def\<close>)

lemma inv_calls_reachable:
  assumes "(dstep c)\<^sup>*\<^sup>* (initial r d) s" "db_ok d"
  shows "db_ok (db s) \<and> inv_attempt c s \<and> inv_calls c s"
  using assms(1)
proof induction
  case base
  then show ?case using assms(2) by (simp add: initial_def inv_attempt_def inv_calls_def)
next
  case (step s t)
  then show ?case using db_ok_step inv_attempt_step inv_calls_step by blast
qed

lemma record_no_unique_violation:
  assumes "\<And>k. attempt_numbers d k = [1..<Suc (length (attempt_numbers d k))]"
  shows "snd (recordDeliveryAttempt d inp) \<noteq> Inl UniqueViolation"
proof -
  let ?n = "length (filter (\<lambda>a. na_key a = in_key inp) (attempts d)) + 1"
  obtain d1 i where l: "link_parent d inp ?n = (d1, i)" by (metis surj_pair)
  then have a: "attempts d1 = attempts d" by (metis attempts_link_parent fst_conv)
  have "set (attempt_numbers d (in_key inp)) = {1..<?n}"
    using arg_cong [OF assms [of "in_key inp"], of set]
    by (simp add: attempt_numbers_def del: upt_Suc)
  then have "na_attempt x < ?n" if "x \<in> set (attempts d)" "na_key x = in_key inp" for x
  proof -
    have "na_attempt x \<in> set (attempt_numbers d (in_key inp))" using that by (simp add: attempt_numbers_def)
    then show ?thesis using \<open>set (attempt_numbers d (in_key inp)) = {1..<?n}\<close> by simp
  qed
  then have "\<not> list_ex (\<lambda>a. na_key a = in_key inp \<and> na_attempt a = ?n) (attempts d1)"
    unfolding a list_ex_iff by (metis less_irrefl)
  then show ?thesis using l by (auto simp: recordDeliveryAttempt_def Let_def)
qed

section \<open>Failed dispatches\<close>

text \<open>The states that runs of the delivery function write.\<close>

definition no_failure_recorded :: "delivery_db \<Rightarrow> bool" where
  "no_failure_recorded d = (list_all (\<lambda>a. na_status a \<in> {pending, delivered}) (attempts d)
     \<and> list_all (\<lambda>x. nd_status x \<in> {pending, in_progress, delivered} \<and> lastError x = None) (deliveries d))"

lemma link_parent_no_failure:
  "no_failure_recorded d \<Longrightarrow> no_failure_recorded (fst (link_parent d inp n))"
  by (auto simp: no_failure_recorded_def link_parent_def update_delivery_def start_attempt_def new_delivery_def
      list_all_iff split: option.splits)

lemma record_no_failure:
  assumes "recordDeliveryAttempt d inp = (d', r)" "no_failure_recorded d" shows "no_failure_recorded d'"
proof -
  obtain d1 i where l: "link_parent d inp (length (filter (\<lambda>a. na_key a = in_key inp) (attempts d)) + 1) = (d1, i)"
    by (metis surj_pair)
  then have "no_failure_recorded d1" using link_parent_no_failure [OF assms(2)] by (metis fst_conv)
  then show ?thesis using assms l
    by (auto simp: recordDeliveryAttempt_def Let_def no_failure_recorded_def list_all_iff split: if_splits)
qed

lemma mark_no_failure:
  "markDeliveryDelivered d now i prid = (d', r) \<Longrightarrow> no_failure_recorded d \<Longrightarrow> no_failure_recorded d'"
  by (auto simp: markDeliveryDelivered_def Let_def update_attempt_def update_delivery_def update_by_key_def
      no_failure_recorded_def confirm_attempt_def set_delivered_def list_all_iff split: option.splits if_splits)

lemma no_failure_step: "dstep c s t \<Longrightarrow> no_failure_recorded (db s) \<Longrightarrow> no_failure_recorded (db t)"
  by (cases rule: dstep.cases) (auto intro: record_no_failure mark_no_failure)

lemma no_failure_reachable:
  assumes "(dstep c)\<^sup>*\<^sup>* (initial r d) s" "no_failure_recorded d"
  shows "no_failure_recorded (db s)"
  using assms(1) by induction (use assms(2) no_failure_step in \<open>auto simp: initial_def\<close>)

section \<open>Termination\<close>

fun rank :: "pc \<Rightarrow> nat" where
  "rank Start = 9"
| "rank (Acquiring n) = 6 + (DELIVERY_GATE_RETRY - n)"
| "rank NoGate = 1"
| "rank Recheck = 5"
| "rank Recording = 4"
| "rank (Dispatching _) = 3"
| "rank (Marking _) = 2"
| "rank (Releasing _) = 1"
| "rank (Finished _) = 0"

lemma rank_le: "rank p \<le> 9"
  by (cases p) (simp_all add: DELIVERY_GATE_RETRY_def)

lemma advance_rank:
  assumes "advance c s w (pcs s w) = Some t" shows "rank (pcs t w) < rank (pcs s w)"
proof (cases "pcs s w")
  case Recording
  then show ?thesis using assms by (auto split: prod.splits sum.splits)
qed (use assms in \<open>auto simp: DELIVERY_GATE_RETRY_def gated_def split: option.splits if_splits prod.splits\<close>)

lemma advance_or_finished: "(\<exists>t. advance c s w (pcs s w) = Some t) \<or> (\<exists>r. pcs s w = Finished r)"
  by (cases "pcs s w") simp_all

lemma run_worker:
  "\<exists>n t r. n \<le> rank (pcs s w) \<and> run_schedule c s (replicate n (Go w)) = Some t \<and> pcs t w = Finished r"
proof (induction "rank (pcs s w)" arbitrary: s rule: less_induct)
  case less
  show ?case
  proof (cases "\<exists>r. pcs s w = Finished r")
    case True
    then show ?thesis by (intro exI [of _ 0]) simp
  next
    case False
    then obtain u where u: "advance c s w (pcs s w) = Some u" using advance_or_finished by blast
    then obtain n t r where n: "n \<le> rank (pcs u w)" "run_schedule c u (replicate n (Go w)) = Some t" "pcs t w = Finished r"
      using less advance_rank by blast
    then have "run_schedule c s (replicate (Suc n) (Go w)) = Some t" using u by simp
    moreover have "Suc n \<le> rank (pcs s w)" using n(1) advance_rank [OF u] by linarith
    ultimately show ?thesis using n(3) by blast
  qed
qed

section \<open>Properties\<close>

lemma count_list_distinct: "distinct xs \<Longrightarrow> count_list xs k \<le> 1"
  by (induction xs) (auto simp: count_notin)


definition sample_schedule :: "action list" where
  "sample_schedule = [Go 0, Go 1] @ replicate 5 (Go 0) @ replicate 4 (Go 1) @ [Go 0]"

definition sample_end :: "MemoryFallbackCache system" where
  "sample_end = the (run_schedule (sample_setting True) (initial newMemoryFallbackCache empty_db) sample_schedule)"

lemma sample_end_reachable: "(dstep (sample_setting True))\<^sup>*\<^sup>* (initial newMemoryFallbackCache empty_db) sample_end"
proof -
  have "run_schedule (sample_setting True) (initial newMemoryFallbackCache empty_db) sample_schedule \<noteq> None" by code_simp
  then show ?thesis unfolding sample_end_def by (auto intro: run_schedule_reachable)
qed


text \<open>Attempts account for the provider calls: with no assumption on Redis, every provider call of a
  reachable state was made for a persisted attempt of its own key, no two calls share an attempt, and the
  attempts of a key are numbered 1, 2, 3 and so on, so that the unique constraint on the attempt number is
  never violated by the recording of an attempt.\<close>

theorem provider_calls_are_recorded:
  assumes "(dstep c)\<^sup>*\<^sup>* (initial r d) s" "db_ok d"
  shows "distinct (map snd (calls s)) \<and> (\<forall>p \<in> set (calls s). has_attempt (db s) (snd p) (fst p))
    \<and> attempt_numbers (db s) k = [1..<Suc (length (attempt_numbers (db s) k))]
    \<and> snd (recordDeliveryAttempt (db s) inp) \<noteq> Inl UniqueViolation"
proof (intro conjI)
  note i = inv_calls_reachable [OF assms]
  then show "distinct (map snd (calls s))" "\<forall>p \<in> set (calls s). has_attempt (db s) (snd p) (fst p)"
    by (simp_all add: inv_calls_def)
  have n: "attempt_numbers (db s) k = [1..<Suc (length (attempt_numbers (db s) k))]" for k
    using i unfolding db_ok_def by blast
  then show "attempt_numbers (db s) k = [1..<Suc (length (attempt_numbers (db s) k))]" .
  show "snd (recordDeliveryAttempt (db s) inp) \<noteq> Inl UniqueViolation"
    by (rule record_no_unique_violation) (use n in blast)
qed

definition failing_schedule :: "action list" where
  "failing_schedule = replicate 4 (Go 0) @ [Fail 0, Go 0] @ replicate 7 (Go 1)"

definition failing_end :: "MemoryFallbackCache system" where
  "failing_end = the (run_schedule (sample_setting True) (initial newMemoryFallbackCache empty_db) failing_schedule)"

lemma failing_end_reachable: "(dstep (sample_setting True))\<^sup>*\<^sup>* (initial newMemoryFallbackCache empty_db) failing_end"
proof -
  have "run_schedule (sample_setting True) (initial newMemoryFallbackCache empty_db) failing_schedule \<noteq> None" by code_simp
  then show ?thesis unfolding failing_end_def by (auto intro: run_schedule_reachable)
qed

lemma empty_db_ok: "db_ok empty_db"
  by (simp add: db_ok_def empty_db_def attempt_numbers_def)

theorem provider_calls_are_recorded_witness:
  "map fst (calls failing_end) = [sample_key, sample_key] \<and> attempt_numbers (db failing_end) sample_key = [1, 2]
   \<and> distinct (map snd (calls failing_end))"
proof -
  have "map fst (calls failing_end) = [sample_key, sample_key]" by code_simp
  moreover have "attempt_numbers (db failing_end) sample_key = [1, 2]" by code_simp
  ultimately show ?thesis using provider_calls_are_recorded [OF failing_end_reachable empty_db_ok] by blast
qed

text \<open>A failed dispatch leaves no trace of its failure: in every state the workers reach, whatever fails,
  no attempt has the status failed and no delivery is failed or exhausted or carries an error text, so the
  limit on the attempts of a delivery never ends it.\<close>

theorem workers_never_record_failure:
  assumes "(dstep c)\<^sup>*\<^sup>* (initial r d) s" "no_failure_recorded d"
  shows "no_failure_recorded (db s)"
  using no_failure_reachable [OF assms] .

theorem workers_never_record_failure_witness:
  "pcs failing_end 0 = Finished Thrown \<and> no_failure_recorded (db failing_end)"
proof -
  have "no_failure_recorded empty_db" by (simp add: no_failure_recorded_def empty_db_def)
  moreover have "pcs failing_end 0 = Finished Thrown" by code_simp
  ultimately show ?thesis using workers_never_record_failure [OF failing_end_reachable] by blast
qed


text \<open>Without a reliable gate two workers deliver the same key: the gate of the first expires during its
  dispatch, or Redis cannot be reached.\<close>

lemma lost_gate_delivers_twice:
  "map_option successes (run_schedule (sample_setting False) (initial newMemoryFallbackCache empty_db)
     (replicate 4 (Go 0) @ [Expire (gate_key sample_key)] @ replicate 5 (Go 1) @ [Go 0]))
   = Some [sample_key, sample_key]"
  by code_simp

text \<open>A suppression overwrites a terminal state, which the table of transitions forbids.\<close>

lemma suppression_overwrites_delivered:
  "(let d = db sample_end; d' = markDeliverySuppressed d 1 sample_key None in
    map nd_status (deliveries d) = [delivered] \<and> map nd_status (deliveries d') = [suppressed]
    \<and> validateDeliveryTransition delivered suppressed = Inl (AlreadyTerminal delivered))"
  by code_simp

end
