(* ===== verification/NonceCache.thy ===== *)
theory NonceCache
  imports RedisStore
begin

text \<open>
  One-time nonces (\<open>apps/api/src/lib/nonceCache.ts\<close>): the atomic test-and-set of a nonce with a time to live,
  in Redis or, when a command throws, in a map of the process. The commands of Redis are a parameter and
  whether they throw is an argument of every call. The contract of a nonce book (locale \<open>nonce_book\<close>) is
  what request verifiers rely on: a nonce that was accepted is refused for the length of a window. The
  clock is an argument, read once per call. Generating nonces (\<open>randomUUID\<close>) and logging are not modelled.
\<close>

section \<open>Operations\<close>

definition NONCE_PREFIX :: string where "NONCE_PREFIX = ''webhook_nonce:''"

definition DEFAULT_NONCE_TTL_SECONDS :: int where "DEFAULT_NONCE_TTL_SECONDS = 300"

record 'r nonce_state =
  server :: 'r
  degradedNonceStore :: "(string \<times> int) list"

definition nonce_key :: "string \<Rightarrow> string" where
  "nonce_key nonce = NONCE_PREFIX @ nonce"

text \<open>The test \<open>exp && exp > Date.now()\<close> on the map of the process.\<close>

definition degraded_has :: "int \<Rightarrow> 'r nonce_state \<Rightarrow> string \<Rightarrow> bool" where
  "degraded_has now st key = (case map_of (degradedNonceStore st) key of None \<Rightarrow> False | Some x \<Rightarrow> x \<noteq> 0 \<and> x > now)"

definition degraded_store :: "int \<Rightarrow> string \<Rightarrow> int \<Rightarrow> 'r nonce_state \<Rightarrow> 'r nonce_state" where
  "degraded_store now key ttlSeconds st =
     st\<lparr>degradedNonceStore := AList.update key (now + ttlSeconds * 1000) (degradedNonceStore st)\<rparr>"

definition checkAndStoreNonce ::
  "'r timed_redis \<Rightarrow> bool \<Rightarrow> int \<Rightarrow> string \<Rightarrow> int \<Rightarrow> 'r nonce_state \<Rightarrow> 'r nonce_state \<times> bool" where
  "checkAndStoreNonce c up now nonce ttlSeconds st =
     (if nonce = [] then (st, False)
      else if up then
        (case tr_set_nx c now (server st) (nonce_key nonce) ''1'' (Some ttlSeconds) of
           Some r \<Rightarrow> (st\<lparr>server := r\<rparr>, True)
         | None \<Rightarrow> (st, False))
      else if degraded_has now st (nonce_key nonce) then (st, False)
      else (degraded_store now (nonce_key nonce) ttlSeconds st, True))"

definition isNonceRecorded :: "'r timed_redis \<Rightarrow> bool \<Rightarrow> int \<Rightarrow> string \<Rightarrow> 'r nonce_state \<Rightarrow> bool" where
  "isNonceRecorded c up now nonce st =
     (if nonce = [] then False
      else if up then tr_get c now (server st) (nonce_key nonce) \<noteq> None
      else degraded_has now st (nonce_key nonce))"

definition storeNonce :: "'r timed_redis \<Rightarrow> bool \<Rightarrow> int \<Rightarrow> string \<Rightarrow> int \<Rightarrow> 'r nonce_state \<Rightarrow> 'r nonce_state" where
  "storeNonce c up now nonce ttlSeconds st =
     (if nonce = [] then st
      else if up then st\<lparr>server := tr_put c now (server st) (nonce_key nonce) ''1'' (Some ttlSeconds)\<rparr>
      else degraded_store now (nonce_key nonce) ttlSeconds st)"

section \<open>The contract of a nonce book\<close>

text \<open>A run of timed requests; the outcome of a request is the nonce it consumed, if any.\<close>

fun book_run :: "(int \<Rightarrow> 's \<Rightarrow> 'e \<Rightarrow> 's \<times> 'n option) \<Rightarrow> 's \<Rightarrow> (int \<times> 'e) list \<Rightarrow> (int \<times> 'n option) list" where
  "book_run step s [] = []"
| "book_run step s ((t, e) # es) = (let (s', r) = step t s e in (t, r) # book_run step s' es)"

locale nonce_book =
  fixes step :: "int \<Rightarrow> 's \<Rightarrow> 'e \<Rightarrow> 's \<times> 'n option" and held :: "'s \<Rightarrow> 'n \<Rightarrow> int \<Rightarrow> int \<Rightarrow> bool" and window :: int
  assumes refused: "held s n t u \<Longrightarrow> 0 \<le> t' \<Longrightarrow> t \<le> t' \<Longrightarrow> t' < u \<Longrightarrow> snd (step t' s e) \<noteq> Some n"
    and accepted: "snd (step t s e) = Some n \<Longrightarrow> held (fst (step t s e)) n t (t + window)"
    and kept: "held s n t u \<Longrightarrow> 0 \<le> t' \<Longrightarrow> t \<le> t' \<Longrightarrow> held (fst (step t' s e)) n t' u"
begin

lemma run_refused:
  "held s n t u \<Longrightarrow> sorted (t # map fst es) \<Longrightarrow> 0 \<le> t \<Longrightarrow> (t', Some n) \<in> set (book_run step s es) \<Longrightarrow> u \<le> t'"
proof (induction es arbitrary: s t)
  case (Cons p es)
  obtain v e where p: "p = (v, e)" by (cases p)
  have h: "held (fst (step v s e)) n v u" by (rule kept) (use Cons.prems p in auto)
  show ?case
  proof (cases "t' = v \<and> snd (step v s e) = Some n")
    case True
    then show ?thesis using refused [OF Cons.prems(1), of v e] Cons.prems(2,3) p by force
  next
    case False
    then have "(t', Some n) \<in> set (book_run step (fst (step v s e)) es)"
      using Cons.prems(4) p by (auto simp: case_prod_beta Let_def)
    then show ?thesis using Cons.IH [OF h] Cons.prems(2,3) p by auto
  qed
qed simp

text \<open>Two acceptances of the same nonce are at least a window apart.\<close>

lemma accepted_apart:
  assumes "sorted (map fst es)" "\<forall>p \<in> set es. 0 \<le> fst p" "i < j" "j < length es"
    "book_run step s es ! i = (t, Some n)" "book_run step s es ! j = (t', Some n)"
  shows "t + window \<le> t'"
  using assms
proof (induction es arbitrary: s i j)
  case (Cons p es)
  obtain v e where p: "p = (v, e)" by (cases p)
  let ?s = "fst (step v s e)"
  have len: "length (book_run step u es) = length es" for u
    by (induction es arbitrary: u) (auto simp: case_prod_beta Let_def)
  obtain j' where j: "j = Suc j'" using Cons.prems(3) by (cases j) auto
  have tail: "book_run step ?s es ! j' = (t', Some n)" "j' < length es"
    using Cons.prems(4,6) j p by (simp_all add: case_prod_beta Let_def)
  show ?case
  proof (cases i)
    case 0
    then have "v = t \<and> snd (step v s e) = Some n" using Cons.prems(5) p by (auto simp: case_prod_beta Let_def)
    then have a: "v = t" "snd (step v s e) = Some n" by blast+
    have "(t', Some n) \<in> set (book_run step ?s es)" using tail len by (metis nth_mem)
    then show ?thesis using run_refused [OF accepted [OF a(2)]] Cons.prems(1,2) p a by auto
  next
    case (Suc i')
    then show ?thesis using Cons.IH [of i' j' ?s] Cons.prems p j tail by (simp add: case_prod_beta Let_def)
  qed
qed simp

end

section \<open>The nonce cache keeps the contract\<close>

definition nonce_held :: "'r timed_redis \<Rightarrow> bool \<Rightarrow> 'r nonce_state \<Rightarrow> string \<Rightarrow> int \<Rightarrow> int \<Rightarrow> bool" where
  "nonce_held c up st n t u =
     (\<forall>t'. 0 \<le> t' \<longrightarrow> t \<le> t' \<longrightarrow> t' < u \<longrightarrow> isNonceRecorded c up t' n st)"

lemma nonce_key_inject [simp]: "nonce_key m = nonce_key n \<longleftrightarrow> m = n"
  by (simp add: nonce_key_def)

lemma held_refused:
  assumes "up \<longrightarrow> redis_contract c" "nonce_held c up st n t u" "0 \<le> t'" "t \<le> t'" "t' < u"
  shows "\<not> snd (checkAndStoreNonce c up t' n ttl st)"
proof -
  have r: "isNonceRecorded c up t' n st" using assms by (simp add: nonce_held_def)
  show ?thesis
  proof (cases up)
    case True
    then have "kv_store (tr_get c) (tr_put c) (tr_set_nx c) (tr_del c)" using assms(1) by (simp add: redis_contract_def)
    from kv_store.nx_fails [OF this] show ?thesis using r True
      by (simp add: isNonceRecorded_def checkAndStoreNonce_def split: if_splits option.splits)
  next
    case False
    then show ?thesis using r by (simp add: isNonceRecorded_def checkAndStoreNonce_def)
  qed
qed

lemma held_accepted:
  assumes "up \<longrightarrow> redis_contract c" "snd (checkAndStoreNonce c up t n ttl st)"
  shows "nonce_held c up (fst (checkAndStoreNonce c up t n ttl st)) n t (t + ttl * 1000)"
proof (cases up)
  case True
  then have kv: "kv_store (tr_get c) (tr_put c) (tr_set_nx c) (tr_del c)" using assms(1) by (simp add: redis_contract_def)
  from True assms(2) obtain r where "n \<noteq> []" "tr_set_nx c t (server st) (nonce_key n) ''1'' (Some ttl) = Some r"
    by (auto simp: checkAndStoreNonce_def split: if_splits option.splits)
  then show ?thesis using True kv_store.nx_get [OF kv]
    by (auto simp: nonce_held_def isNonceRecorded_def checkAndStoreNonce_def)
next
  case False
  then show ?thesis using assms(2)
    by (auto simp: nonce_held_def isNonceRecorded_def checkAndStoreNonce_def degraded_has_def degraded_store_def split: if_splits)
qed

lemma held_kept:
  assumes "up \<longrightarrow> redis_contract c" "nonce_held c up st n t u" "0 \<le> t'" "t \<le> t'"
  shows "nonce_held c up (fst (checkAndStoreNonce c up t' m ttl st)) n t' u"
proof (cases "snd (checkAndStoreNonce c up t' m ttl st)")
  case False
  then have "fst (checkAndStoreNonce c up t' m ttl st) = st"
    by (auto simp: checkAndStoreNonce_def split: if_splits option.splits)
  then show ?thesis using assms(2,4) by (simp add: nonce_held_def)
next
  case ok: True
  show ?thesis
  proof (cases "m = n")
    case True
    then show ?thesis using held_refused [OF assms(1-4), of ttl] ok by (auto simp: nonce_held_def)
  next
    case False
    show ?thesis
    proof (cases up)
      case True
      then have kv: "kv_store (tr_get c) (tr_put c) (tr_set_nx c) (tr_del c)" using assms(1) by (simp add: redis_contract_def)
      from True ok obtain r where "tr_set_nx c t' (server st) (nonce_key m) ''1'' (Some ttl) = Some r" "m \<noteq> []"
        by (auto simp: checkAndStoreNonce_def split: if_splits option.splits)
      then show ?thesis using True assms(2-4) False kv_store.nx_frame [OF kv, of t' "server st" "nonce_key m" _ _ r _ "nonce_key n"]
        by (auto simp: nonce_held_def isNonceRecorded_def checkAndStoreNonce_def)
    next
      case False
      then show ?thesis using assms(2-4) ok \<open>m \<noteq> n\<close>
        by (auto simp: nonce_held_def isNonceRecorded_def checkAndStoreNonce_def degraded_has_def degraded_store_def split: if_splits)
    qed
  qed
qed

text \<open>The bare nonce cache as a nonce book, on the map of the process and on the in-memory cache.\<close>

definition nonce_step ::
  "'r timed_redis \<Rightarrow> bool \<Rightarrow> int \<Rightarrow> int \<Rightarrow> 'r nonce_state \<Rightarrow> string \<Rightarrow> 'r nonce_state \<times> string option" where
  "nonce_step c up ttl now st n =
     (let (st', fresh) = checkAndStoreNonce c up now n ttl st in (st', if fresh then Some n else None))"

lemma nonce_step_book:
  assumes "up \<longrightarrow> redis_contract c"
  shows "nonce_book (nonce_step c up ttl) (nonce_held c up) (ttl * 1000)"
proof unfold_locales
  show "0 \<le> t' \<Longrightarrow> t \<le> t' \<Longrightarrow> t' < u \<Longrightarrow> snd (nonce_step c up ttl t' s e) \<noteq> Some n"
    if "nonce_held c up s n t u" for s n t u t' e
    using held_refused [OF assms that] by (auto simp: nonce_step_def case_prod_beta Let_def)
  show "nonce_held c up (fst (nonce_step c up ttl t s e)) n t (t + ttl * 1000)"
    if "snd (nonce_step c up ttl t s e) = Some n" for t s e n
    using held_accepted [OF assms] that by (simp add: nonce_step_def case_prod_beta Let_def split: if_splits)
  show "0 \<le> t' \<Longrightarrow> t \<le> t' \<Longrightarrow> nonce_held c up (fst (nonce_step c up ttl t' s e)) n t' u"
    if "nonce_held c up s n t u" for s n t u t' e
    using held_kept [OF assms that] by (simp add: nonce_step_def case_prod_beta Let_def)
qed

interpretation degraded_nonces: nonce_book "nonce_step mem_redis False ttl" "nonce_held mem_redis False" "ttl * 1000" for ttl
  by (rule nonce_step_book) simp

interpretation memory_nonces: nonce_book "nonce_step mem_redis True ttl" "nonce_held mem_redis True" "ttl * 1000" for ttl
  by (rule nonce_step_book) (simp add: mem_redis_contract)

end
