(* ===== verification/WebhookSigner.thy ===== *)
theory WebhookSigner
  imports NonceCache
begin

text \<open>
  Signing and verification of webhooks (\<open>apps/api/src/utils/webhook-signer.ts\<close>): the signature header and
  its parser, HMAC verification with drift bound, secondary header and replay check, and the rotation of
  secrets. HMAC-SHA256 (\<open>hmac secret data\<close>, the hexadecimal digest), a KMS signer, the clock and the commands
  of Redis are parameters. Timestamps are numbers of milliseconds, which the code prints and parses as
  decimal integers; tolerances are whole milliseconds. Comparing in constant time is equality. Reading the
  KMS settings from the environment is modelled on the values of its variables.
\<close>

section \<open>The signature header\<close>

type_synonym hmac_sha256 = "string \<Rightarrow> string \<Rightarrow> string"

record WebhookHeaderResult =
  hr_signature :: string
  hr_timestamp :: nat
  hr_nonce :: string
  headerValue :: string

record ParsedWebhookHeader =
  ph_timestamp :: nat
  ph_nonce :: string
  ph_signature :: string

definition DEFAULT_DRIFT_TOLERANCE_MS :: int where "DEFAULT_DRIFT_TOLERANCE_MS = 300000"
definition MAX_WEBHOOK_HEADER_LENGTH :: nat where "MAX_WEBHOOK_HEADER_LENGTH = 8192"
definition MAX_WEBHOOK_PAYLOAD_LENGTH :: nat where "MAX_WEBHOOK_PAYLOAD_LENGTH = 1024 * 1024"
definition MAX_NONCE_LENGTH :: nat where "MAX_NONCE_LENGTH = 128"
definition DEFAULT_KEY_ROTATION_GRACE_PERIOD_MS :: int where "DEFAULT_KEY_ROTATION_GRACE_PERIOD_MS = 48 * 60 * 60 * 1000"
definition MAX_SAFE_INTEGER :: nat where "MAX_SAFE_INTEGER = 2 ^ 53 - 1"

definition is_hex :: "char \<Rightarrow> bool" where
  "is_hex c = (is_digit c \<or> c \<in> set ''abcdefABCDEF'')"

definition SIGNATURE_HEX_REGEX :: "string \<Rightarrow> bool" where
  "SIGNATURE_HEX_REGEX s = (length s = 64 \<and> list_all is_hex s)"

definition control_char :: "char \<Rightarrow> bool" where
  "control_char c = (char_code c < 32 \<or> char_code c = 127)"

definition CONTROL_CHAR_REGEX :: "string \<Rightarrow> bool" where
  "CONTROL_CHAR_REGEX s = list_ex control_char s"

text \<open>A header or payload of any JavaScript type; for a payload that is no string, its conversion.\<close>

datatype header_value = H_null | H_string string | H_other
datatype payload_value = P_null | P_string string | P_other string

fun normalizePayload :: "payload_value \<Rightarrow> string" where
  "normalizePayload P_null = []"
| "normalizePayload (P_string s) = s"
| "normalizePayload (P_other s) = s"

definition safeTimingSafeEqual :: "string \<Rightarrow> string \<Rightarrow> bool" where
  "safeTimingSafeEqual l r = (if length l \<noteq> length r then False else if length l = 0 then True else l = r)"

datatype header_error = Missing_header | Header_not_string | Empty_header | Header_too_long | Header_control_chars
  | Missing_fields | Segment_count | Empty_segment | Duplicate_timestamp | Duplicate_nonce | Duplicate_signature
  | Unknown_segment | Timestamp_format | Timestamp_value | Signature_format | Nonce_too_long | Nonce_control_chars

text \<open>The loop over the comma-separated parts.\<close>

fun parse_parts ::
  "string option \<Rightarrow> string option \<Rightarrow> string option \<Rightarrow> string list \<Rightarrow> header_error + string option \<times> string option \<times> string option" where
  "parse_parts tp np sp [] = Inr (tp, np, sp)"
| "parse_parts tp np sp (part # parts) =
     (let trimmed = trim part in
      if trimmed = [] then Inl Empty_segment
      else if startsWith trimmed ''t='' then
        (if tp \<noteq> None then Inl Duplicate_timestamp else parse_parts (Some trimmed) np sp parts)
      else if startsWith trimmed ''n='' then
        (if np \<noteq> None then Inl Duplicate_nonce else parse_parts tp (Some trimmed) sp parts)
      else if startsWith trimmed ''v1='' then
        (if sp \<noteq> None then Inl Duplicate_signature else parse_parts tp np (Some trimmed) parts)
      else Inl Unknown_segment)"

definition parse_fields :: "string option \<Rightarrow> string option \<Rightarrow> string option \<Rightarrow> header_error + ParsedWebhookHeader" where
  "parse_fields tp np sp =
     (if tp = None \<or> sp = None then Inl Missing_fields
      else let timestampRaw = drop 2 (the tp) in
      if \<not> (timestampRaw \<noteq> [] \<and> list_all is_digit timestampRaw) then Inl Timestamp_format
      else let timestamp = dec_val timestampRaw in
      if \<not> timestamp \<le> MAX_SAFE_INTEGER \<or> timestamp = 0 then Inl Timestamp_value
      else let signature = drop 3 (the sp) in
      if \<not> SIGNATURE_HEX_REGEX signature then Inl Signature_format
      else let nonce = (case np of Some n \<Rightarrow> drop 2 n | None \<Rightarrow> []) in
      if length nonce > MAX_NONCE_LENGTH then Inl Nonce_too_long
      else if nonce \<noteq> [] \<and> CONTROL_CHAR_REGEX nonce then Inl Nonce_control_chars
      else Inr \<lparr>ph_timestamp = timestamp, ph_nonce = nonce, ph_signature = signature\<rparr>)"

fun parseWebhookSignatureHeader :: "header_value \<Rightarrow> header_error + ParsedWebhookHeader" where
  "parseWebhookSignatureHeader H_null = Inl Missing_header"
| "parseWebhookSignatureHeader H_other = Inl Header_not_string"
| "parseWebhookSignatureHeader (H_string h) =
     (if length h = 0 then Inl Empty_header
      else if length h > MAX_WEBHOOK_HEADER_LENGTH then Inl Header_too_long
      else if CONTROL_CHAR_REGEX h then Inl Header_control_chars
      else if \<not> str_includes h ''t='' \<or> \<not> str_includes h ''v1='' then Inl Missing_fields
      else let parts = split_on CHR '','' h in
      if length parts < 2 \<or> length parts > 3 then Inl Segment_count
      else (case parse_parts None None None parts of
              Inl e \<Rightarrow> Inl e
            | Inr (tp, np, sp) \<Rightarrow> parse_fields tp np sp))"

section \<open>Signing\<close>

definition buildWebhookDataToSign :: "string \<Rightarrow> nat \<Rightarrow> string \<Rightarrow> string" where
  "buildWebhookDataToSign payload timestamp nonce =
     (if nonce \<noteq> [] then nat_str timestamp @ ''.'' @ nonce @ ''.'' @ payload else nat_str timestamp @ ''.'' @ payload)"

definition buildWebhookHeaderValue :: "nat \<Rightarrow> string \<Rightarrow> string \<Rightarrow> string" where
  "buildWebhookHeaderValue timestamp nonce signature =
     (if nonce \<noteq> [] then ''t='' @ nat_str timestamp @ '',n='' @ nonce @ '',v1='' @ signature
      else ''t='' @ nat_str timestamp @ '',v1='' @ signature)"

definition generateWebhookSignature :: "hmac_sha256 \<Rightarrow> string \<Rightarrow> string \<Rightarrow> nat \<Rightarrow> string \<Rightarrow> WebhookHeaderResult" where
  "generateWebhookSignature hmac payload secret timestamp nonce =
     (let signature = hmac secret (buildWebhookDataToSign payload timestamp nonce) in
      \<lparr>hr_signature = signature, hr_timestamp = timestamp, hr_nonce = nonce,
       headerValue = buildWebhookHeaderValue timestamp nonce signature\<rparr>)"

text \<open>A KMS signer: its answers, \<^const>\<open>None\<close> when the call throws.\<close>

record KmsWebhookSigner =
  signHmacSha256 :: "string \<Rightarrow> string option"
  verifyHmacSha256 :: "string \<Rightarrow> string \<Rightarrow> bool option"

datatype signing_error = Kms_failed | Secret_required | Primary_secret_required | New_secret_required

definition generateWebhookSignatureKms :: "string \<Rightarrow> KmsWebhookSigner \<Rightarrow> nat \<Rightarrow> string \<Rightarrow> signing_error + WebhookHeaderResult" where
  "generateWebhookSignatureKms payload kms timestamp nonce =
     (case signHmacSha256 kms (buildWebhookDataToSign payload timestamp nonce) of
        None \<Rightarrow> Inl Kms_failed
      | Some signature \<Rightarrow>
          Inr \<lparr>hr_signature = signature, hr_timestamp = timestamp, hr_nonce = nonce,
               headerValue = buildWebhookHeaderValue timestamp nonce signature\<rparr>)"

record SignWebhookPayloadOptions =
  so_secret :: "string option"
  so_timestamp :: "nat option"
  so_nonce :: "string option"
  so_kmsSigner :: "KmsWebhookSigner option"

definition option_else :: "'a option \<Rightarrow> 'a \<Rightarrow> 'a" where
  "option_else x d = (case x of Some a \<Rightarrow> a | None \<Rightarrow> d)"

definition either_of :: "'a option \<Rightarrow> 'a option \<Rightarrow> 'a option" where
  "either_of x y = (case x of Some a \<Rightarrow> Some a | None \<Rightarrow> y)"

text \<open>The clock, a generated nonce and the configured signer of the module are arguments.\<close>

definition signWebhookPayload ::
  "hmac_sha256 \<Rightarrow> nat \<Rightarrow> string \<Rightarrow> KmsWebhookSigner option \<Rightarrow> string \<Rightarrow> SignWebhookPayloadOptions \<Rightarrow> signing_error + WebhookHeaderResult" where
  "signWebhookPayload hmac now fresh configured payload opts =
     (let timestamp = option_else (so_timestamp opts) now;
          nonce = option_else (so_nonce opts) fresh in
      case either_of (so_kmsSigner opts) configured of
        Some kms \<Rightarrow> generateWebhookSignatureKms payload kms timestamp nonce
      | None \<Rightarrow>
          if option_else (so_secret opts) [] = [] then Inl Secret_required
          else Inr (generateWebhookSignature hmac payload (the (so_secret opts)) timestamp nonce))"

definition buildWebhookSignatureHeaders :: "hmac_sha256 \<Rightarrow> string \<Rightarrow> string \<Rightarrow> nat \<Rightarrow> string \<Rightarrow> (string \<times> string) list" where
  "buildWebhookSignatureHeaders hmac payload secret timestamp nonce =
     (let v = headerValue (generateWebhookSignature hmac payload secret timestamp nonce) in
      [(''X-Stellar-Alerts-Signature'', v), (''X-Stellar-Signature'', v)])"

section \<open>Verification\<close>

record VerifyWebhookOptions =
  toleranceMs :: "int option"
  vo_nonce :: "string option"
  secondaryHeaderValue :: "string option"
  checkReplay :: "bool option"
  vo_kmsSigner :: "KmsWebhookSigner option"

definition default_verify_options :: VerifyWebhookOptions where
  "default_verify_options = \<lparr>toleranceMs = None, vo_nonce = None, secondaryHeaderValue = None, checkReplay = None, vo_kmsSigner = None\<rparr>"

definition validatePayload :: "payload_value \<Rightarrow> string option" where
  "validatePayload payload =
     (if length (normalizePayload payload) > MAX_WEBHOOK_PAYLOAD_LENGTH then None else Some (normalizePayload payload))"

text \<open>\<open>parsed.nonce || nonceOverride || ''\<close>.\<close>

definition effective_nonce :: "ParsedWebhookHeader \<Rightarrow> string option \<Rightarrow> string" where
  "effective_nonce parsed override = (if ph_nonce parsed \<noteq> [] then ph_nonce parsed else option_else override [])"

definition drifted :: "int \<Rightarrow> int \<Rightarrow> ParsedWebhookHeader \<Rightarrow> bool" where
  "drifted now tol parsed = (\<bar>now - int (ph_timestamp parsed)\<bar> > tol)"

definition verifyParsedSignature ::
  "hmac_sha256 \<Rightarrow> int \<Rightarrow> string \<Rightarrow> ParsedWebhookHeader \<Rightarrow> string \<Rightarrow> int \<Rightarrow> string option \<Rightarrow> bool" where
  "verifyParsedSignature hmac now payload parsed secret tol override =
     (let nonce = effective_nonce parsed override in
      if drifted now tol parsed then False
      else if safeTimingSafeEqual (ph_signature parsed)
                (hr_signature (generateWebhookSignature hmac payload secret (ph_timestamp parsed) nonce)) then True
      else if ph_nonce parsed = [] \<and> option_else override [] = [] then
        safeTimingSafeEqual (ph_signature parsed)
          (hr_signature (generateWebhookSignature hmac payload secret (ph_timestamp parsed) []))
      else False)"

definition verifyParsedSignatureSet ::
  "hmac_sha256 \<Rightarrow> int \<Rightarrow> string \<Rightarrow> ParsedWebhookHeader \<Rightarrow> ParsedWebhookHeader option \<Rightarrow> string \<Rightarrow> int \<Rightarrow> string option
    \<Rightarrow> ParsedWebhookHeader option" where
  "verifyParsedSignatureSet hmac now payload primary secondary secret tol override =
     (if verifyParsedSignature hmac now payload primary secret tol override then Some primary
      else case secondary of
        Some p \<Rightarrow> if verifyParsedSignature hmac now payload p secret tol override then Some p else None
      | None \<Rightarrow> None)"

definition verifyParsedSignatureKms ::
  "int \<Rightarrow> string \<Rightarrow> ParsedWebhookHeader \<Rightarrow> KmsWebhookSigner \<Rightarrow> int \<Rightarrow> string option \<Rightarrow> bool option" where
  "verifyParsedSignatureKms now payload parsed kms tol override =
     (let nonce = effective_nonce parsed override in
      if drifted now tol parsed then Some False
      else case verifyHmacSha256 kms (buildWebhookDataToSign payload (ph_timestamp parsed) nonce) (ph_signature parsed) of
        None \<Rightarrow> None
      | Some True \<Rightarrow> Some True
      | Some False \<Rightarrow>
          if ph_nonce parsed = [] \<and> option_else override [] = [] then
            verifyHmacSha256 kms (buildWebhookDataToSign payload (ph_timestamp parsed) []) (ph_signature parsed)
          else Some False)"

definition verifyParsedSignatureSetKms ::
  "int \<Rightarrow> string \<Rightarrow> ParsedWebhookHeader \<Rightarrow> ParsedWebhookHeader option \<Rightarrow> KmsWebhookSigner \<Rightarrow> int \<Rightarrow> string option
    \<Rightarrow> ParsedWebhookHeader option option" where
  "verifyParsedSignatureSetKms now payload primary secondary kms tol override =
     (case verifyParsedSignatureKms now payload primary kms tol override of
        None \<Rightarrow> None
      | Some True \<Rightarrow> Some (Some primary)
      | Some False \<Rightarrow>
          (case secondary of
             None \<Rightarrow> Some None
           | Some p \<Rightarrow>
               (case verifyParsedSignatureKms now payload p kms tol override of
                  None \<Rightarrow> None
                | Some b \<Rightarrow> Some (if b then Some p else None))))"

definition parse_secondary :: "string option \<Rightarrow> ParsedWebhookHeader option" where
  "parse_secondary h =
     (if option_else h [] = [] then None
      else case parseWebhookSignatureHeader (H_string (the h)) of Inr p \<Rightarrow> Some p | Inl _ \<Rightarrow> None)"

datatype verification_error = Payload_too_long | Invalid_secret | Header_error header_error | Invalid_signature

record WebhookVerificationResult =
  vr_status :: nat
  valid :: bool
  vr_error :: "verification_error option"

text \<open>A secret that is no string is \<^const>\<open>None\<close>.\<close>

definition evaluateWebhookVerification ::
  "hmac_sha256 \<Rightarrow> int \<Rightarrow> payload_value \<Rightarrow> header_value \<Rightarrow> string option \<Rightarrow> VerifyWebhookOptions \<Rightarrow> WebhookVerificationResult" where
  "evaluateWebhookVerification hmac now payload hv secret opts =
     (case validatePayload payload of
        None \<Rightarrow> \<lparr>vr_status = 400, valid = False, vr_error = Some Payload_too_long\<rparr>
      | Some pl \<Rightarrow>
          if option_else secret [] = [] then \<lparr>vr_status = 400, valid = False, vr_error = Some Invalid_secret\<rparr>
          else case parseWebhookSignatureHeader hv of
            Inl e \<Rightarrow> \<lparr>vr_status = 400, valid = False, vr_error = Some (Header_error e)\<rparr>
          | Inr parsed \<Rightarrow>
              (case verifyParsedSignatureSet hmac now pl parsed (parse_secondary (secondaryHeaderValue opts)) (the secret)
                      (option_else (toleranceMs opts) DEFAULT_DRIFT_TOLERANCE_MS) (vo_nonce opts) of
                 None \<Rightarrow> \<lparr>vr_status = 401, valid = False, vr_error = Some Invalid_signature\<rparr>
               | Some _ \<Rightarrow> \<lparr>vr_status = 200, valid = True, vr_error = None\<rparr>))"

text \<open>\<open>Math.max(1, Math.ceil(toleranceMs / 1000))\<close>.\<close>

definition replay_ttl :: "int \<Rightarrow> int" where
  "replay_ttl tol = max 1 (- ((- tol) div 1000))"

definition verified_header ::
  "hmac_sha256 \<Rightarrow> KmsWebhookSigner option \<Rightarrow> int \<Rightarrow> string \<Rightarrow> header_value \<Rightarrow> string \<Rightarrow> VerifyWebhookOptions \<Rightarrow> ParsedWebhookHeader option" where
  "verified_header hmac configured now payload hv secret opts =
     (let tol = option_else (toleranceMs opts) DEFAULT_DRIFT_TOLERANCE_MS in
      case validatePayload (P_string payload) of
        None \<Rightarrow> None
      | Some pl \<Rightarrow>
          (case parseWebhookSignatureHeader hv of
             Inl e \<Rightarrow> None
           | Inr parsed \<Rightarrow>
               (let secondary = parse_secondary (secondaryHeaderValue opts) in
                case verifyParsedSignatureSet hmac now pl parsed secondary secret tol (vo_nonce opts) of
                  Some p \<Rightarrow> Some p
                | None \<Rightarrow>
                    (case either_of (vo_kmsSigner opts) configured of
                       None \<Rightarrow> None
                     | Some kms \<Rightarrow> option_else (verifyParsedSignatureSetKms now pl parsed secondary kms tol (vo_nonce opts)) None))))"

definition verifyWebhookSignature ::
  "'r timed_redis \<Rightarrow> hmac_sha256 \<Rightarrow> KmsWebhookSigner option \<Rightarrow> bool \<Rightarrow> int \<Rightarrow> string \<Rightarrow> header_value \<Rightarrow> string \<Rightarrow> VerifyWebhookOptions
    \<Rightarrow> 'r nonce_state \<Rightarrow> 'r nonce_state \<times> bool" where
  "verifyWebhookSignature c hmac configured up now payload hv secret opts st =
     (case verified_header hmac configured now payload hv secret opts of
        None \<Rightarrow> (st, False)
      | Some p \<Rightarrow>
          (let nonce = effective_nonce p (vo_nonce opts);
               tol = option_else (toleranceMs opts) DEFAULT_DRIFT_TOLERANCE_MS in
           if nonce \<noteq> [] \<and> option_else (checkReplay opts) True
           then checkAndStoreNonce c up now nonce (replay_ttl tol) st
           else (st, True)))"

definition verifyWebhookSignatureSync ::
  "hmac_sha256 \<Rightarrow> int \<Rightarrow> string \<Rightarrow> header_value \<Rightarrow> string \<Rightarrow> int \<Rightarrow> string option \<Rightarrow> string option \<Rightarrow> bool" where
  "verifyWebhookSignatureSync hmac now payload hv secret tol override secondaryValue =
     (case validatePayload (P_string payload) of
        None \<Rightarrow> False
      | Some pl \<Rightarrow>
          (case parseWebhookSignatureHeader hv of
             Inl _ \<Rightarrow> False
           | Inr parsed \<Rightarrow>
               verifyParsedSignatureSet hmac now pl parsed (parse_secondary secondaryValue) secret tol override \<noteq> None))"

section \<open>Rotation of secrets\<close>

record KeyRotationManager =
  primarySecret :: string
  secondarySecret :: "string option"
  rotatedAt :: "int option"
  gracePeriodMs :: int

definition newKeyRotationManager :: "string \<Rightarrow> int option \<Rightarrow> signing_error + KeyRotationManager" where
  "newKeyRotationManager secret grace =
     (if secret = [] then Inl Primary_secret_required
      else Inr \<lparr>primarySecret = secret, secondarySecret = None, rotatedAt = None,
                gracePeriodMs = option_else grace DEFAULT_KEY_ROTATION_GRACE_PERIOD_MS\<rparr>)"

definition rotateSecret :: "int \<Rightarrow> KeyRotationManager \<Rightarrow> string \<Rightarrow> signing_error + KeyRotationManager" where
  "rotateSecret now m newSecret =
     (if newSecret = [] then Inl New_secret_required
      else if newSecret = primarySecret m then Inr m
      else Inr (m\<lparr>secondarySecret := Some (primarySecret m), primarySecret := newSecret, rotatedAt := Some now\<rparr>))"

definition getSecondarySecret :: "int \<Rightarrow> KeyRotationManager \<Rightarrow> string option" where
  "getSecondarySecret now m =
     (case (secondarySecret m, rotatedAt m) of
        (Some sec, Some at) \<Rightarrow> if now - at \<le> gracePeriodMs m then Some sec else None
      | _ \<Rightarrow> None)"

record KeyRotationSignResult = WebhookHeaderResult +
  secondarySignature :: "string option"
  kr_secondaryHeaderValue :: "string option"

definition sign :: "hmac_sha256 \<Rightarrow> int \<Rightarrow> KeyRotationManager \<Rightarrow> string \<Rightarrow> nat \<Rightarrow> string \<Rightarrow> KeyRotationSignResult" where
  "sign hmac now m payload timestamp nonce =
     (let primary = generateWebhookSignature hmac payload (primarySecret m) timestamp nonce;
          secondary = (case getSecondarySecret now m of
                         Some sec \<Rightarrow> if sec \<noteq> [] then Some (generateWebhookSignature hmac payload sec timestamp nonce) else None
                       | None \<Rightarrow> None) in
      \<lparr>hr_signature = hr_signature primary, hr_timestamp = hr_timestamp primary, hr_nonce = hr_nonce primary,
       headerValue = headerValue primary, secondarySignature = map_option hr_signature secondary,
       kr_secondaryHeaderValue = map_option headerValue secondary\<rparr>)"

definition SECONDARY_SIGNATURE_HEADER :: string where "SECONDARY_SIGNATURE_HEADER = ''X-Signature-Secondary''"

definition signHeaders :: "hmac_sha256 \<Rightarrow> int \<Rightarrow> KeyRotationManager \<Rightarrow> string \<Rightarrow> nat \<Rightarrow> string \<Rightarrow> (string \<times> string) list" where
  "signHeaders hmac now m payload timestamp nonce =
     (let signed = sign hmac now m payload timestamp nonce in
      (''X-Stellar-Signature'', headerValue signed) #
      (case kr_secondaryHeaderValue signed of
         Some v \<Rightarrow> if v \<noteq> [] then [(SECONDARY_SIGNATURE_HEADER, v)] else []
       | None \<Rightarrow> []))"

section \<open>KMS settings\<close>

record KmsWebhookSigningEnv =
  ke_enabled :: bool
  ke_provider :: "string option"
  ke_primaryKeyId :: "string option"
  ke_previousKeyIds :: "string list"

definition parseKmsWebhookSigningEnv :: "(string \<Rightarrow> string option) \<Rightarrow> KmsWebhookSigningEnv" where
  "parseKmsWebhookSigningEnv env =
     \<lparr>ke_enabled = (env ''KMS_WEBHOOK_SIGNING_ENABLED'' = Some ''true''),
      ke_provider = env ''KMS_PROVIDER'',
      ke_primaryKeyId = env ''KMS_PRIMARY_KEY_ID'',
      ke_previousKeyIds =
        (if option_else (env ''KMS_PREVIOUS_KEY_IDS'') [] \<noteq> []
         then filter (\<lambda>k. k \<noteq> []) (map trim (split_on CHR '','' (the (env ''KMS_PREVIOUS_KEY_IDS'')))) else [])\<rparr>"

text \<open>The new configured signer; creating a signer from its settings is a parameter.\<close>

definition configureKmsWebhookSigner ::
  "(string \<Rightarrow> string \<Rightarrow> string list \<Rightarrow> KmsWebhookSigner) \<Rightarrow> (string \<Rightarrow> string option) \<Rightarrow> KmsWebhookSigner option" where
  "configureKmsWebhookSigner create env =
     (let k = parseKmsWebhookSigningEnv env in
      if \<not> ke_enabled k \<or> option_else (ke_provider k) [] = [] \<or> option_else (ke_primaryKeyId k) [] = [] then None
      else Some (create (the (ke_provider k)) (the (ke_primaryKeyId k)) (ke_previousKeyIds k)))"

section \<open>Correctness of the header\<close>

lemma str_includes_prefix: "str_includes (p @ s) p"
  by (cases "p @ s") (simp_all add: startsWith_def, metis append_eq_conv_conj)

lemma str_includes_middle: "str_includes (a @ p @ b) p"
  by (induction a) (auto simp: str_includes_prefix)

definition plain :: "string \<Rightarrow> bool" where
  "plain s = list_all (\<lambda>c. c \<noteq> CHR '','' \<and> \<not> is_space c \<and> \<not> control_char c) s"

text \<open>What a nonce has to satisfy to travel in the header: a UUID does.\<close>

definition nonce_ok :: "string \<Rightarrow> bool" where
  "nonce_ok n = (length n \<le> MAX_NONCE_LENGTH \<and> plain n)"

definition timestamp_ok :: "nat \<Rightarrow> bool" where
  "timestamp_ok t = (0 < t \<and> t \<le> MAX_SAFE_INTEGER)"

lemma plain_chars:
  assumes "is_hex c" shows "\<not> is_space c" "\<not> control_char c" "c \<noteq> CHR '',''"
  using assms by (auto simp: is_hex_def is_digit_def is_space_def control_char_def)

lemma digit_is_hex: "is_digit c \<Longrightarrow> is_hex c"
  by (simp add: is_hex_def)

lemma nat_str_hex: "list_all is_hex (nat_str n)"
  using nat_str_digits digit_is_hex by (auto simp: list_all_iff)

lemma nat_str_safe_length: "timestamp_ok t \<Longrightarrow> length (nat_str t) \<le> 16"
  by (rule nat_str_length) (auto simp: timestamp_ok_def MAX_SAFE_INTEGER_def)

lemma plain_hex: "list_all is_hex s \<Longrightarrow> plain s"
  using plain_chars by (auto simp: plain_def list_all_iff)

lemma plain_simps [simp]:
  "plain (s @ t) \<longleftrightarrow> plain s \<and> plain t" "plain ''t=''" "plain ''n=''" "plain ''v1=''" "plain []"
  by (auto simp: plain_def is_space_def control_char_def)

lemma plain_trim: "plain s \<Longrightarrow> trim s = s"
  by (rule trim_id) (auto simp: plain_def list_all_iff)

lemma plain_control: "plain s \<Longrightarrow> \<not> CONTROL_CHAR_REGEX s"
  by (auto simp: plain_def CONTROL_CHAR_REGEX_def list_all_iff list_ex_iff)

lemma plain_comma: "plain s \<Longrightarrow> CHR '','' \<notin> set s"
  by (auto simp: plain_def list_all_iff)

lemma startsWith_append [simp]: "startsWith (p @ s) p"
  by (simp add: startsWith_def)

lemma field_prefixes [simp]:
  "startsWith (''t='' @ s) ''t=''" "\<not> startsWith (''n='' @ s) ''t=''" "startsWith (''n='' @ s) ''n=''"
  "\<not> startsWith (''v1='' @ s) ''t=''" "\<not> startsWith (''v1='' @ s) ''n=''" "startsWith (''v1='' @ s) ''v1=''"
  by (simp_all add: startsWith_def)

lemma parse_parts_built:
  assumes "plain ts" "plain n" "plain sg"
  shows "parse_parts None None None [''t='' @ ts, ''n='' @ n, ''v1='' @ sg] = Inr (Some (''t='' @ ts), Some (''n='' @ n), Some (''v1='' @ sg))"
    and "parse_parts None None None [''t='' @ ts, ''v1='' @ sg] = Inr (Some (''t='' @ ts), None, Some (''v1='' @ sg))"
proof -
  have "trim (''t='' @ ts) = ''t='' @ ts" "trim (''n='' @ n) = ''n='' @ n" "trim (''v1='' @ sg) = ''v1='' @ sg"
    using assms by (intro plain_trim; simp del: append.simps)+
  then show "parse_parts None None None [''t='' @ ts, ''n='' @ n, ''v1='' @ sg] = Inr (Some (''t='' @ ts), Some (''n='' @ n), Some (''v1='' @ sg))"
    and "parse_parts None None None [''t='' @ ts, ''v1='' @ sg] = Inr (Some (''t='' @ ts), None, Some (''v1='' @ sg))"
    by (simp_all add: Let_def del: append.simps)
qed

lemma split_built:
  assumes "plain ts" "plain n" "plain sg"
  shows "split_on CHR '','' (''t='' @ ts @ '',n='' @ n @ '',v1='' @ sg) = [''t='' @ ts, ''n='' @ n, ''v1='' @ sg]"
    and "split_on CHR '','' (''t='' @ ts @ '',v1='' @ sg) = [''t='' @ ts, ''v1='' @ sg]"
proof -
  have c: "CHR '','' \<notin> set (''t='' @ ts)" "CHR '','' \<notin> set (''n='' @ n)" "CHR '','' \<notin> set (''v1='' @ sg)"
    using assms by (intro plain_comma; simp del: append.simps)+
  show "split_on CHR '','' (''t='' @ ts @ '',n='' @ n @ '',v1='' @ sg) = [''t='' @ ts, ''n='' @ n, ''v1='' @ sg]"
    using split_on_first [OF c(1), of "(''n='' @ n) @ CHR '','' # (''v1='' @ sg)"]
      split_on_first [OF c(2), of "''v1='' @ sg"] split_on_absent [OF c(3)] by simp
  show "split_on CHR '','' (''t='' @ ts @ '',v1='' @ sg) = [''t='' @ ts, ''v1='' @ sg]"
    using split_on_first [OF c(1), of "''v1='' @ sg"] split_on_absent [OF c(3)] by simp
qed

text \<open>The fields of a header that can be built and parsed back.\<close>

definition header_ok :: "nat \<times> string \<times> string \<Rightarrow> bool" where
  "header_ok h = (case h of (ts, n, sg) \<Rightarrow> timestamp_ok ts \<and> nonce_ok n \<and> SIGNATURE_HEX_REGEX sg)"

lemma parse_fields_built:
  assumes "header_ok (ts, n, sg)"
  shows "parse_fields (Some (''t='' @ nat_str ts)) (if n = [] then None else Some (''n='' @ n)) (Some (''v1='' @ sg))
    = Inr \<lparr>ph_timestamp = ts, ph_nonce = n, ph_signature = sg\<rparr>"
  using assms nat_str_digits plain_control
  by (auto simp: parse_fields_def header_ok_def timestamp_ok_def nonce_ok_def Let_def list_all_iff)

lemma parse_built:
  assumes "header_ok (ts, n, sg)"
  shows "parseWebhookSignatureHeader (H_string (buildWebhookHeaderValue ts n sg))
    = Inr \<lparr>ph_timestamp = ts, ph_nonce = n, ph_signature = sg\<rparr>"
proof -
  let ?h = "buildWebhookHeaderValue ts n sg" and ?t = "nat_str ts"
  have pl: "plain ?t" "plain n" "plain sg" and len: "length ?t \<le> 16" "length n \<le> 128" "length sg = 64"
    using assms nat_str_hex [of ts] nat_str_safe_length [of ts]
    by (auto simp: header_ok_def nonce_ok_def SIGNATURE_HEX_REGEX_def MAX_NONCE_LENGTH_def intro: plain_hex)
  have ctl: "\<not> CONTROL_CHAR_REGEX ?h"
    using plain_control [OF pl(1)] plain_control [OF pl(2)] plain_control [OF pl(3)]
    by (auto simp: buildWebhookHeaderValue_def CONTROL_CHAR_REGEX_def control_char_def)
  have inc: "str_includes ?h ''t=''" "str_includes ?h ''v1=''"
    using str_includes_middle [of "[]" "''t=''"] str_includes_middle [of "''t='' @ ?t @ '',n='' @ n @ '',''" "''v1=''" sg]
      str_includes_middle [of "''t='' @ ?t @ '',''" "''v1=''" sg]
    by (simp_all add: buildWebhookHeaderValue_def)
  have size: "0 < length ?h" "length ?h \<le> MAX_WEBHOOK_HEADER_LENGTH"
    using len by (simp_all add: buildWebhookHeaderValue_def MAX_WEBHOOK_HEADER_LENGTH_def)
  have parts: "split_on CHR '','' ?h = (if n = [] then [''t='' @ ?t, ''v1='' @ sg] else [''t='' @ ?t, ''n='' @ n, ''v1='' @ sg])"
    using split_built [OF pl] by (simp add: buildWebhookHeaderValue_def)
  show ?thesis
    using size ctl inc parts parse_parts_built [OF pl] parse_fields_built [OF assms]
    by (cases "n = []") (simp_all add: Let_def)
qed

declare parseWebhookSignatureHeader.simps(3) [simp del]

definition header_enc :: "nat \<times> string \<times> string \<Rightarrow> string" where
  "header_enc h = (case h of (ts, n, sg) \<Rightarrow> buildWebhookHeaderValue ts n sg)"

definition header_dec :: "string \<Rightarrow> (nat \<times> string \<times> string) option" where
  "header_dec s = (case parseWebhookSignatureHeader (H_string s) of
     Inr p \<Rightarrow> Some (ph_timestamp p, ph_nonce p, ph_signature p) | Inl _ \<Rightarrow> None)"

interpretation signature_header: codec header_enc header_dec header_ok
  by unfold_locales (auto simp: header_enc_def header_dec_def parse_built)

section \<open>Correctness of verification\<close>

lemma safeTimingSafeEqual_iff [simp]: "safeTimingSafeEqual l r \<longleftrightarrow> l = r"
  by (auto simp: safeTimingSafeEqual_def)

lemma verifyParsedSignature_iff:
  "verifyParsedSignature hmac now payload p secret tol override \<longleftrightarrow>
     \<bar>now - int (ph_timestamp p)\<bar> \<le> tol
     \<and> ph_signature p = hmac secret (buildWebhookDataToSign payload (ph_timestamp p) (effective_nonce p override))"
  by (auto simp: verifyParsedSignature_def drifted_def generateWebhookSignature_def effective_nonce_def Let_def)

lemma verifyParsedSignatureSet_iff:
  "(\<exists>q. verifyParsedSignatureSet hmac now payload p secondary secret tol override = Some q) \<longleftrightarrow>
     (\<exists>q. (q = p \<or> secondary = Some q) \<and> verifyParsedSignature hmac now payload q secret tol override)"
  by (auto simp: verifyParsedSignatureSet_def split: option.splits)

lemma case_status_200:
  "vr_status (case x of None \<Rightarrow> \<lparr>vr_status = 401, valid = False, vr_error = e\<rparr> | Some q \<Rightarrow> \<lparr>vr_status = 200, valid = True, vr_error = e'\<rparr>)
     = 200 \<longleftrightarrow> (\<exists>q. x = Some q)"
  by (cases x) simp_all

lemma status_200_iff:
  "vr_status (evaluateWebhookVerification hmac now payload hv secret opts) = 200 \<longleftrightarrow>
     (\<exists>pl sec p q. validatePayload payload = Some pl \<and> secret = Some sec \<and> sec \<noteq> []
        \<and> parseWebhookSignatureHeader hv = Inr p \<and> (q = p \<or> parse_secondary (secondaryHeaderValue opts) = Some q)
        \<and> verifyParsedSignature hmac now pl q sec (option_else (toleranceMs opts) DEFAULT_DRIFT_TOLERANCE_MS) (vo_nonce opts))"
  by (cases "validatePayload payload"; cases secret; cases "parseWebhookSignatureHeader hv")
    (simp_all add: evaluateWebhookVerification_def option_else_def [of _ "[]"] case_status_200 verifyParsedSignatureSet_iff)


text \<open>The digest is 64 hexadecimal characters.\<close>

definition hmac_shape :: "hmac_sha256 \<Rightarrow> bool" where
  "hmac_shape hmac = (\<forall>secret d. SIGNATURE_HEX_REGEX (hmac secret d))"

lemma generated_parses:
  assumes "hmac_shape hmac" "timestamp_ok ts" "nonce_ok n"
  shows "parseWebhookSignatureHeader (H_string (headerValue (generateWebhookSignature hmac payload secret ts n)))
    = Inr \<lparr>ph_timestamp = ts, ph_nonce = n, ph_signature = hmac secret (buildWebhookDataToSign payload ts n)\<rparr>"
  using assms by (simp add: generateWebhookSignature_def Let_def parse_built header_ok_def hmac_shape_def)

lemma verify_generated:
  "\<bar>now - int ts\<bar> \<le> tol \<Longrightarrow> verifyParsedSignature hmac now payload
     \<lparr>ph_timestamp = ts, ph_nonce = n, ph_signature = hmac secret (buildWebhookDataToSign payload ts n)\<rparr> secret tol None"
  by (simp add: verifyParsedSignature_iff effective_nonce_def option_else_def)

lemma accepted_I:
  assumes "validatePayload payload = Some pl" "sec \<noteq> []" "parseWebhookSignatureHeader hv = Inr p"
    "q = p \<or> parse_secondary (secondaryHeaderValue opts) = Some q" "toleranceMs opts = Some tol"
    "verifyParsedSignature hmac now pl q sec tol (vo_nonce opts)"
  shows "vr_status (evaluateWebhookVerification hmac now payload hv (Some sec) opts) = 200"
  unfolding status_200_iff using assms by (auto simp: option_else_def)

lemma generated_header_nonempty: "headerValue (generateWebhookSignature hmac payload secret ts n) \<noteq> []"
  by (simp add: generateWebhookSignature_def buildWebhookHeaderValue_def Let_def)

text \<open>Every signed webhook is accepted: with a nonce and a timestamp that the header can carry, the header that
  signing produces is accepted for the same payload and secret while the clock is within the tolerance.\<close>

theorem signed_webhook_is_accepted:
  assumes "hmac_shape hmac" "timestamp_ok ts" "nonce_ok n" "secret \<noteq> []"
    "length payload \<le> MAX_WEBHOOK_PAYLOAD_LENGTH" "\<bar>now - int ts\<bar> \<le> tol"
  shows "vr_status (evaluateWebhookVerification hmac now (P_string payload)
      (H_string (headerValue (generateWebhookSignature hmac payload secret ts n))) (Some secret)
      (default_verify_options\<lparr>toleranceMs := Some tol\<rparr>)) = 200"
  by (rule accepted_I) (use assms in \<open>auto simp: validatePayload_def default_verify_options_def generated_parses verify_generated\<close>)

definition sample_hmac :: hmac_sha256 where
  "sample_hmac secret d = replicate 64 (if secret = ''s1'' then CHR ''a'' else CHR ''0'')"

lemma sample_hmac_shape: "hmac_shape sample_hmac"
  by (simp add: hmac_shape_def sample_hmac_def SIGNATURE_HEX_REGEX_def list_all_iff is_hex_def is_digit_def)

theorem signed_webhook_is_accepted_witness:
  "vr_status (evaluateWebhookVerification sample_hmac 1700000005000 (P_string ''{}'')
      (H_string (headerValue (generateWebhookSignature sample_hmac ''{}'' ''s1'' 1700000000000 ''n-1''))) (Some ''s1'')
      (default_verify_options\<lparr>toleranceMs := Some 300000\<rparr>)) = 200"
  by (rule signed_webhook_is_accepted [OF sample_hmac_shape])
    (simp_all add: timestamp_ok_def nonce_ok_def plain_def MAX_SAFE_INTEGER_def MAX_NONCE_LENGTH_def MAX_WEBHOOK_PAYLOAD_LENGTH_def
      is_space_def control_char_def)

section \<open>What a signature authenticates\<close>

lemma nat_str_no_dot: "CHR ''.'' \<notin> set (nat_str n)"
  using nat_str_digits [of "CHR ''.''" n] by (auto simp: is_digit_def)

lemma nat_str_inject [simp]: "nat_str m = nat_str n \<longleftrightarrow> m = n"
  by (metis dec_val_nat_str)

lemma first_dot:
  "a @ CHR ''.'' # x = b @ CHR ''.'' # y \<Longrightarrow> CHR ''.'' \<notin> set a \<Longrightarrow> CHR ''.'' \<notin> set b \<Longrightarrow> a = b \<and> x = y"
  by (induction a arbitrary: b) (auto simp: Cons_eq_append_conv split: list.splits)

lemma data_inject:
  assumes "n \<noteq> []" "n' \<noteq> []" "CHR ''.'' \<notin> set n" "CHR ''.'' \<notin> set n'"
    "buildWebhookDataToSign p t n = buildWebhookDataToSign p' t' n'"
  shows "t = t' \<and> n = n' \<and> p = p'"
proof -
  have "nat_str t @ CHR ''.'' # (n @ CHR ''.'' # p) = nat_str t' @ CHR ''.'' # (n' @ CHR ''.'' # p')"
    using assms by (simp add: buildWebhookDataToSign_def)
  then have "nat_str t = nat_str t' \<and> n @ CHR ''.'' # p = n' @ CHR ''.'' # p'"
    by (rule first_dot) (rule nat_str_no_dot)+
  then show ?thesis using first_dot [of n p n' p'] assms(3,4) nat_str_inject by auto
qed


definition sample_header :: string where
  "sample_header = headerValue (generateWebhookSignature sample_hmac ''{}'' ''s1'' 1700000000000 ''n-1'')"

lemma sample_parsed:
  "parseWebhookSignatureHeader (H_string sample_header)
     = Inr \<lparr>ph_timestamp = 1700000000000, ph_nonce = ''n-1'', ph_signature = replicate 64 CHR ''a''\<rparr>"
  unfolding sample_header_def
  by (subst generated_parses [OF sample_hmac_shape])
    (simp_all add: timestamp_ok_def nonce_ok_def plain_def MAX_SAFE_INTEGER_def MAX_NONCE_LENGTH_def is_space_def control_char_def sample_hmac_def)


text \<open>The separators of the signed data are not protected: the signature of a webhook with a nonce is also
  valid for a header without nonce and the payload that starts with the nonce and a dot. No nonce is
  checked for such a request.\<close>

lemma nonce_moves_into_payload:
  assumes "hmac_shape hmac" "timestamp_ok ts" "n \<noteq> []" "secret \<noteq> []"
    "length n + 1 + length payload \<le> MAX_WEBHOOK_PAYLOAD_LENGTH" "\<bar>now - int ts\<bar> \<le> tol"
  shows "verifyWebhookSignature c hmac configured up now (n @ ''.'' @ payload)
      (H_string (buildWebhookHeaderValue ts [] (hr_signature (generateWebhookSignature hmac payload secret ts n))))
      secret (default_verify_options\<lparr>toleranceMs := Some tol\<rparr>) st = (st, True)"
proof -
  let ?sg = "hmac secret (buildWebhookDataToSign payload ts n)"
  have d: "buildWebhookDataToSign (n @ ''.'' @ payload) ts [] = buildWebhookDataToSign payload ts n"
    using assms(3) by (simp add: buildWebhookDataToSign_def)
  have "header_ok (ts, [], ?sg)" using assms(1,2) by (simp add: header_ok_def hmac_shape_def nonce_ok_def)
  then have "parseWebhookSignatureHeader (H_string (buildWebhookHeaderValue ts [] ?sg))
      = Inr \<lparr>ph_timestamp = ts, ph_nonce = [], ph_signature = ?sg\<rparr>" by (rule parse_built)
  then show ?thesis using assms d
    by (simp add: verifyWebhookSignature_def verified_header_def validatePayload_def verifyParsedSignatureSet_def
        verifyParsedSignature_iff effective_nonce_def option_else_def default_verify_options_def generateWebhookSignature_def Let_def)
qed

section \<open>Replay\<close>

text \<open>Requests to one receiver: payload, header and secret. The outcome is the nonce that was consumed.\<close>

type_synonym webhook_request = "string \<times> header_value \<times> string"

definition verify_step ::
  "'r timed_redis \<Rightarrow> hmac_sha256 \<Rightarrow> KmsWebhookSigner option \<Rightarrow> bool \<Rightarrow> VerifyWebhookOptions \<Rightarrow> int \<Rightarrow> 'r nonce_state \<Rightarrow> webhook_request
    \<Rightarrow> 'r nonce_state \<times> string option" where
  "verify_step c hmac configured up opts now st r =
     (case r of (payload, hv, secret) \<Rightarrow>
        (let (st', ok) = verifyWebhookSignature c hmac configured up now payload hv secret opts st;
             nonce = (case verified_header hmac configured now payload hv secret opts of
                        Some p \<Rightarrow> effective_nonce p (vo_nonce opts) | None \<Rightarrow> []) in
         (st', if ok \<and> nonce \<noteq> [] then Some nonce else None)))"

lemma verify_step_cases:
  assumes "option_else (checkReplay opts) True"
  obtains "verify_step c hmac configured up opts now st r = (st, None)"
  | n where "n \<noteq> []" "verify_step c hmac configured up opts now st r =
      (let (st', ok) = checkAndStoreNonce c up now n (replay_ttl (option_else (toleranceMs opts) DEFAULT_DRIFT_TOLERANCE_MS)) st
       in (st', if ok then Some n else None))"
proof -
  obtain payload hv secret where r: "r = (payload, hv, secret)" by (cases r)
  show thesis
  proof (cases "\<exists>p. verified_header hmac configured now payload hv secret opts = Some p \<and> effective_nonce p (vo_nonce opts) \<noteq> []")
    case True
    then obtain p where p: "verified_header hmac configured now payload hv secret opts = Some p" "effective_nonce p (vo_nonce opts) \<noteq> []"
      by blast
    show thesis by (rule that(2) [of "effective_nonce p (vo_nonce opts)"])
        (use assms p r in \<open>simp_all add: verify_step_def verifyWebhookSignature_def Let_def case_prod_beta\<close>)
  next
    case False
    show thesis by (rule that(1))
        (use False r in \<open>auto simp: verify_step_def verifyWebhookSignature_def Let_def split: option.splits\<close>)
  qed
qed

lemma verify_step_book:
  assumes "up \<longrightarrow> redis_contract c" "option_else (checkReplay opts) True"
  shows "nonce_book (verify_step c hmac configured up opts) (nonce_held c up)
    (replay_ttl (option_else (toleranceMs opts) DEFAULT_DRIFT_TOLERANCE_MS) * 1000)"
proof unfold_locales
  fix s n t u t' e
  assume h: "nonce_held c up s n t u" and t: "0 \<le> t'" "t \<le> t'"
  have later: "nonce_held c up s n t' u" using h t by (simp add: nonce_held_def)
  show "t' < u \<Longrightarrow> snd (verify_step c hmac configured up opts t' s e) \<noteq> Some n"
    by (rule verify_step_cases [OF assms(2), of c hmac configured up t' s e])
      (use held_refused [OF assms(1) h t] in \<open>auto simp: case_prod_beta Let_def\<close>)
  show "nonce_held c up (fst (verify_step c hmac configured up opts t' s e)) n t' u"
    by (rule verify_step_cases [OF assms(2), of c hmac configured up t' s e])
      (use later held_kept [OF assms(1) h t] in \<open>simp_all add: case_prod_beta Let_def\<close>)
next
  fix t s e n
  assume a: "snd (verify_step c hmac configured up opts t s e) = Some n"
  show "nonce_held c up (fst (verify_step c hmac configured up opts t s e)) n t
      (t + replay_ttl (option_else (toleranceMs opts) DEFAULT_DRIFT_TOLERANCE_MS) * 1000)"
    by (rule verify_step_cases [OF assms(2), of c hmac configured up t s e])
      (use a held_accepted [OF assms(1)] in \<open>simp_all add: case_prod_beta Let_def split: if_splits\<close>)
qed

interpretation webhook_replays: nonce_book "verify_step mem_redis hmac configured True default_verify_options" "nonce_held mem_redis True"
    "replay_ttl DEFAULT_DRIFT_TOLERANCE_MS * 1000" for hmac configured
  using verify_step_book [of True mem_redis default_verify_options] mem_redis_contract
  by (simp add: default_verify_options_def option_else_def)

text \<open>A nonce is not accepted again before its time to live has passed: in a run of requests at non-decreasing
  times, with Redis available for all of them or for none, two requests accepted with the same nonce are
  at least the tolerance, rounded up to whole seconds, apart.\<close>

theorem accepted_nonces_are_apart:
  assumes "up \<longrightarrow> redis_contract c" "option_else (checkReplay opts) True" "sorted (map fst rs)" "\<forall>p \<in> set rs. 0 \<le> fst p"
    "i < j" "j < length rs"
    "book_run (verify_step c hmac configured up opts) st rs ! i = (t, Some n)"
    "book_run (verify_step c hmac configured up opts) st rs ! j = (t', Some n)"
  shows "t + replay_ttl (option_else (toleranceMs opts) DEFAULT_DRIFT_TOLERANCE_MS) * 1000 \<le> t'"
  using nonce_book.accepted_apart [OF verify_step_book [OF assms(1,2)] assms(3-8)] .

definition sample_nonces :: "MemoryFallbackCache nonce_state" where
  "sample_nonces = \<lparr>server = newMemoryFallbackCache, degradedNonceStore = []\<rparr>"

definition sample_request :: webhook_request where
  "sample_request = (''{}'', H_string sample_header, ''s1'')"

lemma sample_verified:
  "\<bar>t - 1700000000000\<bar> \<le> 300000 \<Longrightarrow> verified_header sample_hmac None t ''{}'' (H_string sample_header) ''s1''
     \<lparr>toleranceMs = None, vo_nonce = None, secondaryHeaderValue = None, checkReplay = None, vo_kmsSigner = None\<rparr> =
     Some \<lparr>ph_timestamp = 1700000000000, ph_nonce = ''n-1'', ph_signature = replicate 64 CHR ''a''\<rparr>"
  by (simp add: verified_header_def sample_parsed validatePayload_def MAX_WEBHOOK_PAYLOAD_LENGTH_def verifyParsedSignatureSet_def
      verifyParsedSignature_iff sample_hmac_def option_else_def DEFAULT_DRIFT_TOLERANCE_MS_def Let_def)

text \<open>The time to live is the tolerance, but requests are accepted during twice the tolerance: one that is
  dated in the future is accepted, and accepted once more after its nonce has expired.\<close>

lemma future_request_is_replayed:
  "book_run (verify_step mem_redis sample_hmac None True default_verify_options) sample_nonces
     [(1699999800000, sample_request), (1700000000000, sample_request), (1700000200000, sample_request)]
   = [(1699999800000, Some ''n-1''), (1700000000000, None), (1700000200000, Some ''n-1'')]"
  by (simp add: verify_step_def verifyWebhookSignature_def sample_request_def sample_verified effective_nonce_def default_verify_options_def
      option_else_def checkAndStoreNonce_def mem_redis_def mem_try_set_alt mem_set_def mem_get_def expired_def Let_def sample_nonces_def replay_ttl_def
      DEFAULT_DRIFT_TOLERANCE_MS_def truthy_int_def mem_lookup_alt newMemoryFallbackCache_def)

theorem accepted_nonces_are_apart_witness:
  "map snd (book_run (verify_step mem_redis sample_hmac None True default_verify_options) sample_nonces
     [(1699999800000, sample_request), (1700000000000, sample_request), (1700000200000, sample_request)])
     = [Some ''n-1'', None, Some ''n-1'']
   \<and> (1699999800000 :: int) + replay_ttl DEFAULT_DRIFT_TOLERANCE_MS * 1000 \<le> 1700000200000"
  using accepted_nonces_are_apart [of True mem_redis default_verify_options
      "[(1699999800000, sample_request), (1700000000000, sample_request), (1700000200000, sample_request)]" 0 2
      sample_hmac None sample_nonces 1699999800000 "''n-1''" 1700000200000] mem_redis_contract
  by (simp only: future_request_is_replayed) (simp add: default_verify_options_def option_else_def)

section \<open>Rotation of secrets\<close>

lemma rotated_manager:
  assumes "rotateSecret at m q = Inr m'" "q \<noteq> primarySecret m"
  shows "m' = m\<lparr>secondarySecret := Some (primarySecret m), primarySecret := q, rotatedAt := Some at\<rparr> \<and> q \<noteq> []"
  using assms by (auto simp: rotateSecret_def split: if_splits)

text \<open>Rotation keeps receivers working: during the grace period after a rotation a signed webhook is accepted
  by receivers that hold the new secret and, through the secondary header, by receivers that still hold
  the old one; after it no signature under the old secret is sent.\<close>

theorem rotation_grace_period:
  assumes "hmac_shape hmac" "timestamp_ok ts" "nonce_ok n" "length payload \<le> MAX_WEBHOOK_PAYLOAD_LENGTH"
    "\<bar>clock - int ts\<bar> \<le> tol" "rotateSecret at m q = Inr m'" "q \<noteq> primarySecret m" "primarySecret m \<noteq> []"
  shows "let r = sign hmac now m' payload ts n;
             answer = (\<lambda>secret. vr_status (evaluateWebhookVerification hmac clock (P_string payload) (H_string (headerValue r)) (Some secret)
                (default_verify_options\<lparr>toleranceMs := Some tol, secondaryHeaderValue := kr_secondaryHeaderValue r\<rparr>))) in
    answer q = 200 \<and> (now - at \<le> gracePeriodMs m \<longrightarrow> answer (primarySecret m) = 200)
    \<and> (now - at > gracePeriodMs m \<longrightarrow> kr_secondaryHeaderValue r = None)"
proof -
  let ?r = "sign hmac now m' payload ts n" and ?gen = "\<lambda>s. generateWebhookSignature hmac payload s ts n"
  let ?p = "\<lambda>s. \<lparr>ph_timestamp = ts, ph_nonce = n, ph_signature = hmac s (buildWebhookDataToSign payload ts n)\<rparr>"
  have m: "m' = m\<lparr>secondarySecret := Some (primarySecret m), primarySecret := q, rotatedAt := Some at\<rparr>" "q \<noteq> []"
    using rotated_manager [OF assms(6,7)] by auto
  have h: "headerValue ?r = headerValue (?gen q)"
    and sec: "kr_secondaryHeaderValue ?r = (if now - at \<le> gracePeriodMs m then Some (headerValue (?gen (primarySecret m))) else None)"
    using m assms(8) by (auto simp: sign_def getSecondarySecret_def Let_def)
  have parsed: "parseWebhookSignatureHeader (H_string (headerValue (?gen s))) = Inr (?p s)" for s
    using generated_parses [OF assms(1-3)] .
  have second: "parse_secondary (Some (headerValue (?gen s))) = Some (?p s)" for s
    using parsed [of s] generated_header_nonempty by (simp add: parse_secondary_def option_else_def)
  have pl: "validatePayload (P_string payload) = Some payload" using assms(4) by (simp add: validatePayload_def)
  have ok: "vr_status (evaluateWebhookVerification hmac clock (P_string payload) (H_string (headerValue ?r)) (Some s) opts) = 200"
    if "s \<noteq> []" "s = q \<or> parse_secondary (secondaryHeaderValue opts) = Some (?p s)" "toleranceMs opts = Some tol" "vo_nonce opts = None" for s opts
    unfolding h by (rule accepted_I [OF pl that(1) parsed [of q] _ that(3), of "?p s"])
      (use that verify_generated [OF assms(5)] in auto)
  show ?thesis using m(2) assms(8) sec second by (auto simp: Let_def default_verify_options_def intro!: ok)
qed

definition sample_manager :: KeyRotationManager where
  "sample_manager = \<lparr>primarySecret = ''s1'', secondarySecret = None, rotatedAt = None, gracePeriodMs = 1000\<rparr>"

theorem rotation_grace_period_witness:
  "let r = sign sample_hmac 1700000000500
       (sample_manager\<lparr>secondarySecret := Some ''s1'', primarySecret := ''s2'', rotatedAt := Some 1700000000000\<rparr>) ''{}'' 1700000000500 ''n-1'' in
   vr_status (evaluateWebhookVerification sample_hmac 1700000000500 (P_string ''{}'') (H_string (headerValue r)) (Some ''s1'')
      (default_verify_options\<lparr>toleranceMs := Some 300000, secondaryHeaderValue := kr_secondaryHeaderValue r\<rparr>)) = 200"
  using rotation_grace_period [OF sample_hmac_shape, of 1700000000500 "''n-1''" "''{}''" 1700000000500 300000 1700000000000 sample_manager
      "''s2''" "sample_manager\<lparr>secondarySecret := Some ''s1'', primarySecret := ''s2'', rotatedAt := Some 1700000000000\<rparr>" 1700000000500]
  by (simp add: sample_manager_def rotateSecret_def timestamp_ok_def nonce_ok_def plain_def MAX_SAFE_INTEGER_def MAX_NONCE_LENGTH_def
      MAX_WEBHOOK_PAYLOAD_LENGTH_def is_space_def control_char_def Let_def)

end
