(* ===== verification/ReplayDefense.thy ===== *)
theory ReplayDefense
  imports NonceCache JsValues
begin

text \<open>
  Replay defence for signed requests (\<open>apps/api/src/modules/webhooks/replay-defense.ts\<close>): the extraction of
  nonce and timestamp from the headers, the check of drift and nonce, and the audit of rejections. The
  clock is an argument, read once per request; whether Redis answers and whether the audit entry can be
  written are arguments too. Message texts are determined by the reason and not modelled.
\<close>

section \<open>The check\<close>

definition REPLAY_DRIFT_TOLERANCE_MS :: int where "REPLAY_DRIFT_TOLERANCE_MS = 30000"
definition REPLAY_NONCE_TTL_SECONDS :: int where "REPLAY_NONCE_TTL_SECONDS = 300"
definition REPLAY_NONCE_HEADER :: string where "REPLAY_NONCE_HEADER = ''x-stellar-alerts-nonce''"
definition REPLAY_TIMESTAMP_HEADER :: string where "REPLAY_TIMESTAMP_HEADER = ''x-stellar-alerts-timestamp''"
definition REPLAY_SIGNATURE_HEADER :: string where "REPLAY_SIGNATURE_HEADER = ''x-stellar-signature''"

datatype ReplayRejectionReason = MISSING_NONCE | INVALID_NONCE | MISSING_TIMESTAMP | INVALID_TIMESTAMP
  | TIMESTAMP_DRIFT_EXCEEDED | NONCE_ALREADY_CONSUMED

text \<open>A timestamp is missing, a string, or a number (\<^const>\<open>None\<close> when it is not finite).\<close>

datatype timestamp_value = T_missing | T_string string | T_number "rat option"

record ReplayCheckContext =
  endpoint :: "string option"
  webhookId :: "string option"
  userId :: "string option"
  ip :: "string option"
  userAgent :: "string option"

record ReplayCheckInput =
  in_nonce :: "string option"
  in_timestamp :: timestamp_value
  in_context :: ReplayCheckContext

record replay_rejection =
  reason :: ReplayRejectionReason
  rejection_drift :: "int option"

record replay_pass =
  pass_nonce :: string
  pass_timestamp :: int
  pass_drift :: int

datatype parsed_timestamp = TS_null | TS_nan | TS_value int

definition parseTimestamp :: "timestamp_value \<Rightarrow> parsed_timestamp" where
  "parseTimestamp v =
     (if v = T_missing \<or> v = T_string [] then TS_null
      else case (case v of T_number q \<Rightarrow> q | T_string s \<Rightarrow> js_number s | T_missing \<Rightarrow> None) of
        None \<Rightarrow> TS_nan
      | Some q \<Rightarrow> if q \<le> 0 then TS_nan else TS_value \<lfloor>q\<rfloor>)"

record ReplayDefenseOptions =
  opt_driftToleranceMs :: "int option"
  opt_nonceTtlSeconds :: "int option"

record ReplayDefense =
  driftToleranceMs :: int
  nonceTtlSeconds :: int

definition first_some :: "'a option \<Rightarrow> 'a option \<Rightarrow> 'a \<Rightarrow> 'a" where
  "first_some a b d = (case a of Some x \<Rightarrow> x | None \<Rightarrow> (case b of Some x \<Rightarrow> x | None \<Rightarrow> d))"

definition newReplayDefense :: "int option \<Rightarrow> int option \<Rightarrow> ReplayDefenseOptions \<Rightarrow> ReplayDefense" where
  "newReplayDefense env_drift env_ttl opts =
     \<lparr>driftToleranceMs = first_some (opt_driftToleranceMs opts) env_drift REPLAY_DRIFT_TOLERANCE_MS,
      nonceTtlSeconds = first_some (opt_nonceTtlSeconds opts) env_ttl REPLAY_NONCE_TTL_SECONDS\<rparr>"

definition reject :: "ReplayRejectionReason \<Rightarrow> int option \<Rightarrow> replay_rejection" where
  "reject r d = \<lparr>reason = r, rejection_drift = d\<rparr>"

definition check ::
  "'r timed_redis \<Rightarrow> bool \<Rightarrow> ReplayDefense \<Rightarrow> int \<Rightarrow> 'r nonce_state \<Rightarrow> ReplayCheckInput
    \<Rightarrow> 'r nonce_state \<times> (replay_rejection + replay_pass)" where
  "check c up d now st inp =
     (let nonce = (case in_nonce inp of Some n \<Rightarrow> trim n | None \<Rightarrow> []) in
      if nonce = [] then (st, Inl (reject MISSING_NONCE None))
      else if length nonce > 128 then (st, Inl (reject INVALID_NONCE None))
      else case parseTimestamp (in_timestamp inp) of
        TS_null \<Rightarrow> (st, Inl (reject MISSING_TIMESTAMP None))
      | TS_nan \<Rightarrow> (st, Inl (reject INVALID_TIMESTAMP None))
      | TS_value timestamp \<Rightarrow>
          (let driftMs = now - timestamp in
           if \<bar>driftMs\<bar> > driftToleranceMs d then (st, Inl (reject TIMESTAMP_DRIFT_EXCEEDED (Some driftMs)))
           else (case checkAndStoreNonce c up now nonce (nonceTtlSeconds d) st of
                   (st', False) \<Rightarrow> (st', Inl (reject NONCE_ALREADY_CONSUMED (Some driftMs)))
                 | (st', True) \<Rightarrow> (st', Inr \<lparr>pass_nonce = nonce, pass_timestamp = timestamp, pass_drift = driftMs\<rparr>))))"

section \<open>Audit\<close>

record audit_entry =
  au_topic :: string
  au_reason :: ReplayRejectionReason
  au_nonce :: "string option"
  au_timestamp :: timestamp_value
  au_drift :: "int option"
  au_context :: ReplayCheckContext

record 'r replay_state =
  nonces :: "'r nonce_state"
  auditLog :: "audit_entry list"

definition auditRejection :: "bool \<Rightarrow> replay_rejection \<Rightarrow> ReplayCheckInput \<Rightarrow> 'r replay_state \<Rightarrow> 'r replay_state" where
  "auditRejection writable r inp st =
     (if writable then
        st\<lparr>auditLog := auditLog st @
             [\<lparr>au_topic = (case endpoint (in_context inp) of Some e \<Rightarrow> e | None \<Rightarrow> ''webhook''), au_reason = reason r,
               au_nonce = in_nonce inp, au_timestamp = in_timestamp inp, au_drift = rejection_drift r,
               au_context = in_context inp\<rparr>]\<rparr>
      else st)"

definition assertFresh ::
  "'r timed_redis \<Rightarrow> bool \<Rightarrow> bool \<Rightarrow> ReplayDefense \<Rightarrow> int \<Rightarrow> 'r replay_state \<Rightarrow> ReplayCheckInput
    \<Rightarrow> 'r replay_state \<times> (ReplayRejectionReason + replay_pass)" where
  "assertFresh c up writable d now st inp =
     (case check c up d now (nonces st) inp of
        (n, Inr p) \<Rightarrow> (st\<lparr>nonces := n\<rparr>, Inr p)
      | (n, Inl r) \<Rightarrow> (auditRejection writable r inp (st\<lparr>nonces := n\<rparr>), Inl (reason r)))"

section \<open>Headers\<close>

text \<open>A header is absent, a string, or an array of which an element may be no string.\<close>

datatype header_field = HF_absent | HF_string string | HF_array "string option list"

fun header :: "header_field \<Rightarrow> string option" where
  "header HF_absent = None"
| "header (HF_string raw) = (if trim raw \<noteq> [] then Some (trim raw) else None)"
| "header (HF_array []) = None"
| "header (HF_array (x # xs)) = map_option trim x"

fun signature_fields :: "(string \<times> string) list \<Rightarrow> string list \<Rightarrow> (string \<times> string) list" where
  "signature_fields acc [] = acc"
| "signature_fields acc (segment # segments) =
     (case index_of segment CHR ''='' of
        None \<Rightarrow> signature_fields acc segments
      | Some eq \<Rightarrow>
          if eq = 0 then signature_fields acc segments
          else let key = trim (take eq segment); v = trim (drop (eq + 1) segment) in
            signature_fields (if map_of acc key = None then acc @ [(key, v)] else acc) segments)"

definition or_field :: "string option \<Rightarrow> string option \<Rightarrow> string option" where
  "or_field a b = (case a of Some x \<Rightarrow> Some x | None \<Rightarrow> b)"

definition extractReplayHeaders :: "(string \<Rightarrow> header_field) \<Rightarrow> string option \<times> string option" where
  "extractReplayHeaders headers =
     (let nonce = header (headers REPLAY_NONCE_HEADER);
          timestamp = header (headers REPLAY_TIMESTAMP_HEADER) in
      case header (headers REPLAY_SIGNATURE_HEADER) of
        Some sg \<Rightarrow>
          if sg \<noteq> [] \<and> length sg \<le> 8192 then
            (let acc = signature_fields [] (split_on CHR '','' sg) in
             (or_field nonce (map_of acc ''n''), or_field timestamp (map_of acc ''t'')))
          else (nonce, timestamp)
      | None \<Rightarrow> (nonce, timestamp))"

record fastify_request =
  req_method :: string
  req_url :: string
  req_ip :: string
  req_headers :: "string \<Rightarrow> header_field"

definition replayDefenseHook ::
  "'r timed_redis \<Rightarrow> bool \<Rightarrow> bool \<Rightarrow> ReplayDefense \<Rightarrow> int \<Rightarrow> 'r replay_state \<Rightarrow> fastify_request
    \<Rightarrow> 'r replay_state \<times> (ReplayRejectionReason + replay_pass)" where
  "replayDefenseHook c up writable d now st req =
     (let (nonce, timestamp) = extractReplayHeaders (req_headers req) in
      assertFresh c up writable d now st
        \<lparr>in_nonce = nonce, in_timestamp = (case timestamp of Some s \<Rightarrow> T_string s | None \<Rightarrow> T_missing),
         in_context = \<lparr>endpoint = Some (req_method req @ '' '' @ req_url req), webhookId = None, userId = None, ip = Some (req_ip req),
           userAgent = (case req_headers req ''user-agent'' of HF_string u \<Rightarrow> Some u | _ \<Rightarrow> None)\<rparr>\<rparr>)"

section \<open>No replay\<close>

definition hook_step ::
  "'r timed_redis \<Rightarrow> bool \<Rightarrow> ReplayDefense \<Rightarrow> int \<Rightarrow> 'r replay_state \<Rightarrow> fastify_request \<times> bool
    \<Rightarrow> 'r replay_state \<times> (string \<times> int) option" where
  "hook_step c up d now st e =
     (case replayDefenseHook c up (snd e) d now st (fst e) of
        (st', Inr p) \<Rightarrow> (st', Some (pass_nonce p, pass_timestamp p))
      | (st', Inl _) \<Rightarrow> (st', None))"

definition request_held :: "'r timed_redis \<Rightarrow> bool \<Rightarrow> 'r replay_state \<Rightarrow> string \<times> int \<Rightarrow> int \<Rightarrow> int \<Rightarrow> bool" where
  "request_held c up st p t u = nonce_held c up (nonces st) (fst p) t u"

lemma nonces_audit [simp]: "nonces (auditRejection w r inp st) = nonces st"
  by (simp add: auditRejection_def)

lemma hook_step_cases:
  obtains "nonces (fst (hook_step c up d now st e)) = nonces st" "snd (hook_step c up d now st e) = None"
  | n ts where "nonces (fst (hook_step c up d now st e)) = fst (checkAndStoreNonce c up now n (nonceTtlSeconds d) (nonces st))"
      "snd (hook_step c up d now st e) = (if snd (checkAndStoreNonce c up now n (nonceTtlSeconds d) (nonces st)) then Some (n, ts) else None)"
      "\<bar>now - ts\<bar> \<le> driftToleranceMs d"
proof -
  define inp where "inp = (let (nonce, timestamp) = extractReplayHeaders (req_headers (fst e)) in
        \<lparr>in_nonce = nonce, in_timestamp = (case timestamp of Some s \<Rightarrow> T_string s | None \<Rightarrow> T_missing),
         in_context = \<lparr>endpoint = Some (req_method (fst e) @ '' '' @ req_url (fst e)), webhookId = None, userId = None, ip = Some (req_ip (fst e)),
           userAgent = (case req_headers (fst e) ''user-agent'' of HF_string u \<Rightarrow> Some u | _ \<Rightarrow> None)\<rparr>\<rparr>)"
  have h: "hook_step c up d now st e = (case assertFresh c up (snd e) d now st inp of
        (st', Inr p) \<Rightarrow> (st', Some (pass_nonce p, pass_timestamp p)) | (st', Inl _) \<Rightarrow> (st', None))"
    by (simp add: hook_step_def replayDefenseHook_def inp_def case_prod_beta Let_def)
  define n where "n = (case in_nonce inp of Some n \<Rightarrow> trim n | None \<Rightarrow> [])"
  show thesis
  proof (cases "\<exists>ts. parseTimestamp (in_timestamp inp) = TS_value ts \<and> \<bar>now - ts\<bar> \<le> driftToleranceMs d \<and> n \<noteq> [] \<and> length n \<le> 128")
    case True
    then obtain ts where ts: "parseTimestamp (in_timestamp inp) = TS_value ts" "\<bar>now - ts\<bar> \<le> driftToleranceMs d" "n \<noteq> []" "length n \<le> 128"
      by blast
    have "check c up d now (nonces st) inp = (case checkAndStoreNonce c up now n (nonceTtlSeconds d) (nonces st) of
        (st', False) \<Rightarrow> (st', Inl (reject NONCE_ALREADY_CONSUMED (Some (now - ts))))
      | (st', True) \<Rightarrow> (st', Inr \<lparr>pass_nonce = n, pass_timestamp = ts, pass_drift = now - ts\<rparr>))"
      using ts by (simp add: check_def n_def [symmetric] Let_def)
    then show thesis using that(2) [of n ts] ts(2) h
      by (auto simp: assertFresh_def split: prod.splits bool.splits)
  next
    case False
    then have "\<exists>r. check c up d now (nonces st) inp = (nonces st, Inl r)"
      by (auto simp: check_def n_def [symmetric] Let_def not_less split: parsed_timestamp.splits)
    then show thesis using that(1) h by (auto simp: assertFresh_def)
  qed
qed

lemma hook_step_book:
  assumes "up \<longrightarrow> redis_contract c"
  shows "nonce_book (hook_step c up d) (request_held c up) (nonceTtlSeconds d * 1000)"
proof unfold_locales
  fix s :: "'a replay_state" and p t u t' and e :: "fastify_request \<times> bool"
  assume "request_held c up s p t u" and t: "0 \<le> t'" "t \<le> t'"
  then have h: "nonce_held c up (nonces s) (fst p) t u" by (simp add: request_held_def)
  have later: "nonce_held c up (nonces s) (fst p) t' u" using h t by (simp add: nonce_held_def)
  show "t' < u \<Longrightarrow> snd (hook_step c up d t' s e) \<noteq> Some p"
    by (rule hook_step_cases [of c up d t' s e]) (use held_refused [OF assms h t] in auto)
  show "request_held c up (fst (hook_step c up d t' s e)) p t' u"
    unfolding request_held_def
    by (rule hook_step_cases [of c up d t' s e]) (use later held_kept [OF assms h t] in simp_all)
next
  fix s :: "'a replay_state" and t p and e :: "fastify_request \<times> bool"
  assume a: "snd (hook_step c up d t s e) = Some p"
  show "request_held c up (fst (hook_step c up d t s e)) p t (t + nonceTtlSeconds d * 1000)"
    unfolding request_held_def
    by (rule hook_step_cases [of c up d t s e]) (use a held_accepted [OF assms] in \<open>auto split: if_splits\<close>)
qed

interpretation replay_guard: nonce_book "hook_step mem_redis True d" "request_held mem_redis True" "nonceTtlSeconds d * 1000" for d
  by (rule hook_step_book) (simp add: mem_redis_contract)

lemma accepted_drift: "snd (hook_step c up d t s e) = Some (n, ts) \<Longrightarrow> \<bar>t - ts\<bar> \<le> driftToleranceMs d"
  by (rule hook_step_cases [of c up d t s e]) (auto split: if_splits)

lemma book_run_drift: "(t, Some (n, ts)) \<in> set (book_run (hook_step c up d) s es) \<Longrightarrow> \<bar>t - ts\<bar> \<le> driftToleranceMs d"
proof (induction es arbitrary: s)
  case (Cons p es)
  obtain v e where "p = (v, e)" by (cases p)
  then show ?case using Cons accepted_drift [of c up d v s e n ts] by (auto simp: case_prod_beta Let_def)
qed simp

lemma length_book_run [simp]: "length (book_run step s es) = length es"
  by (induction es arbitrary: s) (auto simp: case_prod_beta Let_def)


text \<open>The outcome of the guard and its audit trail: a rejection is recorded exactly once, an accepted request
  is not.\<close>

lemma guard_audit:
  "assertFresh c up True d now st inp = (st', r) \<Longrightarrow>
     (case r of
        Inl e \<Rightarrow> \<exists>entry. auditLog st' = auditLog st @ [entry] \<and> au_reason entry = e \<and> au_nonce entry = in_nonce inp
      | Inr p \<Rightarrow> auditLog st' = auditLog st \<and> \<bar>pass_drift p\<bar> \<le> driftToleranceMs d \<and> pass_drift p = now - pass_timestamp p)"
  by (auto simp: assertFresh_def auditRejection_def check_def Let_def split: prod.splits sum.splits if_splits parsed_timestamp.splits bool.splits)

section \<open>Concrete requests\<close>

definition sample_guard :: ReplayDefense where
  "sample_guard = newReplayDefense (Some 30000) (Some 300) \<lparr>opt_driftToleranceMs = None, opt_nonceTtlSeconds = None\<rparr>"

definition sample_headers :: "string \<Rightarrow> header_field" where
  "sample_headers h = (if h = REPLAY_SIGNATURE_HEADER then HF_string ''t=50,n=abc,v1=00'' else HF_absent)"

definition sample_req :: fastify_request where
  "sample_req = \<lparr>req_method = ''POST'', req_url = ''/hook'', req_ip = ''192.0.2.1'', req_headers = sample_headers\<rparr>"

definition sample_replay_state :: "MemoryFallbackCache replay_state" where
  "sample_replay_state = \<lparr>nonces = \<lparr>server = newMemoryFallbackCache, degradedNonceStore = []\<rparr>, auditLog = []\<rparr>"

lemma sample_extract: "extractReplayHeaders sample_headers = (Some ''abc'', Some ''50'')"
  by code_simp

lemma sample_timestamp: "parseTimestamp (T_string ''50'') = TS_value 50"
proof -
  have "dec_val ''50'' = 50" by code_simp
  moreover have "list_all is_digit ''50''" by code_simp
  ultimately have "js_number ''50'' = Some 50" using js_number_digits [of "''50''"] by simp
  then show ?thesis by (simp add: parseTimestamp_def)
qed

lemma sample_step:
  "nonces (fst (hook_step mem_redis up sample_guard now st (sample_req, True))) =
     (if \<bar>now - 50\<bar> \<le> 30000 then fst (checkAndStoreNonce mem_redis up now ''abc'' 300 (nonces st)) else nonces st)"
  "snd (hook_step mem_redis up sample_guard now st (sample_req, True)) =
     (if \<bar>now - 50\<bar> \<le> 30000 \<and> snd (checkAndStoreNonce mem_redis up now ''abc'' 300 (nonces st)) then Some (''abc'', 50) else None)"
proof -
  have t: "trim ''abc'' = ''abc''" by code_simp
  note d = hook_step_def replayDefenseHook_def sample_req_def sample_extract assertFresh_def check_def sample_timestamp t
    sample_guard_def newReplayDefense_def first_some_def reject_def Let_def
  show "nonces (fst (hook_step mem_redis up sample_guard now st (sample_req, True))) =
     (if \<bar>now - 50\<bar> \<le> 30000 then fst (checkAndStoreNonce mem_redis up now ''abc'' 300 (nonces st)) else nonces st)"
    by (simp add: d split: prod.splits bool.splits)
  show "snd (hook_step mem_redis up sample_guard now st (sample_req, True)) =
     (if \<bar>now - 50\<bar> \<le> 30000 \<and> snd (checkAndStoreNonce mem_redis up now ''abc'' 300 (nonces st)) then Some (''abc'', 50) else None)"
    by (simp add: d split: prod.splits bool.splits)
qed

lemmas nonce_eval = checkAndStoreNonce_def mem_try_set_alt mem_set_def mem_get_def mem_lookup_alt expired_def
  truthy_int_def sample_replay_state_def newMemoryFallbackCache_def degraded_has_def degraded_store_def

lemma sample_guard_run:
  "map snd (book_run (hook_step mem_redis True sample_guard) sample_replay_state
     [(50, sample_req, True), (70, sample_req, True), (400000, sample_req, True)]) = [Some (''abc'', 50), None, None]"
  by (simp add: case_prod_beta Let_def sample_step nonce_eval)


text \<open>A nonce that was consumed in Redis is not known to the map of the process: when Redis fails between the
  two, the same request passes again.\<close>

lemma outage_admits_replay:
  "snd (hook_step mem_redis True sample_guard 50 sample_replay_state (sample_req, True)) = Some (''abc'', 50)
   \<and> snd (hook_step mem_redis False sample_guard 70 (fst (hook_step mem_redis True sample_guard 50 sample_replay_state (sample_req, True)))
        (sample_req, True)) = Some (''abc'', 50)"
  by (simp add: sample_step nonce_eval)

end
