(* ===== verification/SessionManager.thy ===== *)
theory SessionManager
  imports RedisStore
begin

text \<open>
  Rotating refresh tokens (\<open>apps/api/src/lib/session-manager.ts\<close> and the token functions of
  \<open>apps/api/src/utils/jwt.ts\<close>). The two tables of session families and token history with their unique
  constraints, the revocation cache in Redis and the security log are the state. A rotation has two parts,
  the reads that decide and the writes that follow, so that concurrent rotations can be composed. The JWT
  library, generated UUIDs, e-mail look-up, the clock and the commands of Redis are parameters; whether
  Redis answers and whether the log can be written are arguments. A database query fails only through a
  constraint. Console output is not modelled.
\<close>

section \<open>Tokens\<close>

record token_claims =
  cl_userId :: "string option"
  cl_familyId :: "string option"
  cl_rotationCounter :: "nat option"
  cl_jti :: "string option"

record RefreshTokenPayload =
  rp_userId :: string
  rp_familyId :: string
  rp_rotationCounter :: "nat option"
  rp_jti :: string

text \<open>The JWT library: signing a refresh token and an access token, and the verified claims of a token at an
  instant, if the signature and the expiry allow.\<close>

record jwt_library =
  jwt_sign_refresh :: "token_claims \<Rightarrow> int \<Rightarrow> int \<Rightarrow> string"
  jwt_sign_access :: "string \<Rightarrow> string \<Rightarrow> string \<Rightarrow> int \<Rightarrow> string"
  jwt_verify :: "int \<Rightarrow> string \<Rightarrow> token_claims option"

definition ACCESS_TOKEN_TTL_SECONDS :: int where "ACCESS_TOKEN_TTL_SECONDS = 15 * 60"
definition REFRESH_TOKEN_TTL_SECONDS :: int where "REFRESH_TOKEN_TTL_SECONDS = 7 * 24 * 60 * 60"

definition generateRefreshToken :: "jwt_library \<Rightarrow> int \<Rightarrow> string \<Rightarrow> string \<Rightarrow> string \<Rightarrow> nat \<Rightarrow> string" where
  "generateRefreshToken j now jti userId familyId counter =
     jwt_sign_refresh j \<lparr>cl_userId = Some userId, cl_familyId = Some familyId, cl_rotationCounter = Some counter, cl_jti = Some jti\<rparr>
       now REFRESH_TOKEN_TTL_SECONDS"

definition given :: "string option \<Rightarrow> bool" where
  "given s = (case s of None \<Rightarrow> False | Some t \<Rightarrow> t \<noteq> [])"

definition verifyRefreshToken :: "jwt_library \<Rightarrow> int \<Rightarrow> string \<Rightarrow> RefreshTokenPayload option" where
  "verifyRefreshToken j now token =
     (case jwt_verify j now token of
        None \<Rightarrow> None
      | Some c \<Rightarrow>
          if \<not> given (cl_userId c) \<or> \<not> given (cl_familyId c) \<or> \<not> given (cl_jti c) then None
          else Some \<lparr>rp_userId = the (cl_userId c), rp_familyId = the (cl_familyId c),
                     rp_rotationCounter = cl_rotationCounter c, rp_jti = the (cl_jti c)\<rparr>)"

section \<open>Tables\<close>

record RefreshSession =
  rs_familyId :: string
  rs_userId :: string
  currentJti :: string
  rotationCounter :: nat
  isRevoked :: bool
  revocationReason :: "string option"
  rs_expiresAt :: int

record RefreshTokenHistory =
  rh_familyId :: string
  rh_jti :: string
  rh_userId :: string
  rh_rotationCounter :: nat
  isConsumed :: bool
  consumedAt :: "int option"

record reuse_event =
  re_familyId :: string
  re_userId :: string
  replayedJti :: string
  presentedCounter :: "nat option"
  expectedCurrentJti :: string
  re_isAlreadyConsumed :: bool
  re_isOutdatedJti :: bool

record 'r session_state =
  sessions :: "RefreshSession list"
  history :: "RefreshTokenHistory list"
  cache :: 'r
  securityLog :: "reuse_event list"

datatype session_error = Invalid_token | Session_revoked | Token_reuse | Unique_violation | Record_missing

record SessionTokenResult =
  accessToken :: string
  refreshToken :: string
  res_familyId :: string
  expiresIn :: int
  tokenType :: string

definition find_session :: "'r session_state \<Rightarrow> string \<Rightarrow> RefreshSession option" where
  "find_session st f = find (\<lambda>s. rs_familyId s = f) (sessions st)"

definition find_history :: "'r session_state \<Rightarrow> string \<Rightarrow> RefreshTokenHistory option" where
  "find_history st i = find (\<lambda>h. rh_jti h = i) (history st)"

definition current_key :: "string \<Rightarrow> string" where
  "current_key f = ''auth:family:'' @ f @ '':current_jti''"

definition revoked_key :: "string \<Rightarrow> string" where
  "revoked_key f = ''auth:family:'' @ f @ '':revoked''"

definition used_key :: "string \<Rightarrow> string" where
  "used_key i = ''auth:refresh_jti_used:'' @ i"

definition cache_put :: "'r timed_redis \<Rightarrow> bool \<Rightarrow> int \<Rightarrow> string \<Rightarrow> string \<Rightarrow> 'r session_state \<Rightarrow> 'r session_state" where
  "cache_put c up now k v st =
     (if up then st\<lparr>cache := tr_put c now (cache st) k v (Some REFRESH_TOKEN_TTL_SECONDS)\<rparr> else st)"

definition new_session :: "string \<Rightarrow> string \<Rightarrow> string \<Rightarrow> int \<Rightarrow> RefreshSession" where
  "new_session f u i now =
     \<lparr>rs_familyId = f, rs_userId = u, currentJti = i, rotationCounter = 1, isRevoked = False, revocationReason = None,
      rs_expiresAt = now + REFRESH_TOKEN_TTL_SECONDS * 1000\<rparr>"

definition new_history :: "string \<Rightarrow> string \<Rightarrow> string \<Rightarrow> nat \<Rightarrow> RefreshTokenHistory" where
  "new_history f u i n =
     \<lparr>rh_familyId = f, rh_jti = i, rh_userId = u, rh_rotationCounter = n, isConsumed = False, consumedAt = None\<rparr>"

section \<open>Operations\<close>

definition createSessionFamily ::
  "jwt_library \<Rightarrow> 'r timed_redis \<Rightarrow> bool \<Rightarrow> int \<Rightarrow> string \<Rightarrow> string \<Rightarrow> string \<Rightarrow> string \<Rightarrow> 'r session_state
    \<Rightarrow> 'r session_state \<times> (session_error + SessionTokenResult)" where
  "createSessionFamily j c up now familyId jti userId email st =
     (if familyId \<in> rs_familyId ` set (sessions st) \<or> jti \<in> currentJti ` set (sessions st) \<or> jti \<in> rh_jti ` set (history st)
      then (st, Inl Unique_violation)
      else (cache_put c up now (current_key familyId) jti
              (st\<lparr>sessions := sessions st @ [new_session familyId userId jti now],
                  history := history st @ [new_history familyId userId jti 1]\<rparr>),
            Inr \<lparr>accessToken = jwt_sign_access j userId email familyId now,
                 refreshToken = generateRefreshToken j now jti userId familyId 1, res_familyId = familyId,
                 expiresIn = ACCESS_TOKEN_TTL_SECONDS, tokenType = ''Bearer''\<rparr>))"

definition isFamilyRevoked :: "'r timed_redis \<Rightarrow> bool \<Rightarrow> int \<Rightarrow> string \<Rightarrow> 'r session_state \<Rightarrow> bool" where
  "isFamilyRevoked c up now familyId st =
     (if familyId = [] then False
      else if up \<and> tr_get c now (cache st) (revoked_key familyId) = Some ''1'' then True
      else (case find_session st familyId of Some s \<Rightarrow> isRevoked s | None \<Rightarrow> False))"

definition revokeFamily :: "'r timed_redis \<Rightarrow> bool \<Rightarrow> int \<Rightarrow> string \<Rightarrow> string \<Rightarrow> 'r session_state \<Rightarrow> 'r session_state" where
  "revokeFamily c up now familyId reason st =
     cache_put c up now (revoked_key familyId) ''1''
       (st\<lparr>sessions := map (\<lambda>s. if rs_familyId s = familyId then s\<lparr>isRevoked := True, revocationReason := Some reason\<rparr> else s) (sessions st)\<rparr>)"

datatype rotation_decision = Reuse RefreshTokenPayload reuse_event | Rotate RefreshTokenPayload RefreshSession

definition rotate_reads :: "jwt_library \<Rightarrow> 'r timed_redis \<Rightarrow> bool \<Rightarrow> int \<Rightarrow> string \<Rightarrow> 'r session_state \<Rightarrow> session_error + rotation_decision" where
  "rotate_reads j c up now token st =
     (case verifyRefreshToken j now token of
        None \<Rightarrow> Inl Invalid_token
      | Some d \<Rightarrow>
          if isFamilyRevoked c up now (rp_familyId d) st then Inl Session_revoked
          else case find_session st (rp_familyId d) of
            None \<Rightarrow> Inl Session_revoked
          | Some s \<Rightarrow>
              if isRevoked s then Inl Session_revoked
              else (let isAlreadyConsumed = (case find_history st (rp_jti d) of Some h \<Rightarrow> isConsumed h | None \<Rightarrow> False);
                        isOutdatedJti = (currentJti s \<noteq> rp_jti d) in
                    if isAlreadyConsumed \<or> isOutdatedJti
                    then Inr (Reuse d \<lparr>re_familyId = rp_familyId d, re_userId = rp_userId d, replayedJti = rp_jti d,
                                presentedCounter = rp_rotationCounter d, expectedCurrentJti = currentJti s,
                                re_isAlreadyConsumed = isAlreadyConsumed, re_isOutdatedJti = isOutdatedJti\<rparr>)
                    else Inr (Rotate d s)))"

text \<open>The transaction of a valid rotation, undone as a whole when one of its writes fails.\<close>

definition rotate_transaction :: "int \<Rightarrow> RefreshTokenPayload \<Rightarrow> RefreshSession \<Rightarrow> string \<Rightarrow> 'r session_state \<Rightarrow> session_error + 'r session_state" where
  "rotate_transaction now d s newJti st =
     (if rp_jti d \<notin> rh_jti ` set (history st) then Inl Record_missing
      else if newJti \<in> rh_jti ` set (history st) then Inl Unique_violation
      else if rp_familyId d \<notin> rs_familyId ` set (sessions st) then Inl Record_missing
      else if newJti \<in> currentJti ` {x \<in> set (sessions st). rs_familyId x \<noteq> rp_familyId d} then Inl Unique_violation
      else Inr (st\<lparr>history :=
                 map (\<lambda>h. if rh_jti h = rp_jti d then h\<lparr>isConsumed := True, consumedAt := Some now\<rparr> else h) (history st)
                   @ [new_history (rp_familyId d) (rp_userId d) newJti (rotationCounter s + 1)],
               sessions :=
                 map (\<lambda>x. if rs_familyId x = rp_familyId d
                          then x\<lparr>currentJti := newJti, rotationCounter := rotationCounter s + 1,
                                 rs_expiresAt := now + REFRESH_TOKEN_TTL_SECONDS * 1000\<rparr> else x) (sessions st)\<rparr>))"

definition rotate_writes ::
  "jwt_library \<Rightarrow> 'r timed_redis \<Rightarrow> (string \<Rightarrow> string option) \<Rightarrow> bool \<Rightarrow> bool \<Rightarrow> int \<Rightarrow> string \<Rightarrow> rotation_decision \<Rightarrow> 'r session_state
    \<Rightarrow> 'r session_state \<times> (session_error + SessionTokenResult)" where
  "rotate_writes j c email_of up writable now newJti dec st =
     (case dec of
        Reuse d ev \<Rightarrow>
          (let st' = revokeFamily c up now (rp_familyId d) ''REPLAY_ATTACK_DETECTED'' st in
           (if writable then st'\<lparr>securityLog := securityLog st' @ [ev]\<rparr> else st', Inl Token_reuse))
      | Rotate d s \<Rightarrow>
          (case rotate_transaction now d s newJti st of
             Inl e \<Rightarrow> (st, Inl e)
           | Inr st' \<Rightarrow>
               (cache_put c up now (current_key (rp_familyId d)) newJti (cache_put c up now (used_key (rp_jti d)) ''1'' st'),
                Inr \<lparr>accessToken = jwt_sign_access j (rp_userId d) (case email_of (rp_userId d) of Some e \<Rightarrow> e | None \<Rightarrow> []) (rp_familyId d) now,
                     refreshToken = generateRefreshToken j now newJti (rp_userId d) (rp_familyId d) (rotationCounter s + 1),
                     res_familyId = rp_familyId d, expiresIn = ACCESS_TOKEN_TTL_SECONDS, tokenType = ''Bearer''\<rparr>)))"

definition rotateRefreshToken ::
  "jwt_library \<Rightarrow> 'r timed_redis \<Rightarrow> (string \<Rightarrow> string option) \<Rightarrow> bool \<Rightarrow> bool \<Rightarrow> int \<Rightarrow> string \<Rightarrow> string \<Rightarrow> 'r session_state
    \<Rightarrow> 'r session_state \<times> (session_error + SessionTokenResult)" where
  "rotateRefreshToken j c email_of up writable now newJti token st =
     (case rotate_reads j c up now token st of
        Inl e \<Rightarrow> (st, Inl e)
      | Inr dec \<Rightarrow> rotate_writes j c email_of up writable now newJti dec st)"

section \<open>Runs\<close>

datatype session_op =
    Op_create bool int string string string string
  | Op_rotate bool bool int string string
  | Op_revoke bool int string string

fun session_step :: "jwt_library \<Rightarrow> 'r timed_redis \<Rightarrow> (string \<Rightarrow> string option) \<Rightarrow> 'r session_state \<Rightarrow> session_op \<Rightarrow> 'r session_state" where
  "session_step j c em st (Op_create up now f i u e) = fst (createSessionFamily j c up now f i u e st)"
| "session_step j c em st (Op_rotate up w now i tok) = fst (rotateRefreshToken j c em up w now i tok st)"
| "session_step j c em st (Op_revoke up now f r) = revokeFamily c up now f r st"

definition session_wf :: "'r session_state \<Rightarrow> bool" where
  "session_wf st = (distinct (map rs_familyId (sessions st)) \<and> distinct (map rh_jti (history st))
     \<and> rh_familyId ` set (history st) \<subseteq> rs_familyId ` set (sessions st))"

text \<open>One active token: the unconsumed tokens of a family are exactly its current one, and its counter is the
  number of tokens it was given.\<close>

definition family_tokens :: "'r session_state \<Rightarrow> string \<Rightarrow> RefreshTokenHistory list" where
  "family_tokens st f = filter (\<lambda>h. rh_familyId h = f) (history st)"

definition one_active :: "'r session_state \<Rightarrow> bool" where
  "one_active st = (\<forall>s \<in> set (sessions st).
     map rh_jti (filter (\<lambda>h. \<not> isConsumed h) (family_tokens st (rs_familyId s))) = [currentJti s]
     \<and> rotationCounter s = length (family_tokens st (rs_familyId s)))"

definition consumed :: "'r session_state \<Rightarrow> string \<Rightarrow> bool" where
  "consumed st i = (\<exists>h \<in> set (history st). rh_jti h = i \<and> isConsumed h)"

definition family_revoked :: "'r session_state \<Rightarrow> string \<Rightarrow> bool" where
  "family_revoked st f = (\<exists>s \<in> set (sessions st). rs_familyId s = f \<and> isRevoked s)"

lemma cache_put_simps [simp]:
  "sessions (cache_put c up now k v st) = sessions st" "history (cache_put c up now k v st) = history st"
  "securityLog (cache_put c up now k v st) = securityLog st"
  by (simp_all add: cache_put_def)

definition consume_token :: "int \<Rightarrow> string \<Rightarrow> RefreshTokenHistory \<Rightarrow> RefreshTokenHistory" where
  "consume_token now i h = (if rh_jti h = i then h\<lparr>isConsumed := True, consumedAt := Some now\<rparr> else h)"

lemma consume_token_simps [simp]:
  "rh_jti (consume_token now i h) = rh_jti h" "rh_familyId (consume_token now i h) = rh_familyId h"
  "isConsumed (consume_token now i h) = (isConsumed h \<or> rh_jti h = i)"
  by (auto simp: consume_token_def)

definition advance_session :: "int \<Rightarrow> string \<Rightarrow> string \<Rightarrow> nat \<Rightarrow> RefreshSession \<Rightarrow> RefreshSession" where
  "advance_session now f i n x =
     (if rs_familyId x = f then x\<lparr>currentJti := i, rotationCounter := n, rs_expiresAt := now + REFRESH_TOKEN_TTL_SECONDS * 1000\<rparr> else x)"

lemma advance_session_simps [simp]:
  "rs_familyId (advance_session now f i n x) = rs_familyId x" "isRevoked (advance_session now f i n x) = isRevoked x"
  "currentJti (advance_session now f i n x) = (if rs_familyId x = f then i else currentJti x)"
  "rotationCounter (advance_session now f i n x) = (if rs_familyId x = f then n else rotationCounter x)"
  by (auto simp: advance_session_def)

lemma transaction_effect:
  assumes "rotate_transaction now d s i st = Inr st'"
  shows "history st' = map (consume_token now (rp_jti d)) (history st) @ [new_history (rp_familyId d) (rp_userId d) i (rotationCounter s + 1)]"
    and "sessions st' = map (advance_session now (rp_familyId d) i (rotationCounter s + 1)) (sessions st)"
    and "i \<notin> rh_jti ` set (history st)" "rp_jti d \<in> rh_jti ` set (history st)" "rp_familyId d \<in> rs_familyId ` set (sessions st)"
  using assms by (auto simp: rotate_transaction_def consume_token_def [abs_def] advance_session_def [abs_def] split: if_splits)

lemma new_history_simps [simp]:
  "rh_jti (new_history f u i n) = i" "rh_familyId (new_history f u i n) = f" "\<not> isConsumed (new_history f u i n)"
  by (simp_all add: new_history_def)

lemma rotate_reads_Rotate:
  assumes "rotate_reads j c up now token st = Inr (Rotate d s)"
  shows "verifyRefreshToken j now token = Some d" "find_session st (rp_familyId d) = Some s" "\<not> isRevoked s"
    "currentJti s = rp_jti d" "\<not> (\<exists>h. find_history st (rp_jti d) = Some h \<and> isConsumed h)"
  using assms by (auto simp: rotate_reads_def Let_def split: option.splits if_splits)

lemma rotate_cases:
  obtains (error) e where "rotateRefreshToken j c em up w now i token st = (st, Inl e)"
  | (reuse) d ev where "rotate_reads j c up now token st = Inr (Reuse d ev)" "verifyRefreshToken j now token = Some d"
      "sessions (fst (rotateRefreshToken j c em up w now i token st))
         = sessions (revokeFamily c up now (rp_familyId d) ''REPLAY_ATTACK_DETECTED'' st)"
      "history (fst (rotateRefreshToken j c em up w now i token st)) = history st"
      "snd (rotateRefreshToken j c em up w now i token st) = Inl Token_reuse"
  | (rotate) d s st' res where "rotate_reads j c up now token st = Inr (Rotate d s)" "rotate_transaction now d s i st = Inr st'"
      "sessions (fst (rotateRefreshToken j c em up w now i token st)) = sessions st'"
      "history (fst (rotateRefreshToken j c em up w now i token st)) = history st'"
      "snd (rotateRefreshToken j c em up w now i token st) = Inr res"
proof (cases "rotate_reads j c up now token st")
  case (Inl e)
  then show thesis using error by (simp add: rotateRefreshToken_def)
next
  case (Inr dec)
  show thesis
  proof (cases dec)
    case (Reuse d ev)
    then have "verifyRefreshToken j now token = Some d"
      using Inr by (auto simp: rotate_reads_def Let_def split: option.splits if_splits)
    then show thesis using Inr Reuse reuse [of d ev] by (simp add: rotateRefreshToken_def rotate_writes_def revokeFamily_def Let_def)
  next
    case (Rotate d s)
    show thesis
    proof (cases "rotate_transaction now d s i st")
      case (Inl e)
      then show thesis using Inr Rotate error by (simp add: rotateRefreshToken_def rotate_writes_def)
    next
      case t: (Inr st')
      show thesis by (rule rotate [of d s st']) (use Inr Rotate t in \<open>simp_all add: rotateRefreshToken_def rotate_writes_def\<close>)
    qed
  qed
qed

lemma create_cases:
  obtains (error) "fst (createSessionFamily j c up now f i u e st) = st"
  | (ok) "f \<notin> rs_familyId ` set (sessions st)" "i \<notin> rh_jti ` set (history st)"
      "sessions (fst (createSessionFamily j c up now f i u e st)) = sessions st @ [new_session f u i now]"
      "history (fst (createSessionFamily j c up now f i u e st)) = history st @ [new_history f u i 1]"
  by (cases "f \<in> rs_familyId ` set (sessions st) \<or> i \<in> currentJti ` set (sessions st) \<or> i \<in> rh_jti ` set (history st)")
    (auto simp: createSessionFamily_def)

definition revoke_row :: "string \<Rightarrow> string \<Rightarrow> RefreshSession \<Rightarrow> RefreshSession" where
  "revoke_row f reason s = (if rs_familyId s = f then s\<lparr>isRevoked := True, revocationReason := Some reason\<rparr> else s)"

lemma revoke_row_simps [simp]:
  "rs_familyId (revoke_row f r s) = rs_familyId s" "isRevoked (revoke_row f r s) = (isRevoked s \<or> rs_familyId s = f)"
  "currentJti (revoke_row f r s) = currentJti s" "rotationCounter (revoke_row f r s) = rotationCounter s"
  by (auto simp: revoke_row_def)

lemma revokeFamily_simps [simp]:
  "sessions (revokeFamily c up now f r st) = map (revoke_row f r) (sessions st)"
  "history (revokeFamily c up now f r st) = history st" "securityLog (revokeFamily c up now f r st) = securityLog st"
  by (simp_all add: revokeFamily_def revoke_row_def [abs_def])

section \<open>Tokens that were consumed, families that were revoked\<close>

lemma consumed_step: "consumed st x \<Longrightarrow> consumed (session_step j c em st op) x"
proof (cases op)
  case (Op_create up now f i u e)
  then show "consumed st x \<Longrightarrow> ?thesis"
    by (cases rule: create_cases [of j c up now f i u e st]) (auto simp: consumed_def)
next
  case (Op_rotate up w now i tok)
  then show "consumed st x \<Longrightarrow> ?thesis"
  proof (cases rule: rotate_cases [of j c em up w now i tok st])
    case (rotate d s st' res)
    then show "consumed st x \<Longrightarrow> ?thesis" using transaction_effect(1) [OF rotate(2)] Op_rotate by (fastforce simp: consumed_def)
  qed (auto simp: consumed_def)
qed (simp add: consumed_def)

lemma family_revoked_step: "family_revoked st x \<Longrightarrow> family_revoked (session_step j c em st op) x"
proof (cases op)
  case (Op_create up now f i u e)
  then show "family_revoked st x \<Longrightarrow> ?thesis"
    by (cases rule: create_cases [of j c up now f i u e st]) (auto simp: family_revoked_def)
next
  case (Op_rotate up w now i tok)
  then show "family_revoked st x \<Longrightarrow> ?thesis"
  proof (cases rule: rotate_cases [of j c em up w now i tok st])
    case (rotate d s st' res)
    then show "family_revoked st x \<Longrightarrow> ?thesis" using transaction_effect(2) [OF rotate(2)] Op_rotate by (fastforce simp: family_revoked_def)
  qed (auto simp: family_revoked_def)
qed (auto simp: family_revoked_def)

lemma run_keeps:
  "consumed st x \<Longrightarrow> consumed (foldl (session_step j c em) st ops) x"
  "family_revoked st x \<Longrightarrow> family_revoked (foldl (session_step j c em) st ops) x"
  by (induction ops arbitrary: st) (simp_all add: consumed_step family_revoked_step)

lemma find_history_consumed:
  assumes "session_wf st" "consumed st i"
  shows "\<exists>h. find_history st i = Some h \<and> isConsumed h"
proof -
  obtain h where h: "h \<in> set (history st)" "rh_jti h = i" "isConsumed h" using assms(2) by (auto simp: consumed_def)
  then obtain h' where h': "find_history st i = Some h'"
    by (cases "find_history st i") (auto simp: find_history_def find_None_iff)
  then have "h' \<in> set (history st)" "rh_jti h' = i" by (auto simp: find_history_def find_Some_iff)
  then have "h' = h" using assms(1) h by (auto simp: session_wf_def distinct_map dest: inj_onD)
  then show ?thesis using h' h by simp
qed

lemma find_session_revoked:
  assumes "session_wf st" "family_revoked st f"
  shows "\<exists>s. find_session st f = Some s \<and> isRevoked s"
proof -
  obtain s where s: "s \<in> set (sessions st)" "rs_familyId s = f" "isRevoked s" using assms(2) by (auto simp: family_revoked_def)
  then obtain s' where s': "find_session st f = Some s'"
    by (cases "find_session st f") (auto simp: find_session_def find_None_iff)
  then have "s' \<in> set (sessions st)" "rs_familyId s' = f" by (auto simp: find_session_def find_Some_iff)
  then have "s' = s" using assms(1) s by (auto simp: session_wf_def distinct_map dest: inj_onD)
  then show ?thesis using s' s by simp
qed

section \<open>The invariant\<close>

lemma session_wf_step: "session_wf st \<Longrightarrow> session_wf (session_step j c em st op)"
proof (cases op)
  case (Op_create up now f i u e)
  then show "session_wf st \<Longrightarrow> ?thesis"
    by (cases rule: create_cases [of j c up now f i u e st]) (auto simp: session_wf_def new_session_def)
next
  case (Op_rotate up w now i tok)
  then show "session_wf st \<Longrightarrow> ?thesis"
  proof (cases rule: rotate_cases [of j c em up w now i tok st])
    case (rotate d s st' res)
    note e = transaction_effect [OF rotate(2)]
    have "map rh_jti (map (consume_token now (rp_jti d)) (history st)) = map rh_jti (history st)" by simp
    moreover have "map rs_familyId (sessions st') = map rs_familyId (sessions st)" using e(2) by simp
    ultimately show "session_wf st \<Longrightarrow> ?thesis"
      using rotate e Op_rotate by (auto simp: session_wf_def image_image comp_def)
  qed (auto simp: session_wf_def image_image comp_def)
qed (auto simp: session_wf_def image_image comp_def)

lemma family_tokens_append: "history st' = xs @ ys \<Longrightarrow>
    family_tokens st' f = filter (\<lambda>h. rh_familyId h = f) xs @ filter (\<lambda>h. rh_familyId h = f) ys"
  by (simp add: family_tokens_def)

lemma filter_consume: "filter (\<lambda>h. rh_familyId h = f) (map (consume_token now i) xs) = map (consume_token now i) (filter (\<lambda>h. rh_familyId h = f) xs)"
  by (induction xs) auto

lemma one_active_transaction:
  assumes wf: "session_wf st" and one: "one_active st" and s: "find_session st (rp_familyId d) = Some s" "currentJti s = rp_jti d"
    and t: "rotate_transaction now d s i st = Inr st'"
  shows "one_active st'"
  unfolding one_active_def
proof
  note e = transaction_effect [OF t]
  let ?f = "rp_familyId d"
  have smem: "s \<in> set (sessions st)" "rs_familyId s = ?f" using s(1) by (auto simp: find_session_def find_Some_iff)
  have tok: "map rh_jti (filter (\<lambda>h. \<not> isConsumed h) (family_tokens st ?f)) = [rp_jti d]"
    "rotationCounter s = length (family_tokens st ?f)"
    using one smem s(2) by (auto simp: one_active_def)
  have cur: "h \<in> set (history st) \<Longrightarrow> rh_jti h = rp_jti d \<Longrightarrow> rh_familyId h = ?f" for h
  proof -
    have "rp_jti d \<in> rh_jti ` set (family_tokens st ?f)" using arg_cong [OF tok(1), of set] by auto
    then obtain h' where "h' \<in> set (history st)" "rh_familyId h' = ?f" "rh_jti h' = rp_jti d" by (auto simp: family_tokens_def)
    then show "h \<in> set (history st) \<Longrightarrow> rh_jti h = rp_jti d \<Longrightarrow> rh_familyId h = ?f"
      using wf unfolding session_wf_def distinct_map by (metis inj_onD)
  qed
  fix x' assume "x' \<in> set (sessions st')"
  then obtain x where x: "x \<in> set (sessions st)" "x' = advance_session now ?f i (rotationCounter s + 1) x" using e(2) by auto
  have ft: "family_tokens st' g = map (consume_token now (rp_jti d)) (family_tokens st g)
      @ (if g = ?f then [new_history ?f (rp_userId d) i (rotationCounter s + 1)] else [])" for g
    using family_tokens_append [OF e(1)] by (simp add: filter_consume family_tokens_def)
  show "map rh_jti (filter (\<lambda>h. \<not> isConsumed h) (family_tokens st' (rs_familyId x'))) = [currentJti x']
      \<and> rotationCounter x' = length (family_tokens st' (rs_familyId x'))"
  proof (cases "rs_familyId x = ?f")
    case True
    have "filter (\<lambda>h. \<not> isConsumed h) (map (consume_token now (rp_jti d)) (family_tokens st ?f)) = []"
      using arg_cong [OF tok(1), of set] by (auto simp: filter_empty_conv)
    then show ?thesis using True x tok(2) ft by simp
  next
    case False
    have "map (consume_token now (rp_jti d)) (family_tokens st (rs_familyId x)) = family_tokens st (rs_familyId x)"
      by (rule map_idI) (use False cur in \<open>auto simp: family_tokens_def consume_token_def\<close>)
    then show ?thesis using False x one ft by (simp add: one_active_def)
  qed
qed

lemma one_active_step:
  assumes "session_wf st" "one_active st"
  shows "one_active (session_step j c em st op)"
proof (cases op)
  case (Op_create up now f i u e)
  show ?thesis
  proof (cases rule: create_cases [of j c up now f i u e st])
    case ok
    have "family_tokens st f = []" using assms(1) ok(1) by (auto simp: session_wf_def family_tokens_def filter_empty_conv)
    moreover have "x \<in> set (sessions st) \<Longrightarrow> rs_familyId x \<noteq> f" for x using ok(1) by auto
    ultimately show ?thesis using assms(2) ok Op_create
      by (auto simp: one_active_def new_session_def family_tokens_def filter_empty_conv)
  qed (use assms Op_create in simp)
next
  case (Op_rotate up w now i tok)
  show ?thesis
  proof (cases rule: rotate_cases [of j c em up w now i tok st])
    case (reuse d ev)
    then show ?thesis using assms(2) Op_rotate by (simp add: one_active_def family_tokens_def)
  next
    case (rotate d s st' res)
    have "one_active st'"
      using one_active_transaction [OF assms _ _ rotate(2)] rotate_reads_Rotate [OF rotate(1)] by simp
    then show ?thesis using rotate Op_rotate by (simp add: one_active_def family_tokens_def)
  qed (use assms Op_rotate in simp)
next
  case (Op_revoke up now f r)
  then show ?thesis using assms(2) by (simp add: one_active_def family_tokens_def)
qed

interpretation session_machine: inv_machine "session_step j c em" "\<lambda>st. session_wf st \<and> one_active st" for j c em
  by unfold_locales (simp add: session_wf_step one_active_step)

section \<open>Properties\<close>

lemma rotate_consumes:
  assumes "rotateRefreshToken j c em up w now i token st = (st', Inr res)"
  obtains d where "verifyRefreshToken j now token = Some d" "consumed st' (rp_jti d)"
proof (cases rule: rotate_cases [of j c em up w now i token st])
  case (rotate d s u r)
  have "rp_jti d \<in> rh_jti ` set (history st)" using transaction_effect(4) [OF rotate(2)] .
  then have "consumed u (rp_jti d)" using transaction_effect(1) [OF rotate(2)] by (auto simp: consumed_def)
  then have "consumed st' (rp_jti d)" using rotate(4) assms by (simp add: consumed_def)
  then show thesis using that rotate_reads_Rotate(1) [OF rotate(1)] by blast
qed (use assms in auto)

lemma consumed_rejected:
  assumes "session_wf st" "consumed st (rp_jti d)" "verifyRefreshToken j now token = Some d"
    "rotateRefreshToken j c em up True now i token st = (st', r)"
  shows "r = Inl Session_revoked \<and> st' = st
    \<or> r = Inl Token_reuse \<and> family_revoked st' (rp_familyId d)
      \<and> (\<exists>ev. securityLog st' = securityLog st @ [ev] \<and> re_familyId ev = rp_familyId d \<and> replayedJti ev = rp_jti d)"
proof (cases "isFamilyRevoked c up now (rp_familyId d) st")
  case True
  then show ?thesis using assms(3,4) by (simp add: rotateRefreshToken_def rotate_reads_def)
next
  case False
  show ?thesis
  proof (cases "find_session st (rp_familyId d)")
    case None
    then show ?thesis using False assms(3,4) by (simp add: rotateRefreshToken_def rotate_reads_def)
  next
    case (Some s)
    then have s: "s \<in> set (sessions st)" "rs_familyId s = rp_familyId d" by (auto simp: find_session_def find_Some_iff)
    obtain h where "find_history st (rp_jti d) = Some h" "isConsumed h" using find_history_consumed [OF assms(1,2)] by blast
    moreover have "family_revoked ((revokeFamily c up now (rp_familyId d) q st)\<lparr>securityLog := l\<rparr>) (rp_familyId d)" for l q
      using s by (auto simp: family_revoked_def)
    ultimately show ?thesis using Some False assms(3,4)
      by (auto simp: rotateRefreshToken_def rotate_reads_def rotate_writes_def Let_def split: if_splits)
  qed
qed


text \<open>A revoked family stays revoked: after a family was revoked, by a logout or by a detected reuse, no
  sequence of operations lets one of its refresh tokens be rotated again.\<close>

theorem revoked_family_never_rotates:
  assumes "session_wf st" "family_revoked st f" "verifyRefreshToken j now token = Some d" "rp_familyId d = f"
  shows "snd (rotateRefreshToken j c em up w now i token (foldl (session_step j c em) st ops)) = Inl Session_revoked"
proof -
  have "session_wf (foldl (session_step j c em) st ops)" using assms(1)
    by (induction ops arbitrary: st) (simp_all add: session_wf_step)
  then obtain s where s: "find_session (foldl (session_step j c em) st ops) f = Some s" "isRevoked s"
    using find_session_revoked run_keeps(2) [OF assms(2)] by blast
  have "f \<noteq> []" using assms(3,4) by (auto simp: verifyRefreshToken_def given_def split: option.splits if_splits)
  then show ?thesis using s assms(3,4) by (simp add: rotateRefreshToken_def rotate_reads_def isFamilyRevoked_def)
qed

definition empty_sessions :: "'r \<Rightarrow> 'r session_state" where
  "empty_sessions r = \<lparr>sessions = [], history = [], cache = r, securityLog = []\<rparr>"

text \<open>Every family has one active token: after any sequence of operations on empty tables, the only token of a
  family that was not consumed is the current one of its session, and the rotation counter counts the
  tokens that the family was given.\<close>

theorem family_has_one_active_token:
  "one_active (foldl (session_step j c em) (empty_sessions r) ops)"
  using session_machine.run_inv [of "empty_sessions r" j c em ops]
  by (simp add: empty_sessions_def session_wf_def one_active_def)

section \<open>Concrete runs\<close>

text \<open>A token is its own identifier.\<close>

definition sample_jwt :: jwt_library where
  "sample_jwt = \<lparr>jwt_sign_refresh = (\<lambda>cl now ttl. the (cl_jti cl)), jwt_sign_access = (\<lambda>u e f now. ''access''),
     jwt_verify = (\<lambda>now tok. Some \<lparr>cl_userId = Some ''u'', cl_familyId = Some ''f'', cl_rotationCounter = None, cl_jti = Some tok\<rparr>)\<rparr>"

abbreviation sample_email :: "string \<Rightarrow> string option" where
  "sample_email \<equiv> (\<lambda>u. Some ''mail'')"

definition sample_login :: "MemoryFallbackCache session_state" where
  "sample_login = fst (createSessionFamily sample_jwt mem_redis True 1 ''f'' ''j1'' ''u'' ''mail'' (empty_sessions newMemoryFallbackCache))"

lemma sample_login_wf: "session_wf sample_login"
proof -
  have "session_wf (session_step sample_jwt mem_redis sample_email (empty_sessions newMemoryFallbackCache) (Op_create True 1 ''f'' ''j1'' ''u'' ''mail''))"
    by (rule session_wf_step) (simp add: session_wf_def empty_sessions_def)
  then show ?thesis by (simp add: sample_login_def)
qed

lemma sample_verify: "verifyRefreshToken sample_jwt now ''j1'' = Some \<lparr>rp_userId = ''u'', rp_familyId = ''f'', rp_rotationCounter = None, rp_jti = ''j1''\<rparr>"
  by (simp add: verifyRefreshToken_def sample_jwt_def given_def)


theorem revoked_family_never_rotates_witness:
  "family_revoked (revokeFamily mem_redis True 2 ''f'' ''USER_LOGOUT'' sample_login) ''f''
   \<and> snd (rotateRefreshToken sample_jwt mem_redis sample_email True True 3 ''j2'' ''j1''
        (revokeFamily mem_redis True 2 ''f'' ''USER_LOGOUT'' sample_login)) = Inl Session_revoked"
proof -
  let ?st = "revokeFamily mem_redis True 2 ''f'' ''USER_LOGOUT'' sample_login"
  have wf: "session_wf ?st"
    using session_wf_step [OF sample_login_wf, of sample_jwt mem_redis sample_email "Op_revoke True 2 ''f'' ''USER_LOGOUT''"] by simp
  have f: "family_revoked ?st ''f''" by code_simp
  show ?thesis using revoked_family_never_rotates [OF wf f sample_verify, where c = mem_redis and em = sample_email and up = True
        and w = True and i = "''j2''" and ops = "[]" and now = 3] f by simp
qed

text \<open>Two rotations of the same token whose reads come before the writes of either both succeed: the reads and
  the transaction are not atomic, and the transaction does not test that the token is still unconsumed.\<close>

lemma concurrent_rotations_both_succeed:
  "(let dec = projr (rotate_reads sample_jwt mem_redis True 2 ''j1'' sample_login);
        (st1, r1) = rotate_writes sample_jwt mem_redis sample_email True True 2 ''j2'' dec sample_login;
        (st2, r2) = rotate_writes sample_jwt mem_redis sample_email True True 2 ''j3'' dec st1 in
    \<not> isl r1 \<and> \<not> isl r2 \<and> \<not> consumed st2 ''j2'' \<and> \<not> consumed st2 ''j3'' \<and> \<not> family_revoked st2 ''f'')"
  by code_simp

end
