(* ===== verification/HorizonPool.thy ===== *)
theory HorizonPool
  imports JsValues
begin

text \<open>
  The pool of Horizon nodes (\<open>apps/api/src/lib/horizon-pool.ts\<close>), with the
  record guards it uses (\<open>apps/api/src/types/horizon.ts\<close>).

  The pool is a record; every operation that reads the clock takes the time as an argument. The node
  statistics are kept in a \<open>Map\<close> of objects which are mutated in place and never replaced, so a
  probe that ends after others have changed the statistics works on the current ones: its effect is
  that of one step at the time it ends. A server object of the SDK is represented by its URL. The
  streams are in \<open>HorizonStream\<close>.
\<close>

section \<open>Horizon records\<close>

type_synonym horizon_record = "(string \<times> jsv) list"

definition is_string_field :: "horizon_record \<Rightarrow> string \<Rightarrow> bool" where
  "is_string_field r k = (case map_of r k of Some (JString _) \<Rightarrow> True | _ \<Rightarrow> False)"

text \<open>A field whose declared type is an optional string; an absent one is falsy, as the empty string.\<close>

definition string_field :: "horizon_record \<Rightarrow> string \<Rightarrow> string" where
  "string_field r k = (case map_of r k of Some (JString s) \<Rightarrow> s | _ \<Rightarrow> '''')"

definition isHorizonOperationRecord :: "jsv \<Rightarrow> bool" where
  "isHorizonOperationRecord v =
     (case v of
        JObject r \<Rightarrow>
          let type = string_field r ''type'' in
          if type = '''' then False
          else if \<not> (is_string_field r ''paging_token'' \<and> is_string_field r ''created_at''
                    \<and> (is_string_field r ''transaction_hash'' \<or> is_string_field r ''hash'')) then False
          else if type = ''payment'' then
            is_string_field r ''amount'' \<and> is_string_field r ''from'' \<and> is_string_field r ''to''
          else if type = ''create_account'' then
            is_string_field r ''starting_balance'' \<and> is_string_field r ''funder'' \<and> is_string_field r ''account''
          else True
      | _ \<Rightarrow> False)"

definition asHorizonOperationRecords :: "jsv \<Rightarrow> jsv list" where
  "asHorizonOperationRecords v =
     (case v of JArray vs \<Rightarrow> filter isHorizonOperationRecord vs | _ \<Rightarrow> [])"

definition isHorizonPayment :: "horizon_record \<Rightarrow> bool" where
  "isHorizonPayment r \<longleftrightarrow> map_of r ''type'' = Some (JString ''payment'')"

definition isHorizonCreateAccount :: "horizon_record \<Rightarrow> bool" where
  "isHorizonCreateAccount r \<longleftrightarrow> map_of r ''type'' = Some (JString ''create_account'')"

definition getHorizonPagingToken :: "horizon_record \<Rightarrow> string option" where
  "getHorizonPagingToken r =
     (let t = string_field r ''paging_token'' in if t = '''' then None else Some t)"

definition getHorizonTxHash :: "horizon_record \<Rightarrow> string" where
  "getHorizonTxHash r =
     (let h = string_field r ''transaction_hash'' in if h \<noteq> '''' then h else string_field r ''hash'')"

section \<open>The pool\<close>

record HorizonNodeStats =
  url :: string
  healthy :: bool
  latencyMs :: int
  ledgerHeight :: int
  lastCheckedAt :: int
  consecutiveFailures :: int
  lastError :: "string option"

record HorizonPoolOptions =
  opt_endpoints :: "string list option"
  opt_probeIntervalMs :: "int option"
  opt_maxConsecutiveFailures :: "int option"
  opt_requestTimeoutMs :: "int option"

record HorizonPool =
  endpoints :: "string list"
  nodeStats :: "(string, HorizonNodeStats) jsmap"
  servers :: "string jsset"
  probeTimer :: bool
  probeIntervalMs :: int
  maxConsecutiveFailures :: int
  requestTimeoutMs :: int

definition fresh_stats :: "string \<Rightarrow> HorizonNodeStats" where
  "fresh_stats u = \<lparr>url = u, healthy = True, latencyMs = 0, ledgerHeight = 0, lastCheckedAt = 0,
     consecutiveFailures = 0, lastError = None\<rparr>"

text \<open>The endpoints of the network profile and the time-out of the environment are arguments.\<close>

definition newHorizonPool :: "string list \<Rightarrow> int \<Rightarrow> HorizonPoolOptions \<Rightarrow> HorizonPool" where
  "newHorizonPool network_endpoints env_timeout opts =
     (let eps = (case opt_endpoints opts of
                   Some es \<Rightarrow> if es \<noteq> [] then es else network_endpoints
                 | None \<Rightarrow> network_endpoints) in
      \<lparr>endpoints = eps,
       nodeStats = foldl (\<lambda>m u. AList.update u (fresh_stats u) m) [] eps,
       servers = set_from [] eps,
       probeTimer = False,
       probeIntervalMs = (case opt_probeIntervalMs opts of Some n \<Rightarrow> n | None \<Rightarrow> 30000),
       maxConsecutiveFailures = (case opt_maxConsecutiveFailures opts of Some n \<Rightarrow> n | None \<Rightarrow> 2),
       requestTimeoutMs = (case opt_requestTimeoutMs opts of Some n \<Rightarrow> n | None \<Rightarrow> env_timeout)\<rparr>)"

definition getServer :: "HorizonPool \<Rightarrow> string \<Rightarrow> string \<times> HorizonPool" where
  "getServer p u = (u, p\<lparr>servers := set_add u (servers p)\<rparr>)"

text \<open>A thrown value: its \<open>message\<close> (empty when absent), its \<open>response.status\<close> and its \<open>String()\<close>.\<close>

record thrown =
  message :: string
  status :: "int option"
  rendered :: string

definition err_msg :: "thrown \<Rightarrow> string" where
  "err_msg e = (if message e \<noteq> '''' then message e else rendered e)"

definition isRateLimit :: "thrown \<Rightarrow> bool" where
  "isRateLimit e \<longleftrightarrow> status e = Some 429 \<or> str_includes (err_msg e) ''429''"

definition count_failure :: "int \<Rightarrow> bool \<Rightarrow> HorizonNodeStats \<Rightarrow> HorizonNodeStats" where
  "count_failure mx limited st =
     (let st1 = st\<lparr>consecutiveFailures := consecutiveFailures st + (if limited then mx else 1)\<rparr> in
      if consecutiveFailures st1 \<ge> mx then st1\<lparr>healthy := False\<rparr> else st1)"

text \<open>What the request for the newest ledger gives: the sequence of the first record, or an error.\<close>

datatype probe_outcome = Answered "int option" | Rejected thrown

definition probeNode ::
  "HorizonPool \<Rightarrow> string \<Rightarrow> int \<Rightarrow> probe_outcome \<Rightarrow> int \<Rightarrow> int \<Rightarrow> HorizonNodeStats \<times> HorizonPool" where
  "probeNode p u start outcome answered_at checked_at =
     (let stats = (case map_of (nodeStats p) u of Some st \<Rightarrow> st | None \<Rightarrow> fresh_stats u);
          p1 = snd (getServer p u);
          latency = answered_at - start;
          stats' = (case outcome of
             Answered sequence \<Rightarrow>
               stats\<lparr>healthy := True, latencyMs := latency,
                     ledgerHeight := (case sequence of Some n \<Rightarrow> n | None \<Rightarrow> 0),
                     consecutiveFailures := 0, lastError := None, lastCheckedAt := checked_at\<rparr>
           | Rejected e \<Rightarrow>
               (count_failure (maxConsecutiveFailures p) (isRateLimit e) stats)
                 \<lparr>latencyMs := latency, lastError := Some (err_msg e), lastCheckedAt := checked_at\<rparr>) in
      (stats', p1\<lparr>nodeStats := AList.update u stats' (nodeStats p1)\<rparr>))"

text \<open>
  One probe per endpoint; the list has the probes in the order in which they end. The results are the
  objects of the map, in the order of the endpoints.
\<close>

type_synonym probe = "string \<times> int \<times> probe_outcome \<times> int \<times> int"

definition probe_step :: "HorizonPool \<Rightarrow> probe \<Rightarrow> HorizonPool" where
  "probe_step p = (\<lambda>(u, start, outcome, t1, t2). snd (probeNode p u start outcome t1 t2))"

definition probeAll :: "HorizonPool \<Rightarrow> probe list \<Rightarrow> HorizonNodeStats option list \<times> HorizonPool" where
  "probeAll p probes =
     (let p' = foldl probe_step p probes in (map (map_of (nodeStats p')) (endpoints p'), p'))"

text \<open>Starting also tells whether a first round of probes is launched.\<close>

definition startHealthProbing :: "HorizonPool \<Rightarrow> bool \<times> HorizonPool" where
  "startHealthProbing p = (if probeTimer p then (False, p) else (True, p\<lparr>probeTimer := True\<rparr>))"

definition stopHealthProbing :: "HorizonPool \<Rightarrow> HorizonPool" where
  "stopHealthProbing p = (if probeTimer p then p\<lparr>probeTimer := False\<rparr> else p)"

text \<open>The error is \<^const>\<open>None\<close> when the argument is missing or falsy.\<close>

definition mark_msg :: "thrown option \<Rightarrow> string" where
  "mark_msg err = (case err of Some e \<Rightarrow> err_msg e | None \<Rightarrow> ''Node request failed'')"

definition mark_limited :: "thrown option \<Rightarrow> bool" where
  "mark_limited err \<longleftrightarrow>
     (case err of Some e \<Rightarrow> status e = Some 429 | None \<Rightarrow> False) \<or> str_includes (mark_msg err) ''429''"

definition markNodeFailure :: "HorizonPool \<Rightarrow> string \<Rightarrow> thrown option \<Rightarrow> int \<Rightarrow> HorizonPool" where
  "markNodeFailure p u err now =
     (case map_of (nodeStats p) u of
        None \<Rightarrow> p
      | Some stats \<Rightarrow>
          p\<lparr>nodeStats := AList.update u
             ((count_failure (maxConsecutiveFailures p) (mark_limited err) stats)
                \<lparr>lastError := Some (mark_msg err), lastCheckedAt := now\<rparr>) (nodeStats p)\<rparr>)"

definition node_healthy :: "HorizonPool \<Rightarrow> string \<Rightarrow> bool" where
  "node_healthy p u \<longleftrightarrow> (case map_of (nodeStats p) u of Some st \<Rightarrow> healthy st | None \<Rightarrow> False)"

definition node_failures :: "HorizonPool \<Rightarrow> string \<Rightarrow> int" where
  "node_failures p u = (case map_of (nodeStats p) u of Some st \<Rightarrow> consecutiveFailures st | None \<Rightarrow> 0)"

text \<open>The fallback loop; \<open>minFailures\<close> is \<^const>\<open>None\<close> for infinity.\<close>

fun fewest_failures ::
  "HorizonPool \<Rightarrow> string list \<Rightarrow> string option \<Rightarrow> int option \<Rightarrow> string option" where
  "fewest_failures p [] bestUrl minFailures = bestUrl"
| "fewest_failures p (u # us) bestUrl minFailures =
     (if (case minFailures of None \<Rightarrow> True | Some m \<Rightarrow> node_failures p u < m)
      then fewest_failures p us (Some u) (Some (node_failures p u))
      else fewest_failures p us bestUrl minFailures)"

definition getActiveNode :: "HorizonPool \<Rightarrow> string option" where
  "getActiveNode p =
     (case find (node_healthy p) (endpoints p) of
        Some u \<Rightarrow> Some u
      | None \<Rightarrow>
          fewest_failures p (endpoints p)
            (case endpoints p of [] \<Rightarrow> None | u # _ \<Rightarrow> Some u) None)"

definition getActiveServer :: "HorizonPool \<Rightarrow> (string \<times> HorizonPool) option" where
  "getActiveServer p = map_option (getServer p) (getActiveNode p)"

section \<open>Which node is active\<close>

text \<open>The first position of a list at which a function is smallest.\<close>

definition first_least :: "('a \<Rightarrow> int) \<Rightarrow> 'a list \<Rightarrow> nat \<Rightarrow> bool" where
  "first_least f xs k \<longleftrightarrow> k < length xs \<and> (\<forall>j < length xs. f (xs ! k) \<le> f (xs ! j))
     \<and> (\<forall>j < k. f (xs ! k) < f (xs ! j))"

lemma first_least_snoc:
  assumes "first_least f xs k"
  shows "first_least f (xs @ [x]) (if f x < f (xs ! k) then length xs else k)"
proof (cases "f x < f (xs ! k)")
  case True
  then have "f x < f (xs ! j)" if "j < length xs" for j
    using assms that unfolding first_least_def by fastforce
  then show ?thesis using True by (auto simp: first_least_def nth_append less_Suc_eq less_imp_le)
next
  case False
  then show ?thesis using assms by (auto simp: first_least_def nth_append less_Suc_eq)
qed

lemma fewest_failures_least:
  assumes "first_least (node_failures p) pre i"
  shows "\<exists>k. fewest_failures p us (Some (pre ! i)) (Some (node_failures p (pre ! i))) = Some ((pre @ us) ! k)
    \<and> first_least (node_failures p) (pre @ us) k"
  using assms
proof (induction us arbitrary: pre i)
  case Nil
  then show ?case by (auto simp: first_least_def)
next
  case (Cons u us)
  let ?k = "if node_failures p u < node_failures p (pre ! i) then length pre else i"
  have "first_least (node_failures p) (pre @ [u]) ?k" by (rule first_least_snoc[OF Cons.prems])
  from Cons.IH[OF this] show ?case
    using Cons.prems by (cases "node_failures p u < node_failures p (pre ! i)")
      (auto simp: nth_append first_least_def)
qed

lemma find_first:
  "find P xs = Some x \<longleftrightarrow> (\<exists>i < length xs. xs ! i = x \<and> P x \<and> (\<forall>j < i. \<not> P (xs ! j)))"
  by (auto simp: find_Some_iff)

lemma getActiveNode_healthy:
  assumes "u \<in> set (endpoints p)" "node_healthy p u"
  shows "\<exists>i < length (endpoints p). getActiveNode p = Some (endpoints p ! i)
    \<and> node_healthy p (endpoints p ! i) \<and> (\<forall>j < i. \<not> node_healthy p (endpoints p ! j))"
proof -
  have "find (node_healthy p) (endpoints p) \<noteq> None" using assms by (auto simp: find_None_iff)
  then obtain v where v: "find (node_healthy p) (endpoints p) = Some v" by auto
  then have "getActiveNode p = Some v" by (simp add: getActiveNode_def)
  with v[unfolded find_first] show ?thesis by auto
qed

lemma getActiveNode_unhealthy:
  assumes "endpoints p \<noteq> []" "\<forall>u \<in> set (endpoints p). \<not> node_healthy p u"
  shows "\<exists>i. getActiveNode p = Some (endpoints p ! i) \<and> first_least (node_failures p) (endpoints p) i"
proof -
  obtain u us where e: "endpoints p = u # us" using assms(1) by (cases "endpoints p") auto
  have "find (node_healthy p) (endpoints p) = None" using assms(2) by (auto simp: find_None_iff)
  then have "getActiveNode p = fewest_failures p us (Some u) (Some (node_failures p u))"
    by (simp add: getActiveNode_def e)
  then show ?thesis
    using fewest_failures_least[of p "[u]" 0 us] by (simp add: e first_least_def)
qed

lemma getActiveNode_endpoint: "endpoints p \<noteq> [] \<Longrightarrow> \<exists>u \<in> set (endpoints p). getActiveNode p = Some u"
  using getActiveNode_healthy[of _ p] getActiveNode_unhealthy[of p] unfolding first_least_def
  by (metis nth_mem)

section \<open>Node health over a history of probes and failures\<close>

datatype pool_event = ProbeEnded probe | Marked string "thrown option" int

fun pool_step :: "HorizonPool \<Rightarrow> pool_event \<Rightarrow> HorizonPool" where
  "pool_step p (ProbeEnded pr) = probe_step p pr"
| "pool_step p (Marked u err now) = markNodeFailure p u err now"

text \<open>
  The specification counts the failures of a node since it last answered a probe, a rate limit as many
  as make a node unhealthy.
\<close>

fun failures_step :: "int \<Rightarrow> string \<Rightarrow> int \<Rightarrow> pool_event \<Rightarrow> int" where
  "failures_step mx u n (ProbeEnded (v, _, Answered _, _, _)) = (if v = u then 0 else n)"
| "failures_step mx u n (ProbeEnded (v, _, Rejected e, _, _)) =
     (if v = u then n + (if isRateLimit e then mx else 1) else n)"
| "failures_step mx u n (Marked v err _) =
     (if v = u then n + (if mark_limited err then mx else 1) else n)"

definition failures_since_answer :: "int \<Rightarrow> string \<Rightarrow> pool_event list \<Rightarrow> int" where
  "failures_since_answer mx u es = foldl (failures_step mx u) 0 es"

definition pool_tracks :: "string list \<Rightarrow> int \<Rightarrow> (string \<Rightarrow> int) \<Rightarrow> HorizonPool \<Rightarrow> bool" where
  "pool_tracks eps mx f p \<longleftrightarrow> endpoints p = eps \<and> maxConsecutiveFailures p = mx
     \<and> (\<forall>u \<in> set eps. \<exists>st. map_of (nodeStats p) u = Some st \<and> consecutiveFailures st = f u
          \<and> (healthy st \<longleftrightarrow> f u < mx) \<and> 0 \<le> f u)"

lemma count_failure_simps:
  "consecutiveFailures (count_failure mx l st) = consecutiveFailures st + (if l then mx else 1)"
  "healthy (count_failure mx l st) \<longleftrightarrow>
     healthy st \<and> consecutiveFailures st + (if l then mx else 1) < mx"
  by (auto simp: count_failure_def Let_def)

lemma pool_tracks_step:
  assumes "pool_tracks eps mx f p" "0 < mx"
  shows "pool_tracks eps mx (\<lambda>u. failures_step mx u (f u) e) (pool_step p e)"
proof (cases e)
  case (ProbeEnded pr)
  obtain v s out t1 t2 where pr: "pr = (v, s, out, t1, t2)" by (cases pr) auto
  show ?thesis using assms
    by (cases out) (auto simp: ProbeEnded pr pool_tracks_def probe_step_def probeNode_def getServer_def
        Let_def count_failure_simps)
next
  case (Marked v err now)
  show ?thesis using assms
    by (auto simp: Marked pool_tracks_def markNodeFailure_def count_failure_simps split: option.splits)
qed

lemma endpoints_new: "net \<noteq> [] \<Longrightarrow> endpoints (newHorizonPool net tmo opts) \<noteq> []"
  by (auto simp: newHorizonPool_def Let_def split: option.splits)

lemma map_of_fresh:
  "map_of (foldl (\<lambda>m u. AList.update u (fresh_stats u) m) m us) u =
   (if u \<in> set us then Some (fresh_stats u) else map_of m u)"
  by (induction us arbitrary: m) auto

lemma fresh_stats_simps: "consecutiveFailures (fresh_stats u) = 0" "healthy (fresh_stats u)"
  by (simp_all add: fresh_stats_def)

lemma pool_tracks_new:
  "p = newHorizonPool net tmo opts \<Longrightarrow> 0 < maxConsecutiveFailures p \<Longrightarrow>
   pool_tracks (endpoints p) (maxConsecutiveFailures p) (\<lambda>_. 0) p"
  by (auto simp: pool_tracks_def newHorizonPool_def Let_def map_of_fresh fresh_stats_simps)

lemma pool_tracks_run:
  assumes "p = newHorizonPool net tmo opts" "0 < maxConsecutiveFailures p"
  shows "pool_tracks (endpoints p) (maxConsecutiveFailures p)
    (\<lambda>u. failures_since_answer (maxConsecutiveFailures p) u es) (foldl pool_step p es)"
proof (induction es rule: rev_induct)
  case Nil
  then show ?case using pool_tracks_new[OF assms] by (simp add: failures_since_answer_def)
next
  case (snoc e es)
  then show ?case
    using pool_tracks_step[OF snoc assms(2), of e] by (simp add: failures_since_answer_def)
qed

lemma pool_tracks_nodes:
  assumes "pool_tracks eps mx f p" "u \<in> set eps"
  shows "node_failures p u = f u" "node_healthy p u \<longleftrightarrow> f u < mx"
  using assms by (fastforce simp: pool_tracks_def node_failures_def node_healthy_def)+

lemma first_least_cong: "(\<And>x. x \<in> set xs \<Longrightarrow> f x = g x) \<Longrightarrow> first_least f xs k = first_least g xs k"
  by (auto simp: first_least_def)

text \<open>After any history of probes and reported failures the active node is determined by how often
  each endpoint has failed since it last answered a probe, a rate limit counting as the threshold: it is
  the first endpoint in priority order whose count is below the threshold, and when there is none, the
  first among the endpoints with the smallest count.\<close>

theorem active_node_follows_history:
  assumes "p = newHorizonPool net tmo opts" "net \<noteq> []" "0 < maxConsecutiveFailures p"
    and "fails = (\<lambda>u. failures_since_answer (maxConsecutiveFailures p) u es)"
  shows "\<exists>i < length (endpoints p). getActiveNode (foldl pool_step p es) = Some (endpoints p ! i)
    \<and> (if \<exists>u \<in> set (endpoints p). fails u < maxConsecutiveFailures p
       then fails (endpoints p ! i) < maxConsecutiveFailures p
         \<and> (\<forall>j < i. maxConsecutiveFailures p \<le> fails (endpoints p ! j))
       else first_least fails (endpoints p) i)"
proof -
  let ?q = "foldl pool_step p es" and ?eps = "endpoints p"
  have t: "pool_tracks ?eps (maxConsecutiveFailures p) fails ?q"
    using pool_tracks_run[OF assms(1,3)] assms(4) by simp
  note n = pool_tracks_nodes[OF t]
  have e: "endpoints ?q = ?eps" using t by (simp add: pool_tracks_def)
  show ?thesis
  proof (cases "\<exists>u \<in> set ?eps. fails u < maxConsecutiveFailures p")
    case True
    then obtain u where "u \<in> set (endpoints ?q)" "node_healthy ?q u" using n(2) e by auto
    from getActiveNode_healthy[OF this] obtain i where i: "i < length ?eps"
        "getActiveNode ?q = Some (?eps ! i)" "node_healthy ?q (?eps ! i)"
        "\<forall>j < i. \<not> node_healthy ?q (?eps ! j)" unfolding e by blast
    then have "\<forall>j < i. maxConsecutiveFailures p \<le> fails (?eps ! j)" using n(2) by (simp add: not_less)
    then show ?thesis using True i n(2) by auto
  next
    case False
    have "endpoints ?q \<noteq> []" using assms(1,2) e endpoints_new by simp
    from getActiveNode_unhealthy[OF this] show ?thesis
      using False n(2) e first_least_cong[of ?eps "node_failures ?q" fails, OF n(1)]
      by (auto simp: first_least_def)
  qed
qed

text \<open>The default pool with two endpoints, the first of which was rate limited and the second failed once.\<close>

definition default_pool_options :: HorizonPoolOptions where
  "default_pool_options = \<lparr>opt_endpoints = None, opt_probeIntervalMs = None,
     opt_maxConsecutiveFailures = None, opt_requestTimeoutMs = None\<rparr>"

definition rate_limited :: thrown where
  "rate_limited = \<lparr>message = ''Too Many Requests'', status = Some 429, rendered = ''Error''\<rparr>"

definition unavailable :: thrown where
  "unavailable = \<lparr>message = ''Service Unavailable'', status = Some 503, rendered = ''Error''\<rparr>"

theorem active_node_follows_history_witness:
  "getActiveNode (foldl pool_step (newHorizonPool [''a'', ''b''] 5000 default_pool_options)
     [Marked ''a'' (Some rate_limited) 7, Marked ''b'' (Some unavailable) 8]) = Some ''b''"
proof -
  let ?p = "newHorizonPool [''a'', ''b''] 5000 default_pool_options"
  let ?es = "[Marked ''a'' (Some rate_limited) 7, Marked ''b'' (Some unavailable) 8]"
  have p: "maxConsecutiveFailures ?p = 2" "endpoints ?p = [''a'', ''b'']"
    by (simp_all add: newHorizonPool_def default_pool_options_def)
  have l: "mark_limited (Some rate_limited)" "\<not> mark_limited (Some unavailable)"
    by code_simp+
  then have c: "failures_since_answer 2 ''a'' ?es = 2" "failures_since_answer 2 ''b'' ?es = 1"
    by (simp_all add: failures_since_answer_def)
  show ?thesis
    using active_node_follows_history [where p = ?p and es = ?es, OF refl _ _ refl]
    by (auto simp: p c less_Suc_eq numeral_2_eq_2 l)
qed

section \<open>Rounds of probes\<close>

lemma probeNode_stats:
  "nodeStats (snd (probeNode p u s out t1 t2)) = AList.update u (fst (probeNode p u s out t1 t2)) (nodeStats p)"
  "maxConsecutiveFailures (snd (probeNode p u s out t1 t2)) = maxConsecutiveFailures p"
  "endpoints (snd (probeNode p u s out t1 t2)) = endpoints p"
  by (simp_all add: probeNode_def getServer_def Let_def)

lemma probeNode_local:
  "map_of (nodeStats p) u = map_of (nodeStats q) u \<Longrightarrow> maxConsecutiveFailures p = maxConsecutiveFailures q
   \<Longrightarrow> fst (probeNode p u s out t1 t2) = fst (probeNode q u s out t1 t2)"
  by (simp add: probeNode_def Let_def split: probe_outcome.splits)

lemma foldl_probe_step_fixed:
  "endpoints (foldl probe_step p probes) = endpoints p
   \<and> maxConsecutiveFailures (foldl probe_step p probes) = maxConsecutiveFailures p"
  by (induction probes arbitrary: p) (auto simp: probe_step_def probeNode_stats split: prod.splits)

lemma foldl_probe_step_stats:
  assumes "distinct (map fst probes)"
  shows "map_of (nodeStats (foldl probe_step p probes)) u =
    (case map_of probes u of
       None \<Rightarrow> map_of (nodeStats p) u
     | Some (s, out, t1, t2) \<Rightarrow> Some (fst (probeNode p u s out t1 t2)))"
  using assms
proof (induction probes arbitrary: p)
  case (Cons pr probes)
  obtain v s out t1 t2 where pr: "pr = (v, s, out, t1, t2)" by (cases pr) auto
  let ?q = "probe_step p pr"
  have q: "map_of (nodeStats ?q) w = (if w = v then Some (fst (probeNode p v s out t1 t2)) else map_of (nodeStats p) w)"
    "maxConsecutiveFailures ?q = maxConsecutiveFailures p" for w
    by (simp_all add: pr probe_step_def probeNode_stats)
  have "map_of probes v = None" using Cons.prems by (auto simp: pr map_of_eq_None_iff)
  then show ?case
    using Cons q probeNode_local[of ?q u p] by (auto simp: pr split: option.splits)
qed simp

text \<open>The outcome of a round of probes, one per endpoint, does not depend on the order in which the
  requests end: the results and the statistics of every node are the same.\<close>

theorem probe_round_order_irrelevant:
  assumes "distinct (map fst probes)" "mset probes = mset probes'"
  shows "fst (probeAll p probes) = fst (probeAll p probes')
    \<and> map_of (nodeStats (snd (probeAll p probes))) = map_of (nodeStats (snd (probeAll p probes')))"
proof -
  have d: "distinct (map fst probes')" using assms by (metis mset_eq_imp_distinct_iff mset_map)
  have "map_of probes = map_of probes'"
    using assms d by (metis map_of_inject_set set_mset_mset)
  then have "map_of (nodeStats (foldl probe_step p probes)) = map_of (nodeStats (foldl probe_step p probes'))"
    by (intro ext) (simp add: foldl_probe_step_stats assms(1) d)
  then show ?thesis by (simp add: probeAll_def Let_def foldl_probe_step_fixed)
qed

text \<open>Two nodes that answer and fail in either order.\<close>

theorem probe_round_order_irrelevant_witness:
  "fst (probeAll (newHorizonPool [''a'', ''b''] 5000 default_pool_options)
      [(''a'', 0, Answered (Some 51), 4, 4), (''b'', 0, Rejected unavailable, 9, 9)]) =
   fst (probeAll (newHorizonPool [''a'', ''b''] 5000 default_pool_options)
      [(''b'', 0, Rejected unavailable, 9, 9), (''a'', 0, Answered (Some 51), 4, 4)])"
  using probe_round_order_irrelevant [of "[(''a'', 0, Answered (Some 51), 4, 4), (''b'', 0, Rejected unavailable, 9, 9)]"
      "[(''b'', 0, Rejected unavailable, 9, 9), (''a'', 0, Answered (Some 51), 4, 4)]"]
  by simp

section \<open>Where the code and its comments differ\<close>

lemma getActiveNode_first: "endpoints p = u # us \<Longrightarrow> node_healthy p u \<Longrightarrow> getActiveNode p = Some u"
  by (simp add: getActiveNode_def)

text \<open>
  With the default threshold of two, one server error that is not a rate limit leaves the node the
  active one, although the failure is documented to rotate to the next node.
\<close>

lemma one_server_error_keeps_node:
  assumes "p = newHorizonPool (u # us) tmo default_pool_options" "\<not> mark_limited err"
  shows "getActiveNode (markNodeFailure p u err now) = Some u"
proof (rule getActiveNode_first)
  have m: "map_of (nodeStats p) u = Some (fresh_stats u)" "maxConsecutiveFailures p = 2"
    using map_of_fresh[of "[]" "u # us" u] by (simp_all add: assms(1) newHorizonPool_def default_pool_options_def)
  then show "node_healthy (markNodeFailure p u err now) u"
    using assms(2) by (simp add: node_healthy_def markNodeFailure_def count_failure_simps fresh_stats_simps)
  show "endpoints (markNodeFailure p u err now) = u # us"
    using m by (simp add: assms(1) markNodeFailure_def newHorizonPool_def default_pool_options_def)
qed

text \<open>When all nodes are unhealthy, the node with the fewest failures is taken, whatever its latency.\<close>

lemma fallback_ignores_latency:
  "getActiveNode (foldl pool_step (newHorizonPool [''a'', ''b''] 5000 default_pool_options)
     [ProbeEnded (''a'', 0, Rejected rate_limited, 9000, 9000), ProbeEnded (''b'', 0, Rejected unavailable, 20, 20),
      ProbeEnded (''b'', 0, Rejected rate_limited, 20, 20)]) = Some ''a''"
  by code_simp

text \<open>
  Reported failures alone never make a node healthy again: only an answered probe does, and no code
  of the repository starts the probing.
\<close>

lemma unprobed_node_stays_unhealthy:
  assumes "\<not> node_healthy p u" "map_of (nodeStats p) u \<noteq> None"
  shows "\<not> node_healthy (foldl pool_step p (map (\<lambda>(v, err, now). Marked v err now) failures)) u"
  using assms
proof (induction failures arbitrary: p)
  case (Cons f failures)
  obtain v err now where f: "f = (v, err, now)" by (cases f) auto
  have "\<not> node_healthy (markNodeFailure p v err now) u" "map_of (nodeStats (markNodeFailure p v err now)) u \<noteq> None"
    using Cons.prems by (auto simp: markNodeFailure_def node_healthy_def count_failure_simps split: option.splits)
  then show ?case using Cons.IH by (simp add: f)
qed simp

end
