(* ===== verification/HorizonStream.thy ===== *)
theory HorizonStream
  imports HorizonPool
begin

text \<open>
  The payment stream with failover of the Horizon pool,
  \<open>HorizonPool.streamPaymentsWithFailover\<close> in \<open>apps/api/src/lib/horizon-pool.ts\<close>.

  The variables of the closure are the state; the events are the callbacks of the SDK, the reconnect
  timer, the caller's close function and the changes other users make to the pool. A callback belongs
  to the connection it was registered with, also when that connection is no longer the active one.
  What the stream does to its environment (connections, calls of \<open>onMessage\<close> and \<open>onError\<close>) is its
  log. \<open>onError\<close> may call the close function, which the event tells. As with \<open>EventSource\<close>, no
  callback is called while a connection is being made.
\<close>

section \<open>The machine\<close>

datatype stream_call =
    Connected string string string
  | Dispatched horizon_record string
  | Reported "thrown option" string

record stream_state =
  pool :: HorizonPool
  publicKey :: string
  hasOnError :: bool
  isClosed :: bool
  currentCursor :: string
  activeCloseFn :: "nat option"
  reconnectTimeout :: bool
  seenTokens :: "string jsset"
  connections :: "string list"
  closedConnections :: "nat list"
  log :: "stream_call list"

text \<open>
  \<open>connections\<close> has the node of every connection made, the variable \<open>nodeUrl\<close> of its callbacks;
  \<open>activeCloseFn\<close> is the number of the connection it closes, \<open>closedConnections\<close> the connections
  that were closed.
\<close>

definition max_seen :: nat where
  "max_seen = 10000"

definition call_active_close :: "stream_state \<Rightarrow> stream_state" where
  "call_active_close s =
     (case activeCloseFn s of
        None \<Rightarrow> s
      | Some i \<Rightarrow> s\<lparr>closedConnections := i # closedConnections s, activeCloseFn := None\<rparr>)"

definition close_stream :: "stream_state \<Rightarrow> stream_state" where
  "close_stream s =
     (call_active_close (s\<lparr>isClosed := True, reconnectTimeout := False\<rparr>))\<lparr>seenTokens := []\<rparr>"

definition report_error :: "stream_state \<Rightarrow> thrown option \<Rightarrow> string \<Rightarrow> bool \<Rightarrow> stream_state" where
  "report_error s err u closes =
     (if hasOnError s then
        let s1 = s\<lparr>log := log s @ [Reported err u]\<rparr> in if closes then close_stream s1 else s1
      else s)"

text \<open>
  The outcome of a connection attempt is \<^const>\<open>None\<close> when the SDK returns, and otherwise what it throws.
  Without a node, \<open>new Server(undefined)\<close> throws before anything is written.
\<close>

type_synonym attempt = "thrown option option \<times> int \<times> bool"

definition connectToNextNode :: "stream_state \<Rightarrow> attempt \<Rightarrow> stream_state" where
  "connectToNextNode s = (\<lambda>(outcome, now, closes).
     if isClosed s then s
     else case getActiveNode (pool s) of
       None \<Rightarrow> s
     | Some nodeUrl \<Rightarrow>
         let s1 = s\<lparr>pool := snd (getServer (pool s) nodeUrl)\<rparr> in
         (case outcome of
            None \<Rightarrow>
              s1\<lparr>activeCloseFn := Some (length (connections s)), connections := connections s @ [nodeUrl],
                 log := log s @ [Connected (publicKey s) nodeUrl (currentCursor s)]\<rparr>
          | Some connErr \<Rightarrow>
              let s2 = s1\<lparr>pool := markNodeFailure (pool s1) nodeUrl connErr now\<rparr>;
                  s3 = report_error s2 connErr nodeUrl closes in
              if \<not> reconnectTimeout s3 \<and> \<not> isClosed s3 then s3\<lparr>reconnectTimeout := True\<rparr> else s3))"

definition record_token :: "horizon_record \<Rightarrow> string option" where
  "record_token r =
     (case getHorizonPagingToken r of
        Some t \<Rightarrow> Some t
      | None \<Rightarrow> (let h = getHorizonTxHash r in if h = '''' then None else Some h))"

definition remember_token :: "stream_state \<Rightarrow> string \<Rightarrow> stream_state" where
  "remember_token s t =
     (let seen = set_add t (seenTokens s) in
      s\<lparr>currentCursor := t, seenTokens := (if length seen > max_seen then drop 1 seen else seen)\<rparr>)"

definition onmessage :: "stream_state \<Rightarrow> nat \<Rightarrow> jsv \<Rightarrow> stream_state" where
  "onmessage s i v =
     (if isClosed s \<or> \<not> isHorizonOperationRecord v then s
      else case v of
        JObject r \<Rightarrow>
          (case record_token r of
             None \<Rightarrow> s\<lparr>log := log s @ [Dispatched r (connections s ! i)]\<rparr>
           | Some t \<Rightarrow>
               if t \<in> set (seenTokens s) then s
               else (remember_token s t)\<lparr>log := log s @ [Dispatched r (connections s ! i)]\<rparr>)
      | _ \<Rightarrow> s)"

definition onerror :: "stream_state \<Rightarrow> nat \<Rightarrow> thrown option \<Rightarrow> int \<Rightarrow> bool \<Rightarrow> stream_state" where
  "onerror s i err now closes =
     (if isClosed s then s
      else
        let nodeUrl = connections s ! i;
            s1 = s\<lparr>pool := markNodeFailure (pool s) nodeUrl err now\<rparr>;
            s2 = report_error s1 err nodeUrl closes;
            s3 = call_active_close s2 in
        if \<not> reconnectTimeout s3 then s3\<lparr>reconnectTimeout := True\<rparr> else s3)"

datatype stream_event =
    Message nat jsv
  | HandlerFailed nat "thrown option" bool
  | StreamError nat "thrown option" int bool
  | TimerFired attempt
  | CloseCalled
  | PoolChanged pool_event

text \<open>
  The callbacks exist for the connections that were made, the timer fires when it is set. A rejected
  \<open>onMessage\<close> is reported when it rejects.
\<close>

fun stream_step :: "stream_state \<Rightarrow> stream_event \<Rightarrow> stream_state" where
  "stream_step s (Message i v) = (if i < length (connections s) then onmessage s i v else s)"
| "stream_step s (HandlerFailed i err closes) =
     (if i < length (connections s) then report_error s err (connections s ! i) closes else s)"
| "stream_step s (StreamError i err now closes) =
     (if i < length (connections s) then onerror s i err now closes else s)"
| "stream_step s (TimerFired att) =
     (if reconnectTimeout s then connectToNextNode (s\<lparr>reconnectTimeout := False\<rparr>) att else s)"
| "stream_step s CloseCalled = close_stream s"
| "stream_step s (PoolChanged e) = s\<lparr>pool := pool_step (pool s) e\<rparr>"

definition streamPaymentsWithFailover ::
  "HorizonPool \<Rightarrow> string \<Rightarrow> string \<Rightarrow> bool \<Rightarrow> thrown option option \<Rightarrow> int \<Rightarrow> stream_state" where
  "streamPaymentsWithFailover p key initialCursor has_on_error outcome now =
     connectToNextNode
       \<lparr>pool = p, publicKey = key, hasOnError = has_on_error, isClosed = False,
        currentCursor = initialCursor, activeCloseFn = None, reconnectTimeout = False,
        seenTokens = [], connections = [], closedConnections = [], log = []\<rparr> (outcome, now, False)"

section \<open>One connection or a pending reconnect\<close>

definition open_connections :: "stream_state \<Rightarrow> nat set" where
  "open_connections s = {..<length (connections s)} - set (closedConnections s)"

definition stream_ok :: "stream_state \<Rightarrow> bool" where
  "stream_ok s \<longleftrightarrow> endpoints (pool s) \<noteq> []
     \<and> (if isClosed s then activeCloseFn s = None else (reconnectTimeout s \<longleftrightarrow> activeCloseFn s = None))
     \<and> open_connections s = set_option (activeCloseFn s)
     \<and> set (closedConnections s) \<subseteq> {..<length (connections s)}"

lemma endpoints_mark [simp]: "endpoints (markNodeFailure p u err now) = endpoints p"
  by (simp add: markNodeFailure_def split: option.splits)

lemma endpoints_server [simp]: "endpoints (snd (getServer p u)) = endpoints p"
  by (simp add: getServer_def)

lemma endpoints_pool_step [simp]: "endpoints (pool_step p e) = endpoints p"
  by (cases e) (simp_all add: probe_step_def probeNode_stats split: prod.splits)

lemma call_active_close_simps [simp]:
  "isClosed (call_active_close s) = isClosed s"
  "activeCloseFn (call_active_close s) = None"
  "reconnectTimeout (call_active_close s) = reconnectTimeout s"
  "connections (call_active_close s) = connections s"
  "pool (call_active_close s) = pool s"
  "log (call_active_close s) = log s"
  "seenTokens (call_active_close s) = seenTokens s"
  "currentCursor (call_active_close s) = currentCursor s"
  "publicKey (call_active_close s) = publicKey s"
  "set (closedConnections (call_active_close s)) = set (closedConnections s) \<union> set_option (activeCloseFn s)"
  by (auto simp: call_active_close_def split: option.splits)

lemma stream_ok_close: "stream_ok s \<Longrightarrow> stream_ok (close_stream s)"
  by (auto simp: stream_ok_def close_stream_def open_connections_def)

lemma stream_ok_report: "stream_ok s \<Longrightarrow> stream_ok (report_error s err u closes)"
  using stream_ok_close[of "s\<lparr>log := log s @ [Reported err u]\<rparr>"]
  by (auto simp: report_error_def Let_def stream_ok_def open_connections_def)

lemma stream_ok_onmessage: "stream_ok s \<Longrightarrow> stream_ok (onmessage s i v)"
  by (auto simp: onmessage_def remember_token_def stream_ok_def open_connections_def Let_def
      split: jsv.splits option.splits)

lemma stream_ok_onerror:
  assumes "stream_ok s" shows "stream_ok (onerror s i err now closes)"
proof -
  let ?s2 = "report_error (s\<lparr>pool := markNodeFailure (pool s) (connections s ! i) err now\<rparr>)
    err (connections s ! i) closes"
  have "stream_ok ?s2" using assms
    by (intro stream_ok_report) (simp add: stream_ok_def open_connections_def)
  then show ?thesis using assms
    by (auto simp: onerror_def Let_def stream_ok_def open_connections_def)
qed

text \<open>What \<^const>\<open>connectToNextNode\<close> needs: it is called with no timer set and no connection active.\<close>

definition idle_ok :: "stream_state \<Rightarrow> bool" where
  "idle_ok s \<longleftrightarrow> endpoints (pool s) \<noteq> [] \<and> activeCloseFn s = None \<and> \<not> reconnectTimeout s
     \<and> open_connections s = {} \<and> set (closedConnections s) \<subseteq> {..<length (connections s)}"

lemma idle_ok_report:
  assumes "idle_ok s"
  shows "idle_ok (report_error s err u closes)"
  using assms by (auto simp: idle_ok_def report_error_def Let_def close_stream_def open_connections_def)

lemma stream_ok_connect:
  assumes "idle_ok s"
  shows "stream_ok (connectToNextNode s att)"
proof -
  obtain outcome now closes where att: "att = (outcome, now, closes)" by (cases att) auto
  obtain u where u: "getActiveNode (pool s) = Some u"
    using assms getActiveNode_endpoint[of "pool s"] by (auto simp: idle_ok_def)
  note idle = assms[unfolded idle_ok_def]
  consider "isClosed s" | "\<not> isClosed s" "outcome = None" | err where "\<not> isClosed s" "outcome = Some err"
    by (cases outcome) auto
  then show ?thesis
  proof cases
    case 1
    then show ?thesis using idle by (simp add: att connectToNextNode_def stream_ok_def)
  next
    case 2
    have "set (closedConnections s) = {..<length (connections s)}"
      using idle by (auto simp: open_connections_def)
    moreover have "{..<Suc n} - {..<n} = {n}" for n :: nat by auto
    ultimately show ?thesis using 2 u idle
      by (simp add: att connectToNextNode_def stream_ok_def open_connections_def lessThan_subset_iff)
  next
    case 3
    let ?s3 = "report_error (s\<lparr>pool := markNodeFailure (snd (getServer (pool s) u)) u err now\<rparr>) err u closes"
    have "idle_ok ?s3" using assms by (intro idle_ok_report) (simp add: idle_ok_def open_connections_def)
    then show ?thesis using 3 u
      by (auto simp: att connectToNextNode_def Let_def idle_ok_def stream_ok_def open_connections_def)
  qed
qed

interpretation stream: inv_machine stream_step stream_ok
proof
  fix s e assume s: "stream_ok s"
  show "stream_ok (stream_step s e)"
  proof (cases e)
    case (TimerFired att)
    have "idle_ok (s\<lparr>reconnectTimeout := False\<rparr>)" if "reconnectTimeout s"
      using s that by (auto simp: idle_ok_def stream_ok_def open_connections_def split: if_splits)
    then show ?thesis using s TimerFired stream_ok_connect by auto
  next
    case (PoolChanged pe)
    then show ?thesis using s by (auto simp: stream_ok_def open_connections_def)
  qed (use s in \<open>auto intro: stream_ok_onmessage stream_ok_report stream_ok_onerror stream_ok_close\<close>)
qed

definition run_stream ::
  "HorizonPool \<Rightarrow> string \<Rightarrow> string \<Rightarrow> bool \<Rightarrow> thrown option option \<Rightarrow> int \<Rightarrow> stream_event list \<Rightarrow> stream_state" where
  "run_stream p key cursor h outcome now es =
     foldl stream_step (streamPaymentsWithFailover p key cursor h outcome now) es"

lemma stream_ok_run:
  assumes "endpoints p \<noteq> []"
  shows "stream_ok (run_stream p key cursor h outcome now es)"
  unfolding run_stream_def streamPaymentsWithFailover_def
  by (intro stream.run_inv stream_ok_connect) (simp add: idle_ok_def open_connections_def assms)

text \<open>Whatever the SDK, the timer and the callers do, a stream that is not closed has exactly one of
  an open connection, the one its close function refers to, and a pending reconnect; so it neither stalls
  nor leaks a connection. A closed stream has no open connection.\<close>

theorem stream_connected_or_retrying:
  assumes "endpoints p \<noteq> []" "s = run_stream p key cursor h outcome now es"
  shows "if isClosed s then open_connections s = {}
    else (\<exists>i. open_connections s = {i} \<and> activeCloseFn s = Some i \<and> \<not> reconnectTimeout s)
      \<or> (open_connections s = {} \<and> activeCloseFn s = None \<and> reconnectTimeout s)"
  using stream_ok_run[OF assms(1), of key cursor h outcome now es]
  by (cases "activeCloseFn s") (auto simp: stream_ok_def assms(2)[symmetric] split: if_splits)

section \<open>Records across reconnects\<close>

fun token_of :: "stream_call \<Rightarrow> string option" where
  "token_of (Dispatched r u) = record_token r"
| "token_of (Connected k u c) = None"
| "token_of (Reported err u) = None"

definition dispatched_tokens :: "stream_call list \<Rightarrow> string list" where
  "dispatched_tokens l = List.map_filter token_of l"

text \<open>Two equal elements are more than \<open>n\<close> positions apart.\<close>

definition spaced :: "nat \<Rightarrow> 'a list \<Rightarrow> bool" where
  "spaced n xs \<longleftrightarrow> (\<forall>i j. i < j \<longrightarrow> j < length xs \<longrightarrow> xs ! i = xs ! j \<longrightarrow> n < j - i)"

text \<open>Every connection of a log starts at the token of the last record dispatched before it.\<close>

definition resumes :: "string \<Rightarrow> stream_call list \<Rightarrow> bool" where
  "resumes initial l \<longleftrightarrow> (\<forall>pre k u c post. l = pre @ Connected k u c # post \<longrightarrow>
     c = last (initial # dispatched_tokens pre))"

definition lastn :: "nat \<Rightarrow> 'a list \<Rightarrow> 'a list" where
  "lastn n xs = drop (length xs - n) xs"

lemma lastn_snoc:
  "0 < n \<Longrightarrow> lastn n (xs @ [x]) =
   (if n < length (lastn n xs @ [x]) then drop 1 (lastn n xs @ [x]) else lastn n xs @ [x])"
  by (auto simp: lastn_def Suc_diff_le not_less)

lemma spaced_snoc: "spaced n xs \<Longrightarrow> x \<notin> set (lastn n xs) \<Longrightarrow> spaced n (xs @ [x])"
proof -
  assume a: "spaced n xs" "x \<notin> set (lastn n xs)"
  have "n < length xs - i" if "i < length xs" "xs ! i = x" for i
  proof (rule ccontr)
    assume "\<not> n < length xs - i"
    then have "lastn n xs ! (i - (length xs - n)) = x" "i - (length xs - n) < length (lastn n xs)"
      using that by (auto simp: lastn_def)
    then show False using a(2) nth_mem by metis
  qed
  then show ?thesis using a(1) by (auto simp: spaced_def nth_append less_Suc_eq)
qed

lemma resumes_snoc:
  "resumes initial (l @ [x]) \<longleftrightarrow> resumes initial l
   \<and> (\<forall>k u c. x = Connected k u c \<longrightarrow> c = last (initial # dispatched_tokens l))"
proof -
  have alt: "resumes initial m \<longleftrightarrow> (\<forall>pre k u c. (\<exists>post. m = pre @ Connected k u c # post) \<longrightarrow>
      c = last (initial # dispatched_tokens pre))" for m
    unfolding resumes_def by blast
  have ext: "(\<exists>post. l @ [x] = pre @ Connected k u c # post) \<longleftrightarrow>
      (\<exists>post. l = pre @ Connected k u c # post) \<or> (pre = l \<and> x = Connected k u c)" for pre k u c
  proof
    assume "\<exists>post. l @ [x] = pre @ Connected k u c # post"
    then obtain post where "l @ [x] = pre @ Connected k u c # post" by blast
    then show "(\<exists>post. l = pre @ Connected k u c # post) \<or> (pre = l \<and> x = Connected k u c)"
      by (cases post rule: rev_cases) auto
  qed auto
  show ?thesis unfolding alt ext by blast
qed

lemma dispatched_tokens_snoc [simp]:
  "dispatched_tokens (l @ [x]) = dispatched_tokens l @ (case token_of x of None \<Rightarrow> [] | Some t \<Rightarrow> [t])"
  by (simp add: dispatched_tokens_def List.map_filter_def split: option.splits)

definition records_ok :: "string \<Rightarrow> stream_state \<Rightarrow> bool" where
  "records_ok initial s \<longleftrightarrow> spaced max_seen (dispatched_tokens (log s))
     \<and> currentCursor s = last (initial # dispatched_tokens (log s))
     \<and> (\<not> isClosed s \<longrightarrow> seenTokens s = lastn max_seen (dispatched_tokens (log s)))
     \<and> resumes initial (log s)"

lemma records_ok_update [simp]:
  "records_ok initial (s\<lparr>pool := q\<rparr>) = records_ok initial s"
  "records_ok initial (s\<lparr>reconnectTimeout := b\<rparr>) = records_ok initial s"
  "records_ok initial (call_active_close s) = records_ok initial s"
  by (simp_all add: records_ok_def)

lemma records_ok_close: "records_ok initial s \<Longrightarrow> records_ok initial (close_stream s)"
  by (simp add: records_ok_def close_stream_def)

lemma records_ok_report: "records_ok initial s \<Longrightarrow> records_ok initial (report_error s err u closes)"
  using records_ok_close[of initial "s\<lparr>log := log s @ [Reported err u]\<rparr>"]
  by (auto simp: report_error_def Let_def records_ok_def resumes_snoc)

lemma records_ok_onmessage:
  assumes "records_ok initial s"
  shows "records_ok initial (onmessage s i v)"
proof (cases "isClosed s \<or> \<not> isHorizonOperationRecord v")
  case True
  then show ?thesis using assms by (auto simp: onmessage_def)
next
  case False
  then obtain r where v: "v = JObject r" by (auto simp: isHorizonOperationRecord_def split: jsv.splits)
  show ?thesis
  proof (cases "record_token r")
    case None
    then show ?thesis using assms False v by (auto simp: onmessage_def records_ok_def resumes_snoc)
  next
    case (Some t)
    let ?ts = "dispatched_tokens (log s)"
    have seen: "seenTokens s = lastn max_seen ?ts" using assms False by (simp add: records_ok_def)
    show ?thesis
    proof (cases "t \<in> set (seenTokens s)")
      case True
      then show ?thesis using assms False v Some by (simp add: onmessage_def)
    next
      case new: False
      have "lastn max_seen (?ts @ [t]) = seenTokens (remember_token s t)"
        using new lastn_snoc[of max_seen ?ts t]
        by (simp add: remember_token_def seen set_add_def max_seen_def del: drop_append)
      moreover have "spaced max_seen (?ts @ [t])"
        using assms new seen by (intro spaced_snoc) (auto simp: records_ok_def)
      ultimately show ?thesis using assms False v Some new
        by (simp add: onmessage_def records_ok_def resumes_snoc remember_token_def Let_def)
    qed
  qed
qed

lemma records_ok_onerror: "records_ok initial s \<Longrightarrow> records_ok initial (onerror s i err now closes)"
  by (simp add: onerror_def Let_def records_ok_report)

lemma records_ok_connected:
  "records_ok initial s \<Longrightarrow>
   records_ok initial (s\<lparr>pool := q, activeCloseFn := a, connections := cs,
     log := log s @ [Connected k u (currentCursor s)]\<rparr>)"
  by (auto simp: records_ok_def resumes_snoc)

lemma records_ok_connect:
  assumes "records_ok initial s"
  shows "records_ok initial (connectToNextNode s att)"
proof -
  obtain outcome now closes where att: "att = (outcome, now, closes)" by (cases att) auto
  show ?thesis using assms records_ok_connected[OF assms]
    by (simp add: att connectToNextNode_def Let_def records_ok_report split: option.splits)
qed

interpretation stream_records: inv_machine stream_step "records_ok initial" for initial
proof
  fix s e assume s: "records_ok initial s"
  show "records_ok initial (stream_step s e)"
  proof (cases e)
    case (TimerFired att)
    then show ?thesis using s TimerFired by (simp add: records_ok_connect)
  next
    case (PoolChanged pe)
    then show ?thesis using s by (simp add: records_ok_def)
  qed (use s in \<open>auto intro: records_ok_onmessage records_ok_report records_ok_onerror records_ok_close\<close>)
qed

lemma records_ok_run: "records_ok cursor (run_stream p key cursor h outcome now es)"
  unfolding run_stream_def streamPaymentsWithFailover_def
  by (intro stream_records.run_inv records_ok_connect)
    (simp add: records_ok_def spaced_def resumes_def dispatched_tokens_def lastn_def)

text \<open>Across all connections of a stream, also when several nodes deliver the same records and late
  callbacks of old connections fire, a record is not handed to the caller again while it is among the
  last 10,000 records that were: equal tokens are more than 10,000 dispatches apart. Every connection
  resumes from the token of the record dispatched last, the first one from the initial cursor.\<close>

theorem stream_resumes_without_duplicates:
  assumes "s = run_stream p key cursor h outcome now es" "ts = dispatched_tokens (log s)"
  shows "(\<forall>i j. i < j \<and> j < length ts \<and> ts ! i = ts ! j \<longrightarrow> 10000 < j - i)
    \<and> (\<forall>pre k u c post. log s = pre @ Connected k u c # post \<longrightarrow>
         c = last (cursor # dispatched_tokens pre))"
  using records_ok_run[of cursor p key h outcome now es]
  unfolding records_ok_def spaced_def resumes_def max_seen_def assms(1)[symmetric] assms(2)[symmetric]
  by blast

definition payment_record :: "string \<Rightarrow> horizon_record" where
  "payment_record token =
     [(''type'', JString ''payment''), (''paging_token'', JString token), (''created_at'', JString ''now''),
      (''transaction_hash'', JString ''h''), (''amount'', JString ''1''), (''from'', JString ''A''),
      (''to'', JString ''B'')]"

text \<open>
  A node delivers a record and is rate limited; the second node delivers the record again and a new
  one, then the first connection delivers the first record late.
\<close>

definition failover_run :: "stream_event list \<Rightarrow> stream_state" where
  "failover_run es =
     run_stream (newHorizonPool [''a'', ''b''] 5000 default_pool_options) ''G'' ''now'' True None 0
       ([Message 0 (JObject (payment_record ''1001'')), StreamError 0 (Some rate_limited) 5 False] @ es)"

theorem stream_connected_or_retrying_witness:
  "open_connections (failover_run []) = {} \<and> reconnectTimeout (failover_run [])"
proof -
  have "endpoints (newHorizonPool [''a'', ''b''] 5000 default_pool_options) \<noteq> []"
    using endpoints_new by simp
  note th = stream_connected_or_retrying [OF this refl, of "''G''" "''now''" True None 0
      "[Message 0 (JObject (payment_record ''1001'')), StreamError 0 (Some rate_limited) 5 False]"]
  have "\<not> isClosed (failover_run [])" "activeCloseFn (failover_run []) = None" by code_simp+
  then show ?thesis using th by (simp add: failover_run_def)
qed

theorem stream_resumes_without_duplicates_witness:
  "\<exists>pre c post.
     log (failover_run [TimerFired (None, 6, False), Message 1 (JObject (payment_record ''1001'')),
       Message 1 (JObject (payment_record ''1002'')), Message 0 (JObject (payment_record ''1001''))]) =
       pre @ Connected ''G'' ''b'' c # post
     \<and> c = last (''now'' # dispatched_tokens pre) \<and> post = [Dispatched (payment_record ''1002'') ''b'']"
proof -
  let ?es = "[TimerFired (None, 6, False), Message 1 (JObject (payment_record ''1001'')),
     Message 1 (JObject (payment_record ''1002'')), Message 0 (JObject (payment_record ''1001''))]"
  let ?pre = "[Connected ''G'' ''a'' ''now'', Dispatched (payment_record ''1001'') ''a'',
     Reported (Some rate_limited) ''a'']"
  have l: "log (failover_run ?es) = ?pre @ Connected ''G'' ''b'' ''1001'' #
     [Dispatched (payment_record ''1002'') ''b'']"
    by code_simp
  then have "''1001'' = last (''now'' # dispatched_tokens ?pre)"
    using stream_resumes_without_duplicates [OF refl refl,
      of "newHorizonPool [''a'', ''b''] 5000 default_pool_options" "''G''" "''now''" True None 0
         "[Message 0 (JObject (payment_record ''1001'')), StreamError 0 (Some rate_limited) 5 False] @ ?es"]
    unfolding failover_run_def by blast
  with l show ?thesis by blast
qed

section \<open>Failover and closing\<close>

definition pool_known :: "HorizonPool \<Rightarrow> bool" where
  "pool_known p \<longleftrightarrow> 0 < maxConsecutiveFailures p
     \<and> (\<exists>f. pool_tracks (endpoints p) (maxConsecutiveFailures p) f p)"

lemma pool_known_step:
  assumes "pool_known p"
  shows "pool_known (pool_step p e)"
proof -
  obtain f where f: "pool_tracks (endpoints p) (maxConsecutiveFailures p) f p" "0 < maxConsecutiveFailures p"
    using assms by (auto simp: pool_known_def)
  note t = pool_tracks_step[OF f, of e]
  then have "endpoints (pool_step p e) = endpoints p" "maxConsecutiveFailures (pool_step p e) = maxConsecutiveFailures p"
    by (simp_all add: pool_tracks_def)
  then show ?thesis using t f(2) unfolding pool_known_def by metis
qed

lemma pool_known_mark: "pool_known p \<Longrightarrow> pool_known (markNodeFailure p u err now)"
  using pool_known_step[of p "Marked u err now"] by simp

lemma pool_known_server [simp]: "pool_known (snd (getServer p u)) = pool_known p"
  by (simp add: pool_known_def pool_tracks_def getServer_def)

definition nodes_ok :: "stream_state \<Rightarrow> bool" where
  "nodes_ok s \<longleftrightarrow> pool_known (pool s) \<and> set (connections s) \<subseteq> set (endpoints (pool s))"

lemma report_error_nodes [simp]:
  "pool (report_error s err u closes) = pool s" "connections (report_error s err u closes) = connections s"
  by (simp_all add: report_error_def Let_def close_stream_def)

lemma nodes_ok_connect: "nodes_ok s \<Longrightarrow> nodes_ok (connectToNextNode s att)"
proof -
  assume s: "nodes_ok s"
  have "u \<in> set (endpoints (pool s))" if "getActiveNode (pool s) = Some u" for u
  proof (cases "endpoints (pool s)")
    case Nil
    then show ?thesis using that by (simp add: getActiveNode_def)
  next
    case (Cons v vs)
    then show ?thesis using that getActiveNode_endpoint[of "pool s"] by auto
  qed
  then show ?thesis using s
    by (auto simp: connectToNextNode_def Let_def nodes_ok_def pool_known_mark
        split: prod.splits option.splits)
qed

interpretation stream_nodes: inv_machine stream_step nodes_ok
proof
  fix s e assume s: "nodes_ok s"
  show "nodes_ok (stream_step s e)"
  proof (cases e)
    case (TimerFired att)
    have "nodes_ok (s\<lparr>reconnectTimeout := False\<rparr>)" using s by (simp add: nodes_ok_def)
    then show ?thesis using s TimerFired nodes_ok_connect by simp
  next
    case (Message i v)
    then show ?thesis using s by (auto simp: onmessage_def remember_token_def Let_def nodes_ok_def
        split: jsv.splits option.splits)
  qed (use s in \<open>auto simp: nodes_ok_def onerror_def Let_def pool_known_mark close_stream_def pool_known_step\<close>)
qed

lemma nodes_ok_run:
  assumes "p = newHorizonPool net tmo opts" "0 < maxConsecutiveFailures p"
  shows "nodes_ok (run_stream p key cursor h outcome now es)"
proof -
  have "pool_known p" using pool_tracks_new[OF assms] assms(2) by (auto simp: pool_known_def)
  then show ?thesis unfolding run_stream_def streamPaymentsWithFailover_def
    by (intro stream_nodes.run_inv nodes_ok_connect) (simp add: nodes_ok_def)
qed

lemma rate_limit_unhealthy:
  assumes "pool_known p" "u \<in> set (endpoints p)" "mark_limited err"
  shows "\<not> node_healthy (markNodeFailure p u err now) u"
  using assms by (fastforce simp: pool_known_def pool_tracks_def node_healthy_def markNodeFailure_def
      count_failure_simps)

lemma node_healthy_mark_other:
  "v \<noteq> u \<Longrightarrow> node_healthy (markNodeFailure p u err now) v = node_healthy p v"
  by (simp add: node_healthy_def markNodeFailure_def split: option.splits)

text \<open>When the node of a connection reports a rate limit while another endpoint is healthy, the next
  reconnect goes to a healthy node other than the limited one and asks it for the records after the
  last one dispatched.\<close>

theorem rate_limited_node_is_left:
  assumes "p = newHorizonPool net tmo opts" "0 < maxConsecutiveFailures p"
    and "s = run_stream p key cursor h outcome now es" "\<not> isClosed s" "i < length (connections s)"
    and "mark_limited err" "v \<in> set (endpoints (pool s))" "v \<noteq> connections s ! i" "node_healthy (pool s) v"
    and "s1 = stream_step s (StreamError i err t False)" "s2 = stream_step s1 (TimerFired (None, t', closes))"
  shows "\<exists>w. log s2 = log s1 @ [Connected (publicKey s) w (currentCursor s)] \<and> w \<in> set (endpoints (pool s))
    \<and> w \<noteq> connections s ! i \<and> node_healthy (pool s2) w"
proof -
  let ?u = "connections s ! i" and ?q = "markNodeFailure (pool s) (connections s ! i) err t"
  have "nodes_ok s" using nodes_ok_run[OF assms(1,2)] assms(3) by simp
  then have "?u \<in> set (endpoints (pool s))" "pool_known (pool s)"
    using assms(5) by (auto simp: nodes_ok_def)
  then have u: "\<not> node_healthy ?q ?u" using rate_limit_unhealthy assms(6) by blast
  have "node_healthy ?q v" using assms(8,9) by (simp add: node_healthy_mark_other)
  then obtain w where w: "getActiveNode ?q = Some w" "node_healthy ?q w" "w \<in> set (endpoints (pool s))"
    using getActiveNode_healthy[of v ?q] assms(7) by (metis endpoints_mark nth_mem)
  have s1: "pool s1 = ?q" "reconnectTimeout s1" "\<not> isClosed s1" "publicKey s1 = publicKey s"
      "currentCursor s1 = currentCursor s"
    using assms(4,5) by (auto simp: assms(10) onerror_def Let_def report_error_def)
  have "log s2 = log s1 @ [Connected (publicKey s) w (currentCursor s)]"
    "pool s2 = snd (getServer ?q w)"
    using s1 w by (simp_all add: assms(11) connectToNextNode_def Let_def)
  moreover have "node_healthy (snd (getServer ?q w)) w = node_healthy ?q w"
    by (simp add: node_healthy_def getServer_def)
  ultimately show ?thesis using w u by auto
qed

theorem rate_limited_node_is_left_witness:
  "\<exists>w. log (failover_run [TimerFired (None, 6, False)]) =
      log (failover_run []) @ [Connected ''G'' w ''1001''] \<and> w \<noteq> ''a''"
proof -
  let ?p = "newHorizonPool [''a'', ''b''] 5000 default_pool_options"
  let ?s = "run_stream ?p ''G'' ''now'' True None 0 [Message 0 (JObject (payment_record ''1001''))]"
  have h: "0 < maxConsecutiveFailures ?p" "\<not> isClosed ?s" "0 < length (connections ?s)"
    "mark_limited (Some rate_limited)" "''b'' \<in> set (endpoints (pool ?s))" "''b'' \<noteq> connections ?s ! 0"
    "node_healthy (pool ?s) ''b''" by code_simp+
  have c: "connections ?s ! 0 = ''a''" "publicKey ?s = ''G''" "currentCursor ?s = ''1001''" by code_simp+
  have r: "failover_run [] = stream_step ?s (StreamError 0 (Some rate_limited) 5 False)"
    "failover_run [TimerFired (None, 6, False)] = stream_step (failover_run []) (TimerFired (None, 6, False))"
    by (simp_all add: failover_run_def run_stream_def del: stream_step.simps)
  show ?thesis
    using rate_limited_node_is_left [OF refl h(1) refl h(2-7) r(1) r(2)] unfolding c by blast
qed

fun is_report :: "stream_call \<Rightarrow> bool" where
  "is_report (Reported err u) = True"
| "is_report _ = False"

definition silent :: "string list \<Rightarrow> stream_call list \<Rightarrow> stream_state \<Rightarrow> bool" where
  "silent cs l s \<longleftrightarrow> isClosed s \<and> connections s = cs \<and> filter (\<lambda>c. \<not> is_report c) (log s) = l"

interpretation closed_stream: inv_machine stream_step "silent cs l" for cs l
proof
  fix s e assume "silent cs l s"
  then show "silent cs l (stream_step s e)"
    by (cases e) (auto simp: silent_def onmessage_def onerror_def connectToNextNode_def report_error_def
        close_stream_def Let_def split: prod.splits)
qed

text \<open>Once the close function was called, nothing that happens later makes the stream connect again
  or hand a record to the caller.\<close>

theorem closed_stream_is_silent:
  assumes "isClosed s" "s' = foldl stream_step s es"
  shows "isClosed s' \<and> connections s' = connections s
    \<and> filter (\<lambda>c. \<not> is_report c) (log s') = filter (\<lambda>c. \<not> is_report c) (log s)"
  using closed_stream.run_inv[of "connections s" "filter (\<lambda>c. \<not> is_report c) (log s)" s es] assms
  by (simp add: silent_def)

theorem closed_stream_is_silent_witness:
  "connections (foldl stream_step (failover_run [CloseCalled])
     [TimerFired (None, 9, False), Message 0 (JObject (payment_record ''1002''))]) = [''a'']"
proof -
  have "isClosed (failover_run [CloseCalled])" "connections (failover_run [CloseCalled]) = [''a'']"
    by code_simp+
  then show ?thesis using closed_stream_is_silent [OF _ refl, of "failover_run [CloseCalled]"]
    by (simp del: stream_step.simps foldl_Cons)
qed

end
