(* ===== verification/RulesEngine.thy ===== *)
theory RulesEngine
  imports JsValues
begin

text \<open>
  The filter rules that decide whether a payment raises an alert (\<open>apps/api/src/lib/rules-engine.ts\<close>).

  Rules come from a \<open>JSON\<close> column and are not validated, so the evaluator is modelled on untyped values:
  every property access and method call that can throw does. The typed rules of the source are the
  datatype \<open>filter_node\<close>, whose meaning is defined without the evaluator.
\<close>

section \<open>JSON paths\<close>

text \<open>A token is a key or a number; the wildcard is the key \<open>*\<close>.\<close>

datatype path_token = Key string | Index nat

definition key_char :: "char \<Rightarrow> bool" where
  "key_char c \<longleftrightarrow> c \<noteq> CHR ''.'' \<and> c \<noteq> CHR ''['' \<and> c \<noteq> CHR '']''"

text \<open>A quoted name after an opening bracket and before a closing one.\<close>

definition match_quoted :: "char \<Rightarrow> string \<Rightarrow> (path_token \<times> string) option" where
  "match_quoted qc t =
     (case t of
        c # r \<Rightarrow>
          let name = takeWhile (\<lambda>d. d \<noteq> qc) r; rest = dropWhile (\<lambda>d. d \<noteq> qc) r in
          if c = qc \<and> name \<noteq> [] \<and> take 2 rest = [qc, CHR '']''] then Some (Key name, drop 2 rest) else None
      | [] \<Rightarrow> None)"

definition match_index :: "string \<Rightarrow> (path_token \<times> string) option" where
  "match_index t =
     (let ds = takeWhile is_digit t; rest = dropWhile is_digit t in
      if ds \<noteq> [] \<and> take 1 rest = '']'' then Some (Index (dec_val ds), drop 1 rest)
      else if take 2 t = ''$]'' then Some (Key '''', drop 2 t)
      else case match_quoted (CHR 0x22) t of
        Some m \<Rightarrow> Some m
      | None \<Rightarrow> match_quoted (CHR 0x27) t)"

definition match_at :: "string \<Rightarrow> (path_token \<times> string) option" where
  "match_at s =
     (let s' = (if take 1 s = ''.'' then drop 1 s else s); key = takeWhile key_char s' in
      if key \<noteq> [] then Some (Key key, dropWhile key_char s')
      else if take 1 s = ''['' then match_index (drop 1 s)
      else None)"

lemma match_quoted_shorter: "match_quoted qc t = Some (tok, rest) \<Longrightarrow> length rest \<le> length t"
proof (cases t)
  case (Cons c r)
  assume "match_quoted qc t = Some (tok, rest)"
  then show ?thesis using length_dropWhile_le[of "\<lambda>d. d \<noteq> qc" r]
    by (auto simp: Cons match_quoted_def Let_def split: if_splits)
qed (simp add: match_quoted_def)

lemma match_index_shorter: "match_index t = Some (tok, rest) \<Longrightarrow> length rest \<le> length t"
  using length_dropWhile_le[of is_digit t]
  by (auto simp: match_index_def Let_def dest: match_quoted_shorter split: if_splits option.splits)

lemma match_at_shorter: "match_at s = Some (tok, rest) \<Longrightarrow> length rest < length s"
proof -
  assume m: "match_at s = Some (tok, rest)"
  define s' where "s' = (if take 1 s = ''.'' then drop 1 s else s)"
  have m': "(if takeWhile key_char s' \<noteq> [] then Some (Key (takeWhile key_char s'), dropWhile key_char s')
      else if take 1 s = ''['' then match_index (drop 1 s) else None) = Some (tok, rest)"
    using m unfolding match_at_def Let_def s'_def .
  have le: "length s' \<le> length s" by (simp add: s'_def)
  show ?thesis
  proof (cases "takeWhile key_char s' = []")
    case True
    then have "take 1 s = ''[''" "match_index (drop 1 s) = Some (tok, rest)"
      using m' by (auto split: if_splits)
    then show ?thesis using match_index_shorter[of "drop 1 s"] by (cases s) auto
  next
    case False
    then have r: "rest = dropWhile key_char s'" using m' by simp
    have "length s' = length (takeWhile key_char s') + length (dropWhile key_char s')"
      by (metis length_append takeWhile_dropWhile_id)
    moreover have "length (takeWhile key_char s') > 0" using False by blast
    ultimately show ?thesis unfolding r using le by linarith
  qed
qed

text \<open>The matches of the expression from left to right; a position without a match is skipped.\<close>

function path_tokens :: "string \<Rightarrow> path_token list" where
  "path_tokens [] = []"
| "path_tokens (c # s) =
     (case match_at (c # s) of
        Some (tok, rest) \<Rightarrow> tok # path_tokens rest
      | None \<Rightarrow> path_tokens s)"
  by pat_completeness auto
termination
proof (relation "measure length")
  show "wf (measure length)" by simp
  fix c :: char and s m tok rest
  assume "match_at (c # s) = Some m" "(tok, rest) = m"
  then show "(rest, c # s) \<in> measure length" using match_at_shorter[of "c # s" tok rest] by auto
qed simp

definition parseJsonPath :: "string \<Rightarrow> path_token list" where
  "parseJsonPath path =
     path_tokens (if startsWith path ''$.'' then drop 2 path else if startsWith path ''$'' then drop 1 path else path)"

text \<open>One token applied to one value: the values it selects. \<open>in\<close> holds for the fields of an object, and
  for the indices and the length of an array.\<close>

definition object_field :: "(string \<times> jsv) list \<Rightarrow> string \<Rightarrow> jsv list" where
  "object_field fs k = (case map_of fs k of Some v \<Rightarrow> [v] | None \<Rightarrow> [])"

definition array_field :: "jsv list \<Rightarrow> string \<Rightarrow> jsv list" where
  "array_field vs k =
     (if k = ''length'' then [JNumber (Fin (of_nat (length vs)))]
      else case find (\<lambda>i. nat_str i = k) [0..<length vs] of Some i \<Rightarrow> [vs ! i] | None \<Rightarrow> [])"

definition select :: "path_token \<Rightarrow> jsv \<Rightarrow> jsv list" where
  "select tok v =
     (case v of
        JArray vs \<Rightarrow>
          (case tok of
             Index i \<Rightarrow> if i < length vs then [vs ! i] else []
           | Key k \<Rightarrow> if k = ''*'' then vs else array_field vs k)
      | JObject fs \<Rightarrow>
          (case tok of
             Index i \<Rightarrow> object_field fs (nat_str i)
           | Key k \<Rightarrow> if k = ''*'' then [] else object_field fs k)
      | _ \<Rightarrow> [])"

definition resolveJsonPath :: "jsv \<Rightarrow> string \<Rightarrow> jsv list" where
  "resolveJsonPath context path =
     foldl (\<lambda>vs tok. concat (map (select tok) vs)) [context] (parseJsonPath path)"

section \<open>The evaluator\<close>

definition is_nullish :: "jsv \<Rightarrow> bool" where
  "is_nullish v \<longleftrightarrow> v = JNull \<or> v = JUndefined"

definition getFieldValues :: "string \<Rightarrow> jsv \<Rightarrow> jsv list" where
  "getFieldValues field context =
     (if startsWith field ''$'' then resolveJsonPath context field
      else case context of
        JObject fs \<Rightarrow> (case map_of fs field of None \<Rightarrow> [] | Some v \<Rightarrow> if v = JUndefined then [] else [v])
      | _ \<Rightarrow> [])"

definition normalizeComparable :: "jsv \<Rightarrow> bool \<Rightarrow> jsv" where
  "normalizeComparable v numeric =
     (if numeric then JNumber (js_Number v)
      else case v of JBoolean b \<Rightarrow> JBoolean b | _ \<Rightarrow> JString (js_String v))"

definition strict_eq :: "jsv \<Rightarrow> jsv \<Rightarrow> bool" where
  "strict_eq v w = (case (v, w) of (JNumber m, JNumber n) \<Rightarrow> num_eq m n | _ \<Rightarrow> v = w)"

definition is_numeric :: "jsv \<Rightarrow> string \<Rightarrow> bool" where
  "is_numeric v field \<longleftrightarrow> (case v of JNumber _ \<Rightarrow> True | _ \<Rightarrow> False) \<or> field = ''amount''"

definition in_list :: "jsv \<Rightarrow> jsv \<Rightarrow> bool option" where
  "in_list v ruleValue =
     (case ruleValue of JArray ws \<Rightarrow> Some (js_String v \<in> set (map js_String ws)) | _ \<Rightarrow> None)"

definition evaluateValue :: "string \<Rightarrow> jsv \<Rightarrow> jsv \<Rightarrow> jsv \<Rightarrow> js_error + bool" where
  "evaluateValue field operator value fieldValue =
     (let hasValue = (\<not> is_nullish fieldValue) in
      if operator = JString ''exists'' then Inr hasValue
      else if operator = JString ''not_exists'' then Inr (\<not> hasValue)
      else if \<not> hasValue then Inr False
      else
        let isNumeric = is_numeric fieldValue field;
            contextValue = normalizeComparable fieldValue isNumeric;
            ruleValue = normalizeComparable value isNumeric in
        if operator = JString ''gt'' then Inr (num_less (js_Number ruleValue) (js_Number contextValue))
        else if operator = JString ''gte'' then Inr (num_le (js_Number ruleValue) (js_Number contextValue))
        else if operator = JString ''lt'' then Inr (num_less (js_Number contextValue) (js_Number ruleValue))
        else if operator = JString ''lte'' then Inr (num_le (js_Number contextValue) (js_Number ruleValue))
        else if operator = JString ''eq'' then Inr (strict_eq contextValue ruleValue)
        else if operator = JString ''ne'' then Inr (\<not> strict_eq contextValue ruleValue)
        else if operator = JString ''contains'' then
          Inr (str_includes (toLowerCase (js_String contextValue)) (toLowerCase (js_String ruleValue)))
        else if operator = JString ''in'' then Inr (in_list contextValue value = Some True)
        else if operator = JString ''nin'' then Inr (in_list contextValue value = Some False)
        else Inl UnknownOperator)"

text \<open>\<open>Array.prototype.every\<close> and \<open>some\<close> with a callback that may throw.\<close>

fun every_of :: "('a \<Rightarrow> 'e + bool) \<Rightarrow> 'a list \<Rightarrow> 'e + bool" where
  "every_of f [] = Inr True"
| "every_of f (x # xs) = (case f x of Inl e \<Rightarrow> Inl e | Inr b \<Rightarrow> if b then every_of f xs else Inr False)"

fun some_of :: "('a \<Rightarrow> 'e + bool) \<Rightarrow> 'a list \<Rightarrow> 'e + bool" where
  "some_of f [] = Inr False"
| "some_of f (x # xs) = (case f x of Inl e \<Rightarrow> Inl e | Inr b \<Rightarrow> if b then Inr True else some_of f xs)"

definition evaluateRule :: "jsv \<Rightarrow> jsv \<Rightarrow> js_error + bool" where
  "evaluateRule rule context =
     (case (js_get rule ''field'', js_get rule ''operator'', js_get rule ''value'') of
        (Inr (JString field), Inr operator, Inr value) \<Rightarrow>
          (let fieldValues = getFieldValues field context in
           if fieldValues = [] then evaluateValue field operator value JUndefined
           else if operator \<in> {JString ''ne'', JString ''nin'', JString ''not_exists''}
           then every_of (evaluateValue field operator value) fieldValues
           else some_of (evaluateValue field operator value) fieldValues)
      | _ \<Rightarrow> Inl TypeError)"

definition isRuleGroup :: "jsv \<Rightarrow> js_error + bool" where
  "isRuleGroup rule =
     (case rule of
        JObject fs \<Rightarrow> Inr (case map_of fs ''rules'' of Some (JArray _) \<Rightarrow> True | _ \<Rightarrow> False)
      | JArray _ \<Rightarrow> Inr False
      | _ \<Rightarrow> Inl TypeError)"

definition rules_array :: "jsv \<Rightarrow> js_error + jsv list" where
  "rules_array grp =
     (case js_get grp ''rules'' of
        Inl e \<Rightarrow> Inl e
      | Inr rs \<Rightarrow>
          (case js_get rs ''length'' of
             Inl e \<Rightarrow> Inl e
           | Inr len \<Rightarrow>
               if len = JNumber (Fin 0) then Inr []
               else case rs of JArray xs \<Rightarrow> Inr xs | _ \<Rightarrow> Inl TypeError))"

lemma rules_array_size: "rules_array g = Inr xs \<Longrightarrow> x \<in> set xs \<Longrightarrow> size x < size g"
  by (auto simp: rules_array_def dest: size_js_get split: sum.splits if_splits jsv.splits)

function evaluateRuleGroup :: "jsv \<Rightarrow> jsv \<Rightarrow> js_error + bool" where
  "evaluateRuleGroup grp context =
     (case rules_array grp of
        Inl e \<Rightarrow> Inl e
      | Inr rules \<Rightarrow>
          if rules = [] then Inr True
          else case all_results (map (\<lambda>rule.
                 case isRuleGroup rule of
                   Inl e \<Rightarrow> Inl e
                 | Inr True \<Rightarrow> evaluateRuleGroup rule context
                 | Inr False \<Rightarrow> evaluateRule rule context) rules) of
            Inl e \<Rightarrow> Inl e
          | Inr results \<Rightarrow>
              if js_get grp ''operator'' = Inr (JString ''AND'') then Inr (list_all id results)
              else Inr (list_ex id results))"
  by pat_completeness auto
termination
  by (relation "measure (size \<circ> fst)") (auto dest: rules_array_size)

declare evaluateRuleGroup.simps [simp del]

definition falsy :: "jsv \<Rightarrow> bool" where
  "falsy v \<longleftrightarrow> v \<in> {JUndefined, JNull, JBoolean False, JString '''', JNumber (Fin 0), JNumber NaN}"

text \<open>The test before the \<open>try\<close> reads the length of the rules and can throw itself.\<close>

definition shouldAlert :: "jsv \<Rightarrow> jsv \<Rightarrow> js_error + bool" where
  "shouldAlert filterRules payment =
     (if falsy filterRules then Inr True
      else case js_get filterRules ''rules'' of
        Inl e \<Rightarrow> Inl e
      | Inr rs \<Rightarrow>
          (case js_get rs ''length'' of
             Inl e \<Rightarrow> Inl e
           | Inr len \<Rightarrow>
               if len = JNumber (Fin 0) then Inr True
               else case evaluateRuleGroup filterRules payment of Inl _ \<Rightarrow> Inr True | Inr b \<Rightarrow> Inr b))"

section \<open>The meaning of rules\<close>

datatype FilterOperator = gt | gte | lt | lte | eq | ne | contains | exists | not_exists | in_op | nin

fun operator_name :: "FilterOperator \<Rightarrow> string" where
  "operator_name gt = ''gt''" | "operator_name gte = ''gte''" | "operator_name lt = ''lt''"
| "operator_name lte = ''lte''" | "operator_name eq = ''eq''" | "operator_name ne = ''ne''"
| "operator_name contains = ''contains''" | "operator_name exists = ''exists''"
| "operator_name not_exists = ''not_exists''" | "operator_name in_op = ''in''" | "operator_name nin = ''nin''"

record FilterRule =
  field :: string
  operator :: FilterOperator
  value_of :: jsv

datatype filter_node = Rule FilterRule | AllOf "filter_node list" | AnyOf "filter_node list"

fun json_of :: "filter_node \<Rightarrow> jsv" where
  "json_of (Rule r) = JObject [(''field'', JString (field r)), (''operator'', JString (operator_name (operator r))),
     (''value'', value_of r)]"
| "json_of (AllOf ns) = JObject [(''operator'', JString ''AND''), (''rules'', JArray (map json_of ns))]"
| "json_of (AnyOf ns) = JObject [(''operator'', JString ''OR''), (''rules'', JArray (map json_of ns))]"

text \<open>
  What an operator says of a present value: values are compared as numbers when the value is a number or
  the field is the amount, and otherwise as booleans or texts; the orderings always compare numbers.
\<close>

definition comparable :: "FilterRule \<Rightarrow> jsv \<Rightarrow> jsv \<Rightarrow> jsv" where
  "comparable r v w = normalizeComparable w (is_numeric v (field r))"

definition listed :: "FilterRule \<Rightarrow> jsv \<Rightarrow> bool option" where
  "listed r v = in_list (comparable r v v) (value_of r)"

fun compares :: "FilterOperator \<Rightarrow> FilterRule \<Rightarrow> jsv \<Rightarrow> bool" where
  "compares gt r v = num_less (js_Number (comparable r v (value_of r))) (js_Number (comparable r v v))"
| "compares gte r v = num_le (js_Number (comparable r v (value_of r))) (js_Number (comparable r v v))"
| "compares lt r v = num_less (js_Number (comparable r v v)) (js_Number (comparable r v (value_of r)))"
| "compares lte r v = num_le (js_Number (comparable r v v)) (js_Number (comparable r v (value_of r)))"
| "compares eq r v = strict_eq (comparable r v v) (comparable r v (value_of r))"
| "compares ne r v = (\<not> strict_eq (comparable r v v) (comparable r v (value_of r)))"
| "compares contains r v = str_includes (toLowerCase (js_String (comparable r v v)))
     (toLowerCase (js_String (comparable r v (value_of r))))"
| "compares in_op r v = (listed r v = Some True)"
| "compares nin r v = (listed r v = Some False)"
| "compares exists r v = True"
| "compares not_exists r v = False"

text \<open>
  A rule holds when some value of the field does; a negated comparison needs a value and holds when all
  values do; a field is absent when it has no value other than \<open>null\<close> and \<open>undefined\<close>. An empty group
  holds.
\<close>

fun holds :: "filter_node \<Rightarrow> jsv \<Rightarrow> bool" where
  "holds (Rule r) ctx =
     (let vs = getFieldValues (field r) ctx in
      case operator r of
        not_exists \<Rightarrow> \<forall>v \<in> set vs. is_nullish v
      | ne \<Rightarrow> vs \<noteq> [] \<and> (\<forall>v \<in> set vs. \<not> is_nullish v \<and> compares ne r v)
      | nin \<Rightarrow> vs \<noteq> [] \<and> (\<forall>v \<in> set vs. \<not> is_nullish v \<and> compares nin r v)
      | op \<Rightarrow> \<exists>v \<in> set vs. \<not> is_nullish v \<and> compares op r v)"
| "holds (AllOf ns) ctx = (\<forall>n \<in> set ns. holds n ctx)"
| "holds (AnyOf ns) ctx = (ns = [] \<or> (\<exists>n \<in> set ns. holds n ctx))"

lemma evaluateValue_typed:
  "evaluateValue (field r) (JString (operator_name (operator r))) (value_of r) v =
   Inr (if operator r = not_exists then is_nullish v else \<not> is_nullish v \<and> compares (operator r) r v)"
  by (cases "operator r") (simp_all add: evaluateValue_def Let_def comparable_def listed_def)

lemma every_of_Inr: "every_of (\<lambda>x. Inr (P x)) xs = Inr (\<forall>x \<in> set xs. P x)"
  by (induction xs) auto

lemma some_of_Inr: "some_of (\<lambda>x. Inr (P x)) xs = Inr (\<exists>x \<in> set xs. P x)"
  by (induction xs) auto

lemma operator_name_neg:
  "JString (operator_name op) \<in> {JString ''ne'', JString ''nin'', JString ''not_exists''} \<longleftrightarrow> op \<in> {ne, nin, not_exists}"
  by (cases op) simp_all

lemma evaluateRule_typed: "evaluateRule (json_of (Rule r)) ctx = Inr (holds (Rule r) ctx)"
proof -
  let ?vs = "getFieldValues (field r) ctx"
  let ?P = "\<lambda>v. if operator r = not_exists then is_nullish v else \<not> is_nullish v \<and> compares (operator r) r v"
  have u: "evaluateValue (field r) (JString (operator_name (operator r))) (value_of r) = (\<lambda>v. Inr (?P v))"
    using evaluateValue_typed by (rule ext)
  have g: "js_get (json_of (Rule r)) ''field'' = Inr (JString (field r))"
    "js_get (json_of (Rule r)) ''operator'' = Inr (JString (operator_name (operator r)))"
    "js_get (json_of (Rule r)) ''value'' = Inr (value_of r)" by simp_all
  have "evaluateRule (json_of (Rule r)) ctx =
      Inr (if ?vs = [] then ?P JUndefined else if operator r \<in> {ne, nin, not_exists} then \<forall>v \<in> set ?vs. ?P v
           else \<exists>v \<in> set ?vs. ?P v)"
    unfolding evaluateRule_def g prod.case sum.case jsv.case Let_def operator_name_neg u every_of_Inr some_of_Inr
    by auto
  then show ?thesis by (cases "operator r") (auto simp: is_nullish_def[of JUndefined] Let_def)
qed

lemma isRuleGroup_json: "isRuleGroup (json_of n) = Inr (case n of Rule _ \<Rightarrow> False | _ \<Rightarrow> True)"
  by (cases n) (simp_all add: isRuleGroup_def)

lemma rules_array_json:
  "rules_array (json_of (AllOf ns)) = Inr (map json_of ns)" "rules_array (json_of (AnyOf ns)) = Inr (map json_of ns)"
  by (simp_all add: rules_array_def)

definition evaluate_node :: "filter_node \<Rightarrow> jsv \<Rightarrow> js_error + bool" where
  "evaluate_node n ctx =
     (case n of Rule r \<Rightarrow> evaluateRule (json_of n) ctx | _ \<Rightarrow> evaluateRuleGroup (json_of n) ctx)"

lemma evaluate_rules_array:
  assumes "rules_array g = Inr (map json_of ns)"
  shows "evaluateRuleGroup g ctx = (if ns = [] then Inr True else
    case all_results (map (\<lambda>n. evaluate_node n ctx) ns) of
      Inl e \<Rightarrow> Inl e
    | Inr results \<Rightarrow> if js_get g ''operator'' = Inr (JString ''AND'') then Inr (list_all id results)
        else Inr (list_ex id results))"
proof -
  have "map ((\<lambda>rule. case isRuleGroup rule of Inl e \<Rightarrow> Inl e | Inr True \<Rightarrow> evaluateRuleGroup rule ctx
      | Inr False \<Rightarrow> evaluateRule rule ctx) \<circ> json_of) ns = map (\<lambda>n. evaluate_node n ctx) ns"
    by (intro map_cong refl) (simp add: isRuleGroup_json evaluate_node_def split: filter_node.splits)
  then show ?thesis by (subst evaluateRuleGroup.simps) (simp add: assms del: map_eq_conv)
qed

lemma evaluate_node_holds: "evaluate_node n ctx = Inr (holds n ctx)"
proof (induction n)
  case (Rule r)
  then show ?case by (simp only: evaluate_node_def filter_node.case evaluateRule_typed)
next
  case (AllOf ns)
  then have m: "map (\<lambda>n. evaluate_node n ctx) ns = map (\<lambda>n. Inr (holds n ctx)) ns" by simp
  have "evaluate_node (AllOf ns) ctx = evaluateRuleGroup (json_of (AllOf ns)) ctx"
    by (simp only: evaluate_node_def filter_node.case)
  then show ?case
    unfolding evaluate_rules_array[OF rules_array_json(1)] m all_results_Inr by (auto simp: list_all_iff)
next
  case (AnyOf ns)
  then have m: "map (\<lambda>n. evaluate_node n ctx) ns = map (\<lambda>n. Inr (holds n ctx)) ns" by simp
  have "evaluate_node (AnyOf ns) ctx = evaluateRuleGroup (json_of (AnyOf ns)) ctx"
    by (simp only: evaluate_node_def filter_node.case)
  then show ?case
    unfolding evaluate_rules_array[OF rules_array_json(2)] m all_results_Inr by (auto simp: list_ex_iff)
qed

lemma evaluate_group_holds:
  "evaluateRuleGroup (json_of (AllOf ns)) ctx = Inr (holds (AllOf ns) ctx)"
  "evaluateRuleGroup (json_of (AnyOf ns)) ctx = Inr (holds (AnyOf ns) ctx)"
  using evaluate_node_holds[of "AllOf ns" ctx] evaluate_node_holds[of "AnyOf ns" ctx]
  by (simp_all only: evaluate_node_def filter_node.case)

lemma shouldAlert_group:
  assumes "js_get g ''rules'' = Inr (JArray rs)" "\<not> falsy g" "evaluateRuleGroup g ctx = Inr b"
  shows "shouldAlert g ctx = Inr b"
proof (cases "rs = []")
  case True
  then have "rules_array g = Inr []" using assms(1) by (simp add: rules_array_def)
  then have "b" using assms(3) by (simp add: evaluateRuleGroup.simps)
  then show ?thesis using assms True by (simp add: shouldAlert_def)
next
  case False
  then show ?thesis using assms by (simp add: shouldAlert_def)
qed

lemma shouldAlert_typed:
  "shouldAlert (json_of (AllOf ns)) ctx = Inr (holds (AllOf ns) ctx)"
  "shouldAlert (json_of (AnyOf ns)) ctx = Inr (holds (AnyOf ns) ctx)"
proof -
  have g: "js_get (json_of (AllOf ns)) ''rules'' = Inr (JArray (map json_of ns))" "\<not> falsy (json_of (AllOf ns))"
    "js_get (json_of (AnyOf ns)) ''rules'' = Inr (JArray (map json_of ns))" "\<not> falsy (json_of (AnyOf ns))"
    by (simp_all add: falsy_def)
  show "shouldAlert (json_of (AllOf ns)) ctx = Inr (holds (AllOf ns) ctx)"
    by (rule shouldAlert_group[OF g(1,2) evaluate_group_holds(1)])
  show "shouldAlert (json_of (AnyOf ns)) ctx = Inr (holds (AnyOf ns) ctx)"
    by (rule shouldAlert_group[OF g(3,4) evaluate_group_holds(2)])
qed

text \<open>C35. On every typed group of rules, nested to any depth, the evaluator terminates without throwing and
  returns the meaning of the group: a conjunction or disjunction of the meanings of its members, true
  when there are none, where a rule quantifies over the values its field selects. The alert decision is
  the same value.\<close>

theorem rule_groups_evaluate_to_meaning:
  "evaluateRuleGroup (json_of (AllOf ns)) ctx = Inr (holds (AllOf ns) ctx)
   \<and> evaluateRuleGroup (json_of (AnyOf ns)) ctx = Inr (holds (AnyOf ns) ctx)
   \<and> shouldAlert (json_of (AllOf ns)) ctx = Inr (holds (AllOf ns) ctx)
   \<and> shouldAlert (json_of (AnyOf ns)) ctx = Inr (holds (AnyOf ns) ctx)"
  by (intro conjI evaluate_group_holds shouldAlert_typed)

section \<open>Filters built by the program\<close>

definition createAmountThresholdRule :: "jsnum \<Rightarrow> filter_node" where
  "createAmountThresholdRule minAmount =
     AllOf [Rule \<lparr>field = ''amount'', operator = gte, value_of = JNumber minAmount\<rparr>]"

definition asset_rule :: "string \<Rightarrow> filter_node" where
  "asset_rule asset = Rule \<lparr>field = ''asset'', operator = eq, value_of = JString asset\<rparr>"

definition createAssetFilterRule :: "string list \<Rightarrow> filter_node" where
  "createAssetFilterRule allowedAssets =
     (case allowedAssets of [] \<Rightarrow> AnyOf [] | [a] \<Rightarrow> AllOf [asset_rule a] | _ \<Rightarrow> AnyOf (map asset_rule allowedAssets))"

definition createCombinedFilter :: "jsnum option \<Rightarrow> string list option \<Rightarrow> filter_node" where
  "createCombinedFilter minAmount allowedAssets =
     (let rules =
        (case minAmount of Some m \<Rightarrow> if num_less (Fin 0) m then [createAmountThresholdRule m] else [] | None \<Rightarrow> [])
        @ (case allowedAssets of Some as \<Rightarrow> if as \<noteq> [] then [createAssetFilterRule as] else [] | None \<Rightarrow> []) in
      case rules of [] \<Rightarrow> AllOf [] | [r] \<Rightarrow> r | _ \<Rightarrow> AllOf rules)"

definition payment_context :: "jsv \<Rightarrow> string \<Rightarrow> string \<Rightarrow> jsv \<Rightarrow> jsv" where
  "payment_context amount asset fromAddress memo =
     JObject [(''amount'', amount), (''asset'', JString asset), (''fromAddress'', JString fromAddress), (''memo'', memo)]"

lemma plain_fields: "\<not> startsWith ''amount'' ''$''" "\<not> startsWith ''asset'' ''$''"
  by code_simp+

lemma holds_threshold:
  "\<not> is_nullish a \<Longrightarrow> holds (createAmountThresholdRule m) (payment_context a asset f memo) \<longleftrightarrow> num_le m (js_Number a)"
  by (auto simp: createAmountThresholdRule_def payment_context_def getFieldValues_def plain_fields comparable_def
      normalizeComparable_def is_numeric_def is_nullish_def)

lemma holds_asset_rule:
  "holds (asset_rule b) (payment_context a asset f memo) \<longleftrightarrow> asset = b"
  by (auto simp: asset_rule_def payment_context_def getFieldValues_def plain_fields comparable_def
      normalizeComparable_def is_numeric_def is_nullish_def strict_eq_def)

lemma holds_asset_filter:
  "holds (createAssetFilterRule as) (payment_context a asset f memo) \<longleftrightarrow> as = [] \<or> asset \<in> set as"
  by (auto simp: createAssetFilterRule_def holds_asset_rule simp del: holds.simps(1) split: list.splits)

lemma filter_is_group: "\<exists>ns. createCombinedFilter m as = AllOf ns \<or> createCombinedFilter m as = AnyOf ns"
  by (auto simp: createCombinedFilter_def createAmountThresholdRule_def createAssetFilterRule_def Let_def
      split: option.splits list.splits)

text \<open>The filter built from a minimum amount and a list of assets lets exactly the payments through whose
  amount is at least the minimum, when a positive one is given, and whose asset is in the list, when a
  non-empty one is given.\<close>

theorem combined_filter_exact:
  assumes "\<not> is_nullish amount"
  shows "shouldAlert (json_of (createCombinedFilter minAmount assets)) (payment_context amount asset fromAddress memo) =
    Inr ((case minAmount of None \<Rightarrow> True | Some m \<Rightarrow> num_less (Fin 0) m \<longrightarrow> num_le m (js_Number amount))
       \<and> (case assets of None \<Rightarrow> True | Some as \<Rightarrow> as = [] \<or> asset \<in> set as))"
proof -
  let ?f = "createCombinedFilter minAmount assets" and ?ctx = "payment_context amount asset fromAddress memo"
  obtain ns where "?f = AllOf ns \<or> ?f = AnyOf ns" using filter_is_group by blast
  then have "shouldAlert (json_of ?f) ?ctx = Inr (holds ?f ?ctx)"
    using shouldAlert_typed by metis
  moreover have "holds ?f ?ctx \<longleftrightarrow>
      (case minAmount of None \<Rightarrow> True | Some m \<Rightarrow> num_less (Fin 0) m \<longrightarrow> num_le m (js_Number amount))
       \<and> (case assets of None \<Rightarrow> True | Some as \<Rightarrow> as = [] \<or> asset \<in> set as)"
    by (auto simp: createCombinedFilter_def Let_def holds_threshold[OF assms] holds_asset_filter
        simp del: holds.simps(1) split: option.splits)
  ultimately show ?thesis by simp
qed

theorem combined_filter_exact_witness:
  "shouldAlert (json_of (createCombinedFilter (Some (Fin 10)) (Some [''USDC'', ''XLM''])))
     (payment_context (JNumber (Fin (21 / 2))) ''XLM'' ''GA'' JNull) = Inr True"
  using combined_filter_exact [of "JNumber (Fin (21 / 2))" "Some (Fin 10)" "Some [''USDC'', ''XLM'']" "''XLM''" "''GA''" JNull]
  by (simp add: is_nullish_def num_le_def)

section \<open>Paths\<close>

definition plain_key :: "string \<Rightarrow> bool" where
  "plain_key k \<longleftrightarrow> k \<noteq> [] \<and> list_all key_char k"

fun render_token :: "path_token \<Rightarrow> string" where
  "render_token (Index i) = ''['' @ nat_str i @ '']''"
| "render_token (Key k) = (if plain_key k then ''.'' @ k else [CHR ''['', CHR 0x22] @ k @ [CHR 0x22, CHR '']''])"

fun token_ok :: "path_token \<Rightarrow> bool" where
  "token_ok (Index i) = True"
| "token_ok (Key k) = (k \<noteq> [] \<and> (plain_key k \<or> CHR 0x22 \<notin> set k))"

definition boundary :: "string \<Rightarrow> bool" where
  "boundary s \<longleftrightarrow> (case s of [] \<Rightarrow> True | c # _ \<Rightarrow> c = CHR ''.'' \<or> c = CHR ''['')"

lemma take_key:
  assumes "plain_key k" "boundary rest"
  shows "takeWhile key_char (k @ rest) = k" "dropWhile key_char (k @ rest) = rest"
  using assms by (cases rest; auto simp: plain_key_def boundary_def key_char_def list_all_iff takeWhile_append2
      dropWhile_append2)+

lemma match_plain_key:
  assumes "plain_key k" "boundary rest"
  shows "match_at (''.'' @ k @ rest) = Some (Key k, rest)" "match_at (k @ rest) = Some (Key k, rest)"
proof -
  have k: "k \<noteq> []" "hd k \<noteq> CHR ''.''" using assms(1) by (cases k; auto simp: plain_key_def key_char_def)+
  then have "take 1 (k @ rest) \<noteq> ''.''" by (cases k) auto
  then show "match_at (k @ rest) = Some (Key k, rest)" using take_key[OF assms] k by (simp add: match_at_def)
  show "match_at (''.'' @ k @ rest) = Some (Key k, rest)" using take_key[OF assms] k by (simp add: match_at_def)
qed

lemma match_bracket: "match_at (CHR ''['' # t) = match_index t"
  by (simp add: match_at_def key_char_def)

lemma match_number: "match_index (nat_str i @ CHR '']'' # rest) = Some (Index i, rest)"
proof -
  have "takeWhile is_digit (nat_str i @ CHR '']'' # rest) = nat_str i"
    "dropWhile is_digit (nat_str i @ CHR '']'' # rest) = CHR '']'' # rest"
    using nat_str_digits[of _ i] by (auto simp: takeWhile_append2 dropWhile_append2 is_digit_def)
  then show ?thesis by (simp add: match_index_def)
qed

lemma upto_char:
  assumes "x \<notin> set k"
  shows "takeWhile (\<lambda>d. d \<noteq> x) (k @ x # r) = k" "dropWhile (\<lambda>d. d \<noteq> x) (k @ x # r) = x # r"
  using assms by (induction k) auto

lemma match_name:
  assumes "k \<noteq> []" "CHR 0x22 \<notin> set k"
  shows "match_index (CHR 0x22 # k @ CHR 0x22 # CHR '']'' # rest) = Some (Key k, rest)"
  using assms by (simp add: match_index_def match_quoted_def is_digit_def upto_char)

lemma match_render: "token_ok t \<Longrightarrow> boundary rest \<Longrightarrow> match_at (render_token t @ rest) = Some (t, rest)"
  by (cases t) (auto simp: match_plain_key[simplified] match_bracket match_number match_name)

lemma boundary_render: "boundary (concat (map render_token ts))"
  by (cases ts; cases "hd ts") (auto simp: boundary_def)

lemma path_tokens_match: "match_at s = Some (t, rest) \<Longrightarrow> path_tokens s = t # path_tokens rest"
  by (cases s) (auto simp: match_at_def Let_def)

lemma path_tokens_render: "list_all token_ok ts \<Longrightarrow> path_tokens (concat (map render_token ts)) = ts"
proof (induction ts)
  case (Cons t ts)
  then have "match_at (render_token t @ concat (map render_token ts)) = Some (t, concat (map render_token ts))"
    by (intro match_render boundary_render) simp
  then show ?case using Cons by (simp add: path_tokens_match)
qed simp

text \<open>Parsing a path gives back the tokens it was written from: names after a dot, indices in brackets, and
  names with dots or brackets quoted in brackets.\<close>

theorem path_roundtrip:
  assumes "list_all token_ok ts"
  shows "parseJsonPath (''$'' @ concat (map render_token ts)) = ts"
proof (cases "\<exists>k us. ts = Key k # us \<and> plain_key k")
  case True
  then obtain k us where ts: "ts = Key k # us" "plain_key k" by blast
  then have "path_tokens (k @ concat (map render_token us)) = ts"
    using path_tokens_match[OF match_plain_key(2)[OF ts(2) boundary_render]] assms path_tokens_render by simp
  then show ?thesis using ts by (simp add: parseJsonPath_def startsWith_def)
next
  case False
  then have "\<not> startsWith (''$'' @ concat (map render_token ts)) ''$.''"
    by (cases ts; cases "hd ts") (auto simp: startsWith_def)
  then show ?thesis using path_tokens_render[OF assms] by (simp add: parseJsonPath_def startsWith_def)
qed

theorem path_roundtrip_witness:
  "parseJsonPath ''$.operations[0][\"a.b\"].*'' = [Key ''operations'', Index 0, Key ''a.b'', Key ''*'']"
proof -
  let ?ts = "[Key ''operations'', Index 0, Key ''a.b'', Key ''*'']"
  have "list_all token_ok ?ts" "''$'' @ concat (map render_token ?ts) = ''$.operations[0][\"a.b\"].*''" by code_simp+
  then show ?thesis using path_roundtrip [of ?ts] by simp
qed

end
