(* ===== verification/AlertRules.thy ===== *)
theory AlertRules
  imports RulesEngine
begin

text \<open>
  Persisted alert rules (\<open>apps/api/src/lib/alert-rule-evaluator.ts\<close>): which rules match a payment, and the
  dispatch of at most one notification job per payment. The conditions of a rule come unchecked from the
  database. The dependencies of the dispatcher are those the watcher passes: the dispatch log is a table
  with a unique payment id, the queue a list; that enqueueing throws is an argument.
\<close>

record NormalizedPaymentEvent =
  paymentId :: string
  ev_txHash :: string
  ev_walletId :: string
  ev_userId :: string
  ev_amount :: jsv
  ev_asset :: string
  ev_fromAddress :: string
  ev_memo :: "string option"

record AlertRuleRecord =
  rule_id :: string
  rule_userId :: string
  rule_walletId :: "string option"
  assets :: "string list"
  minAmount :: jsv
  maxAmount :: jsv
  rule_memo :: "string option"
  conditions :: jsv
  isActive :: bool

definition ruleAppliesToWallet :: "AlertRuleRecord \<Rightarrow> string \<Rightarrow> bool" where
  "ruleAppliesToWallet rule w = (case rule_walletId rule of None \<Rightarrow> True | Some v \<Rightarrow> v = w)"

definition ruleAppliesToAsset :: "AlertRuleRecord \<Rightarrow> string \<Rightarrow> bool" where
  "ruleAppliesToAsset rule asset \<longleftrightarrow> assets rule = [] \<or> asset \<in> set (assets rule)"

definition meetsMinimumAmount :: "AlertRuleRecord \<Rightarrow> jsv \<Rightarrow> bool" where
  "meetsMinimumAmount rule amount \<longleftrightarrow> is_nullish (minAmount rule) \<or> num_le (js_Number (minAmount rule)) (js_Number amount)"

definition meetsMaximumAmount :: "AlertRuleRecord \<Rightarrow> jsv \<Rightarrow> bool" where
  "meetsMaximumAmount rule amount \<longleftrightarrow> is_nullish (maxAmount rule) \<or> num_le (js_Number amount) (js_Number (maxAmount rule))"

definition ruleAppliesToMemo :: "AlertRuleRecord \<Rightarrow> string option \<Rightarrow> bool" where
  "ruleAppliesToMemo rule memo =
     (case rule_memo rule of
        None \<Rightarrow> True
      | Some m \<Rightarrow>
          if trim m = '''' then True
          else case memo of
            None \<Rightarrow> False
          | Some t \<Rightarrow> t \<noteq> '''' \<and> str_includes (toLowerCase t) (toLowerCase m))"

definition event_context :: "NormalizedPaymentEvent \<Rightarrow> jsv" where
  "event_context e = payment_context (ev_amount e) (ev_asset e) (ev_fromAddress e)
     (case ev_memo e of Some m \<Rightarrow> JString m | None \<Rightarrow> JNull)"

definition matchesAlertRule :: "AlertRuleRecord \<Rightarrow> NormalizedPaymentEvent \<Rightarrow> js_error + bool" where
  "matchesAlertRule rule e =
     (if \<not> isActive rule then Inr False
      else if \<not> ruleAppliesToWallet rule (ev_walletId e) then Inr False
      else if \<not> ruleAppliesToAsset rule (ev_asset e) then Inr False
      else if \<not> meetsMinimumAmount rule (ev_amount e) then Inr False
      else if \<not> meetsMaximumAmount rule (ev_amount e) then Inr False
      else if \<not> ruleAppliesToMemo rule (ev_memo e) then Inr False
      else if \<not> falsy (conditions rule) then evaluateRuleGroup (conditions rule) (event_context e)
      else Inr True)"

fun evaluateAlertRules :: "AlertRuleRecord list \<Rightarrow> NormalizedPaymentEvent \<Rightarrow> js_error + AlertRuleRecord list" where
  "evaluateAlertRules [] e = Inr []"
| "evaluateAlertRules (rule # rules) e =
     (case matchesAlertRule rule e of
        Inl err \<Rightarrow> Inl err
      | Inr b \<Rightarrow>
          (case evaluateAlertRules rules e of
             Inl err \<Rightarrow> Inl err
           | Inr rs \<Rightarrow> Inr (if b then rule # rs else rs)))"

record AlertRuleEvaluationResult =
  matchedRuleIds :: "string list"
  enqueued :: bool

record dispatch_state =
  dispatch_log :: "(string, string list) jsmap"
  alert_queue :: "NormalizedPaymentEvent list"

datatype dispatch_error = Rule_error js_error | Queue_error

definition evaluateAndDispatch ::
  "AlertRuleRecord list \<Rightarrow> NormalizedPaymentEvent \<Rightarrow> bool \<Rightarrow> dispatch_state \<Rightarrow>
     (dispatch_error + AlertRuleEvaluationResult) \<times> dispatch_state" where
  "evaluateAndDispatch rules e queue_fails st =
     (case evaluateAlertRules rules e of
        Inl err \<Rightarrow> (Inl (Rule_error err), st)
      | Inr matched \<Rightarrow>
          if matched = [] then (Inr \<lparr>matchedRuleIds = [], enqueued = False\<rparr>, st)
          else
            let ids = map rule_id matched in
            if map_of (dispatch_log st) (paymentId e) \<noteq> None then (Inr \<lparr>matchedRuleIds = ids, enqueued = False\<rparr>, st)
            else
              let st1 = st\<lparr>dispatch_log := dispatch_log st @ [(paymentId e, ids)]\<rparr> in
              if queue_fails then (Inl Queue_error, st1)
              else (Inr \<lparr>matchedRuleIds = ids, enqueued = True\<rparr>, st1\<lparr>alert_queue := alert_queue st1 @ [e]\<rparr>))"

section \<open>Which rules match\<close>

text \<open>A rule whose conditions are absent or a typed group.\<close>

definition typed_conditions :: "AlertRuleRecord \<Rightarrow> filter_node option \<Rightarrow> bool" where
  "typed_conditions rule g \<longleftrightarrow>
     (case g of None \<Rightarrow> falsy (conditions rule)
      | Some n \<Rightarrow> conditions rule = json_of n \<and> (\<exists>ns. n = AllOf ns \<or> n = AnyOf ns))"

text \<open>An alert rule with typed conditions matches a payment exactly when it is active, belongs to the wallet
  or to all, lists the asset or none, bounds the amount inclusively, contains the memo text regardless of
  case, and its conditions hold of the payment. No evaluation throws.\<close>

theorem alert_rule_matches_iff:
  assumes "typed_conditions rule g"
  shows "matchesAlertRule rule e = Inr (isActive rule
    \<and> rule_walletId rule \<in> {None, Some (ev_walletId e)}
    \<and> (assets rule = [] \<or> ev_asset e \<in> set (assets rule))
    \<and> (is_nullish (minAmount rule) \<or> num_le (js_Number (minAmount rule)) (js_Number (ev_amount e)))
    \<and> (is_nullish (maxAmount rule) \<or> num_le (js_Number (ev_amount e)) (js_Number (maxAmount rule)))
    \<and> ruleAppliesToMemo rule (ev_memo e)
    \<and> (case g of None \<Rightarrow> True | Some n \<Rightarrow> holds n (event_context e)))"
proof -
  have w: "ruleAppliesToWallet rule (ev_walletId e) \<longleftrightarrow> rule_walletId rule \<in> {None, Some (ev_walletId e)}"
    by (auto simp: ruleAppliesToWallet_def split: option.splits)
  have "(if \<not> falsy (conditions rule) then evaluateRuleGroup (conditions rule) (event_context e) else Inr True)
      = Inr (case g of None \<Rightarrow> True | Some n \<Rightarrow> holds n (event_context e))"
  proof (cases g)
    case None
    then show ?thesis using assms by (simp add: typed_conditions_def)
  next
    case (Some n)
    then obtain ns where n: "n = AllOf ns \<or> n = AnyOf ns" and c: "conditions rule = json_of n"
      using assms by (auto simp: typed_conditions_def)
    then have "\<not> falsy (json_of n)" by (auto simp: falsy_def)
    then show ?thesis using n c Some evaluate_group_holds[of ns "event_context e"] by auto
  qed
  then show ?thesis
    unfolding matchesAlertRule_def w ruleAppliesToAsset_def meetsMinimumAmount_def meetsMaximumAmount_def
    by auto
qed

definition sample_rule :: AlertRuleRecord where
  "sample_rule = \<lparr>rule_id = ''r1'', rule_userId = ''u'', rule_walletId = None, assets = [''XLM''],
     minAmount = JNumber (Fin 5), maxAmount = JNull, rule_memo = Some ''Rent'',
     conditions = json_of (createCombinedFilter (Some (Fin 10)) None), isActive = True\<rparr>"

definition sample_event :: NormalizedPaymentEvent where
  "sample_event = \<lparr>paymentId = ''p'', ev_txHash = ''h'', ev_walletId = ''w'', ev_userId = ''u'',
     ev_amount = JNumber (Fin 12), ev_asset = ''XLM'', ev_fromAddress = ''GA'', ev_memo = Some ''rent june''\<rparr>"

theorem alert_rule_matches_iff_witness:
  "matchesAlertRule sample_rule sample_event = Inr True"
proof -
  let ?g = "createCombinedFilter (Some (Fin 10)) None"
  have t: "typed_conditions sample_rule (Some ?g)"
    using filter_is_group[of "Some (Fin 10)" None] by (simp add: typed_conditions_def sample_rule_def)
  have "ruleAppliesToMemo sample_rule (ev_memo sample_event)" "holds ?g (event_context sample_event)"
    by code_simp+
  then show ?thesis using alert_rule_matches_iff [OF t, of sample_event]
    by (simp add: sample_rule_def sample_event_def num_le_def is_nullish_def)
qed

lemma evaluateAlertRules_matching:
  assumes "evaluateAlertRules rules e = Inr rs"
  shows "rs = filter (\<lambda>r. matchesAlertRule r e = Inr True) rules"
  using assms by (induction rules arbitrary: rs) (auto split: sum.splits if_splits)

section \<open>Dispatch\<close>

definition matches_some :: "AlertRuleRecord list \<Rightarrow> NormalizedPaymentEvent \<Rightarrow> bool" where
  "matches_some rules e \<longleftrightarrow> (\<exists>rs. evaluateAlertRules rules e = Inr rs \<and> rs \<noteq> [])"

type_synonym dispatch_call = "AlertRuleRecord list \<times> NormalizedPaymentEvent \<times> bool"

definition dispatch_step :: "dispatch_state \<Rightarrow> dispatch_call \<Rightarrow> dispatch_state" where
  "dispatch_step st = (\<lambda>(rules, e, queue_fails). snd (evaluateAndDispatch rules e queue_fails st))"

lemma dispatch_step_eq:
  "dispatch_step st (rules, e, fl) =
   (if matches_some rules e \<and> map_of (dispatch_log st) (paymentId e) = None
    then st\<lparr>dispatch_log := dispatch_log st @ [(paymentId e, map rule_id (projr (evaluateAlertRules rules e)))],
            alert_queue := (if fl then alert_queue st else alert_queue st @ [e])\<rparr>
    else st)"
  by (cases "evaluateAlertRules rules e")
    (auto simp: dispatch_step_def evaluateAndDispatch_def matches_some_def Let_def)

definition dispatch_ok :: "dispatch_state \<Rightarrow> bool" where
  "dispatch_ok st \<longleftrightarrow> distinct (map fst (dispatch_log st)) \<and> distinct (map paymentId (alert_queue st))
     \<and> paymentId ` set (alert_queue st) \<subseteq> fst ` set (dispatch_log st)"

interpretation dispatch: inv_machine dispatch_step dispatch_ok
proof
  fix st and c :: dispatch_call assume ok: "dispatch_ok st"
  obtain rules e fl where c: "c = (rules, e, fl)" by (cases c) auto
  show "dispatch_ok (dispatch_step st c)"
    using ok by (auto simp: c dispatch_step_eq dispatch_ok_def map_of_eq_None_iff image_iff)
qed

definition empty_dispatch :: dispatch_state where
  "empty_dispatch = \<lparr>dispatch_log = [], alert_queue = []\<rparr>"

lemma dispatched_payments:
  "fst ` set (dispatch_log (foldl dispatch_step st calls)) =
     fst ` set (dispatch_log st) \<union> {paymentId e |rules e fl. (rules, e, fl) \<in> set calls \<and> matches_some rules e}"
proof (induction calls arbitrary: st)
  case (Cons c calls)
  obtain rules e fl where c: "c = (rules, e, fl)" by (cases c) auto
  show ?case unfolding foldl_Cons Cons.IH c dispatch_step_eq
    by (auto simp: map_of_eq_None_iff image_iff dest: map_of_SomeD)
qed auto

lemma queued_payments:
  assumes "\<forall>(rules, e, fl) \<in> set calls. \<not> fl" "paymentId ` set (alert_queue st) = fst ` set (dispatch_log st)"
  shows "paymentId ` set (alert_queue (foldl dispatch_step st calls)) = fst ` set (dispatch_log (foldl dispatch_step st calls))"
  using assms
proof (induction calls arbitrary: st)
  case (Cons c calls)
  obtain rules e fl where c: "c = (rules, e, fl)" by (cases c) auto
  have "paymentId ` set (alert_queue (dispatch_step st c)) = fst ` set (dispatch_log (dispatch_step st c))"
    using Cons.prems by (auto simp: c dispatch_step_eq)
  then show ?case using Cons by simp
qed simp

text \<open>However often and with whatever rules payments are evaluated, a payment is enqueued at most once. When
  no enqueueing fails, it is enqueued exactly when some evaluation of it matched a rule.\<close>

theorem alerts_enqueued_once:
  assumes "st = foldl dispatch_step empty_dispatch calls"
  shows "distinct (map paymentId (alert_queue st))
    \<and> ((\<forall>(rules, e, fl) \<in> set calls. \<not> fl) \<longrightarrow>
        (p \<in> paymentId ` set (alert_queue st) \<longleftrightarrow>
           (\<exists>rules e fl. (rules, e, fl) \<in> set calls \<and> paymentId e = p \<and> matches_some rules e)))"
proof -
  have "dispatch_ok empty_dispatch" by (simp add: dispatch_ok_def empty_dispatch_def)
  then have "dispatch_ok st" unfolding assms by (rule dispatch.run_inv)
  moreover have "p \<in> paymentId ` set (alert_queue st) \<longleftrightarrow>
      (\<exists>rules e fl. (rules, e, fl) \<in> set calls \<and> paymentId e = p \<and> matches_some rules e)"
    if "\<forall>(rules, e, fl) \<in> set calls. \<not> fl"
    using queued_payments[OF that, of empty_dispatch] dispatched_payments[of empty_dispatch calls]
    by (auto simp: assms empty_dispatch_def)
  ultimately show ?thesis by (simp add: dispatch_ok_def)
qed

theorem alerts_enqueued_once_witness:
  "map paymentId (alert_queue (foldl dispatch_step empty_dispatch
     [([sample_rule], sample_event, False), ([sample_rule], sample_event, False)])) = [''p'']"
proof -
  let ?calls = "[([sample_rule], sample_event, False), ([sample_rule], sample_event, False)]"
  let ?q = "alert_queue (foldl dispatch_step empty_dispatch ?calls)"
  have "evaluateAlertRules [sample_rule] sample_event = Inr [sample_rule]" by code_simp
  then have m: "matches_some [sample_rule] sample_event" "paymentId sample_event = ''p''"
    by (simp_all add: matches_some_def sample_event_def)
  have "distinct (map paymentId ?q)" "''p'' \<in> paymentId ` set ?q"
    using alerts_enqueued_once [OF refl, of ?calls "''p''"] m by auto
  moreover have "set (map paymentId ?q) \<subseteq> {''p''}"
    using m by (auto simp: dispatch_step_eq empty_dispatch_def)
  ultimately show ?thesis by (cases ?q; cases "tl ?q") auto
qed

section \<open>Rules that throw\<close>

text \<open>
  The conditions of a rule for another detector, an object without rules, make the evaluation of every
  payment of its user throw that the rule is not excluded for otherwise.
\<close>

lemma foreign_conditions_throw:
  assumes "conditions rule = JObject [(''liquidityPool'', v)]" "isActive rule" "rule_walletId rule = None"
    "assets rule = []" "minAmount rule = JNull" "maxAmount rule = JNull" "rule_memo rule = None"
  shows "evaluateAlertRules (rule # rules) e = Inl TypeError"
proof -
  have "evaluateRuleGroup (conditions rule) (event_context e) = Inl TypeError"
    by (subst evaluateRuleGroup.simps) (simp add: assms rules_array_def)
  then show ?thesis
    using assms by (simp add: matchesAlertRule_def ruleAppliesToWallet_def ruleAppliesToAsset_def
        meetsMinimumAmount_def meetsMaximumAmount_def ruleAppliesToMemo_def is_nullish_def falsy_def)
qed

text \<open>A failed enqueueing is not repeated: the dispatch was recorded before.\<close>

lemma failed_enqueue_is_final:
  assumes "matches_some rules e" "map_of (dispatch_log st) (paymentId e) = None"
  shows "alert_queue (foldl dispatch_step st [(rules, e, True), (rules, e, False)]) = alert_queue st"
  using assms by (simp add: dispatch_step_eq map_of_eq_None_iff)

text \<open>A filter without rules makes the legacy decision throw, although it is meant to fail open.\<close>

lemma malformed_filter_throws: "shouldAlert (JObject []) ctx = Inl TypeError"
  by (simp add: shouldAlert_def falsy_def)

end
