(* ===== verification/CursorRecovery.thy ===== *)
theory CursorRecovery
  imports JsValues
begin

text \<open>
  Ledger-gap detection and the health fields of an ingestion cursor
  (\<open>apps/api/src/lib/cursor-recovery.ts\<close>), and the reconnect back-off of the watcher's streams
  (\<open>apps/api/src/workers/watcher/stream-reconnect.ts\<close>). A paging token is a string, a ledger sequence the
  integer above its lower 32 bits; instants are integers. The random number of the back-off is an
  argument.
\<close>

section \<open>Paging tokens\<close>

definition BOUNDED_BACKFILL_LIMIT :: nat where "BOUNDED_BACKFILL_LIMIT = 200"
definition DEFAULT_MAX_LEDGER_JUMP :: int where "DEFAULT_MAX_LEDGER_JUMP = 5"

text \<open>\<open>BigInt\<close> on a string; \<^const>\<open>None\<close> is a \<open>SyntaxError\<close>.\<close>

definition big_radix :: "string \<Rightarrow> string \<Rightarrow> int option" where
  "big_radix alphabet s =
     (if all_in alphabet s then Some (int (radix (length alphabet) (map (digit_in alphabet) s))) else None)"

definition js_BigInt :: "string \<Rightarrow> int option" where
  "js_BigInt str =
     (let s = trim str in
      if s = [] then Some 0
      else if startsWith (toLowerCase s) ''0x'' then big_radix ''0123456789abcdef'' (drop 2 (toLowerCase s))
      else if startsWith (toLowerCase s) ''0o'' then big_radix ''01234567'' (drop 2 s)
      else if startsWith (toLowerCase s) ''0b'' then big_radix ''01'' (drop 2 s)
      else signed_digits s)"

definition ledgerSeqFromPagingToken :: "string option \<Rightarrow> int option" where
  "ledgerSeqFromPagingToken pagingToken =
     (case pagingToken of
        None \<Rightarrow> None
      | Some t \<Rightarrow>
          if t = '''' then None
          else case js_BigInt t of
            None \<Rightarrow> None
          | Some v \<Rightarrow> if v \<le> 0 then None else Some (v div 2 ^ 32))"

record GapDetectionResult =
  hasGap :: bool
  ledgerDelta :: int

definition detectLedgerGap :: "string option \<Rightarrow> string option \<Rightarrow> int \<Rightarrow> GapDetectionResult" where
  "detectLedgerGap previous next maxLedgerJump =
     (case (ledgerSeqFromPagingToken previous, ledgerSeqFromPagingToken next) of
        (Some p, Some n) \<Rightarrow> \<lparr>hasGap = n - p > maxLedgerJump, ledgerDelta = n - p\<rparr>
      | _ \<Rightarrow> \<lparr>hasGap = False, ledgerDelta = 0\<rparr>)"

section \<open>Health of a cursor\<close>

record IngestionCursor =
  pagingToken :: string
  cursor_status :: string
  cursor_failures :: int
  cursor_error :: "string option"
  lastSuccessAt :: "int option"
  gapDetectedAt :: "int option"
  lastGapLedgerDelta :: "int option"

text \<open>A field that is \<^const>\<open>None\<close> in an update is left as it is.\<close>

record IngestionCursorHealthUpdate =
  u_status :: "string option"
  u_failures :: "int option"
  u_error :: "string option option"
  u_lastSuccessAt :: "int option"
  u_gapDetectedAt :: "int option"
  u_lastGapLedgerDelta :: "int option"

definition no_update :: IngestionCursorHealthUpdate where
  "no_update = \<lparr>u_status = None, u_failures = None, u_error = None, u_lastSuccessAt = None,
     u_gapDetectedAt = None, u_lastGapLedgerDelta = None\<rparr>"

definition buildCursorSuccessUpdate :: "int \<Rightarrow> IngestionCursorHealthUpdate" where
  "buildCursorSuccessUpdate now = no_update\<lparr>u_status := Some ''active'', u_failures := Some 0,
     u_error := Some None, u_lastSuccessAt := Some now\<rparr>"

definition buildCursorOutageUpdate :: "string \<Rightarrow> int \<Rightarrow> IngestionCursorHealthUpdate" where
  "buildCursorOutageUpdate error previousFailures =
     no_update\<lparr>u_failures := Some (previousFailures + 1), u_error := Some (Some error)\<rparr>"

definition buildCursorGapUpdate :: "int \<Rightarrow> int \<Rightarrow> IngestionCursorHealthUpdate" where
  "buildCursorGapUpdate delta now =
     no_update\<lparr>u_status := Some ''gap_detected'', u_gapDetectedAt := Some now, u_lastGapLedgerDelta := Some delta\<rparr>"

definition buildCursorGapClearedUpdate :: IngestionCursorHealthUpdate where
  "buildCursorGapClearedUpdate = no_update\<lparr>u_status := Some ''active''\<rparr>"

definition keep :: "'a option \<Rightarrow> 'a \<Rightarrow> 'a" where
  "keep u v = (case u of None \<Rightarrow> v | Some x \<Rightarrow> x)"

definition apply_update :: "IngestionCursorHealthUpdate \<Rightarrow> IngestionCursor \<Rightarrow> IngestionCursor" where
  "apply_update u c = c\<lparr>cursor_status := keep (u_status u) (cursor_status c),
     cursor_failures := keep (u_failures u) (cursor_failures c), cursor_error := keep (u_error u) (cursor_error c),
     lastSuccessAt := (case u_lastSuccessAt u of None \<Rightarrow> lastSuccessAt c | x \<Rightarrow> x),
     gapDetectedAt := (case u_gapDetectedAt u of None \<Rightarrow> gapDetectedAt c | x \<Rightarrow> x),
     lastGapLedgerDelta := (case u_lastGapLedgerDelta u of None \<Rightarrow> lastGapLedgerDelta c | x \<Rightarrow> x)\<rparr>"

text \<open>The defaults of the schema.\<close>

definition new_cursor :: "string \<Rightarrow> IngestionCursor" where
  "new_cursor t = \<lparr>pagingToken = t, cursor_status = ''active'', cursor_failures = 0, cursor_error = None,
     lastSuccessAt = None, gapDetectedAt = None, lastGapLedgerDelta = None\<rparr>"

lemma apply_update_token [simp]: "pagingToken (apply_update u c) = pagingToken c"
  by (simp add: apply_update_def)

section \<open>Horizon tokens\<close>

text \<open>A Horizon token holds the ledger, the transaction in it and the operation in that.\<close>

definition toid :: "nat \<Rightarrow> nat \<Rightarrow> nat \<Rightarrow> nat" where
  "toid ledger tx op = ledger * 2 ^ 32 + tx * 2 ^ 12 + op"

lemma js_BigInt_digits:
  assumes "s \<noteq> []" "list_all is_digit s"
  shows "js_BigInt s = Some (int (dec_val s))"
proof -
  have d: "c \<in> set s \<Longrightarrow> is_digit c" for c using assms(2) by (simp add: list_all_iff)
  have lower: "toLowerCase s = s"
    unfolding toLowerCase_def by (rule map_idI) (use d digit_plain in blast)
  have tr: "trim s = s" by (rule trim_id) (use d digit_plain in blast)
  have no: "\<not> startsWith s p" if "\<exists>c \<in> set p. \<not> is_digit c" for p
  proof
    assume "startsWith s p"
    then have "set p \<subseteq> set s" unfolding startsWith_def by (metis set_take_subset)
    then show False using that d by blast
  qed
  have "all_in ''0123456789'' s" using assms(1) d is_digit_mem by (auto simp: all_in_def list_all_iff)
  moreover have "hd s \<noteq> CHR ''-''" "hd s \<noteq> CHR ''+''" using d[of "hd s"] assms(1) by (auto simp: is_digit_def)
  ultimately have "signed_digits s = Some (int (dec_val s))"
    using assms(1) by (cases s) (simp_all add: signed_digits_def)
  then show ?thesis using assms(1) tr lower no[of "''0x''"] no[of "''0o''"] no[of "''0b''"]
    by (simp add: js_BigInt_def Let_def is_digit_def)
qed

lemma ledgerSeq_toid:
  assumes "tx < 2 ^ 20" "op < 2 ^ 12" "0 < ledger"
  shows "ledgerSeqFromPagingToken (Some (nat_str (toid ledger tx op))) = Some (int ledger)"
proof -
  have "list_all is_digit (nat_str n)" for n using nat_str_digits by (simp add: list_all_iff)
  then have "js_BigInt (nat_str (toid ledger tx op)) = Some (int (toid ledger tx op))"
    using js_BigInt_digits[OF nat_str_not_Nil] by simp
  moreover have "tx * 2 ^ 12 + op < 2 ^ 32"
  proof -
    have "tx * 2 ^ 12 + op < tx * 2 ^ 12 + 2 ^ 12" using assms(2) by simp
    also have "\<dots> = (tx + 1) * 2 ^ 12" by simp
    also have "\<dots> \<le> 2 ^ 20 * 2 ^ 12" using assms(1) by (intro mult_le_mono1) simp
    finally show ?thesis by simp
  qed
  then have "toid ledger tx op div 2 ^ 32 = ledger" by (simp add: toid_def)
  then have "int (toid ledger tx op) div 2 ^ 32 = int ledger" by (metis of_nat_numeral of_nat_power zdiv_int)
  moreover have "0 < toid ledger tx op" using assms(3) by (simp add: toid_def)
  ultimately show ?thesis by (simp add: ledgerSeqFromPagingToken_def)
qed

text \<open>Gap detection compares ledgers exactly: for the tokens of operations in two ledgers, written in decimal, a
  gap is reported when and only when the ledgers are further apart than the limit, whatever the transactions
  and operations in them; a first record, without a previous token or after the seed token, is never a gap.\<close>

theorem ledger_gap_exact:
  assumes "tx < 2 ^ 20" "op < 2 ^ 12" "tx' < 2 ^ 20" "op' < 2 ^ 12" "0 < ledger" "0 < ledger'"
  shows "detectLedgerGap (Some (nat_str (toid ledger tx op))) (Some (nat_str (toid ledger' tx' op'))) jump =
      \<lparr>hasGap = int ledger' - int ledger > jump, ledgerDelta = int ledger' - int ledger\<rparr>
    \<and> \<not> hasGap (detectLedgerGap None (Some t) jump) \<and> \<not> hasGap (detectLedgerGap (Some ''0'') (Some t) jump)"
proof -
  have "ledgerSeqFromPagingToken (Some ''0'') = None" by code_simp
  then show ?thesis using ledgerSeq_toid[OF assms(1,2,5)] ledgerSeq_toid[OF assms(3,4,6)]
    by (simp add: detectLedgerGap_def ledgerSeqFromPagingToken_def[of None])
qed

theorem ledger_gap_exact_witness:
  "detectLedgerGap (Some (nat_str (toid 100 7 1))) (Some (nat_str (toid 106 0 2))) DEFAULT_MAX_LEDGER_JUMP =
   \<lparr>hasGap = True, ledgerDelta = 6\<rparr>"
  using ledger_gap_exact [of 7 1 0 2 100 106 DEFAULT_MAX_LEDGER_JUMP "''1''"] by (simp add: DEFAULT_MAX_LEDGER_JUMP_def)

section \<open>Reconnect back-off\<close>

text \<open>
  Delays are milliseconds, exact rationals; the random number lies in the unit interval. The power of two
  overflows to infinity beyond the largest double, where the ceiling is used.
\<close>

record FullJitterBackoff =
  failureCount :: nat
  baseMs :: rat
  ceilingMs :: rat
  maxAttempts :: "nat option"

definition double_overflow :: rat where
  "double_overflow = 2 ^ 1024"

definition computeFullJitterDelay :: "int \<Rightarrow> rat \<Rightarrow> rat \<Rightarrow> rat \<Rightarrow> int" where
  "computeFullJitterDelay attempt base ceiling_ms random =
     (if attempt < 1 then 0
      else
        let exponential = base * 2 ^ nat (attempt - 1);
            uncappedMax = (if \<bar>exponential\<bar> < double_overflow then exponential else ceiling_ms);
            mx = min ceiling_ms uncappedMax in
        \<lfloor>random * mx\<rfloor>)"

definition newFullJitterBackoff :: "rat option \<Rightarrow> rat option \<Rightarrow> nat option \<Rightarrow> FullJitterBackoff" where
  "newFullJitterBackoff base ceil attempts =
     \<lparr>failureCount = 0, baseMs = keep base 1000, ceilingMs = keep ceil 60000, maxAttempts = attempts\<rparr>"

definition reset :: "FullJitterBackoff \<Rightarrow> FullJitterBackoff" where
  "reset b = b\<lparr>failureCount := 0\<rparr>"

definition onFailure :: "FullJitterBackoff \<Rightarrow> rat \<Rightarrow> int option \<times> FullJitterBackoff" where
  "onFailure b random =
     (if (case maxAttempts b of None \<Rightarrow> False | Some m \<Rightarrow> failureCount b \<ge> m) then (None, b)
      else
        let b' = b\<lparr>failureCount := failureCount b + 1\<rparr> in
        (Some (computeFullJitterDelay (int (failureCount b')) (baseMs b') (ceilingMs b') random), b'))"

fun failures_in_row :: "FullJitterBackoff \<Rightarrow> rat list \<Rightarrow> int option list \<times> FullJitterBackoff" where
  "failures_in_row b [] = ([], b)"
| "failures_in_row b (r # rs) =
     (let (d, b1) = onFailure b r; (ds, b2) = failures_in_row b1 rs in (d # ds, b2))"

lemma floor_fraction:
  fixes m :: rat
  assumes "0 \<le> r" "r < 1" "0 \<le> m"
  shows "0 \<le> \<lfloor>r * m\<rfloor>" "of_int \<lfloor>r * m\<rfloor> \<le> m"
proof -
  have "r * m \<le> m" using assms by (simp add: mult_left_le_one_le)
  then show "of_int \<lfloor>r * m\<rfloor> \<le> m" using of_int_floor_le order_trans by blast
  show "0 \<le> \<lfloor>r * m\<rfloor>" using assms by simp
qed

lemma jitter_bounds:
  assumes "0 \<le> r" "r < 1" "0 \<le> base" "0 \<le> c" "c < double_overflow"
  shows "0 \<le> computeFullJitterDelay (int n + 1) base c r
    \<and> of_int (computeFullJitterDelay (int n + 1) base c r) \<le> min c (base * 2 ^ n)"
proof -
  let ?e = "base * 2 ^ n"
  define m where "m = min c (if \<bar>?e\<bar> < double_overflow then ?e else c)"
  have e: "0 \<le> ?e" using assms(3) by simp
  then have "0 \<le> m" "m \<le> min c ?e" using assms(4,5) by (auto simp: m_def)
  moreover have "computeFullJitterDelay (int n + 1) base c r = \<lfloor>r * m\<rfloor>"
    by (simp add: computeFullJitterDelay_def m_def Let_def)
  ultimately show ?thesis using floor_fraction[OF assms(1,2), of m] by (auto intro: order_trans)
qed

lemma failures_in_row_nth:
  assumes "i < length rs"
  shows "fst (failures_in_row b rs) ! i =
    (if (case maxAttempts b of None \<Rightarrow> False | Some m \<Rightarrow> m \<le> failureCount b + i) then None
     else Some (computeFullJitterDelay (int (failureCount b + i) + 1) (baseMs b) (ceilingMs b) (rs ! i)))"
  using assms
proof (induction rs arbitrary: b i)
  case (Cons r rs)
  show ?case
  proof (cases i)
    case 0
    then show ?thesis
      by (cases "maxAttempts b") (auto simp: onFailure_def Let_def add.commute split: prod.splits)
  next
    case (Suc j)
    then have "fst (failures_in_row b (r # rs)) ! i = fst (failures_in_row (snd (onFailure b r)) rs) ! j"
      by (simp add: split_def Let_def)
    also have "\<dots> = (if (case maxAttempts b of None \<Rightarrow> False | Some m \<Rightarrow> m \<le> failureCount b + i) then None
        else Some (computeFullJitterDelay (int (failureCount b + i) + 1) (baseMs b) (ceilingMs b) ((r # rs) ! i)))"
      using Cons Suc by (auto simp: onFailure_def Let_def split: option.splits)
    finally show ?thesis .
  qed
qed simp

text \<open>The n-th failure in a row is answered with a delay between zero and both the ceiling and the exponential
  back-off of the n-th attempt, and with no delay at all exactly from the maximal number of attempts on.\<close>

theorem reconnect_delays_bounded:
  assumes "b = newFullJitterBackoff base ceil attempts" "0 \<le> baseMs b" "0 \<le> ceilingMs b"
    and "ceilingMs b < double_overflow" "list_all (\<lambda>r. 0 \<le> r \<and> r < 1) rs" "n < length rs"
  shows "case fst (failures_in_row b rs) ! n of
      None \<Rightarrow> \<exists>m. attempts = Some m \<and> m \<le> n
    | Some d \<Rightarrow> 0 \<le> d \<and> of_int d \<le> min (ceilingMs b) (baseMs b * 2 ^ n) \<and> (\<forall>m. attempts = Some m \<longrightarrow> n < m)"
proof -
  have "0 \<le> rs ! n" "rs ! n < 1" using assms(5,6) by (simp_all add: list_all_length)
  then have "0 \<le> computeFullJitterDelay (int n + 1) (baseMs b) (ceilingMs b) (rs ! n)
    \<and> of_int (computeFullJitterDelay (int n + 1) (baseMs b) (ceilingMs b) (rs ! n)) \<le> min (ceilingMs b) (baseMs b * 2 ^ n)"
    using assms(2-4) by (intro jitter_bounds)
  moreover have "failureCount b = 0" "maxAttempts b = attempts" by (simp_all add: assms(1) newFullJitterBackoff_def)
  ultimately show ?thesis by (simp add: failures_in_row_nth[OF assms(6)] split: option.splits)
qed

theorem reconnect_delays_bounded_witness:
  "fst (failures_in_row (newFullJitterBackoff None None (Some 1)) [1 / 2, 1 / 2]) ! 1 = None"
proof -
  have "0 \<le> baseMs (newFullJitterBackoff None None (Some 1))" "0 \<le> ceilingMs (newFullJitterBackoff None None (Some 1))"
    "ceilingMs (newFullJitterBackoff None None (Some 1)) < double_overflow"
    by (simp_all add: newFullJitterBackoff_def keep_def double_overflow_def)
  from reconnect_delays_bounded [OF refl this, of "[1 / 2, 1 / 2]" 1] show ?thesis
    by (auto split: option.splits)
qed

end
