(* ===== verification/Ingestion.thy ===== *)
theory Ingestion
  imports StrKey HorizonPool AlertRules CursorRecovery
begin

text \<open>
  Ingestion of payments by the watcher (\<open>apps/api/src/workers/watcher.worker.ts\<close>): decoding a Horizon record,
  the transaction that inserts the payment with its outbox events and advances the cursor, the effects
  after the transaction, recovery from ledger gaps, and the catch-up pass over the pages of a wallet; with
  the outbox (\<open>modules/outbox/outbox.service.ts\<close>) and the decoding helpers of \<open>lib/stellar.ts\<close>.

  The tables are lists of rows with the unique constraints of the schema, and a transaction is one step.
  Parameters are what the code gets from outside: the identifiers of the database, Horizon, the decoding
  of contract events by the SDK and the metadata of token contracts, the user's rules and preferences, and
  whether the wallet lock, the queue and the realtime channel work. The append to the checksum chain never
  throws; its calls are recorded. The time of receipt is the text in the record; queueing an alert falls back to
  a direct dispatch, and \<open>queue_ok\<close> says whether either works. Spans and logs are left out.
\<close>

section \<open>Decoding\<close>

definition decodeHorizonAsset :: "horizon_record \<Rightarrow> string \<times> string option" where
  "decodeHorizonAsset r =
     (let or_none = (\<lambda>s. if s = '''' then None else Some s); t = string_field r ''asset_type'' in
      if t = ''native'' \<or> t = '''' then (''XLM'', None)
      else (case or_none (string_field r ''asset_code'') of Some c \<Rightarrow> c | None \<Rightarrow> ''Unknown'',
            or_none (string_field r ''asset_issuer'')))"

definition formatTokenAmount :: "string \<Rightarrow> nat \<Rightarrow> string" where
  "formatTokenAmount rawAmount decimals =
     (let raw = (case js_BigInt (trim rawAmount) of Some v \<Rightarrow> v | None \<Rightarrow> 0);
          sign = (if raw < 0 then ''-'' else '''');
          abs_raw = nat \<bar>raw\<bar>;
          divisor = 10 ^ decimals;
          fraction = strip_zeros (padStart decimals CHR ''0'' (nat_str (abs_raw mod divisor))) in
      sign @ nat_str (abs_raw div divisor) @ (if fraction = '''' then '''' else ''.'' @ fraction))"

record SacTransfer =
  sac_contractId :: string
  sac_assetCode :: "string option"
  sac_assetIssuer :: "string option"
  sac_from :: string
  rawAmount :: string

record decoded =
  d_amount :: string
  d_asset :: string
  d_assetIssuer :: "string option"
  d_from :: string
  d_memo :: "string option"

text \<open>The decoder of contract events, and the metadata of a token contract (its decimals and symbol).\<close>

record decoders =
  parseSac :: "horizon_record \<Rightarrow> SacTransfer option"
  sacMetadata :: "string \<Rightarrow> (nat \<times> string) option"

definition decode_sac :: "decoders \<Rightarrow> SacTransfer \<Rightarrow> decoded" where
  "decode_sac dec sac =
     (let symbol = (case sac_assetCode sac of Some c \<Rightarrow> c | None \<Rightarrow> sac_contractId sac);
          (decimals, name) =
            (if sac_contractId sac = '''' then (7, symbol)
             else case sacMetadata dec (sac_contractId sac) of
               Some (d, sy) \<Rightarrow> (d, if sy = '''' then symbol else sy)
             | None \<Rightarrow> (7, symbol)) in
      \<lparr>d_amount = formatTokenAmount (rawAmount sac) decimals, d_asset = name,
       d_assetIssuer = sac_assetIssuer sac, d_from = sac_from sac, d_memo = None\<rparr>)"

text \<open>\<^const>\<open>None\<close> when the record is skipped.\<close>

definition decode_record :: "decoders \<Rightarrow> horizon_record \<Rightarrow> decoded option" where
  "decode_record dec r =
     (let d =
        (if isHorizonPayment r then
           (let (code, issuer) = decodeHorizonAsset r; memo = string_field r ''memo'' in
            Some \<lparr>d_amount = string_field r ''amount'', d_asset = code, d_assetIssuer = issuer,
                  d_from = string_field r ''from'', d_memo = (if memo = '''' then None else Some memo)\<rparr>)
         else if isHorizonCreateAccount r then
           Some \<lparr>d_amount = string_field r ''starting_balance'', d_asset = ''XLM'', d_assetIssuer = None,
                 d_from = string_field r ''funder'', d_memo = None\<rparr>
         else map_option (decode_sac dec) (parseSac dec r)) in
      case d of
        None \<Rightarrow> None
      | Some x \<Rightarrow> if d_amount x = '''' \<or> getHorizonTxHash r = '''' then None else Some x)"

section \<open>Tables\<close>

record Payment =
  pay_id :: string
  pay_walletId :: string
  pay_txHash :: string
  pay_from :: string
  pay_amount :: jsnum
  pay_asset :: string
  pay_assetIssuer :: "string option"
  pay_memo :: "string option"
  pay_receivedAt :: string

datatype OutboxEventType = payment_alert | payment_realtime

fun event_type_name :: "OutboxEventType \<Rightarrow> string" where
  "event_type_name payment_alert = ''payment.alert''"
| "event_type_name payment_realtime = ''payment.realtime''"

record OutboxEvent =
  ob_type :: OutboxEventType
  ob_aggregateId :: string
  ob_txHash :: string
  ob_key :: string

definition outboxIdempotencyKey :: "string \<Rightarrow> string \<Rightarrow> string" where
  "outboxIdempotencyKey eventType aggregateId = eventType @ '':'' @ aggregateId"

text \<open>Every payload has the payment id, which is the aggregate, and the transaction.\<close>

definition outbox_event :: "OutboxEventType \<Rightarrow> Payment \<Rightarrow> OutboxEvent" where
  "outbox_event ty p = \<lparr>ob_type = ty, ob_aggregateId = pay_id p, ob_txHash = pay_txHash p,
     ob_key = outboxIdempotencyKey (event_type_name ty) (pay_id p)\<rparr>"

text \<open>\<open>createMany\<close> with \<open>skipDuplicates\<close> on a table with a unique key.\<close>

definition create_skip :: "('r \<Rightarrow> 'k) \<Rightarrow> 'r list \<Rightarrow> 'r \<Rightarrow> 'r list" where
  "create_skip key rows r = (if key r \<in> key ` set rows then rows else rows @ [r])"

definition record_events :: "OutboxEvent list \<Rightarrow> OutboxEvent list \<Rightarrow> OutboxEvent list" where
  "record_events rows events = foldl (create_skip ob_key) rows events"

record ingest =
  payments :: "Payment list"
  outbox :: "OutboxEvent list"
  cursors :: "(string, IngestionCursor) jsmap"
  chained :: "string list"
  realtime :: "(string \<times> string) list"
  dispatches :: dispatch_state
  jobs :: "string list"

record Wallet =
  w_id :: string
  w_publicKey :: string
  w_userId :: "string option"

text \<open>
  The environment of a call: identifiers of new rows, the clock, the decoders, the rules and the filter of
  the user, the working of the lock, the channel and the queue, and the newest payments of the account.
\<close>

record ingest_env =
  new_id :: "nat \<Rightarrow> string"
  clock :: int
  decs :: decoders
  user_rules :: "AlertRuleRecord list"
  user_filter :: jsv
  lock_ok :: bool
  publish_ok :: bool
  queue_ok :: bool
  recent_payments :: "horizon_record list"

datatype ingest_error = Rules_threw js_error | Lock_not_acquired | Publish_failed | Enqueue_failed

section \<open>Paging tokens\<close>

definition numeric_token :: "string \<Rightarrow> bool" where
  "numeric_token t \<longleftrightarrow> t \<noteq> [] \<and> list_all is_digit t"

definition isPagingTokenAtLeast :: "string \<Rightarrow> string \<Rightarrow> bool" where
  "isPagingTokenAtLeast candidate current =
     (if \<not> numeric_token candidate \<or> \<not> numeric_token current then candidate = current
      else dec_val candidate \<ge> dec_val current)"

definition upsert_cursor ::
  "string \<Rightarrow> string \<Rightarrow> IngestionCursorHealthUpdate \<Rightarrow> (string, IngestionCursor) jsmap \<Rightarrow> (string, IngestionCursor) jsmap" where
  "upsert_cursor w t u cs =
     (case map_of cs w of
        None \<Rightarrow> AList.update w (new_cursor t) cs
      | Some c \<Rightarrow> AList.update w (apply_update u (c\<lparr>pagingToken := t\<rparr>)) cs)"

definition update_cursor ::
  "string \<Rightarrow> IngestionCursorHealthUpdate \<Rightarrow> (string, IngestionCursor) jsmap \<Rightarrow> (string, IngestionCursor) jsmap" where
  "update_cursor w u cs =
     (case map_of cs w of None \<Rightarrow> cs | Some c \<Rightarrow> AList.update w (apply_update u c) cs)"

definition no_gap :: GapDetectionResult where
  "no_gap = \<lparr>hasGap = False, ledgerDelta = 0\<rparr>"

text \<open>The part of the transaction that moves the cursor: the new cursors and the detected gap.\<close>

definition advance_cursor ::
  "string \<Rightarrow> string option \<Rightarrow> bool \<Rightarrow> int \<Rightarrow> (string, IngestionCursor) jsmap \<Rightarrow>
     (string, IngestionCursor) jsmap \<times> GapDetectionResult" where
  "advance_cursor w token skipGapCheck now cs =
     (case token of
        None \<Rightarrow> (cs, no_gap)
      | Some t \<Rightarrow>
          let previous = map_option pagingToken (map_of cs w);
              canAdvance = (case previous of None \<Rightarrow> True | Some p \<Rightarrow> isPagingTokenAtLeast t p) in
          if skipGapCheck then
            ((if canAdvance then upsert_cursor w t (buildCursorSuccessUpdate now) cs else cs), no_gap)
          else
            let gap = detectLedgerGap previous (Some t) DEFAULT_MAX_LEDGER_JUMP in
            ((if canAdvance
              then upsert_cursor w t (if hasGap gap then buildCursorGapUpdate (ledgerDelta gap) now
                                      else buildCursorSuccessUpdate now) cs
              else cs), gap))"

definition saveCursor ::
  "string \<Rightarrow> string \<Rightarrow> bool \<Rightarrow> string option option \<Rightarrow> int \<Rightarrow> ingest \<Rightarrow> GapDetectionResult \<times> ingest" where
  "saveCursor w t skipGapCheck previousToken now s =
     (if skipGapCheck then (no_gap, s\<lparr>cursors := upsert_cursor w t (buildCursorSuccessUpdate now) (cursors s)\<rparr>)
      else
        let previous = (case previousToken of Some p \<Rightarrow> p | None \<Rightarrow> map_option pagingToken (map_of (cursors s) w));
            gap = detectLedgerGap previous (Some t) DEFAULT_MAX_LEDGER_JUMP in
        (gap, s\<lparr>cursors := upsert_cursor w t (if hasGap gap then buildCursorGapUpdate (ledgerDelta gap) now
           else buildCursorSuccessUpdate now) (cursors s)\<rparr>))"

section \<open>Processing a record\<close>

definition opt_json :: "string option \<Rightarrow> jsv" where
  "opt_json m = (case m of Some t \<Rightarrow> JString t | None \<Rightarrow> JNull)"

definition record_event :: "Wallet \<Rightarrow> string \<Rightarrow> horizon_record \<Rightarrow> decoded \<Rightarrow> string \<Rightarrow> NormalizedPaymentEvent" where
  "record_event w user r d pid = \<lparr>paymentId = pid, ev_txHash = getHorizonTxHash r, ev_walletId = w_id w,
     ev_userId = user, ev_amount = JNumber (to_number (d_amount d)), ev_asset = d_asset d,
     ev_fromAddress = d_from d, ev_memo = d_memo d\<rparr>"

definition filter_decision :: "ingest_env \<Rightarrow> decoded \<Rightarrow> js_error + bool" where
  "filter_decision env d =
     (if falsy (user_filter env) then Inr True
      else shouldAlert (user_filter env)
             (payment_context (JNumber (to_number (d_amount d))) (d_asset d) (d_from d) (opt_json (d_memo d))))"

text \<open>The decision taken before the transaction, with the rules that were loaded for it.\<close>

definition early_decision ::
  "ingest_env \<Rightarrow> Wallet \<Rightarrow> horizon_record \<Rightarrow> decoded \<Rightarrow> bool \<Rightarrow> js_error + bool \<times> AlertRuleRecord list" where
  "early_decision env w r d known =
     (case w_userId w of
        None \<Rightarrow> Inr (True, [])
      | Some user \<Rightarrow>
          if known then Inr (True, [])
          else if user_rules env \<noteq> [] then
            (case evaluateAlertRules (user_rules env) (record_event w user r d '''') of
               Inl e \<Rightarrow> Inl e
             | Inr matched \<Rightarrow> Inr (matched \<noteq> [], user_rules env))
          else (case filter_decision env d of Inl e \<Rightarrow> Inl e | Inr b \<Rightarrow> Inr (b, [])))"

definition new_payment :: "ingest_env \<Rightarrow> Wallet \<Rightarrow> horizon_record \<Rightarrow> decoded \<Rightarrow> ingest \<Rightarrow> Payment" where
  "new_payment env w r d s = \<lparr>pay_id = new_id env (length (payments s)), pay_walletId = w_id w,
     pay_txHash = getHorizonTxHash r, pay_from = d_from d, pay_amount = to_number (d_amount d),
     pay_asset = d_asset d, pay_assetIssuer = d_assetIssuer d, pay_memo = d_memo d,
     pay_receivedAt = string_field r ''created_at''\<rparr>"

definition ingest_tx ::
  "ingest_env \<Rightarrow> Wallet \<Rightarrow> horizon_record \<Rightarrow> decoded \<Rightarrow> bool \<Rightarrow> bool \<Rightarrow> ingest \<Rightarrow>
     bool \<times> GapDetectionResult \<times> ingest" where
  "ingest_tx env w r d shouldSendAlert skipGapCheck s =
     (let p = new_payment env w r d s;
          isNew = (pay_txHash p \<notin> pay_txHash ` set (payments s));
          events = (if shouldSendAlert then [outbox_event payment_alert p] else []) @ [outbox_event payment_realtime p];
          (cs, gap) = advance_cursor (w_id w) (getHorizonPagingToken r) skipGapCheck (clock env) (cursors s) in
      (isNew, gap,
       s\<lparr>payments := create_skip pay_txHash (payments s) p,
         outbox := (if isNew then record_events (outbox s) events else outbox s), cursors := cs\<rparr>))"

text \<open>\<open>enqueuePaymentAlert\<close>: the job id is made of the transaction, so a repeated job is not added.\<close>

definition enqueue_job :: "string \<Rightarrow> ingest \<Rightarrow> ingest" where
  "enqueue_job tx s = s\<lparr>jobs := create_skip id (jobs s) tx\<rparr>"

definition after_insert ::
  "ingest_env \<Rightarrow> Wallet \<Rightarrow> horizon_record \<Rightarrow> decoded \<Rightarrow> AlertRuleRecord list \<Rightarrow> string \<Rightarrow> ingest \<Rightarrow>
     (ingest_error + unit) \<times> ingest" where
  "after_insert env w r d rules pid s =
     (let tx = getHorizonTxHash r;
          s1 = s\<lparr>chained := chained s @ [pid]\<rparr> in
      case w_userId w of
        None \<Rightarrow> if queue_ok env then (Inr (), enqueue_job tx s1) else (Inl Enqueue_failed, s1)
      | Some user \<Rightarrow>
          if \<not> publish_ok env then (Inl Publish_failed, s1)
          else
            let s2 = s1\<lparr>realtime := realtime s1 @ [(user, pid)]\<rparr> in
            if rules \<noteq> [] then
              (case evaluateAndDispatch rules (record_event w user r d pid) (\<not> queue_ok env) (dispatches s2) of
                 (Inl (Rule_error e), ds) \<Rightarrow> (Inl (Rules_threw e), s2\<lparr>dispatches := ds\<rparr>)
               | (Inl Queue_error, ds) \<Rightarrow> (Inl Enqueue_failed, s2\<lparr>dispatches := ds\<rparr>)
               | (Inr res, ds) \<Rightarrow>
                   (Inr (), (if enqueued res then enqueue_job tx else id) (s2\<lparr>dispatches := ds\<rparr>)))
            else
              (case filter_decision env d of
                 Inl e \<Rightarrow> (Inl (Rules_threw e), s2)
               | Inr send \<Rightarrow>
                   if \<not> send then (Inr (), s2)
                   else if queue_ok env then (Inr (), enqueue_job tx s2)
                   else (Inl Enqueue_failed, s2)))"

text \<open>All of the handler but the recovery from a gap.\<close>

definition process_core ::
  "ingest_env \<Rightarrow> Wallet \<Rightarrow> horizon_record \<Rightarrow> bool \<Rightarrow> ingest \<Rightarrow> (ingest_error + GapDetectionResult) \<times> ingest" where
  "process_core env w r skipGapCheck s =
     (case decode_record (decs env) r of
        None \<Rightarrow> (Inr no_gap, s)
      | Some d \<Rightarrow>
          (case early_decision env w r d (getHorizonTxHash r \<in> pay_txHash ` set (payments s)) of
             Inl e \<Rightarrow> (Inl (Rules_threw e), s)
           | Inr (shouldSendAlert, rules) \<Rightarrow>
               if \<not> lock_ok env then (Inl Lock_not_acquired, s)
               else
                 (case ingest_tx env w r d shouldSendAlert skipGapCheck s of
                    (isNew, gap, s1) \<Rightarrow>
                      if isNew then
                        (case after_insert env w r d rules (new_id env (length (payments s))) s1 of
                           (Inl e, s2) \<Rightarrow> (Inl e, s2)
                         | (Inr _, s2) \<Rightarrow> (Inr gap, s2))
                      else (Inr gap, s1))))"

fun process_all :: "ingest_env \<Rightarrow> Wallet \<Rightarrow> horizon_record list \<Rightarrow> ingest \<Rightarrow> (ingest_error + unit) \<times> ingest" where
  "process_all env w [] s = (Inr (), s)"
| "process_all env w (r # rs) s =
     (case process_core env w r True s of
        (Inl e, s1) \<Rightarrow> (Inl e, s1)
      | (Inr _, s1) \<Rightarrow> process_all env w rs s1)"

definition recoverFromLedgerGap :: "ingest_env \<Rightarrow> Wallet \<Rightarrow> ingest \<Rightarrow> (ingest_error + unit) \<times> ingest" where
  "recoverFromLedgerGap env w s =
     (case process_all env w (rev (take BOUNDED_BACKFILL_LIMIT (recent_payments env))) s of
        (Inl e, s1) \<Rightarrow> (Inl e, s1)
      | (Inr _, s1) \<Rightarrow> (Inr (), s1\<lparr>cursors := update_cursor (w_id w) buildCursorGapClearedUpdate (cursors s1)\<rparr>))"

definition processPaymentRecord ::
  "ingest_env \<Rightarrow> Wallet \<Rightarrow> horizon_record \<Rightarrow> bool \<Rightarrow> ingest \<Rightarrow> (ingest_error + unit) \<times> ingest" where
  "processPaymentRecord env w r skipGapCheck s =
     (case process_core env w r skipGapCheck s of
        (Inl e, s1) \<Rightarrow> (Inl e, s1)
      | (Inr gap, s1) \<Rightarrow> if hasGap gap then recoverFromLedgerGap env w s1 else (Inr (), s1))"

section \<open>The catch-up pass\<close>

definition CURSOR_PAGE_SIZE :: nat where "CURSOR_PAGE_SIZE = 50"
definition MAX_CATCHUP_PAGES :: nat where "MAX_CATCHUP_PAGES = 20"

definition ensureCursor :: "Wallet \<Rightarrow> string \<Rightarrow> ingest \<Rightarrow> string \<times> ingest" where
  "ensureCursor w latestToken s =
     (case map_of (cursors s) (w_id w) of
        Some c \<Rightarrow> (pagingToken c, s)
      | None \<Rightarrow> (latestToken, s\<lparr>cursors := AList.update (w_id w) (new_cursor latestToken) (cursors s)\<rparr>))"

text \<open>\<open>getLatestPagingToken\<close>.\<close>

definition getLatestPagingToken :: "horizon_record list \<Rightarrow> string" where
  "getLatestPagingToken recent =
     (case recent of [] \<Rightarrow> ''0'' | r # _ \<Rightarrow> (let t = string_field r ''paging_token'' in if t = '''' then ''0'' else t))"

datatype page_result = Page "horizon_record list" | AllNodesFailed string

fun process_page ::
  "ingest_env \<Rightarrow> Wallet \<Rightarrow> horizon_record list \<Rightarrow> string \<Rightarrow> ingest \<Rightarrow> (ingest_error + string) \<times> ingest" where
  "process_page env w [] cursor s = (Inr cursor, s)"
| "process_page env w (r # rs) cursor s =
     (case processPaymentRecord env w r False s of
        (Inl e, s1) \<Rightarrow> (Inl e, s1)
      | (Inr _, s1) \<Rightarrow>
          process_page env w rs (case getHorizonPagingToken r of Some t \<Rightarrow> t | None \<Rightarrow> cursor) s1)"

text \<open>The first number counts the pages that may still be walked.\<close>

fun catch_up ::
  "ingest_env \<Rightarrow> Wallet \<Rightarrow> (string \<Rightarrow> page_result) \<Rightarrow> nat \<Rightarrow> string \<Rightarrow> ingest \<Rightarrow> (ingest_error + unit) \<times> ingest" where
  "catch_up env w fetch 0 cursor s = (Inr (), s)"
| "catch_up env w fetch (Suc n) cursor s =
     (case fetch cursor of
        AllNodesFailed err \<Rightarrow>
          (let failures = (case map_of (cursors s) (w_id w) of Some c \<Rightarrow> cursor_failures c | None \<Rightarrow> 0);
               msg = (if err = '''' then ''All Horizon nodes unreachable'' else err) in
           (Inr (), s\<lparr>cursors := update_cursor (w_id w) (buildCursorOutageUpdate msg failures) (cursors s)\<rparr>))
      | Page records \<Rightarrow>
          if records = [] then
            (Inr (), s\<lparr>cursors := update_cursor (w_id w) (buildCursorSuccessUpdate (clock env)) (cursors s)\<rparr>)
          else
            (case process_page env w records cursor s of
               (Inl e, s1) \<Rightarrow> (Inl e, s1)
             | (Inr cursor', s1) \<Rightarrow>
                 if length records < CURSOR_PAGE_SIZE then (Inr (), s1)
                 else catch_up env w fetch n cursor' s1))"

definition processWalletPayments ::
  "ingest_env \<Rightarrow> Wallet \<Rightarrow> (string \<Rightarrow> page_result) \<Rightarrow> ingest \<Rightarrow> (ingest_error + unit) \<times> ingest" where
  "processWalletPayments env w fetch s =
     (if w_publicKey w = '''' \<or> \<not> isValidEd25519PublicKey (Str (w_publicKey w)) then (Inr (), s)
      else
        let (cursor, s1) = ensureCursor w (getLatestPagingToken (recent_payments env)) s in
        catch_up env w fetch MAX_CATCHUP_PAGES cursor s1)"

section \<open>Relations kept by the watcher\<close>

text \<open>
  Every operation of the watcher is composed of the transaction, the effects after it, updates of the
  health of a cursor and the creation of a cursor. A reflexive and transitive relation that these steps
  keep is kept by all operations.
\<close>

locale watcher_rel =
  fixes R :: "ingest \<Rightarrow> ingest \<Rightarrow> bool" and P :: "ingest_env \<Rightarrow> bool"
  assumes refl: "R s s" and trans: "R s t \<Longrightarrow> R t u \<Longrightarrow> R s u"
    and tx: "P env \<Longrightarrow> R s (snd (snd (ingest_tx env w r d b k s)))"
    and after: "P env \<Longrightarrow> R s (snd (after_insert env w r d rules pid s))"
    and health: "R s (s\<lparr>cursors := update_cursor v up (cursors s)\<rparr>)"
    and seed: "map_of (cursors s) v = None \<Longrightarrow> R s (s\<lparr>cursors := AList.update v (new_cursor tok) (cursors s)\<rparr>)"
begin

lemma core: "P env \<Longrightarrow> R s (snd (process_core env w r k s))"
proof -
  assume env: "P env"
  show ?thesis
  proof (cases "decode_record (decs env) r")
    case None
    then show ?thesis by (simp add: process_core_def refl)
  next
    case (Some d)
    show ?thesis
    proof (cases "early_decision env w r d (getHorizonTxHash r \<in> pay_txHash ` set (payments s))")
      case (Inl e)
      then show ?thesis using Some by (simp add: process_core_def refl)
    next
      case (Inr dec)
      obtain b rules where d: "dec = (b, rules)" by (cases dec) auto
      obtain n g s1 where t: "ingest_tx env w r d b k s = (n, g, s1)"
        by (cases "ingest_tx env w r d b k s") auto
      have "R s s1" using tx[OF env, of s w r d b k] t by simp
      moreover have "R s1 (snd (after_insert env w r d rules (new_id env (length (payments s))) s1))"
        by (rule after[OF env])
      ultimately show ?thesis using Some Inr d t refl trans
        by (auto simp: process_core_def split: prod.splits sum.splits)
    qed
  qed
qed

lemma all: "P env \<Longrightarrow> R s (snd (process_all env w rs s))"
proof (induction rs arbitrary: s)
  case (Cons r rs)
  obtain res s1 where c: "process_core env w r True s = (res, s1)" by (cases "process_core env w r True s") auto
  have "R s s1" using core[OF Cons.prems, of s w r True] c by simp
  then show ?case using c Cons trans by (auto split: sum.splits)
qed (simp add: refl)

lemma recover: "P env \<Longrightarrow> R s (snd (recoverFromLedgerGap env w s))"
proof -
  assume env: "P env"
  let ?rs = "rev (take BOUNDED_BACKFILL_LIMIT (recent_payments env))"
  obtain res s1 where a: "process_all env w ?rs s = (res, s1)" by (cases "process_all env w ?rs s") auto
  have "R s s1" using all[OF env, of s w ?rs] a by simp
  then show ?thesis using a health trans by (cases res) (auto simp: recoverFromLedgerGap_def)
qed

lemma one: "P env \<Longrightarrow> R s (snd (processPaymentRecord env w r k s))"
proof -
  assume env: "P env"
  obtain res s1 where c: "process_core env w r k s = (res, s1)" by (cases "process_core env w r k s") auto
  have "R s s1" using core[OF env, of s w r k] c by simp
  then show ?thesis using c recover[OF env, of s1 w] trans
    by (cases res) (auto simp: processPaymentRecord_def)
qed

lemma page: "P env \<Longrightarrow> R s (snd (process_page env w rs cursor s))"
proof (induction rs arbitrary: cursor s)
  case (Cons r rs)
  obtain res s1 where c: "processPaymentRecord env w r False s = (res, s1)"
    by (cases "processPaymentRecord env w r False s") auto
  have "R s s1" using one[OF Cons.prems, of s w r False] c by simp
  then show ?case using c Cons trans by (auto split: sum.splits)
qed (simp add: refl)

lemma catch: "P env \<Longrightarrow> R s (snd (catch_up env w fetch n cursor s))"
proof (induction n arbitrary: cursor s)
  case (Suc n)
  show ?case
  proof (cases "fetch cursor")
    case (Page rs)
    obtain res s1 where p: "process_page env w rs cursor s = (res, s1)" by (cases "process_page env w rs cursor s") auto
    have "R s s1" using page[OF Suc.prems, of s w rs cursor] p by simp
    then show ?thesis using Page p Suc health trans by (auto split: sum.splits)
  next
    case (AllNodesFailed e)
    then show ?thesis using health by (simp add: Let_def)
  qed
qed (simp add: refl)

lemma ensure: "R s (snd (ensureCursor w t s))"
  using seed refl by (auto simp: ensureCursor_def split: option.splits)

lemma wallet: "P env \<Longrightarrow> R s (snd (processWalletPayments env w fetch s))"
proof -
  assume env: "P env"
  obtain c s1 where e: "ensureCursor w (getLatestPagingToken (recent_payments env)) s = (c, s1)"
    by (cases "ensureCursor w (getLatestPagingToken (recent_payments env)) s") auto
  have "R s s1" using ensure[of s w "getLatestPagingToken (recent_payments env)"] e by simp
  then show ?thesis using e catch[OF env, of s1 w fetch MAX_CATCHUP_PAGES c] trans refl
    by (auto simp: processWalletPayments_def)
qed

end

text \<open>A history of the watcher: polls of wallets and records of their streams, in environments of their own.\<close>

datatype watcher_op =
    Poll ingest_env Wallet "string \<Rightarrow> page_result"
  | Handle ingest_env Wallet horizon_record

fun watcher_step :: "(nat \<Rightarrow> string) \<Rightarrow> ingest \<Rightarrow> watcher_op \<Rightarrow> ingest" where
  "watcher_step ids s (Poll env w fetch) = snd (processWalletPayments (env\<lparr>new_id := ids\<rparr>) w fetch s)"
| "watcher_step ids s (Handle env w r) = snd (processPaymentRecord (env\<lparr>new_id := ids\<rparr>) w r False s)"

context watcher_rel
begin

lemma run: "(\<And>env. P (env\<lparr>new_id := ids\<rparr>)) \<Longrightarrow> R s (foldl (watcher_step ids) s ops)"
proof (induction ops arbitrary: s)
  case (Cons op ops)
  have "R s (watcher_step ids s op)" using Cons.prems by (cases op) (auto intro: wallet one)
  then show ?case using Cons trans by auto
qed (simp add: refl)

end

section \<open>Cursors only move forward\<close>

lemma at_least_refl: "isPagingTokenAtLeast t t"
  by (simp add: isPagingTokenAtLeast_def)

lemma at_least_trans: "isPagingTokenAtLeast a b \<Longrightarrow> isPagingTokenAtLeast b c \<Longrightarrow> isPagingTokenAtLeast a c"
  by (auto simp: isPagingTokenAtLeast_def split: if_splits)

definition cursors_forward :: "ingest \<Rightarrow> ingest \<Rightarrow> bool" where
  "cursors_forward s t \<longleftrightarrow> (\<forall>v c. map_of (cursors s) v = Some c \<longrightarrow>
     (\<exists>c'. map_of (cursors t) v = Some c' \<and> isPagingTokenAtLeast (pagingToken c') (pagingToken c)))"

lemma after_insert_tables:
  "payments (snd (after_insert env w r d rules pid s)) = payments s"
  "outbox (snd (after_insert env w r d rules pid s)) = outbox s"
  "cursors (snd (after_insert env w r d rules pid s)) = cursors s"
  by (auto simp: after_insert_def enqueue_job_def Let_def
      split: option.splits prod.splits sum.splits dispatch_error.splits)

lemma ingest_tx_cursors:
  "cursors (snd (snd (ingest_tx env w r d b k s))) =
   fst (advance_cursor (w_id w) (getHorizonPagingToken r) k (clock env) (cursors s))"
  by (simp add: ingest_tx_def Let_def split: prod.splits)

lemma upsert_forward:
  "(\<And>c. map_of cs v = Some c \<Longrightarrow> isPagingTokenAtLeast t (pagingToken c)) \<Longrightarrow> map_of cs x = Some c \<Longrightarrow>
   \<exists>c'. map_of (upsert_cursor v t u cs) x = Some c' \<and> isPagingTokenAtLeast (pagingToken c') (pagingToken c)"
  by (auto simp: upsert_cursor_def at_least_refl split: option.splits)

lemma advance_forward:
  "map_of cs x = Some c \<Longrightarrow>
   \<exists>c'. map_of (fst (advance_cursor v t k now cs)) x = Some c' \<and> isPagingTokenAtLeast (pagingToken c') (pagingToken c)"
  by (cases "map_of cs v")
    (auto simp: advance_cursor_def Let_def at_least_refl intro!: upsert_forward split: option.splits)

interpretation cursor_order: watcher_rel cursors_forward "\<lambda>_. True"
proof
  show "cursors_forward s t \<Longrightarrow> cursors_forward t u \<Longrightarrow> cursors_forward s u" for s t u
    unfolding cursors_forward_def by (meson at_least_trans)
  show "cursors_forward s (snd (snd (ingest_tx env w r d b k s)))" for env s w r d b k
    unfolding cursors_forward_def ingest_tx_cursors using advance_forward by blast
  show "cursors_forward s (s\<lparr>cursors := update_cursor v u (cursors s)\<rparr>)" for s v u
    by (auto simp: cursors_forward_def update_cursor_def at_least_refl split: option.splits)
qed (auto simp: cursors_forward_def at_least_refl after_insert_tables)


section \<open>Payments and their outbox events\<close>

definition ingest_ok :: "(nat \<Rightarrow> string) \<Rightarrow> ingest \<Rightarrow> bool" where
  "ingest_ok ids s \<longleftrightarrow> distinct (map pay_txHash (payments s))
     \<and> map pay_id (payments s) = map ids [0..<length (payments s)]
     \<and> distinct (map ob_key (outbox s))
     \<and> (\<forall>ev \<in> set (outbox s). \<exists>p \<in> set (payments s). \<exists>ty. ev = outbox_event ty p)
     \<and> (\<forall>p \<in> set (payments s). outbox_event payment_realtime p \<in> set (outbox s))"

lemma outbox_key_inject:
  "ob_key (outbox_event ty p) = ob_key (outbox_event ty' q) \<longleftrightarrow> ty = ty' \<and> pay_id p = pay_id q"
  by (cases ty; cases ty') (auto simp: outbox_event_def outboxIdempotencyKey_def)

lemma ids_of_payments:
  assumes "ingest_ok ids s" "p \<in> set (payments s)"
  shows "\<exists>i < length (payments s). pay_id p = ids i"
proof -
  have "pay_id p \<in> set (map ids [0..<length (payments s)])"
    using assms unfolding ingest_ok_def by (metis image_eqI list.set_map)
  then show ?thesis by auto
qed

lemma fresh_event_key:
  assumes "ingest_ok ids s" "inj ids" "new_id env = ids"
  shows "ob_key (outbox_event ty (new_payment env w r d s)) \<notin> ob_key ` set (outbox s)"
proof
  assume "ob_key (outbox_event ty (new_payment env w r d s)) \<in> ob_key ` set (outbox s)"
  then obtain ev where ev: "ev \<in> set (outbox s)" "ob_key ev = ob_key (outbox_event ty (new_payment env w r d s))" by auto
  then obtain q ty' where q: "q \<in> set (payments s)" "ev = outbox_event ty' q"
    using assms(1) by (auto simp: ingest_ok_def)
  obtain i where "i < length (payments s)" "pay_id q = ids i" using ids_of_payments[OF assms(1) q(1)] by blast
  then show False using ev(2) q(2) assms(2,3) by (auto simp: outbox_key_inject new_payment_def dest: injD)
qed

lemma record_fresh_events:
  assumes "distinct (map ob_key (rows @ events))"
  shows "record_events rows events = rows @ events"
  using assms
proof (induction events arbitrary: rows)
  case (Cons e events)
  then have "create_skip ob_key rows e = rows @ [e]" by (auto simp: create_skip_def)
  then show ?case using Cons.IH[of "rows @ [e]"] Cons.prems by (simp add: record_events_def)
qed (simp add: record_events_def)

lemma ingest_tx_new:
  assumes "getHorizonTxHash r \<notin> pay_txHash ` set (payments s)" "ingest_ok ids s" "inj ids" "new_id env = ids"
  shows "payments (snd (snd (ingest_tx env w r d b k s))) = payments s @ [new_payment env w r d s]"
    and "outbox (snd (snd (ingest_tx env w r d b k s))) = outbox s
      @ (if b then [outbox_event payment_alert (new_payment env w r d s)] else [])
      @ [outbox_event payment_realtime (new_payment env w r d s)]"
proof -
  let ?p = "new_payment env w r d s"
  have tx: "pay_txHash ?p = getHorizonTxHash r" 
    by (simp add: new_payment_def)
  show "payments (snd (snd (ingest_tx env w r d b k s))) = payments s @ [?p]"
    using assms(1) tx by (simp add: ingest_tx_def Let_def create_skip_def split: prod.splits)
  let ?ev = "(if b then [outbox_event payment_alert ?p] else []) @ [outbox_event payment_realtime ?p]"
  have "distinct (map ob_key (outbox s @ ?ev))"
    using assms(2) fresh_event_key[OF assms(2-4), of _ w r d] by (auto simp: ingest_ok_def outbox_key_inject)
  from record_fresh_events[OF this] show "outbox (snd (snd (ingest_tx env w r d b k s))) = outbox s @ ?ev"
    using assms(1) tx by (simp add: ingest_tx_def Let_def split: prod.splits)
qed

lemma ingest_tx_known:
  "getHorizonTxHash r \<in> pay_txHash ` set (payments s) \<Longrightarrow>
   payments (snd (snd (ingest_tx env w r d b k s))) = payments s
   \<and> outbox (snd (snd (ingest_tx env w r d b k s))) = outbox s"
  by (simp add: ingest_tx_def Let_def create_skip_def new_payment_def split: prod.splits)

lemma ingest_ok_tables:
  "payments s = payments t \<Longrightarrow> outbox s = outbox t \<Longrightarrow> ingest_ok ids s \<Longrightarrow> ingest_ok ids t"
  by (simp add: ingest_ok_def)

lemma ingest_ok_tx:
  assumes "ingest_ok ids s" "inj ids" "new_id env = ids"
  shows "ingest_ok ids (snd (snd (ingest_tx env w r d b k s)))"
proof (cases "getHorizonTxHash r \<in> pay_txHash ` set (payments s)")
  case True
  then show ?thesis using ingest_tx_known[OF True] ingest_ok_tables[OF _ _ assms(1)] by metis
next
  case False
  let ?p = "new_payment env w r d s"
  have p: "pay_txHash ?p = getHorizonTxHash r" "pay_id ?p = ids (length (payments s))"
    by (simp_all add: new_payment_def assms(3))
  show ?thesis using assms(1) False p fresh_event_key[OF assms, of _ w r d]
    unfolding ingest_ok_def ingest_tx_new[OF False assms] by (auto simp: outbox_key_inject)
qed

interpretation outbox_inv: watcher_rel "\<lambda>s t. inj ids \<longrightarrow> ingest_ok ids s \<longrightarrow> ingest_ok ids t" "\<lambda>env. new_id env = ids" for ids
proof
  show "inj ids \<longrightarrow> ingest_ok ids s \<longrightarrow> ingest_ok ids (snd (snd (ingest_tx env w r d b k s)))"
    if "new_id env = ids" for env s w r d b k
    using ingest_ok_tx that by blast
qed (auto simp: ingest_ok_def after_insert_tables)

definition empty_ingest :: ingest where
  "empty_ingest = \<lparr>payments = [], outbox = [], cursors = [], chained = [], realtime = [],
     dispatches = empty_dispatch, jobs = []\<rparr>"

lemma filter_unique:
  assumes "distinct (map f xs)" "x \<in> set xs"
  shows "filter (\<lambda>y. f y = f x) xs = [x]"
  using assms by (induction xs) (auto simp: filter_empty_conv image_iff)

text \<open>C6. However records arrive, several times, from polls, streams and gap recovery, with failures in between, the
  payments have distinct transactions, and each has exactly one event for the realtime channel and at most
  one for the alert in the outbox; every event belongs to a payment.\<close>

theorem one_outbox_event_per_payment:
  assumes "inj ids" "s = foldl (watcher_step ids) empty_ingest ops"
  shows "distinct (map pay_txHash (payments s))
    \<and> (\<forall>p \<in> set (payments s).
        filter (\<lambda>ev. ob_type ev = payment_realtime \<and> ob_aggregateId ev = pay_id p) (outbox s)
          = [outbox_event payment_realtime p]
        \<and> length (filter (\<lambda>ev. ob_type ev = payment_alert \<and> ob_aggregateId ev = pay_id p) (outbox s)) \<le> 1)
    \<and> ob_aggregateId ` set (outbox s) \<subseteq> pay_id ` set (payments s)"
proof -
  have ok: "ingest_ok ids s"
    using outbox_inv.run[where ids = ids and idsa = ids and s = empty_ingest and ops = ops] assms
    by (simp add: ingest_ok_def empty_ingest_def)
  have key: "(ob_type ev = ty \<and> ob_aggregateId ev = pay_id p) \<longleftrightarrow> ob_key ev = ob_key (outbox_event ty p)"
    if ev: "ev \<in> set (outbox s)" for ev ty p
  proof -
    obtain q ty' where "ev = outbox_event ty' q" using ok ev by (auto simp: ingest_ok_def)
    then show ?thesis by (auto simp: outbox_key_inject) (auto simp: outbox_event_def)
  qed
  have flt: "filter (\<lambda>ev. ob_type ev = ty \<and> ob_aggregateId ev = pay_id p) (outbox s) =
      filter (\<lambda>ev. ob_key ev = ob_key (outbox_event ty p)) (outbox s)" for ty p
    by (rule filter_cong) (use key in auto)
  have d: "distinct (map ob_key (outbox s))" using ok by (simp add: ingest_ok_def)
  have "filter (\<lambda>ev. ob_key ev = ob_key (outbox_event payment_realtime p)) (outbox s) = [outbox_event payment_realtime p]"
    if "p \<in> set (payments s)" for p
    using filter_unique[OF d, of "outbox_event payment_realtime p"] ok that by (simp add: ingest_ok_def)
  moreover have "length (filter (\<lambda>ev. ob_key ev = ob_key (outbox_event payment_alert p)) (outbox s)) \<le> 1" for p
  proof (cases "filter (\<lambda>ev. ob_key ev = ob_key (outbox_event payment_alert p)) (outbox s)")
    case (Cons ev evs)
    then have "ev \<in> set (filter (\<lambda>ev. ob_key ev = ob_key (outbox_event payment_alert p)) (outbox s))" by simp
    then have "ev \<in> set (outbox s)" "ob_key ev = ob_key (outbox_event payment_alert p)" by simp_all
    then show ?thesis using filter_unique[OF d, of ev] by simp
  qed simp
  moreover have "ob_aggregateId ` set (outbox s) \<subseteq> pay_id ` set (payments s)"
    using ok by (auto simp: ingest_ok_def outbox_event_def)
  ultimately show ?thesis using ok by (simp add: flt ingest_ok_def)
qed

text \<open>The database numbers its rows; a payment record is handled twice.\<close>

definition calm_env :: ingest_env where
  "calm_env = \<lparr>new_id = nat_str, clock = 0, decs = \<lparr>parseSac = (\<lambda>_. None), sacMetadata = (\<lambda>_. None)\<rparr>,
     user_rules = [], user_filter = JNull, lock_ok = True, publish_ok = True, queue_ok = True, recent_payments = []\<rparr>"

definition sample_wallet :: Wallet where
  "sample_wallet = \<lparr>w_id = ''w'', w_publicKey = ''GA'', w_userId = Some ''u''\<rparr>"

definition sample_record :: "string \<Rightarrow> string \<Rightarrow> horizon_record" where
  "sample_record token tx =
     [(''type'', JString ''payment''), (''paging_token'', JString token), (''created_at'', JString ''now''),
      (''transaction_hash'', JString tx), (''amount'', JString ''1''), (''from'', JString ''A''),
      (''to'', JString ''B'')]"

lemma inj_nat_str: "inj nat_str"
  by (rule injI) (metis dec_val_nat_str)

theorem one_outbox_event_per_payment_witness:
  "distinct (map pay_txHash (payments (foldl (watcher_step nat_str) empty_ingest
     [Handle calm_env sample_wallet (sample_record ''7'' ''h''), Handle calm_env sample_wallet (sample_record ''7'' ''h'')])))"
  using one_outbox_event_per_payment [OF inj_nat_str refl,
    of "[Handle calm_env sample_wallet (sample_record ''7'' ''h''), Handle calm_env sample_wallet (sample_record ''7'' ''h'')]"]
  by blast


section \<open>What a new record leaves behind\<close>

lemma process_core_new:
  assumes "decode_record (decs env) r = Some d" "getHorizonTxHash r \<notin> pay_txHash ` set (payments s)"
    and "early_decision env w r d False = Inr (send, rules)" "lock_ok env" "ingest_tx env w r d send k s = (n, g, s1)"
  shows "snd (process_core env w r k s) = snd (after_insert env w r d rules (new_id env (length (payments s))) s1)"
    and "fst (process_core env w r k s) =
      (case fst (after_insert env w r d rules (new_id env (length (payments s))) s1) of Inl e \<Rightarrow> Inl e | Inr _ \<Rightarrow> Inr g)"
proof -
  have "n" using assms(2,5) by (auto simp: ingest_tx_def new_payment_def Let_def split: prod.splits)
  then show "snd (process_core env w r k s) = snd (after_insert env w r d rules (new_id env (length (payments s))) s1)"
    and "fst (process_core env w r k s) =
      (case fst (after_insert env w r d rules (new_id env (length (payments s))) s1) of Inl e \<Rightarrow> Inl e | Inr _ \<Rightarrow> Inr g)"
    using assms by (auto simp: process_core_def split: prod.splits sum.splits)
qed

text \<open>When the wallet lock is held and the rules decide, a record of an unknown transaction leaves its payment and
  its outbox events behind, the alert event exactly when the rules of the user, or else the filter, admit
  the payment, even if afterwards the realtime channel or the queue fails: the outbox relay finds the events.\<close>

theorem new_payment_is_durable:
  assumes "ingest_ok ids s" "inj ids" "new_id env = ids" "lock_ok env"
    and "decode_record (decs env) r = Some d" "getHorizonTxHash r \<notin> pay_txHash ` set (payments s)"
    and "early_decision env w r d False = Inr (send, rules)"
  shows "payments (snd (process_core env w r k s)) = payments s @ [new_payment env w r d s]
    \<and> outbox (snd (process_core env w r k s)) = outbox s
        @ (if send then [outbox_event payment_alert (new_payment env w r d s)] else [])
        @ [outbox_event payment_realtime (new_payment env w r d s)]"
proof -
  obtain n g s1 where t: "ingest_tx env w r d send k s = (n, g, s1)" by (cases "ingest_tx env w r d send k s") auto
  show ?thesis
    using process_core_new(1)[OF assms(5-7,4) t] ingest_tx_new[OF assms(6,1-3), of w d send k] t
    by (simp add: after_insert_tables)
qed

text \<open>A record whose effects after the transaction fail.\<close>

definition failing_env :: ingest_env where
  "failing_env = calm_env\<lparr>publish_ok := False\<rparr>"

lemma failing_decision:
  "\<exists>d. decode_record (decs failing_env) (sample_record ''7'' ''h'') = Some d
     \<and> early_decision failing_env sample_wallet (sample_record ''7'' ''h'') d False = Inr (True, [])"
proof -
  let ?d = "\<lparr>d_amount = ''1'', d_asset = ''XLM'', d_assetIssuer = None, d_from = ''A'', d_memo = None\<rparr>"
  have "decode_record (decs failing_env) (sample_record ''7'' ''h'') = Some ?d" by code_simp
  moreover have "early_decision failing_env sample_wallet (sample_record ''7'' ''h'') ?d False = Inr (True, [])"
    by (simp add: early_decision_def sample_wallet_def failing_env_def calm_env_def filter_decision_def falsy_def)
  ultimately show ?thesis by blast
qed

theorem new_payment_is_durable_witness:
  "map ob_key (outbox (snd (process_core failing_env sample_wallet (sample_record ''7'' ''h'') False empty_ingest)))
     = [''payment.alert:0'', ''payment.realtime:0'']"
proof -
  let ?env = failing_env and ?r = "sample_record ''7'' ''h''"
  obtain d where d: "decode_record (decs ?env) ?r = Some d" "early_decision ?env sample_wallet ?r d False = Inr (True, [])"
    using failing_decision by blast
  have h: "ingest_ok nat_str empty_ingest" "new_id ?env = nat_str" "lock_ok ?env"
      "getHorizonTxHash ?r \<notin> pay_txHash ` set (payments empty_ingest)"
    by (simp_all add: ingest_ok_def empty_ingest_def failing_env_def calm_env_def)
  have "nat_str 0 = ''0''" by code_simp
  then show ?thesis using new_payment_is_durable [OF h(1) inj_nat_str h(2,3) d(1) h(4) d(2), of False]
    by (simp add: empty_ingest_def outbox_event_def outboxIdempotencyKey_def new_payment_def failing_env_def calm_env_def)
qed

end
