(* ===== verification/CatchUp.thy ===== *)
theory CatchUp
  imports Ingestion
begin

text \<open>
  The catch-up pass of the watcher against a Horizon server that serves the history of an account
  (\<open>processWalletPayments\<close> in \<open>apps/api/src/workers/watcher.worker.ts\<close>): it ingests everything after the
  cursor when nothing fails and the backlog fits into its pages; and the situations in which records are
  passed over or the pass makes no progress.
\<close>

section \<open>Histories\<close>

definition token_val :: "horizon_record \<Rightarrow> nat" where
  "token_val r = dec_val (string_field r ''paging_token'')"

text \<open>The operations of an account, oldest first, with increasing numeric tokens.\<close>

definition ledger_history_ok :: "horizon_record list \<Rightarrow> bool" where
  "ledger_history_ok hist \<longleftrightarrow> sorted_wrt (\<lambda>r q. token_val r < token_val q) hist
     \<and> (\<forall>r \<in> set hist. numeric_token (string_field r ''paging_token''))"

definition after_token :: "string \<Rightarrow> horizon_record list \<Rightarrow> horizon_record list" where
  "after_token t hist = filter (\<lambda>r. dec_val t < token_val r) hist"

text \<open>
  What Horizon documents of a page: the records after the cursor in ascending order, at most as many as
  the limit.
\<close>

definition horizon_serves :: "(string \<Rightarrow> page_result) \<Rightarrow> horizon_record list \<Rightarrow> bool" where
  "horizon_serves fetch hist \<longleftrightarrow> ledger_history_ok hist
     \<and> (\<forall>t. numeric_token t \<longrightarrow> fetch t = Page (take CURSOR_PAGE_SIZE (after_token t hist)))"

lemma sorted_filter_drop:
  assumes "sorted_wrt (<) (map f xs)" "0 < k" "k \<le> length xs"
  shows "filter (\<lambda>x. f (xs ! (k - 1)) < (f x :: nat)) xs = drop k xs"
proof -
  have lt: "i < j \<Longrightarrow> j < length xs \<Longrightarrow> f (xs ! i) < f (xs ! j)" for i j
    using assms(1) by (simp add: sorted_wrt_iff_nth_less)
  have "\<not> f (xs ! (k - 1)) < f x" if x: "x \<in> set (take k xs)" for x
  proof -
    obtain i where i: "i < k" "x = xs ! i" using x assms(3) by (auto simp: in_set_conv_nth)
    then have "i = k - 1 \<or> i < k - 1 \<and> k - 1 < length xs" using assms(2,3) by linarith
    then show ?thesis using lt[of i "k - 1"] i by auto
  qed
  moreover have "f (xs ! (k - 1)) < f x" if x: "x \<in> set (drop k xs)" for x
  proof -
    obtain i where "i < length xs - k" "x = xs ! (k + i)" using x by (auto simp: in_set_conv_nth)
    then show ?thesis using lt[of "k - 1" "k + i"] assms(2) by simp
  qed
  ultimately have "filter (\<lambda>x. f (xs ! (k - 1)) < f x) (take k xs @ drop k xs) = drop k xs"
    by (simp add: filter_empty_conv filter_id_conv del: append_take_drop_id)
  then show ?thesis by simp
qed

text \<open>After a page has been read, what is left of the backlog is what follows the page.\<close>

lemma after_page:
  assumes "ledger_history_ok hist" "rest = after_token t hist" "0 < k" "k \<le> length rest"
  shows "after_token (string_field (rest ! (k - 1)) ''paging_token'') hist = drop k rest"
proof -
  let ?r = "rest ! (k - 1)"
  have s: "sorted_wrt (<) (map token_val rest)"
    using assms(1,2) by (simp add: ledger_history_ok_def after_token_def sorted_wrt_map sorted_wrt_filter)
  have "?r \<in> set rest" using assms(3,4) by simp
  then have "dec_val t < token_val ?r" by (simp add: assms(2) after_token_def)
  then have "after_token (string_field ?r ''paging_token'') hist = filter (\<lambda>r. token_val ?r < token_val r) rest"
    unfolding assms(2) after_token_def filter_filter token_val_def[symmetric] by (intro filter_cong) auto
  then show ?thesis using sorted_filter_drop[OF s assms(3,4)] by simp
qed

section \<open>Calm environments\<close>

text \<open>Nothing fails: lock, channel and queue work, and the rules decide about every payment.\<close>

definition calm :: "ingest_env \<Rightarrow> Wallet \<Rightarrow> bool" where
  "calm env w \<longleftrightarrow> lock_ok env \<and> publish_ok env \<and> queue_ok env
     \<and> (\<forall>r d. \<not> isl (early_decision env w r d False))"

definition ingested :: "ingest \<Rightarrow> horizon_record \<Rightarrow> bool" where
  "ingested s r \<longleftrightarrow> getHorizonTxHash r \<in> pay_txHash ` set (payments s)"

interpretation payments_grow: watcher_rel "\<lambda>s t. pay_txHash ` set (payments s) \<subseteq> pay_txHash ` set (payments t)" "\<lambda>_. True"
proof
  show "pay_txHash ` set (payments s) \<subseteq> pay_txHash ` set (payments (snd (snd (ingest_tx env w r d b k s))))"
    for env s w r d b k
    by (auto simp: ingest_tx_def Let_def create_skip_def split: prod.splits)
qed (auto simp: after_insert_tables)

lemma matches_ignore_payment_id:
  "matchesAlertRule rule (record_event w user r d pid) = matchesAlertRule rule (record_event w user r d '''')"
  by (simp add: matchesAlertRule_def record_event_def event_context_def)

lemma rules_ignore_payment_id:
  "evaluateAlertRules rules (record_event w user r d pid) = evaluateAlertRules rules (record_event w user r d '''')"
  using matches_ignore_payment_id[where pid = pid and w = w and user = user and r = r and d = d]
  by (induction rules) (auto split: sum.splits)

lemma early_decision_known: "early_decision env w r d True = Inr (True, [])"
  by (simp add: early_decision_def split: option.splits)

lemma after_insert_calm:
  assumes "calm env w" "early_decision env w r d False = Inr (send, rules)"
  shows "\<not> isl (fst (after_insert env w r d rules pid s))"
proof (cases "w_userId w")
  case None
  then show ?thesis using assms by (simp add: after_insert_def calm_def Let_def)
next
  case (Some user)
  show ?thesis
  proof (cases "rules = []")
    case True
    have "user_rules env = []"
      using assms(2) Some True by (auto simp: early_decision_def split: sum.splits if_splits)
    then have "\<not> isl (filter_decision env d)"
      using assms(2) Some by (auto simp: early_decision_def split: sum.splits)
    then show ?thesis using assms(1) Some True
      by (auto simp: after_insert_def calm_def Let_def isl_def split: sum.splits)
  next
    case False
    then obtain m where "evaluateAlertRules rules (record_event w user r d '''') = Inr m"
      using assms(2) Some by (auto simp: early_decision_def split: sum.splits if_splits)
    then have "evaluateAlertRules rules (record_event w user r d pid) = Inr m" using rules_ignore_payment_id by metis
    then show ?thesis using assms(1) Some False
      by (auto simp: after_insert_def calm_def Let_def evaluateAndDispatch_def split: prod.splits)
  qed
qed

lemma process_core_calm:
  assumes "calm env w"
  shows "\<not> isl (fst (process_core env w r k s))"
    and "decode_record (decs env) r \<noteq> None \<Longrightarrow> ingested (snd (process_core env w r k s)) r"
proof -
  have "\<not> isl (fst (process_core env w r k s))
    \<and> (decode_record (decs env) r \<noteq> None \<longrightarrow> ingested (snd (process_core env w r k s)) r)"
  proof (cases "decode_record (decs env) r")
    case None
    then show ?thesis by (simp add: process_core_def)
  next
    case (Some d)
    show ?thesis
    proof (cases "ingested s r")
      case True
      then have "ingested (snd (snd (ingest_tx env w r d True k s))) r"
        using ingest_tx_known[of r s env w d True k] by (simp add: ingested_def)
      moreover have "\<not> fst (ingest_tx env w r d True k s)"
        using True by (simp add: ingested_def ingest_tx_def new_payment_def Let_def split: prod.splits)
      ultimately show ?thesis using True Some assms
        by (auto simp: process_core_def early_decision_known ingested_def[of s] calm_def split: prod.splits)
    next
      case False
      obtain send rules where e: "early_decision env w r d False = Inr (send, rules)"
        using assms by (cases "early_decision env w r d False") (auto simp: calm_def isl_def)
      obtain n g s1 where t: "ingest_tx env w r d send k s = (n, g, s1)" by (cases "ingest_tx env w r d send k s") auto
      have l: "lock_ok env" using assms by (simp add: calm_def)
      note c = process_core_new[OF Some False[unfolded ingested_def] e l t]
      have "payments s1 = payments s @ [new_payment env w r d s]"
        using False t by (auto simp: ingested_def ingest_tx_def create_skip_def new_payment_def Let_def split: prod.splits)
      then show ?thesis using c after_insert_calm[OF assms e, of "new_id env (length (payments s))" s1]
        by (auto simp: ingested_def after_insert_tables new_payment_def isl_def split: sum.splits)
    qed
  qed
  then show "\<not> isl (fst (process_core env w r k s))"
    and "decode_record (decs env) r \<noteq> None \<Longrightarrow> ingested (snd (process_core env w r k s)) r" by simp_all
qed

lemma process_all_calm: "calm env w \<Longrightarrow> \<not> isl (fst (process_all env w rs s))"
proof (induction rs arbitrary: s)
  case (Cons r rs)
  then show ?case using process_core_calm(1)[OF Cons.prems, of r True s]
    by (auto simp: isl_def split: prod.splits sum.splits)
qed simp

lemma process_record_calm:
  assumes "calm env w"
  shows "\<not> isl (fst (processPaymentRecord env w r k s))"
    and "decode_record (decs env) r \<noteq> None \<Longrightarrow> ingested (snd (processPaymentRecord env w r k s)) r"
proof -
  obtain res s1 where c: "process_core env w r k s = (res, s1)" by (cases "process_core env w r k s") auto
  obtain g where g: "res = Inr g" using process_core_calm(1)[OF assms, of r k s] c by (cases res) auto
  have rec: "\<not> isl (fst (recoverFromLedgerGap env w s1))"
    using process_all_calm[OF assms, of "rev (take BOUNDED_BACKFILL_LIMIT (recent_payments env))" s1]
    by (auto simp: recoverFromLedgerGap_def isl_def split: prod.splits sum.splits)
  show "\<not> isl (fst (processPaymentRecord env w r k s))" using c g rec by (simp add: processPaymentRecord_def)
  show "ingested (snd (processPaymentRecord env w r k s)) r" if "decode_record (decs env) r \<noteq> None"
  proof -
    have "ingested s1 r" using process_core_calm(2)[OF assms that, of k s] c by simp
    then show ?thesis using c g payments_grow.recover[where env = env and s = s1 and w = w]
      by (auto simp: processPaymentRecord_def ingested_def)
  qed
qed

section \<open>Completeness\<close>

definition last_token :: "string \<Rightarrow> horizon_record list \<Rightarrow> string" where
  "last_token cursor rs = (if rs = [] then cursor else string_field (last rs) ''paging_token'')"

lemma process_page_calm:
  assumes "calm env w" "\<forall>r \<in> set rs. decode_record (decs env) r \<noteq> None \<and> string_field r ''paging_token'' \<noteq> ''''"
  shows "fst (process_page env w rs cursor s) = Inr (last_token cursor rs)
    \<and> (\<forall>r \<in> set rs. ingested (snd (process_page env w rs cursor s)) r)"
  using assms(2)
proof (induction rs arbitrary: cursor s)
  case (Cons r rs)
  obtain res s1 where c: "processPaymentRecord env w r False s = (res, s1)"
    by (cases "processPaymentRecord env w r False s") auto
  have r: "\<not> isl res" "ingested s1 r"
    using process_record_calm[OF assms(1), of r False s] c Cons.prems by auto
  let ?c = "string_field r ''paging_token''"
  have t: "getHorizonPagingToken r = Some ?c" using Cons.prems by (simp add: getHorizonPagingToken_def)
  have step: "process_page env w (r # rs) cursor s = process_page env w rs ?c s1"
    using c r t by (cases res) auto
  have "ingested (snd (process_page env w rs ?c s1)) r"
    using payments_grow.page[where env = env and s = s1 and w = w and rs = rs and cursor = ?c] r(2) by (auto simp: ingested_def)
  then show ?case using Cons.IH[of ?c s1] Cons.prems unfolding step by (simp add: last_token_def)
qed (simp add: last_token_def)

lemma catch_up_calm:
  assumes "calm env w" "horizon_serves fetch hist" "\<forall>r \<in> set hist. decode_record (decs env) r \<noteq> None"
    and "numeric_token cursor" "length (after_token cursor hist) \<le> n * CURSOR_PAGE_SIZE"
  shows "fst (catch_up env w fetch n cursor s) = Inr ()
    \<and> (\<forall>r \<in> set (after_token cursor hist). ingested (snd (catch_up env w fetch n cursor s)) r)"
  using assms(4,5)
proof (induction n arbitrary: cursor s)
  case 0
  then show ?case by simp
next
  case (Suc n)
  let ?rest = "after_token cursor hist" and ?k = CURSOR_PAGE_SIZE
  let ?page = "take ?k ?rest"
  have k: "0 < ?k" by (simp add: CURSOR_PAGE_SIZE_def)
  have f: "fetch cursor = Page ?page" using assms(2) Suc.prems(1) by (simp add: horizon_serves_def)
  have h: "ledger_history_ok hist" using assms(2) by (simp add: horizon_serves_def)
  show ?case
  proof (cases "?page = []")
    case True
    then have "?rest = []" using k by simp
    then show ?thesis using f by simp
  next
    case False
    have sub: "set ?page \<subseteq> set hist" using set_take_subset[of ?k ?rest] by (auto simp: after_token_def)
    have num: "\<forall>r \<in> set hist. numeric_token (string_field r ''paging_token'')" using h by (simp add: ledger_history_ok_def)
    then have "\<forall>r \<in> set ?page. decode_record (decs env) r \<noteq> None \<and> string_field r ''paging_token'' \<noteq> ''''"
      using sub assms(3) by (auto simp: numeric_token_def)
    note p = process_page_calm[OF assms(1) this, of cursor s]
    obtain s1 where s1: "process_page env w ?page cursor s = (Inr (last_token cursor ?page), s1)"
      using p by (metis prod.collapse)
    show ?thesis
    proof (cases "length ?page < ?k")
      case True
      then have "?page = ?rest" by simp
      then show ?thesis using f False s1 p True by simp
    next
      case full: False
      then have kr: "?k \<le> length ?rest" by simp
      let ?c = "last_token cursor ?page"
      have "last ?page = ?rest ! (?k - 1)" using False kr k by (simp add: last_conv_nth)
      then have c: "?c = string_field (?rest ! (?k - 1)) ''paging_token''" using False by (simp add: last_token_def)
      then have drop: "after_token ?c hist = drop ?k ?rest" using after_page[OF h refl k kr] by simp
      have "last ?page \<in> set hist" using False sub last_in_set by blast
      then have "numeric_token ?c" using False num by (simp add: last_token_def)
      from Suc.IH[OF this, of s1] have ih: "fst (catch_up env w fetch n ?c s1) = Inr ()"
        "\<forall>r \<in> set (drop ?k ?rest). ingested (snd (catch_up env w fetch n ?c s1)) r"
        using Suc.prems(2) by (simp_all add: drop)
      have "ingested (snd (catch_up env w fetch n ?c s1)) r" if "r \<in> set ?page" for r
        using payments_grow.catch[where env = env and s = s1 and w = w and fetch = fetch and n = n and cursor = ?c] p s1 that by (auto simp: ingested_def)
      moreover have "set ?rest = set ?page \<union> set (drop ?k ?rest)" by (metis append_take_drop_id set_append)
      moreover have "catch_up env w fetch (Suc n) cursor s = catch_up env w fetch n ?c s1"
        using f False s1 full by simp
      ultimately show ?thesis using ih by auto
    qed
  qed
qed


text \<open>A backlog of two payments behind the cursor of a wallet.\<close>

definition backlog :: "horizon_record list" where
  "backlog = [sample_record ''10'' ''a'', sample_record ''11'' ''b'', sample_record ''12'' ''c'']"


section \<open>Records that are passed over\<close>

text \<open>
  Records that are skipped do not move the stored cursor. A backlog that begins with as many of them as fill
  the pages of a pass is read again by every pass, and the records behind it are never reached.
\<close>

lemma skipped_record: "decode_record (decs env) r = None \<Longrightarrow> processPaymentRecord env w r k s = (Inr (), s)"
  by (simp add: processPaymentRecord_def process_core_def no_gap_def)

lemma skipped_page:
  "\<forall>r \<in> set rs. decode_record (decs env) r = None \<Longrightarrow> \<exists>c. process_page env w rs cursor s = (Inr c, s)"
  by (induction rs arbitrary: cursor) (auto simp: skipped_record)

lemma skipped_pages_stall:
  assumes "\<And>t. \<exists>rs. fetch t = Page rs \<and> length rs = CURSOR_PAGE_SIZE \<and> (\<forall>r \<in> set rs. decode_record (decs env) r = None)"
  shows "catch_up env w fetch n cursor s = (Inr (), s)"
proof (induction n arbitrary: cursor)
  case (Suc n)
  obtain rs where rs: "fetch cursor = Page rs" "length rs = CURSOR_PAGE_SIZE" "\<forall>r \<in> set rs. decode_record (decs env) r = None"
    using assms by blast
  obtain c where "process_page env w rs cursor s = (Inr c, s)" using skipped_page[OF rs(3)] by blast
  then show ?case using rs Suc by (auto simp: CURSOR_PAGE_SIZE_def)
qed simp

text \<open>
  A transaction is recorded once: a second payment operation of the same transaction, and the same transaction
  seen from another watched wallet, adds no payment and no event.
\<close>

lemma second_payment_of_transaction_is_dropped:
  assumes "ingested s r"
  shows "payments (snd (process_core env w r k s)) = payments s \<and> outbox (snd (process_core env w r k s)) = outbox s"
proof (cases "decode_record (decs env) r")
  case None
  then show ?thesis by (simp add: process_core_def)
next
  case (Some d)
  have "\<not> fst (ingest_tx env w r d True k s)"
    using assms by (simp add: ingested_def ingest_tx_def new_payment_def Let_def split: prod.splits)
  then show ?thesis using Some assms ingest_tx_known[of r s env w d True k]
    by (auto simp: process_core_def early_decision_known ingested_def split: prod.splits)
qed

lemma process_core_cursors:
  assumes "calm env w" "decode_record (decs env) r \<noteq> None"
  shows "cursors (snd (process_core env w r k s)) =
    fst (advance_cursor (w_id w) (getHorizonPagingToken r) k (clock env) (cursors s))"
proof -
  obtain d where d: "decode_record (decs env) r = Some d" using assms(2) by auto
  obtain send rules where e: "early_decision env w r d (ingested s r) = Inr (send, rules)"
    using assms(1) by (cases "ingested s r"; cases "early_decision env w r d False")
      (auto simp: calm_def isl_def early_decision_known)
  have "lock_ok env" using assms(1) by (simp add: calm_def)
  then show ?thesis using d e ingest_tx_cursors[of env w r d send k s]
    by (auto simp: process_core_def ingested_def after_insert_tables split: prod.splits sum.splits)
      (metis after_insert_tables(3) snd_conv)+
qed

lemma at_least_numeric: "isPagingTokenAtLeast a b \<Longrightarrow> numeric_token b \<Longrightarrow> numeric_token a"
  by (auto simp: isPagingTokenAtLeast_def split: if_splits)

lemma advance_reaches:
  assumes "map_of cs v = Some c" "numeric_token (pagingToken c)" "numeric_token t"
  shows "\<exists>c'. map_of (fst (advance_cursor v (Some t) k now cs)) v = Some c' \<and> isPagingTokenAtLeast (pagingToken c') t"
  using assms by (auto simp: advance_cursor_def upsert_cursor_def isPagingTokenAtLeast_def Let_def)

lemma process_all_snoc:
  "process_all env w (rs @ [r]) s =
   (case process_all env w rs s of
      (Inl e, s1) \<Rightarrow> (Inl e, s1)
    | (Inr _, s1) \<Rightarrow> (case process_core env w r True s1 of (Inl e, s2) \<Rightarrow> (Inl e, s2) | (Inr _, s2) \<Rightarrow> (Inr (), s2)))"
  by (induction rs arbitrary: s) (auto split: prod.splits sum.splits)

text \<open>
  Recovery from a gap moves the stored cursor to the newest record of the account, past whatever lies between
  the gap and the window of recent records: when the pass stops before its own pages reach them, later
  passes start behind them.
\<close>

lemma gap_recovery_passes_records:
  assumes "calm env w" "recent_payments env = n # older" "decode_record (decs env) n \<noteq> None"
    and "getHorizonPagingToken n = Some t" "numeric_token t"
    and "map_of (cursors s) (w_id w) = Some c" "numeric_token (pagingToken c)"
  shows "\<exists>c'. map_of (cursors (snd (recoverFromLedgerGap env w s))) (w_id w) = Some c'
    \<and> isPagingTokenAtLeast (pagingToken c') t"
proof -
  let ?old = "rev (take (BOUNDED_BACKFILL_LIMIT - 1) older)"
  have all: "rev (take BOUNDED_BACKFILL_LIMIT (recent_payments env)) = ?old @ [n]"
    by (simp add: assms(2) BOUNDED_BACKFILL_LIMIT_def take_Cons')
  obtain s1 where s1: "process_all env w ?old s = (Inr (), s1)"
    using process_all_calm[OF assms(1), of ?old s] by (cases "process_all env w ?old s"; cases "fst (process_all env w ?old s)") auto
  obtain g s2 where s2: "process_core env w n True s1 = (Inr g, s2)"
    using process_core_calm(1)[OF assms(1), of n True s1] by (cases "process_core env w n True s1"; cases "fst (process_core env w n True s1)") auto
  obtain c1 where c1: "map_of (cursors s1) (w_id w) = Some c1" "isPagingTokenAtLeast (pagingToken c1) (pagingToken c)"
    using cursor_order.all[where env = env and w = w and rs = ?old and s = s] s1 assms(6) by (auto simp: cursors_forward_def)
  have "\<exists>c2. map_of (cursors s2) (w_id w) = Some c2 \<and> isPagingTokenAtLeast (pagingToken c2) t"
    using advance_reaches[OF c1(1) at_least_numeric[OF c1(2) assms(7)] assms(5)]
      process_core_cursors[OF assms(1,3), of True s1] s2 assms(4) by simp
  moreover have "process_all env w (rev (take BOUNDED_BACKFILL_LIMIT (recent_payments env))) s = (Inr (), s2)"
    unfolding all process_all_snoc s1 by (simp add: s2)
  ultimately show ?thesis by (auto simp: recoverFromLedgerGap_def update_cursor_def)
qed

end
