(* ===== verification/OutboxRelay.thy ===== *)
theory OutboxRelay
  imports Ingestion
begin

text \<open>
  The relay of the transactional outbox (\<open>apps/api/src/workers/outbox.worker.ts\<close>): claiming a batch of due
  events, sending them to the alert queue or the realtime channel, and marking them as processed or for a
  retry. \<open>relayOutboxBatch\<close> is one batch of a single relay; the step function lets any number of relays
  interleave their queries, at any times, with crashes. A query is one step; the senders are a parameter that
  returns an error message or nothing. Rows keep the fields of the schema that the relay reads or writes;
  the payload is the payment and its transaction. Log messages are left out.
\<close>

section \<open>Rows\<close>

datatype relay_status = ob_pending | ob_processing | ob_processed

record outbox_row =
  row_id :: string
  row_type :: string
  row_paymentId :: string
  row_txHash :: string
  row_status :: relay_status
  row_attempts :: nat
  availableAt :: int
  lockedAt :: "int option"
  processedAt :: "int option"
  row_error :: "string option"
  row_createdAt :: int

definition BATCH_SIZE :: nat where "BATCH_SIZE = 50"
definition LOCK_TIMEOUT_MS :: int where "LOCK_TIMEOUT_MS = 60000"

definition nextAttempt :: "int \<Rightarrow> nat \<Rightarrow> int" where
  "nextAttempt now attempts = now + min 60000 (1000 * 2 ^ min attempts 6)"

text \<open>An event as the ingestion records it, with the defaults of the schema.\<close>

definition new_row :: "(nat \<Rightarrow> string) \<Rightarrow> int \<Rightarrow> nat \<Rightarrow> OutboxEvent \<Rightarrow> outbox_row" where
  "new_row ids now n ev = \<lparr>row_id = ids n, row_type = event_type_name (ob_type ev), row_paymentId = ob_aggregateId ev,
     row_txHash = ob_txHash ev, row_status = ob_pending, row_attempts = 0, availableAt = now, lockedAt = None,
     processedAt = None, row_error = None, row_createdAt = now\<rparr>"

definition relay_rows :: "(nat \<Rightarrow> string) \<Rightarrow> int \<Rightarrow> OutboxEvent list \<Rightarrow> outbox_row list" where
  "relay_rows ids now evs = map (\<lambda>n. new_row ids now n (evs ! n)) [0..<length evs]"

section \<open>Claiming\<close>

definition stale :: "int \<Rightarrow> outbox_row \<Rightarrow> bool" where
  "stale now r \<longleftrightarrow> row_status r = ob_processing \<and> (case lockedAt r of Some t \<Rightarrow> t < now - LOCK_TIMEOUT_MS | None \<Rightarrow> False)"

definition reset_stale :: "int \<Rightarrow> outbox_row list \<Rightarrow> outbox_row list" where
  "reset_stale now rows = map (\<lambda>r. if stale now r then r\<lparr>row_status := ob_pending, lockedAt := None\<rparr> else r) rows"

definition candidates :: "int \<Rightarrow> outbox_row list \<Rightarrow> outbox_row list" where
  "candidates now rows =
     take BATCH_SIZE (sort_key row_createdAt (filter (\<lambda>r. row_status r = ob_pending \<and> availableAt r \<le> now) rows))"

definition claim :: "int \<Rightarrow> outbox_row \<Rightarrow> outbox_row" where
  "claim now r = r\<lparr>row_status := ob_processing, lockedAt := Some now, row_attempts := row_attempts r + 1\<rparr>"

definition claimable :: "string \<Rightarrow> outbox_row \<Rightarrow> bool" where
  "claimable i r \<longleftrightarrow> row_id r = i \<and> row_status r = ob_pending"

definition claim_row :: "int \<Rightarrow> string \<Rightarrow> outbox_row list \<Rightarrow> outbox_row list \<times> bool" where
  "claim_row now i rows =
     (map (\<lambda>r. if claimable i r then claim now r else r) rows, length (filter (claimable i) rows) = 1)"

fun claim_all :: "int \<Rightarrow> outbox_row list \<Rightarrow> outbox_row list \<Rightarrow> outbox_row list \<Rightarrow> outbox_row list \<times> outbox_row list" where
  "claim_all now [] claimed rows = (claimed, rows)"
| "claim_all now (c # cs) claimed rows =
     (case claim_row now (row_id c) rows of
        (rows', ok) \<Rightarrow> claim_all now cs (if ok then claimed @ [c] else claimed) rows')"

definition claimBatch :: "int \<Rightarrow> outbox_row list \<Rightarrow> outbox_row list \<times> outbox_row list" where
  "claimBatch now rows = (let rows1 = reset_stale now rows in claim_all now (candidates now rows1) [] rows1)"

section \<open>Relaying\<close>

datatype relay_effect = Alert_job string string string | Realtime string string string

text \<open>The senders: \<^const>\<open>None\<close>, or the message of the error that was thrown.\<close>

type_synonym senders = "relay_effect \<Rightarrow> string option"

definition relayEvent :: "senders \<Rightarrow> outbox_row \<Rightarrow> string + relay_effect" where
  "relayEvent send ev =
     (let deliver = (\<lambda>eff. case send eff of None \<Rightarrow> Inr eff | Some msg \<Rightarrow> Inl msg) in
      if row_type ev = ''payment.alert'' then deliver (Alert_job (row_id ev) (row_paymentId ev) (row_txHash ev))
      else if row_type ev = ''payment.realtime'' then deliver (Realtime (row_id ev) (row_paymentId ev) (row_txHash ev))
      else Inl (''Unknown outbox event type: '' @ row_type ev))"

definition update_row :: "string \<Rightarrow> (outbox_row \<Rightarrow> outbox_row) \<Rightarrow> outbox_row list \<Rightarrow> outbox_row list" where
  "update_row i f rows = map (\<lambda>r. if row_id r = i then f r else r) rows"

definition processed :: "int \<Rightarrow> outbox_row \<Rightarrow> outbox_row" where
  "processed now r = r\<lparr>row_status := ob_processed, processedAt := Some now, lockedAt := None\<rparr>"

definition retry_later :: "int \<Rightarrow> outbox_row \<Rightarrow> string \<Rightarrow> outbox_row \<Rightarrow> outbox_row" where
  "retry_later now ev msg r = r\<lparr>row_status := ob_pending, availableAt := nextAttempt now (row_attempts ev),
     lockedAt := None, row_error := Some msg\<rparr>"

record relay_state =
  rows :: "outbox_row list"
  sent :: "relay_effect list"

definition relay_one :: "int \<Rightarrow> senders \<Rightarrow> outbox_row \<Rightarrow> relay_state \<Rightarrow> relay_state" where
  "relay_one now send ev s =
     (case relayEvent send ev of
        Inr eff \<Rightarrow> s\<lparr>rows := update_row (row_id ev) (processed now) (rows s), sent := sent s @ [eff]\<rparr>
      | Inl msg \<Rightarrow> s\<lparr>rows := update_row (row_id ev) (retry_later now ev msg) (rows s)\<rparr>)"

definition relayOutboxBatch :: "int \<Rightarrow> senders \<Rightarrow> relay_state \<Rightarrow> nat \<times> relay_state" where
  "relayOutboxBatch now send s =
     (case claimBatch now (rows s) of
        (events, rows') \<Rightarrow> (length events, foldl (\<lambda>s ev. relay_one now send ev s) (s\<lparr>rows := rows'\<rparr>) events))"

section \<open>Interleaved relays\<close>

text \<open>
  A relay starts a batch only when it has finished the previous one; the program counter says what its next
  query is.
\<close>

datatype relay_pc = Idle | Looking | Claiming "outbox_row list" "outbox_row list" | Sending "outbox_row list"
  | Confirming outbox_row "outbox_row list" | Retrying outbox_row string "outbox_row list"

record relay_sys = relay_state +
  pcs :: "nat \<Rightarrow> relay_pc"

definition goto :: "nat \<Rightarrow> relay_pc \<Rightarrow> relay_sys \<Rightarrow> relay_sys" where
  "goto w pc s = s\<lparr>pcs := (pcs s)(w := pc)\<rparr>"

definition relay_step :: "int \<Rightarrow> senders \<Rightarrow> nat \<Rightarrow> relay_sys \<Rightarrow> relay_sys" where
  "relay_step now send w s =
     (case pcs s w of
        Idle \<Rightarrow> goto w Looking (s\<lparr>rows := reset_stale now (rows s)\<rparr>)
      | Looking \<Rightarrow> goto w (Claiming (candidates now (rows s)) []) s
      | Claiming [] claimed \<Rightarrow> goto w (Sending claimed) s
      | Claiming (c # cs) claimed \<Rightarrow>
          (case claim_row now (row_id c) (rows s) of
             (rows', ok) \<Rightarrow> goto w (Claiming cs (if ok then claimed @ [c] else claimed)) (s\<lparr>rows := rows'\<rparr>))
      | Sending [] \<Rightarrow> goto w Idle s
      | Sending (ev # evs) \<Rightarrow>
          (case relayEvent send ev of
             Inr eff \<Rightarrow> goto w (Confirming ev evs) (s\<lparr>sent := sent s @ [eff]\<rparr>)
           | Inl msg \<Rightarrow> goto w (Retrying ev msg evs) s)
      | Confirming ev evs \<Rightarrow> goto w (Sending evs) (s\<lparr>rows := update_row (row_id ev) (processed now) (rows s)\<rparr>)
      | Retrying ev msg evs \<Rightarrow>
          goto w (Sending evs) (s\<lparr>rows := update_row (row_id ev) (retry_later now ev msg) (rows s)\<rparr>))"

datatype relay_action = Step int senders nat | Crash nat

fun relay_act :: "relay_sys \<Rightarrow> relay_action \<Rightarrow> relay_sys" where
  "relay_act s (Step now send w) = relay_step now send w s"
| "relay_act s (Crash w) = goto w Idle s"

lemma goto_simps [simp]:
  "rows (goto w pc s) = rows s" "sent (goto w pc s) = sent s" "pcs (goto w pc s) = (pcs s)(w := pc)"
  by (simp_all add: goto_def)

section \<open>A batch empties the outbox\<close>

text \<open>A row that is processed, or that a relay takes up at an instant.\<close>

definition open_row :: "outbox_row \<Rightarrow> bool" where
  "open_row r \<longleftrightarrow> row_status r \<noteq> ob_processed"

definition due :: "int \<Rightarrow> outbox_row \<Rightarrow> bool" where
  "due now r \<longleftrightarrow> (open_row r \<longrightarrow> availableAt r \<le> now \<and> (row_status r = ob_pending \<or> stale now r))"

definition known_type :: "outbox_row \<Rightarrow> bool" where
  "known_type r \<longleftrightarrow> row_type r \<in> {''payment.alert'', ''payment.realtime''}"

definition effect_of :: "outbox_row \<Rightarrow> relay_effect" where
  "effect_of r = (if row_type r = ''payment.alert'' then Alert_job else Realtime) (row_id r) (row_paymentId r) (row_txHash r)"

lemma relayEvent_known: "known_type r \<Longrightarrow> relayEvent (\<lambda>_. None) r = Inr (effect_of r)"
  by (auto simp: relayEvent_def known_type_def effect_of_def)

definition same_event :: "outbox_row \<Rightarrow> outbox_row \<Rightarrow> bool" where
  "same_event r q \<longleftrightarrow> row_id r = row_id q \<and> row_type r = row_type q \<and> row_paymentId r = row_paymentId q
     \<and> row_txHash r = row_txHash q \<and> row_createdAt r = row_createdAt q"

lemma same_event_updates [simp]:
  "same_event (claim now r) r" "same_event (processed now r) r" "same_event (retry_later now ev msg r) r"
  "same_event r r"
  by (simp_all add: same_event_def claim_def processed_def retry_later_def)

text \<open>Claiming pending rows with distinct ids claims all of them.\<close>

lemma distinct_filter_one: "distinct (map f xs) \<Longrightarrow> x \<in> set xs \<Longrightarrow> P x \<Longrightarrow> length (filter (\<lambda>y. f y = f x \<and> P y) xs) = 1"
proof -
  assume a: "distinct (map f xs)" "x \<in> set xs" "P x"
  have "filter (\<lambda>y. f y = f x \<and> P y) xs = filter P (filter (\<lambda>y. f y = f x) xs)" by (simp add: conj_commute)
  then show ?thesis using filter_unique[OF a(1,2)] a(3) by simp
qed

lemma claim_all_claims:
  assumes "distinct (map row_id rs)" "distinct (map row_id cs)" "\<forall>c \<in> set cs. \<exists>r \<in> set rs. claimable (row_id c) r"
  shows "claim_all now cs claimed rs =
    (claimed @ cs, map (\<lambda>r. if row_id r \<in> row_id ` set cs \<and> row_status r = ob_pending then claim now r else r) rs)"
  using assms
proof (induction cs arbitrary: claimed rs)
  case (Cons c cs)
  let ?rs = "map (\<lambda>r. if claimable (row_id c) r then claim now r else r) rs"
  obtain r where r: "r \<in> set rs" "claimable (row_id c) r" using Cons.prems(3) by auto
  have one: "length (filter (claimable (row_id c)) rs) = 1"
    using distinct_filter_one[OF Cons.prems(1) r(1), of "\<lambda>r. row_status r = ob_pending"] r(2)
    by (simp add: claimable_def[abs_def])
  have ids: "map row_id ?rs = map row_id rs" by (simp add: claim_def comp_def)
  have still: "\<exists>r \<in> set ?rs. claimable (row_id d) r" if d: "d \<in> set cs" for d
  proof -
    obtain q where "q \<in> set rs" "claimable (row_id d) q" using Cons.prems(3) d by (meson list.set_intros(2))
    moreover have "row_id d \<noteq> row_id c" using Cons.prems(2) imageI[OF d, of row_id] by auto
    ultimately show ?thesis by (auto simp: claimable_def intro!: bexI[of _ q] image_eqI[of _ _ q])
  qed
  have "claim_all now cs (claimed @ [c]) ?rs =
    ((claimed @ [c]) @ cs, map (\<lambda>r. if row_id r \<in> row_id ` set cs \<and> row_status r = ob_pending then claim now r else r) ?rs)"
    using Cons.IH[of ?rs "claimed @ [c]"] Cons.prems(1,2) still unfolding ids by simp
  moreover have "claim_row now (row_id c) rs = (?rs, True)" using one by (simp add: claim_row_def)
  ultimately show ?case by (auto simp: claimable_def claim_def)
qed simp

lemma processed_simps [simp]: "row_id (processed now r) = row_id r" "processed now (processed now r) = processed now r"
  by (simp_all add: processed_def)

lemma relay_all_sent:
  assumes "\<forall>c \<in> set cs. known_type c"
  shows "foldl (\<lambda>s ev. relay_one now (\<lambda>_. None) ev s) s cs =
    s\<lparr>rows := map (\<lambda>r. if row_id r \<in> row_id ` set cs then processed now r else r) (rows s), sent := sent s @ map effect_of cs\<rparr>"
  using assms
proof (induction cs arbitrary: s)
  case (Cons c cs)
  let ?s = "s\<lparr>rows := update_row (row_id c) (processed now) (rows s), sent := sent s @ [effect_of c]\<rparr>"
  have "relay_one now (\<lambda>_. None) c s = ?s" using Cons.prems by (simp add: relay_one_def relayEvent_known)
  moreover have "map (\<lambda>r. if row_id r \<in> row_id ` set cs then processed now r else r) (rows ?s) =
      map (\<lambda>r. if row_id r \<in> row_id ` set (c # cs) then processed now r else r) (rows s)"
    by (simp add: update_row_def)
  ultimately show ?case using Cons.IH[of ?s] Cons.prems by simp
qed simp

lemma candidates_props:
  assumes "distinct (map row_id rs)"
  shows "distinct (map row_id (candidates now rs))"
    and "c \<in> set (candidates now rs) \<Longrightarrow> c \<in> set rs \<and> row_status c = ob_pending \<and> availableAt c \<le> now"
    and "length (candidates now rs) = min BATCH_SIZE (length (filter (\<lambda>r. row_status r = ob_pending \<and> availableAt r \<le> now) rs))"
proof -
  let ?f = "filter (\<lambda>r. row_status r = ob_pending \<and> availableAt r \<le> now) rs"
  have "distinct (map row_id ?f)" using assms by (simp add: distinct_map_filter)
  then have "distinct (map row_id (sort_key row_createdAt ?f))" by (simp add: distinct_map)
  then show "distinct (map row_id (candidates now rs))" unfolding candidates_def by (metis distinct_take take_map)
  show "c \<in> set (candidates now rs) \<Longrightarrow> c \<in> set rs \<and> row_status c = ob_pending \<and> availableAt c \<le> now"
    unfolding candidates_def by (drule in_set_takeD) simp
  show "length (candidates now rs) = min BATCH_SIZE (length ?f)" by (simp add: candidates_def min.commute)
qed

lemma reset_stale_due:
  assumes "\<forall>r \<in> set rs. due now r"
  shows "filter (\<lambda>r. row_status r = ob_pending \<and> availableAt r \<le> now) (reset_stale now rs) = filter open_row (reset_stale now rs)"
    and "length (filter open_row (reset_stale now rs)) = length (filter open_row rs)"
  using assms by (induction rs) (auto simp: reset_stale_def due_def open_row_def stale_def split: if_splits)

lemma ids_reset [simp]: "map row_id (reset_stale now rs) = map row_id rs"
  by (simp add: reset_stale_def comp_def if_distrib cong: if_cong)

lemma known_reset: "\<forall>r \<in> set rs. known_type r \<Longrightarrow> r \<in> set (reset_stale now rs) \<Longrightarrow> known_type r"
  by (auto simp: reset_stale_def known_type_def)

lemma length_filter_two:
  assumes "distinct (map f cs)" "set cs \<subseteq> set (filter P rs)" "distinct (map f rs)"
  shows "length (filter (\<lambda>r. P r \<and> f r \<notin> f ` set cs) rs) = length (filter P rs) - length cs"
proof -
  have inj: "inj_on f (set rs)" using assms(3) by (simp add: distinct_map)
  have d: "distinct rs" "distinct cs" using assms(1,3) by (simp_all add: distinct_map)
  have "set (filter (\<lambda>r. P r \<and> f r \<notin> f ` set cs) rs) = set (filter P rs) - set cs"
    using assms(2) inj by (auto dest: inj_onD)
  then have "length (filter (\<lambda>r. P r \<and> f r \<notin> f ` set cs) rs) = card (set (filter P rs) - set cs)"
    using d(1) by (metis distinct_card distinct_filter)
  also have "\<dots> = card (set (filter P rs)) - card (set cs)" using assms(2) by (simp add: card_Diff_subset)
  also have "\<dots> = length (filter P rs) - length cs" using d by (metis distinct_card distinct_filter)
  finally show ?thesis .
qed

text \<open>What one batch does when nothing fails: the oldest due rows are sent and marked.\<close>

lemma batch_sends_candidates:
  assumes "distinct (map row_id (rows s))" "\<forall>r \<in> set (rows s). known_type r"
    and cs_def: "cs = candidates now (reset_stale now (rows s))"
  shows "\<exists>f. relayOutboxBatch now (\<lambda>_. None) s = (length cs, s\<lparr>rows := map f (reset_stale now (rows s)), sent := sent s @ map effect_of cs\<rparr>)
    \<and> (\<forall>r. same_event (f r) r) \<and> (\<forall>r. row_id r \<in> row_id ` set cs \<longrightarrow> \<not> open_row (f r)) \<and> (\<forall>r. row_id r \<notin> row_id ` set cs \<longrightarrow> f r = r)"
proof -
  let ?rs = "reset_stale now (rows s)"
  let ?g = "\<lambda>r. if row_id r \<in> row_id ` set cs \<and> row_status r = ob_pending then claim now r else r"
  let ?f = "\<lambda>r. if row_id r \<in> row_id ` set cs then processed now (?g r) else r"
  have d: "distinct (map row_id ?rs)" using assms(1) by simp
  have c: "\<forall>c \<in> set cs. \<exists>r \<in> set ?rs. claimable (row_id c) r"
    using candidates_props(2)[OF d] by (auto simp: cs_def claimable_def)
  have k: "\<forall>c \<in> set cs. known_type c"
    using candidates_props(2)[OF d] known_reset assms(2) unfolding cs_def by blast
  have cl: "claim_all now cs [] ?rs = (cs, map ?g ?rs)"
    using claim_all_claims[OF d _ c, of now "[]"] candidates_props(1)[OF d] by (simp add: cs_def)
  have "relayOutboxBatch now (\<lambda>_. None) s = (length cs, s\<lparr>rows := map (\<lambda>r. if row_id r \<in> row_id ` set cs then processed now r else r) (map ?g ?rs),
      sent := sent s @ map effect_of cs\<rparr>)"
    using cl relay_all_sent[OF k, of now "s\<lparr>rows := map ?g ?rs\<rparr>"]
    by (simp add: relayOutboxBatch_def claimBatch_def cs_def[symmetric])
  moreover have "map (\<lambda>r. if row_id r \<in> row_id ` set cs then processed now r else r) (map ?g ?rs) = map ?f ?rs"
    by (auto simp: claim_def)
  moreover have "(\<forall>r. same_event (?f r) r) \<and> (\<forall>r. row_id r \<in> row_id ` set cs \<longrightarrow> \<not> open_row (?f r)) \<and> (\<forall>r. row_id r \<notin> row_id ` set cs \<longrightarrow> ?f r = r)"
    by (auto simp: open_row_def processed_def same_event_def claim_def)
  ultimately show ?thesis by (intro exI[of _ ?f]) simp
qed

text \<open>The rows that a run of batches leaves, and what it sends, by the events of the table.\<close>

fun polls :: "senders \<Rightarrow> int list \<Rightarrow> relay_state \<Rightarrow> relay_state" where
  "polls send [] s = s"
| "polls send (now # ts) s = polls send ts (snd (relayOutboxBatch now send s))"

lemma batch_progress:
  assumes "distinct (map row_id (rows s))" "\<forall>r \<in> set (rows s). known_type r \<and> due now r"
    and "relayOutboxBatch now (\<lambda>_. None) s = (n, s')"
  shows "map row_id (rows s') = map row_id (rows s) \<and> (\<forall>r \<in> set (rows s'). known_type r \<and> due now r)
    \<and> length (filter open_row (rows s')) = length (filter open_row (rows s)) - BATCH_SIZE
    \<and> set (sent s) \<subseteq> set (sent s')
    \<and> (\<forall>r \<in> set (rows s). open_row r \<longrightarrow> effect_of r \<in> set (sent s') \<or> (\<exists>q \<in> set (rows s'). open_row q \<and> effect_of q = effect_of r))"
proof -
  let ?rs = "reset_stale now (rows s)"
  let ?cs = "candidates now ?rs"
  have known: "\<forall>r \<in> set (rows s). known_type r" using assms(2) by blast
  from batch_sends_candidates[OF assms(1) known refl, of now]
  obtain f where f: "s' = s\<lparr>rows := map f ?rs, sent := sent s @ map effect_of ?cs\<rparr>" "\<forall>r. same_event (f r) r"
    "\<forall>r. row_id r \<in> row_id ` set ?cs \<longrightarrow> \<not> open_row (f r)" "\<forall>r. row_id r \<notin> row_id ` set ?cs \<longrightarrow> f r = r"
    using assms(3) by auto
  have d: "distinct (map row_id ?rs)" using assms(1) by simp
  have pend: "filter (\<lambda>r. row_status r = ob_pending \<and> availableAt r \<le> now) ?rs = filter open_row ?rs"
    and len: "length (filter open_row ?rs) = length (filter open_row (rows s))"
    using reset_stale_due[of "rows s" now] assms(2) by auto
  have inj: "inj_on row_id (set ?rs)" using d unfolding distinct_map by blast
  have sub: "set ?cs \<subseteq> set (filter open_row ?rs)"
    using candidates_props(2)[OF d] by (auto simp: open_row_def)
  have "filter open_row (map f ?rs) = map f (filter (open_row \<circ> f) ?rs)" by (simp add: filter_map)
  moreover have "filter (open_row \<circ> f) ?rs = filter (\<lambda>r. open_row r \<and> row_id r \<notin> row_id ` set ?cs) ?rs"
    using f(3,4) by (intro filter_cong refl) (metis comp_apply)
  ultimately have cnt: "length (filter open_row (map f ?rs)) = length (filter open_row (rows s)) - BATCH_SIZE"
    using length_filter_two[OF candidates_props(1)[OF d] sub d] candidates_props(3)[OF d, of now] pend len by simp
  have ids: "map row_id (map f ?rs) = map row_id (rows s)"
    using f(2) ids_reset[of now "rows s"] by (simp add: same_event_def comp_def)
  have reset: "known_type r \<and> due now r" if r: "r \<in> set ?rs" for r
  proof -
    obtain q where "q \<in> set (rows s)" "r = (if stale now q then q\<lparr>row_status := ob_pending, lockedAt := None\<rparr> else q)"
      using r by (auto simp: reset_stale_def)
    then show ?thesis using assms(2) by (cases "stale now q") (auto simp: due_def open_row_def stale_def known_type_def)
  qed
  have rows': "known_type (f r) \<and> due now (f r)" if r: "r \<in> set ?rs" for r
  proof (cases "row_id r \<in> row_id ` set ?cs")
    case True
    then show ?thesis using reset[OF r] f(2,3) by (simp add: due_def same_event_def known_type_def)
  next
    case False
    then show ?thesis using reset[OF r] f(4) by simp
  qed
  have "effect_of r \<in> set (sent s') \<or> (\<exists>q \<in> set (rows s'). open_row q \<and> effect_of q = effect_of r)"
    if r: "r \<in> set (rows s)" "open_row r" for r
  proof -
    let ?q = "if stale now r then r\<lparr>row_status := ob_pending, lockedAt := None\<rparr> else r"
    have "?q \<in> set ?rs" "open_row ?q" "effect_of ?q = effect_of r"
      using r by (auto simp: reset_stale_def open_row_def effect_of_def)
    then obtain q where q: "q \<in> set ?rs" "open_row q" "effect_of q = effect_of r" by blast
    show ?thesis
    proof (cases "row_id q \<in> row_id ` set ?cs")
      case True
      then obtain c where c: "c \<in> set ?cs" "row_id c = row_id q" by auto
      moreover have "c \<in> set ?rs" using c(1) sub by auto
      ultimately have "c = q" using inj_onD[OF inj _ _ q(1)] by blast
      then show ?thesis using imageI[OF c(1), of effect_of] q(3) f(1) by simp
    next
      case False
      then have "q \<in> set (rows s')" using f(1,4) imageI[OF q(1), of f] by simp
      then show ?thesis using q by blast
    qed
  qed
  then show ?thesis using f(1) ids rows' cnt by simp
qed

lemma due_later: "due t r \<Longrightarrow> t \<le> t' \<Longrightarrow> due t' r"
  by (auto simp: due_def stale_def split: option.splits)

lemma drains_all:
  assumes "distinct (map row_id (rows s))" "\<forall>r \<in> set (rows s). known_type r \<and> due t r" "sorted (t # ts)"
    and "length (filter open_row (rows s)) \<le> 50 * length ts"
  shows "filter open_row (rows (polls (\<lambda>_. None) ts s)) = []
    \<and> set (sent s) \<subseteq> set (sent (polls (\<lambda>_. None) ts s))
    \<and> (\<forall>r \<in> set (rows s). open_row r \<longrightarrow> effect_of r \<in> set (sent (polls (\<lambda>_. None) ts s)))"
  using assms
proof (induction ts arbitrary: s t)
  case Nil
  then show ?case by (auto simp: filter_empty_conv)
next
  case (Cons u ts)
  obtain n s' where b: "relayOutboxBatch u (\<lambda>_. None) s = (n, s')" by (cases "relayOutboxBatch u (\<lambda>_. None) s")
  have d: "\<forall>r \<in> set (rows s). known_type r \<and> due u r" using Cons.prems(2,3) due_later by auto
  note p = batch_progress[OF Cons.prems(1) d b]
  have ih: "filter open_row (rows (polls (\<lambda>_. None) ts s')) = []"
    "set (sent s') \<subseteq> set (sent (polls (\<lambda>_. None) ts s'))"
    "\<forall>r \<in> set (rows s'). open_row r \<longrightarrow> effect_of r \<in> set (sent (polls (\<lambda>_. None) ts s'))"
    using Cons.IH[of s' u] p Cons.prems(1,3,4) by (auto simp: BATCH_SIZE_def)
  have "effect_of r \<in> set (sent (polls (\<lambda>_. None) ts s'))" if "r \<in> set (rows s)" "open_row r" for r
    using p ih that by (metis subsetD)
  then show ?case using ih p b by auto
qed

text \<open>C9. The relay delivers everything that is in the outbox: when the senders work and every open row is due, a
  sequence of batches, fifty rows at a time, sends every open event and leaves no row open, including rows
  that a crashed relay left locked for more than a minute and rows that wait for a retry.\<close>

theorem outbox_drains:
  assumes "distinct (map row_id (rows s))" "\<forall>r \<in> set (rows s). known_type r \<and> due t r" "sorted (t # ts)"
    and "length (filter open_row (rows s)) \<le> 50 * length ts"
  shows "filter open_row (rows (polls (\<lambda>_. None) ts s)) = []
    \<and> set (sent s) \<subseteq> set (sent (polls (\<lambda>_. None) ts s))
    \<and> (\<forall>r \<in> set (rows s). open_row r \<longrightarrow> effect_of r \<in> set (sent (polls (\<lambda>_. None) ts s)))"
  by (rule drains_all[OF assms])

lemma relay_rows_ready:
  assumes "inj ids" "now \<le> t"
  shows "distinct (map row_id (relay_rows ids now evs))" "\<forall>r \<in> set (relay_rows ids now evs). known_type r \<and> due t r"
    and "length (filter open_row (relay_rows ids now evs)) = length evs"
proof -
  have "map row_id (relay_rows ids now evs) = map ids [0..<length evs]"
    by (simp add: relay_rows_def new_row_def)
  then show "distinct (map row_id (relay_rows ids now evs))" using assms(1) by (simp add: distinct_map inj_on_def)
  have k: "known_type (new_row ids now n ev)" for n ev by (cases "ob_type ev") (simp_all add: new_row_def known_type_def)
  show "\<forall>r \<in> set (relay_rows ids now evs). known_type r \<and> due t r"
    using assms(2) k by (auto simp: relay_rows_def due_def) (simp_all add: new_row_def)
  have "filter open_row (relay_rows ids now evs) = relay_rows ids now evs"
    by (auto simp: filter_id_conv relay_rows_def new_row_def open_row_def)
  then show "length (filter open_row (relay_rows ids now evs)) = length evs" by (simp add: relay_rows_def)
qed

lemma relay_rows_event:
  assumes "ev \<in> set evs"
  shows "\<exists>r \<in> set (relay_rows ids now evs). open_row r \<and>
    (\<exists>i. effect_of r = (case ob_type ev of payment_alert \<Rightarrow> Alert_job | payment_realtime \<Rightarrow> Realtime) i (ob_aggregateId ev) (ob_txHash ev))"
proof -
  obtain n where "n < length evs" "ev = evs ! n" using assms by (auto simp: in_set_conv_nth)
  then have "new_row ids now n ev \<in> set (relay_rows ids now evs)" by (auto simp: relay_rows_def)
  then show ?thesis
    by (rule bexI[rotated]) (cases "ob_type ev"; auto simp: new_row_def open_row_def effect_of_def)
qed

text \<open>One row is locked by a relay that crashed, another waits for its retry.\<close>

definition sample_row :: "string \<Rightarrow> string \<Rightarrow> outbox_row" where
  "sample_row i ty = \<lparr>row_id = i, row_type = ty, row_paymentId = ''p'', row_txHash = ''h'', row_status = ob_pending,
     row_attempts = 0, availableAt = 0, lockedAt = None, processedAt = None, row_error = None, row_createdAt = 0\<rparr>"

definition sample_outbox :: relay_state where
  "sample_outbox = \<lparr>rows = [claim 0 (sample_row ''1'' ''payment.alert''),
     retry_later 5000 (sample_row ''2'' ''payment.realtime'') ''down'' (sample_row ''2'' ''payment.realtime'')], sent = []\<rparr>"

theorem outbox_drains_witness:
  "{Alert_job ''1'' ''p'' ''h'', Realtime ''2'' ''p'' ''h''} \<subseteq> set (sent (polls (\<lambda>_. None) [70000] sample_outbox))"
proof -
  have h: "distinct (map row_id (rows sample_outbox))" "\<forall>r \<in> set (rows sample_outbox). known_type r \<and> due 70000 r"
    "sorted [70000, 70000 :: int]" "length (filter open_row (rows sample_outbox)) \<le> 50 * length [70000 :: int]"
    by (simp_all add: sample_outbox_def claim_def retry_later_def sample_row_def known_type_def due_def stale_def
        open_row_def LOCK_TIMEOUT_MS_def nextAttempt_def)
  have "\<forall>r \<in> set (rows sample_outbox). open_row r \<longrightarrow> effect_of r \<in> set (sent (polls (\<lambda>_. None) [70000] sample_outbox))"
    using outbox_drains [OF h] by blast
  then show ?thesis
    by (simp add: sample_outbox_def claim_def retry_later_def sample_row_def open_row_def effect_of_def)
qed

section \<open>Interleaved relays send what they mark\<close>

fun events :: "relay_pc \<Rightarrow> outbox_row list" where
  "events Idle = []"
| "events Looking = []"
| "events (Claiming cs claimed) = cs @ claimed"
| "events (Sending evs) = evs"
| "events (Confirming ev evs) = ev # evs"
| "events (Retrying ev msg evs) = ev # evs"

lemma relayEvent_Inr: "relayEvent send ev = Inr eff \<Longrightarrow> eff = effect_of ev"
  by (auto simp: relayEvent_def effect_of_def Let_def split: if_splits option.splits)

lemma same_event_effect: "same_event r q \<Longrightarrow> effect_of r = effect_of q"
  by (simp add: same_event_def effect_of_def)

text \<open>An event in the memory of a relay is the one of the row with its id; a processed row was sent, and so was
  an event that is about to be confirmed.\<close>

definition sent_ok :: "relay_sys \<Rightarrow> bool" where
  "sent_ok s \<longleftrightarrow> distinct (map row_id (rows s))
     \<and> (\<forall>r \<in> set (rows s). row_status r = ob_processed \<longrightarrow> effect_of r \<in> set (sent s))
     \<and> (\<forall>w. \<forall>ev \<in> set (events (pcs s w)). \<forall>r \<in> set (rows s). row_id r = row_id ev \<longrightarrow> same_event r ev)
     \<and> (\<forall>w ev evs. pcs s w = Confirming ev evs \<longrightarrow> effect_of ev \<in> set (sent s))"

text \<open>The queries change rows one by one, keep their events, and make no row processed but the confirmed one.\<close>

lemma sent_ok_rows:
  assumes "sent_ok s" "\<And>r. same_event (f r) r" "\<And>r. r \<in> set (rows s) \<Longrightarrow> row_status (f r) = ob_processed \<Longrightarrow>
      row_status r = ob_processed \<or> effect_of r \<in> set (sent s)"
  shows "sent_ok (s\<lparr>rows := map f (rows s)\<rparr>)"
proof -
  have f: "row_id (f r) = row_id r" "effect_of (f r) = effect_of r" for r
    using assms(2)[of r] by (simp_all add: same_event_def same_event_effect[OF assms(2)])
  have "distinct (map row_id (map f (rows s)))" using assms(1) f by (simp add: sent_ok_def comp_def)
  moreover have "effect_of (f r) \<in> set (sent s)" if "r \<in> set (rows s)" "row_status (f r) = ob_processed" for r
    using assms(3)[OF that] f(2) assms(1) that by (auto simp: sent_ok_def)
  moreover have "same_event (f r) ev" if "ev \<in> set (events (pcs s w))" "r \<in> set (rows s)" "row_id (f r) = row_id ev" for r ev w
  proof -
    have "same_event r ev" using assms(1) that f(1) by (simp add: sent_ok_def)
    then show ?thesis using assms(2)[of r] by (simp add: same_event_def)
  qed
  ultimately show ?thesis using assms(1) by (simp add: sent_ok_def)
qed

lemma sent_ok_goto:
  assumes "sent_ok s" "\<forall>ev \<in> set (events pc). ev \<in> set (events (pcs s w)) \<or> ev \<in> set (rows s)"
    and "\<And>ev evs. pc = Confirming ev evs \<Longrightarrow> effect_of ev \<in> set (sent s)"
  shows "sent_ok (goto w pc s)"
proof -
  have "same_event r ev" if "ev \<in> set (events pc)" "r \<in> set (rows s)" "row_id r = row_id ev" for r ev
  proof (cases "ev \<in> set (rows s)")
    case True
    then have "r = ev" using assms(1) that by (auto simp: sent_ok_def distinct_map dest: inj_onD)
    then show ?thesis by simp
  next
    case False
    then show ?thesis using assms(1,2) that by (auto simp: sent_ok_def)
  qed
  then have "same_event r ev" if "ev \<in> set (events (pcs (goto w pc s) v))" "r \<in> set (rows s)" "row_id r = row_id ev" for v r ev
    using that assms(1) by (cases "v = w") (auto simp: sent_ok_def)
  moreover have "effect_of ev \<in> set (sent s)" if "pcs (goto w pc s) v = Confirming ev evs" for v ev evs
  proof (cases "v = w")
    case False
    then have "pcs s v = Confirming ev evs" using that by simp
    then show ?thesis using assms(1) unfolding sent_ok_def by blast
  qed (use that assms(3) in simp)
  ultimately show ?thesis using assms(1)[unfolded sent_ok_def] unfolding sent_ok_def goto_simps(1,2) by blast
qed

lemma sent_ok_send: "sent_ok s \<Longrightarrow> sent_ok (s\<lparr>sent := sent s @ [eff]\<rparr>)"
  by (auto simp: sent_ok_def)

lemma sent_ok_step:
  assumes "sent_ok s"
  shows "sent_ok (relay_step now send w s)"
proof (cases "pcs s w")
  case Idle
  have "sent_ok (s\<lparr>rows := reset_stale now (rows s)\<rparr>)" unfolding reset_stale_def
    by (rule sent_ok_rows[OF assms]) (auto simp: same_event_def stale_def split: if_splits)
  then show ?thesis using Idle by (auto simp: relay_step_def intro!: sent_ok_goto)
next
  case Looking
  have "set (candidates now (rows s)) \<subseteq> set (rows s)"
    using candidates_props(2)[of "rows s"] assms by (auto simp: sent_ok_def)
  then show ?thesis using Looking assms by (auto simp: relay_step_def intro!: sent_ok_goto)
next
  case (Claiming cs claimed)
  show ?thesis
  proof (cases cs)
    case Nil
    then show ?thesis using Claiming assms by (auto simp: relay_step_def intro!: sent_ok_goto)
  next
    case (Cons c cs')
    have "sent_ok (s\<lparr>rows := fst (claim_row now (row_id c) (rows s))\<rparr>)" unfolding claim_row_def fst_conv
      by (rule sent_ok_rows[OF assms]) (auto simp: same_event_def claim_def split: if_splits)
    then show ?thesis using Claiming Cons by (auto simp: relay_step_def split: prod.splits intro!: sent_ok_goto)
  qed
next
  case (Sending evs)
  then show ?thesis using assms
    by (cases evs) (auto simp: relay_step_def dest: relayEvent_Inr split: sum.splits intro!: sent_ok_goto sent_ok_send)
next
  case (Confirming ev evs)
  have "sent_ok (s\<lparr>rows := update_row (row_id ev) (processed now) (rows s)\<rparr>)" unfolding update_row_def
  proof (rule sent_ok_rows[OF assms])
    fix r assume r: "r \<in> set (rows s)" "row_status (if row_id r = row_id ev then processed now r else r) = ob_processed"
    have "effect_of r \<in> set (sent s)" if "row_id r = row_id ev"
      using assms Confirming r(1) that same_event_effect[of r ev] by (auto simp: sent_ok_def)
        (metis events.simps(5) list.set_intros(1))
    then show "row_status r = ob_processed \<or> effect_of r \<in> set (sent s)" using r(2) by (auto split: if_splits)
  qed simp
  then show ?thesis using Confirming by (auto simp: relay_step_def intro!: sent_ok_goto)
next
  case (Retrying ev msg evs)
  have "sent_ok (s\<lparr>rows := update_row (row_id ev) (retry_later now ev msg) (rows s)\<rparr>)" unfolding update_row_def
    by (rule sent_ok_rows[OF assms]) (auto simp: same_event_def retry_later_def split: if_splits)
  then show ?thesis using Retrying by (auto simp: relay_step_def intro!: sent_ok_goto)
qed

lemma sent_ok_act: "sent_ok s \<Longrightarrow> sent_ok (relay_act s a)"
  by (cases a) (auto simp: sent_ok_step intro!: sent_ok_goto)

definition start_relays :: "outbox_row list \<Rightarrow> relay_sys" where
  "start_relays rs = \<lparr>rows = rs, sent = [], pcs = (\<lambda>_. Idle)\<rparr>"

lemma rows_kept:
  "claim_row now i rs = (rs', ok) \<Longrightarrow> map row_id rs' = map row_id rs"
  "(\<And>r. row_id (f r) = row_id r) \<Longrightarrow> map row_id (update_row i f rs) = map row_id rs"
  by (auto simp: claim_row_def claim_def update_row_def)

lemma rows_of_act: "map row_id (rows (relay_act s a)) = map row_id (rows s)"
proof (cases a)
  case (Step now send w)
  show ?thesis unfolding Step relay_act.simps relay_step_def
    by (simp add: rows_kept retry_later_def split: relay_pc.split list.split sum.split prod.split)
qed simp

text \<open>However many relays interleave their queries, with failing senders, expired locks and crashes at any
  point, a row that was pending is marked as processed only after its event was sent, and no row is lost.\<close>

theorem processed_events_were_sent:
  assumes "distinct (map row_id rs)" "\<forall>r \<in> set rs. row_status r = ob_pending"
  shows "map row_id (rows (foldl relay_act (start_relays rs) acts)) = map row_id rs
    \<and> (\<forall>r \<in> set (rows (foldl relay_act (start_relays rs) acts)).
         row_status r = ob_processed \<longrightarrow> effect_of r \<in> set (sent (foldl relay_act (start_relays rs) acts)))"
proof -
  let ?s = "foldl relay_act (start_relays rs) acts"
  have "sent_ok (start_relays rs)" using assms by (simp add: sent_ok_def start_relays_def)
  then have "sent_ok ?s" by (induction acts rule: rev_induct) (simp_all add: sent_ok_act)
  moreover have "map row_id (rows ?s) = map row_id rs"
    by (induction acts rule: rev_induct) (simp_all add: rows_of_act, simp add: start_relays_def)
  ultimately show ?thesis by (simp add: sent_ok_def)
qed

theorem processed_events_were_sent_witness:
  "effect_of (sample_row ''1'' ''payment.realtime'') \<in> set (sent (foldl relay_act (start_relays [sample_row ''1'' ''payment.realtime''])
     (map (Step 0 (\<lambda>_. None)) [1, 2, 1, 2, 1, 2, 1, 1, 1])))"
proof -
  let ?rs = "[sample_row ''1'' ''payment.realtime'']" and ?acts = "map (Step 0 (\<lambda>_. None)) [1, 2, 1, 2, 1, 2, 1, 1, 1]"
  have h: "distinct (map row_id ?rs)" "\<forall>r \<in> set ?rs. row_status r = ob_pending" by (simp_all add: sample_row_def)
  have "\<exists>r. rows (foldl relay_act (start_relays ?rs) ?acts) = [r] \<and> row_status r = ob_processed
      \<and> effect_of r = effect_of (sample_row ''1'' ''payment.realtime'')"
    by (simp add: start_relays_def relay_step_def goto_def reset_stale_def candidates_def BATCH_SIZE_def claim_row_def claimable_def
        claim_def relayEvent_def update_row_def processed_def sample_row_def stale_def effect_of_def Let_def)
  then show ?thesis using processed_events_were_sent [OF h, of ?acts] by auto
qed

section \<open>No event is sent twice\<close>

text \<open>The rows that a relay has locked, and those it has not sent yet.\<close>

fun holds :: "relay_pc \<Rightarrow> string list" where
  "holds Idle = []"
| "holds Looking = []"
| "holds (Claiming cs claimed) = map row_id claimed"
| "holds (Sending evs) = map row_id evs"
| "holds (Confirming ev evs) = row_id ev # map row_id evs"
| "holds (Retrying ev msg evs) = row_id ev # map row_id evs"

fun unsent :: "relay_pc \<Rightarrow> string list" where
  "unsent (Confirming ev evs) = map row_id evs"
| "unsent pc = holds pc"

fun effect_id :: "relay_effect \<Rightarrow> string" where
  "effect_id (Alert_job i p t) = i"
| "effect_id (Realtime i p t) = i"

lemma effect_id_of [simp]: "effect_id (effect_of r) = row_id r"
  by (simp add: effect_of_def)

lemma unsent_holds: "set (unsent pc) \<subseteq> set (holds pc)"
  by (cases pc) auto

definition locked :: "relay_sys \<Rightarrow> string \<Rightarrow> bool" where
  "locked s i \<longleftrightarrow> (\<forall>r \<in> set (rows s). row_id r = i \<longrightarrow> row_status r = ob_processing)"

definition once_ok :: "relay_sys \<Rightarrow> bool" where
  "once_ok s \<longleftrightarrow> distinct (map row_id (rows s)) \<and> distinct (map effect_id (sent s))
     \<and> (\<forall>w. distinct (holds (pcs s w)))
     \<and> (\<forall>w w'. w \<noteq> w' \<longrightarrow> set (holds (pcs s w)) \<inter> set (holds (pcs s w')) = {})
     \<and> (\<forall>w. \<forall>i \<in> set (holds (pcs s w)). locked s i)
     \<and> (\<forall>w. set (unsent (pcs s w)) \<inter> effect_id ` set (sent s) = {})
     \<and> (\<forall>r \<in> set (rows s). row_status r = ob_pending \<longrightarrow> row_id r \<notin> effect_id ` set (sent s))"

text \<open>A step that neither locks nor sends anything new.\<close>

lemma once_ok_goto:
  assumes "once_ok s" "distinct (holds pc)" "set (holds pc) \<subseteq> set (holds (pcs s w))" "set (unsent pc) \<subseteq> set (unsent (pcs s w))"
  shows "once_ok (goto w pc s)"
  using assms unfolding once_ok_def goto_simps locked_def by (auto simp: fun_upd_apply) blast+

text \<open>Rows that nobody has locked may change, as long as no event that was sent becomes pending.\<close>

lemma once_ok_rows:
  assumes "once_ok s" "\<And>r. row_id (f r) = row_id r"
    and "\<And>r w. r \<in> set (rows s) \<Longrightarrow> row_id r \<in> set (holds (pcs s w)) \<Longrightarrow> row_status (f r) = ob_processing"
    and "\<And>r. r \<in> set (rows s) \<Longrightarrow> row_status (f r) = ob_pending \<Longrightarrow> row_id r \<notin> effect_id ` set (sent s)"
  shows "once_ok (s\<lparr>rows := map f (rows s)\<rparr>)"
proof -
  have "distinct (map row_id (map f (rows s)))" using assms(1,2) by (simp add: once_ok_def comp_def)
  moreover have "locked (s\<lparr>rows := map f (rows s)\<rparr>) i" if "i \<in> set (holds (pcs s w))" for i w
    using that assms(2,3) by (auto simp: locked_def)
  ultimately show ?thesis using assms(1,2,4) unfolding once_ok_def by (auto simp: locked_def)
qed

lemma once_ok_lock:
  assumes "once_ok s" "locked s i" "i \<notin> effect_id ` set (sent s)" "\<And>w'. i \<notin> set (holds (pcs s w'))"
    and "set (holds pc) = insert i (set (holds (pcs s w)))" "distinct (holds pc)" "set (unsent pc) \<subseteq> insert i (set (unsent (pcs s w)))"
  shows "once_ok (goto w pc s)"
proof -
  let ?s = "goto w pc s"
  have holds: "set (holds (pcs ?s v)) = (if v = w then insert i (set (holds (pcs s w))) else set (holds (pcs s v)))" for v
    using assms(5) by simp
  have ok: "set (holds (pcs s v)) \<inter> set (holds (pcs s v')) = {}" if "v \<noteq> v'" for v v' using assms(1) that by (simp add: once_ok_def)
  have lk: "locked s j" if "j \<in> set (holds (pcs s v))" for j v using assms(1) that unfolding once_ok_def by blast
  have un: "set (unsent (pcs s v)) \<inter> effect_id ` set (sent s) = {}" for v using assms(1) by (simp add: once_ok_def)
  have "set (holds (pcs ?s v)) \<inter> set (holds (pcs ?s v')) = {}" if "v \<noteq> v'" for v v'
    unfolding holds using ok[OF that] ok[of w v'] ok[of v w] assms(4) that by auto
  moreover have "locked ?s j" if "j \<in> set (holds (pcs ?s v))" for j v
    using that lk assms(2) unfolding holds by (auto simp: locked_def split: if_splits)
  moreover have "set (unsent (pcs ?s v)) \<inter> effect_id ` set (sent s) = {}" for v
    using un[of v] un[of w] assms(3,7) by (cases "v = w") auto
  ultimately show ?thesis using assms(1,6) by (simp add: once_ok_def)
qed

lemma once_ok_claim:
  assumes "once_ok s" "pcs s w = Claiming (c # cs) claimed" "claim_row now (row_id c) (rows s) = (rs, ok)"
  shows "once_ok (goto w (Claiming cs (if ok then claimed @ [c] else claimed)) (s\<lparr>rows := rs\<rparr>))"
proof -
  let ?f = "\<lambda>r. if claimable (row_id c) r then claim now r else r"
  have rs: "rs = map ?f (rows s)" "ok \<longleftrightarrow> length (filter (claimable (row_id c)) (rows s)) = 1"
    using assms(3) by (auto simp: claim_row_def)
  have held: "row_status r = ob_processing" if "r \<in> set (rows s)" "row_id r \<in> set (holds (pcs s w'))" for r w'
    using assms(1) that by (auto simp: once_ok_def locked_def)
  have "once_ok (s\<lparr>rows := map ?f (rows s)\<rparr>)"
  proof (rule once_ok_rows[OF assms(1)])
    show "row_id r \<notin> effect_id ` set (sent s)" if "r \<in> set (rows s)" "row_status (?f r) = ob_pending" for r
      using assms(1) that by (auto simp: once_ok_def claim_def split: if_splits)
  qed (use held in \<open>auto simp: claim_def\<close>)
  then have ok1: "once_ok (s\<lparr>rows := rs\<rparr>)" using rs(1) by simp
  have d: "distinct (map row_id claimed)" using assms(1,2) by (auto simp: once_ok_def dest: spec[of _ w])
  show ?thesis
  proof (cases ok)
    case False
    then show ?thesis using once_ok_goto[OF ok1, of "Claiming cs claimed" w] d assms(2) by simp
  next
    case True
    then have "filter (claimable (row_id c)) (rows s) \<noteq> []" using rs(2) by auto
    then obtain r where r: "r \<in> set (rows s)" "claimable (row_id c) r" by (auto simp: filter_empty_conv)
    have free: "row_id c \<notin> set (holds (pcs s w'))" for w' using held[OF r(1)] r(2) by (auto simp: claimable_def)
    have fresh: "row_id c \<notin> effect_id ` set (sent s)" using assms(1) r by (auto simp: once_ok_def claimable_def)
    have lock: "locked (s\<lparr>rows := rs\<rparr>) (row_id c)"
    proof -
      have "inj_on row_id (set (rows s))" using assms(1) by (simp add: once_ok_def distinct_map)
      then have "q = r" if "q \<in> set (rows s)" "row_id q = row_id c" for q
        using inj_onD[of row_id "set (rows s)" q r] that r by (simp add: claimable_def)
      then show ?thesis using r(2) by (auto simp: locked_def rs(1) claim_def)
    qed
    have "row_id c \<notin> row_id ` set claimed" using free[of w] assms(2) by simp
    then show ?thesis using True ok1 lock fresh free d assms(2) by (auto intro!: once_ok_lock)
  qed
qed

lemma goto_updates:
  "goto w pc (s\<lparr>rows := rs\<rparr>) = (goto w pc s)\<lparr>rows := rs\<rparr>" "goto w pc (s\<lparr>sent := es\<rparr>) = (goto w pc s)\<lparr>sent := es\<rparr>"
  by (cases s, simp add: goto_def)+

lemma once_ok_send:
  assumes "once_ok s" "pcs s w = Sending (ev # evs)" "relayEvent send ev = Inr eff"
  shows "once_ok (goto w (Confirming ev evs) (s\<lparr>sent := sent s @ [eff]\<rparr>))"
proof -
  let ?s = "goto w (Confirming ev evs) s"
  have e: "effect_id eff = row_id ev" using relayEvent_Inr[OF assms(3)] by simp
  have d: "distinct (row_id ev # map row_id evs)" and u: "row_id ev \<notin> effect_id ` set (sent s)"
    using assms(1,2) unfolding once_ok_def by (auto dest: spec[of _ w])
  have ok: "once_ok ?s" by (rule once_ok_goto[OF assms(1)]) (use assms(2) d in auto)
  have h: "row_id ev \<in> set (holds (pcs ?s w))" by simp
  have other: "row_id ev \<notin> set (unsent (pcs ?s w'))" for w'
  proof (cases "w' = w")
    case True
    then show ?thesis using d by simp
  next
    case False
    then have "set (holds (pcs ?s w)) \<inter> set (holds (pcs ?s w')) = {}" using ok unfolding once_ok_def by metis
    then show ?thesis using h unsent_holds[of "pcs ?s w'"] by blast
  qed
  have "locked ?s (row_id ev)" using ok h unfolding once_ok_def by blast
  then have "row_status r \<noteq> ob_pending" if "r \<in> set (rows s)" "row_id r = row_id ev" for r
    using that by (simp add: locked_def)
  then have "once_ok (?s\<lparr>sent := sent ?s @ [eff]\<rparr>)" using ok e u other unfolding once_ok_def
    by (auto simp: locked_def simp del: goto_simps(3))
  then show ?thesis by (simp add: goto_updates)
qed

text \<open>The last step for an event: its row is given up and changed.\<close>

lemma once_ok_finish:
  assumes "once_ok s" "holds (pcs s w) = row_id ev # map row_id evs" "set (map row_id evs) \<subseteq> set (unsent (pcs s w))"
    and "\<And>r. row_id (f r) = row_id r"
    and "\<And>r. row_status (f r) = ob_pending \<Longrightarrow> row_id ev \<notin> effect_id ` set (sent s)"
  shows "once_ok (goto w (Sending evs) (s\<lparr>rows := update_row (row_id ev) f (rows s)\<rparr>))"
proof -
  let ?s = "goto w (Sending evs) s"
  have d: "distinct (row_id ev # map row_id evs)" using assms(1,2) unfolding once_ok_def by metis
  have ok: "once_ok ?s" by (rule once_ok_goto[OF assms(1)]) (use assms(2,3) d in auto)
  have free: "row_id ev \<notin> set (holds (pcs ?s w'))" for w'
  proof (cases "w' = w")
    case True
    then show ?thesis using d by simp
  next
    case False
    then have "set (holds (pcs s w)) \<inter> set (holds (pcs s w')) = {}" using assms(1) by (simp add: once_ok_def)
    then show ?thesis using False assms(2) by auto
  qed
  have "once_ok (?s\<lparr>rows := map (\<lambda>r. if row_id r = row_id ev then f r else r) (rows ?s)\<rparr>)"
  proof (rule once_ok_rows[OF ok])
    fix r w' assume r: "r \<in> set (rows ?s)" "row_id r \<in> set (holds (pcs ?s w'))"
    then have "locked ?s (row_id r)" using ok unfolding once_ok_def by blast
    then show "row_status (if row_id r = row_id ev then f r else r) = ob_processing"
      using r free[of w'] by (auto simp: locked_def)
  next
    fix r assume "r \<in> set (rows ?s)" "row_status (if row_id r = row_id ev then f r else r) = ob_pending"
    then show "row_id r \<notin> effect_id ` set (sent ?s)"
      using assms(1,5) by (cases "row_id r = row_id ev") (auto simp: once_ok_def)
  qed (simp add: assms(4))
  then show ?thesis by (simp add: update_row_def goto_updates)
qed

text \<open>A relay that starts finds no lock that has run out, and no relay crashes.\<close>

fun prompt :: "relay_sys \<Rightarrow> relay_action \<Rightarrow> bool" where
  "prompt s (Step now send w) = (\<forall>r \<in> set (rows s). \<not> stale now r)"
| "prompt s (Crash w) = False"

lemma once_ok_act:
  assumes "once_ok s" "prompt s a"
  shows "once_ok (relay_act s a)"
proof (cases a)
  case (Step now send w)
  have reset: "reset_stale now (rows s) = rows s"
    using assms(2) Step by (simp add: reset_stale_def map_idI)
  show ?thesis
  proof (cases "pcs s w")
    case Idle
    then show ?thesis using once_ok_goto[OF assms(1), of Looking w] reset Step by (simp add: relay_step_def)
  next
    case Looking
    then show ?thesis using once_ok_goto[OF assms(1), of "Claiming (candidates now (rows s)) []" w] Step by (simp add: relay_step_def)
  next
    case (Claiming cs claimed)
    have d: "distinct (map row_id claimed)" using assms(1) Claiming by (auto simp: once_ok_def dest: spec[of _ w])
    show ?thesis using Claiming Step d once_ok_goto[OF assms(1), of "Sending claimed" w] once_ok_claim[OF assms(1)]
      by (cases cs) (auto simp: relay_step_def split: prod.splits)
  next
    case (Sending evs)
    show ?thesis
    proof (cases evs)
      case Nil
      then show ?thesis using Sending Step once_ok_goto[OF assms(1), of Idle w] by (simp add: relay_step_def)
    next
      case (Cons ev evs')
      have d: "distinct (row_id ev # map row_id evs')"
        using assms(1) Sending Cons by (auto simp: once_ok_def dest: spec[of _ w])
      show ?thesis
      proof (cases "relayEvent send ev")
        case (Inl msg)
        then show ?thesis using Sending Cons Step d once_ok_goto[OF assms(1), of "Retrying ev msg evs'" w] by (simp add: relay_step_def)
      next
        case (Inr eff)
        then show ?thesis using Sending Cons Step once_ok_send[OF assms(1) _ Inr, of w evs'] by (simp add: relay_step_def)
      qed
    qed
  next
    case (Confirming ev evs)
    then show ?thesis using Step once_ok_finish[OF assms(1), of w ev evs "processed now"]
      by (simp add: relay_step_def processed_def)
  next
    case (Retrying ev msg evs)
    then have "row_id ev \<notin> effect_id ` set (sent s)" using assms(1) by (auto simp: once_ok_def dest: spec[of _ w])
    then show ?thesis using Retrying Step once_ok_finish[OF assms(1), of w ev evs "retry_later now ev msg"]
      by (auto simp: relay_step_def retry_later_def)
  qed
qed (use assms in simp)

fun prompt_run :: "relay_sys \<Rightarrow> relay_action list \<Rightarrow> bool" where
  "prompt_run s [] = True"
| "prompt_run s (a # acts) = (prompt s a \<and> prompt_run (relay_act s a) acts)"


text \<open>Two relays find the same event and take turns.\<close>

definition two_relays :: "relay_action list" where
  "two_relays = map (Step 0 (\<lambda>_. None)) [1, 2, 1, 2, 1, 2, 1, 2, 1, 2, 1]"


text \<open>
  When a lock runs out while its relay still works, two relays have the event; if the slow one then fails, it
  makes the row pending again although the other one has sent the event and marked it.
\<close>

lemma late_failure_reopens_processed:
  assumes "pcs s w = Retrying ev msg evs" "r \<in> set (rows s)" "row_id r = row_id ev"
  shows "\<exists>q \<in> set (rows (relay_step now send w s)). row_id q = row_id r \<and> row_status q = ob_pending"
  using assms by (auto simp: relay_step_def update_row_def retry_later_def intro!: bexI[of _ "retry_later now ev msg r"] image_eqI[of _ _ r])

end
