(* ===== verification/WalletLock.thy ===== *)
theory WalletLock
  imports RedisStore
begin

text \<open>
  The two wallet locks: the short lock around the transaction of an ingested payment
  (\<open>apps/api/src/lib/lock.ts\<close>) and the lease with a heartbeat that a worker holds while it streams a wallet
  (\<open>apps/api/src/lib/redlock.ts\<close>). Both set the same key with \<open>SET NX PX\<close> and release it by comparing the
  value, both retry. The commands of Redis with expiry in milliseconds are a parameter with the contract
  \<open>lease_store\<close>; what other clients do while an acquisition waits, the time of each attempt, Redis errors
  and the random part of the values are arguments; a command that throws has no effect. The Lua scripts are definitions. Lock objects live in a
  heap, since a manager forgets an object without stopping its timer. Logs and the registration of process
  signals are left out.
\<close>

section \<open>Contract of Redis\<close>

record 'r lease_redis =
  lr_get :: "int \<Rightarrow> 'r \<Rightarrow> string \<Rightarrow> string option"
  lr_set_nx :: "int \<Rightarrow> 'r \<Rightarrow> string \<Rightarrow> string \<Rightarrow> int \<Rightarrow> 'r option"
  lr_del :: "int \<Rightarrow> 'r \<Rightarrow> string \<Rightarrow> 'r"
  lr_pexpire :: "int \<Rightarrow> 'r \<Rightarrow> string \<Rightarrow> int \<Rightarrow> 'r"

text \<open>A key that is set with a time to live holds its value for that time; the instant at which it expires is left open.\<close>

locale lease_store =
  fixes get :: "int \<Rightarrow> 'r \<Rightarrow> string \<Rightarrow> string option"
    and set_nx :: "int \<Rightarrow> 'r \<Rightarrow> string \<Rightarrow> string \<Rightarrow> int \<Rightarrow> 'r option"
    and del :: "int \<Rightarrow> 'r \<Rightarrow> string \<Rightarrow> 'r" and pexpire :: "int \<Rightarrow> 'r \<Rightarrow> string \<Rightarrow> int \<Rightarrow> 'r"
  assumes nx_absent: "set_nx t r k v ttl = Some r' \<Longrightarrow> get t r k = None"
    and nx_succeeds: "get t r k = None \<Longrightarrow> \<exists>r'. set_nx t r k v ttl = Some r'"
    and nx_get: "set_nx t r k v ttl = Some r' \<Longrightarrow> t \<le> t' \<Longrightarrow> t' < t + ttl \<Longrightarrow> get t' r' k = Some v"
    and nx_expired: "set_nx t r k v ttl = Some r' \<Longrightarrow> t \<le> t' \<Longrightarrow> t + ttl < t' \<Longrightarrow> get t' r' k = None"
    and nx_frame: "set_nx t r k v ttl = Some r' \<Longrightarrow> t \<le> t' \<Longrightarrow> k' \<noteq> k \<Longrightarrow> get t' r' k' = get t' r k'"
    and del_get: "t \<le> t' \<Longrightarrow> get t' (del t r k) k = None"
    and del_frame: "t \<le> t' \<Longrightarrow> k' \<noteq> k \<Longrightarrow> get t' (del t r k) k' = get t' r k'"
    and pexpire_get: "get t r k = Some v \<Longrightarrow> t \<le> t' \<Longrightarrow> t' < t + ttl \<Longrightarrow> get t' (pexpire t r k ttl) k = Some v"
    and pexpire_expired: "get t r k = Some v \<Longrightarrow> t \<le> t' \<Longrightarrow> t + ttl < t' \<Longrightarrow> get t' (pexpire t r k ttl) k = None"
    and pexpire_frame: "t \<le> t' \<Longrightarrow> k' \<noteq> k \<Longrightarrow> get t' (pexpire t r k ttl) k' = get t' r k'"

definition lease_contract :: "'r lease_redis \<Rightarrow> bool" where
  "lease_contract c = lease_store (lr_get c) (lr_set_nx c) (lr_del c) (lr_pexpire c)"

text \<open>The renewal script; the release script is \<^const>\<open>compare_and_delete\<close>.\<close>

definition compare_and_expire ::
  "('r \<Rightarrow> string \<Rightarrow> string option) \<Rightarrow> ('r \<Rightarrow> string \<Rightarrow> int \<Rightarrow> 'r) \<Rightarrow> 'r \<Rightarrow> string \<Rightarrow> string \<Rightarrow> int \<Rightarrow> 'r \<times> bool" where
  "compare_and_expire get pexpire r k token ttl = (if get r k = Some token then (pexpire r k ttl, True) else (r, False))"

text \<open>A value holds a key from an instant until another.\<close>

definition leased ::
  "(int \<Rightarrow> 'r \<Rightarrow> string \<Rightarrow> string option) \<Rightarrow> string \<Rightarrow> string \<Rightarrow> int \<Rightarrow> int \<Rightarrow> 'r \<Rightarrow> bool" where
  "leased get k v t u r = (\<forall>t'. t \<le> t' \<and> t' < u \<longrightarrow> get t' r k = Some v)"

context lease_store
begin

lemma leased_nx: "set_nx t r k v ttl = Some r' \<Longrightarrow> leased get k v t (t + ttl) r'"
  by (simp add: leased_def nx_get)

lemma leased_later: "leased get k v t u r \<Longrightarrow> t \<le> t' \<Longrightarrow> leased get k v t' u r"
  by (simp add: leased_def)

lemma leased_blocks: "leased get k v t u r \<Longrightarrow> t \<le> t' \<Longrightarrow> t' < u \<Longrightarrow> set_nx t' r k v' ttl = None"
  using nx_absent by (cases "set_nx t' r k v' ttl") (fastforce simp: leased_def)+

lemma leased_other_nx:
  assumes "leased get k v t u r" "t \<le> t'" "t' < u" "set_nx t' r k' v' ttl = Some r'"
  shows "leased get k v t' u r'"
proof -
  have "k' \<noteq> k" using leased_blocks[OF assms(1-3)] assms(4) by auto
  then show ?thesis using assms nx_frame[OF assms(4)] by (simp add: leased_def)
qed

lemma leased_other_release:
  assumes "leased get k v t u r" "t \<le> t'" "k' \<noteq> k \<or> v' \<noteq> v" "t' < u"
  shows "leased get k v t' u (fst (compare_and_delete (get t') (del t') r k' v'))"
  using assms del_frame by (cases "k' = k") (auto simp: compare_and_delete_def leased_def)

lemma leased_other_renew:
  assumes "leased get k v t u r" "t \<le> t'" "k' \<noteq> k \<or> v' \<noteq> v" "t' < u"
  shows "leased get k v t' u (fst (compare_and_expire (get t') (pexpire t') r k' v' ttl))"
  using assms pexpire_frame by (cases "k' = k") (auto simp: compare_and_expire_def leased_def)

lemma leased_renew:
  assumes "leased get k v t u r" "t \<le> t'" "t' < u"
  shows "snd (compare_and_expire (get t') (pexpire t') r k v ttl)
    \<and> leased get k v t' (t' + ttl) (fst (compare_and_expire (get t') (pexpire t') r k v ttl))"
proof -
  have "get t' r k = Some v" using assms by (simp add: leased_def)
  then show ?thesis using pexpire_get by (simp add: compare_and_expire_def leased_def)
qed

lemma leased_release:
  assumes "leased get k v t u r" "t \<le> t'" "t' < u"
  shows "snd (compare_and_delete (get t') (del t') r k v)
    \<and> get t' (fst (compare_and_delete (get t') (del t') r k v)) k = None"
  using assms del_get by (simp add: compare_and_delete_def leased_def)

end

section \<open>Acquisition\<close>

record LockOptions =
  o_ttlMs :: "int option"
  o_retryCount :: "int option"
  o_retryDelayMs :: "int option"
  o_heartbeatIntervalMs :: "int option"

definition getWalletLockKey :: "string \<Rightarrow> string" where
  "getWalletLockKey walletId = ''lock:wallet:'' @ walletId"

text \<open>The n-th attempt: its time, whether the command throws, and what other clients did before it.\<close>

record 'r attempt =
  at_time :: int
  at_broken :: bool
  at_others :: "'r \<Rightarrow> 'r"

text \<open>Redis refuses a time to live that is not positive.\<close>

definition try_lock :: "'r lease_redis \<Rightarrow> 'r attempt \<Rightarrow> string \<Rightarrow> string \<Rightarrow> int \<Rightarrow> 'r \<Rightarrow> 'r option" where
  "try_lock c a key v ttl r = (if at_broken a \<or> ttl \<le> 0 then None else lr_set_nx c (at_time a) r key v ttl)"

fun acquire_loop ::
  "'r lease_redis \<Rightarrow> (nat \<Rightarrow> 'r attempt) \<Rightarrow> string \<Rightarrow> string \<Rightarrow> int \<Rightarrow> nat \<Rightarrow> nat \<Rightarrow> 'r \<Rightarrow> nat option \<times> 'r" where
  "acquire_loop c env key v ttl i 0 r = (None, r)"
| "acquire_loop c env key v ttl i (Suc n) r =
     (let r1 = at_others (env i) r in
      case try_lock c (env i) key v ttl r1 of
        Some r2 \<Rightarrow> (Some i, r2)
      | None \<Rightarrow> acquire_loop c env key v ttl (Suc i) n r1)"

definition attempts_of :: "int \<Rightarrow> nat" where
  "attempts_of retries = nat (retries + 1)"

section \<open>The short lock\<close>

record WalletLock =
  wl_key :: string
  wl_value :: string
  wl_ttlMs :: int

definition lockValue :: "nat \<Rightarrow> nat \<Rightarrow> string \<Rightarrow> string" where
  "lockValue pid now rnd = nat_str pid @ ''-'' @ nat_str now @ ''-'' @ rnd"

definition DEFAULT_TTL_MS :: int where "DEFAULT_TTL_MS = 30000"

definition or_default :: "'a option \<Rightarrow> 'a \<Rightarrow> 'a" where
  "or_default x d = (case x of Some y \<Rightarrow> y | None \<Rightarrow> d)"

definition acquireWalletLock ::
  "'r lease_redis \<Rightarrow> (nat \<Rightarrow> 'r attempt) \<Rightarrow> string \<Rightarrow> LockOptions \<Rightarrow> string \<Rightarrow> 'r \<Rightarrow> WalletLock option \<times> 'r" where
  "acquireWalletLock c env walletId opts v r =
     (let ttl = or_default (o_ttlMs opts) DEFAULT_TTL_MS; key = getWalletLockKey walletId in
      case acquire_loop c env key v ttl 0 (attempts_of (or_default (o_retryCount opts) 0)) r of
        (Some _, r') \<Rightarrow> (Some \<lparr>wl_key = key, wl_value = v, wl_ttlMs = ttl\<rparr>, r')
      | (None, r') \<Rightarrow> (None, r'))"

definition releaseWalletLock :: "'r lease_redis \<Rightarrow> int \<Rightarrow> bool \<Rightarrow> WalletLock option \<Rightarrow> 'r \<Rightarrow> bool \<times> 'r" where
  "releaseWalletLock c now broken lock r =
     (case lock of
        None \<Rightarrow> (False, r)
      | Some l \<Rightarrow>
          if broken then (False, r)
          else (case compare_and_delete (lr_get c now) (lr_del c now) r (wl_key l) (wl_value l) of (r', ok) \<Rightarrow> (ok, r')))"

text \<open>The protected function returns or throws, and takes its time; other clients may act meanwhile.\<close>

definition withWalletLock ::
  "'r lease_redis \<Rightarrow> (nat \<Rightarrow> 'r attempt) \<Rightarrow> string \<Rightarrow> ('r \<Rightarrow> ('e + 'a) \<times> 'r) \<Rightarrow> LockOptions \<Rightarrow> string \<Rightarrow> int \<Rightarrow> bool \<Rightarrow>
     'r \<Rightarrow> ('e + 'a option) \<times> 'r" where
  "withWalletLock c env walletId fn opts v releaseAt releaseBroken r =
     (case acquireWalletLock c env walletId opts v r of
        (None, r1) \<Rightarrow> (Inr None, r1)
      | (Some lock, r1) \<Rightarrow>
          (case fn r1 of
             (res, r2) \<Rightarrow> (map_sum id Some res, snd (releaseWalletLock c releaseAt releaseBroken (Some lock) r2))))"

section \<open>The lease with a heartbeat\<close>

record DistributedLock =
  dl_walletId :: string
  dl_key :: string
  dl_value :: string
  dl_ttlMs :: int
  dl_heartbeatIntervalMs :: int
  dl_heartbeatTimer :: "int option"
  isReleased :: bool

definition LEASE_TTL_MS :: int where "LEASE_TTL_MS = 15000"

text \<open>The timer is the time at which the heartbeat is due.\<close>

definition startHeartbeat :: "int \<Rightarrow> DistributedLock \<Rightarrow> DistributedLock" where
  "startHeartbeat now l = l\<lparr>dl_heartbeatTimer := Some (now + dl_heartbeatIntervalMs l)\<rparr>"

definition stopHeartbeat :: "DistributedLock \<Rightarrow> DistributedLock" where
  "stopHeartbeat l = l\<lparr>dl_heartbeatTimer := None\<rparr>"

definition newDistributedLock ::
  "int \<Rightarrow> string \<Rightarrow> string \<Rightarrow> string \<Rightarrow> int \<Rightarrow> int option \<Rightarrow> DistributedLock" where
  "newDistributedLock now walletId key v ttl hb = startHeartbeat now
     \<lparr>dl_walletId = walletId, dl_key = key, dl_value = v, dl_ttlMs = ttl,
      dl_heartbeatIntervalMs = or_default hb (max 1000 (ttl div 3)), dl_heartbeatTimer = None, isReleased = False\<rparr>"

definition active :: "DistributedLock \<Rightarrow> bool" where
  "active l = (\<not> isReleased l)"

definition renew :: "'r lease_redis \<Rightarrow> int \<Rightarrow> bool \<Rightarrow> DistributedLock \<Rightarrow> 'r \<Rightarrow> bool \<times> 'r" where
  "renew c now broken l r =
     (if isReleased l \<or> broken then (False, r)
      else (case compare_and_expire (lr_get c now) (lr_pexpire c now) r (dl_key l) (dl_value l) (dl_ttlMs l) of
              (r', ok) \<Rightarrow> (ok, r')))"

text \<open>The body of the timer, which is set again for the next interval unless it is stopped.\<close>

definition heartbeat :: "'r lease_redis \<Rightarrow> int \<Rightarrow> bool \<Rightarrow> DistributedLock \<Rightarrow> 'r \<Rightarrow> DistributedLock \<times> 'r" where
  "heartbeat c now broken l r =
     (if isReleased l then (stopHeartbeat l, r)
      else (case renew c now broken l r of
              (renewed, r') \<Rightarrow> (if renewed then startHeartbeat now l else stopHeartbeat l, r')))"

definition release :: "'r lease_redis \<Rightarrow> int \<Rightarrow> bool \<Rightarrow> DistributedLock \<Rightarrow> 'r \<Rightarrow> bool \<times> DistributedLock \<times> 'r" where
  "release c now broken l r =
     (if isReleased l then (True, l, r)
      else
        let l' = stopHeartbeat (l\<lparr>isReleased := True\<rparr>) in
        if broken then (False, l', r)
        else (case compare_and_delete (lr_get c now) (lr_del c now) r (dl_key l) (dl_value l) of
                (r', ok) \<Rightarrow> (ok, l', r')))"

section \<open>The lock manager\<close>

record DistributedLockManager =
  heap :: "DistributedLock list"
  activeLocks :: "(string, nat) jsmap"

definition newDistributedLockManager :: DistributedLockManager where
  "newDistributedLockManager = \<lparr>heap = [], activeLocks = []\<rparr>"

definition mgr_acquireWalletLock ::
  "'r lease_redis \<Rightarrow> (nat \<Rightarrow> 'r attempt) \<Rightarrow> string \<Rightarrow> LockOptions \<Rightarrow> string \<Rightarrow> DistributedLockManager \<Rightarrow> 'r \<Rightarrow>
     DistributedLock option \<times> DistributedLockManager \<times> 'r" where
  "mgr_acquireWalletLock c env walletId opts v m r =
     (let ttl = or_default (o_ttlMs opts) LEASE_TTL_MS; key = getWalletLockKey walletId in
      case acquire_loop c env key v ttl 0 (attempts_of (or_default (o_retryCount opts) 0)) r of
        (Some i, r') \<Rightarrow>
          (let l = newDistributedLock (at_time (env i)) walletId key v ttl (o_heartbeatIntervalMs opts) in
           (Some l, m\<lparr>heap := heap m @ [l], activeLocks := AList.update walletId (length (heap m)) (activeLocks m)\<rparr>, r'))
      | (None, r') \<Rightarrow> (None, m, r'))"

definition release_object ::
  "'r lease_redis \<Rightarrow> int \<Rightarrow> bool \<Rightarrow> nat \<Rightarrow> DistributedLockManager \<Rightarrow> 'r \<Rightarrow> bool \<times> DistributedLockManager \<times> 'r" where
  "release_object c now broken i m r =
     (case release c now broken (heap m ! i) r of (ok, l, r') \<Rightarrow> (ok, m\<lparr>heap := (heap m)[i := l]\<rparr>, r'))"

definition mgr_releaseWalletLock ::
  "'r lease_redis \<Rightarrow> int \<Rightarrow> bool \<Rightarrow> string \<Rightarrow> DistributedLockManager \<Rightarrow> 'r \<Rightarrow> bool \<times> DistributedLockManager \<times> 'r" where
  "mgr_releaseWalletLock c now broken walletId m r =
     (case map_of (activeLocks m) walletId of
        None \<Rightarrow> (False, m, r)
      | Some i \<Rightarrow> release_object c now broken i (m\<lparr>activeLocks := AList.delete walletId (activeLocks m)\<rparr>) r)"

fun release_objects ::
  "'r lease_redis \<Rightarrow> int \<Rightarrow> (nat \<Rightarrow> bool) \<Rightarrow> nat list \<Rightarrow> DistributedLockManager \<Rightarrow> 'r \<Rightarrow> DistributedLockManager \<times> 'r" where
  "release_objects c now broken [] m r = (m, r)"
| "release_objects c now broken (i # is) m r =
     (case release_object c now (broken i) i m r of (_, m', r') \<Rightarrow> release_objects c now broken is m' r')"

definition releaseAll :: "'r lease_redis \<Rightarrow> int \<Rightarrow> (nat \<Rightarrow> bool) \<Rightarrow> DistributedLockManager \<Rightarrow> 'r \<Rightarrow> DistributedLockManager \<times> 'r" where
  "releaseAll c now broken m r = release_objects c now broken (map snd (activeLocks m)) (m\<lparr>activeLocks := []\<rparr>) r"

definition getActiveLocksCount :: "DistributedLockManager \<Rightarrow> nat" where
  "getActiveLocksCount m = length (activeLocks m)"

definition isWalletLockedByThisWorker :: "string \<Rightarrow> DistributedLockManager \<Rightarrow> bool" where
  "isWalletLockedByThisWorker walletId m =
     (case map_of (activeLocks m) walletId of Some i \<Rightarrow> active (heap m ! i) | None \<Rightarrow> False)"

definition mgr_heartbeat ::
  "'r lease_redis \<Rightarrow> int \<Rightarrow> bool \<Rightarrow> nat \<Rightarrow> DistributedLockManager \<Rightarrow> 'r \<Rightarrow> DistributedLockManager \<times> 'r" where
  "mgr_heartbeat c now broken i m r =
     (case heartbeat c now broken (heap m ! i) r of (l, r') \<Rightarrow> (m\<lparr>heap := (heap m)[i := l]\<rparr>, r'))"

section \<open>A store with deadlines\<close>

text \<open>The documented meaning of the commands on a map with deadlines satisfies the contract.\<close>

type_synonym lease_map = "string \<Rightarrow> (string \<times> int) option"

definition lm_get :: "int \<Rightarrow> lease_map \<Rightarrow> string \<Rightarrow> string option" where
  "lm_get t m k = (case m k of Some (v, u) \<Rightarrow> if t < u then Some v else None | None \<Rightarrow> None)"

definition lm_set_nx :: "int \<Rightarrow> lease_map \<Rightarrow> string \<Rightarrow> string \<Rightarrow> int \<Rightarrow> lease_map option" where
  "lm_set_nx t m k v ttl = (if lm_get t m k = None then Some (m(k \<mapsto> (v, t + ttl))) else None)"

definition lm_del :: "int \<Rightarrow> lease_map \<Rightarrow> string \<Rightarrow> lease_map" where
  "lm_del t m k = m(k := None)"

definition lm_pexpire :: "int \<Rightarrow> lease_map \<Rightarrow> string \<Rightarrow> int \<Rightarrow> lease_map" where
  "lm_pexpire t m k ttl = (case lm_get t m k of Some v \<Rightarrow> m(k \<mapsto> (v, t + ttl)) | None \<Rightarrow> m)"

interpretation map_leases: lease_store lm_get lm_set_nx lm_del lm_pexpire
  by unfold_locales (auto simp: lm_get_def lm_set_nx_def lm_del_def lm_pexpire_def split: option.splits if_splits)

definition map_redis :: "lease_map lease_redis" where
  "map_redis = \<lparr>lr_get = lm_get, lr_set_nx = lm_set_nx, lr_del = lm_del, lr_pexpire = lm_pexpire\<rparr>"

lemma map_redis_contract: "lease_contract map_redis"
  using map_leases.lease_store_axioms by (simp add: lease_contract_def map_redis_def)

section \<open>Exclusion\<close>

text \<open>What other clients of the locks send to Redis.\<close>

datatype peer_cmd = Peer_set string string int | Peer_release string string | Peer_renew string string int

fun peer_token :: "peer_cmd \<Rightarrow> string" where
  "peer_token (Peer_set k v ttl) = v"
| "peer_token (Peer_release k v) = v"
| "peer_token (Peer_renew k v ttl) = v"

fun peer_exec :: "'r lease_redis \<Rightarrow> int \<Rightarrow> peer_cmd \<Rightarrow> 'r \<Rightarrow> 'r \<times> bool" where
  "peer_exec c t (Peer_set k v ttl) r = (case lr_set_nx c t r k v ttl of Some r' \<Rightarrow> (r', True) | None \<Rightarrow> (r, False))"
| "peer_exec c t (Peer_release k v) r = compare_and_delete (lr_get c t) (lr_del c t) r k v"
| "peer_exec c t (Peer_renew k v ttl) r = compare_and_expire (lr_get c t) (lr_pexpire c t) r k v ttl"

lemma peer_keeps_lease:
  assumes "lease_contract c" "leased (lr_get c) k v t u r" "t \<le> t'" "t' < u" "peer_token p \<noteq> v"
  shows "leased (lr_get c) k v t' u (fst (peer_exec c t' p r)) \<and> (\<forall>v' ttl. p = Peer_set k v' ttl \<longrightarrow> \<not> snd (peer_exec c t' p r))"
proof -
  note s = assms(1)[unfolded lease_contract_def]
  show ?thesis
  proof (cases p)
    case (Peer_set k' v' ttl)
    show ?thesis
    proof (cases "lr_set_nx c t' r k' v' ttl")
      case None
      then show ?thesis using Peer_set lease_store.leased_later[OF s assms(2,3)] by auto
    next
      case (Some r')
      then have "k' \<noteq> k" using lease_store.leased_blocks[OF s assms(2-4)] by auto
      then show ?thesis using Peer_set Some lease_store.leased_other_nx[OF s assms(2-4) Some] by simp
    qed
  next
    case (Peer_release k' v')
    then show ?thesis using lease_store.leased_other_release[OF s assms(2,3) _ assms(4)] assms(5) by simp
  next
    case (Peer_renew k' v' ttl)
    then show ?thesis using lease_store.leased_other_renew[OF s assms(2,3) _ assms(4)] assms(5) by simp
  qed
qed

text \<open>A run of a lock: its timer fires, or another client sends a command.\<close>

datatype lock_event = Beat | Peer peer_cmd

fun lock_run ::
  "'r lease_redis \<Rightarrow> DistributedLock \<Rightarrow> 'r \<Rightarrow> (int \<times> lock_event) list \<Rightarrow>
     (peer_cmd \<times> bool) list \<times> DistributedLock \<times> 'r" where
  "lock_run c l r [] = ([], l, r)"
| "lock_run c l r ((t, Beat) # es) = (case heartbeat c t False l r of (l', r') \<Rightarrow> lock_run c l' r' es)"
| "lock_run c l r ((t, Peer p) # es) =
     (case peer_exec c t p r of (r', ok) \<Rightarrow> (case lock_run c l r' es of (log, l2, r2) \<Rightarrow> ((p, ok) # log, l2, r2)))"

text \<open>No event is later than the delay of the timers allows: a due heartbeat comes first.\<close>

fun punctual :: "int \<Rightarrow> int \<Rightarrow> int \<Rightarrow> (int \<times> lock_event) list \<Rightarrow> int \<Rightarrow> bool" where
  "punctual interval delay due [] end_at = (end_at \<le> due + delay)"
| "punctual interval delay due ((t, e) # es) end_at =
     (t \<le> due + delay \<and> punctual interval delay (case e of Beat \<Rightarrow> t + interval | Peer _ \<Rightarrow> due) es end_at)"

definition lock_live :: "'r lease_redis \<Rightarrow> DistributedLock \<Rightarrow> int \<Rightarrow> int \<Rightarrow> 'r \<Rightarrow> bool" where
  "lock_live c l t due r \<longleftrightarrow> \<not> isReleased l \<and> dl_heartbeatTimer l = Some due
     \<and> leased (lr_get c) (dl_key l) (dl_value l) t (due - dl_heartbeatIntervalMs l + dl_ttlMs l) r"

lemma lock_live_heartbeat:
  assumes "lease_contract c" "lock_live c l t due r" "t \<le> t'" "t' < due - dl_heartbeatIntervalMs l + dl_ttlMs l"
  shows "\<exists>r'. heartbeat c t' False l r = (startHeartbeat t' l, r')
    \<and> lock_live c (startHeartbeat t' l) t' (t' + dl_heartbeatIntervalMs l) r'"
proof -
  have "leased (lr_get c) (dl_key l) (dl_value l) t (due - dl_heartbeatIntervalMs l + dl_ttlMs l) r"
    using assms(2) by (simp add: lock_live_def)
  from lease_store.leased_renew[OF assms(1)[unfolded lease_contract_def] this assms(3,4), of "dl_ttlMs l"]
  show ?thesis using assms(2)
    by (auto simp: heartbeat_def renew_def lock_live_def startHeartbeat_def split: prod.splits)
qed

lemma lock_run_live:
  assumes "lease_contract c" "lock_live c l t due r" "sorted (t # map fst es @ [end_at])"
    and "punctual (dl_heartbeatIntervalMs l) delay due es end_at" "dl_heartbeatIntervalMs l + delay < dl_ttlMs l"
    and "\<forall>p. Peer p \<in> snd ` set es \<longrightarrow> peer_token p \<noteq> dl_value l"
    and "lock_run c l r es = (log, l2, r2)"
  shows "(\<forall>v' ttl. (Peer_set (dl_key l) v' ttl, True) \<notin> set log)
    \<and> (\<exists>due2. lock_live c l2 end_at due2 r2 \<and> end_at \<le> due2 + delay)
    \<and> dl_key l2 = dl_key l \<and> dl_value l2 = dl_value l
    \<and> dl_ttlMs l2 = dl_ttlMs l \<and> dl_heartbeatIntervalMs l2 = dl_heartbeatIntervalMs l"
  using assms(2-)
proof (induction es arbitrary: l t due r log)
  case Nil
  then show ?case
    by (auto simp: lock_live_def intro: lease_store.leased_later[OF assms(1)[unfolded lease_contract_def]])
next
  case (Cons e es)
  obtain t' a where e: "e = (t', a)" by (cases e)
  have t': "t \<le> t'" "t' \<le> due + delay" "sorted (t' # map fst es @ [end_at])" using Cons.prems(2,3) e by auto
  have before: "t' < due - dl_heartbeatIntervalMs l + dl_ttlMs l" using t'(2) Cons.prems(4) by linarith
  show ?case
  proof (cases a)
    case Beat
    obtain r' where h: "heartbeat c t' False l r = (startHeartbeat t' l, r')"
      "lock_live c (startHeartbeat t' l) t' (t' + dl_heartbeatIntervalMs l) r'"
      using lock_live_heartbeat[OF assms(1) Cons.prems(1) t'(1) before] by blast
    show ?thesis
      using Cons.IH[OF h(2), of log] Cons.prems t'(3) e Beat h(1) by (auto simp: startHeartbeat_def)
  next
    case (Peer p)
    have tok: "peer_token p \<noteq> dl_value l" using Cons.prems(5) e Peer by auto
    obtain r' ok where p: "peer_exec c t' p r = (r', ok)" by (cases "peer_exec c t' p r")
    obtain log' where run: "lock_run c l r' es = (log', l2, r2)" "log = (p, ok) # log'"
      using Cons.prems(6) e Peer p by (auto split: prod.splits)
    have lease: "leased (lr_get c) (dl_key l) (dl_value l) t (due - dl_heartbeatIntervalMs l + dl_ttlMs l) r"
      using Cons.prems(1) by (simp add: lock_live_def)
    have k: "leased (lr_get c) (dl_key l) (dl_value l) t' (due - dl_heartbeatIntervalMs l + dl_ttlMs l) r'"
      "\<forall>v' ttl. p = Peer_set (dl_key l) v' ttl \<longrightarrow> \<not> ok"
      using peer_keeps_lease[OF assms(1) lease t'(1) before tok] p by auto
    have live: "lock_live c l t' due r'" using Cons.prems(1) k(1) by (simp add: lock_live_def)
    show ?thesis using Cons.IH[OF live t'(3), of log'] Cons.prems(3-5) e Peer run k(2) by auto
  qed
qed

lemma mgr_acquired:
  assumes "mgr_acquireWalletLock c env w opts v m r = (Some l, m', r')" "lease_contract c"
  shows "dl_key l = getWalletLockKey w \<and> dl_value l = v \<and> (\<exists>due. lock_live c l (due - dl_heartbeatIntervalMs l) due r')"
proof -
  let ?k = "getWalletLockKey w" and ?ttl = "or_default (o_ttlMs opts) LEASE_TTL_MS"
  have loop: "leased (lr_get c) ?k v (at_time (env i)) (at_time (env i) + ttl) r2"
    if "acquire_loop c env ?k v ttl j n r0 = (Some i, r2)" for i j n ttl r0 r2
    using that lease_store.leased_nx[OF assms(2)[unfolded lease_contract_def]]
    by (induction n arbitrary: j r0) (auto simp: Let_def try_lock_def split: option.splits if_splits)
  obtain i where i: "acquire_loop c env ?k v ?ttl 0 (attempts_of (or_default (o_retryCount opts) 0)) r = (Some i, r')"
    "l = newDistributedLock (at_time (env i)) w ?k v ?ttl (o_heartbeatIntervalMs opts)"
    using assms(1) by (auto simp: mgr_acquireWalletLock_def Let_def split: prod.splits option.splits)
  show ?thesis using loop[OF i(1)] i(2) by (auto simp: newDistributedLock_def startHeartbeat_def lock_live_def)
qed

text \<open>C8. The lock of a wallet is exclusive as long as its heartbeat is punctual: from its acquisition on, whatever
  other workers set, renew or release with their own values, none of them sets the key of the wallet; the
  lock stays active and renewed, and a release at the end removes the key. Timers may be late, as long as
  the interval of the heartbeat and the delay stay below the time to live.\<close>

theorem held_lock_is_exclusive:
  assumes "lease_contract c" "mgr_acquireWalletLock c env w opts v m r = (Some l, m', r1)"
    and "dl_heartbeatTimer l = Some due" "dl_heartbeatIntervalMs l + delay < dl_ttlMs l"
    and "sorted ((due - dl_heartbeatIntervalMs l) # map fst es @ [end_at])"
    and "punctual (dl_heartbeatIntervalMs l) delay due es end_at"
    and "\<forall>p. Peer p \<in> snd ` set es \<longrightarrow> peer_token p \<noteq> v"
    and "lock_run c l r1 es = (log, l2, r2)"
  shows "(\<forall>v' ttl. (Peer_set (getWalletLockKey w) v' ttl, True) \<notin> set log) \<and> active l2
    \<and> lr_get c end_at r2 (getWalletLockKey w) = Some v
    \<and> (case release c end_at False l2 r2 of (ok, l3, r3) \<Rightarrow>
         ok \<and> \<not> active l3 \<and> dl_heartbeatTimer l3 = None \<and> lr_get c end_at r3 (getWalletLockKey w) = None)"
proof -
  let ?k = "getWalletLockKey w"
  have a: "dl_key l = ?k" "dl_value l = v" "lock_live c l (due - dl_heartbeatIntervalMs l) due r1"
    using mgr_acquired[OF assms(2,1)] assms(3) by (auto simp: lock_live_def)
  from lock_run_live[OF assms(1) a(3) assms(5,6,4) _ assms(8)] assms(7) a
  obtain due2 where run: "\<forall>v' ttl. (Peer_set ?k v' ttl, True) \<notin> set log" "lock_live c l2 end_at due2 r2"
    "end_at \<le> due2 + delay" "dl_key l2 = ?k" "dl_value l2 = v" "dl_ttlMs l2 = dl_ttlMs l"
    "dl_heartbeatIntervalMs l2 = dl_heartbeatIntervalMs l"
    by auto
  have lease: "leased (lr_get c) ?k v end_at (due2 - dl_heartbeatIntervalMs l + dl_ttlMs l) r2"
    using run by (simp add: lock_live_def)
  have inside: "end_at < due2 - dl_heartbeatIntervalMs l + dl_ttlMs l" using run(3) assms(4) by linarith
  have "\<not> isReleased l2" using run(2) by (simp add: lock_live_def)
  then show ?thesis
    using run(1,4,5) lease inside lease_store.leased_release[OF assms(1)[unfolded lease_contract_def] lease order_refl inside]
    by (auto simp: release_def active_def stopHeartbeat_def Let_def leased_def split: prod.splits)
qed

text \<open>A peer tries to set the key between two heartbeats.\<close>

definition at_once :: "int \<Rightarrow> nat \<Rightarrow> 'r attempt" where
  "at_once t n = \<lparr>at_time = t, at_broken = False, at_others = id\<rparr>"

definition default_lock_options :: LockOptions where
  "default_lock_options = \<lparr>o_ttlMs = None, o_retryCount = None, o_retryDelayMs = None, o_heartbeatIntervalMs = None\<rparr>"

theorem held_lock_is_exclusive_witness:
  "let es = [(5000, Beat), (9000, Peer (Peer_set ''lock:wallet:w'' ''b'' 30000)), (10000, Beat),
       (16000, Peer (Peer_set ''lock:wallet:w'' ''b'' 30000))] in
   case mgr_acquireWalletLock map_redis (at_once 0) ''w'' default_lock_options ''a'' newDistributedLockManager Map.empty of
     (Some l, _, r) \<Rightarrow> (case lock_run map_redis l r es of
        (log, l2, r2) \<Rightarrow> map snd log = [False, False] \<and> active l2 \<and> lr_get map_redis 17000 r2 ''lock:wallet:w'' = Some ''a'')
   | (None, _, _) \<Rightarrow> False"
proof -
  let ?es = "[(5000, Beat), (9000, Peer (Peer_set ''lock:wallet:w'' ''b'' 30000)), (10000, Beat),
       (16000, Peer (Peer_set ''lock:wallet:w'' ''b'' 30000))]"
  let ?l = "newDistributedLock 0 ''w'' ''lock:wallet:w'' ''a'' 15000 None"
  let ?r = "[''lock:wallet:w'' \<mapsto> (''a'', 15000)]"
  obtain m' where acq: "mgr_acquireWalletLock map_redis (at_once 0) ''w'' default_lock_options ''a'' newDistributedLockManager Map.empty = (Some ?l, m', ?r)"
    by (simp add: mgr_acquireWalletLock_def default_lock_options_def or_default_def LEASE_TTL_MS_def attempts_of_def at_once_def
        try_lock_def map_redis_def lm_set_nx_def lm_get_def getWalletLockKey_def Let_def)
  obtain log l2 r2 where run: "lock_run map_redis ?l ?r ?es = (log, l2, r2)" by (cases "lock_run map_redis ?l ?r ?es")
  have log: "map fst log = [Peer_set ''lock:wallet:w'' ''b'' 30000, Peer_set ''lock:wallet:w'' ''b'' 30000]"
    using run by (auto split: prod.splits)
  have l: "dl_heartbeatTimer ?l = Some 5000" "dl_heartbeatIntervalMs ?l = 5000" "dl_ttlMs ?l = 15000"
    by (simp_all add: newDistributedLock_def startHeartbeat_def or_default_def)
  have h: "(\<forall>v' ttl. (Peer_set (getWalletLockKey ''w'') v' ttl, True) \<notin> set log) \<and> active l2
      \<and> lr_get map_redis 17000 r2 (getWalletLockKey ''w'') = Some ''a''"
    using held_lock_is_exclusive [OF map_redis_contract acq l(1), of 9000 ?es 17000, OF _ _ _ _ run] l(2,3) by simp
  then have "map snd log = [False, False]" using log by (auto simp: getWalletLockKey_def map_eq_Cons_conv)
  then show ?thesis using h unfolding Let_def acq prod.case option.case run getWalletLockKey_def by simp
qed

section \<open>Acquisition under a lease\<close>

text \<open>While a value holds the key of a wallet, the short lock of the same wallet is not acquired, however often
  it is tried, and the protected function does not run. The key is the same for both locks, so this also
  holds between a worker's own lease and its own transactions.\<close>

definition others_respect ::
  "'r lease_redis \<Rightarrow> (nat \<Rightarrow> 'r attempt) \<Rightarrow> string \<Rightarrow> string \<Rightarrow> int \<Rightarrow> bool" where
  "others_respect c env k v u \<longleftrightarrow> (\<forall>i s r. s \<le> at_time (env i) \<longrightarrow> leased (lr_get c) k v s u r \<longrightarrow>
     leased (lr_get c) k v (at_time (env i)) u (at_others (env i) r))"

lemma acquire_loop_blocked:
  assumes "lease_contract c" "others_respect c env k v' u" "leased (lr_get c) k v' t u r" "t \<le> at_time (env i)"
    and "\<And>n. at_time (env n) \<le> at_time (env (Suc n)) \<and> at_time (env n) < u"
  shows "fst (acquire_loop c env k v ttl i n r) = None"
  using assms(3,4)
proof (induction n arbitrary: i t r)
  case (Suc n)
  let ?t = "at_time (env i)" and ?r = "at_others (env i) r"
  have l: "leased (lr_get c) k v' ?t u ?r" using Suc.prems assms(2) by (simp add: others_respect_def)
  then have "lr_set_nx c ?t ?r k v ttl = None"
    using lease_store.leased_blocks[OF assms(1)[unfolded lease_contract_def] l order_refl] assms(5) by blast
  then show ?case using Suc.IH[OF l] assms(5) by (simp add: try_lock_def Let_def)
qed simp

lemma held_lock_blocks_short_lock:
  assumes "lease_contract c" "others_respect c env (getWalletLockKey w) v' u"
    and "leased (lr_get c) (getWalletLockKey w) v' t u r" "t \<le> at_time (env 0)"
    and "\<And>n. at_time (env n) \<le> at_time (env (Suc n)) \<and> at_time (env n) < u"
  shows "fst (withWalletLock c env w fn opts v rel broken r) = Inr None"
  using acquire_loop_blocked[OF assms, of v _]
  by (auto simp: withWalletLock_def acquireWalletLock_def Let_def split: prod.splits option.splits)
    (metis fst_conv option.distinct(1))

text \<open>Whether the function returns or throws, the key is not left with the value of the call.\<close>

lemma short_lock_is_released:
  assumes "lease_contract c" "acquireWalletLock c env w opts v r = (Some lock, r1)" "fn r1 = (res, r2)"
  shows "withWalletLock c env w fn opts v t False r = (map_sum id Some res,
      snd (releaseWalletLock c t False (Some lock) r2))
    \<and> lr_get c t (snd (releaseWalletLock c t False (Some lock) r2)) (getWalletLockKey w) \<noteq> Some v"
proof -
  have "wl_key lock = getWalletLockKey w" "wl_value lock = v"
    using assms(2) by (auto simp: acquireWalletLock_def Let_def split: prod.splits option.splits)
  then show ?thesis using assms(2,3) lease_store.del_get[OF assms(1)[unfolded lease_contract_def], of t t r2]
    by (auto simp: withWalletLock_def releaseWalletLock_def compare_and_delete_def)
qed

section \<open>Lost leases\<close>

text \<open>With a time to live of less than a second the first heartbeat of the default interval comes too late.\<close>

lemma short_lease_lapses:
  assumes "lease_contract c" "ttl < 1000" "lr_set_nx c t r k v ttl = Some r'"
    and "l = newDistributedLock t w k v ttl None" "dl_heartbeatTimer l = Some due"
  shows "heartbeat c due False l r' = (stopHeartbeat l, r')"
proof -
  have "due = t + 1000" using assms(2,4,5) by (simp add: newDistributedLock_def startHeartbeat_def or_default_def)
  then have "lr_get c due r' k = None"
    using lease_store.nx_expired[OF assms(1)[unfolded lease_contract_def] assms(3)] assms(2) by simp
  then show ?thesis using assms(4)
    by (simp add: heartbeat_def renew_def compare_and_expire_def newDistributedLock_def startHeartbeat_def)
qed

text \<open>A worker whose lease was lost keeps reporting the wallet as locked.\<close>

lemma lost_lock_counts_as_held:
  assumes "map_of (activeLocks m) w = Some i" "i < length (heap m)" "\<not> isReleased (heap m ! i)"
    and "lr_get c t r (dl_key (heap m ! i)) \<noteq> Some (dl_value (heap m ! i))"
  shows "isWalletLockedByThisWorker w (fst (mgr_heartbeat c t False i m r))
    \<and> dl_heartbeatTimer (heap (fst (mgr_heartbeat c t False i m r)) ! i) = None"
  using assms by (simp add: mgr_heartbeat_def heartbeat_def renew_def compare_and_expire_def
      isWalletLockedByThisWorker_def stopHeartbeat_def active_def)

section \<open>Release of all locks\<close>

text \<open>At shutdown every lock that the manager knows is released.\<close>

definition lock_gone :: "'r lease_redis \<Rightarrow> int \<Rightarrow> DistributedLock \<Rightarrow> 'r \<Rightarrow> bool" where
  "lock_gone c t l r \<longleftrightarrow> lr_get c t r (dl_key l) \<noteq> Some (dl_value l)"

lemma release_object_frees:
  assumes "lease_contract c" "release_object c t False i m r = (ok, m', r')" "i < length (heap m)"
  shows "isReleased (heap m' ! i)" "length (heap m') = length (heap m)" "j \<noteq> i \<Longrightarrow> heap m' ! j = heap m ! j"
    and "activeLocks m' = activeLocks m" "isReleased (heap m ! i) \<or> lock_gone c t (heap m ! i) r'"
    and "lock_gone c t l r \<Longrightarrow> lock_gone c t l r'"
  using assms lease_store.del_get[OF assms(1)[unfolded lease_contract_def], of t t]
    lease_store.del_frame[OF assms(1)[unfolded lease_contract_def], of t t "dl_key l"]
  by (auto simp: release_object_def release_def stopHeartbeat_def compare_and_delete_def lock_gone_def Let_def
      split: prod.splits if_splits) (metis option.distinct(1))

lemma release_objects_free:
  assumes "lease_contract c" "release_objects c t (\<lambda>_. False) is m r = (m', r')" "\<forall>i \<in> set is. i < length (heap m)"
  shows "activeLocks m' = activeLocks m \<and> (\<forall>l. lock_gone c t l r \<longrightarrow> lock_gone c t l r')
    \<and> (\<forall>j < length (heap m). isReleased (heap m ! j) \<longrightarrow> isReleased (heap m' ! j))
    \<and> (\<forall>i \<in> set is. isReleased (heap m' ! i) \<and> (isReleased (heap m ! i) \<or> lock_gone c t (heap m ! i) r'))"
  using assms(2,3)
proof (induction "is" arbitrary: m r)
  case (Cons n ns)
  obtain ok m1 r1 where o: "release_object c t False n m r = (ok, m1, r1)" by (cases "release_object c t False n m r")
  have n: "n < length (heap m)" using Cons.prems(2) by simp
  note f = release_object_frees[OF assms(1) o n]
  have "release_objects c t (\<lambda>_. False) ns m1 r1 = (m', r')" "\<forall>i \<in> set ns. i < length (heap m1)"
    using Cons.prems f(2) o by auto
  note ih = Cons.IH[OF this]
  have "isReleased (heap m1 ! j)" if "isReleased (heap m ! j)" for j using that f(1,3) by (cases "j = n") auto
  moreover have "isReleased (heap m ! i) \<or> lock_gone c t (heap m ! i) r'" if "i \<in> set (n # ns)" for i
  proof (cases "i = n")
    case True
    then show ?thesis using f(5) ih by blast
  next
    case False
    then show ?thesis using ih that f(3)[of i] by auto
  qed
  ultimately show ?case using ih f(1,2,4,6) n by auto
qed simp

lemma releaseAll_frees:
  assumes "lease_contract c" "releaseAll c t (\<lambda>_. False) m r = (m', r')"
    and "\<forall>i \<in> snd ` set (activeLocks m). i < length (heap m)"
  shows "getActiveLocksCount m' = 0
    \<and> (\<forall>i \<in> snd ` set (activeLocks m). \<not> active (heap m' ! i) \<and> (\<not> active (heap m ! i) \<or> lock_gone c t (heap m ! i) r'))"
  using release_objects_free[OF assms(1), of t "map snd (activeLocks m)" "m\<lparr>activeLocks := []\<rparr>" r m' r'] assms(2,3)
  by (simp add: releaseAll_def getActiveLocksCount_def active_def)

end
