(* ===== verification/Spec2Isabelle.thy ===== *)
theory Spec2Isabelle
  imports RateLimiter RateBudget RedisBreaker Reentrancy ContractRouter SignerInactivity TopicIndexer Idempotency ReadRouting StrKey Merkle ChecksumChain SimEngine CircuitBreaker BatchDispatcher WasmAnalyzer SsrfFilter Delivery WebhookSigner ReplayDefense SessionManager HorizonStream CatchUp OutboxRelay WalletLock
begin

text \<open>
  Stellar Alerts watches accounts and contracts of the Stellar network and delivers alerts on payments and
  contract events by webhook, e-mail and chat. This library models the core logic of the API server
  (\<open>src/apps/api/src\<close>) and of the shared package (\<open>src/packages/shared/src\<close>) as HOL functions and step
  relations, and proves the properties on which the program's users rely.

  \<^bold>\<open>Parts and theories.\<close>

  \<^item> \<open>Prelude\<close>: JavaScript strings, sets, maps (association lists in insertion order) and sorting, decimal
    numerals, bit arithmetic, and the locales \<open>codec\<close>, \<open>canonical_codec\<close>, \<open>inv_machine\<close> and \<open>deduper\<close>;
    \<open>Hex\<close>: bytes and hexadecimal text.
  \<^item> Addresses: \<open>StrKey\<close> (\<open>packages/shared/src/strkey.ts\<close>) decodes, validates and splits StrKey addresses. A
    string is valid exactly when it is the encoding of a payload of the right version, and every change of
    a single character is detected.
  \<^item> Tamper evidence: \<open>Merkle\<close> (\<open>packages/shared/src/merkle.ts\<close>) and \<open>ChecksumChain\<close>
    (\<open>services/checksumChain.service.ts\<close>, \<open>modules/audit/merkle.service.ts\<close>). Proofs verify and bind leaves;
    appended chains verify, a changed row is located, the tail hash commits to the history, and the daily
    root covers the payments of a day.
  \<^item> Transaction simulation (\<open>services/simulation\<close>): \<open>Sim_Types\<close>, \<open>Amounts\<close>, \<open>Footprint\<close>, \<open>Drain\<close>, \<open>Envelope\<close>,
    \<open>ContractTrust\<close>, \<open>RiskScorer\<close> and \<open>SimEngine\<close>, one theory per source file. Amounts are exact integers of
    stroops; each detector raises an indicator exactly under its condition; the score reconciles with its
    breakdown; an emptied account is scored as high risk by the whole engine.
  \<^item> Contract code: \<open>WasmAnalyzer\<close> (\<open>utils/wasm-analyzer.ts\<close>) reads LEB128 numbers on 32-bit words, sections and
    function bodies; the report on an encoded module is computed from the module.
  \<^item> Outgoing requests: \<open>IpNet\<close>, \<open>Ssrf\<close> (\<open>utils/ssrf.ts\<close>) and \<open>SsrfFilter\<close> (\<open>modules/webhooks/ssrf-filter.ts\<close>).
    Every request of the redirecting fetch goes to a validated URL, and both guards answer alike on IPv4.
  \<^item> Dispatch: \<open>CircuitBreaker\<close> (\<open>lib/circuit-breaker.ts\<close>) refines a specification by the history of outcomes;
    \<open>BatchDispatcher\<close> (\<open>modules/alerts/batch-dispatcher.ts\<close>) neither loses nor repeats events and keeps a timer
    for every buffered one.
  \<^item> Store: \<open>RedisStore\<close> (\<open>lib/redis.ts\<close>) states the contracts of Redis as the locales \<open>token_lock\<close>, \<open>nx_store\<close> and
    \<open>kv_store\<close>, and models the in-memory cache of the degraded mode, which interprets them and refines a map
    with deadlines.
  \<^item> Delivery: \<open>Delivery\<close> (\<open>lib/delivery.ts\<close>) models idempotent delivery as a step relation of any number of
    workers on shared tables and a Redis gate. While the gate is reliable a key is delivered at most once;
    every provider call has its own persisted attempt; every run ends.
  \<^item> Webhooks: \<open>NonceCache\<close> (\<open>lib/nonceCache.ts\<close>), \<open>WebhookSigner\<close> (\<open>utils/webhook-signer.ts\<close>) and
    \<open>ReplayDefense\<close> (\<open>modules/webhooks/replay-defense.ts\<close>). A webhook is accepted exactly when it carries the
    HMAC of its data in time; signed webhooks are accepted; a signature authenticates one message; a
    request passes the replay guard at most once; rotation of secrets keeps receivers working.
  \<^item> Sessions: \<open>SessionManager\<close> (\<open>lib/session-manager.ts\<close>, \<open>utils/jwt.ts\<close>). A family has one active refresh
    token; reuse is refused and revokes the family; a revoked family stays revoked.
  \<^item> Alert decisions: \<open>JsValues\<close> (untyped JSON values with JavaScript's conversions), \<open>RulesEngine\<close>
    (\<open>lib/rules-engine.ts\<close>) and \<open>AlertRules\<close> (\<open>lib/alert-rule-evaluator.ts\<close>). Typed groups of rules evaluate to
    their meaning, a persisted rule matches exactly under its conditions, and a payment is enqueued once.
  \<^item> Ledger access: \<open>HorizonPool\<close> (\<open>lib/horizon-pool.ts\<close>, \<open>types/horizon.ts\<close>) chooses among Horizon nodes by their
    failures since the last answered probe; \<open>HorizonStream\<close> is its payment stream as a machine over SDK
    callbacks and timers: one connection or a pending reconnect at any time, resumption from the last
    record dispatched, no duplicates within 10,000 records, failover on rate limits, silence after closing.
  \<^item> Ingestion: \<open>CursorRecovery\<close> (\<open>lib/cursor-recovery.ts\<close>, \<open>workers/watcher/stream-reconnect.ts\<close>) detects ledger
    gaps and bounds reconnect delays; \<open>Ingestion\<close> (\<open>workers/watcher.worker.ts\<close>, \<open>modules/outbox/outbox.service.ts\<close>,
    parts of \<open>lib/stellar.ts\<close> and \<open>lib/queue.ts\<close>) processes a record: the transaction with payment, outbox
    events and cursor, and the effects after it. Cursors never move back and every payment has its events;
    \<open>CatchUp\<close> shows that one pass over the pages of Horizon ingests the whole backlog.
  \<^item> Locks: \<open>WalletLock\<close> (\<open>lib/lock.ts\<close>, \<open>lib/redlock.ts\<close>) on the contract \<open>lease_store\<close> of Redis. A lock whose
    heartbeat is punctual excludes every other worker.
  \<^item> Outbox: \<open>OutboxRelay\<close> (\<open>workers/outbox.worker.ts\<close>) as one batch and as interleaved relays. The outbox drains,
    a row is marked only after its event was sent, and relays without crashes send an event once.
  \<^item> Limits: \<open>RateBudget\<close> (\<open>lib/rate-budget.ts\<close>), token buckets per provider and dispatch slots per wallet: what is
    granted in an interval is bounded and the slots are accounted for; \<open>RedisBreaker\<close>
    (\<open>modules/alerts/circuit-breaker.ts\<close>) on the contract \<open>counter_store\<close> of Redis: failures open the circuit of an
    endpoint, it stays open for its cooldown, and then recovers; \<open>RateLimiter\<close> (\<open>utils/rate-limiter.ts\<close>) respects the pause
    that an endpoint asks for, for at most five minutes.
  \<^item> Contract events: \<open>ContractRouter\<close> (\<open>lib/contract-router.ts\<close>, parts of \<open>lib/soroban.ts\<close>) routes each event of a subscribed
    contract to its handlers exactly once, also after failed requests; \<open>Reentrancy\<close>
    (\<open>workers/watcher/reentrancy-sentinel.ts\<close>, \<open>modules/alerts/rules/exploit-detector.rule.ts\<close>) reports exactly the call trees
    with a contract below itself.
  \<^item> Treasuries: \<open>Multisig\<close> (\<open>countMultisigSignatures\<close> of \<open>lib/stellar.ts\<close>, \<open>services/multisig-alerts.ts\<close>) collects exactly the
    weight of verified signatures and lists the proposals that need attention; \<open>SignerInactivity\<close>
    (\<open>services/signerInactivityWatcher.ts\<close>, \<open>workers/multisig-inactivity-watcher.worker.ts\<close>) reports every treasury whose
    signers can no longer reach the threshold.
  \<^item> Idempotent requests: \<open>Idempotency\<close> (\<open>middleware/idempotency.middleware.ts\<close>) on the contract of Redis. A repeated request is
    answered from the cache without running its handler, and only with a response to its own user; the
    hooks of a single route run before the authentication and do not give this.
  \<^item> Database failover: \<open>DbFailover\<close> (\<open>lib/db-failover.ts\<close>, \<open>plugins/degraded-mode.ts\<close>) as a machine over awaited calls that fail and
    interleave. Buffered mutations are applied in order and at most once, and an outage of the primary is survived.
    \<open>ReadRouting\<close> (\<open>lib/database-router.ts\<close>) adds the monitor of the replica, which shares the target of reads: they avoid
    a replica exactly while it lags, as long as the primary is reachable.
  \<^item> Topic index: \<open>JsonText\<close> (texts of JSON values determine the values) and \<open>TopicIndexer\<close> (\<open>lib/soroban-topic-indexer.ts\<close>).
    Hashes identify topics, the symbols are complete, and symbols in a query cannot change it.
  \<^item> This theory holds the properties that span components: the replay guard reads from the header of a
    signed webhook what was signed; a payment whose transaction committed reaches the channels through the
    relay; the lease of a stream excludes the transactions of its own wallet.

  \<^bold>\<open>How the code is modelled.\<close> Interfaces and classes are records with the source's field names (prefixed where
  two of them clash), unions are datatypes, thrown errors are values of a sum type, tables are lists of
  rows with the unique constraints of the Prisma schema, and every exported operation is one definition.
  Strings are lists of code units below 256. Asynchronous code is sequential where one caller is considered;
  \<open>Delivery\<close> and \<open>OutboxRelay\<close> interleave the awaited calls of their workers, and \<open>SessionManager\<close> separates the
  reads of a rotation from its writes.

  \<^bold>\<open>Parameters.\<close> Code outside the repository is an argument of the definitions: SHA-256 and HMAC, the JWT
  library, UUIDs, the clock, Redis, DNS and remote servers, Horizon, the decoder of contract events, queue and realtime channel, KMS signers,
  \<open>localeCompare\<close>. What the program
  relies on is a named hypothesis of the theorems that need it: \<open>redis_contract\<close>, \<open>nx_store\<close> and \<open>lease_contract\<close>
  for Redis, \<open>horizon_serves\<close> for the pages of Horizon, \<open>hmac_shape\<close> and freedom of collisions among the data considered for hashes. Witnesses instantiate the
  parameters, Redis with the program's own in-memory cache.

  \<^bold>\<open>Termination.\<close> All loops are total functions with termination proofs, no definition that models code uses fuel (the reader of SQL literals in \<open>TopicIndexer\<close>, part of a statement, is
  bounded by the number of literals): the redirect loop is
  bounded by the redirect limit, the byte readers by the remaining length, the catch-up pass by its number of
  pages, and a delivery run by a rank. Machines without an end, such as streams and relays, are folds over
  arbitrary lists of events.

  \<^bold>\<open>Deviations from the promise of the code\<close> that the proofs showed are stated as lemmas beside the properties,
  for example \<open>lost_gate_delivers_twice\<close>, \<open>future_request_is_replayed\<close>, \<open>nonce_moves_into_payload\<close>,
  \<open>concurrent_rotations_both_succeed\<close>, \<open>merkle_odd_duplicate_root\<close>, \<open>mapped_loopback_not_blocked\<close>,
  \<open>foreign_conditions_throw\<close>, \<open>skipped_pages_stall\<close>, \<open>second_payment_of_transaction_is_dropped\<close>,
  \<open>late_failure_reopens_processed\<close>, \<open>late_mutation_is_stranded\<close>, \<open>minutes_of_lag_pass\<close>, \<open>route_replays_to_strangers\<close> and \<open>stream_lease_stops_ingestion\<close>.

  \<^bold>\<open>Not modelled.\<close> The generated Prisma client; Fastify routes, request schemas and configuration; the polling
  of the Soroban indexer and the parsing of XDR, which rest on the Stellar SDK; job queues, dispatch workers and
  provider clients; the web application, the command line tools and the repository's scripts; log and
  message texts. These rest on libraries or hold little logic of their own; of the program's own logic, the
  price and liquidity sentinels (floating-point arithmetic) and the KMS signer are left.
\<close>

section \<open>Signed webhooks and the replay guard\<close>

definition only_signature_header :: "string \<Rightarrow> string \<Rightarrow> header_field" where
  "only_signature_header v h = (if h = REPLAY_SIGNATURE_HEADER then HF_string v else HF_absent)"

lemma trim_plain_fields:
  assumes "plain ts" "plain n" "plain sg"
  shows "trim (''t='' @ ts @ '',n='' @ n @ '',v1='' @ sg) = ''t='' @ ts @ '',n='' @ n @ '',v1='' @ sg"
proof -
  have "list_all (\<lambda>c. \<not> is_space c) x" if "plain x" for x using that by (auto simp: plain_def list_all_iff)
  moreover have "list_all (\<lambda>c. \<not> is_space c) ''t=''" "list_all (\<lambda>c. \<not> is_space c) '',n=''" "list_all (\<lambda>c. \<not> is_space c) '',v1=''"
    by code_simp+
  ultimately have "list_all (\<lambda>c. \<not> is_space c) (''t='' @ ts @ '',n='' @ n @ '',v1='' @ sg)"
    using assms by (simp only: list_all_append)
  then show ?thesis unfolding list_all_iff by (intro trim_id) blast
qed

lemma extract_signature_header:
  assumes "trim v = v" "v \<noteq> []" "length v \<le> 8192"
  shows "extractReplayHeaders (only_signature_header v) =
    (map_of (signature_fields [] (split_on CHR '','' v)) ''n'', map_of (signature_fields [] (split_on CHR '','' v)) ''t'')"
proof -
  have no: "header (only_signature_header v REPLAY_NONCE_HEADER) = None"
    "header (only_signature_header v REPLAY_TIMESTAMP_HEADER) = None"
    by (simp_all add: only_signature_header_def REPLAY_NONCE_HEADER_def REPLAY_TIMESTAMP_HEADER_def REPLAY_SIGNATURE_HEADER_def)
  have yes: "header (only_signature_header v REPLAY_SIGNATURE_HEADER) = Some v"
    using assms by (simp add: only_signature_header_def)
  show ?thesis using assms by (simp add: extractReplayHeaders_def no yes or_field_def Let_def)
qed

lemma signature_fields_built:
  assumes "plain ts" "plain n" "plain sg"
  shows "map_of (signature_fields [] [''t='' @ ts, ''n='' @ n, ''v1='' @ sg]) ''n'' = Some n"
    and "map_of (signature_fields [] [''t='' @ ts, ''n='' @ n, ''v1='' @ sg]) ''t'' = Some ts"
proof -
  have t: "trim ''t'' = ''t''" "trim ''n'' = ''n''" "trim ''v1'' = ''v1''" by code_simp+
  show "map_of (signature_fields [] [''t='' @ ts, ''n='' @ n, ''v1='' @ sg]) ''n'' = Some n"
    and "map_of (signature_fields [] [''t='' @ ts, ''n='' @ n, ''v1='' @ sg]) ''t'' = Some ts"
    using assms t by (simp_all add: plain_trim Let_def)
qed

text \<open>The signer and the replay guard agree on the header: from a request whose only header is the signature
  header of a signed webhook, the guard extracts the nonce and the timestamp that were signed.\<close>

theorem replay_guard_reads_signed_header:
  assumes "hmac_shape hmac" "timestamp_ok ts" "nonce_ok n" "n \<noteq> []"
  shows "extractReplayHeaders (only_signature_header (headerValue (generateWebhookSignature hmac body secret ts n)))
      = (Some n, Some (nat_str ts))
    \<and> parseTimestamp (T_string (nat_str ts)) = TS_value (int ts)"
proof
  let ?sg = "hmac secret (buildWebhookDataToSign body ts n)" and ?t = "nat_str ts"
  have sg: "length ?sg = 64" "plain ?sg" using assms(1) by (auto simp: hmac_shape_def SIGNATURE_HEX_REGEX_def intro: plain_hex)
  have pl: "plain ?t" "plain n" "plain ?sg" using nat_str_hex plain_hex sg assms(3) by (auto simp: nonce_ok_def)
  have len: "length (''t='' @ ?t @ '',n='' @ n @ '',v1='' @ ?sg) \<le> 8192"
    using nat_str_safe_length [OF assms(2)] assms(3) sg(1) by (simp add: nonce_ok_def MAX_NONCE_LENGTH_def)
  have h: "headerValue (generateWebhookSignature hmac body secret ts n) = ''t='' @ ?t @ '',n='' @ n @ '',v1='' @ ?sg"
    using assms(4) by (simp add: generateWebhookSignature_def buildWebhookHeaderValue_def Let_def)
  show "extractReplayHeaders (only_signature_header (headerValue (generateWebhookSignature hmac body secret ts n)))
      = (Some n, Some ?t)"
    unfolding h
    by (subst extract_signature_header [OF trim_plain_fields [OF pl] _ len], simp)
      (simp only: split_built(1) [OF pl] signature_fields_built [OF pl])
  have "ts < 2 ^ 1024"
  proof -
    have "ts < 2 ^ 53" using assms(2) by (simp add: timestamp_ok_def MAX_SAFE_INTEGER_def)
    also have "\<dots> \<le> 2 ^ 1024" by (rule power_increasing) simp_all
    finally show ?thesis .
  qed
  then have "js_number ?t = Some (of_nat ts)"
    using js_number_digits [of ?t] nat_str_digits by (simp add: list_all_iff)
  then show "parseTimestamp (T_string ?t) = TS_value (int ts)"
    using assms(2) by (simp add: parseTimestamp_def timestamp_ok_def)
qed

theorem replay_guard_reads_signed_header_witness:
  "extractReplayHeaders (only_signature_header (headerValue (generateWebhookSignature sample_hmac ''{}'' ''s1'' 1700000000000 ''n-1'')))
     = (Some ''n-1'', Some (nat_str 1700000000000))"
  using replay_guard_reads_signed_header [OF sample_hmac_shape, of 1700000000000 "''n-1''" "''{}''" "''s1''"]
  by (simp add: timestamp_ok_def nonce_ok_def plain_def MAX_SAFE_INTEGER_def MAX_NONCE_LENGTH_def is_space_def control_char_def)

section \<open>From the ledger to the channels\<close>

text \<open>C5. A payment reaches the channels even if the watcher fails right after its transaction: when a record of an
  unknown transaction is processed under the lock and the rules decide, then a relay that polls the events
  the transaction recorded publishes the payment on the realtime channel, and hands it to the alert queue if the
  rules admit it, whether or not the watcher's own publishing and queueing worked.\<close>

theorem ingested_payment_is_relayed:
  assumes "ingest_ok new_ids s" "inj new_ids" "new_id env = new_ids" "lock_ok env"
    and "decode_record (decs env) r = Some d" "getHorizonTxHash r \<notin> pay_txHash ` set (payments s)"
    and "early_decision env w r d False = Inr (send, rules)" "s' = snd (process_core env w r k s)"
    and "inj row_ids" "now \<le> t" "sorted (t # ts)" "length (outbox s') \<le> 50 * length ts"
    and "relayed = set (sent (polls (\<lambda>_. None) ts \<lparr>rows = relay_rows row_ids now (outbox s'), sent = []\<rparr>))"
  shows "(\<exists>i. Realtime i (new_id env (length (payments s))) (getHorizonTxHash r) \<in> relayed)
    \<and> (send \<longrightarrow> (\<exists>i. Alert_job i (new_id env (length (payments s))) (getHorizonTxHash r) \<in> relayed))"
proof -
  let ?p = "new_payment env w r d s"
  obtain n g s1 where t: "ingest_tx env w r d send k s = (n, g, s1)" by (cases "ingest_tx env w r d send k s") auto
  have "outbox s' = outbox s @ (if send then [outbox_event payment_alert ?p] else []) @ [outbox_event payment_realtime ?p]"
    using process_core_new(1)[OF assms(5-7,4) t] ingest_tx_new(2)[OF assms(6,1-3), of w d send k] t assms(8)
    by (simp add: after_insert_tables)
  then have ev: "outbox_event payment_realtime ?p \<in> set (outbox s')" "send \<Longrightarrow> outbox_event payment_alert ?p \<in> set (outbox s')"
    by simp_all
  note ready = relay_rows_ready[OF assms(9,10), of "outbox s'"]
  have "\<forall>q \<in> set (relay_rows row_ids now (outbox s')). open_row q \<longrightarrow> effect_of q \<in> relayed"
    using drains_all[of "\<lparr>rows = relay_rows row_ids now (outbox s'), sent = []\<rparr>" t ts] ready assms(11-13) by simp
  then show ?thesis using relay_rows_event[OF ev(1), of row_ids now] relay_rows_event[OF ev(2), of row_ids now]
    by (auto simp: outbox_event_def new_payment_def) (metis+)
qed

theorem ingested_payment_is_relayed_witness:
  "\<exists>i. Realtime i ''0'' ''h'' \<in> set (sent (polls (\<lambda>_. None) [5] \<lparr>rows = relay_rows nat_str 0
     (outbox (snd (process_core failing_env sample_wallet (sample_record ''7'' ''h'') False empty_ingest))), sent = []\<rparr>))"
proof -
  let ?r = "sample_record ''7'' ''h''"
  let ?s = "snd (process_core failing_env sample_wallet ?r False empty_ingest)"
  obtain d where d: "decode_record (decs failing_env) ?r = Some d" "early_decision failing_env sample_wallet ?r d False = Inr (True, [])"
    using failing_decision by blast
  have h: "ingest_ok nat_str empty_ingest" "new_id failing_env = nat_str" "lock_ok failing_env"
      "getHorizonTxHash ?r \<notin> pay_txHash ` set (payments empty_ingest)"
    by (simp_all add: ingest_ok_def empty_ingest_def failing_env_def calm_env_def)
  have "length (outbox ?s) \<le> 50 * length [5 :: int]"
  proof -
    obtain n g s1 where t: "ingest_tx failing_env sample_wallet ?r d True False empty_ingest = (n, g, s1)"
      by (cases "ingest_tx failing_env sample_wallet ?r d True False empty_ingest") auto
    show ?thesis
      using process_core_new(1)[OF d(1) h(4) d(2) h(3) t] ingest_tx_new(2)[OF h(4,1) inj_nat_str h(2), of sample_wallet d True False] t
      by (simp add: after_insert_tables empty_ingest_def)
  qed
  from ingested_payment_is_relayed [OF h(1) inj_nat_str h(2,3) d(1) h(4) d(2) refl inj_nat_str _ _ this refl, of 0 5]
  have "\<exists>i. Realtime i (nat_str 0) (getHorizonTxHash ?r) \<in> set (sent (polls (\<lambda>_. None) [5] \<lparr>rows = relay_rows nat_str 0 (outbox ?s), sent = []\<rparr>))"
    by (simp add: h(2) empty_ingest_def)
  moreover have "nat_str 0 = ''0''" "getHorizonTxHash ?r = ''h''" by code_simp+
  ultimately show ?thesis by simp
qed

section \<open>The lock of a stream and the lock of a transaction\<close>

text \<open>
  A worker that streams a wallet holds a lease on its key, and the transaction of every record of the wallet
  needs the short lock on the same key: while the lease lasts, no record is ingested, neither from the
  stream nor from a poll, and every one of them fails.
\<close>

lemma stream_lease_stops_ingestion:
  assumes "lease_contract c" "leased (lr_get c) (getWalletLockKey (w_id w)) v' t u r" "t \<le> at_time (att 0)"
    and "others_respect c att (getWalletLockKey (w_id w)) v' u"
    and "\<And>n. at_time (att n) \<le> at_time (att (Suc n)) \<and> at_time (att n) < u"
    and "lock_ok env \<longleftrightarrow> fst (withWalletLock c att (w_id w) fn opts v rel broken r) \<noteq> Inr None"
    and "decode_record (decs env) rec = Some d" "\<And>b. \<not> isl (early_decision env w rec d b)"
  shows "process_core env w rec k s = (Inl Lock_not_acquired, s)"
proof -
  have "\<not> lock_ok env" using held_lock_blocks_short_lock[OF assms(1,4,2,3,5)] assms(6) by simp
  then show ?thesis using assms(7,8) by (auto simp: process_core_def isl_def split: sum.splits)
qed

end
